(* ===== verification/Prelude.thy ===== *)
theory Prelude
  imports Main "HOL-Library.Word" "HOL-Library.Monad_Syntax"
begin

text \<open>
  Shared ground of the development: the machine types of the 32-bit kernel, the error codes of
  include/libk/kerrors.h, the counting loop \<open>for (size_t i = a; i < b; i++)\<close> with its reduction to
  a fold over the indices it visits, and the facts about words and options that several
  components use.  Failing calls are values of type \<open>option\<close>: None stands for a call that never
  returns a value (it dereferences NULL, divides by zero, accesses memory out of range, or loops).
\<close>

unbundle bit_operations_syntax

named_theorems word_index \<open>unat of the word expressions that serve as indices\<close>

section \<open>Machine types\<close>

type_synonym u8 = "8 word"
type_synonym u16 = "16 word"
type_synonym u32 = "32 word"

section \<open>Error codes\<close>

text \<open>Success codes are 0, failures are returned negated.  A code is an \<open>err_t\<close>, a 32-bit int.\<close>

type_synonym err_t = int

abbreviation SUCC :: err_t where "SUCC \<equiv> 0"
abbreviation MEM_FREE_FAIL :: err_t where "MEM_FREE_FAIL \<equiv> 2"
abbreviation LOCK_INIT_FAIL :: err_t where "LOCK_INIT_FAIL \<equiv> 1"
abbreviation LOCK_ACQ_FAIL :: err_t where "LOCK_ACQ_FAIL \<equiv> 2"
abbreviation LOCK_REL_FAIL :: err_t where "LOCK_REL_FAIL \<equiv> 3"
abbreviation SLAB_FREE_FAIL :: err_t where "SLAB_FREE_FAIL \<equiv> 1"
abbreviation SLAB_INIT_FAIL :: err_t where "SLAB_INIT_FAIL \<equiv> 2"
abbreviation THREAD_FAILURE :: err_t where "THREAD_FAILURE \<equiv> 1"
abbreviation THREAD_CREATE_FAIL :: err_t where "THREAD_CREATE_FAIL \<equiv> 2"
abbreviation TERM_INIT_FAIL :: err_t where "TERM_INIT_FAIL \<equiv> 1"
abbreviation LINE_INIT_FAIL :: err_t where "LINE_INIT_FAIL \<equiv> 1"
abbreviation LINE_FLUSH_FAIL :: err_t where "LINE_FLUSH_FAIL \<equiv> 2"
abbreviation LINE_IN_FAIL :: err_t where "LINE_IN_FAIL \<equiv> 3"
abbreviation LINE_OUT_FAIL :: err_t where "LINE_OUT_FAIL \<equiv> 4"

definition kerror_is_failure :: "err_t \<Rightarrow> bool" where
  "kerror_is_failure err \<longleftrightarrow> \<not> \<not> (err \<noteq> 0)"

section \<open>Words as indices\<close>

lemma unat_Suc_less [word_index]:
  fixes i e :: u32
  assumes "i < e"
  shows "unat (i + 1) = Suc (unat i)"
proof -
  have "unat i < unat e" using assms by (simp add: word_less_nat_alt)
  moreover have "unat e < 2 ^ 32" using unsigned_less [of e] by simp
  ultimately show ?thesis by (simp add: unat_word_ariths)
qed

lemma unat_add_nowrap:
  fixes a b :: u32
  shows "unat a + unat b < 2 ^ 32 \<Longrightarrow> unat (a + b) = unat a + unat b"
  by (simp add: unat_word_ariths)

lemma unat_of_nat_u32 [word_index]: "n < 2 ^ 32 \<Longrightarrow> unat (of_nat n :: u32) = n"
  by (simp add: unat_of_nat)

lemma of_nat_less_u32 [word_index]:
  "m < 2 ^ 32 \<Longrightarrow> n < 2 ^ 32 \<Longrightarrow> (of_nat m :: u32) < of_nat n \<longleftrightarrow> m < n"
  by (simp add: word_less_nat_alt unat_of_nat)

lemma of_nat_eq_u32 [word_index]:
  assumes "m < 2 ^ 32" and "n < 2 ^ 32"
  shows "(of_nat m :: u32) = of_nat n \<longleftrightarrow> m = n"
proof
  assume "(of_nat m :: u32) = of_nat n"
  then have "unat (of_nat m :: u32) = unat (of_nat n :: u32)" by simp
  with assms show "m = n" by (simp add: unat_of_nat_u32)
qed simp

lemma unat_u32_less [simp]: "unat (w :: u32) < 4294967296"
  using unsigned_less [of w] by simp

lemma sint_small:
  fixes n :: u32
  assumes "unat n < 2 ^ 31"
  shows "sint n = int (unat n)"
proof -
  have "int (unat n) < int (2 ^ 31)" using assms by (rule of_nat_less_iff [THEN iffD2])
  then have "uint n < 2 ^ 31" by simp
  moreover have "- (2 ^ 31) \<le> uint n" by (rule order_trans [OF _ uint_ge_0]) simp
  ultimately show ?thesis by (simp add: sint_uint signed_take_bit_int_eq_self_iff)
qed

section \<open>The counting loop\<close>

text \<open>\<open>for (i = a; i < e; i++) s = f(i, s)\<close> over \<open>size_t\<close>; \<open>i\<close> cannot wrap, as it stops at \<open>e\<close>.\<close>

function for_loop :: "u32 \<Rightarrow> u32 \<Rightarrow> (u32 \<Rightarrow> 's \<Rightarrow> 's) \<Rightarrow> 's \<Rightarrow> 's" where
  "for_loop i e f s = (if i < e then for_loop (i + 1) e f (f i s) else s)"
  by pat_completeness auto
termination
  by (relation "measure (\<lambda>(i, e, _, _). unat e - unat i)")
     (auto simp: word_index word_less_nat_alt)

declare for_loop.simps [simp del]

lemma for_loop_done [simp]: "\<not> i < e \<Longrightarrow> for_loop i e f s = s"
  by (simp add: for_loop.simps)

lemma for_loop_step: "i < e \<Longrightarrow> for_loop i e f s = for_loop (i + 1) e f (f i s)"
  by (subst for_loop.simps) simp

definition indices :: "u32 \<Rightarrow> u32 \<Rightarrow> u32 list" where
  "indices i e = map of_nat [unat i..<unat e]"

lemma indices_Cons:
  assumes "i < e"
  shows "indices i e = i # indices (i + 1) e"
  using assms by (simp add: indices_def word_index upt_conv_Cons word_less_nat_alt)

lemma indices_Nil [simp]: "\<not> i < e \<Longrightarrow> indices i e = []"
  by (simp add: indices_def word_less_nat_alt)

lemma set_indices: "set (indices i e) = {j. i \<le> j \<and> j < e}"
proof -
  have "j \<in> of_nat ` {unat i..<unat e}" if "i \<le> j" and "j < e" for j
    using that by (intro image_eqI [where x = "unat j"]) (auto simp: word_less_nat_alt word_le_nat_alt)
  moreover have "i \<le> of_nat k \<and> (of_nat k :: u32) < e" if "k \<in> {unat i..<unat e}" for k
  proof -
    have "k < 2 ^ 32" using that unsigned_less [of e] by (auto intro: less_trans)
    then show ?thesis using that by (simp add: word_less_nat_alt word_le_nat_alt unat_of_nat)
  qed
  ultimately show ?thesis by (auto simp: indices_def)
qed

lemma distinct_indices [simp]: "distinct (indices i e)"
proof -
  have "inj_on (of_nat :: nat \<Rightarrow> u32) {unat i..<unat e}"
  proof (rule inj_onI)
    fix x y
    assume xy: "x \<in> {unat i..<unat e}" "y \<in> {unat i..<unat e}" "(of_nat x :: u32) = of_nat y"
    have "x < 2 ^ 32" "y < 2 ^ 32" using xy unsigned_less [of e] by (auto intro: less_trans)
    with xy(3) show "x = y" by (simp add: of_nat_eq_u32)
  qed
  then show ?thesis by (simp add: indices_def distinct_map)
qed

lemma length_indices [simp]: "length (indices i e) = unat e - unat i"
  by (simp add: indices_def)

lemma for_loop_fold: "for_loop i e f s = fold f (indices i e) s"
proof (induction i e f s rule: for_loop.induct)
  case (1 i e f s)
  then show ?case
    by (cases "i < e") (simp_all add: for_loop_step indices_Cons)
qed

text \<open>The same loop with a body that may fail.\<close>

function for_loop_m :: "u32 \<Rightarrow> u32 \<Rightarrow> (u32 \<Rightarrow> 's \<Rightarrow> 's option) \<Rightarrow> 's \<Rightarrow> 's option" where
  "for_loop_m i e f s =
     (if i < e then (case f i s of None \<Rightarrow> None | Some s' \<Rightarrow> for_loop_m (i + 1) e f s') else Some s)"
  by pat_completeness auto
termination
  by (relation "measure (\<lambda>(i, e, _, _). unat e - unat i)")
     (auto simp: word_index word_less_nat_alt)

declare for_loop_m.simps [simp del]

lemma for_loop_m_done [simp]: "\<not> i < e \<Longrightarrow> for_loop_m i e f s = Some s"
  by (simp add: for_loop_m.simps)

lemma for_loop_m_step:
  "i < e \<Longrightarrow> for_loop_m i e f s = (case f i s of None \<Rightarrow> None | Some s' \<Rightarrow> for_loop_m (i + 1) e f s')"
  by (subst for_loop_m.simps) simp

section \<open>Arrays\<close>

text \<open>An array access outside the array is None.\<close>

definition arr_get :: "'a list \<Rightarrow> u32 \<Rightarrow> 'a option" where
  "arr_get xs i = (if unat i < length xs then Some (xs ! unat i) else None)"

definition arr_put :: "'a list \<Rightarrow> u32 \<Rightarrow> 'a \<Rightarrow> 'a list option" where
  "arr_put xs i v = (if unat i < length xs then Some (xs[unat i := v]) else None)"

lemma fill_array:
  "unat e \<le> length xs \<Longrightarrow> unat i \<le> unat e \<Longrightarrow>
     for_loop_m i e (\<lambda>i xs. arr_put xs i v) xs =
     Some (take (unat i) xs @ replicate (unat e - unat i) v @ drop (unat e) xs)"
proof (induction i e "\<lambda>i xs. arr_put xs i v" xs rule: for_loop_m.induct)
  case (1 i e xs)
  show ?case
  proof (cases "i < e")
    case lt: True
    then have si: "unat (i + 1) = Suc (unat i)" by (rule unat_Suc_less)
    have ie: "unat i < unat e" using lt by (simp add: word_less_nat_alt)
    then have put: "arr_put xs i v = Some (xs[unat i := v])" using "1.prems" by (simp add: arr_put_def)
    have "for_loop_m (i + 1) e (\<lambda>i xs. arr_put xs i v) (xs[unat i := v]) =
      Some (take (unat (i + 1)) (xs[unat i := v]) @ replicate (unat e - unat (i + 1)) v @
            drop (unat e) (xs[unat i := v]))"
      using "1.prems" ie si put by (intro "1.hyps" [OF lt]) auto
    moreover have "take (Suc (unat i)) (xs[unat i := v]) = take (unat i) xs @ [v]"
      using ie "1.prems" by (simp add: take_Suc_conv_app_nth)
    moreover have "replicate (unat e - unat i) v = v # replicate (unat e - Suc (unat i)) v"
      using ie by (simp add: Suc_diff_Suc flip: replicate_Suc)
    ultimately show ?thesis using lt put si ie by (simp add: for_loop_m_step)
  next
    case False
    then have "unat i = unat e" using "1.prems" by (simp add: word_less_nat_alt)
    then show ?thesis using False by simp
  qed
qed

section \<open>Options\<close>

lemma bind_eq_SomeE:
  assumes "m \<bind> f = Some y"
  obtains x where "m = Some x" and "f x = Some y"
  using assms by (cases m) auto

section \<open>Simulation\<close>

text \<open>A sequence of requests to a component, with the answers, or None as soon as one of them has none.\<close>

fun run_all :: "('r \<Rightarrow> 's \<Rightarrow> ('x \<times> 's) option) \<Rightarrow> 'r list \<Rightarrow> 's \<Rightarrow> ('x list \<times> 's) option" where
  "run_all f [] s = Some ([], s)"
| "run_all f (r # rs) s = do { (x, s) \<leftarrow> f r s; (xs, s) \<leftarrow> run_all f rs s; Some (x # xs, s) }"

text \<open>The contract of a refinement: whatever the abstract component \<open>astep\<close> answers, the concrete one
  \<open>cstep\<close> answers too, in related states.  Requests that the abstract component does not answer are
  errors of the client.\<close>

locale simulation =
  fixes cstep :: "'r \<Rightarrow> 'c \<Rightarrow> ('x \<times> 'c) option" and astep :: "'r \<Rightarrow> 'a \<Rightarrow> ('x \<times> 'a) option"
    and rel :: "'c \<Rightarrow> 'a \<Rightarrow> bool"
  assumes step: "rel c a \<Longrightarrow> astep r a = Some (x, a') \<Longrightarrow> \<exists>c'. cstep r c = Some (x, c') \<and> rel c' a'"
begin

lemma trace:
  "rel c a \<Longrightarrow> run_all astep rs a = Some (xs, a') \<Longrightarrow> \<exists>c'. run_all cstep rs c = Some (xs, c') \<and> rel c' a'"
proof (induction rs arbitrary: c a xs)
  case (Cons r rs)
  from Cons.prems(2) obtain x a1 xs1 where a: "astep r a = Some (x, a1)" "run_all astep rs a1 = Some (xs1, a')"
      "xs = x # xs1"
    by (auto split: option.splits bind_splits)
  obtain c1 where "cstep r c = Some (x, c1)" "rel c1 a1" using step [OF Cons.prems(1) a(1)] by blast
  then show ?case using Cons.IH [OF _ a(2)] a(3) by fastforce
qed simp

end

end
