(* ===== verification/Ports.thy ===== *)
theory Ports
  imports Prelude
begin

text \<open>
  kernel/port\_io.c and drivers/serial.c.  What the processor sends to and asks of the devices is a
  log of port accesses; \<open>dev\<close> stands for the devices: the value a port gives when it is read,
  depending on all accesses before.
\<close>

datatype port_access = Outb u16 u8 | Outw u16 u16 | Inb u16 | Inw u16

record ports =
  port_log :: "port_access list"
  dev :: "port_access list \<Rightarrow> u16 \<Rightarrow> u16"

section \<open>Port input and output\<close>

definition outb :: "u16 \<Rightarrow> u8 \<Rightarrow> ports \<Rightarrow> ports" where
  "outb port val p = p\<lparr>port_log := port_log p @ [Outb port val]\<rparr>"

definition inb :: "u16 \<Rightarrow> ports \<Rightarrow> u8 \<times> ports" where
  "inb port p = (ucast (dev p (port_log p) port), p\<lparr>port_log := port_log p @ [Inb port]\<rparr>)"

definition outw :: "u16 \<Rightarrow> u16 \<Rightarrow> ports \<Rightarrow> ports" where
  "outw port val p = p\<lparr>port_log := port_log p @ [Outw port val]\<rparr>"

definition inw :: "u16 \<Rightarrow> ports \<Rightarrow> u16 \<times> ports" where
  "inw port p = (dev p (port_log p) port, p\<lparr>port_log := port_log p @ [Inw port]\<rparr>)"

section \<open>The serial port\<close>

abbreviation COM1 :: u16 where "COM1 \<equiv> 0x3F8"
abbreviation COM1_LSR :: u16 where "COM1_LSR \<equiv> COM1 + 5"
abbreviation SERIAL_TIMEOUT :: nat where "SERIAL_TIMEOUT \<equiv> 50000"

text \<open>\<open>init_serial\<close>; the result tells whether the chip answered, in which case the caller's
  interrupt handlers for \<open>IRQ03\<close> and \<open>IRQ04\<close> are registered (theory Isr).\<close>

definition init_serial :: "ports \<Rightarrow> bool \<times> ports" where
  "init_serial p =
     (let p = outb (COM1 + 1) 0x00 p;
          p = outb (COM1 + 3) 0x80 p;
          p = outb (COM1 + 0) 0x03 p;
          p = outb (COM1 + 1) 0x00 p;
          p = outb (COM1 + 3) 0x03 p;
          p = outb (COM1 + 2) 0xC7 p;
          p = outb (COM1 + 4) 0x0B p;
          p = outb (COM1 + 4) 0x1E p;
          p = outb (COM1 + 0) 0xAE p;
          (v, p) = inb (COM1 + 0) p
      in if v \<noteq> 0xAE then (False, p) else (True, outb (COM1 + 4) 0x0F p))"

definition serial_received :: "ports \<Rightarrow> bool \<times> ports" where
  "serial_received p = (let (v, p) = inb COM1_LSR p in (bit v 0, p))"

definition serial_transmit_empty :: "ports \<Rightarrow> bool \<times> ports" where
  "serial_transmit_empty p = (let (v, p) = inb COM1_LSR p in (bit v 5, p))"

text \<open>\<open>has_buf\<close>: the buffer is not NULL; the second result is what is written to it.\<close>

definition serial_read :: "bool \<Rightarrow> ports \<Rightarrow> int \<times> u8 option \<times> ports" where
  "serial_read has_buf p =
     (let (r, p) = serial_received p
      in if r then if has_buf then let (v, p) = inb COM1 p in (0, Some v, p) else (0, None, p)
         else (-1, None, p))"

definition serial_send :: "u8 \<Rightarrow> ports \<Rightarrow> int \<times> ports" where
  "serial_send byte p =
     (let (e, p) = serial_transmit_empty p
      in if \<not> e then (-1, p) else (0, outb COM1 byte p))"

text \<open>\<open>while (ret == -1 && try_no < SERIAL_TIMEOUT)\<close> with \<open>k\<close> tries left.\<close>

fun serial_retry :: "u8 \<Rightarrow> nat \<Rightarrow> int \<Rightarrow> ports \<Rightarrow> ports" where
  "serial_retry c 0 ret p = p"
| "serial_retry c (Suc k) ret p =
     (if ret = -1 then let (ret, p) = serial_send c p in serial_retry c k ret p else p)"

definition serial_putc :: "u8 \<Rightarrow> ports \<Rightarrow> ports" where
  "serial_putc c p = (let (ret, p) = serial_send c p in serial_retry c SERIAL_TIMEOUT ret p)"

fun serial_puts :: "u8 list \<Rightarrow> ports \<Rightarrow> ports" where
  "serial_puts [] p = p"
| "serial_puts (c # s) p = serial_puts s (serial_putc c p)"

definition serial_clear :: "ports \<Rightarrow> ports" where
  "serial_clear p = serial_puts [27, 91, 50, 74, 27, 91, 72] p"

section \<open>Correctness\<close>

text \<open>The bytes sent to a port, in order.\<close>

fun sent_to :: "u16 \<Rightarrow> port_access list \<Rightarrow> u8 list" where
  "sent_to q [] = []"
| "sent_to q (Outb r v # l) = (if r = q then v # sent_to q l else sent_to q l)"
| "sent_to q (_ # l) = sent_to q l"

lemma sent_to_append [simp]: "sent_to q (l @ l') = sent_to q l @ sent_to q l'"
  by (induction q l rule: sent_to.induct) auto

lemma serial_send_cases:
  "serial_send c p = (-1, p\<lparr>port_log := port_log p @ [Inb COM1_LSR]\<rparr>) \<or>
   serial_send c p = (0, p\<lparr>port_log := port_log p @ [Inb COM1_LSR, Outb COM1 c]\<rparr>)"
  by (simp add: serial_send_def serial_transmit_empty_def inb_def outb_def)

lemma serial_retry_done [simp]: "ret \<noteq> -1 \<Longrightarrow> serial_retry c k ret p = p"
  by (cases k) simp_all

text \<open>What the status polls leave in the log: \<open>n\<close> reads of the line status.\<close>

definition polled :: "nat \<Rightarrow> ports \<Rightarrow> ports" where
  "polled n p = p\<lparr>port_log := port_log p @ replicate n (Inb COM1_LSR)\<rparr>"

lemma polled_0 [simp]: "polled 0 p = p"
  by (simp add: polled_def)

lemma polled_polled [simp]: "polled m (polled n p) = polled (n + m) p"
  by (simp add: polled_def replicate_add)

definition ready_at :: "ports \<Rightarrow> nat \<Rightarrow> bool" where
  "ready_at p n \<longleftrightarrow> fst (serial_transmit_empty (polled n p))"

lemma ready_at_polled: "ready_at (polled n p) k = ready_at p (n + k)"
  by (simp add: ready_at_def)

lemma serial_send_polled:
  "serial_send c p = (if ready_at p 0 then (0, outb COM1 c (polled 1 p)) else (-1, polled 1 p))"
  by (simp add: serial_send_def serial_transmit_empty_def ready_at_def inb_def polled_def)

lemma serial_retry_waits:
  "(\<forall>i<n. \<not> ready_at p i) \<Longrightarrow> ready_at p n \<Longrightarrow> n < k \<Longrightarrow>
     serial_retry c k (-1) p = outb COM1 c (polled (Suc n) p)"
proof (induction n arbitrary: k p)
  case 0
  then show ?case by (cases k) (simp_all add: serial_send_polled)
next
  case (Suc n)
  then obtain k' where k: "k = Suc k'" "n < k'" by (cases k) auto
  have "\<not> ready_at p 0" using Suc.prems(1) by blast
  then have "serial_retry c k (-1) p = serial_retry c k' (-1) (polled 1 p)"
    using k by (simp add: serial_send_polled)
  also have "\<dots> = outb COM1 c (polled (Suc n) (polled 1 p))"
    using Suc.prems k by (intro Suc.IH) (auto simp: ready_at_polled)
  finally show ?case by simp
qed

lemma serial_retry_gives_up:
  "(\<forall>i<k. \<not> ready_at p i) \<Longrightarrow> serial_retry c k (-1) p = polled k p"
proof (induction k arbitrary: p)
  case (Suc k)
  have "\<not> ready_at p 0" using Suc.prems by blast
  then have "serial_retry c (Suc k) (-1) p = serial_retry c k (-1) (polled 1 p)"
    by (simp add: serial_send_polled)
  also have "\<dots> = polled k (polled 1 p)"
    using Suc.prems by (intro Suc.IH) (auto simp: ready_at_polled)
  finally show ?case by simp
qed simp

text \<open>\<open>serial_putc\<close> polls the line status until the transmitter is empty and then sends the
  character once; when 50001 polls in a row find it busy, the character is dropped without an
  error.\<close>

theorem serial_putc_sends_once:
  assumes "\<forall>i<n. \<not> ready_at p i"
  shows "(n \<le> SERIAL_TIMEOUT \<and> ready_at p n \<longrightarrow> serial_putc c p = outb COM1 c (polled (Suc n) p)) \<and>
    (n = Suc SERIAL_TIMEOUT \<longrightarrow> serial_putc c p = polled n p)"
proof (cases n)
  case 0
  then show ?thesis by (simp add: serial_putc_def serial_send_polled)
next
  case (Suc m)
  then have busy: "\<not> ready_at p 0" "\<forall>i<m. \<not> ready_at (polled 1 p) i"
    using assms by (auto simp: ready_at_polled)
  then have put: "serial_putc c p = serial_retry c SERIAL_TIMEOUT (-1) (polled 1 p)"
    by (simp add: serial_putc_def serial_send_polled)
  have "serial_putc c p = outb COM1 c (polled (Suc n) p)" if "n \<le> SERIAL_TIMEOUT" "ready_at p n"
    using put serial_retry_waits [OF busy(2), of SERIAL_TIMEOUT c] that Suc
    by (simp add: ready_at_polled)
  moreover have "serial_putc c p = polled n p" if "n = Suc SERIAL_TIMEOUT"
  proof -
    have "m = SERIAL_TIMEOUT" using that Suc by simp
    then show ?thesis using put serial_retry_gives_up [OF busy(2), of c] Suc by simp
  qed
  ultimately show ?thesis by blast
qed

text \<open>A transmitter that is busy at the first poll and empty afterwards.\<close>

definition demo_ports :: ports where
  "demo_ports = \<lparr>port_log = [], dev = (\<lambda>l q. if l = [] then 0 else 0x20)\<rparr>"

theorem serial_putc_sends_once_witness:
  "port_log (serial_putc 65 demo_ports) = [Inb COM1_LSR, Inb COM1_LSR, Outb COM1 65]"
proof -
  have "\<not> ready_at demo_ports 0" "ready_at demo_ports 1"
    by (simp_all add: ready_at_def demo_ports_def serial_transmit_empty_def inb_def polled_def)
  then show ?thesis using serial_putc_sends_once [of 1 demo_ports 65]
    by (simp add: outb_def polled_def demo_ports_def numeral_2_eq_2)
qed

end
