(* ===== verification/Vesa.thy ===== *)
theory Vesa
  imports Font Ports
begin

text \<open>
  drivers/vesa.c: text and pixels on a linear framebuffer of 32-bit pixels.  \<open>fbm\<close> is physical
  memory by the address of each word; pixel \<open>k\<close> of the framebuffer is the word at
  \<open>framebuffer_addr + 4 * k\<close>, computed modulo \<open>2^32\<close> as the pointer arithmetic does.
\<close>

section \<open>State\<close>

record multiboot_fb =
  mb_framebuffer_addr :: "64 word"
  mb_framebuffer_width :: u32
  mb_framebuffer_height :: u32
  mb_framebuffer_pitch :: u32
  mb_framebuffer_bpp :: u8
  mb_framebuffer_type :: u8
  mb_red_field_position :: u8
  mb_green_field_position :: u8
  mb_blue_field_position :: u8

record vesa =
  fbm :: "u32 \<Rightarrow> u32"
  v_ports :: ports
  framebuffer_addr :: u32
  width :: u32
  height :: u32
  pitch :: u32
  bpp :: u32
  red_mask :: u8
  green_mask :: u8
  blue_mask :: u8
  num_rows :: u32
  num_cols :: u32
  cursor_x :: u32
  cursor_y :: u32
  cursor_on :: u32
  current_x :: u32
  current_y :: u32
  bg_color :: u32
  fg_color :: u32

abbreviation FONT_WIDTH :: u32 where "FONT_WIDTH \<equiv> 8"
abbreviation FONT_HEIGHT :: u32 where "FONT_HEIGHT \<equiv> 16"
abbreviation BLACK :: u32 where "BLACK \<equiv> 0"
abbreviation WHITE :: u32 where "WHITE \<equiv> 0x00ffffff"

text \<open>\<open>(uint8_t) (0xff << pos)\<close>: a byte cannot hold a mask shifted by 8 or more.\<close>

definition field_mask :: "u8 \<Rightarrow> u8" where
  "field_mask pos = ucast (push_bit (unat pos) (0xff :: u32))"

text \<open>The write to port 0x604 powers qemu off; the code behind it is reached only where nothing
  listens there.\<close>

definition init_vesa :: "multiboot_fb \<Rightarrow> vesa \<Rightarrow> vesa" where
  "init_vesa mbi v =
     (let v = v\<lparr>framebuffer_addr := ucast (mb_framebuffer_addr mbi), width := mb_framebuffer_width mbi,
                height := mb_framebuffer_height mbi, pitch := mb_framebuffer_pitch mbi,
                bpp := ucast (mb_framebuffer_bpp mbi)\<rparr>;
          v = (if bpp v \<noteq> 32 \<or> mb_framebuffer_type mbi \<noteq> 1
               then v\<lparr>v_ports := outw 0x604 0x2000 (v_ports v)\<rparr> else v);
          v = v\<lparr>red_mask := field_mask (mb_red_field_position mbi),
                green_mask := field_mask (mb_green_field_position mbi),
                blue_mask := field_mask (mb_blue_field_position mbi)\<rparr>;
          v = v\<lparr>num_cols := width v div FONT_WIDTH, num_rows := height v div FONT_HEIGHT\<rparr>
      in v\<lparr>cursor_x := 0, cursor_y := 0, current_x := 0, current_y := 0, bg_color := BLACK, fg_color := WHITE\<rparr>)"

definition vesa_set_cursor :: "u32 \<Rightarrow> u32 \<Rightarrow> vesa \<Rightarrow> vesa" where
  "vesa_set_cursor x y v =
     (if y \<le> num_rows v \<and> x \<le> num_cols v
      then v\<lparr>current_x := FONT_WIDTH * x, cursor_x := x, current_y := FONT_HEIGHT * y, cursor_y := y\<rparr>
      else v)"

definition vesa_get_cursor_x :: "vesa \<Rightarrow> u32" where "vesa_get_cursor_x v = cursor_x v"
definition vesa_get_cursor_y :: "vesa \<Rightarrow> u32" where "vesa_get_cursor_y v = cursor_y v"
definition vesa_get_cursor_vis :: "vesa \<Rightarrow> u32" where "vesa_get_cursor_vis v = cursor_on v"
definition vesa_get_num_cols :: "vesa \<Rightarrow> u32" where "vesa_get_num_cols v = num_cols v"
definition vesa_get_num_rows :: "vesa \<Rightarrow> u32" where "vesa_get_num_rows v = num_rows v"

section \<open>Drawing\<close>

definition pixel_addr :: "vesa \<Rightarrow> u32 \<Rightarrow> u32" where
  "pixel_addr v k = framebuffer_addr v + 4 * k"

text \<open>The loops over a character cell: \<open>col i j\<close> is what the pixel of bit \<open>j\<close> in row \<open>i\<close> becomes, None
  where it is left alone; \<open>pos\<close> is the index of the pixel \<open>pixel_pos\<close> points to.\<close>

definition cell_row :: "vesa \<Rightarrow> u32 \<Rightarrow> (nat \<Rightarrow> u32 option) \<Rightarrow> (u32 \<Rightarrow> u32) \<Rightarrow> (u32 \<Rightarrow> u32)" where
  "cell_row v pos col m =
     fold (\<lambda>j m. case col j of None \<Rightarrow> m | Some c \<Rightarrow> m(pixel_addr v (pos + (FONT_WIDTH - of_nat j)) := c))
       [0..<8] m"

definition draw_cell :: "(nat \<Rightarrow> nat \<Rightarrow> u32 option) \<Rightarrow> vesa \<Rightarrow> vesa" where
  "draw_cell col v =
     (let pos = current_y v * width v + current_x v
      in v\<lparr>fbm := fold (\<lambda>i m. cell_row v (pos + of_nat i * width v) (col i) m) [0..<16] (fbm v)\<rparr>)"

text \<open>
  Row \<open>i\<close> of the glyph of \<open>c\<close>: \<open>vga_font[c * FONT_HEIGHT + i]\<close>.  \<open>char\<close> is signed, so a character
  from 128 on indexes before the array: None.
\<close>

definition font_row :: "u8 \<Rightarrow> nat \<Rightarrow> u8 option" where
  "font_row c i = (if 0 \<le> sint c then Some (vga_font ! (nat (sint c) * 16 + i)) else None)"

definition vesa_show_cursor :: "vesa \<Rightarrow> vesa" where
  "vesa_show_cursor v =
     (draw_cell (\<lambda>i j. if bit (vga_font ! (219 * 16 + i)) j then Some (fg_color v) else None) v)
       \<lparr>cursor_on := 1\<rparr>"

definition vesa_hide_cursor :: "vesa \<Rightarrow> vesa" where
  "vesa_hide_cursor v = (draw_cell (\<lambda>i j. Some (bg_color v)) v)\<lparr>cursor_on := 0\<rparr>"

definition vesa_set_cursor_vis :: "u8 \<Rightarrow> vesa \<Rightarrow> vesa" where
  "vesa_set_cursor_vis state v = (if state = 1 then vesa_show_cursor v else vesa_hide_cursor v)"

text \<open>The copy loops of \<open>scroll\<close>, and the loops of \<open>vesa_clear_screen\<close>, over \<open>y < h\<close> and \<open>x < width\<close>.\<close>

definition pixel_loop :: "u32 \<Rightarrow> (u32 \<Rightarrow> u32 \<Rightarrow> (u32 \<Rightarrow> u32) \<Rightarrow> (u32 \<Rightarrow> u32)) \<Rightarrow> vesa \<Rightarrow> vesa" where
  "pixel_loop h f v = v\<lparr>fbm := for_loop 0 h (\<lambda>y m. for_loop 0 (width v) (\<lambda>x m. f y x m) m) (fbm v)\<rparr>"

definition scroll :: "vesa \<Rightarrow> vesa" where
  "scroll v =
     (let v = (if cursor_x v \<ge> num_cols v
               then v\<lparr>current_y := current_y v + FONT_HEIGHT, cursor_y := cursor_y v + 1,
                      current_x := 0, cursor_x := 0\<rparr> else v)
      in if cursor_y v \<ge> num_rows v
         then vesa_set_cursor 0 (num_rows v - 1)
                (pixel_loop (height v - 1)
                   (\<lambda>y x m. m(pixel_addr v (y * width v + x) :=
                               m (pixel_addr v ((y + FONT_HEIGHT) * width v + x)))) v)
         else v)"

definition vesa_print_char :: "u8 \<Rightarrow> vesa \<Rightarrow> vesa option" where
  "vesa_print_char c v =
     (if c = 10 then Some (scroll (vesa_set_cursor 0 (cursor_y v + 1) (vesa_hide_cursor v)))
      else if c = 9
      then (let v = vesa_hide_cursor v
            in Some (if cursor_x v \<le> num_cols v - 4
                     then vesa_set_cursor (cursor_x v + 4) (cursor_y v) v
                     else vesa_set_cursor (cursor_x v + (num_cols v - 4)) (cursor_y v) v))
      else if \<forall>i\<in>set [0..<16]. font_row c i \<noteq> None
      then (let v = draw_cell (\<lambda>i j. Some (if bit (the (font_row c i)) j then fg_color v else bg_color v)) v
            in Some (scroll (v\<lparr>current_x := current_x v + FONT_WIDTH, cursor_x := cursor_x v + 1\<rparr>)))
      else None)"

definition vesa_print_backspace :: "vesa \<Rightarrow> vesa" where
  "vesa_print_backspace v =
     (let old_vis = ucast (vesa_get_cursor_vis v) :: u8;
          v = vesa_hide_cursor v;
          v = v\<lparr>cursor_x := cursor_x v - 1\<rparr>;
          v = vesa_set_cursor (cursor_x v) (cursor_y v) v;
          v = draw_cell (\<lambda>i j. Some (bg_color v)) v;
          v = vesa_set_cursor_vis old_vis v
      in scroll v)"

fun vesa_print :: "u8 list \<Rightarrow> vesa \<Rightarrow> vesa option" where
  "vesa_print [] v = Some v"
| "vesa_print (c # s) v = (case vesa_print_char c v of None \<Rightarrow> None | Some v' \<Rightarrow> vesa_print s v')"

definition vesa_println :: "u8 list \<Rightarrow> vesa \<Rightarrow> vesa option" where
  "vesa_println s v = Option.bind (vesa_print s v) (vesa_print_char 10)"

definition vesa_draw :: "u32 \<Rightarrow> u32 \<Rightarrow> u32 \<Rightarrow> vesa \<Rightarrow> vesa" where
  "vesa_draw x y col v = v\<lparr>fbm := (fbm v)(pixel_addr v (y * width v + x) := col)\<rparr>"

definition vesa_clear_screen :: "vesa \<Rightarrow> vesa" where
  "vesa_clear_screen v =
     vesa_set_cursor 0 0
       (pixel_loop (height v) (\<lambda>y x m. m(pixel_addr v (y * width v + x) := bg_color v)) v)"

definition vesa_set_color :: "u32 \<Rightarrow> u32 \<Rightarrow> vesa \<Rightarrow> vesa" where
  "vesa_set_color fg bg v = v\<lparr>fg_color := fg, bg_color := bg\<rparr>"

definition vesa_set_fg_color :: "u32 \<Rightarrow> vesa \<Rightarrow> vesa" where
  "vesa_set_fg_color fg v = v\<lparr>fg_color := fg\<rparr>"

definition vesa_set_bg_color :: "u32 \<Rightarrow> vesa \<Rightarrow> vesa" where
  "vesa_set_bg_color bg v = v\<lparr>bg_color := bg\<rparr>"

definition vesa_set_default_color :: "vesa \<Rightarrow> vesa" where
  "vesa_set_default_color v = v\<lparr>fg_color := WHITE, bg_color := BLACK\<rparr>"

end
