(* ===== verification/VesaProofs.thy ===== *)
theory VesaProofs
  imports Vesa
begin

text \<open>
  What the drawing operations of drivers/vesa.c put into the framebuffer, and the cursor invariant.
  \<open>pixel_at v x y\<close> is the address of the pixel in column \<open>x\<close> of row \<open>y\<close>.
\<close>

section \<open>Folds of updates\<close>

lemma fold_upd_other:
  "x \<notin> a ` set ks \<Longrightarrow> fold (\<lambda>k m. case f k of None \<Rightarrow> m | Some c \<Rightarrow> m(a k := c)) ks m x = m x"
  by (induction ks arbitrary: m) (auto split: option.splits)

lemma fold_upd_at:
  "inj_on a (set ks) \<Longrightarrow> k \<in> set ks \<Longrightarrow>
     fold (\<lambda>k m. case f k of None \<Rightarrow> m | Some c \<Rightarrow> m(a k := c)) ks m (a k) =
       (case f k of None \<Rightarrow> m (a k) | Some c \<Rightarrow> c)"
proof (induction ks arbitrary: m)
  case (Cons h ks)
  let ?upd = "\<lambda>k m. case f k of None \<Rightarrow> m | Some c \<Rightarrow> m(a k := c)"
  show ?case
  proof (cases "k \<in> set ks")
    case True
    have "(case f k of None \<Rightarrow> ?upd h m (a k) | Some c \<Rightarrow> c) = (case f k of None \<Rightarrow> m (a k) | Some c \<Rightarrow> c)"
      using Cons.prems by (auto simp: inj_on_def split: option.splits)
    then show ?thesis using Cons.IH [of "?upd h m"] Cons.prems True by (simp add: inj_on_def)
  next
    case False
    then have h: "h = k" using Cons.prems(2) by simp
    then have "a k \<notin> a ` set ks" using Cons.prems False by (auto simp: inj_on_def)
    then show ?thesis using h fold_upd_other [of "a k" a ks f "?upd k m"] by (auto split: option.splits)
  qed
qed simp

lemma fold_product: "fold (\<lambda>i. fold (f i) ys) xs m = fold (\<lambda>(i, j). f i j) (List.product xs ys) m"
proof (induction xs arbitrary: m)
  case (Cons x xs)
  have "fold (\<lambda>(i, j). f i j) (map (Pair x) ys) m = fold (f x) ys m" for m
    by (simp add: fold_map o_def)
  then show ?case using Cons by simp
qed simp

lemma fold_rows: "fold (\<lambda>y. fold (\<lambda>x. g (y * n + x)) [0..<n]) [0..<h] m = fold g [0..<h * n] (m :: 'm)"
proof (induction h arbitrary: m)
  case (Suc h)
  have "[0..<Suc h * n] = [0..<h * n] @ map (\<lambda>x. h * n + x) [0..<n]"
    using upt_add_eq_append [of 0 "h * n" n] by (simp add: add.commute map_add_upt)
  then show ?case using Suc by (simp add: fold_map o_def)
qed simp

section \<open>Pixels\<close>

definition pixel_at :: "vesa \<Rightarrow> nat \<Rightarrow> nat \<Rightarrow> u32" where
  "pixel_at v x y = pixel_addr v (of_nat (y * unat (width v) + x))"

lemma pixel_addr_inj:
  assumes "pixel_addr v (of_nat k) = pixel_addr v (of_nat l)" and "k < 2 ^ 30" and "l < 2 ^ 30"
  shows "k = l"
proof -
  have "(of_nat (4 * k) :: u32) = of_nat (4 * l)" using assms(1) by (simp add: pixel_addr_def)
  then have "4 * k = 4 * l" using assms(2,3) of_nat_eq_u32 [of "4 * k" "4 * l"] by simp
  then show ?thesis by simp
qed

lemma inj_on_pixel_addr: "n \<le> 2 ^ 30 \<Longrightarrow> inj_on (\<lambda>k. pixel_addr v (of_nat k)) {0..<n}"
  by (rule inj_onI) (auto dest!: pixel_addr_inj)

text \<open>The cell at the cursor: bit \<open>j\<close> of row \<open>i\<close> is the pixel \<open>8 - j\<close> columns right of
  \<open>current_x\<close>.\<close>

definition cell_px :: "vesa \<Rightarrow> nat \<Rightarrow> nat \<Rightarrow> u32" where
  "cell_px v i j = pixel_at v (unat (current_x v) + (8 - j)) (unat (current_y v) + i)"

definition cell_fits :: "vesa \<Rightarrow> bool" where
  "cell_fits v \<longleftrightarrow> 8 \<le> unat (width v) \<and>
     (unat (current_y v) + 15) * unat (width v) + unat (current_x v) + 8 < 2 ^ 30"

lemma cell_px_addr:
  assumes "j < 8"
  shows "pixel_addr v (current_y v * width v + current_x v + of_nat i * width v + (FONT_WIDTH - of_nat j)) =
    cell_px v i j"
  using assms by (simp add: cell_px_def pixel_at_def of_nat_diff algebra_simps)

lemma row_col_unique:
  fixes w :: nat
  assumes "i * w + (8 - j) = i' * w + (8 - j')" and "8 \<le> w" and "j < 8" and "j' < 8"
  shows "i = i' \<and> j = j'"
proof -
  have "\<not> i < i'" if "i * w + (8 - j) = i' * w + (8 - j')" "j < 8" "j' < 8" for i i' j j'
  proof
    assume "i < i'"
    then have "i * w + w \<le> i' * w" using mult_le_mono1 [of "Suc i" i' w] by simp
    then show False using that assms(2) by linarith
  qed
  then have "i = i'" using assms by (metis linorder_neqE_nat)
  then show ?thesis using assms by simp
qed

lemma cell_px_inj:
  assumes "cell_fits v"
  shows "inj_on (\<lambda>(i, j). cell_px v i j) ({0..<16} \<times> {0..<8})"
proof (rule inj_onI, clarsimp)
  fix i j i' j'
  let ?w = "unat (width v)" and ?x = "unat (current_x v)" and ?y = "unat (current_y v)"
  assume ij: "i < 16" "j < 8" "i' < 16" "j' < 8" and eq: "cell_px v i j = cell_px v i' j'"
  have bound: "(?y + i) * ?w + (?x + (8 - j)) < 2 ^ 30" if "i < 16" for i j
  proof -
    have "(?y + i) * ?w \<le> (?y + 15) * ?w" using that by (intro mult_le_mono1) simp
    moreover have "(?y + 15) * ?w + ?x + 8 < 2 ^ 30" using assms by (simp add: cell_fits_def)
    ultimately show ?thesis by linarith
  qed
  have "(?y + i) * ?w + (?x + (8 - j)) = (?y + i') * ?w + (?x + (8 - j'))"
    using eq pixel_addr_inj [OF _ bound [OF ij(1)] bound [OF ij(3)]]
    unfolding cell_px_def pixel_at_def by blast
  then have "i * ?w + (8 - j) = i' * ?w + (8 - j')" by (simp add: algebra_simps)
  then show "i = i' \<and> j = j'"
    using row_col_unique ij assms unfolding cell_fits_def by blast
qed

lemma cell_row_fold:
  "cell_row v (current_y v * width v + current_x v + of_nat i * width v) f =
    fold (\<lambda>j m. case f j of None \<Rightarrow> m | Some c \<Rightarrow> m(cell_px v i j := c)) [0..<8]"
  unfolding cell_row_def
  by (rule ext, rule fold_cong) (simp_all add: cell_px_addr cong: option.case_cong)

lemma draw_cell_fold:
  "fbm (draw_cell col v) = fold (\<lambda>p m. case col (fst p) (snd p) of None \<Rightarrow> m
       | Some c \<Rightarrow> m(cell_px v (fst p) (snd p) := c)) (List.product [0..<16] [0..<8]) (fbm v)"
  unfolding draw_cell_def Let_def
  by (simp add: cell_row_fold fold_product case_prod_unfold)

lemma draw_cell_at:
  assumes "cell_fits v" and "i < 16" and "j < 8"
  shows "fbm (draw_cell col v) (cell_px v i j) =
    (case col i j of None \<Rightarrow> fbm v (cell_px v i j) | Some c \<Rightarrow> c)"
proof -
  have "inj_on (\<lambda>p. cell_px v (fst p) (snd p)) (set (List.product [0..<16] [0..<8]))"
    using cell_px_inj [OF assms(1)] by (simp add: case_prod_unfold)
  from fold_upd_at [OF this, of "(i, j)" "\<lambda>p. col (fst p) (snd p)"] show ?thesis
    using assms(2,3) by (simp add: draw_cell_fold cong: option.case_cong)
qed

lemma draw_cell_other:
  assumes "\<And>i j. i < 16 \<Longrightarrow> j < 8 \<Longrightarrow> a \<noteq> cell_px v i j"
  shows "fbm (draw_cell col v) a = fbm v a"
proof -
  have "a \<notin> (\<lambda>p. cell_px v (fst p) (snd p)) ` set (List.product [0..<16] [0..<8])"
  proof (rule notI, elim imageE)
    fix p
    assume "a = cell_px v (fst p) (snd p)" "p \<in> set (List.product [0..<16] [0..<8])"
    then show False using assms [of "fst p" "snd p"] by auto
  qed
  then show ?thesis unfolding draw_cell_fold by (rule fold_upd_other)
qed

lemma draw_cell_same [simp]:
  "width (draw_cell col v) = width v" "height (draw_cell col v) = height v"
  "num_cols (draw_cell col v) = num_cols v" "num_rows (draw_cell col v) = num_rows v"
  "cursor_x (draw_cell col v) = cursor_x v" "cursor_y (draw_cell col v) = cursor_y v"
  "current_x (draw_cell col v) = current_x v" "current_y (draw_cell col v) = current_y v"
  "framebuffer_addr (draw_cell col v) = framebuffer_addr v"
  "bg_color (draw_cell col v) = bg_color v" "fg_color (draw_cell col v) = fg_color v"
  by (simp_all add: draw_cell_def Let_def)

section \<open>The cursor\<close>

text \<open>The pixel position is that of the character position, which is at most one behind the last
  column and one below the last row.\<close>

definition cursor_ok :: "vesa \<Rightarrow> bool" where
  "cursor_ok v \<longleftrightarrow> num_cols v = width v div 8 \<and> num_rows v = height v div 16 \<and>
     0 < num_cols v \<and> 0 < num_rows v \<and>
     current_x v = 8 * cursor_x v \<and> current_y v = 16 * cursor_y v \<and>
     cursor_x v \<le> num_cols v \<and> cursor_y v \<le> num_rows v"

lemma cursor_ok_cong:
  "width v' = width v \<Longrightarrow> height v' = height v \<Longrightarrow> num_cols v' = num_cols v \<Longrightarrow> num_rows v' = num_rows v \<Longrightarrow>
   cursor_x v' = cursor_x v \<Longrightarrow> cursor_y v' = cursor_y v \<Longrightarrow>
   current_x v' = current_x v \<Longrightarrow> current_y v' = current_y v \<Longrightarrow> cursor_ok v' = cursor_ok v"
  by (simp add: cursor_ok_def)

lemma cursor_ok_hide_show [simp]:
  "cursor_ok (vesa_hide_cursor v) = cursor_ok v" "cursor_ok (vesa_show_cursor v) = cursor_ok v"
  "cursor_ok (vesa_set_cursor_vis st v) = cursor_ok v" "cursor_ok (draw_cell col v) = cursor_ok v"
  "cursor_ok (pixel_loop h f v) = cursor_ok v"
  by (simp_all add: cursor_ok_def vesa_hide_cursor_def vesa_show_cursor_def vesa_set_cursor_vis_def pixel_loop_def)

lemma cursor_ok_set: "cursor_ok v \<Longrightarrow> cursor_ok (vesa_set_cursor x y v)"
  by (auto simp: cursor_ok_def vesa_set_cursor_def)

text \<open>\<open>scroll\<close> brings the cursor back onto the screen from anywhere right of it or one row below.\<close>

definition before_scroll :: "vesa \<Rightarrow> bool" where
  "before_scroll v \<longleftrightarrow> num_cols v = width v div 8 \<and> num_rows v = height v div 16 \<and>
     0 < num_cols v \<and> 0 < num_rows v \<and> (cursor_x v < num_cols v \<longrightarrow> current_x v = 8 * cursor_x v) \<and>
     current_y v = 16 * cursor_y v \<and> cursor_y v \<le> num_rows v"

lemma cursor_ok_before_scroll: "cursor_ok v \<Longrightarrow> before_scroll v"
  by (auto simp: cursor_ok_def before_scroll_def)

lemma scroll_ok:
  assumes "before_scroll v"
  shows "cursor_ok (scroll v) \<and> cursor_x (scroll v) < num_cols v \<and> cursor_y (scroll v) < num_rows v"
proof -
  let ?u = "if cursor_x v \<ge> num_cols v
    then v\<lparr>current_y := current_y v + FONT_HEIGHT, cursor_y := cursor_y v + 1, current_x := 0, cursor_x := 0\<rparr> else v"
  have u: "num_cols ?u = num_cols v" "num_rows ?u = num_rows v" "width ?u = width v" "height ?u = height v"
    "cursor_x ?u < num_cols v" "current_x ?u = 8 * cursor_x ?u" "current_y ?u = 16 * cursor_y ?u"
    "num_cols v = width v div 8" "num_rows v = height v div 16" "0 < num_cols v" "0 < num_rows v"
    using assms by (auto simp: before_scroll_def algebra_simps not_le)
  have top: "num_rows v - 1 < num_rows v" "num_rows v - 1 \<le> num_rows v"
    using u(11) by (auto simp: word_less_nat_alt word_le_nat_alt unat_minus_one unat_gt_0)
  show ?thesis
  proof (cases "cursor_y ?u \<ge> num_rows v")
    case True
    have "scroll v = vesa_set_cursor 0 (num_rows ?u - 1) (pixel_loop (height ?u - 1)
        (\<lambda>y x m. m(pixel_addr ?u (y * width ?u + x) := m (pixel_addr ?u ((y + FONT_HEIGHT) * width ?u + x)))) ?u)"
      using True u(2) unfolding scroll_def Let_def by (simp only: if_True)
    then show ?thesis using u top
      by (simp add: cursor_ok_def vesa_set_cursor_def pixel_loop_def)
  next
    case False
    then have "scroll v = ?u" using u(2) unfolding scroll_def Let_def by (simp only: if_False)
    then show ?thesis using u False
      by (simp add: cursor_ok_def less_imp_le not_le del: if_split)
  qed
qed

lemma cursor_ok_scroll: "cursor_ok v \<Longrightarrow> cursor_ok (scroll v)"
  using scroll_ok cursor_ok_before_scroll by blast

lemma font_row_ascii: "0 \<le> sint c \<Longrightarrow> font_row c i = Some (vga_font ! (nat (sint c) * 16 + i))"
  by (simp add: font_row_def)

lemma print_char_ok:
  assumes "cursor_ok v" and "0 \<le> sint c"
  shows "\<exists>v'. vesa_print_char c v = Some v' \<and> cursor_ok v'"
proof -
  consider "c = 10" | "c = 9" | "c \<noteq> 10" "c \<noteq> 9" by blast
  then show ?thesis
  proof cases
    case 1
    then show ?thesis using assms(1) by (simp add: vesa_print_char_def cursor_ok_scroll cursor_ok_set)
  next
    case 2
    then show ?thesis using assms(1) by (simp add: vesa_print_char_def Let_def cursor_ok_set)
  next
    case 3
    define u where "u = draw_cell (\<lambda>i j. Some (if bit (the (font_row c i)) j then fg_color v else bg_color v)) v"
    have "before_scroll (u\<lparr>current_x := current_x u + FONT_WIDTH, cursor_x := cursor_x u + 1\<rparr>)"
      using assms(1) by (auto simp: cursor_ok_def before_scroll_def u_def algebra_simps)
    from scroll_ok [OF this]
    have "cursor_ok (scroll (u\<lparr>current_x := current_x u + FONT_WIDTH, cursor_x := cursor_x u + 1\<rparr>))" ..
    then show ?thesis using 3 assms(2) by (simp add: vesa_print_char_def Let_def font_row_ascii u_def)
  qed
qed

lemma backspace_ok:
  assumes "cursor_ok v"
  shows "cursor_ok (vesa_print_backspace v)"
proof -
  define u where "u = (vesa_hide_cursor v)\<lparr>cursor_x := cursor_x v - 1\<rparr>"
  define w where "w = vesa_set_cursor (cursor_x u) (cursor_y u) u"
  have "current_x w = 8 * cursor_x w" if "cursor_x w < num_cols w"
    using that assms
    by (auto simp: w_def u_def vesa_set_cursor_def vesa_hide_cursor_def cursor_ok_def split: if_splits)
  moreover have "num_cols w = width w div 8 \<and> num_rows w = height w div 16 \<and> 0 < num_cols w \<and> 0 < num_rows w \<and>
      current_y w = 16 * cursor_y w \<and> cursor_y w \<le> num_rows w"
    using assms by (auto simp: cursor_ok_def w_def u_def vesa_set_cursor_def vesa_hide_cursor_def)
  ultimately have "before_scroll (vesa_set_cursor_vis st (draw_cell col w))" for st col
    by (auto simp: before_scroll_def vesa_set_cursor_vis_def vesa_show_cursor_def vesa_hide_cursor_def)
  then have "cursor_ok (scroll (vesa_set_cursor_vis st (draw_cell col w)))" for st col
    using scroll_ok by blast
  then show ?thesis
    by (simp add: vesa_print_backspace_def Let_def w_def u_def vesa_hide_cursor_def)
qed

section \<open>Runs of the driver\<close>

text \<open>The states that the driver can be in after \<open>init_vesa\<close> and any sequence of its operations.\<close>

inductive vesa_run :: "multiboot_fb \<Rightarrow> vesa \<Rightarrow> bool" for mbi where
  init: "vesa_run mbi (init_vesa mbi v)"
| set_cursor: "vesa_run mbi v \<Longrightarrow> vesa_run mbi (vesa_set_cursor x y v)"
| showing: "vesa_run mbi v \<Longrightarrow> vesa_run mbi (vesa_show_cursor v)"
| hiding: "vesa_run mbi v \<Longrightarrow> vesa_run mbi (vesa_hide_cursor v)"
| print_char: "vesa_run mbi v \<Longrightarrow> vesa_print_char c v = Some v' \<Longrightarrow> vesa_run mbi v'"
| backspace: "vesa_run mbi v \<Longrightarrow> vesa_run mbi (vesa_print_backspace v)"
| draw: "vesa_run mbi v \<Longrightarrow> vesa_run mbi (vesa_draw x y c v)"
| clear: "vesa_run mbi v \<Longrightarrow> vesa_run mbi (vesa_clear_screen v)"
| set_color: "vesa_run mbi v \<Longrightarrow> vesa_run mbi (vesa_set_color fg bg v)"

lemma div_pos:
  fixes w n :: u32
  assumes "n \<le> w" and "0 < n"
  shows "0 < w div n"
  using assms by (simp add: word_less_nat_alt word_le_nat_alt unat_div div_greater_zero_iff)

lemma init_vesa_ok: "8 \<le> mb_framebuffer_width mbi \<Longrightarrow> 16 \<le> mb_framebuffer_height mbi \<Longrightarrow> cursor_ok (init_vesa mbi v)"
  using div_pos [of 8 "mb_framebuffer_width mbi"] div_pos [of 16 "mb_framebuffer_height mbi"]
  by (simp add: init_vesa_def Let_def cursor_ok_def)

lemma print_char_ascii:
  assumes "vesa_print_char c v = Some v'" and "c \<noteq> 10" and "c \<noteq> 9"
  shows "0 \<le> sint c"
proof (rule ccontr)
  assume neg: "\<not> 0 \<le> sint c"
  have "\<forall>i\<in>set [0..<16]. font_row c i \<noteq> None"
    using assms by (simp add: vesa_print_char_def split: if_splits)
  then have "font_row c 0 \<noteq> None" by (rule bspec) simp
  then show False using neg by (simp add: font_row_def)
qed

lemma vesa_run_ok:
  assumes "vesa_run mbi v" "8 \<le> mb_framebuffer_width mbi" "16 \<le> mb_framebuffer_height mbi"
  shows "cursor_ok v"
  using assms(1)
proof induction
  case (init v)
  then show ?case using assms(2,3) by (rule init_vesa_ok)
next
  case (print_char v c v')
  have "0 \<le> sint c"
    using print_char_ascii [OF print_char.hyps(2)] by (cases "c = 10 \<or> c = 9") auto
  from print_char_ok [OF print_char.IH this] show ?case using print_char.hyps(2) by auto
next
  case (draw v x y c)
  then show ?case by (auto simp: cursor_ok_def vesa_draw_def)
next
  case (set_color v fg bg)
  then show ?case by (auto simp: cursor_ok_def vesa_set_color_def)
qed (simp_all add: cursor_ok_set backspace_ok vesa_clear_screen_def)

section \<open>Loops over the framebuffer\<close>

lemma fbm_pixel_loop:
  assumes "\<And>y x. f y x = g (y * width v + x)"
  shows "fbm (pixel_loop h f v) = fold (\<lambda>k. g (of_nat k)) [0..<unat h * unat (width v)] (fbm v)"
proof -
  have step: "for_loop 0 (width v) (f (of_nat y)) =
      fold (\<lambda>x. g (of_nat (y * unat (width v) + x))) [0..<unat (width v)]" for y
    by (rule ext) (simp add: for_loop_fold indices_def fold_map o_def assms)
  have "fbm (pixel_loop h f v) =
      fold (\<lambda>y. fold (\<lambda>x. g (of_nat (y * unat (width v) + x))) [0..<unat (width v)]) [0..<unat h] (fbm v)"
    unfolding pixel_loop_def
    by (simp add: for_loop_fold [of 0 h] indices_def fold_map o_def step)
  also have "\<dots> = fold (\<lambda>k. g (of_nat k)) [0..<unat h * unat (width v)] (fbm v)"
    by (rule fold_rows)
  finally show ?thesis .
qed

lemma pixel_loop_same [simp]:
  "width (pixel_loop h f v) = width v" "height (pixel_loop h f v) = height v"
  "num_cols (pixel_loop h f v) = num_cols v" "num_rows (pixel_loop h f v) = num_rows v"
  by (simp_all add: pixel_loop_def)

text \<open>Shifting entry \<open>k + d\<close> to entry \<open>k\<close>, in ascending order.\<close>

lemma fold_shift:
  assumes inj: "\<And>k l. k < N \<Longrightarrow> l < N \<Longrightarrow> a k = a l \<Longrightarrow> k = l"
    and sh: "\<And>k m. sh k m = m(a k := m (a (k + d)))"
  shows "n + d \<le> N \<Longrightarrow> (k < n \<longrightarrow> fold sh [0..<n] m (a k) = m (a (k + d))) \<and>
     (n \<le> k \<and> k < N \<longrightarrow> fold sh [0..<n] m (a k) = m (a k))"
proof (induction n arbitrary: k)
  case (Suc n)
  let ?m = "fold sh [0..<n] m"
  have step: "fold sh [0..<Suc n] m (a k) = (if a k = a n then ?m (a (n + d)) else ?m (a k))"
    by (simp add: sh)
  have src: "?m (a (n + d)) = m (a (n + d))" using Suc.IH [of "n + d"] Suc.prems by simp
  have same: "k = n" if "k < N" "a k = a n" using inj [of k n] that Suc.prems by simp
  show ?case
  proof (intro conjI impI)
    assume "k < Suc n"
    then have "k < N" using Suc.prems by simp
    then show "fold sh [0..<Suc n] m (a k) = m (a (k + d))"
      using step src same Suc.IH [of k] Suc.prems \<open>k < Suc n\<close> by (cases "k = n") auto
  next
    assume "Suc n \<le> k \<and> k < N"
    then show "fold sh [0..<Suc n] m (a k) = m (a k)"
      using step same Suc.IH [of k] Suc.prems by auto
  qed
qed simp

lemma pixel_index_less:
  fixes w h x y :: nat
  assumes "x < w" and "y < h"
  shows "y * w + x < h * w"
proof -
  have "y * w + x < y * w + w" using assms(1) by simp
  also have "\<dots> = Suc y * w" by simp
  also have "\<dots> \<le> h * w" using assms(2) by (intro mult_le_mono1) simp
  finally show ?thesis .
qed

section \<open>Correctness\<close>

text \<open>C14: the cursor stays consistent: after \<open>init_vesa\<close> on a screen of at least one character and any
  sequence of driver calls, the pixel position is that of the character position, which is at most
  one column behind the last and one row below it, and every ASCII character can be printed.\<close>

theorem vesa_cursor_invariant:
  assumes "vesa_run mbi v" and "8 \<le> mb_framebuffer_width mbi" and "16 \<le> mb_framebuffer_height mbi"
  shows "current_x v = 8 * cursor_x v \<and> current_y v = 16 * cursor_y v \<and>
    cursor_x v \<le> width v div 8 \<and> cursor_y v \<le> height v div 16 \<and>
    (0 \<le> sint c \<longrightarrow> (\<exists>v'. vesa_print_char c v = Some v' \<and> vesa_run mbi v'))"
proof -
  have ok: "cursor_ok v" using assms by (rule vesa_run_ok)
  then have "\<exists>v'. vesa_print_char c v = Some v' \<and> vesa_run mbi v'" if "0 \<le> sint c"
    using print_char_ok [OF ok that] vesa_run.print_char [OF assms(1)] by blast
  then show ?thesis using ok by (auto simp: cursor_ok_def)
qed

definition demo_mbi :: multiboot_fb where
  "demo_mbi = \<lparr>mb_framebuffer_addr = 0xFD000000, mb_framebuffer_width = 64, mb_framebuffer_height = 48,
     mb_framebuffer_pitch = 256, mb_framebuffer_bpp = 32, mb_framebuffer_type = 1,
     mb_red_field_position = 16, mb_green_field_position = 8, mb_blue_field_position = 0\<rparr>"

definition demo_vesa :: vesa where
  "demo_vesa = \<lparr>fbm = (\<lambda>a. 0), v_ports = demo_ports, framebuffer_addr = 0xFD000000, width = 64, height = 48,
     pitch = 256, bpp = 32, red_mask = 0, green_mask = 0, blue_mask = 0xFF, num_rows = 3, num_cols = 8,
     cursor_x = 0, cursor_y = 0, cursor_on = 0, current_x = 0, current_y = 0, bg_color = BLACK,
     fg_color = WHITE\<rparr>"

theorem vesa_cursor_invariant_witness:
  "\<exists>v'. vesa_print_char 65 (vesa_set_cursor 8 3 (init_vesa demo_mbi demo_vesa)) = Some v' \<and> vesa_run demo_mbi v'"
  using vesa_cursor_invariant [OF vesa_run.set_cursor [OF vesa_run.init], of demo_mbi 8 3 demo_vesa 65]
  by (simp add: demo_mbi_def)

text \<open>C21: \<open>vesa_print_char\<close> of a printable character away from the last column draws the glyph of the
  font table into the cell at the cursor, foreground where the bit is set and background where it
  is not, changes no other word of memory and moves the cursor one column.  The cell it draws
  begins one pixel right of the cursor's pixel position.\<close>

theorem vesa_print_char_draws:
  assumes "cursor_ok v" and "cell_fits v" and "cursor_x v + 1 < num_cols v" and "cursor_y v < num_rows v"
    and "0 \<le> sint c" and "c \<noteq> 9" and "c \<noteq> 10"
  shows "\<exists>v'. vesa_print_char c v = Some v' \<and>
    (\<forall>i<16. \<forall>j<8. fbm v' (pixel_at v (unat (current_x v) + (8 - j)) (unat (current_y v) + i)) =
       (if bit (vga_glyphs ! nat (sint c) ! i) j then fg_color v else bg_color v)) \<and>
    (\<forall>a. (\<forall>i<16. \<forall>j<8. a \<noteq> pixel_at v (unat (current_x v) + (8 - j)) (unat (current_y v) + i)) \<longrightarrow>
       fbm v' a = fbm v a) \<and>
    cursor_x v' = cursor_x v + 1 \<and> cursor_y v' = cursor_y v \<and> cursor_ok v'"
proof -
  let ?col = "\<lambda>i j. Some (if bit (the (font_row c i)) j then fg_color v else bg_color v)"
  let ?u = "draw_cell ?col v"
  let ?v = "?u\<lparr>current_x := current_x v + FONT_WIDTH, cursor_x := cursor_x v + 1\<rparr>"
  have "scroll ?v = ?v" using assms(3,4) by (simp add: scroll_def Let_def not_le)
  then have print: "vesa_print_char c v = Some ?v"
    using assms(5-7) by (simp add: vesa_print_char_def Let_def font_row_ascii)
  then have "cursor_ok ?v" using print_char_ok [OF assms(1,5)] by simp
  moreover have "fbm ?v (cell_px v i j) =
      (if bit (vga_glyphs ! nat (sint c) ! i) j then fg_color v else bg_color v)" if "i < 16" "j < 8" for i j
  proof -
    have "sint c < 256" using sint_lt [of c] by simp
    then have "nat (sint c) < 256" using assms(5) by linarith
    then have "font_row c i = Some (vga_glyphs ! nat (sint c) ! i)"
      using that vga_font_row [of "nat (sint c)" i] assms(5) by (simp add: font_row_ascii mult.commute)
    then show ?thesis using draw_cell_at [OF assms(2) that, of ?col] by simp
  qed
  moreover have "fbm ?v a = fbm v a" if "\<forall>i<16. \<forall>j<8. a \<noteq> cell_px v i j" for a
    using draw_cell_other [of a v ?col] that by simp
  ultimately show ?thesis using print unfolding cell_px_def by (intro exI [of _ ?v]) simp
qed

theorem vesa_print_char_draws_witness:
  "\<exists>v'. vesa_print_char 65 demo_vesa = Some v' \<and> fbm v' (pixel_at demo_vesa 4 2) = WHITE"
proof -
  have ok: "cursor_ok demo_vesa" by (simp add: cursor_ok_def demo_vesa_def)
  have fits: "cell_fits demo_vesa" by (simp add: cell_fits_def demo_vesa_def)
  obtain v' where v': "vesa_print_char 65 demo_vesa = Some v'"
    "\<forall>i<16. \<forall>j<8. fbm v' (pixel_at demo_vesa (unat (current_x demo_vesa) + (8 - j)) (unat (current_y demo_vesa) + i)) =
       (if bit (vga_glyphs ! nat (sint (65 :: u8)) ! i) j then fg_color demo_vesa else bg_color demo_vesa)"
    using vesa_print_char_draws [OF ok fits, of 65] by (auto simp: demo_vesa_def)
  have glyph: "vga_glyphs ! 65 ! 2 = 16" by (simp add: vga_glyphs_def)
  have "fbm v' (pixel_at demo_vesa 4 2) = WHITE"
    using v'(2) [rule_format, of 2 4] by (simp add: demo_vesa_def glyph del: add_2_eq_Suc add_2_eq_Suc')
  then show ?thesis using v'(1) by blast
qed

text \<open>a backspace in the first column does not stay there nor go back to the line above: the
  cursor column wraps, is taken for one behind the last column, and the cursor moves down to the
  start of the next line.\<close>

theorem vesa_backspace_first_column:
  assumes "cursor_ok v" and "cursor_x v = 0" and "cursor_y v + 1 < num_rows v"
  shows "cursor_x (vesa_print_backspace v) = 0 \<and> cursor_y (vesa_print_backspace v) = cursor_y v + 1"
proof -
  have "num_cols v < - 1"
  proof -
    have "unat (num_cols v) = unat (width v) div 8" using assms(1) by (simp add: cursor_ok_def unat_div)
    moreover have "unat (width v) div 8 \<le> unat (width v)" by simp
    ultimately have "unat (num_cols v) \<le> 4294967295 div 8"
      using unat_u32_less [of "width v"] div_le_mono [of "unat (width v)" 4294967295 8] by linarith
    then show ?thesis by (simp add: word_less_nat_alt unsigned_minus_1_eq_mask mask_eq_exp_minus_1)
  qed
  define u where "u = (vesa_hide_cursor v)\<lparr>cursor_x := cursor_x v - 1\<rparr>"
  define w where "w = vesa_set_cursor_vis (ucast (cursor_on v)) (draw_cell (\<lambda>i j. Some (bg_color u)) u)"
  have u: "num_cols u = num_cols v" "num_rows u = num_rows v" "cursor_x u = - 1" "cursor_y u = cursor_y v"
    using assms(2) by (simp_all add: u_def vesa_hide_cursor_def)
  then have "vesa_set_cursor (cursor_x u) (cursor_y u) u = u"
    using \<open>num_cols v < - 1\<close> by (simp add: vesa_set_cursor_def not_le [symmetric] del: not_le)
  then have "vesa_print_backspace v = scroll w"
    by (simp add: vesa_print_backspace_def Let_def w_def u_def vesa_get_cursor_vis_def vesa_hide_cursor_def)
  moreover have "num_cols w = num_cols v" "num_rows w = num_rows v" "cursor_x w = - 1" "cursor_y w = cursor_y v"
    by (simp_all add: w_def u vesa_set_cursor_vis_def vesa_show_cursor_def vesa_hide_cursor_def)
  ultimately show ?thesis using assms(3)
    by (simp add: scroll_def Let_def not_le [symmetric] del: not_le)
qed

theorem vesa_backspace_first_column_witness:
  "cursor_x (vesa_print_backspace demo_vesa) = 0 \<and> cursor_y (vesa_print_backspace demo_vesa) = 1"
  using vesa_backspace_first_column [of demo_vesa] by (simp add: cursor_ok_def demo_vesa_def)

text \<open>with the cursor one row below the last, \<open>scroll\<close> moves the screen up by the 16 pixel rows of a
  text line and puts the cursor at the start of the last line.  It does so for all but the last
  pixel row, so rows from \<open>height - 16\<close> on are filled from the memory behind the framebuffer.\<close>

theorem vesa_scroll_moves_up:
  assumes "cursor_ok v" and "cursor_x v < num_cols v" and "cursor_y v = num_rows v"
    and "(unat (height v) + 15) * unat (width v) \<le> 2 ^ 30" and "x < unat (width v)"
  shows "(y < unat (height v) - 1 \<longrightarrow> fbm (scroll v) (pixel_at v x y) = fbm v (pixel_at v x (y + 16))) \<and>
    cursor_x (scroll v) = 0 \<and> cursor_y (scroll v) = num_rows v - 1"
proof -
  let ?w = "unat (width v)" and ?a = "\<lambda>k. pixel_addr v (of_nat k)"
  let ?g = "\<lambda>k m. m(pixel_addr v k := m (pixel_addr v (k + 16 * width v)))"
  let ?f = "\<lambda>y x m. m(pixel_addr v (y * width v + x) := m (pixel_addr v ((y + FONT_HEIGHT) * width v + x)))"
  have sc: "scroll v = vesa_set_cursor 0 (num_rows v - 1) (pixel_loop (height v - 1) ?f v)"
    using assms(2,3) by (simp add: scroll_def Let_def not_le)
  have pos: "0 < num_rows v" "0 < height v"
  proof -
    show n: "0 < num_rows v" using assms(1) by (auto simp: cursor_ok_def)
    have "height v \<noteq> 0" using n assms(1) by (auto simp: cursor_ok_def)
    then show "0 < height v" by (simp add: word_gt_0)
  qed
  have top: "num_rows v - 1 \<le> num_rows v"
    using pos(1) by (simp add: word_le_nat_alt unat_minus_one unat_gt_0 word_gt_0)
  have h1: "unat (height v - 1) = unat (height v) - 1" using pos(2) by (simp add: unat_minus_one word_gt_0)
  have fbm: "fbm (scroll v) = fold (\<lambda>k. ?g (of_nat k)) [0..<unat (height v - 1) * ?w] (fbm v)"
  proof -
    have "fbm (scroll v) = fbm (pixel_loop (height v - 1) ?f v)"
      unfolding sc by (simp add: vesa_set_cursor_def)
    also have "\<dots> = fold (\<lambda>k. ?g (of_nat k)) [0..<unat (height v - 1) * ?w] (fbm v)"
      by (rule fbm_pixel_loop) (simp add: algebra_simps)
    finally show ?thesis .
  qed
  have "fbm (scroll v) (pixel_at v x y) = fbm v (pixel_at v x (y + 16))" if "y < unat (height v) - 1"
  proof -
    have k: "y * ?w + x < (unat (height v) - 1) * ?w" using pixel_index_less [OF assms(5) that] .
    have sum: "(unat (height v) - 1) * ?w + 16 * ?w \<le> 2 ^ 30"
      using assms(4) pos(2) by (simp add: word_less_nat_alt algebra_simps flip: add_mult_distrib)
    have "fold (\<lambda>k. ?g (of_nat k)) [0..<(unat (height v) - 1) * ?w] (fbm v) (?a (y * ?w + x)) =
        fbm v (?a (y * ?w + x + 16 * ?w))"
      using fold_shift [of "2 ^ 30" ?a "\<lambda>k. ?g (of_nat k)" "16 * ?w" "(unat (height v) - 1) * ?w" "y * ?w + x" "fbm v"]
        k sum pixel_addr_inj by simp
    then show ?thesis by (simp add: fbm h1 pixel_at_def algebra_simps)
  qed
  then show ?thesis using top unfolding sc by (simp add: vesa_set_cursor_def)
qed

text \<open>Three lines of eight characters, with a pixel set in the second.\<close>

definition demo_below :: vesa where
  "demo_below = demo_vesa\<lparr>cursor_y := 3, current_y := 48, fbm := (\<lambda>a. if a = pixel_at demo_vesa 5 17 then 7 else 0)\<rparr>"

theorem vesa_scroll_moves_up_witness:
  "fbm (scroll demo_below) (pixel_at demo_below 5 1) = 7 \<and> cursor_y (scroll demo_below) = 2"
  using vesa_scroll_moves_up [of demo_below 5 1]
  by (simp add: demo_below_def demo_vesa_def cursor_ok_def pixel_at_def pixel_addr_def)

text \<open>\<open>vesa_clear_screen\<close> paints every pixel of the screen with the background colour, changes no
  other word of memory, and puts the cursor in the top left corner.\<close>

theorem vesa_clear_screen_fills:
  assumes "unat (height v) * unat (width v) \<le> 2 ^ 30"
  shows "(x < unat (width v) \<and> y < unat (height v) \<longrightarrow> fbm (vesa_clear_screen v) (pixel_at v x y) = bg_color v) \<and>
    ((\<forall>x<unat (width v). \<forall>y<unat (height v). a \<noteq> pixel_at v x y) \<longrightarrow> fbm (vesa_clear_screen v) a = fbm v a) \<and>
    cursor_x (vesa_clear_screen v) = 0 \<and> cursor_y (vesa_clear_screen v) = 0"
proof -
  let ?w = "unat (width v)" and ?h = "unat (height v)"
  let ?a = "\<lambda>k. pixel_addr v (of_nat k)"
  have fbm: "fbm (vesa_clear_screen v) = fold (\<lambda>k m. case Some (bg_color v) of None \<Rightarrow> m | Some c \<Rightarrow> m(?a k := c))
      [0..<?h * ?w] (fbm v)"
    using fbm_pixel_loop [of "\<lambda>y x m. m(pixel_addr v (y * width v + x) := bg_color v)"
        "\<lambda>k m. m(pixel_addr v k := bg_color v)" v "height v"]
    by (simp add: vesa_clear_screen_def vesa_set_cursor_def)
  have inj: "inj_on ?a (set [0..<?h * ?w])"
    using inj_on_pixel_addr [OF assms, of v] by simp
  have "fbm (vesa_clear_screen v) (pixel_at v x y) = bg_color v" if "x < ?w" "y < ?h"
    using fold_upd_at [OF inj, of "y * ?w + x" "\<lambda>k. Some (bg_color v)" "fbm v"] pixel_index_less [OF that]
    by (simp add: fbm pixel_at_def)
  moreover have "fbm (vesa_clear_screen v) a = fbm v a"
    if none: "\<forall>x<?w. \<forall>y<?h. a \<noteq> pixel_at v x y"
  proof -
    have "a \<noteq> ?a k" if "k < ?h * ?w" for k
    proof -
      have "0 < ?w" using that by (cases ?w) auto
      then have "k mod ?w < ?w" "k div ?w < ?h" using that by (simp_all add: div_less_iff_less_mult)
      then have "a \<noteq> pixel_at v (k mod ?w) (k div ?w)" using none by blast
      then show ?thesis by (simp add: pixel_at_def del: of_nat_add of_nat_mult)
    qed
    then have "a \<notin> ?a ` {..<?h * ?w}" by blast
    then have "a \<notin> ?a ` set [0..<?h * ?w]" unfolding atLeast_upt .
    then show ?thesis unfolding fbm by (rule fold_upd_other)
  qed
  ultimately show ?thesis by (simp add: vesa_clear_screen_def vesa_set_cursor_def)
qed

theorem vesa_clear_screen_fills_witness:
  "fbm (vesa_clear_screen (demo_below\<lparr>bg_color := 9\<rparr>)) (pixel_at (demo_below\<lparr>bg_color := 9\<rparr>) 63 47) = 9"
  using vesa_clear_screen_fills [of "demo_below\<lparr>bg_color := 9\<rparr>" 63 47]
  by (simp add: demo_below_def demo_vesa_def)

end
