(* ===== verification/Display.thy ===== *)
theory Display
  imports VesaProofs
begin

text \<open>
  drivers/display.h and display.c: the display driver as the record of function pointers its clients
  use, over the driver's state \<open>'d\<close>, and the default driver.  A string argument is given by its
  characters before the terminator; an operation that may access memory it does not own gives None.
  The locale \<open>char_display\<close> states what the clients (stdio, the terminal) rely on; the default
  driver and the serial port, which takes its place in the test build, are interpretations.
\<close>

record 'd display =
  dis_setcur :: "u32 \<Rightarrow> u32 \<Rightarrow> 'd \<Rightarrow> 'd"
  dis_getcur_vis :: "'d \<Rightarrow> u32"
  dis_getx :: "'d \<Rightarrow> u32"
  dis_gety :: "'d \<Rightarrow> u32"
  dis_getn_cols :: "'d \<Rightarrow> u32"
  dis_getn_rows :: "'d \<Rightarrow> u32"
  dis_scur :: "'d \<Rightarrow> 'd"
  dis_hcur :: "'d \<Rightarrow> 'd"
  dis_putc :: "u8 \<Rightarrow> 'd \<Rightarrow> 'd option"
  dis_puts :: "u8 list \<Rightarrow> 'd \<Rightarrow> 'd option"
  dis_putats :: "u8 list \<Rightarrow> u32 \<Rightarrow> u32 \<Rightarrow> 'd \<Rightarrow> 'd option"
  dis_backspace :: "'d \<Rightarrow> 'd"
  dis_clear :: "'d \<Rightarrow> 'd"
  dis_setcol :: "u32 \<Rightarrow> u32 \<Rightarrow> 'd \<Rightarrow> 'd"

section \<open>The default driver\<close>

definition display_putats :: "u8 list \<Rightarrow> u32 \<Rightarrow> u32 \<Rightarrow> vesa \<Rightarrow> vesa option" where
  "display_putats s x y v = vesa_print s (vesa_set_cursor x y v)"

definition default_dis :: "vesa display" where
  "default_dis = \<lparr>dis_setcur = vesa_set_cursor, dis_getcur_vis = vesa_get_cursor_vis,
     dis_getx = vesa_get_cursor_x, dis_gety = vesa_get_cursor_y,
     dis_getn_cols = vesa_get_num_cols, dis_getn_rows = vesa_get_num_rows,
     dis_scur = vesa_show_cursor, dis_hcur = vesa_hide_cursor,
     dis_putc = vesa_print_char, dis_puts = vesa_print, dis_putats = display_putats,
     dis_backspace = vesa_print_backspace, dis_clear = vesa_clear_screen, dis_setcol = vesa_set_color\<rparr>"

definition display_init :: "multiboot_fb \<Rightarrow> vesa \<Rightarrow> vesa display \<times> vesa" where
  "display_init aux v = (default_dis, init_vesa aux v)"

definition get_default_dis_driver :: "vesa display" where
  "get_default_dis_driver = default_dis"

section \<open>What a client of a display relies on\<close>

fun put_all :: "('c \<Rightarrow> 'd \<Rightarrow> 'd option) \<Rightarrow> 'c list \<Rightarrow> 'd \<Rightarrow> 'd option" where
  "put_all putc [] d = Some d"
| "put_all putc (c # s) d = Option.bind (putc c d) (put_all putc s)"

lemma put_all_append: "put_all putc (s @ t) d = Option.bind (put_all putc s d) (put_all putc t)"
  by (induction s arbitrary: d) (auto split: bind_splits)

definition ascii :: "u8 list \<Rightarrow> bool" where
  "ascii s \<longleftrightarrow> (\<forall>c\<in>set s. 0 \<le> sint c)"

lemma ascii_simps [simp]: "ascii []" "ascii (c # s) \<longleftrightarrow> 0 \<le> sint c \<and> ascii s" "ascii (s @ t) \<longleftrightarrow> ascii s \<and> ascii t"
  by (auto simp: ascii_def)

locale char_display =
  fixes putc :: "u8 \<Rightarrow> 'd \<Rightarrow> 'd option" and puts :: "u8 list \<Rightarrow> 'd \<Rightarrow> 'd option" and ok :: "'d \<Rightarrow> bool"
  assumes putc_ok: "ok d \<Longrightarrow> 0 \<le> sint c \<Longrightarrow> \<exists>d'. putc c d = Some d' \<and> ok d'"
    and puts_putc: "puts s d = put_all putc s d"
begin

lemma puts_ok: "ok d \<Longrightarrow> ascii s \<Longrightarrow> \<exists>d'. puts s d = Some d' \<and> ok d'"
  unfolding puts_putc
proof (induction s arbitrary: d)
  case (Cons c s)
  then show ?case using putc_ok [OF Cons.prems(1), of c] by fastforce
qed simp

end

lemma default_dis_simps [simp]:
  "dis_putc default_dis = vesa_print_char" "dis_puts default_dis = vesa_print"
  "dis_putats default_dis = display_putats" "dis_clear default_dis = vesa_clear_screen"
  "dis_setcur default_dis = vesa_set_cursor" "dis_setcol default_dis = vesa_set_color"
  "dis_scur default_dis = vesa_show_cursor" "dis_hcur default_dis = vesa_hide_cursor"
  "dis_gety default_dis = vesa_get_cursor_y" "dis_getn_cols default_dis = vesa_get_num_cols"
  by (simp_all add: default_dis_def)

lemma vesa_print_put_all: "vesa_print s v = put_all vesa_print_char s v"
  by (induction s arbitrary: v) (simp_all add: bind_eq_Some_conv split: option.split)

interpretation vd: char_display "dis_putc default_dis" "dis_puts default_dis" cursor_ok
  by unfold_locales (simp_all add: default_dis_def print_char_ok vesa_print_put_all)

lemma serial_puts_put_all: "Some (serial_puts s p) = put_all (\<lambda>c p. Some (serial_putc c p)) s p"
  by (induction s arbitrary: p) simp_all

interpretation sd: char_display "\<lambda>c p. Some (serial_putc c p)" "\<lambda>s p. Some (serial_puts s p)" "\<lambda>p. True"
  by unfold_locales (simp_all add: serial_puts_put_all)

end
