(* ===== verification/Streams.thy ===== *)
theory Streams
  imports Prelude
begin

text \<open>
  libk/stream.c: the circular character queues.  A \<open>std_stream\<close> holds its 256 bytes inline, a
  \<open>char_stream\<close> a block obtained from kcalloc (an argument here; None is the NULL that kcalloc
  returns when memory is out).  \<open>ring\<close> is the sequence of characters a queue holds; the locale
  \<open>bounded_fifo\<close> states what a client of a stream relies on, and both kinds of stream are
  interpretations of it.
\<close>

type_synonym char_t = u8

record std_stream =
  stream :: "char_t list"
  ssize :: u32
  s_in :: u32
  s_out :: u32

record char_stream =
  cstream :: "char_t list option"
  csize :: u32
  c_in :: u32
  c_out :: u32

abbreviation STD_STREAM_SIZE :: u32 where "STD_STREAM_SIZE \<equiv> 256"

text \<open>The \<open>char\<close> -1 that the get functions return for an empty queue.\<close>

abbreviation NOCHAR :: char_t where "NOCHAR \<equiv> -1"

section \<open>std\_stream operations\<close>

definition init_std :: "std_stream \<Rightarrow> std_stream" where
  "init_std s = s\<lparr>ssize := STD_STREAM_SIZE, s_in := 0, s_out := 0\<rparr>"

definition flush_std :: "std_stream \<Rightarrow> std_stream option" where
  "flush_std s = do {
     b \<leftarrow> for_loop_m 0 (ssize s) (\<lambda>i b. arr_put b i 0) (stream s);
     Some (s\<lparr>stream := b, s_in := 0, s_out := 0\<rparr>) }"

definition put_std :: "std_stream \<Rightarrow> char_t \<Rightarrow> (int \<times> std_stream) option" where
  "put_std s c =
     (if s_in s = (s_out s - 1 + STD_STREAM_SIZE) mod STD_STREAM_SIZE then Some (-1, s)
      else do {
        b \<leftarrow> arr_put (stream s) (s_in s) c;
        Some (0, s\<lparr>stream := b, s_in := (s_in s + 1) mod STD_STREAM_SIZE\<rparr>) })"

text \<open>\<open>for (i = 0; i < len && put(s[i]) == ok; i++);\<close> over the characters of a C string.\<close>

fun feed :: "('s \<Rightarrow> 'c \<Rightarrow> (int \<times> 's) option) \<Rightarrow> int \<Rightarrow> 's \<Rightarrow> 'c list \<Rightarrow> u32 \<Rightarrow> (u32 \<times> 's) option" where
  "feed put ok s [] i = Some (i, s)"
| "feed put ok s (c # cs) i = do {
     (r, s') \<leftarrow> put s c;
     if r = ok then feed put ok s' cs (i + 1) else Some (i, s') }"

definition puts_std :: "std_stream \<Rightarrow> char_t list \<Rightarrow> (u32 \<times> std_stream) option" where
  "puts_std s str = feed put_std 0 s str 0"

definition get_copy_std :: "std_stream \<Rightarrow> char_t list option" where
  "get_copy_std s = (if 256 \<le> length (stream s) then Some (take 256 (stream s)) else None)"

definition get_std :: "std_stream \<Rightarrow> (char_t \<times> std_stream) option" where
  "get_std s =
     (if s_in s = s_out s then Some (NOCHAR, s)
      else do {
        old \<leftarrow> arr_get (stream s) (s_out s);
        Some (old, s\<lparr>s_out := (s_out s + 1) mod STD_STREAM_SIZE\<rparr>) })"

section \<open>char\_stream operations\<close>

definition init_c :: "char_t list option \<Rightarrow> char_stream \<Rightarrow> u32 \<Rightarrow> char_stream" where
  "init_c mem s sz = s\<lparr>cstream := mem, csize := sz, c_in := 0, c_out := 0\<rparr>"

definition flush_c :: "char_stream \<Rightarrow> char_stream option" where
  "flush_c s =
     (if csize s = 0 then Some (s\<lparr>c_in := 0, c_out := 0\<rparr>)
      else do {
        b \<leftarrow> cstream s;
        b \<leftarrow> for_loop_m 0 (csize s) (\<lambda>i b. arr_put b i 0) b;
        Some (s\<lparr>cstream := Some b, c_in := 0, c_out := 0\<rparr>) })"

definition put_c :: "char_stream \<Rightarrow> char_t \<Rightarrow> (int \<times> char_stream) option" where
  "put_c s c =
     (if csize s = 0 then None
      else if c_in s = (c_out s - 1 + csize s) mod csize s then Some (0, s)
      else do {
        b \<leftarrow> cstream s;
        b \<leftarrow> arr_put b (c_in s) c;
        Some (1, s\<lparr>cstream := Some b, c_in := (c_in s + 1) mod csize s\<rparr>) })"

definition get_copy_c :: "char_t list option \<Rightarrow> char_stream \<Rightarrow> char_t list option" where
  "get_copy_c mem s = do {
     chars \<leftarrow> mem;
     b \<leftarrow> cstream s;
     if unat (csize s) \<le> length chars \<and> unat (csize s) \<le> length b
     then Some (take (unat (csize s)) b @ drop (unat (csize s)) chars) else None }"

definition get_c :: "char_stream \<Rightarrow> (char_t \<times> char_stream) option" where
  "get_c s =
     (if c_in s = c_out s then Some (NOCHAR, s)
      else if csize s = 0 then None
      else do {
        b \<leftarrow> cstream s;
        old \<leftarrow> arr_get b (c_out s);
        Some (old, s\<lparr>c_out := (c_out s + 1) mod csize s\<rparr>) })"

text \<open>\<open>resize_c\<close> and \<open>destroy_c\<close> hand the old block to kfree, here the first result.\<close>

definition resize_c :: "char_t list option \<Rightarrow> char_stream \<Rightarrow> u32 \<Rightarrow> char_t list option \<times> char_stream" where
  "resize_c mem s sz = (cstream s, init_c mem s sz)"

definition destroy_c :: "char_stream \<Rightarrow> char_t list option \<times> char_stream" where
  "destroy_c s = (cstream s, s)"

section \<open>The ring\<close>

definition ring :: "'a list \<Rightarrow> nat \<Rightarrow> nat \<Rightarrow> 'a list" where
  "ring xs i out = map (\<lambda>k. xs ! ((out + k) mod length xs)) [0..<(i + length xs - out) mod length xs]"

lemma ring_count:
  fixes i n out :: nat
  assumes "i < n" and "out < n"
  shows "(i + n - out) mod n = (if out \<le> i then i - out else i + n - out)"
proof (cases "out \<le> i")
  case True
  then have "(i + n - out) mod n = ((i - out) + n) mod n" by simp
  also have "\<dots> = i - out" using assms(1) by simp
  finally show ?thesis using True by simp
next
  case False
  then show ?thesis using assms by simp
qed

lemma ring_inc: "i < n \<Longrightarrow> (i + 1) mod n = (if i + 1 = n then 0 else i + 1)"
  for n :: nat
  by auto

lemma ring_dec: "out < n \<Longrightarrow> (out + n - 1) mod n = (if out = 0 then n - 1 else out - 1)"
  for n :: nat
  using ring_count [of out n 1] by (cases "n = 1") auto

lemma ring_mod: "out < n \<Longrightarrow> k < n \<Longrightarrow> (out + k) mod n = (if out + k < n then out + k else out + k - n)"
  for n :: nat
  by (auto simp: mod_if)

lemma length_ring: "length (ring xs i out) = (i + length xs - out) mod length xs"
  by (simp add: ring_def)

lemma ring_full_iff:
  fixes i n out :: nat
  assumes "i < n" "out < n"
  shows "i = (out + n - 1) mod n \<longleftrightarrow> (i + n - out) mod n = n - 1"
  using assms unfolding ring_dec [OF assms(2)] ring_count [OF assms] by (auto split: if_splits)

lemma ring_count_inc:
  fixes i n out :: nat
  assumes i: "i < n" and out: "out < n" and room: "(i + n - out) mod n \<noteq> n - 1"
  shows "((i + 1) mod n + n - out) mod n = Suc ((i + n - out) mod n)"
proof -
  have lt: "(i + 1) mod n < n" using i by simp
  have "(if out \<le> i then i - out else i + n - out) \<noteq> n - 1"
    using room unfolding ring_count [OF i out] .
  then show ?thesis
    unfolding ring_count [OF lt out] unfolding ring_count [OF i out] ring_inc [OF i]
    using i out by (auto split: if_splits)
qed

lemma ring_count_dec:
  fixes i n out :: nat
  assumes i: "i < n" and out: "out < n" and ne: "i \<noteq> out"
  shows "(i + n - out) mod n = Suc ((i + n - (out + 1) mod n) mod n)"
proof -
  have lt: "(out + 1) mod n < n" using i by simp
  show ?thesis
    unfolding ring_count [OF i lt] unfolding ring_count [OF i out] ring_inc [OF out]
    using i out ne by (auto split: if_splits)
qed

lemma ring_put:
  assumes i: "i < length xs" and out: "out < length xs"
    and room: "(i + length xs - out) mod length xs \<noteq> length xs - 1"
  shows "ring (xs[i := c]) ((i + 1) mod length xs) out = ring xs i out @ [c]"
proof -
  let ?n = "length xs"
  let ?cnt = "(i + ?n - out) mod ?n"
  have cnt: "?cnt = (if out \<le> i then i - out else i + ?n - out)" by (rule ring_count [OF i out])
  have cnt': "((i + 1) mod ?n + ?n - out) mod ?n = Suc ?cnt" by (rule ring_count_inc [OF i out room])
  have lt: "?cnt < ?n" using i by (intro mod_less_divisor) linarith
  have last: "(out + ?cnt) mod ?n = i"
    unfolding ring_mod [OF out lt] unfolding cnt using i out by (auto split: if_splits)
  have other: "(out + k) mod ?n \<noteq> i" if k: "k < ?cnt" for k
  proof -
    have "k < ?n" using k lt by linarith
    from ring_mod [OF out this] show ?thesis using k unfolding cnt using i out by (auto split: if_splits)
  qed
  have same: "xs[i := c] ! ((out + k) mod ?n) = xs ! ((out + k) mod ?n)" if "k < ?cnt" for k
    using other [OF that] by (metis nth_list_update_neq)
  have "ring (xs[i := c]) ((i + 1) mod ?n) out
      = map (\<lambda>k. xs[i := c] ! ((out + k) mod ?n)) ([0..<?cnt] @ [?cnt])"
    unfolding ring_def length_list_update cnt' by simp
  also have "\<dots> = map (\<lambda>k. xs ! ((out + k) mod ?n)) [0..<?cnt] @ [c]"
    unfolding map_append using same last i by simp
  finally show ?thesis by (simp add: ring_def)
qed

lemma ring_get:
  assumes i: "i < length xs" and out: "out < length xs" and ne: "i \<noteq> out"
  shows "ring xs i out = xs ! out # ring xs i ((out + 1) mod length xs)"
proof -
  let ?n = "length xs"
  let ?cnt = "(i + ?n - out) mod ?n"
  have cnt': "?cnt = Suc ((i + ?n - (out + 1) mod ?n) mod ?n)" by (rule ring_count_dec [OF i out ne])
  have "(out + Suc k) mod ?n = ((out + 1) mod ?n + k) mod ?n" for k
    by (simp add: mod_add_left_eq)
  then have "map (\<lambda>k. xs ! ((out + k) mod ?n)) [1..<Suc m]
      = map (\<lambda>k. xs ! (((out + 1) mod ?n + k) mod ?n)) [0..<m]" for m
    by (simp add: map_Suc_upt [of 0 m, symmetric] comp_def del: upt_Suc)
  moreover have "[0..<Suc m] = 0 # [1..<Suc m]" for m by (subst upt_conv_Cons) simp_all
  moreover have "(out + 0) mod ?n = out" using out by simp
  ultimately show ?thesis unfolding ring_def cnt' by (simp del: upt_Suc)
qed

section \<open>What a client of a stream relies on\<close>

text \<open>Reading \<open>n\<close> characters one after the other.\<close>

fun drain :: "('s \<Rightarrow> ('c \<times> 's) option) \<Rightarrow> nat \<Rightarrow> 's \<Rightarrow> ('c list \<times> 's) option" where
  "drain g 0 s = Some ([], s)"
| "drain g (Suc n) s = do { (c, s') \<leftarrow> g s; (cs, s'') \<leftarrow> drain g n s'; Some (c # cs, s'') }"

locale bounded_fifo =
  fixes put :: "'s \<Rightarrow> 'c \<Rightarrow> (int \<times> 's) option" and get :: "'s \<Rightarrow> ('c \<times> 's) option"
    and ok failed :: int and contents :: "'s \<Rightarrow> 'c list" and inv :: "'s \<Rightarrow> bool" and cap :: nat
  assumes codes: "ok \<noteq> failed"
    and put_room: "inv s \<Longrightarrow> length (contents s) < cap \<Longrightarrow>
      \<exists>s'. put s c = Some (ok, s') \<and> inv s' \<and> contents s' = contents s @ [c]"
    and put_full: "inv s \<Longrightarrow> length (contents s) = cap \<Longrightarrow> put s c = Some (failed, s)"
    and get_first: "inv s \<Longrightarrow> contents s = c # cs \<Longrightarrow>
      \<exists>s'. get s = Some (c, s') \<and> inv s' \<and> contents s' = cs"
    and contents_bound: "inv s \<Longrightarrow> length (contents s) \<le> cap"
begin

text \<open>Feeding a string stores its longest prefix for which there is room.\<close>

lemma feed_prefix:
  "inv s \<Longrightarrow> \<exists>s'. feed put ok s cs i = Some (i + of_nat (min (length cs) (cap - length (contents s))), s') \<and>
     inv s' \<and> contents s' = contents s @ take (cap - length (contents s)) cs"
proof (induction cs arbitrary: s i)
  case Nil
  then show ?case by simp
next
  case (Cons c cs)
  show ?case
  proof (cases "length (contents s) < cap")
    case True
    then obtain s1 where s1: "put s c = Some (ok, s1)" "inv s1" "contents s1 = contents s @ [c]"
      using put_room [OF Cons.prems True, of c] by blast
    have "cap - length (contents s) = Suc (cap - length (contents s1))" using True s1(3) by simp
    then show ?thesis using Cons.IH [OF s1(2), of "i + 1"] s1 by (auto simp: add.assoc)
  next
    case False
    then have "length (contents s) = cap" using contents_bound [OF Cons.prems] by simp
    then show ?thesis using put_full [OF Cons.prems] codes Cons.prems by auto
  qed
qed

lemma drain_prefix:
  "inv s \<Longrightarrow> n \<le> length (contents s) \<Longrightarrow>
     \<exists>s'. drain get n s = Some (take n (contents s), s') \<and> inv s' \<and> contents s' = drop n (contents s)"
proof (induction n arbitrary: s)
  case 0
  then show ?case by simp
next
  case (Suc n)
  then obtain c cs where c: "contents s = c # cs" by (cases "contents s") auto
  then obtain s1 where s1: "get s = Some (c, s1)" "inv s1" "contents s1 = cs"
    using get_first [OF Suc.prems(1)] by blast
  then obtain s2 where "drain get n s1 = Some (take n cs, s2)" "inv s2" "contents s2 = drop n cs"
    using Suc.IH [OF s1(2)] Suc.prems(2) c by auto
  then show ?case using s1 c by auto
qed

text \<open>First in, first out: what was fed into an empty queue with enough room comes back in order.\<close>

lemma feed_drain:
  assumes "inv s" "contents s = []" "length cs \<le> cap"
  shows "\<exists>s' s''. feed put ok s cs 0 = Some (of_nat (length cs), s') \<and>
    drain get (length cs) s' = Some (cs, s'') \<and> inv s'' \<and> contents s'' = []"
proof -
  obtain s' where s': "feed put ok s cs 0 = Some (of_nat (length cs), s')" "inv s'" "contents s' = cs"
    using feed_prefix [OF assms(1), of cs 0] assms(2,3) by auto
  then show ?thesis using drain_prefix [OF s'(2), of "length cs"] by auto
qed

end

section \<open>The streams are bounded queues\<close>

lemma unat_dec_mod:
  fixes out n :: u32
  assumes "unat out < unat n" and "unat n \<le> 2 ^ 31"
  shows "unat ((out - 1 + n) mod n) = (unat out + unat n - 1) mod unat n"
proof -
  have n0: "n \<noteq> 0" using assms(1) by auto
  have "unat (n - 1) = unat n - 1" using n0 by (rule unat_minus_one)
  moreover have "unat (out + (n - 1)) = unat out + unat (n - 1)"
    using assms calculation by (intro unat_add_nowrap) simp
  moreover have "out - 1 + n = out + (n - 1)" by simp
  ultimately have "unat (out - 1 + n) = unat out + (unat n - 1)" by metis
  also have "\<dots> = unat out + unat n - 1" using assms(1) by simp
  finally have "unat (out - 1 + n) = unat out + unat n - 1" .
  then show ?thesis by (simp add: unat_mod)
qed

lemma unat_inc_mod:
  fixes i n :: u32
  assumes "unat i < unat n"
  shows "unat ((i + 1) mod n) = (unat i + 1) mod unat n"
  using assms unat_Suc_less [of i n] by (simp add: unat_mod word_less_nat_alt)

definition std_contents :: "std_stream \<Rightarrow> char_t list" where
  "std_contents s = ring (stream s) (unat (s_in s)) (unat (s_out s))"

definition std_inv :: "std_stream \<Rightarrow> bool" where
  "std_inv s \<longleftrightarrow> length (stream s) = 256 \<and> ssize s = 256 \<and> unat (s_in s) < 256 \<and> unat (s_out s) < 256"

lemma std_full_iff:
  assumes "std_inv s"
  shows "s_in s = (s_out s - 1 + 256) mod 256 \<longleftrightarrow> length (std_contents s) = 255"
proof -
  have "s_in s = (s_out s - 1 + 256) mod 256 \<longleftrightarrow> unat (s_in s) = (unat (s_out s) + 256 - 1) mod 256"
    using assms unat_dec_mod [of "s_out s" 256] by (simp add: word_unat_eq_iff std_inv_def)
  also have "\<dots> \<longleftrightarrow> length (std_contents s) = 255"
    using assms ring_full_iff [of "unat (s_in s)" 256 "unat (s_out s)"]
    by (simp add: std_inv_def std_contents_def length_ring)
  finally show ?thesis .
qed

lemma put_std_room:
  assumes inv: "std_inv s" and room: "length (std_contents s) < 255"
  shows "\<exists>s'. put_std s c = Some (0, s') \<and> std_inv s' \<and> std_contents s' = std_contents s @ [c]"
proof -
  let ?s' = "s\<lparr>stream := (stream s)[unat (s_in s) := c], s_in := (s_in s + 1) mod 256\<rparr>"
  have inc: "unat ((s_in s + 1) mod 256) = (unat (s_in s) + 1) mod 256"
    using inv unat_inc_mod [of "s_in s" 256] by (simp add: std_inv_def)
  have "put_std s c = Some (0, ?s')"
    using inv room std_full_iff [OF inv] by (simp add: put_std_def arr_put_def std_inv_def)
  moreover have "std_inv ?s'" using inv inc by (simp add: std_inv_def)
  moreover have "std_contents ?s' = std_contents s @ [c]"
    using inv room ring_put [of "unat (s_in s)" "stream s" "unat (s_out s)" c]
    by (simp add: std_contents_def std_inv_def inc length_ring)
  ultimately show ?thesis by blast
qed

lemma get_std_first:
  assumes inv: "std_inv s" and c: "std_contents s = c # cs"
  shows "\<exists>s'. get_std s = Some (c, s') \<and> std_inv s' \<and> std_contents s' = cs"
proof -
  let ?s' = "s\<lparr>s_out := (s_out s + 1) mod 256\<rparr>"
  have inc: "unat ((s_out s + 1) mod 256) = (unat (s_out s) + 1) mod 256"
    using inv unat_inc_mod [of "s_out s" 256] by (simp add: std_inv_def)
  have ne: "s_in s \<noteq> s_out s" using c inv by (auto simp: std_contents_def ring_def std_inv_def)
  have "c # cs = stream s ! unat (s_out s) # std_contents ?s'"
    using ring_get [of "unat (s_in s)" "stream s" "unat (s_out s)"] inv ne c
    by (simp add: std_contents_def std_inv_def inc word_unat_eq_iff)
  moreover have "get_std s = Some (stream s ! unat (s_out s), ?s')"
    using inv ne by (simp add: get_std_def arr_get_def std_inv_def)
  moreover have "std_inv ?s'" using inv inc by (simp add: std_inv_def)
  ultimately show ?thesis by auto
qed

interpretation std: bounded_fifo put_std get_std 0 "-1" std_contents std_inv 255
proof unfold_locales
  show "put_std s c = Some (-1, s)" if "std_inv s" "length (std_contents s) = 255" for s c
    using that std_full_iff by (simp add: put_std_def)
  show "length (std_contents s) \<le> 255" if "std_inv s" for s
    using that mod_less_divisor [of 256 "unat (s_in s) + 256 - unat (s_out s)"]
    by (simp add: std_contents_def length_ring std_inv_def)
qed (use put_std_room get_std_first in auto)

text \<open>A \<open>char_stream\<close> of size \<open>n\<close> holds up to \<open>n - 1\<close> characters.\<close>

definition c_contents :: "char_stream \<Rightarrow> char_t list" where
  "c_contents s = ring (the (cstream s)) (unat (c_in s)) (unat (c_out s))"

definition c_inv :: "u32 \<Rightarrow> char_stream \<Rightarrow> bool" where
  "c_inv n s \<longleftrightarrow> csize s = n \<and> 0 < unat n \<and> unat n \<le> 2 ^ 31 \<and>
     cstream s \<noteq> None \<and> length (the (cstream s)) = unat n \<and> unat (c_in s) < unat n \<and> unat (c_out s) < unat n"

lemma c_full_iff:
  assumes "c_inv n s"
  shows "c_in s = (c_out s - 1 + n) mod n \<longleftrightarrow> length (c_contents s) = unat n - 1"
proof -
  have "c_in s = (c_out s - 1 + n) mod n \<longleftrightarrow> unat (c_in s) = (unat (c_out s) + unat n - 1) mod unat n"
    using assms unat_dec_mod [of "c_out s" n] by (simp add: word_unat_eq_iff c_inv_def)
  also have "\<dots> \<longleftrightarrow> length (c_contents s) = unat n - 1"
    using assms ring_full_iff [of "unat (c_in s)" "unat n" "unat (c_out s)"]
    by (simp add: c_inv_def c_contents_def length_ring)
  finally show ?thesis .
qed

lemma put_c_room:
  assumes inv: "c_inv n s" and room: "length (c_contents s) < unat n - 1"
  shows "\<exists>s'. put_c s c = Some (1, s') \<and> c_inv n s' \<and> c_contents s' = c_contents s @ [c]"
proof -
  obtain b where b: "cstream s = Some b" using inv by (auto simp: c_inv_def)
  let ?s' = "s\<lparr>cstream := Some (b[unat (c_in s) := c]), c_in := (c_in s + 1) mod n\<rparr>"
  have inc: "unat ((c_in s + 1) mod n) = (unat (c_in s) + 1) mod unat n"
    using inv unat_inc_mod [of "c_in s" n] by (simp add: c_inv_def)
  have "put_c s c = Some (1, ?s')"
    using inv room c_full_iff [OF inv] b by (auto simp: put_c_def arr_put_def c_inv_def)
  moreover have "c_inv n ?s'" using inv inc b by (simp add: c_inv_def)
  moreover have "c_contents ?s' = c_contents s @ [c]"
    using inv room b ring_put [of "unat (c_in s)" b "unat (c_out s)" c]
    by (simp add: c_contents_def c_inv_def inc length_ring)
  ultimately show ?thesis by blast
qed

lemma get_c_first:
  assumes inv: "c_inv n s" and c: "c_contents s = c # cs"
  shows "\<exists>s'. get_c s = Some (c, s') \<and> c_inv n s' \<and> c_contents s' = cs"
proof -
  obtain b where b: "cstream s = Some b" using inv by (auto simp: c_inv_def)
  let ?s' = "s\<lparr>c_out := (c_out s + 1) mod n\<rparr>"
  have inc: "unat ((c_out s + 1) mod n) = (unat (c_out s) + 1) mod unat n"
    using inv unat_inc_mod [of "c_out s" n] by (simp add: c_inv_def)
  have ne: "c_in s \<noteq> c_out s" using c inv b by (auto simp: c_contents_def ring_def c_inv_def)
  have "c # cs = b ! unat (c_out s) # c_contents ?s'"
    using ring_get [of "unat (c_in s)" b "unat (c_out s)"] inv ne c b
    by (simp add: c_contents_def c_inv_def inc word_unat_eq_iff)
  moreover have "get_c s = Some (b ! unat (c_out s), ?s')"
    using inv ne b by (auto simp: get_c_def arr_get_def c_inv_def)
  moreover have "c_inv n ?s'" using inv inc by (simp add: c_inv_def)
  ultimately show ?thesis by auto
qed

interpretation cs: bounded_fifo put_c get_c 1 0 c_contents "c_inv n" "unat n - 1" for n
proof unfold_locales
  show "put_c s c = Some (0, s)" if "c_inv n s" "length (c_contents s) = unat n - 1" for s c
    using that c_full_iff [of n s] by (auto simp: put_c_def c_inv_def)
  show "length (c_contents s) \<le> unat n - 1" if "c_inv n s" for s
  proof -
    have "0 < unat n" using that by (simp add: c_inv_def)
    then have "x mod unat n \<le> unat n - 1" for x
      using mod_less_divisor [of "unat n" x] by linarith
    then show ?thesis using that by (auto simp: c_contents_def length_ring c_inv_def)
  qed
qed (use put_c_room get_c_first in auto)

section \<open>Correctness\<close>

lemma flush_std_zero:
  assumes "length (stream s) = 256" and "ssize s = 256"
  shows "flush_std s = Some (s\<lparr>stream := replicate 256 0, s_in := 0, s_out := 0\<rparr>)"
  using assms fill_array [of "ssize s" "stream s" 0 0] by (simp add: flush_std_def)

text \<open>a \<open>std_stream\<close> set up by \<open>init_std\<close> and \<open>flush_std\<close>, as the process code does, is an empty
  queue, and a string of at most 255 characters put into it with \<open>puts_std\<close> is read back
  unchanged by as many \<open>get_std\<close> calls, which leave it empty.\<close>

theorem std_stream_roundtrip:
  assumes "length (stream s) = 256" and "length str \<le> 255"
  shows "\<exists>s0 s1 s2. flush_std (init_std s) = Some s0 \<and> std_inv s0 \<and> std_contents s0 = [] \<and>
    puts_std s0 str = Some (of_nat (length str), s1) \<and>
    drain get_std (length str) s1 = Some (str, s2) \<and> std_contents s2 = []"
proof -
  let ?s0 = "(init_std s)\<lparr>stream := replicate 256 0, s_in := 0, s_out := 0\<rparr>"
  have "flush_std (init_std s) = Some ?s0"
    using assms(1) by (intro flush_std_zero) (simp_all add: init_std_def)
  moreover have s0: "std_inv ?s0" "std_contents ?s0 = []"
    by (simp_all add: std_inv_def std_contents_def ring_def init_std_def)
  ultimately show ?thesis
    using std.feed_drain [OF s0 assms(2)] unfolding puts_std_def by blast
qed

theorem std_stream_roundtrip_witness:
  "\<exists>s0 s1 s2. flush_std (init_std \<lparr>stream = replicate 256 7, ssize = 0, s_in = 9, s_out = 3\<rparr>) = Some s0 \<and>
    std_inv s0 \<and> std_contents s0 = [] \<and> puts_std s0 [104, 105] = Some (2, s1) \<and>
    drain get_std 2 s1 = Some ([104, 105], s2) \<and> std_contents s2 = []"
  using std_stream_roundtrip
    [of "\<lparr>stream = replicate 256 7, ssize = 0, s_in = 9, s_out = 3\<rparr>" "[104, 105]"]
  by (simp add: numeral_2_eq_2)

text \<open>\<open>puts_std\<close> stores the longest prefix of the string for which the queue has room (255
  characters in all), returns its length, and keeps the queue well formed.\<close>

theorem puts_std_prefix:
  assumes "std_inv s"
  shows "\<exists>s'. puts_std s str = Some (of_nat (min (length str) (255 - length (std_contents s))), s') \<and>
    std_inv s' \<and> std_contents s' = std_contents s @ take (255 - length (std_contents s)) str"
  using std.feed_prefix [OF assms, of str 0] by (simp add: puts_std_def)

theorem puts_std_prefix_witness:
  "\<exists>s'. puts_std \<lparr>stream = replicate 256 0, ssize = 256, s_in = 255, s_out = 1\<rparr> [65, 66] = Some (1, s') \<and>
    std_inv s' \<and> std_contents s' = replicate 254 0 @ [65]"
proof -
  let ?s = "\<lparr>stream = replicate 256 0, ssize = 256, s_in = 255, s_out = 1\<rparr> :: std_stream"
  have inv: "std_inv ?s" by (simp add: std_inv_def)
  have "length (std_contents ?s) = 254" by (simp add: std_contents_def length_ring)
  moreover have "x \<in> set (std_contents ?s) \<Longrightarrow> x = 0" for x
    by (auto simp: std_contents_def ring_def)
  ultimately have "std_contents ?s = replicate 254 0" by (intro replicate_eqI)
  then show ?thesis using puts_std_prefix [OF inv, of "[65, 66]"] by simp
qed

text \<open>a \<open>char_stream\<close> over a block of \<open>n\<close> bytes (at most \<open>2^31\<close>) behaves as a queue of capacity
  \<open>n - 1\<close>: \<open>put_c\<close> returns 1 until it is full, and \<open>get_c\<close> returns the characters in the order
  in which they were put.\<close>

theorem char_stream_roundtrip:
  assumes "0 < unat n" and "unat n \<le> 2 ^ 31" and "length mem = unat n" and "length str \<le> unat n - 1"
  shows "\<exists>s1 s2. feed put_c 1 (init_c (Some mem) s n) str 0 = Some (of_nat (length str), s1) \<and>
    drain get_c (length str) s1 = Some (str, s2) \<and> c_contents s2 = []"
proof -
  have "c_inv n (init_c (Some mem) s n)" "c_contents (init_c (Some mem) s n) = []"
    using assms by (simp_all add: c_inv_def c_contents_def ring_def init_c_def)
  from cs.feed_drain [OF this assms(4)] show ?thesis by blast
qed

theorem char_stream_roundtrip_witness:
  "\<exists>s1 s2. feed put_c 1 (init_c (Some [0, 0, 0, 0]) \<lparr>cstream = None, csize = 0, c_in = 0, c_out = 0\<rparr> 4)
      [1, 2, 3] 0 = Some (3, s1) \<and> drain get_c 3 s1 = Some ([1, 2, 3], s2) \<and> c_contents s2 = []"
  using char_stream_roundtrip [of 4 "[0, 0, 0, 0]" "[1, 2, 3]"
      "\<lparr>cstream = None, csize = 0, c_in = 0, c_out = 0\<rparr>"]
  by (simp add: numeral_3_eq_3)

text \<open>What a successful put leaves in the queue.\<close>

lemma put_std_contents:
  assumes "std_inv st" and "put_std st c = Some (r, st')"
  shows "std_inv st' \<and> std_contents st' = std_contents st @ take (255 - length (std_contents st)) [c]"
proof (cases "length (std_contents st) < 255")
  case True
  then show ?thesis using std.put_room [OF assms(1) True, of c] assms(2) by auto
next
  case False
  then have "length (std_contents st) = 255" using std.contents_bound [OF assms(1)] by linarith
  then show ?thesis using std.put_full [OF assms(1), of c] assms by auto
qed

lemma take_append_take: "take (m - length xs) ys @ take (m - length (xs @ take (m - length xs) ys)) zs =
    take (m - length xs) (ys @ zs)"
  by (cases "length ys \<le> m - length xs") auto

lemma std_put_contents:
  assumes "std_inv st"
  shows "\<exists>r st'. put_std st c = Some (r, st') \<and> std_inv st' \<and>
     std_contents st' = std_contents st @ take (255 - length (std_contents st)) [c]"
proof (cases "length (std_contents st) < 255")
  case True
  then show ?thesis using std.put_room [OF assms True, of c] by auto
next
  case False
  then have "length (std_contents st) = 255" using std.contents_bound [OF assms] by linarith
  then show ?thesis using std.put_full [OF assms, of c] assms by auto
qed

section \<open>The queue as a list\<close>

text \<open>The promise of \<open>std_stream\<close> to its users: a list of at most 255 characters.  The answer to a put
  is \<open>put_std\<close>'s return value, the answer to a get the character.\<close>

datatype std_request = Put char_t | Get

fun std_step :: "std_request \<Rightarrow> std_stream \<Rightarrow> ((int + char_t) \<times> std_stream) option" where
  "std_step (Put c) s = do { (r, s) \<leftarrow> put_std s c; Some (Inl r, s) }"
| "std_step Get s = do { (c, s) \<leftarrow> get_std s; Some (Inr c, s) }"

fun queue_step :: "std_request \<Rightarrow> char_t list \<Rightarrow> ((int + char_t) \<times> char_t list) option" where
  "queue_step (Put c) q = (if length q < 255 then Some (Inl 0, q @ [c]) else Some (Inl (-1), q))"
| "queue_step Get [] = Some (Inr NOCHAR, [])"
| "queue_step Get (c # q) = Some (Inr c, q)"

lemma std_contents_empty: "std_inv s \<Longrightarrow> std_contents s = [] \<longleftrightarrow> s_in s = s_out s"
  by (auto simp: std_contents_def ring_def std_inv_def ring_count word_unat_eq_iff split: if_splits)

lemma std_step_simulates:
  assumes inv: "std_inv s" and a: "queue_step r (std_contents s) = Some (x, q)"
  shows "\<exists>s'. std_step r s = Some (x, s') \<and> std_inv s' \<and> std_contents s' = q"
proof (cases r)
  case (Put c)
  consider "length (std_contents s) < 255" | "length (std_contents s) = 255"
    using std.contents_bound [OF inv] by linarith
  then show ?thesis
  proof cases
    case 1
    then show ?thesis using std.put_room [OF inv, of c] a Put by auto
  next
    case 2
    then show ?thesis using std.put_full [OF inv, of c] a Put inv by auto
  qed
next
  case Get
  show ?thesis
  proof (cases "std_contents s")
    case Nil
    then have "get_std s = Some (NOCHAR, s)" using std_contents_empty [OF inv] by (simp add: get_std_def)
    then show ?thesis using a Get Nil inv by auto
  next
    case (Cons c cs)
    then show ?thesis using std.get_first [OF inv Cons] a Get by auto
  qed
qed

interpretation std_queue: simulation std_step queue_step "\<lambda>s q. std_inv s \<and> std_contents s = q"
  by unfold_locales (use std_step_simulates in blast)

lemma queue_step_total: "\<exists>x q'. queue_step r q = Some (x, q')"
  by (cases "(r, q)" rule: queue_step.cases) auto

lemma queue_run_total: "\<exists>xs q'. run_all queue_step rs q = Some (xs, q')"
proof (induction rs arbitrary: q)
  case (Cons r rs)
  obtain x q1 where "queue_step r q = Some (x, q1)" using queue_step_total by blast
  then show ?case using Cons.IH [of q1] by auto
qed simp

text \<open>C17: Any sequence of puts and gets, from an initialised stream on, never gets stuck and gives exactly
  the answers of a list of at most 255 characters: 0 and -1 of the puts, the characters of the gets,
  and -1 of a get from an empty queue.\<close>

theorem std_stream_refines_queue:
  assumes "length (stream s) = 256"
  shows "\<exists>out s' q. run_all std_step rs (init_std s) = Some (out, s') \<and>
     run_all queue_step rs [] = Some (out, q) \<and> std_contents s' = q"
proof -
  obtain out q where q: "run_all queue_step rs [] = Some (out, q)" using queue_run_total by blast
  have "std_inv (init_std s) \<and> std_contents (init_std s) = []"
    using assms by (simp add: std_inv_def init_std_def std_contents_def ring_def)
  then show ?thesis using std_queue.trace [OF _ q] q by blast
qed

theorem std_stream_refines_queue_witness:
  "\<exists>out s' q. run_all std_step [Get, Put 65, Put 66, Get]
       (init_std \<lparr>stream = replicate 256 0, ssize = 0, s_in = 7, s_out = 9\<rparr>) = Some (out, s') \<and>
     run_all queue_step [Get, Put 65, Put 66, Get] [] = Some (out, q) \<and> std_contents s' = q"
  by (rule std_stream_refines_queue) simp

end
