(* ===== verification/Tty.thy ===== *)
theory Tty
  imports Display Streams
begin

text \<open>
  drivers/line.c, terminal.c and keyboard.c: from the scan code of a key to the line buffer, the
  process that reads the line, and the screen.  Terminals, line disciplines and streams are known
  by their addresses, NULL is 0; \<open>terms\<close>, \<open>lines\<close> and \<open>streams\<close> give what stands there.  The
  operations of a line discipline and of a terminal are reached through function pointers in the
  code; they are the ones that \<open>line_init\<close> and \<open>terminal_init\<close> store, so they are called directly
  here.  \<open>screen\<close> is the state of the display.
\<close>

section \<open>Data\<close>

datatype ld_modes = COOKED | RAW

record terminal_state =
  capitalize :: bool
  alt_pressed :: bool
  ctrl_pressed :: bool

record 'd terminal =
  t_ld :: u32
  ts :: terminal_state
  t_dis :: "'d display"

text \<open>\<open>line_buffer\<close> is the block obtained from kcalloc, None when that gave NULL.\<close>

record line_disc =
  line_buffer :: "u8 list option"
  buffer_i :: u32
  l_term :: u32
  l_out :: u32
  l_mode :: ld_modes

record 'd tty =
  terms :: "u32 \<Rightarrow> 'd terminal"
  lines :: "u32 \<Rightarrow> line_disc"
  streams :: "u32 \<Rightarrow> std_stream"
  dterm :: u32
  out_term :: u32
  screen :: 'd

abbreviation LINE_BUFFER_SIZE :: u32 where "LINE_BUFFER_SIZE \<equiv> 1024"

abbreviation KC_MAX :: u8 where "KC_MAX \<equiv> 57"
abbreviation KC_LALT :: u8 where "KC_LALT \<equiv> 0x38"
abbreviation KC_LSHIFT :: u8 where "KC_LSHIFT \<equiv> 0x2A"
abbreviation KC_LCTRL :: u8 where "KC_LCTRL \<equiv> 0x1D"
abbreviation KC_CAPSLOCK :: u8 where "KC_CAPSLOCK \<equiv> 0x3A"
abbreviation KC_RSHIFT :: u8 where "KC_RSHIFT \<equiv> 0x36"
abbreviation KC_BACKSPACE :: u8 where "KC_BACKSPACE \<equiv> 0x0E"
abbreviation KC_ESCAPE :: u8 where "KC_ESCAPE \<equiv> 0x01"
abbreviation KC_NUMLOCK :: u8 where "KC_NUMLOCK \<equiv> 0x45"
abbreviation KC_RELEASED :: u8 where "KC_RELEASED \<equiv> 0x81"
abbreviation KC_LALT_REL :: u8 where "KC_LALT_REL \<equiv> 0xB8"
abbreviation KC_LSHIFT_REL :: u8 where "KC_LSHIFT_REL \<equiv> 0xAA"
abbreviation KC_LCTRL_REL :: u8 where "KC_LCTRL_REL \<equiv> 0x9D"
abbreviation KC_RSHIFT_REL :: u8 where "KC_RSHIFT_REL \<equiv> 0xB6"

definition kc_ascii :: "u8 list" where
  "kc_ascii =
    [63, 63, 49, 50, 51, 52, 53, 54, 55, 56, 57, 48, 45, 61, 63, 63,
     113, 119, 101, 114, 116, 121, 117, 105, 111, 112, 91, 93, 10, 63, 97, 115,
     100, 102, 103, 104, 106, 107, 108, 59, 39, 96, 63, 92, 122, 120, 99, 118,
     98, 110, 109, 44, 46, 47, 63, 63, 63, 32]"

definition kc_ascii_cap :: "u8 list" where
  "kc_ascii_cap =
    [63, 63, 49, 50, 51, 52, 53, 54, 55, 56, 57, 48, 45, 61, 63, 63,
     81, 87, 69, 82, 84, 89, 85, 73, 79, 80, 91, 93, 10, 63, 65, 83,
     68, 70, 71, 72, 74, 75, 76, 59, 39, 96, 63, 92, 90, 88, 67, 86,
     66, 78, 77, 44, 46, 47, 63, 63, 63, 32]"

section \<open>Access to the state\<close>

definition upd_term :: "u32 \<Rightarrow> ('d terminal \<Rightarrow> 'd terminal) \<Rightarrow> 'd tty \<Rightarrow> 'd tty" where
  "upd_term t f s = s\<lparr>terms := (terms s)(t := f (terms s t))\<rparr>"

definition upd_line :: "u32 \<Rightarrow> (line_disc \<Rightarrow> line_disc) \<Rightarrow> 'd tty \<Rightarrow> 'd tty" where
  "upd_line l f s = s\<lparr>lines := (lines s)(l := f (lines s l))\<rparr>"

definition upd_ts :: "u32 \<Rightarrow> (terminal_state \<Rightarrow> terminal_state) \<Rightarrow> 'd tty \<Rightarrow> 'd tty" where
  "upd_ts t f = upd_term t (\<lambda>r. r\<lparr>ts := f (ts r)\<rparr>)"

definition buf_get :: "'d tty \<Rightarrow> u32 \<Rightarrow> u32 \<Rightarrow> u8 option" where
  "buf_get s ld i = do { b \<leftarrow> line_buffer (lines s ld); arr_get b i }"

definition buf_put :: "'d tty \<Rightarrow> u32 \<Rightarrow> u32 \<Rightarrow> u8 \<Rightarrow> 'd tty option" where
  "buf_put s ld i c = do {
     b \<leftarrow> line_buffer (lines s ld);
     b \<leftarrow> arr_put b i c;
     Some (upd_line ld (\<lambda>r. r\<lparr>line_buffer := Some b\<rparr>) s) }"

definition on_screen :: "('d \<Rightarrow> 'd) \<Rightarrow> 'd tty \<Rightarrow> 'd tty" where
  "on_screen f s = s\<lparr>screen := f (screen s)\<rparr>"

definition dis_of :: "'d tty \<Rightarrow> u32 \<Rightarrow> 'd display" where
  "dis_of s ld = t_dis (terms s (l_term (lines s ld)))"

section \<open>The terminal: output side\<close>

definition get_term_state :: "'d tty \<Rightarrow> u32 \<Rightarrow> terminal_state" where
  "get_term_state s t = ts (terms s t)"

text \<open>\<open>dd0\<close> is the default display driver; \<open>dd\<close> is None for a NULL driver.\<close>

definition terminal_init ::
    "'d display \<Rightarrow> u32 \<Rightarrow> u32 \<Rightarrow> 'd display option \<Rightarrow> 'd tty \<Rightarrow> err_t \<times> 'd tty" where
  "terminal_init dd0 t ld dd s =
     (if t = 0 \<or> ld = 0 then (- TERM_INIT_FAIL, s)
      else let s = upd_ts t (\<lambda>r. r\<lparr>capitalize := False, alt_pressed := False, ctrl_pressed := False\<rparr>) s;
               s = upd_term t (\<lambda>r. r\<lparr>t_dis := (case dd of None \<Rightarrow> dd0 | Some d \<Rightarrow> d), t_ld := ld\<rparr>) s
           in (SUCC, if dterm s = 0 then s\<lparr>dterm := t\<rparr> else s))"

definition terminal_write :: "'d tty \<Rightarrow> u32 \<Rightarrow> u8 \<Rightarrow> (err_t \<times> 'd tty) option" where
  "terminal_write s t c = do {
     d \<leftarrow> dis_putc (t_dis (terms s t)) c (screen s);
     Some (SUCC, s\<lparr>screen := d\<rparr>) }"

definition terminal_writes :: "'d tty \<Rightarrow> u32 \<Rightarrow> u8 list \<Rightarrow> (err_t \<times> 'd tty) option" where
  "terminal_writes s t str = do {
     d \<leftarrow> dis_puts (t_dis (terms s t)) str (screen s);
     Some (SUCC, s\<lparr>screen := d\<rparr>) }"

definition get_default_terminal :: "'d tty \<Rightarrow> u32" where
  "get_default_terminal s = dterm s"

section \<open>The line discipline\<close>

text \<open>\<open>buf\<close> is what kcalloc and \<open>tmem\<close> what kmalloc returns.  A failure of \<open>terminal_init\<close> is not
  looked at.\<close>

definition line_init ::
    "'d display \<Rightarrow> u8 list option \<Rightarrow> u32 \<Rightarrow> u32 \<Rightarrow> u32 \<Rightarrow> u32 \<Rightarrow> ld_modes \<Rightarrow> 'd tty \<Rightarrow> err_t \<times> 'd tty" where
  "line_init dd0 buf tmem ld t out m s =
     (if ld = 0 then (- LINE_INIT_FAIL, s)
      else let s = upd_line ld (\<lambda>r. r\<lparr>line_buffer := buf, buffer_i := 0\<rparr>) s
           in if buf = None then (- LINE_INIT_FAIL, s)
              else let s = (if t = 0
                            then snd (terminal_init dd0 tmem ld None (upd_line ld (\<lambda>r. r\<lparr>l_term := tmem\<rparr>) s))
                            else upd_line ld (\<lambda>r. r\<lparr>l_term := t\<rparr>) s)
                   in (SUCC, upd_line ld (\<lambda>r. r\<lparr>l_out := out, l_mode := m\<rparr>) s))"

definition line_flush :: "'d tty \<Rightarrow> u32 \<Rightarrow> (err_t \<times> 'd tty) option" where
  "line_flush s ld =
     (case line_buffer (lines s ld) of
        None \<Rightarrow> Some (- LINE_FLUSH_FAIL, s)
      | Some b \<Rightarrow> do {
          b \<leftarrow> for_loop_m 0 LINE_BUFFER_SIZE (\<lambda>i b. arr_put b i 0) b;
          Some (SUCC, upd_line ld (\<lambda>r. r\<lparr>line_buffer := Some b, buffer_i := 0\<rparr>) s) })"

text \<open>\<open>ts\<close>, the address of a field of the terminal, is never NULL.\<close>

definition eval_kc :: "'d tty \<Rightarrow> u32 \<Rightarrow> u8 \<Rightarrow> u8 \<times> 'd tty" where
  "eval_kc s t keycode =
     (if keycode = KC_LALT then (0, upd_ts t (\<lambda>r. r\<lparr>alt_pressed := \<not> alt_pressed r\<rparr>) s)
      else if keycode \<in> {KC_LSHIFT, KC_RSHIFT, KC_LSHIFT_REL, KC_RSHIFT_REL}
      then (0, upd_ts t (\<lambda>r. r\<lparr>capitalize := \<not> capitalize r\<rparr>) s)
      else if keycode = KC_CAPSLOCK then (0, upd_ts t (\<lambda>r. r\<lparr>capitalize := \<not> capitalize r\<rparr>) s)
      else if keycode \<in> {KC_LCTRL, KC_LCTRL_REL}
      then (0, upd_ts t (\<lambda>r. r\<lparr>ctrl_pressed := \<not> ctrl_pressed r\<rparr>) s)
      else if keycode \<in> {KC_ESCAPE, KC_NUMLOCK, KC_RELEASED} then (0, s)
      else if keycode \<le> KC_MAX then (keycode, s) else (0, s))"

text \<open>A key code behind the end of the tables reads other memory: None.\<close>

definition kc_getchar :: "'d tty \<Rightarrow> u32 \<Rightarrow> u8 \<Rightarrow> u8 option" where
  "kc_getchar s t c =
     (if capitalize (get_term_state s t) then arr_get kc_ascii_cap (ucast c) else arr_get kc_ascii (ucast c))"

definition line_sendv :: "'d tty \<Rightarrow> u32 \<Rightarrow> (err_t \<times> 'd tty) option" where
  "line_sendv s ld = do {
     c \<leftarrow> buf_get s ld (buffer_i (lines s ld));
     if c \<noteq> 0
     then do {
       (_, st) \<leftarrow> put_std (streams s (l_out (lines s ld))) c;
       Some (SUCC, s\<lparr>streams := (streams s)(l_out (lines s ld) := st)\<rparr>) }
     else Some (- LINE_OUT_FAIL, s) }"

text \<open>What \<open>line_in\<close> does in both modes with a key that is to be stored, and its common end.\<close>

definition line_store :: "'d tty \<Rightarrow> u32 \<Rightarrow> u8 \<Rightarrow> 'd tty option" where
  "line_store s ld c = do {
     c \<leftarrow> kc_getchar s (l_term (lines s ld)) c;
     s \<leftarrow> buf_put s ld (buffer_i (lines s ld)) c;
     (_, s) \<leftarrow> line_sendv s ld;
     Some s }"

definition line_echo :: "'d tty \<Rightarrow> u32 \<Rightarrow> 'd tty option" where
  "line_echo s ld = do {
     c \<leftarrow> buf_get s ld (buffer_i (lines s ld));
     let s = upd_line ld (\<lambda>r. r\<lparr>buffer_i := buffer_i r + 1\<rparr>) s;
     (_, s) \<leftarrow> terminal_write s (l_term (lines s ld)) c;
     Some (on_screen (dis_scur (dis_of s ld)) s) }"

definition line_in :: "'d tty \<Rightarrow> u32 \<Rightarrow> u8 \<Rightarrow> (err_t \<times> 'd tty) option" where
  "line_in s ld c =
     (let (kc_ret, s) = eval_kc s (l_term (lines s ld)) c
      in if buffer_i (lines s ld) = LINE_BUFFER_SIZE - 1 then Some (- LINE_IN_FAIL, s)
         else if l_mode (lines s ld) = RAW
         then do { s \<leftarrow> line_store s ld c; s \<leftarrow> line_echo s ld; Some (SUCC, s) }
         else if kc_ret = 0 then Some (SUCC, s)
         else if c = KC_BACKSPACE
         then if buffer_i (lines s ld) > 0
              then do {
                s \<leftarrow> buf_put s ld (buffer_i (lines s ld)) 0;
                let s = upd_line ld (\<lambda>r. r\<lparr>buffer_i := buffer_i r - 1\<rparr>) s;
                let s = on_screen (dis_backspace (dis_of s ld)) s;
                Some (SUCC, on_screen (dis_scur (dis_of s ld)) s) }
              else Some (SUCC, s)
         else do { s \<leftarrow> line_store s ld c; s \<leftarrow> line_echo s ld; Some (SUCC, s) })"

text \<open>The loop of \<open>line_ins\<close>, with at most \<open>k\<close> rounds left.\<close>

fun line_ins_loop :: "'d tty \<Rightarrow> u32 \<Rightarrow> u8 list \<Rightarrow> u32 \<Rightarrow> nat \<Rightarrow> (u32 \<times> 'd tty) option" where
  "line_ins_loop s ld [] i k = Some (i, s)"
| "line_ins_loop s ld (c # cs) i 0 = Some (i, s)"
| "line_ins_loop s ld (c # cs) i (Suc k) = do {
     (r, s) \<leftarrow> line_in s ld c;
     if r = - LINE_IN_FAIL then Some (i, s) else line_ins_loop s ld cs (i + 1) k }"

definition line_ins :: "'d tty \<Rightarrow> u32 \<Rightarrow> u8 list \<Rightarrow> (u32 \<times> 'd tty) option" where
  "line_ins s ld str = line_ins_loop s ld str 0 1024"

text \<open>\<open>for (i = 0; i < LINE_BUFFER_SIZE && i < ld->buffer_i; i++)\<close>, at most \<open>k\<close> rounds left.\<close>

fun line_out_loop :: "'d tty \<Rightarrow> u32 \<Rightarrow> u32 \<Rightarrow> nat \<Rightarrow> (u32 \<times> 'd tty) option" where
  "line_out_loop s ld i 0 = Some (i, s)"
| "line_out_loop s ld i (Suc k) =
     (if i < buffer_i (lines s ld)
      then do {
        c \<leftarrow> buf_get s ld i;
        (ret, s) \<leftarrow> (if c = 8 then Some (SUCC, on_screen (dis_backspace (dis_of s ld)) s)
                    else terminal_write s (l_term (lines s ld)) c);
        if ret \<noteq> SUCC then Some (i, s) else line_out_loop s ld (i + 1) k }
      else Some (i, s))"

definition line_out :: "'d tty \<Rightarrow> u32 \<Rightarrow> (u32 \<times> 'd tty) option" where
  "line_out s ld = line_out_loop s ld 0 1024"

fun line_send_loop :: "'d tty \<Rightarrow> u32 \<Rightarrow> u32 \<Rightarrow> nat \<Rightarrow> (u32 \<times> 'd tty) option" where
  "line_send_loop s ld i 0 = Some (i, s)"
| "line_send_loop s ld i (Suc k) =
     (if i < buffer_i (lines s ld)
      then do {
        c \<leftarrow> buf_get s ld i;
        if c \<noteq> 0
        then do {
          (_, st) \<leftarrow> put_std (streams s (l_out (lines s ld))) c;
          line_send_loop (s\<lparr>streams := (streams s)(l_out (lines s ld) := st)\<rparr>) ld (i + 1) k }
        else Some (i, s) }
      else Some (i, s))"

definition line_send :: "'d tty \<Rightarrow> u32 \<Rightarrow> (u32 \<times> 'd tty) option" where
  "line_send s ld = do {
     (i, s) \<leftarrow> line_send_loop s ld 0 1024;
     Some (i, upd_line ld (\<lambda>r. r\<lparr>buffer_i := 0\<rparr>) s) }"

definition line_recv :: "'d tty \<Rightarrow> u32 \<Rightarrow> u8 \<Rightarrow> (err_t \<times> 'd tty) option" where
  "line_recv s ld c =
     (if buffer_i (lines s ld) = LINE_BUFFER_SIZE - 1 then Some (- LINE_IN_FAIL, s)
      else do {
        s \<leftarrow> (if c = 8 \<and> buffer_i (lines s ld) > 0
               then do {
                 s \<leftarrow> buf_put s ld (buffer_i (lines s ld)) 0;
                 Some (upd_line ld (\<lambda>r. r\<lparr>buffer_i := buffer_i r - 1\<rparr>) s) }
               else Some s);
        s \<leftarrow> buf_put s ld (buffer_i (lines s ld)) c;
        Some (SUCC, upd_line ld (\<lambda>r. r\<lparr>buffer_i := buffer_i r + 1\<rparr>) s) })"

text \<open>\<open>memcpy\<close> of \<open>n\<close> bytes from one array to another.\<close>

definition copy_bytes :: "u8 list \<Rightarrow> u8 list \<Rightarrow> nat \<Rightarrow> u8 list option" where
  "copy_bytes dst src n =
     (if n \<le> length dst \<and> n \<le> length src then Some (take n src @ drop n dst) else None)"

text \<open>\<open>buf\<close> is None for a NULL buffer; the result is the return value and what the buffer holds.\<close>

definition line_outbuf :: "'d tty \<Rightarrow> u32 \<Rightarrow> u8 list option \<Rightarrow> (int \<times> u8 list option) option" where
  "line_outbuf s ld buf =
     (case buf of
        None \<Rightarrow> Some (0, None)
      | Some d \<Rightarrow> do {
          b \<leftarrow> line_buffer (lines s ld);
          d \<leftarrow> copy_bytes d b 1024;
          Some (1024, Some d) })"

definition line_outbufn :: "'d tty \<Rightarrow> u32 \<Rightarrow> u8 list option \<Rightarrow> u32 \<Rightarrow> (int \<times> u8 list option) option" where
  "line_outbufn s ld buf n =
     (case buf of
        None \<Rightarrow> Some (0, None)
      | Some d \<Rightarrow> do {
          let n = (if n > LINE_BUFFER_SIZE then LINE_BUFFER_SIZE else n);
          b \<leftarrow> line_buffer (lines s ld);
          d \<leftarrow> copy_bytes d b (unat n);
          Some (int (unat n), Some d) })"

text \<open>The string is given by its characters; behind them stands the terminator.\<close>

definition line_recs :: "'d tty \<Rightarrow> u32 \<Rightarrow> u8 list \<Rightarrow> (u32 \<times> 'd tty) option" where
  "line_recs s ld str = do {
     let i = buffer_i (lines s ld);
     let len = of_nat (length str);
     let s_size = (if len < LINE_BUFFER_SIZE - i then len else LINE_BUFFER_SIZE - i + 1);
     b \<leftarrow> line_buffer (lines s ld);
     rest \<leftarrow> copy_bytes (drop (unat i) b) (str @ [0]) (unat s_size);
     let s = upd_line ld (\<lambda>r. r\<lparr>line_buffer := Some (take (unat i) b @ rest), buffer_i := i + s_size\<rparr>) s;
     s \<leftarrow> buf_put s ld (buffer_i (lines s ld)) 0;
     Some (s_size, s) }"

section \<open>The terminal: input side, and the keyboard\<close>

definition terminal_in :: "'d tty \<Rightarrow> u32 \<Rightarrow> u8 \<Rightarrow> (err_t \<times> 'd tty) option" where
  "terminal_in s t c = do { (_, s) \<leftarrow> line_in s (t_ld (terms s t)) c; Some (SUCC, s) }"

fun terminal_ins_loop :: "'d tty \<Rightarrow> u32 \<Rightarrow> u8 list \<Rightarrow> int \<Rightarrow> (int \<times> 'd tty) option" where
  "terminal_ins_loop s t [] i = Some (i, s)"
| "terminal_ins_loop s t (c # cs) i = do {
     (r, s) \<leftarrow> terminal_in s t c;
     if r \<noteq> SUCC then Some (i, s) else terminal_ins_loop s t cs (i + 1) }"

definition terminal_ins :: "'d tty \<Rightarrow> u32 \<Rightarrow> u8 list \<Rightarrow> (int \<times> 'd tty) option" where
  "terminal_ins s t str = terminal_ins_loop s t str 0"

text \<open>\<open>keyboard_handler\<close> after reading the scan code from port 0x60; without a terminal it calls
  through a NULL pointer.\<close>

definition on_scancode :: "'d tty \<Rightarrow> u8 \<Rightarrow> 'd tty option" where
  "on_scancode s scancode =
     (let s = (if out_term s = 0 then s\<lparr>out_term := get_default_terminal s\<rparr> else s)
      in if scancode \<in> {KC_LALT_REL, KC_LSHIFT_REL, KC_LCTRL_REL, KC_RSHIFT_REL} \<or> scancode < KC_RELEASED
         then if out_term s = 0 then None else map_option snd (terminal_in s (out_term s) scancode)
         else Some s)"

definition keyboard_handler :: "ports \<Rightarrow> 'd tty \<Rightarrow> (ports \<times> 'd tty) option" where
  "keyboard_handler p s =
     (let (scancode, p) = inb 0x60 p in map_option (Pair p) (on_scancode s scancode))"

end
