(* ===== verification/CString.thy ===== *)
theory CString
  imports Prelude "HOL-Library.Signed_Division"
begin

text \<open>
  libc/string.c and libc/mem*.c.  Memory is a list of bytes, a pointer a position in it, NULL is
  None; an access behind the end of the memory has no result (None), and so has a function that
  makes one.  The memory is taken to be smaller than 2 GB, so that the \<open>int\<close> and \<open>size_t\<close> counters
  of the loops do not wrap; they are natural numbers here.  \<open>char\<close> is signed on this target: where
  the code compares or subtracts characters as integers the byte is read with \<open>sint\<close>.
\<close>

type_synonym bmem = "u8 list"

section \<open>Bytes\<close>

definition rd :: "bmem \<Rightarrow> nat \<Rightarrow> u8 option" where
  "rd m p = (if p < length m then Some (m ! p) else None)"

definition wr :: "bmem \<Rightarrow> nat \<Rightarrow> u8 \<Rightarrow> bmem option" where
  "wr m p v = (if p < length m then Some (m[p := v]) else None)"

lemma rd_Some: "rd m p = Some c \<longleftrightarrow> p < length m \<and> m ! p = c"
  by (auto simp: rd_def)

section \<open>mem functions\<close>

text \<open>\<open>for (i = 0; i < n; i++) dest[i] = src[i];\<close> with \<open>k\<close> rounds left.\<close>

fun copy_up :: "bmem \<Rightarrow> nat \<Rightarrow> nat \<Rightarrow> nat \<Rightarrow> nat \<Rightarrow> bmem option" where
  "copy_up m dest src i 0 = Some m"
| "copy_up m dest src i (Suc k) = do {
     c \<leftarrow> rd m (src + i);
     m \<leftarrow> wr m (dest + i) c;
     copy_up m dest src (i + 1) k }"

definition memcpy :: "bmem \<Rightarrow> nat \<Rightarrow> nat \<Rightarrow> nat \<Rightarrow> (nat \<times> bmem) option" where
  "memcpy m dest src n = do { m \<leftarrow> copy_up m dest src 0 n; Some (dest, m) }"

text \<open>\<open>for (i = n; i > 0; i--) d[i - 1] = s[i - 1];\<close>\<close>

fun copy_down :: "bmem \<Rightarrow> nat \<Rightarrow> nat \<Rightarrow> nat \<Rightarrow> bmem option" where
  "copy_down m d s 0 = Some m"
| "copy_down m d s (Suc i) = do {
     c \<leftarrow> rd m (s + i);
     m \<leftarrow> wr m (d + i) c;
     copy_down m d s i }"

definition memmove :: "bmem \<Rightarrow> nat \<Rightarrow> nat \<Rightarrow> nat \<Rightarrow> (nat \<times> bmem) option" where
  "memmove m dest src n =
     (if dest < src then memcpy m dest src n
      else do { m \<leftarrow> copy_down m dest src n; Some (dest, m) })"

text \<open>\<open>memcmp\<close> never advances its pointers.\<close>

fun memcmp :: "bmem \<Rightarrow> nat \<Rightarrow> nat \<Rightarrow> nat \<Rightarrow> int option" where
  "memcmp m p1 p2 0 = Some 0"
| "memcmp m p1 p2 (Suc n) = do {
     a \<leftarrow> rd m p1;
     b \<leftarrow> rd m p2;
     if sint a - sint b \<noteq> 0 then Some (sint a - sint b) else memcmp m p1 p2 n }"

text \<open>Nor does \<open>memset\<close>.\<close>

fun memset_loop :: "bmem \<Rightarrow> nat \<Rightarrow> u8 \<Rightarrow> nat \<Rightarrow> bmem option" where
  "memset_loop m d c 0 = Some m"
| "memset_loop m d c (Suc n) = do { m \<leftarrow> wr m d c; memset_loop m d c n }"

definition memset :: "bmem \<Rightarrow> nat \<Rightarrow> int \<Rightarrow> nat \<Rightarrow> (nat \<times> bmem) option" where
  "memset m dest c n = do { m \<leftarrow> memset_loop m dest (word_of_int c) n; Some (dest, m) }"

text \<open>\<open>memchr\<close> advances \<open>ptr\<close> and \<open>i\<close>, and returns \<open>ptr + i\<close>.\<close>

fun memchr_loop :: "bmem \<Rightarrow> nat \<Rightarrow> int \<Rightarrow> nat \<Rightarrow> nat \<Rightarrow> nat option option" where
  "memchr_loop m ptr c i 0 = Some None"
| "memchr_loop m ptr c i (Suc k) = do {
     b \<leftarrow> rd m ptr;
     if sint b = uint (word_of_int c :: u8) then Some (Some (ptr + i))
     else memchr_loop m (ptr + 1) c (i + 1) k }"

definition memchr :: "bmem \<Rightarrow> nat \<Rightarrow> int \<Rightarrow> nat \<Rightarrow> nat option option" where
  "memchr m ptr c num = memchr_loop m ptr c 0 num"

section \<open>Lengths and searches\<close>

function strlen_loop :: "bmem \<Rightarrow> nat \<Rightarrow> nat \<Rightarrow> nat option" where
  "strlen_loop m str i =
     (case rd m (str + i) of
        None \<Rightarrow> None
      | Some c \<Rightarrow> if c \<noteq> 0 then strlen_loop m str (i + 1) else Some i)"
  by pat_completeness auto
termination
  by (relation "measure (\<lambda>(m, str, i). length m - (str + i))") (auto simp: rd_Some)

declare strlen_loop.simps [simp del]

definition strlen :: "bmem \<Rightarrow> nat \<Rightarrow> nat option" where
  "strlen m str = strlen_loop m str 0"

text \<open>\<open>for (i = 0; i < strlen(str) + 1; i++)\<close>; the string does not change, so neither does the bound.\<close>

fun strchr_loop :: "bmem \<Rightarrow> nat \<Rightarrow> int \<Rightarrow> nat \<Rightarrow> nat \<Rightarrow> nat option option" where
  "strchr_loop m str c i 0 = Some None"
| "strchr_loop m str c i (Suc k) = do {
     b \<leftarrow> rd m (str + i);
     if sint b = uint (word_of_int c :: u8) then Some (Some (str + i))
     else strchr_loop m str c (i + 1) k }"

definition strchr :: "bmem \<Rightarrow> nat \<Rightarrow> int \<Rightarrow> nat option option" where
  "strchr m str c = do { n \<leftarrow> strlen m str; strchr_loop m str c 0 (n + 1) }"

text \<open>\<open>for (i = strlen(str) - 1; i > -1; i--)\<close>: the argument is \<open>i + 1\<close>.\<close>

fun strrchr_loop :: "bmem \<Rightarrow> nat \<Rightarrow> int \<Rightarrow> nat \<Rightarrow> nat option option" where
  "strrchr_loop m str c 0 = Some None"
| "strrchr_loop m str c (Suc i) = do {
     b \<leftarrow> rd m (str + i);
     if sint b = uint (word_of_int c :: u8) then Some (Some (str + i)) else strrchr_loop m str c i }"

definition strrchr :: "bmem \<Rightarrow> nat \<Rightarrow> int \<Rightarrow> nat option option" where
  "strrchr m str c = do { n \<leftarrow> strlen m str; strrchr_loop m str c n }"

text \<open>
  The inner loops that look a character up in the set string: \<open>find_in\<close> gives the position at which
  \<open>for (j = 0; s[j] != '\0'; j++) if (c == s[j]) break;\<close> stops.
\<close>

function find_in :: "bmem \<Rightarrow> u8 \<Rightarrow> nat \<Rightarrow> nat option" where
  "find_in m c p =
     (case rd m p of
        None \<Rightarrow> None
      | Some b \<Rightarrow> if b \<noteq> 0 \<and> c \<noteq> b then find_in m c (p + 1) else Some p)"
  by pat_completeness auto
termination
  by (relation "measure (\<lambda>(m, c, p). length m - p)") (auto simp: rd_Some)

declare find_in.simps [simp del]

function strspn_loop :: "bmem \<Rightarrow> nat \<Rightarrow> nat \<Rightarrow> nat \<Rightarrow> nat option" where
  "strspn_loop m str1 str2 num =
     (case rd m (str1 + num) of
        None \<Rightarrow> None
      | Some c \<Rightarrow>
          if c \<noteq> 0
          then (case find_in m c str2 of
                  None \<Rightarrow> None
                | Some q \<Rightarrow>
                    (case rd m q of
                       None \<Rightarrow> None
                     | Some b \<Rightarrow> if b = 0 then Some num else strspn_loop m str1 str2 (num + 1)))
          else Some num)"
  by pat_completeness auto
termination
  by (relation "measure (\<lambda>(m, str1, str2, num). length m - (str1 + num))") (auto simp: rd_Some)

declare strspn_loop.simps [simp del]

definition strspn :: "bmem \<Rightarrow> nat \<Rightarrow> nat \<Rightarrow> nat option" where
  "strspn m str1 str2 = strspn_loop m str1 str2 0"

text \<open>The double loop of \<open>strcspn\<close>, which compares the terminators too.\<close>

fun any_eq :: "bmem \<Rightarrow> u8 \<Rightarrow> nat \<Rightarrow> nat \<Rightarrow> bool option" where
  "any_eq m c str2 0 = Some False"
| "any_eq m c str2 (Suc k) = do {
     b \<leftarrow> rd m str2;
     if c = b then Some True else any_eq m c (str2 + 1) k }"

fun strcspn_loop :: "bmem \<Rightarrow> nat \<Rightarrow> nat \<Rightarrow> nat \<Rightarrow> nat \<Rightarrow> nat option" where
  "strcspn_loop m str1 str2 i 0 = strlen m str1"
| "strcspn_loop m str1 str2 i (Suc k) = do {
     c \<leftarrow> rd m (str1 + i);
     n2 \<leftarrow> strlen m str2;
     hit \<leftarrow> any_eq m c str2 (n2 + 1);
     if hit then Some i else strcspn_loop m str1 str2 (i + 1) k }"

definition strcspn :: "bmem \<Rightarrow> nat \<Rightarrow> nat \<Rightarrow> nat option" where
  "strcspn m str1 str2 = do { n \<leftarrow> strlen m str1; strcspn_loop m str1 str2 0 (n + 1) }"

function strpbrk :: "bmem \<Rightarrow> nat \<Rightarrow> nat \<Rightarrow> nat option option" where
  "strpbrk m str1 str2 =
     (case rd m str1 of
        None \<Rightarrow> None
      | Some c \<Rightarrow>
          if c \<noteq> 0
          then (case find_in m c str2 of
                  None \<Rightarrow> None
                | Some q \<Rightarrow> if rd m q \<noteq> Some 0 then Some (Some str1) else strpbrk m (str1 + 1) str2)
          else Some None)"
  by pat_completeness auto
termination
  by (relation "measure (\<lambda>(m, str1, str2). length m - str1)") (auto simp: rd_Some)

declare strpbrk.simps [simp del]

text \<open>\<open>strstr\<close>: the inner loop gives the \<open>j\<close> at which it stops; then \<open>i += j\<close> and \<open>i++\<close>.\<close>

function match_len :: "bmem \<Rightarrow> nat \<Rightarrow> nat \<Rightarrow> nat \<Rightarrow> nat option" where
  "match_len m p q j =
     (case rd m (p + j) of
        None \<Rightarrow> None
      | Some a \<Rightarrow>
          if a \<noteq> 0
          then (case rd m (q + j) of
                  None \<Rightarrow> None
                | Some b \<Rightarrow> if b \<noteq> 0 \<and> a = b then match_len m p q (j + 1) else Some j)
          else Some j)"
  by pat_completeness auto
termination
  by (relation "measure (\<lambda>(m, p, q, j). length m - (p + j))") (auto simp: rd_Some)

declare match_len.simps [simp del]

function strstr_loop :: "bmem \<Rightarrow> nat \<Rightarrow> nat \<Rightarrow> nat \<Rightarrow> nat option option" where
  "strstr_loop m str1 str2 i =
     (case rd m (str1 + i) of
        None \<Rightarrow> None
      | Some c \<Rightarrow>
          if c \<noteq> 0
          then (case match_len m (str1 + i) str2 0 of
                  None \<Rightarrow> None
                | Some j \<Rightarrow>
                    (case rd m (str2 + j) of
                       None \<Rightarrow> None
                     | Some b \<Rightarrow> if b = 0 then Some (Some (str1 + i)) else strstr_loop m str1 str2 (i + j + 1)))
          else Some None)"
  by pat_completeness auto
termination
  by (relation "measure (\<lambda>(m, str1, str2, i). length m - (str1 + i))") (auto simp: rd_Some)

declare strstr_loop.simps [simp del]

definition strstr :: "bmem \<Rightarrow> nat \<Rightarrow> nat \<Rightarrow> nat option option" where
  "strstr m str1 str2 = strstr_loop m str1 str2 0"

text \<open>\<open>strtok\<close> keeps the rest of the string in the static pointer \<open>oldstr\<close>: an argument and a result.\<close>

definition strtok ::
    "bmem \<Rightarrow> nat option \<Rightarrow> nat option \<Rightarrow> nat \<Rightarrow> (nat option \<times> nat option \<times> bmem) option" where
  "strtok m oldstr str delimeters = do {
     str \<leftarrow> (case str of None \<Rightarrow> oldstr | Some p \<Rightarrow> Some p);
     n \<leftarrow> strspn m str delimeters;
     let str = str + n;
     c \<leftarrow> rd m str;
     if c = 0 then Some (None, Some str, m)
     else do {
       let token = str;
       r \<leftarrow> strpbrk m token delimeters;
       (case r of
          None \<Rightarrow> do { k \<leftarrow> strlen m token; Some (Some token, Some (token + k), m) }
        | Some p \<Rightarrow> do { m \<leftarrow> wr m p 0; Some (Some token, Some (p + 1), m) }) } }"

section \<open>Comparing\<close>

function strcmp_loop :: "bmem \<Rightarrow> nat \<Rightarrow> nat \<Rightarrow> nat \<Rightarrow> int option" where
  "strcmp_loop m str1 str2 i =
     (case rd m (str1 + i) of
        None \<Rightarrow> None
      | Some a \<Rightarrow>
          (case rd m (str2 + i) of
             None \<Rightarrow> None
           | Some b \<Rightarrow>
               if a = b then (if a = 0 then Some 0 else strcmp_loop m str1 str2 (i + 1))
               else Some (sint a - sint b)))"
  by pat_completeness auto
termination
  by (relation "measure (\<lambda>(m, str1, str2, i). length m - (str1 + i))") (auto simp: rd_Some)

declare strcmp_loop.simps [simp del]

definition strcmp :: "bmem \<Rightarrow> nat \<Rightarrow> nat \<Rightarrow> int option" where
  "strcmp m str1 str2 = strcmp_loop m str1 str2 0"

text \<open>With \<open>k = n - i\<close> rounds left; when they are used up the characters at \<open>n\<close> are subtracted.\<close>

fun strncmp_loop :: "bmem \<Rightarrow> nat \<Rightarrow> nat \<Rightarrow> nat \<Rightarrow> nat \<Rightarrow> int option" where
  "strncmp_loop m s1 s2 i 0 = do { a \<leftarrow> rd m (s1 + i); b \<leftarrow> rd m (s2 + i); Some (sint a - sint b) }"
| "strncmp_loop m s1 s2 i (Suc k) = do {
     a \<leftarrow> rd m (s1 + i);
     b \<leftarrow> rd m (s2 + i);
     if a = b then (if a = 0 then Some 0 else strncmp_loop m s1 s2 (i + 1) k)
     else Some (sint a - sint b) }"

definition strncmp :: "bmem \<Rightarrow> nat \<Rightarrow> nat \<Rightarrow> nat \<Rightarrow> int option" where
  "strncmp m s1 s2 n = strncmp_loop m s1 s2 0 n"

definition strcoll :: "bmem \<Rightarrow> nat \<Rightarrow> nat \<Rightarrow> int option" where
  "strcoll m str1 str2 = strcmp m str1 str2"

definition strxfrm :: "bmem \<Rightarrow> nat \<Rightarrow> nat \<Rightarrow> nat \<Rightarrow> nat" where
  "strxfrm m dest src num = 0"

definition strerr :: "int \<Rightarrow> string" where
  "strerr errnum =
     (if errnum = 0 then ''No error''
      else ''Some error has occurred (This function is not implemented right now)'')"

section \<open>Writing strings\<close>

function reverse_loop :: "bmem \<Rightarrow> nat \<Rightarrow> nat \<Rightarrow> int \<Rightarrow> bmem option" where
  "reverse_loop m str i j =
     (if int i < j
      then (case rd m (str + i) of
              None \<Rightarrow> None
            | Some a \<Rightarrow>
                (case rd m (str + nat j) of
                   None \<Rightarrow> None
                 | Some b \<Rightarrow> reverse_loop (m[str + i := b, str + nat j := a]) str (i + 1) (j - 1)))
      else Some m)"
  by pat_completeness auto
termination
  by (relation "measure (\<lambda>(m, str, i, j). nat (j - int i))") auto

declare reverse_loop.simps [simp del]

definition reverse :: "bmem \<Rightarrow> nat \<Rightarrow> bmem option" where
  "reverse m str = do { n \<leftarrow> strlen m str; reverse_loop m str 0 (int n - 1) }"

text \<open>
  \<open>strcat\<close>'s loop \<open>for (i = 0; src[i] != '\0'; i++) dest_end[i] = src[i];\<close>: the terminator it looks
  for may be overwritten, so the loop may run to the end of memory; \<open>i\<close> is the result.
\<close>

function cat_loop :: "bmem \<Rightarrow> nat \<Rightarrow> nat \<Rightarrow> nat \<Rightarrow> (nat \<times> bmem) option" where
  "cat_loop m dest_end src i =
     (if src + i < length m
      then (if m ! (src + i) \<noteq> 0
            then (if dest_end + i < length m
                  then cat_loop (m[dest_end + i := m ! (src + i)]) dest_end src (i + 1) else None)
            else Some (i, m))
      else None)"
  by pat_completeness auto
termination
  by (relation "measure (\<lambda>(m, d, src, i). length m - (src + i))") auto

declare cat_loop.simps [simp del]

definition strcat :: "bmem \<Rightarrow> nat \<Rightarrow> nat \<Rightarrow> (nat \<times> bmem) option" where
  "strcat m dest src = do {
     n \<leftarrow> strlen m dest;
     (i, m) \<leftarrow> cat_loop m (dest + n) src 0;
     m \<leftarrow> wr m (dest + n + i) 0;
     Some (dest, m) }"

text \<open>\<open>strncat\<close> tests \<open>*src\<close>, the first character of the source, in every round.\<close>

fun ncat_loop :: "bmem \<Rightarrow> nat \<Rightarrow> nat \<Rightarrow> nat \<Rightarrow> nat \<Rightarrow> (nat \<times> bmem) option" where
  "ncat_loop m dest_end src i 0 = Some (i, m)"
| "ncat_loop m dest_end src i (Suc k) = do {
     c0 \<leftarrow> rd m src;
     if c0 \<noteq> 0
     then do {
       c \<leftarrow> rd m (src + i);
       m \<leftarrow> wr m (dest_end + i) c;
       ncat_loop m dest_end src (i + 1) k }
     else Some (i, m) }"

definition strncat :: "bmem \<Rightarrow> nat \<Rightarrow> nat \<Rightarrow> nat \<Rightarrow> (nat \<times> bmem) option" where
  "strncat m dest src num = do {
     n \<leftarrow> strlen m dest;
     (i, m) \<leftarrow> ncat_loop m (dest + n) src 0 num;
     m \<leftarrow> wr m (dest + n + i) 0;
     Some (dest, m) }"

definition strcpy :: "bmem \<Rightarrow> nat \<Rightarrow> nat \<Rightarrow> (nat \<times> bmem) option" where
  "strcpy m dest src = do { n \<leftarrow> strlen m src; memcpy m dest src (n + 1) }"

fun ncpy_pad :: "bmem \<Rightarrow> nat \<Rightarrow> nat \<Rightarrow> nat \<Rightarrow> bmem option" where
  "ncpy_pad m dest i 0 = Some m"
| "ncpy_pad m dest i (Suc k) = do { m \<leftarrow> wr m (dest + i) 0; ncpy_pad m dest (i + 1) k }"

fun ncpy_loop :: "bmem \<Rightarrow> nat \<Rightarrow> nat \<Rightarrow> nat \<Rightarrow> nat \<Rightarrow> bmem option" where
  "ncpy_loop m dest src i 0 = Some m"
| "ncpy_loop m dest src i (Suc k) = do {
     c \<leftarrow> rd m (src + i);
     if c \<noteq> 0 then do { m \<leftarrow> wr m (dest + i) c; ncpy_loop m dest src (i + 1) k }
     else ncpy_pad m dest i (Suc k) }"

definition strncpy :: "bmem \<Rightarrow> nat \<Rightarrow> nat \<Rightarrow> nat \<Rightarrow> (nat \<times> bmem) option" where
  "strncpy m dest src n = do { m \<leftarrow> ncpy_loop m dest src 0 n; Some (dest, m) }"

definition append_c :: "bmem \<Rightarrow> nat \<Rightarrow> u8 \<Rightarrow> bmem option" where
  "append_c m str c = do {
     n \<leftarrow> strlen m str;
     m \<leftarrow> wr m (str + n) c;
     wr m (str + n + 1) 0 }"

text \<open>\<open>to_uppercase\<close> writes the 256-byte static array \<open>up\<close>, without a terminator.\<close>

definition upcase :: "u8 \<Rightarrow> u8" where
  "upcase c = (if 97 \<le> sint c \<and> sint c \<le> 122 then c - 32 else c)"

function upper_loop :: "bmem \<Rightarrow> nat \<Rightarrow> bmem \<Rightarrow> nat \<Rightarrow> bmem option" where
  "upper_loop m cur up u =
     (case rd m cur of
        None \<Rightarrow> None
      | Some c \<Rightarrow>
          if c \<noteq> 0
          then (case wr up u (upcase c) of None \<Rightarrow> None | Some up' \<Rightarrow> upper_loop m (cur + 1) up' (u + 1))
          else Some up)"
  by pat_completeness auto
termination
  by (relation "measure (\<lambda>(m, cur, up, u). length m - cur)") (auto simp: rd_Some)

declare upper_loop.simps [simp del]

definition to_uppercase :: "bmem \<Rightarrow> nat \<Rightarrow> bmem \<Rightarrow> bmem option" where
  "to_uppercase m str up = upper_loop m str up 0"

text \<open>The two scans of \<open>trim\<close> and \<open>strim\<close> over spaces; \<open>skip_back\<close> takes and gives \<open>j + 1\<close>.\<close>

fun skip_front :: "bmem \<Rightarrow> nat \<Rightarrow> nat \<Rightarrow> nat \<Rightarrow> nat option" where
  "skip_front m str i 0 = Some i"
| "skip_front m str i (Suc k) = do {
     c \<leftarrow> rd m (str + i);
     if c = 32 then skip_front m str (i + 1) k else Some i }"

fun skip_back :: "bmem \<Rightarrow> nat \<Rightarrow> nat \<Rightarrow> nat option" where
  "skip_back m str 0 = Some 0"
| "skip_back m str (Suc j) = do {
     c \<leftarrow> rd m (str + j);
     if c = 32 then skip_back m str j else Some (Suc j) }"

definition trim :: "bmem \<Rightarrow> nat \<Rightarrow> (nat \<times> bmem) option" where
  "trim m str = do {
     n \<leftarrow> strlen m str;
     i \<leftarrow> skip_front m str 0 n;
     j1 \<leftarrow> skip_back m str n;
     if j1 \<le> i + 1 then do { m \<leftarrow> wr m str 0; Some (str, m) }
     else do { m \<leftarrow> wr m (str + j1) 0; Some (str + i, m) } }"

text \<open>\<open>strim\<close> returns \<open>'\0'\<close>, the NULL pointer, for a string with at most one other character.\<close>

definition strim :: "bmem \<Rightarrow> nat \<Rightarrow> nat \<Rightarrow> (nat option \<times> bmem) option" where
  "strim m str buf = do {
     n \<leftarrow> strlen m str;
     i \<leftarrow> skip_front m str 0 n;
     j1 \<leftarrow> skip_back m str n;
     if j1 \<le> i + 1 then Some (None, m)
     else do {
       m \<leftarrow> copy_up m buf (str + i) 0 (j1 - i);
       m \<leftarrow> wr m (buf + (j1 - i)) 0;
       Some (Some buf, m) } }"

section \<open>Numbers\<close>

text \<open>
  The digit loops write the static array from position \<open>i\<close> on, least digit first; \<open>%\<close> and \<open>/\<close>
  truncate towards 0 (\<open>smod\<close>, \<open>sdiv\<close>).
\<close>

function dec_loop :: "bmem \<Rightarrow> nat \<Rightarrow> int \<Rightarrow> (nat \<times> bmem) option" where
  "dec_loop str i num =
     (case wr str i (word_of_int (num smod 10 + 48)) of
        None \<Rightarrow> None
      | Some str' \<Rightarrow> if num sdiv 10 > 0 then dec_loop str' (i + 1) (num sdiv 10) else Some (i + 1, str'))"
  by pat_completeness auto
termination
  by (relation "measure (\<lambda>(str, i, num). nat num)") (auto simp: signed_divide_int_def sgn_if split: if_splits)

declare dec_loop.simps [simp del]

definition int_to_string :: "bmem \<Rightarrow> int \<Rightarrow> bmem option" where
  "int_to_string str n = do {
     (i, str) \<leftarrow> dec_loop str 0 n;
     str \<leftarrow> wr str i 0;
     reverse str 0 }"

definition hex_digit :: "int \<Rightarrow> int" where
  "hex_digit num = (if num smod 16 \<ge> 10 then (num - 10) smod 16 + 97 else num smod 16 + 48)"

function hex_loop :: "bmem \<Rightarrow> nat \<Rightarrow> int \<Rightarrow> (nat \<times> bmem) option" where
  "hex_loop str i num =
     (case wr str i (word_of_int (hex_digit num)) of
        None \<Rightarrow> None
      | Some str' \<Rightarrow> if num sdiv 16 > 0 then hex_loop str' (i + 1) (num sdiv 16) else Some (i + 1, str'))"
  by pat_completeness auto
termination
  by (relation "measure (\<lambda>(str, i, num). nat num)") (auto simp: signed_divide_int_def sgn_if split: if_splits)

declare hex_loop.simps [simp del]

definition int_to_hexstring :: "bmem \<Rightarrow> int \<Rightarrow> bmem option" where
  "int_to_hexstring str n = do {
     (i, str) \<leftarrow> hex_loop str 0 n;
     str \<leftarrow> wr str i 120;
     str \<leftarrow> wr str (i + 1) 48;
     str \<leftarrow> wr str (i + 2) 0;
     reverse str 0 }"

end
