(* ===== verification/CStringProofs.thy ===== *)
theory CStringProofs
  imports CString
begin

text \<open>
  What the functions of the theory CString compute.  \<open>cstr m p s\<close>: the memory holds, at \<open>p\<close>, the
  non-zero characters \<open>s\<close> and then the terminator.
\<close>

fun cstr :: "bmem \<Rightarrow> nat \<Rightarrow> u8 list \<Rightarrow> bool" where
  "cstr m p [] \<longleftrightarrow> rd m p = Some 0"
| "cstr m p (c # s) \<longleftrightarrow> rd m p = Some c \<and> c \<noteq> 0 \<and> cstr m (p + 1) s"

section \<open>Strings in memory\<close>

lemma cstr_nth: "cstr m p s \<longleftrightarrow> p + length s < length m \<and> (\<forall>i<length s. m ! (p + i) = s ! i) \<and>
    m ! (p + length s) = 0 \<and> 0 \<notin> set s"
proof (induction s arbitrary: p)
  case Nil
  then show ?case by (auto simp: rd_Some)
next
  case (Cons c s)
  have "(\<forall>i<length (c # s). m ! (p + i) = (c # s) ! i) \<longleftrightarrow>
      m ! p = c \<and> (\<forall>i<length s. m ! (Suc p + i) = s ! i)"
    by (auto simp: less_Suc_eq_0_disj)
  then show ?case by (auto simp: Cons rd_Some)
qed

lemma cstr_frame:
  assumes "cstr m p s" and "length m' = length m"
    and "\<And>x. p \<le> x \<Longrightarrow> x \<le> p + length s \<Longrightarrow> m' ! x = m ! x"
  shows "cstr m' p s"
  using assms unfolding cstr_nth by simp

lemma cstr_append: "cstr m p (s @ t) \<longleftrightarrow> (\<forall>i<length s. rd m (p + i) = Some (s ! i)) \<and> 0 \<notin> set s \<and> cstr m (p + length s) t"
proof (induction s arbitrary: p)
  case (Cons c s)
  have "(\<forall>i<length (c # s). rd m (p + i) = Some ((c # s) ! i)) \<longleftrightarrow>
      rd m p = Some c \<and> (\<forall>i<length s. rd m (Suc p + i) = Some (s ! i))"
    by (auto simp: less_Suc_eq_0_disj)
  then show ?case using Cons [of "Suc p"] by auto
qed simp

lemma strlen_loop_cstr: "cstr m (p + i) s \<Longrightarrow> strlen_loop m p i = Some (i + length s)"
proof (induction s arbitrary: i)
  case Nil
  then show ?case by (simp add: strlen_loop.simps)
next
  case (Cons c s)
  then have "strlen_loop m p i = strlen_loop m p (i + 1)" by (subst strlen_loop.simps) simp
  then show ?case using Cons.IH [of "i + 1"] Cons.prems by simp
qed

lemma strlen_cstr: "cstr m p s \<Longrightarrow> strlen m p = Some (length s)"
  using strlen_loop_cstr [of m p 0 s] by (simp add: strlen_def)

section \<open>Copying\<close>

text \<open>Both copy loops keep the length; \<open>moved\<close> says what they leave in memory.\<close>

definition moved :: "bmem \<Rightarrow> nat \<Rightarrow> nat \<Rightarrow> nat \<Rightarrow> bmem \<Rightarrow> bool" where
  "moved m dest src n m' \<longleftrightarrow> length m' = length m \<and>
     (\<forall>x<length m. m' ! x = (if dest \<le> x \<and> x < dest + n then m ! (src + (x - dest)) else m ! x))"

lemma copy_up_moves:
  assumes "src + i + k \<le> length m" "dest + i + k \<le> length m" "dest \<le> src \<or> src + i + k \<le> dest + i"
  shows "\<exists>m'. copy_up m dest src i k = Some m' \<and> moved m (dest + i) (src + i) k m'"
  using assms
proof (induction k arbitrary: m i)
  case (Suc k)
  let ?m = "m[dest + i := m ! (src + i)]"
  obtain m' where m': "copy_up ?m dest src (i + 1) k = Some m'" "moved ?m (dest + (i + 1)) (src + (i + 1)) k m'"
    using Suc.IH [of "i + 1" ?m] Suc.prems by auto
  have "moved m (dest + i) (src + i) (Suc k) m'"
    unfolding moved_def
  proof (intro conjI allI impI)
    show "length m' = length m" using m'(2) by (simp add: moved_def)
    fix x assume x: "x < length m"
    then have at: "m' ! x = (if dest + (i + 1) \<le> x \<and> x < dest + (i + 1) + k
        then ?m ! (src + (i + 1) + (x - (dest + (i + 1)))) else ?m ! x)"
      using m'(2) by (simp add: moved_def)
    show "m' ! x = (if dest + i \<le> x \<and> x < dest + i + Suc k then m ! (src + i + (x - (dest + i))) else m ! x)"
    proof (cases "dest + (i + 1) \<le> x \<and> x < dest + (i + 1) + k")
      case True
      define y where "y = src + i + (x - (dest + i))"
      have "src + (i + 1) + (x - (dest + (i + 1))) = y" using True unfolding y_def by linarith
      moreover have "y \<noteq> dest + i" using Suc.prems(3) True unfolding y_def by linarith
      ultimately have "m' ! x = m ! y" using True at by simp
      then show ?thesis using True by (simp add: y_def)
    next
      case False
      then have "m' ! x = ?m ! x" using at by argo
      then show ?thesis using False x by (cases "x = dest + i") auto
    qed
  qed
  then show ?case using m'(1) Suc.prems by (simp add: rd_def wr_def)
qed (auto simp: moved_def)

lemma copy_down_moves:
  assumes "src + k \<le> length m" "dest + k \<le> length m" "src \<le> dest"
  shows "\<exists>m'. copy_down m dest src k = Some m' \<and> moved m dest src k m'"
  using assms
proof (induction k arbitrary: m)
  case (Suc k)
  let ?m = "m[dest + k := m ! (src + k)]"
  obtain m' where m': "copy_down ?m dest src k = Some m'" "moved ?m dest src k m'"
    using Suc.IH [of ?m] Suc.prems by auto
  have "moved m dest src (Suc k) m'"
    using m'(2) Suc.prems unfolding moved_def
    by (auto simp: nth_list_update less_Suc_eq)
  then show ?case using m'(1) Suc.prems by (simp add: rd_def wr_def)
qed (auto simp: moved_def)

text \<open>C38: \<open>memmove\<close> copies correctly for every overlap of the two areas: afterwards the destination holds
  the bytes the source held before, and every other byte is as it was.\<close>

theorem memmove_moves:
  assumes "dest + n \<le> length m" and "src + n \<le> length m"
  shows "\<exists>m'. memmove m dest src n = Some (dest, m') \<and> moved m dest src n m'"
  using copy_up_moves [of src 0 n m dest] copy_down_moves [of src n m dest] assms
  by (auto simp: memmove_def memcpy_def)

theorem memmove_moves_witness:
  "\<exists>m'. memmove [1, 2, 3, 4, 5] 1 0 3 = Some (1, m') \<and> moved [1, 2, 3, 4, 5] 1 0 3 m'"
  using memmove_moves [of 1 3 "[1, 2, 3, 4, 5]" 0] by simp

text \<open>\<open>memset\<close> writes the first byte only, however many it is asked to set, and \<open>memcmp\<close> compares
  nothing but the first byte of each area.\<close>

theorem memset_memcmp_first_byte:
  assumes "dest < length m" and "p1 < length m" and "p2 < length m" and "0 < n"
  shows "memset m dest c n = Some (dest, m[dest := word_of_int c]) \<and>
     memcmp m p1 p2 n = Some (sint (m ! p1) - sint (m ! p2))"
proof -
  have "memset_loop m dest v n = Some (m[dest := v])" for v
    using assms(1,4)
  proof (induction n arbitrary: m)
    case (Suc n)
    then show ?case by (cases n) (simp_all add: wr_def)
  qed simp
  moreover have "memcmp m p1 p2 n = Some (sint (m ! p1) - sint (m ! p2))"
    using assms(2-4)
  proof (induction n)
    case (Suc n)
    then show ?case by (cases n) (auto simp: rd_def split: if_splits)
  qed simp
  ultimately show ?thesis by (simp add: memset_def)
qed

theorem memset_memcmp_first_byte_witness:
  "memset [1, 2, 3] 0 0 3 = Some (0, [0, 2, 3]) \<and> memcmp [1, 2, 1, 9] 0 2 2 = Some 0"
  using memset_memcmp_first_byte [of 0 "[1, 2, 3]" 0 0 3 0] memset_memcmp_first_byte [of 0 "[1, 2, 1, 9]" 0 2 2]
  by simp

lemma cat_loop_cstr:
  assumes "cstr m (src + i) s" and "dest_end + i + length s < length m"
    and "src + i + length s < dest_end + i \<or> dest_end + i + length s < src + i"
  shows "\<exists>m'. cat_loop m dest_end src i = Some (i + length s, m') \<and> length m' = length m \<and>
     (\<forall>x<length m. m' ! x = (if dest_end + i \<le> x \<and> x < dest_end + i + length s
        then s ! (x - (dest_end + i)) else m ! x))"
  using assms
proof (induction s arbitrary: m i)
  case Nil
  then have "m ! (src + i) = 0" "src + i < length m" by (simp_all add: rd_Some)
  then show ?case by (subst cat_loop.simps) (auto simp: cat_loop.simps)
next
  case (Cons c s)
  let ?m = "m[dest_end + i := c]"
  have c: "m ! (src + i) = c" "src + i < length m" "c \<noteq> 0" "cstr m (src + (i + 1)) s"
    using Cons.prems(1) by (simp_all add: rd_Some)
  have "cstr ?m (src + (i + 1)) s"
    using c(4) by (rule cstr_frame) (use Cons.prems(3) in auto)
  then obtain m' where m': "cat_loop ?m dest_end src (i + 1) = Some (i + 1 + length s, m')" "length m' = length m"
      "\<forall>x<length m. m' ! x = (if dest_end + (i + 1) \<le> x \<and> x < dest_end + (i + 1) + length s
         then s ! (x - (dest_end + (i + 1))) else ?m ! x)"
    using Cons.IH [of ?m "i + 1"] Cons.prems(2,3) by auto
  have "m' ! x = (if dest_end + i \<le> x \<and> x < dest_end + i + length (c # s)
      then (c # s) ! (x - (dest_end + i)) else m ! x)" if x: "x < length m" for x
  proof (cases "dest_end + (i + 1) \<le> x \<and> x < dest_end + (i + 1) + length s")
    case True
    then have "x - (dest_end + i) = Suc (x - (dest_end + (i + 1)))" by linarith
    then show ?thesis using m'(3) x True by simp
  next
    case False
    then have "m' ! x = ?m ! x" using m'(3) [rule_format, OF x] by argo
    then show ?thesis using False x by (cases "x = dest_end + i") auto
  qed
  moreover have "cat_loop m dest_end src i = cat_loop ?m dest_end src (i + 1)"
    using c Cons.prems(2) by (subst cat_loop.simps) simp
  ultimately show ?case using m' by simp
qed

text \<open>\<open>strcat\<close> appends: with room behind the destination string, clear of the source, the
  destination becomes the concatenation of the two strings and the source is unharmed.\<close>

theorem strcat_appends:
  assumes "cstr m dest a" and "cstr m src b" and "dest + length a + length b < length m"
    and "src + length b < dest \<or> dest + length a + length b < src"
  shows "\<exists>m'. strcat m dest src = Some (dest, m') \<and> cstr m' dest (a @ b) \<and> cstr m' src b"
proof -
  let ?d = "dest + length a"
  have c: "cstr m (src + 0) b" using assms(2) by simp
  obtain m1 where m1: "cat_loop m ?d src 0 = Some (length b, m1)" "length m1 = length m"
      "\<forall>x<length m. m1 ! x = (if ?d \<le> x \<and> x < ?d + length b then b ! (x - ?d) else m ! x)"
    using cat_loop_cstr [OF c, of ?d] assms(3,4) by auto
  let ?m = "m1[?d + length b := 0]"
  have "strcat m dest src = Some (dest, ?m)"
    using strlen_cstr [OF assms(1)] m1(1,2) assms(3) by (simp add: strcat_def wr_def)
  moreover have "cstr ?m dest (a @ b)"
    using assms(1-3) m1(2,3) unfolding cstr_nth by (auto simp: nth_append add.assoc)
  moreover have "cstr ?m src b"
    using assms(2) by (rule cstr_frame) (use m1(2,3) assms(2-4) in \<open>auto simp: cstr_nth\<close>)
  ultimately show ?thesis by blast
qed

theorem strcat_appends_witness:
  "\<exists>m'. strcat [97, 0, 1, 1, 1, 98, 99, 0] 0 5 = Some (0, m') \<and> cstr m' 0 [97, 98, 99] \<and> cstr m' 5 [98, 99]"
  using strcat_appends [of "[97, 0, 1, 1, 1, 98, 99, 0]" 0 "[97]" 5 "[98, 99]"] by (simp add: rd_def)

section \<open>Reversing\<close>

lemma reverse_loop_spec:
  assumes "int i + j = int n - 1" and "-1 \<le> j" "str + n \<le> length m"
  shows "\<exists>m'. reverse_loop m str i j = Some m' \<and> length m' = length m \<and>
     (\<forall>x<length m. m' ! x = (if str + i \<le> x \<and> x < str + n - i then m ! (str + (str + n - 1 - x)) else m ! x))"
  using assms
proof (induction m str i j rule: reverse_loop.induct)
  case (1 m str i j)
  show ?case
  proof (cases "int i < j")
    case False
    then have idx: "str + (str + n - 1 - x) = x" if "str + i \<le> x" "x < str + n - i" for x
      using that "1.prems"(1) by linarith
    have "m ! x = (if str + i \<le> x \<and> x < str + n - i then m ! (str + (str + n - 1 - x)) else m ! x)" for x
      using idx [of x] by presburger
    moreover have "reverse_loop m str i j = Some m" using False by (subst reverse_loop.simps) simp
    ultimately show ?thesis by blast
  next
    case lt: True
    define k where "k = nat j"
    have k: "j = int k" "i < k" "i + k = n - 1" "k < n" using lt "1.prems"(1) by (auto simp: k_def)
    have r: "rd m (str + i) = Some (m ! (str + i))" "rd m (str + nat j) = Some (m ! (str + k))"
      using k "1.prems"(3) by (auto simp: rd_def)
    let ?m = "m[str + i := m ! (str + k), str + k := m ! (str + i)]"
    have hyps: "int (i + 1) + (j - 1) = int n - 1" "-1 \<le> j - 1" "str + n \<le> length (m[str + i := m ! (str + k), str + nat j := m ! (str + i)])"
      using "1.prems" lt by auto
    obtain m' where m': "reverse_loop ?m str (i + 1) (j - 1) = Some m'" "length m' = length m"
        "\<forall>x<length m. m' ! x = (if str + (i + 1) \<le> x \<and> x < str + n - (i + 1)
           then ?m ! (str + (str + n - 1 - x)) else ?m ! x)"
      using "1.IH" [OF lt r hyps] unfolding k_def [symmetric] length_list_update by blast
    have step: "reverse_loop m str i j = reverse_loop ?m str (i + 1) (j - 1)"
      using lt r by (subst reverse_loop.simps) (simp add: k_def)
    have "m' ! x = (if str + i \<le> x \<and> x < str + n - i then m ! (str + (str + n - 1 - x)) else m ! x)"
      if x: "x < length m" for x
    proof (cases "str + (i + 1) \<le> x \<and> x < str + n - (i + 1)")
      case True
      define y where "y = str + (str + n - 1 - x)"
      have "y \<noteq> str + i" "y \<noteq> str + k" using True k unfolding y_def by linarith+
      moreover have "m' ! x = ?m ! y" using True m'(3) x by (simp add: y_def)
      ultimately have "m' ! x = m ! y" by simp
      moreover have "str + i \<le> x \<and> x < str + n - i" using True by linarith
      ultimately show ?thesis by (simp only: y_def if_True simp_thms)
    next
      case False
      then have mx: "m' ! x = ?m ! x" using m'(3) [rule_format, OF x] by argo
      consider "x = str + i" | "x = str + k" | "x < str + i \<or> str + k < x"
        using False k by linarith
      then show ?thesis
      proof cases
        case 1
        then have "str + (str + n - 1 - x) = str + k" "str + i < str + n - i" using k by linarith+
        then show ?thesis using 1 mx k x "1.prems"(3) by (simp add: nth_list_update)
      next
        case 2
        then have "str + (str + n - 1 - x) = str + i" "str + k < str + n - i" using k by linarith+
        then show ?thesis using 2 mx k x "1.prems"(3) by (simp add: nth_list_update)
      next
        case 3
        then show ?thesis using mx k by auto
      qed
    qed
    then show ?thesis using step m' by simp
  qed
qed

lemma reverse_cstr:
  assumes "cstr m p s"
  shows "\<exists>m'. reverse m p = Some m' \<and> cstr m' p (rev s) \<and> length m' = length m \<and>
     (\<forall>x<length m. x < p \<or> p + length s \<le> x \<longrightarrow> m' ! x = m ! x)"
proof -
  have m: "p + length s < length m" "\<forall>i<length s. m ! (p + i) = s ! i" "m ! (p + length s) = 0" "0 \<notin> set s"
    using assms by (auto simp: cstr_nth)
  obtain m' where m': "reverse_loop m p 0 (int (length s) - 1) = Some m'" "length m' = length m"
      "\<forall>x<length m. m' ! x = (if p \<le> x \<and> x < p + length s then m ! (p + (p + length s - 1 - x)) else m ! x)"
    using reverse_loop_spec [of 0 "int (length s) - 1" "length s" p m] m(1) by auto
  have "m' ! (p + i) = rev s ! i" if "i < length s" for i
  proof -
    have idx: "p + (p + length s - 1 - (p + i)) = p + (length s - 1 - i)" using that by linarith
    have "m' ! (p + i) = m ! (p + (p + length s - 1 - (p + i)))"
      using m'(3) [rule_format, of "p + i"] m(1) that by simp
    also have "\<dots> = s ! (length s - 1 - i)" unfolding idx using m(2) [rule_format, of "length s - 1 - i"] that by simp
    finally show ?thesis using that by (simp add: rev_nth)
  qed
  then have "cstr m' p (rev s)" using m m' by (simp add: cstr_nth)
  then show ?thesis using m' strlen_cstr [OF assms] by (auto simp: reverse_def)
qed

text \<open>\<open>reverse\<close> reverses a string in place and changes no byte outside it.\<close>

theorem reverse_reverses:
  assumes "cstr m p s"
  shows "\<exists>m'. reverse m p = Some m' \<and> cstr m' p (rev s) \<and> length m' = length m \<and>
     (\<forall>x<length m. x < p \<or> p + length s \<le> x \<longrightarrow> m' ! x = m ! x)"
  by (rule reverse_cstr [OF assms])

theorem reverse_reverses_witness:
  "\<exists>m'. reverse [7, 97, 98, 99, 0, 7] 1 = Some m' \<and> cstr m' 1 [99, 98, 97]"
  using reverse_reverses [of "[7, 97, 98, 99, 0, 7]" 1 "[97, 98, 99]"] by (auto simp: rd_def)

section \<open>Comparing and searching\<close>

text \<open>The reference for \<open>strcmp\<close>: the difference at the first position where the strings differ, the
  terminator taken as 0.\<close>

fun first_difference :: "u8 list \<Rightarrow> u8 list \<Rightarrow> int" where
  "first_difference [] [] = 0"
| "first_difference (a # s) [] = sint a"
| "first_difference [] (b # t) = - sint b"
| "first_difference (a # s) (b # t) = (if a = b then first_difference s t else sint a - sint b)"

lemma strcmp_loop_cstr:
  "cstr m (p + i) s \<Longrightarrow> cstr m (q + i) t \<Longrightarrow> strcmp_loop m p q i = Some (first_difference s t)"
proof (induction s t arbitrary: i rule: first_difference.induct)
  case (4 a s b t)
  then show ?case using "4.IH" [of "i + 1"] by (subst strcmp_loop.simps) auto
qed (subst strcmp_loop.simps; auto)+

lemma first_difference_0: "0 \<notin> set s \<Longrightarrow> 0 \<notin> set t \<Longrightarrow> first_difference s t = 0 \<longleftrightarrow> s = t"
proof (induction s t rule: first_difference.induct)
  case (2 a s)
  then show ?case using signed_eq_0_iff [of a] by auto
next
  case (3 b t)
  then show ?case using signed_eq_0_iff [of b] by auto
qed (auto simp: signed_word_eqI)

text \<open>\<open>strcmp\<close> of two strings terminates with the (signed) difference of the first differing
  characters, and the result is 0 exactly for equal strings.\<close>

theorem strcmp_first_difference:
  assumes "cstr m p s" and "cstr m q t"
  shows "strcmp m p q = Some (first_difference s t) \<and> (first_difference s t = 0 \<longleftrightarrow> s = t)"
  using strcmp_loop_cstr [of m p 0 s q t] first_difference_0 [of s t] assms
  by (simp add: strcmp_def cstr_nth)

theorem strcmp_first_difference_witness:
  "strcmp [97, 98, 0, 97, 99, 0] 0 3 = Some (-1)"
  using strcmp_first_difference [of "[97, 98, 0, 97, 99, 0]" 0 "[97, 98]" 3 "[97, 99]"] by (simp add: rd_def)

text \<open>\<open>strncmp\<close> looks one character too far: for strings that agree in their first \<open>n\<close>
  characters, none of them the terminator, it returns the difference at position \<open>n\<close>.\<close>

theorem strncmp_reads_past:
  assumes "\<And>i. i < n \<Longrightarrow> rd m (p + i) = Some (s ! i) \<and> rd m (q + i) = Some (s ! i) \<and> s ! i \<noteq> 0"
    and "rd m (p + n) = Some a" and "rd m (q + n) = Some b"
  shows "strncmp m p q n = Some (sint a - sint b)"
proof -
  have "i + k = n \<Longrightarrow> strncmp_loop m p q i k = Some (sint a - sint b)" for i k
    by (induction k arbitrary: i) (use assms in auto)
  then show ?thesis by (simp add: strncmp_def)
qed

theorem strncmp_reads_past_witness: "strncmp [97, 98, 0, 97, 99, 0] 0 3 1 = Some (-1)"
  using strncmp_reads_past [of 1 "[97, 98, 0, 97, 99, 0]" 0 "[97]" 3 98 99] by (simp add: rd_def)

lemma find_in_cstr:
  assumes "cstr m q t" and "c \<noteq> 0"
  shows "\<exists>r. find_in m c q = Some r \<and> r < length m \<and> (rd m r = Some 0 \<longleftrightarrow> c \<notin> set t)"
  using assms(1)
proof (induction t arbitrary: q)
  case Nil
  then have "find_in m c q = Some q" by (subst find_in.simps) simp
  then show ?case using Nil by (auto simp: rd_Some)
next
  case (Cons b t)
  show ?case
  proof (cases "c = b")
    case True
    then have "find_in m c q = Some q" using Cons.prems by (subst find_in.simps) simp
    then show ?thesis using Cons.prems True by (auto simp: rd_Some)
  next
    case False
    then have "find_in m c q = find_in m c (q + 1)" using Cons.prems by (subst find_in.simps) simp
    then show ?thesis using Cons.IH [of "q + 1"] Cons.prems False by simp
  qed
qed

lemma strspn_loop_cstr:
  assumes "cstr m q t"
  shows "cstr m (p + num) s \<Longrightarrow> strspn_loop m p q num = Some (num + length (takeWhile (\<lambda>c. c \<in> set t) s))"
proof (induction s arbitrary: num)
  case Nil
  then show ?case by (simp add: strspn_loop.simps)
next
  case (Cons c s)
  then obtain r where r: "find_in m c q = Some r" "r < length m" "rd m r = Some 0 \<longleftrightarrow> c \<notin> set t"
    using find_in_cstr [OF assms, of c] by auto
  show ?case
  proof (cases "c \<in> set t")
    case True
    then have "strspn_loop m p q num = strspn_loop m p q (num + 1)"
      using Cons.prems r by (subst strspn_loop.simps) (auto simp: rd_def)
    then show ?thesis using Cons.IH [of "num + 1"] Cons.prems True by simp
  next
    case False
    then show ?thesis using Cons.prems r by (subst strspn_loop.simps) (auto simp: rd_def)
  qed
qed

lemma any_eq_cstr:
  "cstr m q t \<Longrightarrow> any_eq m c q (length t + 1) = Some (c = 0 \<or> c \<in> set t)"
  by (induction t arbitrary: q) auto

lemma strcspn_loop_cstr:
  assumes "cstr m q t"
  shows "cstr m (p + i) s \<Longrightarrow>
     strcspn_loop m p q i (length s + 1) = Some (i + length (takeWhile (\<lambda>c. c \<notin> set t) s))"
proof (induction s arbitrary: i)
  case Nil
  then show ?case using any_eq_cstr [OF assms] strlen_cstr [OF assms] by (simp del: any_eq.simps)
next
  case (Cons c s)
  then show ?case using any_eq_cstr [OF assms] strlen_cstr [OF assms] Cons.IH [of "i + 1"]
    by (simp del: any_eq.simps)
qed

lemma strpbrk_cstr:
  assumes "cstr m q t"
  shows "cstr m p s \<Longrightarrow> strpbrk m p q =
     Some (if set s \<inter> set t = {} then None else Some (p + length (takeWhile (\<lambda>c. c \<notin> set t) s)))"
proof (induction s arbitrary: p)
  case Nil
  then show ?case by (simp add: strpbrk.simps)
next
  case (Cons c s)
  then obtain r where r: "find_in m c q = Some r" "rd m r = Some 0 \<longleftrightarrow> c \<notin> set t"
    using find_in_cstr [OF assms, of c] by auto
  show ?case
  proof (cases "c \<in> set t")
    case True
    then show ?thesis using Cons.prems r by (subst strpbrk.simps) auto
  next
    case False
    then have "strpbrk m p q = strpbrk m (p + 1) q" using Cons.prems r by (subst strpbrk.simps) simp
    then show ?thesis using Cons.IH [of "p + 1"] Cons.prems False by auto
  qed
qed

text \<open>\<open>strspn\<close> and \<open>strcspn\<close> give the length of the longest prefix made of, or free of, the
  characters of the second string, and \<open>strpbrk\<close> the position behind the latter, NULL when no
  character of the second string occurs.\<close>

theorem span_functions:
  assumes "cstr m p s" and "cstr m q t"
  shows "strspn m p q = Some (length (takeWhile (\<lambda>c. c \<in> set t) s)) \<and>
     strcspn m p q = Some (length (takeWhile (\<lambda>c. c \<notin> set t) s)) \<and>
     strpbrk m p q = Some (if set s \<inter> set t = {} then None
       else Some (p + length (takeWhile (\<lambda>c. c \<notin> set t) s)))"
  using strspn_loop_cstr [OF assms(2), of p 0 s] strcspn_loop_cstr [OF assms(2), of p 0 s]
    strpbrk_cstr [OF assms(2,1)] strlen_cstr [OF assms(1)] assms(1)
  by (simp add: strspn_def strcspn_def)

theorem span_functions_witness:
  "strspn [97, 97, 98, 0, 97, 0] 0 4 = Some 2 \<and> strcspn [97, 97, 98, 0, 97, 0] 0 4 = Some 0 \<and>
   strpbrk [97, 97, 98, 0, 97, 0] 0 4 = Some (Some 0)"
  using span_functions [of "[97, 97, 98, 0, 97, 0]" 0 "[97, 97, 98]" 4 "[97]"] by (simp add: rd_def)

lemma match_len_spec:
  "match_len m p q j = Some r \<Longrightarrow> \<forall>i\<in>{j..<r}. rd m (p + i) = rd m (q + i)"
proof (induction m p q j rule: match_len.induct)
  case (1 m p q j)
  note eq = match_len.simps [of m p q j]
  obtain a where a: "rd m (p + j) = Some a" using "1.prems" eq by (cases "rd m (p + j)") simp_all
  show ?case
  proof (cases "a = 0")
    case True
    then show ?thesis using "1.prems" eq a by simp
  next
    case nz: False
    obtain b where b: "rd m (q + j) = Some b" using "1.prems" eq a nz by (cases "rd m (q + j)") simp_all
    show ?thesis
    proof (cases "b \<noteq> 0 \<and> a = b")
      case True
      then have "match_len m p q (j + 1) = Some r" using "1.prems" eq a b by simp
      then have "\<forall>i\<in>{j + 1..<r}. rd m (p + i) = rd m (q + i)" by (rule "1.IH" [OF a nz b True])
      moreover have "{j..<r} \<subseteq> insert j {j + 1..<r}" by auto
      ultimately show ?thesis using a b True by auto
    next
      case False
      then show ?thesis using "1.prems" eq a b nz by (auto split: if_splits)
    qed
  qed
qed

lemma strstr_loop_found:
  "strstr_loop m p q i = Some (Some r) \<Longrightarrow> cstr m q t \<Longrightarrow> \<forall>k<length t. rd m (r + k) = Some (t ! k)"
proof (induction m p q i rule: strstr_loop.induct)
  case (1 m p q i)
  note eq = strstr_loop.simps [of m p q i]
  obtain c where c: "rd m (p + i) = Some c" "c \<noteq> 0"
    using "1.prems" eq by (cases "rd m (p + i)") (auto split: if_splits)
  obtain j where j: "match_len m (p + i) q 0 = Some j"
    using "1.prems" eq c by (cases "match_len m (p + i) q 0") simp_all
  obtain b where b: "rd m (q + j) = Some b"
    using "1.prems" eq c j by (cases "rd m (q + j)") simp_all
  show ?case
  proof (cases "b = 0")
    case True
    then have r: "r = p + i" using "1.prems" eq c j b by simp
    have t: "rd m (q + k) = Some (t ! k) \<and> t ! k \<noteq> 0" if "k < length t" for k
      using "1.prems"(2) that by (auto simp: cstr_nth rd_def in_set_conv_nth)
    then have "length t \<le> j" using b True by (metis not_less option.inject)
    then show ?thesis using match_len_spec [OF j] t r by simp
  next
    case False
    then have "strstr_loop m p q (i + j + 1) = Some (Some r)" using "1.prems"(1) eq c j b by simp
    then show ?thesis using "1.prems"(2) by (rule "1.IH" [OF c j b False])
  qed
qed

lemma strstr_miss: "strstr [97, 97, 98, 0, 97, 98, 0] 0 4 = Some None"
  by (simp add: strstr_def strstr_loop.simps [of _ _ _ 0] strstr_loop.simps [of _ _ _ "Suc (Suc 0)"]
      strstr_loop.simps [of _ _ _ "Suc (Suc (Suc 0))"] match_len.simps [of _ _ _ 0] match_len.simps [of _ _ _ "Suc 0"] rd_def)

lemma strstr_hit: "strstr [98, 97, 98, 0, 97, 98, 0] 0 4 = Some (Some 1)"
  by (simp add: strstr_def strstr_loop.simps [of _ _ _ 0] strstr_loop.simps [of _ _ _ "Suc 0"]
      match_len.simps [of _ _ _ 0] match_len.simps [of _ _ _ "Suc 0"] match_len.simps [of _ _ _ "Suc (Suc 0)"] rd_def)

text \<open>what \<open>strstr\<close> finds is there: a result \<open>r\<close> is a position at which the characters of the
  second string stand.  But it is incomplete: after a partial match it skips the matched
  characters, so it misses "ab" in "aab".\<close>

theorem strstr_sound_incomplete:
  assumes "cstr m q t" and "strstr m p q = Some (Some r)"
  shows "(\<forall>k<length t. rd m (r + k) = Some (t ! k)) \<and>
     strstr [97, 97, 98, 0, 97, 98, 0] 0 4 = Some None"
  using strstr_loop_found [of m p q 0 r t] assms strstr_miss by (simp add: strstr_def)

theorem strstr_sound_incomplete_witness:
  "strstr [98, 97, 98, 0, 97, 98, 0] 0 4 = Some (Some 1) \<and>
   rd [98, 97, 98, 0, 97, 98, 0] 1 = Some 97 \<and> rd [98, 97, 98, 0, 97, 98, 0] 2 = Some 98"
  using strstr_sound_incomplete [OF _ strstr_hit, of "[97, 98]"] strstr_hit
  by (simp add: rd_def numeral_2_eq_2 All_less_Suc)

section \<open>Numbers\<close>

text \<open>The number that digits stand for, least digit first.\<close>

fun dec_value :: "u8 list \<Rightarrow> int" where
  "dec_value [] = 0"
| "dec_value (d # ds) = (uint d - 48) + 10 * dec_value ds"

definition is_digit :: "u8 \<Rightarrow> bool" where
  "is_digit c \<longleftrightarrow> 48 \<le> uint c \<and> uint c \<le> 57"

lemma dec_value_foldl: "foldl (\<lambda>v c. 10 * v + (uint c - 48)) 0 (rev ds) = dec_value ds"
  by (induction ds) simp_all

lemma uint_byte: "0 \<le> d \<Longrightarrow> d < 256 \<Longrightarrow> uint (word_of_int d :: u8) = d"
  by (simp add: uint_word_of_int_eq take_bit_int_eq_self)

lemma uint_digit: "0 \<le> d \<Longrightarrow> d < 10 \<Longrightarrow> uint (word_of_int (d + 48) :: u8) = d + 48"
  by (rule uint_byte) simp_all

lemma dec_loop_spec:
  assumes "0 \<le> n" "n < 10 ^ k" "0 < k" "i + k \<le> length str"
  shows "\<exists>ds. dec_loop str i n = Some (i + length ds, take i str @ ds @ drop (i + length ds) str) \<and>
     ds \<noteq> [] \<and> length ds \<le> k \<and> dec_value ds = n \<and> (\<forall>c\<in>set ds. is_digit c)"
  using assms
proof (induction k arbitrary: i n str)
  case (Suc k)
  let ?d = "word_of_int (n mod 10 + 48) :: u8"
  have ud: "uint ?d = n mod 10 + 48" by (rule uint_digit) simp_all
  then have dig: "is_digit ?d" by (simp add: is_digit_def)
  have sd: "n smod 10 = n mod 10" "n sdiv 10 = n div 10"
    using Suc.prems(1) by (simp_all add: signed_divide_int_def signed_modulo_int_def sgn_if)
  have wr: "wr str i ?d = Some (str[i := ?d])" using Suc.prems(4) by (simp add: wr_def)
  have upd: "str[i := ?d] = take i str @ ?d # drop (Suc i) str"
    using Suc.prems(4) by (simp add: upd_conv_take_nth_drop)
  show ?case
  proof (cases "n div 10 > 0")
    case False
    then have "n div 10 = 0" using Suc.prems(1) by (simp add: pos_imp_zdiv_nonneg_iff order_antisym_conv)
    then have "dec_value [?d] = n" using ud mult_div_mod_eq [of 10 n] by simp
    moreover have "dec_loop str i n = Some (i + 1, str[i := ?d])"
      using False wr sd by (subst dec_loop.simps) simp
    ultimately show ?thesis using upd dig by (intro exI [of _ "[?d]"]) simp
  next
    case True
    then have "0 < k" using Suc.prems(2) by (cases k) auto
    moreover have "n div 10 < 10 ^ k" using Suc.prems(2) by simp
    ultimately obtain ds where ds: "dec_loop (str[i := ?d]) (i + 1) (n div 10) =
          Some (i + 1 + length ds, take (i + 1) (str[i := ?d]) @ ds @ drop (i + 1 + length ds) (str[i := ?d]))"
        "ds \<noteq> []" "length ds \<le> k" "dec_value ds = n div 10" "\<forall>c\<in>set ds. is_digit c"
      using Suc.IH [of "n div 10" "i + 1" "str[i := ?d]"] True Suc.prems(4) by auto
    have "dec_loop str i n = dec_loop (str[i := ?d]) (i + 1) (n div 10)"
      using True wr sd by (subst dec_loop.simps) simp
    moreover have "take (i + 1) (str[i := ?d]) = take i str @ [?d]"
      using Suc.prems(4) by (simp add: take_Suc_conv_app_nth)
    moreover have "dec_value (?d # ds) = n" using ds(4) ud mult_div_mod_eq [of 10 n] by simp
    ultimately show ?thesis using ds dig by (intro exI [of _ "?d # ds"]) simp
  qed
qed simp

lemma int_to_string_digits:
  assumes "0 \<le> n" and "n < 2 ^ 31" and "length buf = 32"
  shows "\<exists>m s. int_to_string buf n = Some m \<and> cstr m 0 s \<and> s \<noteq> [] \<and> (\<forall>c\<in>set s. is_digit c) \<and>
     foldl (\<lambda>v c. 10 * v + (uint c - 48)) 0 s = n"
proof -
  have "n < 10 ^ 10" using assms(2) by simp
  then obtain ds where ds: "dec_loop buf 0 n = Some (length ds, ds @ drop (length ds) buf)"
      "ds \<noteq> []" "length ds \<le> 10" "dec_value ds = n" "\<forall>c\<in>set ds. is_digit c"
    using dec_loop_spec [of n 10 0 buf] assms(1,3) by auto
  let ?m = "(ds @ drop (length ds) buf)[length ds := 0]"
  have "0 \<notin> set ds" using ds(5) by (auto simp: is_digit_def)
  then have "cstr ?m 0 ds" using ds(3) assms(3) by (simp add: cstr_nth nth_append nth_list_update)
  then obtain m' where "reverse ?m 0 = Some m'" "cstr m' 0 (rev ds)"
    using reverse_cstr by blast
  then show ?thesis
    using ds assms(3) dec_value_foldl [of ds]
    by (intro exI [of _ m'] exI [of _ "rev ds"]) (simp add: int_to_string_def wr_def)
qed

text \<open>C39: \<open>int_to_string\<close> of a non-negative int gives its decimal digits, most significant first, in the
  32-byte buffer; reading them back gives the number.\<close>

theorem int_to_string_decimal:
  assumes "0 \<le> n" and "n < 2 ^ 31" and "length buf = 32"
  shows "\<exists>m s. int_to_string buf n = Some m \<and> cstr m 0 s \<and> s \<noteq> [] \<and> (\<forall>c\<in>set s. is_digit c) \<and>
     foldl (\<lambda>v c. 10 * v + (uint c - 48)) 0 s = n"
  using assms by (rule int_to_string_digits)

theorem int_to_string_decimal_witness:
  "\<exists>m s. int_to_string (replicate 32 0) 2024 = Some m \<and> cstr m 0 s \<and> s \<noteq> [] \<and> (\<forall>c\<in>set s. is_digit c) \<and>
     foldl (\<lambda>v c. 10 * v + (uint c - 48)) 0 s = 2024"
  by (rule int_to_string_decimal) simp_all

text \<open>of a negative int it gives garbage: for a one-digit number the single character below '0' by
  that number, without a sign ("+" for -5).\<close>

theorem int_to_string_negative:
  assumes "-10 < n" and "n < 0" and "length buf = 32"
  shows "\<exists>m. int_to_string buf n = Some m \<and> cstr m 0 [word_of_int (n + 48)]"
proof -
  let ?d = "word_of_int (n + 48) :: u8"
  have "uint ?d = n + 48" using assms(1,2) by (intro uint_byte) simp_all
  then have nz: "?d \<noteq> 0" using assms(1) by auto
  have "n smod 10 = n" "n sdiv 10 = 0"
    using assms(1,2) by (simp_all add: signed_divide_int_def signed_modulo_int_def sgn_if)
  then have "dec_loop buf 0 n = Some (1, buf[0 := ?d])"
    using assms(3) by (subst dec_loop.simps) (simp add: wr_def)
  moreover have "cstr (buf[0 := ?d, 1 := 0]) 0 [?d]" using nz assms(3) by (simp add: rd_def)
  ultimately show ?thesis
    using reverse_cstr [of "buf[0 := ?d, 1 := 0]" 0 "[?d]"] assms(3)
    by (auto simp: int_to_string_def wr_def)
qed

theorem int_to_string_negative_witness:
  "\<exists>m. int_to_string (replicate 32 0) (-5) = Some m \<and> cstr m 0 [43]"
  using int_to_string_negative [of "-5" "replicate 32 0"] by simp

section \<open>Numerals\<close>

text \<open>The numeral of a number in the base \<open>b\<close>, most significant digit first and without leading zeros; the
  digits from ten on are the letters from a.\<close>

definition numeral_digit :: "nat \<Rightarrow> u8" where
  "numeral_digit d = of_nat (if d < 10 then 48 + d else 87 + d)"

function numeral_text :: "nat \<Rightarrow> nat \<Rightarrow> u8 list" where
  "numeral_text b n =
     (if b < 2 \<or> n < b then [numeral_digit n] else numeral_text b (n div b) @ [numeral_digit (n mod b)])"
  by pat_completeness auto
termination
  by (relation "measure snd") (auto simp: not_less intro!: div_less_dividend)

declare numeral_text.simps [simp del]

lemma numeral_text_small: "n < b \<Longrightarrow> numeral_text b n = [numeral_digit n]"
  by (subst numeral_text.simps) simp

lemma numeral_text_step: "2 \<le> b \<Longrightarrow> b \<le> n \<Longrightarrow> numeral_text b n = numeral_text b (n div b) @ [numeral_digit (n mod b)]"
  by (subst numeral_text.simps) simp

lemma numeral_text_length: "n < b ^ k \<Longrightarrow> 0 < k \<Longrightarrow> length (numeral_text b n) \<le> k"
proof (induction k arbitrary: n)
  case (Suc k)
  show ?case
  proof (cases "b < 2 \<or> n < b")
    case True
    then show ?thesis by (subst numeral_text.simps) auto
  next
    case False
    then have "0 < k" using Suc.prems(1) by (cases k) auto
    moreover have "n div b < b ^ k" using Suc.prems(1) False by (simp add: div_less_iff_less_mult mult.commute)
    ultimately show ?thesis using Suc.IH [of "n div b"] False by (simp add: numeral_text_step)
  qed
qed simp

lemma numeral_digit_nz: "d < 16 \<Longrightarrow> numeral_digit d \<noteq> 0"
proof -
  assume "d < 16"
  then have "unat (numeral_digit d) = (if d < 10 then 48 + d else 87 + d)"
    unfolding numeral_digit_def by (simp add: unat_of_nat)
  then show ?thesis by (auto split: if_splits)
qed

lemma numeral_text_nz: "2 \<le> b \<Longrightarrow> b \<le> 16 \<Longrightarrow> 0 \<notin> set (numeral_text b n)"
proof (induction n rule: less_induct)
  case (less n)
  show ?case
  proof (cases "n < b")
    case True
    then show ?thesis using less.prems numeral_digit_nz [of n] by (simp add: numeral_text_small)
  next
    case False
    moreover from this have "n div b < n" using less.prems by (intro div_less_dividend) auto
    moreover have "n mod b < 16" using less.prems mod_less_divisor [of b n] by linarith
    ultimately show ?thesis using less numeral_digit_nz [of "n mod b"] by (simp add: numeral_text_step)
  qed
qed

text \<open>A loop that writes one digit in each round, least digit first, writes the numeral backwards.\<close>

lemma digit_loop:
  assumes loop: "\<And>str i n. L str i (int n) =
      (case wr str i (numeral_digit (n mod b)) of
         None \<Rightarrow> None
       | Some str' \<Rightarrow> if 0 < n div b then L str' (i + 1) (int (n div b)) else Some (i + 1, str'))"
    and b: "2 \<le> b"
  shows "i + length (numeral_text b n) \<le> length str \<Longrightarrow>
     L str i (int n) = Some (i + length (numeral_text b n),
       take i str @ rev (numeral_text b n) @ drop (i + length (numeral_text b n)) str)"
proof (induction n arbitrary: str i rule: less_induct)
  case (less n)
  let ?d = "numeral_digit (n mod b)"
  have i: "i < length str" using less.prems by (subst (asm) numeral_text.simps) (auto split: if_splits)
  then have wr: "wr str i ?d = Some (str[i := ?d])" and upd: "str[i := ?d] = take i str @ ?d # drop (Suc i) str"
    by (simp_all add: wr_def upd_conv_take_nth_drop)
  show ?case
  proof (cases "n < b")
    case True
    then show ?thesis using loop [of str i n] wr upd by (simp add: numeral_text_small)
  next
    case False
    then have n: "0 < n div b" "n div b < n" using b by (auto intro!: div_less_dividend simp: div_greater_zero_iff)
    have digits: "numeral_text b n = numeral_text b (n div b) @ [?d]" using False b by (simp add: numeral_text_step)
    have "L (str[i := ?d]) (i + 1) (int (n div b)) =
        Some (i + 1 + length (numeral_text b (n div b)), take (i + 1) (str[i := ?d]) @ rev (numeral_text b (n div b)) @
          drop (i + 1 + length (numeral_text b (n div b))) (str[i := ?d]))"
      using less.prems digits by (intro less.IH [OF n(2)]) simp
    moreover have "take (i + 1) (str[i := ?d]) = take i str @ [?d]" using i by (simp add: take_Suc_conv_app_nth)
    ultimately show ?thesis using loop [of str i n] wr n(1) digits by simp
  qed
qed

lemma sdiv_nat: "int n sdiv int b = int (n div b)" "int n smod int b = int (n mod b)"
  by (simp_all add: signed_divide_int_def signed_modulo_int_def sgn_if zdiv_int zmod_int)

lemma dec_loop_numeral:
  "i + length (numeral_text 10 n) \<le> length str \<Longrightarrow>
     dec_loop str i (int n) = Some (i + length (numeral_text 10 n),
       take i str @ rev (numeral_text 10 n) @ drop (i + length (numeral_text 10 n)) str)"
proof (rule digit_loop)
  show "dec_loop str i (int n) = (case wr str i (numeral_digit (n mod 10)) of None \<Rightarrow> None
      | Some str' \<Rightarrow> if 0 < n div 10 then dec_loop str' (i + 1) (int (n div 10)) else Some (i + 1, str'))" for str i n
  proof -
    have s: "int n smod 10 = int (n mod 10)" "int n sdiv 10 = int (n div 10)"
      using sdiv_nat [of n 10] by simp_all
    have "word_of_int (int n smod 10 + 48) = numeral_digit (n mod 10)"
      unfolding s by (simp add: numeral_digit_def add.commute)
    then show ?thesis by (subst dec_loop.simps) (simp only: s of_nat_0_less_iff)
  qed
qed simp_all

lemma hex_loop_numeral:
  "i + length (numeral_text 16 n) \<le> length str \<Longrightarrow>
     hex_loop str i (int n) = Some (i + length (numeral_text 16 n),
       take i str @ rev (numeral_text 16 n) @ drop (i + length (numeral_text 16 n)) str)"
proof (rule digit_loop)
  show "hex_loop str i (int n) = (case wr str i (numeral_digit (n mod 16)) of None \<Rightarrow> None
      | Some str' \<Rightarrow> if 0 < n div 16 then hex_loop str' (i + 1) (int (n div 16)) else Some (i + 1, str'))" for str i n
  proof -
    have s: "int n smod 16 = int (n mod 16)" "int n sdiv 16 = int (n div 16)"
      using sdiv_nat [of n 16] by simp_all
    have "(int n - 10) smod 16 = int (n mod 16) - 10" if "10 \<le> n mod 16"
    proof -
      have "10 \<le> n" using that mod_less_eq_dividend [of n 16] by linarith
      then have "(int n - 10) smod 16 = int ((n - 10) mod 16)" using sdiv_nat(2) [of "n - 10" 16] by simp
      moreover have "(n - 10) mod 16 = n mod 16 - 10"
      proof -
        have "n - 10 = 16 * (n div 16) + (n mod 16 - 10)" using that \<open>10 \<le> n\<close> mult_div_mod_eq [of 16 n] by linarith
        then show ?thesis by (metis mod_mult_self4 mod_less less_imp_diff_less mod_less_divisor zero_less_numeral)
      qed
      ultimately show ?thesis using that by simp
    qed
    then have "word_of_int (hex_digit (int n)) = numeral_digit (n mod 16)"
      unfolding hex_digit_def numeral_digit_def s by auto
    then show ?thesis by (subst hex_loop.simps) (simp only: s of_nat_0_less_iff)
  qed
qed simp_all

end
