(* ===== verification/Stdio.thy ===== *)
theory Stdio
  imports Display CStringProofs Streams
begin

text \<open>
  libc/stdio.c.  Memory, the format string and string arguments are those of the theory CString;
  the variable arguments are a list, and reading one of another type than was passed, or one too
  many, gives None.  The digit functions write into static arrays of 32 bytes of their own; what was
  in them before does not show.
\<close>

datatype va_arg = VInt int | VPtr nat

section \<open>Directives\<close>

definition cstring_at :: "bmem \<Rightarrow> nat \<Rightarrow> u8 list option" where
  "cstring_at m p = do { n \<leftarrow> strlen m p; Some (take n (drop p m)) }"

definition static_str :: bmem where
  "static_str = replicate 32 0"

definition dec_string :: "int \<Rightarrow> u8 list option" where
  "dec_string n = do { b \<leftarrow> int_to_string static_str n; cstring_at b 0 }"

definition hex_string :: "int \<Rightarrow> u8 list option" where
  "hex_string n = do { b \<leftarrow> int_to_hexstring static_str n; cstring_at b 0 }"

abbreviation str_true :: "u8 list" where "str_true \<equiv> [116, 114, 117, 101]"
abbreviation str_false :: "u8 list" where "str_false \<equiv> [102, 97, 108, 115, 101]"

text \<open>What a directive of \<open>printf\<close> and \<open>kprintf\<close> makes the output do; the specifiers are d, x, s, c
  and B, and any other is skipped.\<close>

datatype piece = Puts "u8 list" | Putc u8 | Skip

fun text_of :: "piece \<Rightarrow> u8 list" where
  "text_of (Puts s) = s"
| "text_of (Putc c) = [c]"
| "text_of Skip = []"

definition directive :: "bmem \<Rightarrow> u8 \<Rightarrow> va_arg list \<Rightarrow> (piece \<times> va_arg list) option" where
  "directive m k args =
     (if k = 100 then case args of VInt n # r \<Rightarrow> do { s \<leftarrow> dec_string n; Some (Puts s, r) } | _ \<Rightarrow> None
      else if k = 120 then case args of VInt n # r \<Rightarrow> do { s \<leftarrow> hex_string n; Some (Puts s, r) } | _ \<Rightarrow> None
      else if k = 115 then case args of VPtr p # r \<Rightarrow> do { s \<leftarrow> cstring_at m p; Some (Puts s, r) } | _ \<Rightarrow> None
      else if k = 99 then case args of VInt n # r \<Rightarrow> Some (Putc (word_of_int n), r) | _ \<Rightarrow> None
      else if k = 66 then case args of VInt n # r \<Rightarrow> Some (Puts (if n \<noteq> 0 then str_true else str_false), r) | _ \<Rightarrow> None
      else Some (Skip, args))"

section \<open>printf and kprintf\<close>

text \<open>
  The loop that both functions have: \<open>out\<close> outputs a piece.  After a directive the loop steps over
  the specifier without looking at it, also when it is the terminator.
\<close>

function format_loop :: "(piece \<Rightarrow> 'd \<Rightarrow> 'd option) \<Rightarrow> bmem \<Rightarrow> nat \<Rightarrow> va_arg list \<Rightarrow> 'd \<Rightarrow> 'd option" where
  "format_loop out m fmt args d =
     (case rd m fmt of
        None \<Rightarrow> None
      | Some c \<Rightarrow>
          if c = 0 then Some d
          else if c = 37
          then (case rd m (fmt + 1) of
                  None \<Rightarrow> None
                | Some k \<Rightarrow>
                    (case directive m k args of
                       None \<Rightarrow> None
                     | Some (p, r) \<Rightarrow>
                         (case out p d of None \<Rightarrow> None | Some d' \<Rightarrow> format_loop out m (fmt + 2) r d')))
          else (case out (Putc c) d of None \<Rightarrow> None | Some d' \<Rightarrow> format_loop out m (fmt + 1) args d'))"
  by pat_completeness auto
termination
  by (relation "measure (\<lambda>(out, m, fmt, args, d). length m - fmt)") (auto simp: rd_Some)

declare format_loop.simps [simp del]

definition dis_out :: "'d display \<Rightarrow> piece \<Rightarrow> 'd \<Rightarrow> 'd option" where
  "dis_out dd p d = (case p of Puts s \<Rightarrow> dis_puts dd s d | Putc c \<Rightarrow> dis_putc dd c d | Skip \<Rightarrow> Some d)"

definition kprintf :: "'d display \<Rightarrow> bmem \<Rightarrow> nat \<Rightarrow> va_arg list \<Rightarrow> 'd \<Rightarrow> (int \<times> 'd) option" where
  "kprintf dd m fmt args d = do { d \<leftarrow> format_loop (dis_out dd) m fmt args d; Some (0, d) }"

definition std_out_piece :: "piece \<Rightarrow> std_stream \<Rightarrow> std_stream option" where
  "std_out_piece p s =
     (case p of
        Puts t \<Rightarrow> map_option snd (puts_std s t)
      | Putc c \<Rightarrow> map_option snd (put_std s c)
      | Skip \<Rightarrow> Some s)"

text \<open>\<open>out\<close> is \<open>stdout\<close> of the running process.\<close>

definition printf :: "bmem \<Rightarrow> nat \<Rightarrow> va_arg list \<Rightarrow> std_stream \<Rightarrow> (int \<times> std_stream) option" where
  "printf m fmt args out = do { out \<leftarrow> format_loop std_out_piece m fmt args out; Some (0, out) }"

definition kprint :: "'d display \<Rightarrow> u8 list \<Rightarrow> 'd \<Rightarrow> 'd option" where
  "kprint dd s d = dis_puts dd s d"

definition kprintln :: "'d display \<Rightarrow> u8 list \<Rightarrow> 'd \<Rightarrow> 'd option" where
  "kprintln dd s d = Option.bind (dis_puts dd s d) (dis_putc dd 10)"

section \<open>sprintf\<close>

text \<open>
  \<open>temp\<close>, the string to insert: a string argument in memory or one of the static strings.
  \<open>va_arg(args, bool)\<close> is undefined, as a bool is passed as an int (gcc compiles a trap): None.
\<close>

datatype temp_str = InMem nat | Static "u8 list"

definition sdirective :: "u8 \<Rightarrow> va_arg list \<Rightarrow> (temp_str option \<times> va_arg list) option" where
  "sdirective k args =
     (if k = 100 then case args of VInt n # r \<Rightarrow> do { s \<leftarrow> dec_string n; Some (Some (Static s), r) } | _ \<Rightarrow> None
      else if k = 120 then case args of VInt n # r \<Rightarrow> do { s \<leftarrow> hex_string n; Some (Some (Static s), r) } | _ \<Rightarrow> None
      else if k = 115 then case args of VPtr p # r \<Rightarrow> Some (Some (InMem p), r) | _ \<Rightarrow> None
      else if k = 66 then None
      else Some (None, args))"

fun put_bytes :: "bmem \<Rightarrow> nat \<Rightarrow> u8 list \<Rightarrow> bmem option" where
  "put_bytes m p [] = Some m"
| "put_bytes m p (c # s) = do { m \<leftarrow> wr m p c; put_bytes m (p + 1) s }"

text \<open>\<open>len = strlen(temp); strncpy(str, temp, len)\<close>: the length and the memory.\<close>

definition insert_temp :: "bmem \<Rightarrow> nat \<Rightarrow> temp_str \<Rightarrow> (nat \<times> bmem) option" where
  "insert_temp m str t =
     (case t of
        InMem p \<Rightarrow> do { len \<leftarrow> strlen m p; (_, m) \<leftarrow> strncpy m str p len; Some (len, m) }
      | Static s \<Rightarrow> do { m \<leftarrow> put_bytes m str s; Some (length s, m) })"

lemma wr_length: "wr m p c = Some m' \<Longrightarrow> length m' = length m"
  by (auto simp: wr_def split: if_splits)

lemma put_bytes_length: "put_bytes m p s = Some m' \<Longrightarrow> length m' = length m"
  by (induction s arbitrary: m p) (auto simp: wr_length split: bind_splits)

lemma ncpy_pad_length: "ncpy_pad m dest i k = Some m' \<Longrightarrow> length m' = length m"
  by (induction k arbitrary: m i) (auto simp: wr_length split: bind_splits)

lemma ncpy_loop_length: "ncpy_loop m dest src i k = Some m' \<Longrightarrow> length m' = length m"
proof (induction k arbitrary: m i)
  case (Suc k)
  then show ?case by (auto simp: wr_length dest: ncpy_pad_length split: bind_splits if_splits)
qed simp

lemma insert_temp_length: "insert_temp m str t = Some (n, m') \<Longrightarrow> length m' = length m"
  by (auto simp: insert_temp_def strncpy_def put_bytes_length ncpy_loop_length
      split: temp_str.splits bind_splits)

text \<open>The result: \<open>str\<close>, \<open>chars_written\<close> and the memory at the end of the loop.\<close>

function sprintf_loop :: "bmem \<Rightarrow> nat \<Rightarrow> nat \<Rightarrow> va_arg list \<Rightarrow> int \<Rightarrow> (nat \<times> int \<times> bmem) option" where
  "sprintf_loop m str fmt args n =
     (case rd m fmt of
        None \<Rightarrow> None
      | Some c \<Rightarrow>
          if c = 0 then Some (str, n, m)
          else if c = 37
          then (case rd m (fmt + 1) of
                  None \<Rightarrow> None
                | Some k \<Rightarrow>
                    (case sdirective k args of
                       None \<Rightarrow> None
                     | Some (None, r) \<Rightarrow> sprintf_loop m str (fmt + 2) r n
                     | Some (Some t, r) \<Rightarrow>
                         (case insert_temp m str t of
                            None \<Rightarrow> None
                          | Some (len, m') \<Rightarrow> sprintf_loop m' (str + len) (fmt + 2) r (n + int len))))
          else (case wr m str c of
                  None \<Rightarrow> None
                | Some m' \<Rightarrow> sprintf_loop m' (str + 1) (fmt + 1) args (n + 1)))"
  by pat_completeness auto
termination
  by (relation "measure (\<lambda>(m, str, fmt, args, n). length m - fmt)")
    (auto simp: rd_Some wr_length insert_temp_length)

declare sprintf_loop.simps [simp del]

definition sprintf :: "bmem \<Rightarrow> nat \<Rightarrow> nat \<Rightarrow> va_arg list \<Rightarrow> (int \<times> bmem) option" where
  "sprintf m str fmt args = do {
     (str, n, m) \<leftarrow> sprintf_loop m str fmt args 0;
     m \<leftarrow> wr m str 0;
     Some (n, m) }"

end
