(* ===== verification/StdioProofs.thy ===== *)
theory StdioProofs
  imports Stdio
begin

text \<open>
  What the functions of libc/stdio.c output.  \<open>formatted\<close> is the meaning of format strings, stated
  without reference to the code.  \<open>render\<close> collects what the directives of \<open>printf\<close> put out and serves
  the proofs.
\<close>

section \<open>The meaning of a format string\<close>

text \<open>\<open>formatted ks m f as t\<close>: in the memory \<open>m\<close> the format \<open>f\<close> with the arguments \<open>as\<close> stands for the text \<open>t\<close>.
  The directives are \<open>%d\<close> and \<open>%x\<close> of non-negative ints, \<open>%s\<close> of a string, \<open>%c\<close> of a character and \<open>%B\<close> of a
  boolean, as far as the codes of their letters (100, 120, 115, 99, 66) are in \<open>ks\<close>; 37 is the percent sign.\<close>

inductive formatted :: "u8 set \<Rightarrow> bmem \<Rightarrow> u8 list \<Rightarrow> va_arg list \<Rightarrow> u8 list \<Rightarrow> bool" for ks m where
  f_end: "formatted ks m [] as []"
| f_plain: "c \<noteq> 37 \<Longrightarrow> formatted ks m f as t \<Longrightarrow> formatted ks m (c # f) as (c # t)"
| f_dec: "100 \<in> ks \<Longrightarrow> 0 \<le> n \<Longrightarrow> n < 2 ^ 31 \<Longrightarrow> formatted ks m f as t \<Longrightarrow>
    formatted ks m (37 # 100 # f) (VInt n # as) (numeral_text 10 (nat n) @ t)"
| f_hex: "120 \<in> ks \<Longrightarrow> 0 \<le> n \<Longrightarrow> n < 2 ^ 31 \<Longrightarrow> formatted ks m f as t \<Longrightarrow>
    formatted ks m (37 # 120 # f) (VInt n # as) (map of_char ''0x'' @ numeral_text 16 (nat n) @ t)"
| f_str: "115 \<in> ks \<Longrightarrow> cstr m p s \<Longrightarrow> formatted ks m f as t \<Longrightarrow>
    formatted ks m (37 # 115 # f) (VPtr p # as) (s @ t)"
| f_char: "99 \<in> ks \<Longrightarrow> formatted ks m f as t \<Longrightarrow>
    formatted ks m (37 # 99 # f) (VInt n # as) (word_of_int n # t)"
| f_bool: "66 \<in> ks \<Longrightarrow> formatted ks m f as t \<Longrightarrow>
    formatted ks m (37 # 66 # f) (VInt n # as) (map of_char (if n = 0 then ''false'' else ''true'') @ t)"

text \<open>What \<open>%d\<close> and \<open>%x\<close> print of a non-negative int.\<close>

lemma written_cstr:
  assumes "length s < k" and "0 \<notin> set s"
  shows "cstr ((s @ drop (length s) (replicate k c))[length s := 0]) 0 s"
  using assms by (simp add: cstr_nth nth_append nth_list_update)

lemma cstring_at_of_cstr: "cstr m p s \<Longrightarrow> cstring_at m p = Some s"
  by (auto simp: cstring_at_def strlen_cstr cstr_nth intro!: nth_equalityI)

lemma dec_string_numeral:
  assumes "0 \<le> n" and "n < 2 ^ 31"
  shows "dec_string n = Some (numeral_text 10 (nat n))"
proof -
  let ?s = "numeral_text 10 (nat n)"
  have "nat n < 10 ^ 10" using assms by simp
  then have len: "length ?s \<le> 10" by (rule numeral_text_length) simp
  then have "dec_loop static_str 0 n = Some (length ?s, rev ?s @ drop (length ?s) static_str)"
    using dec_loop_numeral [of 0 "nat n" static_str] assms(1) by (simp add: static_str_def)
  moreover have "cstr ((rev ?s @ drop (length ?s) static_str)[length ?s := 0]) 0 (rev ?s)"
    using written_cstr [of "rev ?s" 32 0] len numeral_text_nz [of 10 "nat n"] by (simp add: static_str_def)
  from reverse_cstr [OF this] obtain m where "reverse ((rev ?s @ drop (length ?s) static_str)[length ?s := 0]) 0 = Some m"
      "cstr m 0 ?s" by auto
  ultimately show ?thesis
    using len by (simp add: dec_string_def int_to_string_def wr_def cstring_at_of_cstr static_str_def)
qed

lemma hex_string_numeral:
  assumes "0 \<le> n" and "n < 2 ^ 31"
  shows "hex_string n = Some ([48, 120] @ numeral_text 16 (nat n))"
proof -
  let ?s = "numeral_text 16 (nat n)" and ?t = "rev (numeral_text 16 (nat n)) @ [120, 48]"
  have "nat n < 16 ^ 8" using assms by simp
  then have len: "length ?s \<le> 8" by (rule numeral_text_length) simp
  then have "hex_loop static_str 0 n = Some (length ?s, rev ?s @ drop (length ?s) static_str)"
    using hex_loop_numeral [of 0 "nat n" static_str] assms(1) by (simp add: static_str_def)
  moreover have "(rev ?s @ drop (length ?s) static_str)[length ?s := 120, Suc (length ?s) := 48] =
      ?t @ drop (length ?t) static_str"
    using len by (simp add: static_str_def list_eq_iff_nth_eq nth_append nth_list_update nth_Cons')
  moreover have "cstr ((?t @ drop (length ?t) static_str)[length ?t := 0]) 0 ?t"
    using written_cstr [of ?t 32 0] len numeral_text_nz [of 16 "nat n"] by (simp add: static_str_def)
  from reverse_cstr [OF this] obtain m where "reverse ((?t @ drop (length ?t) static_str)[length ?t := 0]) 0 = Some m"
      "cstr m 0 ([48, 120] @ ?s)" by auto
  ultimately show ?thesis
    using len by (simp add: hex_string_def int_to_hexstring_def wr_def cstring_at_of_cstr static_str_def)
qed

section \<open>The formatted text\<close>

fun render :: "bmem \<Rightarrow> u8 list \<Rightarrow> va_arg list \<Rightarrow> u8 list option" where
  "render m [] args = Some []"
| "render m [c] args = (if c = 37 then None else Some [c])"
| "render m (c # k # f) args =
     (if c = 37 then do { (p, r) \<leftarrow> directive m k args; t \<leftarrow> render m f r; Some (text_of p @ t) }
      else do { t \<leftarrow> render m (k # f) args; Some (c # t) })"

lemma render_plain: "c \<noteq> 37 \<Longrightarrow> render m (c # f) args = map_option ((#) c) (render m f args)"
  by (cases f) (simp_all add: map_option_case split: option.split)

lemma formatted_render: "formatted ks m f as t \<Longrightarrow> render m f as = Some t"
  by (induction rule: formatted.induct)
     (simp_all add: render_plain directive_def dec_string_numeral hex_string_numeral cstring_at_of_cstr)

lemma put_all_Nil: "put_all putc [] = Some"
  by (rule ext) simp

lemma bind_Some_id: "Option.bind x Some = x"
  by (cases x) simp_all

lemma format_loop_end: "rd m fmt = Some 0 \<Longrightarrow> format_loop out m fmt args d = Some d"
  by (simp add: format_loop.simps)

lemma format_loop_plain:
  "rd m fmt = Some c \<Longrightarrow> c \<noteq> 0 \<Longrightarrow> c \<noteq> 37 \<Longrightarrow>
     format_loop out m fmt args d = Option.bind (out (Putc c) d) (format_loop out m (fmt + 1) args)"
  by (subst format_loop.simps) (simp split: option.split)

lemma format_loop_directive:
  "rd m fmt = Some 37 \<Longrightarrow> rd m (fmt + 1) = Some k \<Longrightarrow> directive m k args = Some (p, r) \<Longrightarrow>
     format_loop out m fmt args d = Option.bind (out p d) (format_loop out m (fmt + 2) r)"
  by (subst format_loop.simps) (simp split: option.split)

lemma format_loop_render:
  assumes out: "\<And>p d. out p d = put_all emit (text_of p) d"
  shows "cstr m fmt f \<Longrightarrow> render m f args = Some t \<Longrightarrow> format_loop out m fmt args d = put_all emit t d"
proof (induction m f args arbitrary: fmt t d rule: render.induct)
  case (1 m args)
  then show ?case by (simp add: format_loop_end)
next
  case (2 m c args)
  then show ?case
    by (auto simp: format_loop_plain format_loop_end out bind_eq_Some_conv split: if_splits bind_split)
next
  case (3 m c k f args)
  show ?case
  proof (cases "c = 37")
    case True
    then obtain p r t' where p: "directive m k args = Some (p, r)" "render m f r = Some t'" "t = text_of p @ t'"
      using 3(4) by (auto split: bind_splits)
    have "cstr m (fmt + 2) f" using 3(3) by simp
    then have "format_loop out m (fmt + 2) r = put_all emit t'"
      using 3(1) [OF True p(1) refl _ p(2)] by blast
    then show ?thesis using p 3(3) True by (simp add: format_loop_directive out [of p d] put_all_append)
  next
    case False
    then obtain t' where t': "render m (k # f) args = Some t'" "t = c # t'"
      using 3(4) by (auto split: bind_splits)
    have "cstr m (fmt + 1) (k # f)" using 3(3) by simp
    then have "format_loop out m (fmt + 1) args = put_all emit t'"
      using 3(2) [OF False _ t'(1)] by blast
    then show ?thesis using t' 3(3) False by (simp add: format_loop_plain out [of "Putc c" d] put_all_Nil bind_Some_id)
  qed
qed

text \<open>Once the queue is full every further character is dropped, so a string that does not fit leaves
  the same queue whether \<open>puts_std\<close> stops or the rest is tried character by character.\<close>

abbreviation emit_std :: "u8 \<Rightarrow> std_stream \<Rightarrow> std_stream option" where
  "emit_std c s \<equiv> map_option snd (put_std s c)"

lemma put_std_cases:
  "put_std s c = None \<or> (\<exists>s'. put_std s c = Some (0, s')) \<or> (\<forall>c. put_std s c = Some (-1, s))"
  by (auto simp: put_std_def split: bind_splits)

lemma emit_full: "\<forall>c. put_std s c = Some (-1, s) \<Longrightarrow> put_all emit_std cs s = Some s"
  by (induction cs) simp_all

lemma feed_put_all: "map_option snd (feed put_std 0 s cs i) = put_all emit_std cs s"
proof (induction cs arbitrary: s i)
  case (Cons c cs)
  then show ?case using put_std_cases [of s c] emit_full [of s cs] by auto
qed simp

lemma std_out_put_all: "std_out_piece p s = put_all emit_std (text_of p) s"
  by (cases p) (simp_all add: std_out_piece_def puts_std_def feed_put_all put_all_Nil bind_Some_id)

section \<open>Correctness of printf and kprintf\<close>

abbreviation printf_directives :: "u8 set" where "printf_directives \<equiv> {100, 120, 115, 99, 66}"

text \<open>C20: \<open>printf\<close> returns 0 and appends the text that the format and its arguments stand for to the
  standard output queue of the running process, as much of it as the queue has room for: for \<open>%d\<close> and \<open>%x\<close>
  the decimal and, behind 0x, the hexadecimal numeral of a non-negative int, for \<open>%s\<close> the bytes of the
  string, for \<open>%c\<close> the character, for \<open>%B\<close> true or false.  (For negative numbers it is garbage.)\<close>

theorem printf_output:
  assumes "std_inv s" and "cstr m fmt f" and "formatted printf_directives m f args t"
  shows "\<exists>s'. printf m fmt args s = Some (0, s') \<and> std_inv s' \<and>
    std_contents s' = std_contents s @ take (255 - length (std_contents s)) t"
proof -
  obtain s' where s': "feed put_std 0 s t 0 = Some (of_nat (min (length t) (255 - length (std_contents s))), s')"
    "std_inv s'" "std_contents s' = std_contents s @ take (255 - length (std_contents s)) t"
    using std.feed_prefix [OF assms(1), of t 0] by auto
  have "format_loop std_out_piece m fmt args s = put_all emit_std t s"
    by (rule format_loop_render [OF std_out_put_all assms(2) formatted_render [OF assms(3)]])
  also have "\<dots> = Some s'" using feed_put_all [of s t 0] s'(1) by simp
  finally show ?thesis using s' by (simp add: printf_def)
qed

text \<open>The memory of the example: "n=%d\<open>\<close>%B!" at 0.\<close>

definition demo_format :: bmem where
  "demo_format = [110, 61, 37, 100, 37, 66, 33, 0]"

lemma numeral_42: "numeral_text 10 42 = [52, 50]"
  by code_simp

lemma demo_format_cstr: "cstr demo_format 0 [110, 61, 37, 100, 37, 66, 33]"
  by (simp add: demo_format_def rd_def)

lemma demo_formatted:
  "formatted printf_directives m [110, 61, 37, 100, 37, 66, 33] [VInt 42, VInt 0] [110, 61, 52, 50, 102, 97, 108, 115, 101, 33]"
proof -
  have "formatted printf_directives m [37, 66, 33] [VInt 0] (map of_char (if (0 :: int) = 0 then ''false'' else ''true'') @ [33])"
    by (intro f_bool f_plain f_end) simp_all
  then have "formatted printf_directives m [37, 100, 37, 66, 33] [VInt 42, VInt 0]
      (numeral_text 10 (nat 42) @ [102, 97, 108, 115, 101, 33])"
    by (intro f_dec) simp_all
  then show ?thesis using numeral_42 by (auto intro!: f_plain)
qed

theorem printf_output_witness:
  "\<exists>s'. printf demo_format 0 [VInt 42, VInt 0] \<lparr>stream = replicate 256 0, ssize = 256, s_in = 0, s_out = 0\<rparr> = Some (0, s') \<and>
     std_contents s' = [110, 61, 52, 50, 102, 97, 108, 115, 101, 33]"
proof -
  let ?s = "\<lparr>stream = replicate 256 0, ssize = 256, s_in = 0, s_out = 0\<rparr> :: std_stream"
  have "std_inv ?s" "std_contents ?s = []" by (simp_all add: std_inv_def std_contents_def ring_def)
  then show ?thesis using printf_output [OF _ demo_format_cstr demo_formatted, of ?s] by auto
qed

lemma kprintf_put_all:
  assumes "\<And>s d. dis_puts dd s d = put_all (dis_putc dd) s d" and "cstr m fmt f" and "render m f args = Some t"
  shows "kprintf dd m fmt args d = map_option (Pair 0) (put_all (dis_putc dd) t d)"
proof -
  have out: "dis_out dd p d = put_all (dis_putc dd) (text_of p) d" for p d
    by (cases p) (simp_all add: dis_out_def assms(1) put_all_Nil bind_Some_id)
  have "format_loop (dis_out dd) m fmt args d = put_all (dis_putc dd) t d"
    by (rule format_loop_render [OF out assms(2,3)])
  then show ?thesis by (cases "put_all (dis_putc dd) t d") (simp_all add: kprintf_def)
qed

text \<open>\<open>kprintf\<close> on the default display returns 0 and prints exactly the formatted text, as
  \<open>vesa_print\<close> would; of ASCII text it never fails.\<close>

theorem kprintf_output:
  assumes "cursor_ok v" and "cstr m fmt f" and "formatted printf_directives m f args t" and "ascii t"
  shows "\<exists>v'. kprintf default_dis m fmt args v = Some (0, v') \<and> vesa_print t v = Some v' \<and> cursor_ok v'"
proof -
  obtain v' where v': "dis_puts default_dis t v = Some v'" "cursor_ok v'"
    using vd.puts_ok [OF assms(1,4)] by blast
  then show ?thesis
    using kprintf_put_all [OF vd.puts_putc assms(2) formatted_render [OF assms(3)], of v] v' by (simp add: vesa_print_put_all)
qed

theorem kprintf_output_witness:
  "\<exists>v'. kprintf default_dis demo_format 0 [VInt 42, VInt 0] demo_vesa = Some (0, v') \<and>
     vesa_print [110, 61, 52, 50, 102, 97, 108, 115, 101, 33] demo_vesa = Some v' \<and> cursor_ok v'"
  by (rule kprintf_output [OF _ demo_format_cstr demo_formatted]) (simp_all add: demo_vesa_def cursor_ok_def)

lemma format_loop_overrun:
  assumes "rd m fmt = Some 37" and "rd m (fmt + 1) = Some 0" and "rd m (fmt + 2) = None"
  shows "format_loop out m fmt args d = None"
proof -
  have "format_loop out m (fmt + 2) args d' = None" for d' using assms(3) by (subst format_loop.simps) simp
  moreover have "directive m 0 args = Some (Skip, args)" by (simp add: directive_def)
  ultimately show ?thesis using assms by (simp add: format_loop_directive Option.bind_eq_None_conv)
qed

lemma sprintf_loop_overrun:
  assumes "rd m fmt = Some 37" and "rd m (fmt + 1) = Some 0" and "rd m (fmt + 2) = None"
  shows "sprintf_loop m str fmt args n = None"
proof -
  have "sprintf_loop m str (fmt + 2) args n = None" using assms(3) by (subst sprintf_loop.simps) simp
  then show ?thesis using assms by (subst sprintf_loop.simps) (simp add: sdirective_def)
qed

definition demo_stream_out :: std_stream where
  "demo_stream_out = \<lparr>stream = replicate 256 0, ssize = 256, s_in = 0, s_out = 0\<rparr>"

text \<open>a format string that ends in a percent sign is read past its terminator: where memory ends
  there, \<open>printf\<close>, \<open>kprintf\<close> and \<open>sprintf\<close> have no result.\<close>

theorem printf_trailing_percent:
  assumes "cstr m fmt [37]" and "length m = fmt + 2"
  shows "printf m fmt args s = None \<and> kprintf dd m fmt args d = None \<and> sprintf m str fmt args = None"
proof -
  have "rd m fmt = Some 37" "rd m (fmt + 1) = Some 0" "rd m (fmt + 2) = None"
    using assms by (simp_all add: rd_def)
  then show ?thesis
    by (simp add: printf_def kprintf_def sprintf_def format_loop_overrun sprintf_loop_overrun)
qed

theorem printf_trailing_percent_witness:
  "printf [37, 0] 0 [] demo_stream_out = None \<and> kprintf default_dis [37, 0] 0 [] demo_vesa = None \<and>
   sprintf [37, 0] 0 0 [] = None"
  using printf_trailing_percent [of "[37, 0]" 0 "[]" demo_stream_out default_dis demo_vesa 0]
  by (simp add: rd_def)

section \<open>Correctness of sprintf\<close>

definition temp_text :: "bmem \<Rightarrow> temp_str \<Rightarrow> u8 list option" where
  "temp_text m t = (case t of InMem p \<Rightarrow> cstring_at m p | Static s \<Rightarrow> Some s)"

fun srender :: "bmem \<Rightarrow> u8 list \<Rightarrow> va_arg list \<Rightarrow> u8 list option" where
  "srender m [] args = Some []"
| "srender m [c] args = (if c = 37 then None else Some [c])"
| "srender m (c # k # f) args =
     (if c = 37
      then do {
        (ot, r) \<leftarrow> sdirective k args;
        s \<leftarrow> (case ot of None \<Rightarrow> Some [] | Some t \<Rightarrow> temp_text m t);
        t \<leftarrow> srender m f r;
        Some (s @ t) }
      else do { t \<leftarrow> srender m (k # f) args; Some (c # t) })"

lemma srender_plain: "c \<noteq> 37 \<Longrightarrow> srender m (c # f) args = map_option ((#) c) (srender m f args)"
  by (cases f) (simp_all add: map_option_case split: option.split)

abbreviation sprintf_directives :: "u8 set" where "sprintf_directives \<equiv> {100, 120, 115}"

lemma formatted_srender: "formatted ks m f as t \<Longrightarrow> ks = sprintf_directives \<Longrightarrow> srender m f as = Some t"
  by (induction rule: formatted.induct)
     (simp_all add: srender_plain sdirective_def temp_text_def dec_string_numeral hex_string_numeral cstring_at_of_cstr)

text \<open>Overwriting memory from a position on.\<close>

definition overlay :: "bmem \<Rightarrow> nat \<Rightarrow> u8 list \<Rightarrow> bmem" where
  "overlay m p s = take p m @ s @ drop (p + length s) m"

lemma overlay_Nil [simp]: "overlay m p [] = m"
  by (simp add: overlay_def)

lemma length_overlay [simp]: "p + length s \<le> length m \<Longrightarrow> length (overlay m p s) = length m"
  by (simp add: overlay_def)

lemma overlay_overlay:
  "p + length s + length t \<le> length m \<Longrightarrow> overlay (overlay m p s) (p + length s) t = overlay m p (s @ t)"
  by (simp add: overlay_def ac_simps)

lemma take_overlay [simp]: "q \<le> p \<Longrightarrow> p \<le> length m \<Longrightarrow> take q (overlay m p s) = take q m"
  by (simp add: overlay_def min_absorb1)

lemma wr_overlay: "p < length m \<Longrightarrow> wr m p c = Some (overlay m p [c])"
  by (simp add: wr_def overlay_def upd_conv_take_nth_drop)

lemma put_bytes_overlay: "p + length s \<le> length m \<Longrightarrow> put_bytes m p s = Some (overlay m p s)"
proof (induction s arbitrary: m p)
  case (Cons c s)
  then have "put_bytes (overlay m p [c]) (p + 1) s = Some (overlay (overlay m p [c]) (p + 1) s)" by simp
  then show ?case using Cons.prems overlay_overlay [of p "[c]" s m] by (simp add: wr_overlay)
qed simp

lemma ncpy_loop_overlay:
  assumes "src + length s \<le> dest" and "dest + length s \<le> length m" and "0 \<notin> set s"
    and "\<And>j. j < length s \<Longrightarrow> m ! (src + j) = s ! j"
  shows "i + k = length s \<Longrightarrow> ncpy_loop (overlay m dest (take i s)) dest src i k = Some (overlay m dest s)"
proof (induction k arbitrary: i)
  case (Suc k)
  let ?m = "overlay m dest (take i s)"
  have i: "i < length s" "min (length s) i = i" using Suc.prems by auto
  have "?m ! (src + i) = m ! (src + i)"
    using i assms(1,2) by (simp add: overlay_def nth_append)
  then have "rd ?m (src + i) = Some (s ! i)" "s ! i \<noteq> 0"
    using i assms by (auto simp: rd_def in_set_conv_nth)
  moreover have "wr ?m (dest + i) (s ! i) = Some (overlay m dest (take (Suc i) s))"
    using i assms(2) overlay_overlay [of dest "take i s" "[s ! i]" m]
    by (simp add: wr_overlay take_Suc_conv_app_nth)
  ultimately show ?case using Suc.IH [of "Suc i"] Suc.prems by simp
qed simp

lemma strlen_loop_result: "strlen_loop m p i = Some n \<Longrightarrow> i \<le> n \<and> cstr m (p + i) (take (n - i) (drop (p + i) m))"
proof (induction m p i rule: strlen_loop.induct)
  case (1 m p i)
  then obtain c where c: "rd m (p + i) = Some c" by (auto simp: strlen_loop.simps [of m p i] split: option.splits)
  show ?case
  proof (cases "c = 0")
    case True
    then show ?thesis using 1(2) c by (simp add: strlen_loop.simps [of m p i])
  next
    case False
    then have "strlen_loop m p (i + 1) = Some n" using 1(2) c by (simp add: strlen_loop.simps [of m p i])
    then have IH: "i + 1 \<le> n" "cstr m (p + (i + 1)) (take (n - (i + 1)) (drop (p + (i + 1)) m))"
      using 1(1) [OF c False] by auto
    have "drop (p + i) m = c # drop (p + (i + 1)) m" using c by (auto simp: rd_Some Cons_nth_drop_Suc)
    moreover have "n - i = Suc (n - (i + 1))" using IH(1) by simp
    ultimately show ?thesis using IH c False by simp
  qed
qed

lemma cstring_at_cstr: "cstring_at m p = Some s \<Longrightarrow> cstr m p s"
  using strlen_loop_result [of m p 0] by (auto simp: cstring_at_def strlen_def split: bind_splits)

text \<open>What \<open>insert_temp\<close> writes when the string to insert lies below position \<open>lo\<close> or is static.\<close>

lemma cstr_take: "cstr (take lo m) p s \<Longrightarrow> p + length s < lo \<and> cstr m p s"
  unfolding cstr_nth by auto

lemma insert_temp_overlay:
  assumes "temp_text (take lo m) t = Some s" and "lo \<le> str" and "str + length s \<le> length m"
  shows "insert_temp m str t = Some (length s, overlay m str s)"
proof (cases t)
  case (InMem p)
  then have "cstr (take lo m) p s" using assms(1) cstring_at_cstr by (simp add: temp_text_def)
  then have c: "p + length s < lo" "cstr m p s" using cstr_take by blast+
  have "ncpy_loop (overlay m str (take 0 s)) str p 0 (length s) = Some (overlay m str s)"
    using c assms(2,3) by (intro ncpy_loop_overlay) (auto simp: cstr_nth)
  then show ?thesis using InMem strlen_cstr [OF c(2)]
    by (simp add: insert_temp_def strncpy_def)
next
  case (Static u)
  then show ?thesis using assms by (simp add: insert_temp_def temp_text_def put_bytes_overlay)
qed

lemma sprintf_loop_end: "rd m fmt = Some 0 \<Longrightarrow> sprintf_loop m str fmt args n = Some (str, n, m)"
  by (simp add: sprintf_loop.simps)

lemma sprintf_loop_plain:
  "rd m fmt = Some c \<Longrightarrow> c \<noteq> 0 \<Longrightarrow> c \<noteq> 37 \<Longrightarrow> str < length m \<Longrightarrow>
     sprintf_loop m str fmt args n = sprintf_loop (overlay m str [c]) (str + 1) (fmt + 1) args (n + 1)"
  by (subst sprintf_loop.simps) (simp add: wr_overlay)

lemma sprintf_loop_render:
  "cstr (take lo m) fmt f \<Longrightarrow> srender (take lo m) f args = Some t \<Longrightarrow> lo \<le> str \<Longrightarrow> str + length t < length m \<Longrightarrow>
     sprintf_loop m str fmt args n = Some (str + length t, n + int (length t), overlay m str t)"
proof (induction "take lo m" f args arbitrary: m str fmt t n rule: srender.induct)
  case (1 args)
  then show ?case using cstr_take by (fastforce simp: sprintf_loop_end)
next
  case (2 c args)
  have "cstr m fmt [c]" using cstr_take 2(1) by blast
  moreover have "c \<noteq> 37" "t = [c]" using 2(2) by (auto split: if_splits)
  moreover have "rd (overlay m str [c]) (fmt + 1) = rd m (fmt + 1)"
    using cstr_take [OF 2(1)] 2(3,4) \<open>t = [c]\<close> by (auto simp: rd_def overlay_def nth_append)
  ultimately show ?case using 2(4) by (simp add: sprintf_loop_plain sprintf_loop_end)
next
  case (3 c k f args)
  have c: "cstr m fmt (c # k # f)" using cstr_take 3(3) by blast
  show ?case
  proof (cases "c = 37")
    case True
    then obtain ot r s t' where p: "sdirective k args = Some (ot, r)"
      "(case ot of None \<Rightarrow> Some [] | Some t \<Rightarrow> temp_text (take lo m) t) = Some s"
      "srender (take lo m) f r = Some t'" "t = s @ t'"
      using 3(4) by (auto split: bind_splits)
    let ?m = "overlay m str s"
    have low: "take lo ?m = take lo m" using 3(5,6) p(4) by simp
    have "sprintf_loop ?m (str + length s) (fmt + 2) r (n + int (length s)) =
        Some (str + length s + length t', n + int (length s) + int (length t'), overlay ?m (str + length s) t')"
      using 3(1) [OF True p(1) refl p(2), of ?m "fmt + 2" t' "str + length s" "n + int (length s)"]
        3(3,5,6) p(3,4) low by simp
    also have "overlay ?m (str + length s) t' = overlay m str t"
      using 3(6) p(4) by (simp add: overlay_overlay)
    finally have rest: "sprintf_loop ?m (str + length s) (fmt + 2) r (n + int (length s)) =
        Some (str + length t, n + int (length t), overlay m str t)" using p(4) by simp
    have "sprintf_loop m str fmt args n = sprintf_loop ?m (str + length s) (fmt + 2) r (n + int (length s))"
    proof (cases ot)
      case None
      then show ?thesis using p(1,2) c True by (subst sprintf_loop.simps) simp
    next
      case (Some u)
      then have "insert_temp m str u = Some (length s, ?m)"
        using insert_temp_overlay [of lo m u s str] p(2,4) 3(5,6) by simp
      then show ?thesis using Some p(1) c True by (subst sprintf_loop.simps) simp
    qed
    then show ?thesis using rest by simp
  next
    case False
    then obtain t' where t': "srender (take lo m) (k # f) args = Some t'" "t = c # t'"
      using 3(4) by (auto split: bind_splits)
    let ?m = "overlay m str [c]"
    have low: "take lo ?m = take lo m" using 3(5,6) by simp
    have "sprintf_loop ?m (str + 1) (fmt + 1) args (n + 1) =
        Some (str + 1 + length t', n + 1 + int (length t'), overlay ?m (str + 1) t')"
      using 3(2) [OF False, of ?m "fmt + 1" t' "str + 1" "n + 1"] 3(3,5,6) t' low by simp
    moreover have "overlay ?m (str + 1) t' = overlay m str t"
      using 3(6) t'(2) overlay_overlay [of str "[c]" t' m] by simp
    ultimately show ?thesis using c False t'(2) 3(6) by (simp add: sprintf_loop_plain)
  qed
qed

text \<open>C29: \<open>sprintf\<close> with the directives \<open>%d\<close>, \<open>%x\<close> (of non-negative ints) and \<open>%s\<close>: with the format string and its
  string arguments below the buffer and room for the text, it writes exactly the text that the format
  and its arguments stand for and a terminator, changes no other byte, and returns the length of the
  text.  (\<open>%c\<close> and \<open>%B\<close>, which \<open>printf\<close> also knows, do not work in \<open>sprintf\<close>.)\<close>

theorem sprintf_writes:
  assumes "cstr (take str m) fmt f" and "formatted sprintf_directives (take str m) f args t"
    and "str + length t < length m"
  shows "sprintf m str fmt args = Some (int (length t), take str m @ t @ [0] @ drop (str + length t + 1) m)"
proof -
  have "sprintf_loop m str fmt args 0 = Some (str + length t, int (length t), overlay m str t)"
    using sprintf_loop_render [OF assms(1) formatted_srender [OF assms(2) refl] order.refl assms(3), of 0] by simp
  moreover have "wr (overlay m str t) (str + length t) 0 = Some (overlay m str (t @ [0]))"
    using assms(3) by (simp add: wr_overlay overlay_overlay)
  ultimately show ?thesis by (simp add: sprintf_def overlay_def add.assoc)
qed

theorem sprintf_writes_witness:
  "sprintf ([37, 115, 61, 37, 100, 0, 97, 98, 0] @ replicate 9 5) 9 0 [VPtr 6, VInt 42] =
     Some (5, [37, 115, 61, 37, 100, 0, 97, 98, 0] @ [97, 98, 61, 52, 50] @ [0] @ replicate 3 5)"
proof -
  let ?m = "[37, 115, 61, 37, 100, 0, 97, 98, 0] @ replicate 9 5 :: bmem"
  have f: "cstr (take 9 ?m) 0 [37, 115, 61, 37, 100]" by (simp add: rd_def)
  have "formatted sprintf_directives (take 9 ?m) [37, 100] [VInt 42] (numeral_text 10 (nat 42) @ [])"
    by (intro f_dec f_end) simp_all
  then have "formatted sprintf_directives (take 9 ?m) [61, 37, 100] [VInt 42] [61, 52, 50]"
    using numeral_42 by (auto intro: f_plain)
  moreover have "cstr (take 9 ?m) 6 [97, 98]" by (simp add: rd_def)
  ultimately have "formatted sprintf_directives (take 9 ?m) [37, 115, 61, 37, 100] [VPtr 6, VInt 42] ([97, 98] @ [61, 52, 50])"
    by (intro f_str) simp_all
  from sprintf_writes [OF f this] show ?thesis by simp
qed

text \<open>\<open>%c\<close> in \<open>sprintf\<close> writes nothing and leaves its argument to the next directive.\<close>

theorem sprintf_skips_char:
  "sprintf ([37, 99, 37, 100, 0] @ replicate 4 5) 5 0 [VInt 42, VInt 7] =
     Some (2, [37, 99, 37, 100, 0] @ [52, 50, 0, 5])"
  by code_simp

end
