(* ===== verification/Messages.thy ===== *)
theory Messages
  imports StdioProofs
begin

text \<open>
  Calls of \<open>kprintf\<close> with a literal format: the format and the string arguments are laid out in memory
  one behind the other, each with its terminator, as a compiler lays out the literals and the caller
  its strings.  \<open>message\<close> is the text such a call prints, and \<open>kprintf_lit_text\<close> shows that it does.
  Used for the exception handler, the shell and \<open>kmain\<close>.
\<close>

definition bytes :: "string \<Rightarrow> u8 list" where
  "bytes = map of_char"

datatype lit_arg = AInt int | AStr "u8 list"

fun layout :: "nat \<Rightarrow> lit_arg list \<Rightarrow> va_arg list" where
  "layout p [] = []"
| "layout p (AInt n # as) = VInt n # layout p as"
| "layout p (AStr s # as) = VPtr p # layout (p + length s + 1) as"

fun contents_of :: "lit_arg list \<Rightarrow> bmem" where
  "contents_of [] = []"
| "contents_of (AInt n # as) = contents_of as"
| "contents_of (AStr s # as) = s @ 0 # contents_of as"

definition kprintf_lit :: "'d display \<Rightarrow> u8 list \<Rightarrow> lit_arg list \<Rightarrow> 'd \<Rightarrow> (int \<times> 'd) option" where
  "kprintf_lit dd f as d = kprintf dd (f @ 0 # contents_of as) 0 (layout (length f + 1) as) d"

section \<open>The text of a message\<close>

definition lit_directive :: "u8 \<Rightarrow> lit_arg list \<Rightarrow> (u8 list \<times> lit_arg list) option" where
  "lit_directive k as =
     (if k = 100 then case as of AInt n # r \<Rightarrow> do { s \<leftarrow> dec_string n; Some (s, r) } | _ \<Rightarrow> None
      else if k = 120 then case as of AInt n # r \<Rightarrow> do { s \<leftarrow> hex_string n; Some (s, r) } | _ \<Rightarrow> None
      else if k = 115 then case as of AStr s # r \<Rightarrow> Some (s, r) | _ \<Rightarrow> None
      else if k = 99 then case as of AInt n # r \<Rightarrow> Some ([word_of_int n], r) | _ \<Rightarrow> None
      else if k = 66 then case as of AInt n # r \<Rightarrow> Some (if n \<noteq> 0 then str_true else str_false, r) | _ \<Rightarrow> None
      else Some ([], as))"

fun message :: "u8 list \<Rightarrow> lit_arg list \<Rightarrow> u8 list option" where
  "message [] as = Some []"
| "message [c] as = (if c = 37 then None else Some [c])"
| "message (c # k # f) as =
     (if c = 37 then do { (s, r) \<leftarrow> lit_directive k as; t \<leftarrow> message f r; Some (s @ t) }
      else do { t \<leftarrow> message (k # f) as; Some (c # t) })"

text \<open>\<open>args_at m vs as\<close>: the arguments \<open>vs\<close> are the numbers of \<open>as\<close> and pointers to its strings.\<close>

fun args_at :: "bmem \<Rightarrow> va_arg list \<Rightarrow> lit_arg list \<Rightarrow> bool" where
  "args_at m [] [] = True"
| "args_at m (VInt n # vs) (AInt k # as) = (n = k \<and> args_at m vs as)"
| "args_at m (VPtr p # vs) (AStr s # as) = (cstr m p s \<and> args_at m vs as)"
| "args_at m _ _ = False"

lemma directive_lit:
  assumes "args_at m vs as"
  shows "lit_directive k as = Some (t, r) \<Longrightarrow>
     \<exists>p vr. directive m k vs = Some (p, vr) \<and> text_of p = t \<and> args_at m vr r"
  using assms
  by (cases "(m, vs, as)" rule: args_at.cases)
     (auto simp: lit_directive_def directive_def cstring_at_of_cstr split: if_splits bind_splits)

lemma render_message:
  "args_at m vs as \<Longrightarrow> message f as = Some t \<Longrightarrow> render m f vs = Some t"
proof (induction f as arbitrary: vs t rule: message.induct)
  case (3 c k f as)
  show ?case
  proof (cases "c = 37")
    case True
    then obtain s r t' where r: "lit_directive k as = Some (s, r)" "message f r = Some t'" "t = s @ t'"
      using 3(4) by (auto split: bind_splits)
    then obtain p vr where "directive m k vs = Some (p, vr)" "text_of p = s" "args_at m vr r"
      using directive_lit [OF 3(3) r(1)] by blast
    then show ?thesis using 3(1) [OF True r(1) refl _ r(2)] True r(3) by simp
  next
    case False
    then show ?thesis using 3 by (auto split: bind_splits)
  qed
qed auto

definition proper :: "lit_arg list \<Rightarrow> bool" where
  "proper as \<longleftrightarrow> (\<forall>s. AStr s \<in> set as \<longrightarrow> 0 \<notin> set s)"

lemma proper_simps [simp]: "proper []" "proper (AInt n # as) = proper as" "proper (AStr s # as) = (0 \<notin> set s \<and> proper as)"
  by (auto simp: proper_def)

lemma args_at_layout:
  "proper as \<Longrightarrow> args_at (pre @ contents_of as) (layout (length pre) as) as"
proof (induction "length pre" as arbitrary: pre rule: layout.induct)
  case (3 s as)
  then show ?case using 3(1) [of "pre @ s @ [0]"] by (simp add: cstr_nth nth_append)
qed simp_all

lemma kprintf_lit_text:
  assumes "\<And>s d. dis_puts dd s d = put_all (dis_putc dd) s d" and "message f as = Some t"
    and "0 \<notin> set f" and "proper as"
  shows "kprintf_lit dd f as d = map_option (Pair 0) (put_all (dis_putc dd) t d)"
proof -
  have "args_at ((f @ [0]) @ contents_of as) (layout (length (f @ [0])) as) as"
    by (rule args_at_layout [OF assms(4)])
  then have "render (f @ 0 # contents_of as) f (layout (length f + 1) as) = Some t"
    using assms(2) by (intro render_message) simp_all
  moreover have "cstr (f @ 0 # contents_of as) 0 f" using assms(3) by (simp add: cstr_nth nth_append)
  ultimately show ?thesis unfolding kprintf_lit_def by (intro kprintf_put_all assms(1))
qed

text \<open>On the default display a message of ASCII text is printed as a whole, as \<open>vesa_print\<close> would.\<close>

lemma kprintf_lit_vesa:
  assumes "cursor_ok v" and "message f as = Some t" and "0 \<notin> set f" and "proper as" and "ascii t"
  shows "\<exists>v'. kprintf_lit default_dis f as v = Some (0, v') \<and> vesa_print t v = Some v' \<and> cursor_ok v'"
proof -
  obtain v' where v': "dis_puts default_dis t v = Some v'" "cursor_ok v'"
    using vd.puts_ok [OF assms(1,5)] by blast
  then show ?thesis
    using kprintf_lit_text [OF vd.puts_putc assms(2-4), of v] v' by (simp add: vesa_print_put_all)
qed

end
