(* ===== verification/Lists.thy ===== *)
theory Lists
  imports Prelude
begin

text \<open>
  libk/list.c and include/libk/list.h: the intrusive doubly linked list with sentinel head and
  tail nodes.  A list node is a pair of pointer fields at an address.  The operations reach the
  fields through the accessors of a \<open>node_ops\<close> record (read and write \<open>next\<close>, read and write
  \<open>prev\<close>), so that one translation serves the thread and process lists (a store from node
  references to nodes, \<open>heap_ops\<close> below) and the allocation list that kmalloc keeps inside the
  slab memory itself (raw 32-bit words, \<open>mem_ops\<close> in the theory Kalloc).  NULL is None.
  A \<open>list_t\<close> is the pair of addresses of its two sentinels.  A result None of an operation is a
  NULL dereference or a loop that does not end.
\<close>

section \<open>Data\<close>

record 'a list_node =
  n_next :: "'a option"
  n_prev :: "'a option"

record 'a list_t =
  head :: 'a
  tail :: 'a

record ('h, 'a) node_ops =
  get_next :: "'h \<Rightarrow> 'a \<Rightarrow> 'a option"
  get_prev :: "'h \<Rightarrow> 'a \<Rightarrow> 'a option"
  put_next :: "'h \<Rightarrow> 'a \<Rightarrow> 'a option \<Rightarrow> 'h"
  put_prev :: "'h \<Rightarrow> 'a \<Rightarrow> 'a option \<Rightarrow> 'h"

section \<open>Operations\<close>

definition list_init :: "('h, 'a) node_ops \<Rightarrow> 'h \<Rightarrow> 'a list_t \<Rightarrow> 'h" where
  "list_init A h l =
     (let h = put_prev A h (head l) None;
          h = put_next A h (head l) (Some (tail l));
          h = put_prev A h (tail l) (Some (head l))
      in put_next A h (tail l) None)"

definition list_set_head :: "('h, 'a) node_ops \<Rightarrow> 'h \<Rightarrow> 'a list_t \<Rightarrow> 'a list_node \<Rightarrow> 'h" where
  "list_set_head A h l nd =
     (let h = put_prev A h (head l) (n_prev nd) in put_next A h (head l) (n_next nd))"

definition list_set_tail :: "('h, 'a) node_ops \<Rightarrow> 'h \<Rightarrow> 'a list_t \<Rightarrow> 'a list_node \<Rightarrow> 'h" where
  "list_set_tail A h l nd =
     (let h = put_prev A h (tail l) (n_prev nd) in put_next A h (tail l) (n_next nd))"

definition list_insert_end :: "('h, 'a) node_ops \<Rightarrow> 'h \<Rightarrow> 'a \<Rightarrow> 'a \<Rightarrow> 'h option" where
  "list_insert_end A h tail_p node = do {
     p \<leftarrow> get_prev A h tail_p;
     let h = put_next A h p (Some node);
     let h = put_prev A h node (get_prev A h tail_p);
     let h = put_prev A h tail_p (Some node);
     Some (put_next A h node (Some tail_p)) }"

definition list_insert_front :: "('h, 'a) node_ops \<Rightarrow> 'h \<Rightarrow> 'a \<Rightarrow> 'a \<Rightarrow> 'h option" where
  "list_insert_front A h head_p node = do {
     n \<leftarrow> get_next A h head_p;
     let h = put_prev A h n (Some node);
     let h = put_next A h node (get_next A h head_p);
     let h = put_next A h head_p (Some node);
     Some (put_prev A h node (Some head_p)) }"

definition list_insert :: "('h, 'a) node_ops \<Rightarrow> 'h \<Rightarrow> 'a list_t \<Rightarrow> 'a \<Rightarrow> 'h option" where
  "list_insert A h l node = list_insert_front A h (head l) node"

text \<open>The search loop of \<open>list_delete\<close>: \<open>while (curr != NULL && curr != node) curr = curr->next\<close>.\<close>

partial_function (option) list_seek ::
    "('h, 'a) node_ops \<Rightarrow> 'h \<Rightarrow> 'a option \<Rightarrow> 'a \<Rightarrow> 'a option option" where
  "list_seek A h cur node =
     (case cur of
        None \<Rightarrow> Some None
      | Some c \<Rightarrow> if c = node then Some (Some c) else list_seek A h (get_next A h c) node)"

definition list_delete ::
    "('h, 'a) node_ops \<Rightarrow> 'h \<Rightarrow> 'a list_t \<Rightarrow> 'a \<Rightarrow> ('a option \<times> 'h) option" where
  "list_delete A h l node = do {
     r \<leftarrow> list_seek A h (Some (head l)) node;
     (case r of
        None \<Rightarrow> Some (None, h)
      | Some c \<Rightarrow>
          if c = head l \<or> c = tail l then Some (None, h)
          else do {
            p \<leftarrow> get_prev A h c;
            let h = put_next A h p (get_next A h c);
            n \<leftarrow> get_next A h c;
            let h = put_prev A h n (get_prev A h c);
            let h = put_next A h c None;
            Some (Some c, put_prev A h c None) }) }"

definition list_isEmpty :: "('h, 'a) node_ops \<Rightarrow> 'h \<Rightarrow> 'a list_t \<Rightarrow> bool" where
  "list_isEmpty A h l \<longleftrightarrow> get_next A h (head l) = Some (tail l)"

text \<open>
  With \<open>head.next\<close> NULL, \<open>list_pop\<close> calls \<open>list_delete(list, NULL)\<close>, whose search runs to the
  end of the list and returns NULL.
\<close>

definition list_pop :: "('h, 'a) node_ops \<Rightarrow> 'h \<Rightarrow> 'a list_t \<Rightarrow> ('a option \<times> 'h) option" where
  "list_pop A h l =
     (if \<not> list_isEmpty A h l
      then (case get_next A h (head l) of
              None \<Rightarrow> Some (None, h)
            | Some f \<Rightarrow> list_delete A h l f)
      else Some (None, h))"

definition list_peek :: "('h, 'a) node_ops \<Rightarrow> 'h \<Rightarrow> 'a list_t \<Rightarrow> 'a option" where
  "list_peek A h l = (if \<not> list_isEmpty A h l then get_next A h (head l) else None)"

definition list_get_next :: "('h, 'a) node_ops \<Rightarrow> 'h \<Rightarrow> 'a \<Rightarrow> 'a option" where
  "list_get_next A h node = get_next A h node"

definition list_get_prev :: "('h, 'a) node_ops \<Rightarrow> 'h \<Rightarrow> 'a \<Rightarrow> 'a option" where
  "list_get_prev A h node = get_prev A h node"

definition list_hasNext :: "('h, 'a) node_ops \<Rightarrow> 'h \<Rightarrow> 'a \<Rightarrow> bool" where
  "list_hasNext A h node \<longleftrightarrow> get_next A h node \<noteq> None"

partial_function (option) list_count ::
    "('h, 'a) node_ops \<Rightarrow> 'h \<Rightarrow> 'a option \<Rightarrow> u32 \<Rightarrow> u32 option" where
  "list_count A h cur sz =
     (case cur of
        None \<Rightarrow> Some sz
      | Some c \<Rightarrow> if list_hasNext A h c then list_count A h (get_next A h c) (sz + 1)
                  else Some sz)"

definition list_size :: "('h, 'a) node_ops \<Rightarrow> 'h \<Rightarrow> 'a list_t \<Rightarrow> u32 option" where
  "list_size A h l = list_count A h (get_next A h (head l)) 0"

definition node_set_next :: "('h, 'a) node_ops \<Rightarrow> 'h \<Rightarrow> 'a \<Rightarrow> 'a option \<Rightarrow> 'h" where
  "node_set_next A h node nx = put_next A h node nx"

definition node_set_prev :: "('h, 'a) node_ops \<Rightarrow> 'h \<Rightarrow> 'a \<Rightarrow> 'a option \<Rightarrow> 'h" where
  "node_set_prev A h node pv = put_prev A h node pv"

definition node_equals :: "'a option \<Rightarrow> 'a option \<Rightarrow> bool" where
  "node_equals node1 node2 \<longleftrightarrow> node1 = node2"

section \<open>The list a heap represents\<close>

fun links :: "('h, 'a) node_ops \<Rightarrow> 'h \<Rightarrow> 'a list \<Rightarrow> bool" where
  "links A h [] \<longleftrightarrow> True"
| "links A h [x] \<longleftrightarrow> True"
| "links A h (x # y # zs) \<longleftrightarrow>
     get_next A h x = Some y \<and> get_prev A h y = Some x \<and> links A h (y # zs)"

definition spine :: "'a list_t \<Rightarrow> 'a list \<Rightarrow> 'a list" where
  "spine l xs = head l # xs @ [tail l]"

text \<open>\<open>dll A h l xs\<close>: the list \<open>l\<close> holds the nodes \<open>xs\<close>, in this order, linked both ways.\<close>

definition dll :: "('h, 'a) node_ops \<Rightarrow> 'h \<Rightarrow> 'a list_t \<Rightarrow> 'a list \<Rightarrow> bool" where
  "dll A h l xs \<longleftrightarrow> distinct (spine l xs) \<and> links A h (spine l xs) \<and>
     get_prev A h (head l) = None \<and> get_next A h (tail l) = None"

text \<open>\<open>same_on\<close>: two heaps agree on the fields of a set of nodes (the frame of an operation).\<close>

definition same_on :: "('h, 'a) node_ops \<Rightarrow> 'a set \<Rightarrow> 'h \<Rightarrow> 'h \<Rightarrow> bool" where
  "same_on A S h h' \<longleftrightarrow>
     (\<forall>q\<in>S. get_next A h' q = get_next A h q \<and> get_prev A h' q = get_prev A h q)"

lemma links_mid: "links A h (xs @ x # ys) \<longleftrightarrow> links A h (xs @ [x]) \<and> links A h (x # ys)"
proof (induction xs)
  case Nil
  show ?case by simp
next
  case (Cons a xs)
  then show ?case by (cases xs) auto
qed

lemma links_midD1: "links A h (xs @ x # ys) \<Longrightarrow> links A h (xs @ [x])"
  and links_midD2: "links A h (xs @ x # ys) \<Longrightarrow> links A h (x # ys)"
  by (erule links_mid [THEN iffD1, THEN conjunct1], erule links_mid [THEN iffD1, THEN conjunct2])

lemma links_same:
  "links A h xs \<Longrightarrow> same_on A (set xs) h h' \<Longrightarrow> links A h' xs"
  by (induction A h xs rule: links.induct) (auto simp: same_on_def)

lemma links_cong:
  assumes "links A h xs"
    and "\<And>q. q \<in> set (butlast xs) \<Longrightarrow> get_next A h' q = get_next A h q"
    and "\<And>q. q \<in> set (tl xs) \<Longrightarrow> get_prev A h' q = get_prev A h q"
  shows "links A h' xs"
  using assms
proof (induction A h xs rule: links.induct)
  case (3 A h x y zs)
  have "links A h' (y # zs)"
  proof (rule "3.IH")
    show "links A h (y # zs)" using "3.prems"(1) by simp
    show "get_next A h' q = get_next A h q" if "q \<in> set (butlast (y # zs))" for q
      using "3.prems"(2) [of q] that by simp
    show "get_prev A h' q = get_prev A h q" if "q \<in> set (tl (y # zs))" for q
      using "3.prems"(3) [of q] that by simp
  qed
  moreover have "get_next A h' x = Some y" "get_prev A h' y = Some x"
    using "3.prems"(1) "3.prems"(2) [of x] "3.prems"(3) [of y] by simp_all
  ultimately show ?case by simp
qed simp_all

lemma same_on_sub: "same_on A S h h' \<Longrightarrow> T \<subseteq> S \<Longrightarrow> same_on A T h h'"
  by (auto simp: same_on_def)

lemma same_on_trans: "same_on A S h h' \<Longrightarrow> same_on A S h' h'' \<Longrightarrow> same_on A S h h''"
  by (auto simp: same_on_def)

lemma same_on_refl [simp]: "same_on A S h h"
  by (auto simp: same_on_def)

lemma dll_same:
  assumes "dll A h l xs" and "same_on A (set (spine l xs)) h h'"
  shows "dll A h' l xs"
proof -
  have "links A h' (spine l xs)" using assms by (auto simp: dll_def intro: links_same)
  moreover have "head l \<in> set (spine l xs)" "tail l \<in> set (spine l xs)" by (auto simp: spine_def)
  ultimately show ?thesis using assms unfolding dll_def same_on_def by auto
qed

lemma dll_head_next:
  "dll A h l xs \<Longrightarrow> get_next A h (head l) = Some (if xs = [] then tail l else hd xs)"
  by (cases xs) (auto simp: dll_def spine_def)

lemma dll_isEmpty: "dll A h l xs \<Longrightarrow> list_isEmpty A h l \<longleftrightarrow> xs = []"
  by (cases xs) (auto simp: list_isEmpty_def dll_def spine_def)

lemma dll_peek:
  assumes "dll A h l xs"
  shows "list_peek A h l = (case xs of [] \<Rightarrow> None | x # _ \<Rightarrow> Some x)"
  using dll_isEmpty [OF assms] dll_head_next [OF assms]
  by (cases xs) (simp_all add: list_peek_def)

lemma links_last_next:
  "links A h (xs @ [x, y]) \<Longrightarrow> get_next A h x = Some y \<and> get_prev A h y = Some x"
  by (drule links_midD2) simp

lemma dll_tail_prev:
  "dll A h l xs \<Longrightarrow> get_prev A h (tail l) = Some (if xs = [] then head l else last xs)"
proof (cases xs rule: rev_cases)
  case Nil
  moreover assume "dll A h l xs"
  ultimately show ?thesis by (simp add: dll_def spine_def)
next
  case (snoc ys y)
  moreover assume "dll A h l xs"
  ultimately have "links A h ((head l # ys) @ [y, tail l])" by (simp add: dll_def spine_def)
  from links_last_next [OF this] show ?thesis using snoc by simp
qed

lemma dll_mid:
  assumes "dll A h l (xs @ y # zs)"
  shows "get_prev A h y = Some (if xs = [] then head l else last xs)"
    and "get_next A h y = Some (if zs = [] then tail l else hd zs)"
proof -
  have links: "links A h ((head l # xs) @ y # zs @ [tail l])"
    using assms by (simp add: dll_def spine_def)
  then have "links A h (y # zs @ [tail l])" by (rule links_midD2)
  then show "get_next A h y = Some (if zs = [] then tail l else hd zs)" by (cases zs) auto
  from links have "links A h ((head l # xs) @ [y])" by (rule links_midD1)
  then show "get_prev A h y = Some (if xs = [] then head l else last xs)"
    by (cases xs rule: rev_cases) (simp_all add: links_last_next [of A h "head l # _"])
qed

text \<open>The two loops, along a linked path: what they find and that they end.\<close>

lemma list_seek_NULL [simp]: "list_seek A h None x = Some None"
  by (simp add: list_seek.simps)

lemma list_seek_hit [simp]: "list_seek A h (Some x) x = Some (Some x)"
  by (simp add: list_seek.simps)

lemma list_seek_step: "c \<noteq> x \<Longrightarrow> list_seek A h (Some c) x = list_seek A h (get_next A h c) x"
  by (subst list_seek.simps) simp

lemma seek_found:
  "links A h (p # qs) \<Longrightarrow> x \<in> set (p # qs) \<Longrightarrow> list_seek A h (Some p) x = Some (Some x)"
proof (induction qs arbitrary: p)
  case Nil
  then show ?case by simp
next
  case (Cons q qs)
  then show ?case by (cases "p = x") (simp_all add: list_seek_step)
qed

lemma seek_missing:
  "links A h (p # qs) \<Longrightarrow> get_next A h (last (p # qs)) = None \<Longrightarrow> x \<notin> set (p # qs) \<Longrightarrow>
     list_seek A h (Some p) x = Some None"
proof (induction qs arbitrary: p)
  case Nil
  then show ?case by (simp add: list_seek_step)
next
  case (Cons q qs)
  have "list_seek A h (Some p) x = list_seek A h (get_next A h p) x"
    using Cons.prems(3) by (intro list_seek_step) auto
  also have "get_next A h p = Some q" using Cons.prems(1) by simp
  also have "list_seek A h (Some q) x = Some None" using Cons.prems by (intro Cons.IH) auto
  finally show ?case .
qed

lemma count_path:
  "links A h (p # qs) \<Longrightarrow> get_next A h (last (p # qs)) = None \<Longrightarrow>
     list_count A h (Some p) n = Some (n + of_nat (length qs))"
proof (induction qs arbitrary: p n)
  case Nil
  then show ?case by (simp add: list_count.simps list_hasNext_def)
next
  case (Cons q qs)
  then show ?case
    by (simp add: list_count.simps [of A h "Some p"] list_hasNext_def add.assoc)
qed

lemma dll_seek:
  assumes "dll A h l xs"
  shows "list_seek A h (Some (head l)) x = Some (if x \<in> set (spine l xs) then Some x else None)"
  using assms seek_found [of A h "head l" "xs @ [tail l]" x]
    seek_missing [of A h "head l" "xs @ [tail l]" x]
  by (auto simp: dll_def spine_def)

lemma dll_size:
  assumes d: "dll A h l xs"
  shows "list_size A h l = Some (of_nat (length xs))"
proof -
  obtain p qs where pq: "xs @ [tail l] = p # qs" by (cases xs) auto
  have "links A h (p # qs)" using d pq by (auto simp: dll_def spine_def)
  moreover have "last (p # qs) = tail l" using pq [symmetric] by simp
  moreover have "get_next A h (tail l) = None" using d by (simp add: dll_def)
  ultimately have "list_count A h (Some p) 0 = Some (0 + of_nat (length qs))"
    by (intro count_path) simp_all
  moreover have "get_next A h (head l) = Some p" using d pq by (auto simp: dll_def spine_def)
  moreover have "length qs = length xs" using arg_cong [OF pq, of length] by simp
  ultimately show ?thesis by (simp add: list_size_def)
qed

section \<open>The node store interface\<close>

text \<open>
  What the list code relies on: the four accessors behave as independent fields on the nodes of a
  set \<open>N\<close>, for the values NULL and the nodes of \<open>N\<close>.  Under these laws every operation implements its counterpart on lists and touches no
  node outside its own list.
\<close>

locale node_store =
  fixes A :: "('h, 'a) node_ops" and N :: "'a set"
  assumes next_put_next: "p \<in> N \<Longrightarrow> q \<in> N \<Longrightarrow> pred_option (\<lambda>x. x \<in> N) v \<Longrightarrow>
      get_next A (put_next A h p v) q = (if q = p then v else get_next A h q)"
    and next_put_prev: "p \<in> N \<Longrightarrow> q \<in> N \<Longrightarrow> get_next A (put_prev A h p v) q = get_next A h q"
    and prev_put_next: "p \<in> N \<Longrightarrow> q \<in> N \<Longrightarrow> get_prev A (put_next A h p v) q = get_prev A h q"
    and prev_put_prev: "p \<in> N \<Longrightarrow> q \<in> N \<Longrightarrow> pred_option (\<lambda>x. x \<in> N) v \<Longrightarrow>
      get_prev A (put_prev A h p v) q = (if q = p then v else get_prev A h q)"
begin

lemmas store_laws = next_put_next next_put_prev prev_put_next prev_put_prev

lemma init_dll:
  assumes "head l \<in> N" "tail l \<in> N" "head l \<noteq> tail l"
  shows "dll A (list_init A h l) l []"
  using assms by (auto simp: list_init_def dll_def spine_def store_laws Let_def)

lemma init_frame:
  assumes "head l \<in> N" "tail l \<in> N"
  shows "same_on A (N - {head l, tail l}) h (list_init A h l)"
  using assms by (auto simp: list_init_def same_on_def store_laws Let_def)

text \<open>Linking a node between two neighbours, the four writes both insertions make.\<close>

lemma link_between:
  assumes links: "links A h (ps @ [p])" "links A h (n # ns)"
    and dist: "distinct (ps @ p # x # n # ns)"
    and N: "set (ps @ p # x # n # ns) \<subseteq> N"
    and upd: "\<And>q. q \<in> N \<Longrightarrow> get_next A h' q = (if q = p then Some x else if q = x then Some n else get_next A h q)"
             "\<And>q. q \<in> N \<Longrightarrow> get_prev A h' q = (if q = n then Some x else if q = x then Some p else get_prev A h q)"
  shows "links A h' (ps @ p # x # n # ns)"
proof -
  have out: "q \<in> N \<and> q \<noteq> p \<and> q \<noteq> x \<and> q \<noteq> n" if "q \<in> set ps \<or> q \<in> set ns" for q
    using that dist N by auto
  have pxn: "p \<in> N" "x \<in> N" "n \<in> N" "p \<noteq> x" "p \<noteq> n" "x \<noteq> n" using dist N by auto
  have "links A h' (ps @ [p])"
  proof (rule links_cong [OF links(1)])
    show "get_next A h' q = get_next A h q" if "q \<in> set (butlast (ps @ [p]))" for q
      using that out [of q] by (simp add: upd)
    show "get_prev A h' q = get_prev A h q" if "q \<in> set (tl (ps @ [p]))" for q
    proof -
      have "q \<in> set ps \<or> q = p" using that by (cases ps) auto
      then show ?thesis using out [of q] pxn by (auto simp: upd)
    qed
  qed
  moreover have "links A h' (n # ns)"
  proof (rule links_cong [OF links(2)])
    show "get_next A h' q = get_next A h q" if "q \<in> set (butlast (n # ns))" for q
    proof -
      have "q \<in> set ns \<or> q = n" using that by (auto dest: in_set_butlastD split: if_splits)
      then show ?thesis using out [of q] pxn by (auto simp: upd)
    qed
    show "get_prev A h' q = get_prev A h q" if "q \<in> set (tl (n # ns))" for q
      using that out [of q] by (simp add: upd)
  qed
  moreover have "get_next A h' p = Some x" "get_prev A h' x = Some p"
    "get_next A h' x = Some n" "get_prev A h' n = Some x"
    using pxn by (simp_all add: upd)
  ultimately show ?thesis by (simp add: links_mid [of A h' ps p "x # n # ns"])
qed

text \<open>Unlinking a node, the two writes of \<open>list_delete\<close> to its neighbours and the reset of its own fields.\<close>

lemma unlink_between:
  assumes links: "links A h (ps @ [p])" "links A h (n # ns)"
    and dist: "distinct (ps @ p # x # n # ns)"
    and N: "set (ps @ p # x # n # ns) \<subseteq> N"
    and upd: "\<And>q. q \<in> N \<Longrightarrow> get_next A h' q = (if q = x then None else if q = p then Some n else get_next A h q)"
             "\<And>q. q \<in> N \<Longrightarrow> get_prev A h' q = (if q = x then None else if q = n then Some p else get_prev A h q)"
  shows "links A h' (ps @ p # n # ns)"
proof -
  have out: "q \<in> N \<and> q \<noteq> p \<and> q \<noteq> x \<and> q \<noteq> n" if "q \<in> set ps \<or> q \<in> set ns" for q
    using that dist N by auto
  have pxn: "p \<in> N" "x \<in> N" "n \<in> N" "p \<noteq> x" "p \<noteq> n" "x \<noteq> n" using dist N by auto
  have "links A h' (ps @ [p])"
  proof (rule links_cong [OF links(1)])
    show "get_next A h' q = get_next A h q" if "q \<in> set (butlast (ps @ [p]))" for q
      using that out [of q] by (simp add: upd)
    show "get_prev A h' q = get_prev A h q" if "q \<in> set (tl (ps @ [p]))" for q
    proof -
      have "q \<in> set ps \<or> q = p" using that by (cases ps) auto
      then show ?thesis using out [of q] pxn by (auto simp: upd)
    qed
  qed
  moreover have "links A h' (n # ns)"
  proof (rule links_cong [OF links(2)])
    show "get_next A h' q = get_next A h q" if "q \<in> set (butlast (n # ns))" for q
    proof -
      have "q \<in> set ns \<or> q = n" using that by (auto dest: in_set_butlastD split: if_splits)
      then show ?thesis using out [of q] pxn by (auto simp: upd)
    qed
    show "get_prev A h' q = get_prev A h q" if "q \<in> set (tl (n # ns))" for q
      using that out [of q] by (simp add: upd)
  qed
  moreover have "get_next A h' p = Some n" "get_prev A h' n = Some p"
    using pxn by (simp_all add: upd)
  ultimately show ?thesis by (simp add: links_mid [of A h' ps p "n # ns"])
qed

lemma insert_front_dll:
  assumes d: "dll A h l xs" and N: "set (spine l xs) \<subseteq> N" "x \<in> N" and x: "x \<notin> set (spine l xs)"
  shows "\<exists>h'. list_insert_front A h (head l) x = Some h' \<and> dll A h' l (x # xs) \<and>
    same_on A (N - insert x (set (spine l xs))) h h'"
proof -
  let ?n = "if xs = [] then tail l else hd xs"
  obtain ns where ns: "xs @ [tail l] = ?n # ns" by (cases xs) auto
  have hn: "get_next A h (head l) = Some ?n" using d by (rule dll_head_next)
  have spine: "spine l xs = head l # ?n # ns" using ns by (simp add: spine_def)
  obtain h' where h': "list_insert_front A h (head l) x = Some h'"
    by (simp add: list_insert_front_def hn Let_def)
  have nN: "head l \<in> N" "?n \<in> N" using N spine by auto
  have neq: "?n \<noteq> head l" "x \<noteq> head l" "x \<noteq> ?n"
    using d x unfolding dll_def spine by auto
  have upd: "get_next A h' q = (if q = head l then Some x else if q = x then Some ?n else get_next A h q)"
      "get_prev A h' q = (if q = ?n then Some x else if q = x then Some (head l) else get_prev A h q)"
      if "q \<in> N" for q
    using h' hn nN neq N(2) that by (auto simp: list_insert_front_def Let_def store_laws)
  have "links A h' ([] @ head l # x # ?n # ns)"
    using d N x upd unfolding dll_def spine by (intro link_between) auto
  then have "links A h' (spine l (x # xs))" using ns by (simp add: spine_def)
  moreover have "get_prev A h' (head l) = None" using d neq nN upd by (auto simp: dll_def)
  moreover have "get_next A h' (tail l) = None"
  proof -
    have "tail l \<noteq> head l" "tail l \<noteq> x" "tail l \<in> N"
      using d x N by (auto simp: dll_def spine_def)
    then show ?thesis using d upd by (simp add: dll_def)
  qed
  moreover have "distinct (spine l (x # xs))" using d x by (auto simp: dll_def spine_def)
  ultimately have "dll A h' l (x # xs)" by (simp add: dll_def)
  moreover have "same_on A (N - insert x (set (spine l xs))) h h'"
    using upd spine by (auto simp: same_on_def)
  ultimately show ?thesis using h' by blast
qed

lemma insert_end_dll:
  assumes d: "dll A h l xs" and N: "set (spine l xs) \<subseteq> N" "x \<in> N" and x: "x \<notin> set (spine l xs)"
  shows "\<exists>h'. list_insert_end A h (tail l) x = Some h' \<and> dll A h' l (xs @ [x]) \<and>
    same_on A (N - insert x (set (spine l xs))) h h'"
proof -
  let ?p = "if xs = [] then head l else last xs"
  obtain ps where ps: "head l # xs = ps @ [?p]" by (cases xs rule: rev_cases) auto
  have tp: "get_prev A h (tail l) = Some ?p" using d by (rule dll_tail_prev)
  have spine: "spine l xs = ps @ [?p, tail l]" using ps by (simp add: spine_def)
  obtain h' where h': "list_insert_end A h (tail l) x = Some h'"
    by (simp add: list_insert_end_def tp Let_def)
  have pN: "tail l \<in> N" "?p \<in> N" using N spine by auto
  have neq: "?p \<noteq> tail l" "x \<noteq> tail l" "x \<noteq> ?p"
    using d x unfolding dll_def spine by auto
  have upd: "get_next A h' q = (if q = ?p then Some x else if q = x then Some (tail l) else get_next A h q)"
      "get_prev A h' q = (if q = tail l then Some x else if q = x then Some ?p else get_prev A h q)"
      if "q \<in> N" for q
    using h' tp pN neq N(2) that by (auto simp: list_insert_end_def Let_def store_laws)
  have "links A h (ps @ [?p])"
    using d unfolding dll_def spine by (auto intro: links_midD1)
  then have "links A h' (ps @ ?p # x # tail l # [])"
    using d N x upd unfolding dll_def spine by (intro link_between) auto
  moreover have "spine l (xs @ [x]) = ps @ [?p, x, tail l]" using ps by (simp add: spine_def)
  ultimately have "links A h' (spine l (xs @ [x]))" by simp
  moreover have "get_next A h' (tail l) = None" using d neq pN upd by (auto simp: dll_def)
  moreover have "get_prev A h' (head l) = None"
  proof -
    have "head l \<noteq> tail l" "head l \<noteq> x" "head l \<in> N"
      using d x N by (auto simp: dll_def spine_def)
    then show ?thesis using d upd by (simp add: dll_def)
  qed
  moreover have "distinct (spine l (xs @ [x]))" using d x by (auto simp: dll_def spine_def)
  ultimately have "dll A h' l (xs @ [x])" by (simp add: dll_def)
  moreover have "same_on A (N - insert x (set (spine l xs))) h h'"
    using upd spine by (auto simp: same_on_def)
  ultimately show ?thesis using h' by blast
qed

lemma delete_dll:
  assumes d: "dll A h l xs" and N: "set (spine l xs) \<subseteq> N" and x: "x \<in> set xs"
  shows "\<exists>h'. list_delete A h l x = Some (Some x, h') \<and> dll A h' l (remove1 x xs) \<and>
    get_next A h' x = None \<and> get_prev A h' x = None \<and> same_on A (N - set (spine l xs)) h h'"
proof -
  obtain as bs where xs: "xs = as @ x # bs" and as: "x \<notin> set as"
    using split_list_first [OF x] by blast
  let ?p = "if as = [] then head l else last as"
  let ?n = "if bs = [] then tail l else hd bs"
  obtain ps where ps: "head l # as = ps @ [?p]" by (cases as rule: rev_cases) auto
  obtain ns where ns: "bs @ [tail l] = ?n # ns" by (cases bs) auto
  have spine: "spine l xs = ps @ ?p # x # ?n # ns" using ps ns xs by (simp add: spine_def)
  have px: "get_prev A h x = Some ?p" and nx: "get_next A h x = Some ?n"
    using d unfolding xs by (rule dll_mid)+
  have dist: "distinct (ps @ ?p # x # ?n # ns)" using d unfolding dll_def spine by simp
  have pN: "set (ps @ ?p # x # ?n # ns) \<subseteq> N" using N unfolding spine .
  have xl: "x \<noteq> head l" "x \<noteq> tail l" "x \<noteq> ?p" "x \<noteq> ?n" "?p \<noteq> ?n"
    using d xs dist by (auto simp: dll_def spine_def)
  have inN: "x \<in> N" "?p \<in> N" "?n \<in> N" using pN by auto
  have seek: "list_seek A h (Some (head l)) x = Some (Some x)"
    using dll_seek [OF d] x by (simp add: spine_def)
  let ?h1 = "put_next A h ?p (Some ?n)"
  let ?h2 = "put_prev A ?h1 ?n (Some ?p)"
  let ?h' = "put_prev A (put_next A ?h2 x None) x None"
  have del: "list_delete A h l x = Some (Some x, ?h')"
    using xl inN by (simp add: list_delete_def seek px nx Let_def store_laws del: if_split)
  have upd: "get_next A ?h' q = (if q = x then None else if q = ?p then Some ?n else get_next A h q)"
      "get_prev A ?h' q = (if q = x then None else if q = ?n then Some ?p else get_prev A h q)"
      if "q \<in> N" for q
    using inN xl that by (simp_all add: store_laws)
  have "links A h (ps @ [?p])"
    using d links_midD1 [of A h ps ?p "x # ?n # ns"] unfolding dll_def spine by blast
  moreover have "links A h (?n # ns)"
    using d links_midD2 [of A h "ps @ [?p, x]" ?n ns] unfolding dll_def spine by simp
  ultimately have "links A ?h' (ps @ ?p # ?n # ns)"
    using dist pN upd by (rule unlink_between)
  moreover have rem: "remove1 x xs = as @ bs" using xs as by (simp add: remove1_append)
  moreover have sp: "spine l (as @ bs) = ps @ ?p # ?n # ns" using ps ns by (simp add: spine_def)
  moreover have "distinct (ps @ ?p # ?n # ns)" using dist by auto
  moreover have "head l \<in> N" "tail l \<in> N" using N by (auto simp: spine_def)
  moreover have "head l \<noteq> ?n" "tail l \<noteq> ?p" using d xs by (auto simp: dll_def spine_def)
  ultimately have "dll A ?h' l (remove1 x xs)"
    using d xl unfolding dll_def sp rem by (simp add: upd)
  moreover have "same_on A (N - set (spine l xs)) h ?h'"
    unfolding same_on_def spine by (auto simp: upd simp del: if_split)
  moreover have "get_next A ?h' x = None" "get_prev A ?h' x = None" using inN(1) by (simp_all add: upd)
  ultimately show ?thesis using del by blast
qed

lemma delete_absent:
  assumes "dll A h l xs" and "x \<notin> set xs"
  shows "list_delete A h l x = Some (None, h)"
  using assms dll_seek [OF assms(1), of x] by (auto simp: list_delete_def spine_def)

lemma pop_dll:
  assumes d: "dll A h l xs" and N: "set (spine l xs) \<subseteq> N"
  shows "\<exists>h'. list_pop A h l = Some (case xs of [] \<Rightarrow> None | x # _ \<Rightarrow> Some x, h') \<and>
    dll A h' l (tl xs) \<and> same_on A (N - set (spine l xs)) h h'"
proof (cases xs)
  case Nil
  then show ?thesis using d dll_isEmpty [OF d] by (auto simp: list_pop_def)
next
  case (Cons x ys)
  have "list_pop A h l = list_delete A h l x"
    using dll_isEmpty [OF d] dll_head_next [OF d] Cons by (simp add: list_pop_def)
  then show ?thesis using delete_dll [OF d N, of x] Cons by auto
qed

end

section \<open>The store of node records\<close>

text \<open>
  The heap of the thread and process lists: every node reference holds a node record.  The
  accessors are the four field accesses \<open>node->next\<close> and \<open>node->prev\<close>.
\<close>

type_synonym 'a heap = "'a \<Rightarrow> 'a list_node"

definition heap_ops :: "('a heap, 'a) node_ops" where
  "heap_ops = \<lparr>
     get_next = (\<lambda>h p. n_next (h p)),
     get_prev = (\<lambda>h p. n_prev (h p)),
     put_next = (\<lambda>h p v. h(p := (h p)\<lparr>n_next := v\<rparr>)),
     put_prev = (\<lambda>h p v. h(p := (h p)\<lparr>n_prev := v\<rparr>))\<rparr>"

lemma heap_ops_simps [simp]:
  "get_next heap_ops h p = n_next (h p)"
  "get_prev heap_ops h p = n_prev (h p)"
  "put_next heap_ops h p v = h(p := (h p)\<lparr>n_next := v\<rparr>)"
  "put_prev heap_ops h p v = h(p := (h p)\<lparr>n_prev := v\<rparr>)"
  by (simp_all add: heap_ops_def)

interpretation hs: node_store heap_ops UNIV
  by unfold_locales auto

section \<open>Correctness\<close>

text \<open>\<open>list_insert_front\<close> and \<open>list_insert_end\<close> put a node that is not in the list at the front
  and at the end of it, keep it well linked both ways, and touch no node of another list.\<close>

theorem list_insert_both_ends:
  assumes "dll heap_ops h l xs" and "x \<notin> set (spine l xs)"
  shows "(\<exists>h'. list_insert_front heap_ops h (head l) x = Some h' \<and> dll heap_ops h' l (x # xs) \<and>
       same_on heap_ops (- insert x (set (spine l xs))) h h') \<and>
     (\<exists>h'. list_insert_end heap_ops h (tail l) x = Some h' \<and> dll heap_ops h' l (xs @ [x]) \<and>
       same_on heap_ops (- insert x (set (spine l xs))) h h')"
  using hs.insert_front_dll [OF assms(1) _ _ assms(2)] hs.insert_end_dll [OF assms(1) _ _ assms(2)]
  by (simp add: Compl_eq_Diff_UNIV)

definition demo_list :: "nat list_t" where
  "demo_list = \<lparr>head = 0, tail = 1\<rparr>"

definition demo_heap :: "nat heap" where
  "demo_heap = (\<lambda>_. \<lparr>n_next = None, n_prev = None\<rparr>)
     (0 := \<lparr>n_next = Some 5, n_prev = None\<rparr>, 5 := \<lparr>n_next = Some 1, n_prev = Some 0\<rparr>,
      1 := \<lparr>n_next = None, n_prev = Some 5\<rparr>)"

lemma demo_dll: "dll heap_ops demo_heap demo_list [5]"
  by (simp add: dll_def spine_def demo_heap_def demo_list_def)

theorem list_insert_both_ends_witness:
  "(\<exists>h'. list_insert_front heap_ops demo_heap 0 7 = Some h' \<and> dll heap_ops h' demo_list [7, 5]) \<and>
   (\<exists>h'. list_insert_end heap_ops demo_heap 1 7 = Some h' \<and> dll heap_ops h' demo_list [5, 7])"
  using list_insert_both_ends [OF demo_dll, of 7] by (auto simp: spine_def demo_list_def)

text \<open>C23: \<open>list_delete\<close> of a node of the list unlinks its first occurrence and clears its pointers;
  for a node that is not in the list, and for the two sentinels, it returns NULL and changes
  nothing.  In both cases it terminates.\<close>

theorem list_delete_removes:
  assumes "dll heap_ops h l xs"
  shows "if x \<in> set xs
     then \<exists>h'. list_delete heap_ops h l x = Some (Some x, h') \<and> dll heap_ops h' l (remove1 x xs) \<and>
        h' x = \<lparr>n_next = None, n_prev = None\<rparr> \<and> same_on heap_ops (- set (spine l xs)) h h'
     else list_delete heap_ops h l x = Some (None, h)"
proof (cases "x \<in> set xs")
  case True
  then obtain h' where "list_delete heap_ops h l x = Some (Some x, h')" "dll heap_ops h' l (remove1 x xs)"
      "n_next (h' x) = None" "n_prev (h' x) = None" "same_on heap_ops (- set (spine l xs)) h h'"
    using hs.delete_dll [OF assms, of x] by (auto simp: Compl_eq_Diff_UNIV)
  moreover from this have "h' x = \<lparr>n_next = None, n_prev = None\<rparr>" by (intro list_node.equality) simp_all
  ultimately show ?thesis using True by auto
next
  case False
  then show ?thesis using hs.delete_absent [OF assms] by simp
qed

theorem list_delete_removes_witness:
  "(\<exists>h'. list_delete heap_ops demo_heap demo_list 5 = Some (Some 5, h') \<and> dll heap_ops h' demo_list []) \<and>
   list_delete heap_ops demo_heap demo_list 1 = Some (None, demo_heap)"
  using list_delete_removes [OF demo_dll, of 5] list_delete_removes [OF demo_dll, of 1] by auto

text \<open>inserting at the end and popping is first in, first out: \<open>list_pop\<close> unlinks and returns the
  first node, NULL for an empty list, and \<open>list_peek\<close> shows the node it would return.\<close>

theorem list_pop_fifo:
  assumes "dll heap_ops h l xs"
  shows "(\<exists>h'. list_pop heap_ops h l = Some (case xs of [] \<Rightarrow> None | x # _ \<Rightarrow> Some x, h') \<and>
        dll heap_ops h' l (tl xs) \<and> same_on heap_ops (- set (spine l xs)) h h') \<and>
     list_peek heap_ops h l = (case xs of [] \<Rightarrow> None | x # _ \<Rightarrow> Some x)"
  using hs.pop_dll [OF assms] dll_peek [OF assms] by (simp add: Compl_eq_Diff_UNIV)

theorem list_pop_fifo_witness:
  "\<exists>h'. list_pop heap_ops demo_heap demo_list = Some (Some 5, h') \<and> dll heap_ops h' demo_list []"
  using list_pop_fifo [OF demo_dll] by auto

text \<open>\<open>list_size\<close> terminates with the number of nodes (modulo \<open>2 ^ 32\<close>) and \<open>list_isEmpty\<close> tells
  whether there are none.\<close>

theorem list_size_counts:
  assumes "dll heap_ops h l xs"
  shows "list_size heap_ops h l = Some (of_nat (length xs)) \<and> list_isEmpty heap_ops h l = (xs = [])"
  using dll_size [OF assms] dll_isEmpty [OF assms] by simp

theorem list_size_counts_witness:
  "list_size heap_ops demo_heap demo_list = Some 1 \<and> \<not> list_isEmpty heap_ops demo_heap demo_list"
  using list_size_counts [OF demo_dll] by simp

text \<open>\<open>list_insert_end\<close> does not check that its node is unlinked: inserting a node that already is
  the last one makes it its own predecessor, so the list is no longer well linked.\<close>

theorem list_insert_end_last_twice:
  assumes "dll heap_ops h l (xs @ [x])"
  shows "\<exists>h'. list_insert_end heap_ops h (tail l) x = Some h' \<and> n_prev (h' x) = Some x \<and>
     (\<forall>ys. \<not> dll heap_ops h' l ys)"
proof -
  have xt: "n_prev (h (tail l)) = Some x" using dll_tail_prev [OF assms] by simp
  have ne: "x \<noteq> tail l" using assms by (auto simp: dll_def spine_def)
  obtain h' where h': "list_insert_end heap_ops h (tail l) x = Some h'"
    using xt by (simp add: list_insert_end_def Let_def)
  have self: "n_prev (h' x) = Some x" "n_prev (h' (tail l)) = Some x"
    using h' xt ne by (auto simp: list_insert_end_def Let_def)
  have "\<not> dll heap_ops h' l ys" for ys
  proof
    assume d: "dll heap_ops h' l ys"
    have "x = head l \<or> (\<exists>zs. ys = zs @ [x])"
      using dll_tail_prev [OF d] self(2) by (cases ys rule: rev_cases) auto
    then show False
    proof
      assume "x = head l"
      then show False using d self(1) by (simp add: dll_def)
    next
      assume "\<exists>zs. ys = zs @ [x]"
      then obtain zs where zs: "dll heap_ops h' l (zs @ x # [])" using d by auto
      from dll_mid(1) [OF zs] self(1) zs show False
        by (cases zs rule: rev_cases) (auto simp: dll_def spine_def)
    qed
  qed
  then show ?thesis using h' self(1) by blast
qed

theorem list_insert_end_last_twice_witness:
  "\<exists>h'. list_insert_end heap_ops demo_heap 1 5 = Some h' \<and> (\<forall>ys. \<not> dll heap_ops h' demo_list ys)"
  using list_insert_end_last_twice [of demo_heap demo_list "[]" 5] demo_dll
  by (auto simp: demo_list_def)

end
