(* ===== verification/Bitmap.thy ===== *)
theory Bitmap
  imports Prelude
begin

text \<open>
  libk/bitmap.c: a bitmap in an array of 32-bit elements.  The kernel runs without paging, so the
  array is a stretch of the physical memory \<open>pmem\<close>, the 32-bit word at each word-aligned address;
  \<open>m->map_p[e]\<close> is the word at \<open>map_p + 4 * e\<close>.  Sizes and indices are \<open>size_t\<close>, 32 bits wide.
\<close>

type_synonym pmem = "u32 \<Rightarrow> u32"

record bitmap =
  map_p :: u32
  bits :: u32

section \<open>Operations\<close>

abbreviation ELEM_SIZE :: u32 where "ELEM_SIZE \<equiv> 4"
abbreviation ELEM_BITS :: u32 where "ELEM_BITS \<equiv> 32"

definition bit_mask :: "u32 \<Rightarrow> u32" where
  "bit_mask idx = push_bit (unat (idx mod ELEM_BITS)) 1"

definition elem_idx :: "u32 \<Rightarrow> u32" where
  "elem_idx map_idx = map_idx div ELEM_BITS"

definition num_elems :: "u32 \<Rightarrow> u32" where
  "num_elems num_bits = (num_bits + (num_bits - (num_bits mod ELEM_BITS))) div ELEM_BITS"

definition num_bytes :: "u32 \<Rightarrow> u32" where
  "num_bytes num_bits = ELEM_SIZE * num_elems num_bits"

text \<open>\<open>bitmap_init\<close> takes its memory from \<open>palloc\<close>, here the page the allocator returned.\<close>

definition bitmap_init_s :: "u32 \<Rightarrow> u32 \<Rightarrow> bitmap" where
  "bitmap_init_s nbits mp = \<lparr>map_p = mp, bits = nbits\<rparr>"

definition bitmap_init :: "u32 \<Rightarrow> u32 \<Rightarrow> bitmap" where
  "bitmap_init nbits page = \<lparr>map_p = page, bits = nbits\<rparr>"

definition elem_addr :: "bitmap \<Rightarrow> u32 \<Rightarrow> u32" where
  "elem_addr b e = map_p b + 4 * e"

definition bitmap_set :: "pmem \<Rightarrow> bitmap \<Rightarrow> u32 \<Rightarrow> pmem" where
  "bitmap_set m b idx =
     (let a = elem_addr b (elem_idx idx) in m(a := m a OR bit_mask idx))"

definition bitmap_reset :: "pmem \<Rightarrow> bitmap \<Rightarrow> u32 \<Rightarrow> pmem" where
  "bitmap_reset m b idx =
     (let a = elem_addr b (elem_idx idx) in m(a := m a AND NOT (bit_mask idx)))"

definition bitmap_test :: "pmem \<Rightarrow> bitmap \<Rightarrow> u32 \<Rightarrow> bool" where
  "bitmap_test m b idx \<longleftrightarrow> m (elem_addr b (elem_idx idx)) AND bit_mask idx \<noteq> 0"

definition bitmap_set_val :: "pmem \<Rightarrow> bitmap \<Rightarrow> u32 \<Rightarrow> bool \<Rightarrow> pmem" where
  "bitmap_set_val m b idx val = (if val then bitmap_set m b idx else bitmap_reset m b idx)"

definition bitmap_set_all :: "pmem \<Rightarrow> bitmap \<Rightarrow> bool \<Rightarrow> pmem" where
  "bitmap_set_all m b val =
     (let new_val = (if val then NOT 0 else 0)
      in for_loop 0 (num_elems (bits b)) (\<lambda>i m. m(elem_addr b i := new_val)) m)"

text \<open>The loop counter \<open>i\<close> ends at \<open>start + len\<close>, or at \<open>start\<close> when the loop does not run.\<close>

definition bitmap_set_range :: "pmem \<Rightarrow> bitmap \<Rightarrow> u32 \<Rightarrow> u32 \<Rightarrow> bool \<Rightarrow> u32 \<times> pmem" where
  "bitmap_set_range m b start len val =
     (max start (start + len),
      for_loop start (start + len) (\<lambda>i m. bitmap_set_val m b i val) m)"

definition bitmap_count_range :: "pmem \<Rightarrow> bitmap \<Rightarrow> u32 \<Rightarrow> u32 \<Rightarrow> u32" where
  "bitmap_count_range m b start len =
     for_loop start (start + len) (\<lambda>i cnt. if bitmap_test m b i then cnt + 1 else cnt) 0"

text \<open>The loop of \<open>bitmap_find_range\<close>, with its variables \<open>i\<close>, \<open>begin\<close> and \<open>cnt\<close>.\<close>

function find_range_loop ::
    "pmem \<Rightarrow> bitmap \<Rightarrow> u32 \<Rightarrow> u32 \<Rightarrow> bool \<Rightarrow> u32 \<Rightarrow> u32 \<Rightarrow> u32 \<Rightarrow> u32" where
  "find_range_loop m b e count val i bgn cnt =
     (if i < e
      then (let hit = (bitmap_test m b i = val);
                cnt = (if hit then cnt + 1 else 0);
                bgn = (if hit then bgn else i + 1)
            in if cnt = count then bgn else find_range_loop m b e count val (i + 1) bgn cnt)
      else bits b + 1)"
  by pat_completeness auto
termination
  by (relation "measure (\<lambda>(_, _, e, _, _, i, _, _). unat e - unat i)")
     (auto simp: word_index word_less_nat_alt)

declare find_range_loop.simps [simp del]

definition bitmap_find_range :: "pmem \<Rightarrow> bitmap \<Rightarrow> u32 \<Rightarrow> u32 \<Rightarrow> u32 \<Rightarrow> bool \<Rightarrow> u32" where
  "bitmap_find_range m b start len count val =
     find_range_loop m b (start + len) count val start start 0"

definition bitmap_get_size :: "bitmap \<Rightarrow> u32" where
  "bitmap_get_size b = bits b"

section \<open>Single bits\<close>

lemma unat_elem: "unat (elem_idx i) = unat i div 32"
  by (simp add: elem_idx_def unat_div)

lemma elem_addr_inj:
  fixes e f :: u32
  assumes "unat e < 2 ^ 30" and "unat f < 2 ^ 30"
  shows "elem_addr b e = elem_addr b f \<longleftrightarrow> e = f"
proof
  assume "elem_addr b e = elem_addr b f"
  then have "4 * e = 4 * f" by (simp add: elem_addr_def)
  then have "unat (4 * e) = unat (4 * f)" by simp
  with assms have "unat e = unat f" by (simp add: unat_word_ariths)
  then show "e = f" by (rule word_unat_eq_iff [THEN iffD2])
qed simp

lemma elem_idx_bound: "unat (elem_idx i) < 2 ^ 27"
proof -
  have "unat i div 32 < 134217728" using unat_u32_less [of i] by linarith
  then show ?thesis by (simp add: unat_elem)
qed

lemma bit_mask_exp: "bit_mask i = 2 ^ (unat i mod 32)"
  by (simp add: bit_mask_def push_bit_eq_mult unat_mod)

lemma bit_bit_mask: "bit (bit_mask i) n \<longleftrightarrow> n = unat i mod 32"
  by (auto simp: bit_mask_exp bit_exp_iff)

lemma and_bit_mask: "w AND bit_mask i \<noteq> 0 \<longleftrightarrow> bit w (unat i mod 32)"
  by (simp add: bit_mask_exp and_exp_eq_0_iff_not_bit)

lemma test_bit: "bitmap_test m b i \<longleftrightarrow> bit (m (elem_addr b (elem_idx i))) (unat i mod 32)"
  by (simp add: bitmap_test_def and_bit_mask)

lemma test_cong: "m (elem_addr b (elem_idx j)) = m' (elem_addr b (elem_idx j)) \<Longrightarrow>
    bitmap_test m b j = bitmap_test m' b j"
  by (simp add: test_bit)

lemma same_bit: "elem_idx i = elem_idx j \<Longrightarrow> unat i mod 32 = unat j mod 32 \<Longrightarrow> i = j"
  by (metis div_mult_mod_eq unat_elem word_unat_eq_iff)

lemma elem_addr_eq: "elem_addr b (elem_idx i) = elem_addr b (elem_idx j) \<longleftrightarrow> elem_idx i = elem_idx j"
  using elem_idx_bound [of i] elem_idx_bound [of j] by (simp add: elem_addr_inj)

lemma set_val_at:
  "bitmap_set_val m b i v (elem_addr b (elem_idx j)) =
     (if elem_idx i = elem_idx j
      then (if v then m (elem_addr b (elem_idx j)) OR bit_mask i
            else m (elem_addr b (elem_idx j)) AND NOT (bit_mask i))
      else m (elem_addr b (elem_idx j)))"
  by (auto simp: bitmap_set_val_def bitmap_set_def bitmap_reset_def Let_def elem_addr_eq [of b j i])

lemma test_set_val: "bitmap_test (bitmap_set_val m b i v) b j = (if j = i then v else bitmap_test m b j)"
proof (cases "elem_idx i = elem_idx j")
  case True
  let ?w = "m (elem_addr b (elem_idx j))" and ?k = "unat j mod 32"
  have eq: "?k = unat i mod 32 \<longleftrightarrow> j = i" using True same_bit [of i j] by auto
  have "bitmap_test (bitmap_set_val m b i v) b j \<longleftrightarrow>
      bit (if v then ?w OR bit_mask i else ?w AND NOT (bit_mask i)) ?k"
    by (simp only: test_bit set_val_at True if_True simp_thms)
  also have "\<dots> \<longleftrightarrow> (if v then bit ?w ?k \<or> j = i else bit ?w ?k \<and> j \<noteq> i)"
    by (cases v) (simp_all add: bit_or_iff bit_and_iff bit_not_iff bit_bit_mask eq)
  also have "\<dots> \<longleftrightarrow> (if j = i then v else bitmap_test m b j)"
    by (cases v) (simp_all add: test_bit)
  finally show ?thesis .
next
  case False
  then show ?thesis by (auto simp: test_bit set_val_at)
qed

section \<open>Boolean arrays\<close>

text \<open>
  What the range operations need of single-bit access: an array of booleans.  The loop over a
  range then writes exactly the bits of the range.
\<close>

locale bool_array =
  fixes test :: "'s \<Rightarrow> u32 \<Rightarrow> bool" and put :: "'s \<Rightarrow> u32 \<Rightarrow> bool \<Rightarrow> 's"
  assumes test_put: "test (put s i v) j = (if j = i then v else test s j)"
begin

lemma test_fold: "test (fold (\<lambda>i s. put s i v) is s) j = (if j \<in> set is then v else test s j)"
  by (induction "is" arbitrary: s) (auto simp: test_put)

lemma test_range:
  "test (for_loop a e (\<lambda>i s. put s i v) s) j = (if a \<le> j \<and> j < e then v else test s j)"
  by (simp add: for_loop_fold test_fold set_indices)

lemma count_fold:
  "fold (\<lambda>i cnt. if test s i then cnt + 1 else cnt) is c = c + of_nat (length (filter (test s) is))"
    for c :: u32
  by (induction "is" arbitrary: c) (auto simp: add.assoc)

end

interpretation bm: bool_array "\<lambda>m i. bitmap_test m b i" "\<lambda>m i v. bitmap_set_val m b i v" for b
  by unfold_locales (rule test_set_val)

section \<open>Ranges\<close>

definition bit_run :: "pmem \<Rightarrow> bitmap \<Rightarrow> bool \<Rightarrow> nat \<Rightarrow> nat \<Rightarrow> bool" where
  "bit_run m b v r n \<longleftrightarrow> (\<forall>k\<in>{r..<r + n}. bitmap_test m b (of_nat k) = v)"

text \<open>\<open>first_run\<close>: \<open>r\<close> is the least start, from \<open>lo\<close> on, of a run of \<open>n\<close> bits equal to \<open>v\<close> that ends by \<open>e\<close>.\<close>

definition first_run :: "pmem \<Rightarrow> bitmap \<Rightarrow> bool \<Rightarrow> nat \<Rightarrow> nat \<Rightarrow> nat \<Rightarrow> nat \<Rightarrow> bool" where
  "first_run m b v lo e n r \<longleftrightarrow> lo \<le> r \<and> r + n \<le> e \<and> bit_run m b v r n \<and>
     (\<forall>r'\<in>{lo..<r}. \<not> bit_run m b v r' n)"

lemma bit_run_snoc: "bit_run m b v r (Suc n) \<longleftrightarrow> bit_run m b v r n \<and> bitmap_test m b (of_nat (r + n)) = v"
proof -
  have "{r..<r + Suc n} = insert (r + n) {r..<r + n}" by auto
  then show ?thesis unfolding bit_run_def by auto
qed

lemma bit_run_blocked: "bitmap_test m b (of_nat k) \<noteq> v \<Longrightarrow> r \<le> k \<Longrightarrow> k < r + n \<Longrightarrow> \<not> bit_run m b v r n"
  by (auto simp: bit_run_def)

lemma first_run_from:
  assumes "first_run m b v (Suc k) e n r" and "bitmap_test m b (of_nat k) \<noteq> v" and "k < lo + n" "lo \<le> Suc k"
  shows "first_run m b v lo e n r"
proof -
  have "\<not> bit_run m b v r' n" if "lo \<le> r'" "r' < r" for r'
  proof (cases "r' \<le> k")
    case True
    with assms that show ?thesis by (intro bit_run_blocked [of m b k]) auto
  next
    case False
    with assms(1) that show ?thesis by (auto simp: first_run_def)
  qed
  with assms(1,4) show ?thesis by (auto simp: first_run_def)
qed

text \<open>The result of a search: the first run, or the number behind that of bits when there is none.\<close>

definition search_outcome :: "pmem \<Rightarrow> bitmap \<Rightarrow> bool \<Rightarrow> nat \<Rightarrow> nat \<Rightarrow> nat \<Rightarrow> u32 \<Rightarrow> bool" where
  "search_outcome m b v lo e n res \<longleftrightarrow>
     (\<exists>r. res = of_nat r \<and> first_run m b v lo e n r) \<or>
     (res = bits b + 1 \<and> (\<forall>r. lo \<le> r \<and> r + n \<le> e \<longrightarrow> \<not> bit_run m b v r n))"

text \<open>A bit of the other value cannot be in the run: the search may go on behind it.\<close>

lemma search_outcome_from:
  assumes out: "search_outcome m b v (Suc k) e n res" and k: "bitmap_test m b (of_nat k) \<noteq> v"
    and close: "k < lo + n" "lo \<le> Suc k"
  shows "search_outcome m b v lo e n res"
  using out unfolding search_outcome_def
proof (elim disjE)
  assume none: "res = bits b + 1 \<and> (\<forall>r. Suc k \<le> r \<and> r + n \<le> e \<longrightarrow> \<not> bit_run m b v r n)"
  have "\<not> bit_run m b v r n" if "lo \<le> r" "r + n \<le> e" for r
    using none that close(1) bit_run_blocked [OF k] by (cases "r \<le> k") auto
  then show "(\<exists>r. res = of_nat r \<and> first_run m b v lo e n r) \<or>
     res = bits b + 1 \<and> (\<forall>r. lo \<le> r \<and> r + n \<le> e \<longrightarrow> \<not> bit_run m b v r n)"
    using none by blast
qed (use first_run_from [OF _ k close] in blast)

lemma find_range_loop_outcome:
  fixes i e bgn cnt count :: u32
  assumes "unat bgn + unat cnt = unat i" "unat i \<le> unat e" "unat cnt < unat count"
    and "bit_run m b val (unat bgn) (unat cnt)"
  shows "search_outcome m b val (unat bgn) (unat e) (unat count) (find_range_loop m b e count val i bgn cnt)"
  using assms
proof (induction m b e count val i bgn cnt rule: find_range_loop.induct)
  case (1 m b e count val i bgn cnt)
  note eq = find_range_loop.simps [of m b e count val i bgn cnt]
  show ?case
  proof (cases "i < e")
    case False
    then have "unat i = unat e" using "1.prems"(2) by (simp add: word_less_nat_alt)
    then show ?thesis using False "1.prems" by (auto simp: eq search_outcome_def)
  next
    case lt: True
    have ui: "unat (i + 1) = Suc (unat i)" using lt by (rule unat_Suc_less)
    have ue: "unat (i + 1) \<le> unat e" using lt ui by (simp add: word_less_nat_alt)
    show ?thesis
    proof (cases "bitmap_test m b i = val")
      case hit: True
      have uc: "unat (cnt + 1) = Suc (unat cnt)"
        using "1.prems"(3) by (intro unat_Suc_less [of cnt count]) (simp add: word_less_nat_alt)
      have run: "bit_run m b val (unat bgn) (Suc (unat cnt))"
        using "1.prems"(1,4) hit by (simp add: bit_run_snoc)
      show ?thesis
      proof (cases "cnt + 1 = count")
        case True
        then have "unat count = Suc (unat cnt)" using uc by simp
        then have "first_run m b val (unat bgn) (unat e) (unat count) (unat bgn)"
          using run "1.prems"(1) ui ue by (simp add: first_run_def)
        moreover have "find_range_loop m b e count val i bgn cnt = of_nat (unat bgn)"
          using lt hit True by (simp add: eq)
        ultimately show ?thesis unfolding search_outcome_def by blast
      next
        case False
        then have "unat (cnt + 1) < unat count"
          using "1.prems"(3) uc by (metis Suc_lessI word_unat_eq_iff)
        then show ?thesis
          using "1.IH" [OF lt refl refl refl] hit False ui uc ue run lt "1.prems"(1) by (simp add: eq)
      qed
    next
      case miss: False
      have pos: "0 < unat count" "count \<noteq> 0" using "1.prems"(3) by auto
      have "search_outcome m b val (Suc (unat i)) (unat e) (unat count)
          (find_range_loop m b e count val (i + 1) (i + 1) 0)"
        using "1.IH" [OF lt refl refl refl] miss pos ue ui by (simp add: bit_run_def [of _ _ _ _ 0])
      then have "search_outcome m b val (unat bgn) (unat e) (unat count)
          (find_range_loop m b e count val (i + 1) (i + 1) 0)"
        by (rule search_outcome_from) (use miss "1.prems"(1,3) in auto)
      then show ?thesis using lt miss pos(2) by (simp add: eq Let_def)
    qed
  qed
qed

lemmas find_range_loop_spec = find_range_loop_outcome [unfolded search_outcome_def]

section \<open>Correctness\<close>

text \<open>\<open>bitmap_set\<close> and \<open>bitmap_reset\<close> (through \<open>bitmap_set_val\<close>) give the addressed bit the
  value and leave every other bit as it was, whatever elements the two bits lie in.\<close>

theorem bitmap_set_val_test:
  "bitmap_test (bitmap_set_val m b i v) b j = (if j = i then v else bitmap_test m b j)"
  by (rule bm.test_put)

text \<open>\<open>bitmap_set_range\<close> sets exactly the bits of \<open>[start, start + len)\<close>, and, where that end does
  not wrap, returns the end of the range and not, as its comment says, the number of bits set.\<close>

theorem bitmap_set_range_exact:
  "bitmap_test (snd (bitmap_set_range m b start len v)) b j =
     (if start \<le> j \<and> j < start + len then v else bitmap_test m b j) \<and>
   fst (bitmap_set_range m b start len v) = max start (start + len)"
  by (simp add: bitmap_set_range_def bm.test_range)

text \<open>\<open>bitmap_count_range\<close> counts the bits of the range that are set.\<close>

theorem bitmap_count_range_card:
  "unat (bitmap_count_range m b start len) =
     card {j. start \<le> j \<and> j < start + len \<and> bitmap_test m b j}"
proof -
  let ?is = "indices start (start + len)"
  have "card {j. start \<le> j \<and> j < start + len \<and> bitmap_test m b j}
      = length (filter (bitmap_test m b) ?is)"
    using distinct_card [of "filter (bitmap_test m b) ?is"]
    by (simp add: set_indices conj_assoc)
  moreover have "length (filter (bitmap_test m b) ?is) < 2 ^ 32"
  proof -
    have "length (filter (bitmap_test m b) ?is) \<le> length ?is" by (rule length_filter_le)
    also have "\<dots> \<le> unat (start + len)" by simp
    also have "\<dots> < 2 ^ 32" using unat_u32_less [of "start + len"] by simp
    finally show ?thesis .
  qed
  ultimately show ?thesis
    by (simp add: bitmap_count_range_def for_loop_fold bm.count_fold unat_of_nat_u32)
qed

text \<open>for a positive count and a range that does not wrap, \<open>bitmap_find_range\<close> returns the
  least start of a run of \<open>count\<close> bits equal to \<open>val\<close> inside the range, and \<open>bits + 1\<close> exactly
  when the range holds no such run.\<close>

theorem bitmap_find_range_first:
  assumes "0 < count" and "unat start + unat len < 2 ^ 32"
  shows "(\<exists>r. bitmap_find_range m b start len count val = of_nat r \<and>
            first_run m b val (unat start) (unat start + unat len) (unat count) r) \<or>
         (bitmap_find_range m b start len count val = bits b + 1 \<and>
            (\<forall>r. unat start \<le> r \<and> r + unat count \<le> unat start + unat len \<longrightarrow>
               \<not> bit_run m b val r (unat count)))"
  using find_range_loop_spec [of start 0 start "start + len" count m b val] assms
  by (simp add: bitmap_find_range_def unat_add_nowrap bit_run_def word_less_nat_alt)

theorem bitmap_find_range_first_witness:
  "(\<exists>r. bitmap_find_range (\<lambda>_. 3) \<lparr>map_p = 0, bits = 32\<rparr> 0 32 2 False = of_nat r \<and>
      first_run (\<lambda>_. 3) \<lparr>map_p = 0, bits = 32\<rparr> False 0 32 2 r) \<or>
   (bitmap_find_range (\<lambda>_. 3) \<lparr>map_p = 0, bits = 32\<rparr> 0 32 2 False = 33 \<and>
      (\<forall>r. r + 2 \<le> 32 \<longrightarrow> \<not> bit_run (\<lambda>_. 3) \<lparr>map_p = 0, bits = 32\<rparr> False r 2))"
  using bitmap_find_range_first [of 2 0 32 "\<lambda>_. 3" "\<lparr>map_p = 0, bits = 32\<rparr>" False] by simp

text \<open>\<open>num_elems\<close> reserves nothing for a map of fewer than 32 bits, so \<open>bitmap_set_all\<close> leaves
  such a map as it is; from 64 bits on it covers more elements than the map has.\<close>

theorem bitmap_set_all_small_map:
  assumes "bits b < 32"
  shows "bitmap_set_all m b v = m"
proof -
  have "unat (bits b) < 32" using assms by (simp add: word_less_nat_alt)
  then have "bits b mod 32 = bits b" by (simp add: word_unat_eq_iff unat_mod)
  moreover have "bits b div 32 = 0" using \<open>unat (bits b) < 32\<close> by (simp add: word_unat_eq_iff unat_div)
  ultimately show ?thesis by (simp add: bitmap_set_all_def num_elems_def)
qed

theorem bitmap_set_all_small_map_witness:
  "bitmap_set_all (\<lambda>_. 0) \<lparr>map_p = 4096, bits = 20\<rparr> True = (\<lambda>_. 0)"
  by (rule bitmap_set_all_small_map) simp

end
