(* ===== verification/Slab.thy ===== *)
theory Slab
  imports Bitmap
begin

text \<open>
  libk/slab.c: the slab allocator.  Its table of \<open>struct slab\<close> (8 bytes: \<open>addr\<close>, then the
  byte \<open>free\<close>) stands at the start of the region it allocates from, in the physical memory
  \<open>pmem\<close> of the theory Bitmap; descriptor \<open>k\<close> is at \<open>data + 8 * k\<close>.  Addresses are 32-bit words
  and NULL is 0.  The loop counters \<open>i\<close> and \<open>j\<close> are natural numbers: they stay below the sum of
  the descriptor count and the request.  The \<open>alloc\<close>, \<open>free\<close> and \<open>init\<close> pointers of the allocator
  struct are constants of this implementation, so a call through them is a direct call here.
\<close>

record slab_alloc_t =
  smem :: u32
  mem_size :: u32
  free_mem_size :: u32
  slab_size :: u32
  sdata :: u32

abbreviation SIZEOF_SLAB :: u32 where "SIZEOF_SLAB \<equiv> 8"

section \<open>struct slab in memory\<close>

definition slab_addr :: "pmem \<Rightarrow> u32 \<Rightarrow> u32" where
  "slab_addr m p = m p"

definition slab_is_free :: "pmem \<Rightarrow> u32 \<Rightarrow> bool" where
  "slab_is_free m p \<longleftrightarrow> m (p + 4) AND 0xFF \<noteq> 0"

definition slab_put_addr :: "pmem \<Rightarrow> u32 \<Rightarrow> u32 \<Rightarrow> pmem" where
  "slab_put_addr m p a = m(p := a)"

text \<open>Writing the \<open>bool\<close> changes the low byte of the word (the machine is little-endian).\<close>

definition slab_put_free :: "pmem \<Rightarrow> u32 \<Rightarrow> bool \<Rightarrow> pmem" where
  "slab_put_free m p b = m(p + 4 := (m (p + 4) AND NOT 0xFF) OR (if b then 1 else 0))"

section \<open>Operations\<close>

definition total_num_slabs :: "slab_alloc_t \<Rightarrow> u32" where
  "total_num_slabs s = (mem_size s div slab_size s) * slab_size s div SIZEOF_SLAB"

text \<open>The inner scan: how many of the next \<open>n\<close> descriptors from \<open>p\<close> on are free without a gap.\<close>

fun count_free :: "pmem \<Rightarrow> u32 \<Rightarrow> nat \<Rightarrow> nat" where
  "count_free m p 0 = 0"
| "count_free m p (Suc n) = (if slab_is_free m p then Suc (count_free m (p + 8) n) else 0)"

fun mark_slabs :: "pmem \<Rightarrow> u32 \<Rightarrow> nat \<Rightarrow> bool \<Rightarrow> pmem" where
  "mark_slabs m p 0 b = m"
| "mark_slabs m p (Suc n) b = mark_slabs (slab_put_free m p b) (p + 8) n b"

function alloc_loop ::
    "pmem \<Rightarrow> slab_alloc_t \<Rightarrow> nat \<Rightarrow> nat \<Rightarrow> nat \<Rightarrow> u32 \<Rightarrow> u32 \<times> pmem \<times> slab_alloc_t" where
  "alloc_loop m s tot num i slab =
     (if i < tot
      then (if slab_is_free m slab
            then (let j = count_free m slab num
                  in if j = num
                     then (slab_addr m slab, mark_slabs m slab num False,
                           s\<lparr>free_mem_size := free_mem_size s - of_nat j * slab_size s\<rparr>)
                     else alloc_loop m s tot num (i + j + 1) (slab + 8 * of_nat j + 8))
            else alloc_loop m s tot num (i + 1) (slab + 8))
      else (0, m, s))"
  by pat_completeness auto
termination
  by (relation "measure (\<lambda>(_, _, tot, _, i, _). tot - i)") auto

declare alloc_loop.simps [simp del]

definition slab_alloc :: "pmem \<Rightarrow> slab_alloc_t \<Rightarrow> u32 \<Rightarrow> (u32 \<times> pmem \<times> slab_alloc_t) option" where
  "slab_alloc m s num_slabs =
     (if slab_size s = 0 then None
      else Some (alloc_loop m s (unat (total_num_slabs s)) (unat num_slabs) 0 (sdata s)))"

lemma count_free_numeral:
  "count_free m p (numeral v) =
     (if slab_is_free m p then Suc (count_free m (p + 8) (pred_numeral v)) else 0)"
  by (simp add: numeral_eq_Suc)

text \<open>
  The search of \<open>slab_free\<close>: its loop \<open>while (slab->addr != addr && i < total_num_slabs) slab++;\<close>
  never changes \<open>i\<close>, so only the first test can end it.
\<close>

partial_function (option) find_slab :: "pmem \<Rightarrow> u32 \<Rightarrow> u32 \<Rightarrow> u32 \<Rightarrow> u32 \<Rightarrow> u32 option" where
  "find_slab m addr i tot slab =
     (if slab_addr m slab \<noteq> addr \<and> i < tot then find_slab m addr i tot (slab + 8) else Some slab)"

definition slab_free :: "pmem \<Rightarrow> slab_alloc_t \<Rightarrow> u32 \<Rightarrow> u32 \<Rightarrow> (err_t \<times> pmem \<times> slab_alloc_t) option" where
  "slab_free m s addr num_slabs =
     (if slab_size s = 0 then None
      else do {
        slab \<leftarrow> find_slab m addr 0 (total_num_slabs s) (sdata s);
        if 0 = total_num_slabs s then Some (- SLAB_FREE_FAIL, m, s)
        else if \<exists>k\<in>{0..<unat num_slabs}. slab_is_free m (slab + 8 * of_nat k)
        then Some (- SLAB_FREE_FAIL, m, s)
        else Some (SUCC, mark_slabs m slab (unat num_slabs) True,
                   s\<lparr>free_mem_size := free_mem_size s + num_slabs * slab_size s\<rparr>) })"

partial_function (option) init_loop :: "pmem \<Rightarrow> u32 \<Rightarrow> u32 \<Rightarrow> u32 \<Rightarrow> u32 \<Rightarrow> pmem option" where
  "init_loop m slab starting_addr end_addr ssz =
     (if starting_addr < end_addr
      then init_loop (slab_put_free (slab_put_addr m slab starting_addr) slab True)
             (slab + 8) (starting_addr + ssz) end_addr ssz
      else Some m)"

definition slab_init ::
    "pmem \<Rightarrow> slab_alloc_t \<Rightarrow> u32 \<Rightarrow> u32 \<Rightarrow> u32 \<Rightarrow> (err_t \<times> pmem \<times> slab_alloc_t) option" where
  "slab_init m s mem msize ssize =
     (if ssize = 0 then None
      else let num_slabs = msize div ssize
      in if ssize < SIZEOF_SLAB then Some (- SLAB_INIT_FAIL, m, s)
      else if mem = 0 \<and> msize < SIZEOF_SLAB * num_slabs then Some (- SLAB_INIT_FAIL, m, s)
      else do {
        m' \<leftarrow> init_loop m mem (mem + num_slabs * ssize div SIZEOF_SLAB) (mem + msize) ssize;
        Some (SUCC, m', s\<lparr>smem := mem, mem_size := msize,
          free_mem_size := msize - num_slabs * ssize div SIZEOF_SLAB,
          slab_size := ssize, sdata := mem\<rparr>) })"

section \<open>Descriptors\<close>

definition desc :: "slab_alloc_t \<Rightarrow> nat \<Rightarrow> u32" where
  "desc s k = sdata s + 8 * of_nat k"

lemma unat_8: "k < 2 ^ 29 \<Longrightarrow> unat (8 * of_nat k :: u32) = 8 * k"
  by (simp add: unat_word_ariths unat_of_nat)

lemma offset_neq:
  fixes d :: u32
  assumes "j < 2 ^ 29" "k < 2 ^ 29"
  shows "d + 8 * of_nat j = d + 8 * of_nat k \<longleftrightarrow> j = k"
    and "d + 8 * of_nat j \<noteq> d + 8 * of_nat k + 4"
proof -
  show "d + 8 * of_nat j = d + 8 * of_nat k \<longleftrightarrow> j = k"
  proof
    assume "d + 8 * of_nat j = d + 8 * of_nat k"
    then have "unat (8 * of_nat j :: u32) = unat (8 * of_nat k :: u32)" by simp
    then show "j = k" using assms by (simp add: unat_8)
  qed simp
  show "d + 8 * of_nat j \<noteq> d + 8 * of_nat k + 4"
  proof
    assume "d + 8 * of_nat j = d + 8 * of_nat k + 4"
    then have "unat (8 * of_nat j :: u32) = unat (8 * of_nat k + 4 :: u32)" by (simp add: add.assoc)
    also have "\<dots> = 8 * k + 4"
      using assms(2) unat_8 [OF assms(2)] unat_add_nowrap [of "8 * of_nat k" 4] by simp
    finally have "8 * j = 8 * k + 4" using assms(1) by (simp add: unat_8)
    then show False by presburger
  qed
qed

lemma put_free_addr:
  assumes "j < 2 ^ 29" "k < 2 ^ 29"
  shows "slab_addr (slab_put_free m (d + 8 * of_nat j) b) (d + 8 * of_nat k) = slab_addr m (d + 8 * of_nat k)"
  using offset_neq(2) [OF assms(2,1), of d] by (simp add: slab_addr_def slab_put_free_def)

lemma low_byte:
  fixes w :: u32
  shows "(w AND - 256 OR 1) AND 255 = 1" and "(w AND - 256) AND 255 = 0"
proof -
  have m: "(255 :: u32) = mask 8" "(- 256 :: u32) = NOT (mask 8)" by (simp_all add: mask_eq_exp_minus_1)
  show "(w AND - 256 OR 1) AND 255 = 1" "(w AND - 256) AND 255 = 0"
    unfolding m by (rule bit_word_eqI, auto simp: bit_simps bit_1_iff)+
qed

lemma put_free_is_free:
  assumes "j < 2 ^ 29" "k < 2 ^ 29"
  shows "slab_is_free (slab_put_free m (d + 8 * of_nat j) b) (d + 8 * of_nat k) =
    (if k = j then b else slab_is_free m (d + 8 * of_nat k))"
proof -
  have "d + 8 * of_nat k + 4 = d + 8 * of_nat j + 4 \<longleftrightarrow> k = j"
    using offset_neq(1) [OF assms(2,1), of d] by simp
  then show ?thesis by (cases b) (auto simp: slab_is_free_def slab_put_free_def low_byte)
qed

lemma next_desc: "d + 8 * of_nat k + 8 = (d + 8 * of_nat (Suc k) :: u32)"
  by (simp add: algebra_simps)

lemma count_free_spec:
  fixes d :: u32
  defines "f \<equiv> \<lambda>m k. slab_is_free m (d + 8 * of_nat k)"
  shows "count_free m (d + 8 * of_nat k) n \<le> n \<and>
    (\<forall>i < count_free m (d + 8 * of_nat k) n. f m (k + i)) \<and>
    (count_free m (d + 8 * of_nat k) n < n \<longrightarrow> \<not> f m (k + count_free m (d + 8 * of_nat k) n))"
proof (induction n arbitrary: k)
  case 0
  then show ?case by simp
next
  case (Suc n)
  show ?case
  proof (cases "f m k")
    case True
    then have "count_free m (d + 8 * of_nat k) (Suc n) = Suc (count_free m (d + 8 * of_nat (Suc k)) n)"
      by (simp add: f_def next_desc del: of_nat_Suc)
    moreover have "f m (k + i)" if "i < Suc (count_free m (d + 8 * of_nat (Suc k)) n)" for i
      using that True Suc [of "Suc k"] by (cases i) (auto simp del: of_nat_Suc)
    ultimately show ?thesis using Suc [of "Suc k"] by (simp del: of_nat_Suc)
  next
    case False
    then show ?thesis by (simp add: f_def)
  qed
qed

lemma mark_slabs_spec:
  fixes d :: u32
  assumes "k + n \<le> 2 ^ 29" and "i < 2 ^ 29"
  shows "slab_is_free (mark_slabs m (d + 8 * of_nat k) n b) (d + 8 * of_nat i) =
      (if k \<le> i \<and> i < k + n then b else slab_is_free m (d + 8 * of_nat i))"
    and "slab_addr (mark_slabs m (d + 8 * of_nat k) n b) (d + 8 * of_nat i) = slab_addr m (d + 8 * of_nat i)"
  using assms(1)
proof (induction n arbitrary: m k)
  case (Suc n)
  { case 1
    then have "k < 2 ^ 29" "Suc k + n \<le> 2 ^ 29" by auto
    then show ?case
      using Suc.IH(1) [of "Suc k"] assms(2) put_free_is_free [of k i m d b]
      by (auto simp add: next_desc simp del: of_nat_Suc) }
  { case 2
    then have "k < 2 ^ 29" "Suc k + n \<le> 2 ^ 29" by auto
    then show ?case
      using Suc.IH(2) [of "Suc k"] assms(2) put_free_addr [of k i m d b]
      by (auto simp add: next_desc simp del: of_nat_Suc) }
qed auto

text \<open>\<open>free_run\<close>: the descriptors \<open>r, \<dots>, r + n - 1\<close> of the table at \<open>d\<close> are all free.\<close>

definition free_run :: "pmem \<Rightarrow> u32 \<Rightarrow> nat \<Rightarrow> nat \<Rightarrow> bool" where
  "free_run m d r n \<longleftrightarrow> (\<forall>i\<in>{r..<r + n}. slab_is_free m (d + 8 * of_nat i))"

lemma free_run_blocked:
  "\<not> slab_is_free m (d + 8 * of_nat k) \<Longrightarrow> r \<le> k \<Longrightarrow> k < r + n \<Longrightarrow> \<not> free_run m d r n"
  by (auto simp: free_run_def)

lemma count_free_run: "count_free m (d + 8 * of_nat k) n = n \<longleftrightarrow> free_run m d k n"
proof
  assume "count_free m (d + 8 * of_nat k) n = n"
  then have free: "\<And>j. j < n \<Longrightarrow> slab_is_free m (d + 8 * of_nat (k + j))"
    using count_free_spec [of m d k n] by auto
  have "slab_is_free m (d + 8 * of_nat i)" if "i \<in> {k..<k + n}" for i
    using free [of "i - k"] that by auto
  then show "free_run m d k n" by (simp add: free_run_def)
next
  assume run: "free_run m d k n"
  then show "count_free m (d + 8 * of_nat k) n = n"
    using count_free_spec [of m d k n] unfolding free_run_def
    by (metis add_less_cancel_left atLeastLessThan_iff le_add1 le_neq_implies_less)
qed

text \<open>
  What a search from descriptor \<open>i\<close> on may yield: the least run of \<open>num\<close> free descriptors that
  starts below \<open>tot\<close>, marked as taken, or NULL when there is none.
\<close>

definition alloc_outcome ::
    "pmem \<Rightarrow> slab_alloc_t \<Rightarrow> nat \<Rightarrow> nat \<Rightarrow> nat \<Rightarrow> u32 \<times> pmem \<times> slab_alloc_t \<Rightarrow> bool" where
  "alloc_outcome m s tot num i res \<longleftrightarrow>
     (\<exists>r. i \<le> r \<and> r < tot \<and> free_run m (sdata s) r num \<and>
        (\<forall>r'\<in>{i..<r}. \<not> free_run m (sdata s) r' num) \<and>
        res = (slab_addr m (desc s r), mark_slabs m (desc s r) num False,
               s\<lparr>free_mem_size := free_mem_size s - of_nat num * slab_size s\<rparr>)) \<or>
     ((\<forall>r\<in>{i..<tot}. \<not> free_run m (sdata s) r num) \<and> res = (0, m, s))"

lemma alloc_outcome_skip:
  assumes "alloc_outcome m s tot num i' res" and "i \<le> i'"
    and "\<And>r. i \<le> r \<Longrightarrow> r < i' \<Longrightarrow> \<not> free_run m (sdata s) r num"
  shows "alloc_outcome m s tot num i res"
proof -
  have "\<not> free_run m (sdata s) r num"
    if "\<forall>r\<in>{i'..<e}. \<not> free_run m (sdata s) r num" "r \<in> {i..<e}" for r e
    using assms(3) [of r] that by (cases "r < i'") auto
  note before = this
  show ?thesis using assms(1) [unfolded alloc_outcome_def]
  proof (elim disjE exE conjE)
    fix r
    assume r: "i' \<le> r" "r < tot" "free_run m (sdata s) r num"
        "\<forall>r'\<in>{i'..<r}. \<not> free_run m (sdata s) r' num"
      and res: "res = (slab_addr m (desc s r), mark_slabs m (desc s r) num False,
               s\<lparr>free_mem_size := free_mem_size s - of_nat num * slab_size s\<rparr>)"
    show ?thesis unfolding alloc_outcome_def
      by (rule disjI1) (use r res before [OF r(4)] assms(2) in \<open>auto intro!: exI [of _ r]\<close>)
  next
    assume "\<forall>r\<in>{i'..<tot}. \<not> free_run m (sdata s) r num" and "res = (0, m, s)"
    then show ?thesis using before unfolding alloc_outcome_def by blast
  qed
qed

lemma alloc_loop_outcome:
  assumes "0 < num" and "slab = desc s i"
  shows "alloc_outcome m s tot num i (alloc_loop m s tot num i slab)"
  using assms
proof (induction m s tot num i slab rule: alloc_loop.induct)
  case (1 m s tot num i slab)
  note eq = alloc_loop.simps [of m s tot num i slab]
  show ?case
  proof (cases "i < tot")
    case False
    then show ?thesis by (simp add: eq alloc_outcome_def)
  next
    case lt: True
    define j where "j = count_free m slab num"
    show ?thesis
    proof (cases "j = num")
      case True
      then have run: "free_run m (sdata s) i num"
        using "1.prems"(2) by (simp add: count_free_run desc_def j_def)
      then have "slab_is_free m slab" using "1.prems" by (simp add: free_run_def desc_def)
      then have "alloc_loop m s tot num i slab =
          (slab_addr m slab, mark_slabs m slab num False,
           s\<lparr>free_mem_size := free_mem_size s - of_nat num * slab_size s\<rparr>)"
        using lt True by (simp add: eq j_def)
      then show ?thesis using run lt "1.prems"(2) by (auto simp: alloc_outcome_def)
    next
      case False
      have j: "j < num" "\<not> slab_is_free m (sdata s + 8 * of_nat (i + j))"
        using count_free_spec [of m "sdata s" i num] False "1.prems"(2) by (auto simp: j_def desc_def)
      have slab': "slab + 8 * of_nat j + 8 = desc s (i + j + 1)"
        using "1.prems"(2) by (simp add: desc_def algebra_simps)
      have "alloc_outcome m s tot num (i + j + 1) (alloc_loop m s tot num i slab)"
      proof (cases "slab_is_free m slab")
        case True
        then have "alloc_loop m s tot num i slab = alloc_loop m s tot num (i + j + 1) (slab + 8 * of_nat j + 8)"
          using lt False by (simp add: eq j_def Let_def)
        then show ?thesis
          using "1.IH"(1) [OF lt True refl _ "1.prems"(1)] False slab' by (simp add: j_def)
      next
        case nofree: False
        then have "j = 0" using "1.prems"(1) by (cases num) (simp_all add: j_def)
        then show ?thesis using "1.IH"(2) [OF lt nofree "1.prems"(1)] slab' lt nofree by (simp add: eq)
      qed
      then show ?thesis
      proof (rule alloc_outcome_skip)
        show "\<not> free_run m (sdata s) r num" if "i \<le> r" "r < i + j + 1" for r
          using that j(1) by (intro free_run_blocked [OF j(2)]) linarith+
      qed simp
    qed
  qed
qed

lemma find_slab_hit:
  assumes "0 < tot"
  shows "slab = desc s i \<Longrightarrow> i \<le> r \<Longrightarrow> slab_addr m (desc s r) = addr \<Longrightarrow>
     (\<forall>k\<in>{i..<r}. slab_addr m (desc s k) \<noteq> addr) \<Longrightarrow> find_slab m addr 0 tot slab = Some (desc s r)"
proof (induction "r - i" arbitrary: i slab)
  case 0
  then show ?case by (simp add: find_slab.simps)
next
  case (Suc n)
  then have "slab_addr m slab \<noteq> addr" by auto
  then have "find_slab m addr 0 tot slab = find_slab m addr 0 tot (slab + 8)"
    using assms by (subst find_slab.simps) simp
  also have "slab + 8 = desc s (Suc i)" using Suc.prems(1) by (simp add: desc_def next_desc del: of_nat_Suc)
  also have "find_slab m addr 0 tot (desc s (Suc i)) = Some (desc s r)"
    using Suc.hyps(2) Suc.prems by (intro Suc.hyps(1) [of "Suc i"]) auto
  finally show ?case .
qed

text \<open>The search ends at a descriptor with the address, a whole number of descriptors behind its start.\<close>

lemma find_slab_result:
  assumes "find_slab m addr i tot slab = Some p" and "i < tot"
  shows "slab_addr m p = addr \<and> (\<exists>j. p = slab + 8 * of_nat j)"
proof -
  have "i < tot \<longrightarrow> slab_addr m p = addr \<and> (\<exists>j. p = slab + 8 * of_nat j)"
  proof (rule find_slab.raw_induct [where P = "\<lambda>m addr i tot slab p. i < tot \<longrightarrow>
      slab_addr m p = addr \<and> (\<exists>j. p = slab + 8 * of_nat j)", OF _ assms(1)])
    fix find m and addr i tot slab p :: u32
    assume IH: "\<And>m addr i tot slab p. find m addr i tot slab = Some p \<Longrightarrow> i < tot \<longrightarrow>
        slab_addr m p = addr \<and> (\<exists>j. p = slab + 8 * of_nat j)"
      and eq: "(if slab_addr m slab \<noteq> addr \<and> i < tot then find m addr i tot (slab + 8) else Some slab) = Some p"
    show "i < tot \<longrightarrow> slab_addr m p = addr \<and> (\<exists>j. p = slab + 8 * of_nat j)"
    proof (cases "slab_addr m slab = addr")
      case True
      then show ?thesis using eq by (auto intro!: exI [of _ 0])
    next
      case False
      show ?thesis
      proof
        assume "i < tot"
        then obtain j where "slab_addr m p = addr" "p = slab + 8 + 8 * of_nat j"
          using IH [of m addr i tot "slab + 8" p] eq False by auto
        then show "slab_addr m p = addr \<and> (\<exists>j. p = slab + 8 * of_nat j)"
          by (auto simp: algebra_simps intro!: exI [of _ "Suc j"])
      qed
    qed
  qed
  then show ?thesis using assms(2) by blast
qed

section \<open>Initialisation\<close>

text \<open>
  Descriptor \<open>k\<close> set up by \<open>slab_init\<close> gives slab \<open>k\<close> of the area that starts at \<open>start\<close>; the
  loop sets up one descriptor per slab start below the end of the region.
\<close>

definition slab_count :: "nat \<Rightarrow> nat \<Rightarrow> nat \<Rightarrow> nat" where
  "slab_count start e ssz = (if start < e then (e - start + ssz - 1) div ssz else 0)"

lemma slab_count_step:
  assumes "0 < ssz" "start < e"
  shows "slab_count start e ssz = Suc (slab_count (start + ssz) e ssz)"
proof (cases "start + ssz < e")
  case True
  then have "e - start + ssz - 1 = (e - (start + ssz) + ssz - 1) + ssz" by simp
  then have "(e - start + ssz - 1) div ssz = Suc ((e - (start + ssz) + ssz - 1) div ssz)"
    using assms(1) by (metis add.commute div_add_self2 not_gr_zero plus_1_eq_Suc)
  then show ?thesis using assms(2) True by (simp only: slab_count_def if_True)
next
  case False
  then have "e - start + ssz - 1 = (e - start - 1) + ssz" "e - start - 1 < ssz" using assms by auto
  then have "(e - start + ssz - 1) div ssz = Suc 0"
    using assms(1) by (metis add.commute div_add_self2 div_less not_gr_zero One_nat_def add_0_right)
  then show ?thesis using assms(2) False by (simp add: slab_count_def)
qed

definition set_up :: "pmem \<Rightarrow> u32 \<Rightarrow> nat \<Rightarrow> u32 \<Rightarrow> u32 \<Rightarrow> nat \<Rightarrow> bool" where
  "set_up m d k a ssz n \<longleftrightarrow>
     (\<forall>i<n. slab_addr m (d + 8 * of_nat (k + i)) = a + of_nat i * ssz \<and>
            slab_is_free m (d + 8 * of_nat (k + i)))"

lemma put_addr_other:
  assumes "j < 2 ^ 29" "k < 2 ^ 29"
  shows "slab_addr (slab_put_addr m (d + 8 * of_nat j) a) (d + 8 * of_nat k) =
      (if k = j then a else slab_addr m (d + 8 * of_nat k))"
    and "slab_is_free (slab_put_addr m (d + 8 * of_nat j) a) (d + 8 * of_nat k) =
      slab_is_free m (d + 8 * of_nat k)"
  using offset_neq [OF assms, of d] offset_neq [OF assms(2,1), of d]
  by (auto simp: slab_put_addr_def slab_addr_def slab_is_free_def)

lemma init_loop_set_up:
  fixes a e ssz d :: u32
  assumes "0 < unat ssz" "unat e + unat ssz \<le> 2 ^ 32" "k + slab_count (unat a) (unat e) (unat ssz) \<le> 2 ^ 29"
  shows "\<exists>m'. init_loop m (d + 8 * of_nat k) a e ssz = Some m' \<and>
     set_up m' d k a ssz (slab_count (unat a) (unat e) (unat ssz)) \<and>
     (\<forall>j<k. slab_addr m' (d + 8 * of_nat j) = slab_addr m (d + 8 * of_nat j) \<and>
            slab_is_free m' (d + 8 * of_nat j) = slab_is_free m (d + 8 * of_nat j))"
  using assms(3)
proof (induction "slab_count (unat a) (unat e) (unat ssz)" arbitrary: m k a)
  case 0
  then have "\<not> a < e"
    using slab_count_step [OF assms(1), of "unat a" "unat e"] by (auto simp: word_less_nat_alt)
  then show ?case using "0.hyps" by (simp add: init_loop.simps set_up_def)
next
  case (Suc n)
  have lt: "a < e" using Suc.hyps(2) by (auto simp: slab_count_def word_less_nat_alt split: if_splits)
  then have "unat a + unat ssz < 2 ^ 32" using assms(2) by (simp add: word_less_nat_alt)
  then have ua: "unat (a + ssz) = unat a + unat ssz" by (rule unat_add_nowrap)
  have cnt: "slab_count (unat a) (unat e) (unat ssz) = Suc (slab_count (unat (a + ssz)) (unat e) (unat ssz))"
    unfolding ua using lt assms(1) by (intro slab_count_step) (simp_all add: word_less_nat_alt)
  then have n: "n = slab_count (unat (a + ssz)) (unat e) (unat ssz)" using Suc.hyps(2) by simp
  let ?m1 = "slab_put_free (slab_put_addr m (d + 8 * of_nat k) a) (d + 8 * of_nat k) True"
  have k: "k < 2 ^ 29" "Suc k + slab_count (unat (a + ssz)) (unat e) (unat ssz) \<le> 2 ^ 29"
    using Suc.prems cnt by auto
  obtain m' where m': "init_loop ?m1 (d + 8 * of_nat (Suc k)) (a + ssz) e ssz = Some m'"
      "set_up m' d (Suc k) (a + ssz) ssz n"
      "\<And>j. j < Suc k \<Longrightarrow> slab_addr m' (d + 8 * of_nat j) = slab_addr ?m1 (d + 8 * of_nat j) \<and>
            slab_is_free m' (d + 8 * of_nat j) = slab_is_free ?m1 (d + 8 * of_nat j)"
    using Suc.hyps(1) [OF n k(2), of ?m1] n by blast
  have "init_loop m (d + 8 * of_nat k) a e ssz = Some m'"
    using lt m'(1) by (subst init_loop.simps) (simp add: next_desc del: of_nat_Suc)
  moreover have "set_up m' d k a ssz (Suc n)"
    unfolding set_up_def
  proof (intro allI impI)
    fix i assume i: "i < Suc n"
    show "slab_addr m' (d + 8 * of_nat (k + i)) = a + of_nat i * ssz \<and> slab_is_free m' (d + 8 * of_nat (k + i))"
    proof (cases i)
      case 0
      then show ?thesis
        using m'(3) [of k] k(1) by (simp add: put_free_addr put_free_is_free put_addr_other)
    next
      case (Suc i')
      then show ?thesis using m'(2) i by (auto simp: set_up_def algebra_simps dest: spec [of _ i'])
    qed
  qed
  moreover have "slab_addr m' (d + 8 * of_nat j) = slab_addr m (d + 8 * of_nat j) \<and>
            slab_is_free m' (d + 8 * of_nat j) = slab_is_free m (d + 8 * of_nat j)" if "j < k" for j
    using m'(3) [of j] that k(1) by (simp add: put_free_addr put_free_is_free put_addr_other)
  ultimately show ?case using Suc.hyps(2) by metis
qed

text \<open>\<open>init_loop\<close> writes only behind the start of the table.\<close>

lemma init_loop_below:
  fixes a e ssz d :: u32
  assumes "0 < unat ssz" "unat e + unat ssz \<le> 2 ^ 32"
    "unat d + 8 * (k + slab_count (unat a) (unat e) (unat ssz)) \<le> 2 ^ 32"
    "init_loop m (d + 8 * of_nat k) a e ssz = Some m'" "unat q < unat d"
  shows "m' q = m q"
  using assms(3,4)
proof (induction "slab_count (unat a) (unat e) (unat ssz)" arbitrary: m k a)
  case 0
  then have "\<not> a < e"
    using slab_count_step [OF assms(1), of "unat a" "unat e"] by (auto simp: word_less_nat_alt)
  then show ?case using "0.prems" by (simp add: init_loop.simps)
next
  case (Suc n)
  have lt: "a < e" using Suc.hyps(2) by (auto simp: slab_count_def word_less_nat_alt split: if_splits)
  then have "unat a + unat ssz < 2 ^ 32" using assms(2) by (simp add: word_less_nat_alt)
  then have ua: "unat (a + ssz) = unat a + unat ssz" by (rule unat_add_nowrap)
  have cnt: "slab_count (unat a) (unat e) (unat ssz) = Suc (slab_count (unat (a + ssz)) (unat e) (unat ssz))"
    unfolding ua using lt assms(1) by (intro slab_count_step) (simp_all add: word_less_nat_alt)
  then have n: "n = slab_count (unat (a + ssz)) (unat e) (unat ssz)" using Suc.hyps(2) by simp
  have k8: "8 * k + 8 \<le> 2 ^ 32" "unat d + 8 * k + 4 < 2 ^ 32" using Suc.prems(1) cnt by simp_all
  then have u8: "unat (8 * of_nat k :: u32) = 8 * k" by (intro unat_8) simp
  then have ud: "unat (d + 8 * of_nat k) = unat d + 8 * k"
    using k8(2) unat_add_nowrap [of d "8 * of_nat k"] by simp
  then have "unat (d + 8 * of_nat k + 4) = unat d + 8 * k + 4"
    using k8(2) unat_add_nowrap [of "d + 8 * of_nat k" 4] by simp
  then have q: "q \<noteq> d + 8 * of_nat k" "q \<noteq> d + 8 * of_nat k + 4" using ud assms(5) by auto
  let ?m1 = "slab_put_free (slab_put_addr m (d + 8 * of_nat k) a) (d + 8 * of_nat k) True"
  have "init_loop ?m1 (d + 8 * of_nat (Suc k)) (a + ssz) e ssz = Some m'"
    using Suc.prems(2) lt by (subst (asm) init_loop.simps) (simp add: next_desc del: of_nat_Suc)
  then have "m' q = ?m1 q" using Suc.prems(1) cnt by (intro Suc.hyps(1) [OF n, of "Suc k"]) simp_all
  then show ?case using q by (simp add: slab_put_free_def slab_put_addr_def)
qed

section \<open>Correctness\<close>

lemma slab_alloc_result:
  assumes "slab_size s \<noteq> 0" and "num_slabs \<noteq> 0" and "slab_alloc m s num_slabs = Some res"
  shows "alloc_outcome m s (unat (total_num_slabs s)) (unat num_slabs) 0 res"
proof -
  have "0 < unat num_slabs" using assms(2) by (simp add: unat_gt_0)
  then show ?thesis
    using assms alloc_loop_outcome [of "unat num_slabs" "sdata s" s 0 m "unat (total_num_slabs s)"]
    by (simp add: slab_alloc_def desc_def)
qed

text \<open>
  The specification, over the words of the memory.  A descriptor is two words: the address of its slab, and
  a word whose low byte says whether it is free.  \<open>low_bytes_set\<close>: in the descriptors \<open>r, \<dots>, r + n - 1\<close> of the
  table at \<open>d\<close> that byte has become \<open>v\<close>, and nothing else in the memory has changed.
\<close>

definition run_is_free :: "pmem \<Rightarrow> u32 \<Rightarrow> nat \<Rightarrow> nat \<Rightarrow> bool" where
  "run_is_free m d r n \<longleftrightarrow> (\<forall>i\<in>{r..<r + n}. m (d + 8 * of_nat i + 4) AND 0xFF \<noteq> 0)"

definition low_bytes_set :: "pmem \<Rightarrow> u32 \<Rightarrow> nat \<Rightarrow> nat \<Rightarrow> u32 \<Rightarrow> pmem \<Rightarrow> bool" where
  "low_bytes_set m d r n v m' \<longleftrightarrow>
     (\<forall>q. m' q = (if \<exists>i\<in>{r..<r + n}. q = d + 8 * of_nat i + 4 then m q AND NOT 0xFF OR v else m q))"

definition slab_first_fit ::
    "pmem \<Rightarrow> slab_alloc_t \<Rightarrow> nat \<Rightarrow> nat \<Rightarrow> u32 \<times> pmem \<times> slab_alloc_t \<Rightarrow> bool" where
  "slab_first_fit m s tot n res \<longleftrightarrow>
     (\<exists>r m'. r < tot \<and> run_is_free m (sdata s) r n \<and> (\<forall>r'<r. \<not> run_is_free m (sdata s) r' n) \<and>
        low_bytes_set m (sdata s) r n 0 m' \<and>
        res = (m (sdata s + 8 * of_nat r), m', s\<lparr>free_mem_size := free_mem_size s - of_nat n * slab_size s\<rparr>)) \<or>
     ((\<forall>r<tot. \<not> run_is_free m (sdata s) r n) \<and> res = (0, m, s))"

lemma run_is_free_iff: "run_is_free m d r n = free_run m d r n"
  by (simp add: run_is_free_def free_run_def slab_is_free_def)

lemma low_byte_twice: "(x AND - 256 OR v) AND - 256 OR v = x AND - 256 OR (v :: u32)"
  by (rule bit_word_eqI) (auto simp: bit_simps)

lemma mark_slabs_low_bytes: "low_bytes_set m d r n (if b then 1 else 0) (mark_slabs m (d + 8 * of_nat r) n b)"
proof (induction n arbitrary: m r)
  case (Suc n)
  let ?v = "if b then 1 else 0 :: u32" and ?m = "slab_put_free m (d + 8 * of_nat r) b"
  have IH: "mark_slabs m (d + 8 * of_nat r) (Suc n) b q =
      (if \<exists>i\<in>{Suc r..<Suc r + n}. q = d + 8 * of_nat i + 4 then ?m q AND NOT 0xFF OR ?v else ?m q)" for q
    using Suc.IH [of ?m "Suc r"] by (simp add: low_bytes_set_def next_desc del: of_nat_Suc)
  have "{r..<r + Suc n} = insert r {Suc r..<Suc r + n}" by auto
  then show ?case
    unfolding low_bytes_set_def IH by (auto simp: slab_put_free_def low_byte_twice [of _ 1] low_byte_twice [of _ 0, simplified])
qed (simp add: low_bytes_set_def)

text \<open>C27: \<open>slab_alloc\<close> of a positive request is first fit: it returns the address of the least run of
  free descriptors that is long enough and starts below the descriptor count, marks exactly
  that run as taken, changes no other word of the memory, and charges the run to \<open>free_mem_size\<close>; it returns
  NULL and changes nothing exactly when there is no such run.\<close>

theorem slab_alloc_first_fit:
  assumes "slab_size s \<noteq> 0" and "num_slabs \<noteq> 0"
  shows "\<exists>res. slab_alloc m s num_slabs = Some res \<and>
     slab_first_fit m s (unat ((mem_size s div slab_size s) * slab_size s div 8)) (unat num_slabs) res"
proof -
  obtain res where res: "slab_alloc m s num_slabs = Some res" using assms(1) by (simp add: slab_alloc_def)
  let ?n = "unat num_slabs"
  have marks: "low_bytes_set m (sdata s) r ?n 0 (mark_slabs m (desc s r) ?n False)" for r
    using mark_slabs_low_bytes [of m "sdata s" r ?n False] by (simp add: desc_def)
  have "slab_first_fit m s (unat (total_num_slabs s)) ?n res"
    using slab_alloc_result [OF assms res] unfolding alloc_outcome_def
  proof (elim disjE exE conjE)
    fix r assume "r < unat (total_num_slabs s)" "free_run m (sdata s) r ?n"
      "\<forall>r'\<in>{0..<r}. \<not> free_run m (sdata s) r' ?n"
      "res = (slab_addr m (desc s r), mark_slabs m (desc s r) ?n False,
               s\<lparr>free_mem_size := free_mem_size s - of_nat ?n * slab_size s\<rparr>)"
    then show ?thesis
      unfolding slab_first_fit_def run_is_free_iff
      by (intro disjI1 exI [of _ r] exI [of _ "mark_slabs m (desc s r) ?n False"])
         (use marks in \<open>simp add: slab_addr_def desc_def\<close>)
  qed (simp add: slab_first_fit_def run_is_free_iff)
  then show ?thesis using res by (simp add: total_num_slabs_def)
qed

abbreviation (input) demo_slab :: slab_alloc_t where
  "demo_slab \<equiv> \<lparr>smem = 4096, mem_size = 64, free_mem_size = 32, slab_size = 16, sdata = 4096\<rparr>"

theorem slab_alloc_first_fit_witness:
  "\<exists>m' s'. slab_alloc (\<lambda>_. 1) demo_slab 2 = Some (1, m', s') \<and> m' 4100 = 0 \<and> m' 4108 = 0 \<and> m' 4116 = 1"
proof -
  have free: "run_is_free (\<lambda>_. 1) 4096 r n" for r n by (simp add: run_is_free_def)
  obtain res where res: "slab_alloc (\<lambda>_. 1) demo_slab 2 = Some res"
      "slab_first_fit (\<lambda>_. 1) demo_slab 8 2 res"
    using slab_alloc_first_fit [of demo_slab 2 "\<lambda>_. 1"] by auto
  have "\<not> (\<forall>r<8 :: nat. \<not> run_is_free (\<lambda>_. 1) 4096 r 2)" using free by (auto intro!: exI [of _ 0])
  then obtain r m' where "\<forall>r'<r. \<not> run_is_free (\<lambda>_. 1) 4096 r' 2" "low_bytes_set (\<lambda>_. 1) 4096 r 2 0 m'"
      "\<exists>s'. res = (1, m', s')"
    using res(2) unfolding slab_first_fit_def by auto
  moreover from this have "r = 0" using free by auto
  ultimately have m': "low_bytes_set (\<lambda>_. 1) 4096 0 2 0 m'" "\<exists>s'. res = (1, m', s')" by simp_all
  have ex: "(\<exists>i\<in>{0..<0 + 2 :: nat}. q = 4096 + 8 * of_nat i + 4) = (q = 4100 \<or> q = 4108)" for q :: u32
    by (simp add: numeral_2_eq_2 atLeastLessThanSuc disj_commute)
  then have "m' q = (if q = 4100 \<or> q = 4108 then 0 else 1)" for q
    using m'(1) unfolding low_bytes_set_def ex by simp
  then show ?thesis using res(1) m'(2) by auto
qed

text \<open>C12: giving back what \<open>slab_alloc\<close> handed out succeeds and undoes it.  The first \<open>n\<close> descriptors hold
  different addresses, as \<open>slab_init\<close> leaves those that it sets up, and among them there is a run of free ones
  that is long enough, whatever is in use and whatever the memory behind them holds; then \<open>slab_free\<close> of the
  address returns success, and every descriptor has the address and the free flag that it had, as has
  \<open>free_mem_size\<close>.\<close>

theorem slab_alloc_free_roundtrip:
  assumes args: "slab_size s \<noteq> 0" "num_slabs \<noteq> 0"
    and tab: "n \<le> unat (total_num_slabs s)" "n \<le> 2 ^ 29" "inj_on (\<lambda>j. m (sdata s + 8 * of_nat j)) {0..<n}"
    and room: "run_is_free m (sdata s) i (unat num_slabs)" "i + unat num_slabs \<le> n"
  shows "\<exists>a m1 s1 m2. slab_alloc m s num_slabs = Some (a, m1, s1) \<and>
     (\<exists>r\<le>i. a = m (sdata s + 8 * of_nat r) \<and> run_is_free m (sdata s) r (unat num_slabs)) \<and>
     free_mem_size s1 = free_mem_size s - num_slabs * slab_size s \<and>
     slab_free m1 s1 a num_slabs = Some (SUCC, m2, s) \<and>
     (\<forall>k<2 ^ 29. m2 (sdata s + 8 * of_nat k) = m (sdata s + 8 * of_nat k) \<and>
        (m2 (sdata s + 8 * of_nat k + 4) AND 0xFF \<noteq> 0) = (m (sdata s + 8 * of_nat k + 4) AND 0xFF \<noteq> 0))"
proof -
  let ?n = "unat num_slabs" and ?tot = "unat (total_num_slabs s)"
  obtain res where res: "slab_alloc m s num_slabs = Some res" using args(1) by (simp add: slab_alloc_def)
  have i: "i < ?tot" "free_run m (sdata s) i ?n"
    using room tab(1) args(2) by (simp_all add: run_is_free_iff unat_gt_0 [symmetric])
  then obtain r where r: "r \<le> i" "free_run m (sdata s) r ?n"
      and out: "res = (slab_addr m (desc s r), mark_slabs m (desc s r) ?n False,
           s\<lparr>free_mem_size := free_mem_size s - of_nat ?n * slab_size s\<rparr>)"
    using slab_alloc_result [OF args res] unfolding alloc_outcome_def
    by (metis atLeastLessThan_iff le0 linorder_not_less)
  let ?a = "slab_addr m (desc s r)" and ?m1 = "mark_slabs m (sdata s + 8 * of_nat r) ?n False"
  let ?s1 = "s\<lparr>free_mem_size := free_mem_size s - num_slabs * slab_size s\<rparr>"
  have alloc: "slab_alloc m s num_slabs = Some (?a, ?m1, ?s1)" using res out by (simp add: desc_def)
  have rn: "r + ?n \<le> 2 ^ 29" "r + ?n \<le> n" using r(1) room(2) tab(2) by linarith+
  have lt: "k < n" "k < 2 ^ 29" if "k \<le> r" for k
    using that rn args(2) tab(2) by (simp_all add: unat_gt_0 [symmetric])
  have pos: "0 < total_num_slabs s" using i(1) by (simp add: word_less_nat_alt)
  have addr1: "slab_addr ?m1 (desc s k) = m (sdata s + 8 * of_nat k)" if "k < 2 ^ 29" for k
    using mark_slabs_spec(2) [OF rn(1) that] by (simp add: desc_def slab_addr_def)
  have "find_slab ?m1 ?a 0 (total_num_slabs s) (sdata s) = Some (desc s r)"
  proof (rule find_slab_hit [OF pos, of _ _ 0])
    show "\<forall>k\<in>{0..<r}. slab_addr ?m1 (desc s k) \<noteq> ?a"
      using addr1 lt inj_onD [OF tab(3), of _ r] by (fastforce simp: slab_addr_def desc_def)
    show "slab_addr ?m1 (desc s r) = ?a" using addr1 lt by (simp add: slab_addr_def desc_def)
  qed (simp_all add: desc_def)
  moreover have "\<not> slab_is_free ?m1 (desc s r + 8 * of_nat k)" if "k < ?n" for k
  proof -
    have eq: "desc s r + 8 * of_nat k = sdata s + 8 * of_nat (r + k)" by (simp add: desc_def algebra_simps)
    have "\<not> slab_is_free ?m1 (sdata s + 8 * of_nat (r + k))"
      using mark_slabs_spec(1) [OF rn(1), of "r + k" m "sdata s" False] that rn(1) by (simp del: of_nat_add)
    then show ?thesis unfolding eq .
  qed
  ultimately have free: "slab_free ?m1 ?s1 ?a num_slabs =
      Some (SUCC, mark_slabs ?m1 (sdata s + 8 * of_nat r) ?n True, s)"
    using args(1) pos by (auto simp: slab_free_def desc_def total_num_slabs_def)
  have "slab_is_free (mark_slabs ?m1 (sdata s + 8 * of_nat r) ?n True) (sdata s + 8 * of_nat k) =
      slab_is_free m (sdata s + 8 * of_nat k)"
    and "slab_addr (mark_slabs ?m1 (sdata s + 8 * of_nat r) ?n True) (sdata s + 8 * of_nat k) =
      slab_addr m (sdata s + 8 * of_nat k)"
    if "k < 2 ^ 29" for k
    using mark_slabs_spec [OF rn(1) that] r(2) by (auto simp: free_run_def)
  then show ?thesis
    using alloc free r by (auto simp: slab_is_free_def slab_addr_def desc_def run_is_free_iff)
qed

lemma set_up_distinct:
  fixes a ssz :: u32
  assumes "set_up m d 0 a ssz n" and "0 < unat ssz" and "unat a + n * unat ssz < 2 ^ 32"
  shows "inj_on (\<lambda>j. m (d + 8 * of_nat j)) {0..<n}"
proof (rule inj_onI)
  fix j k assume jk: "j \<in> {0..<n}" "k \<in> {0..<n}" "m (d + 8 * of_nat j) = m (d + 8 * of_nat k)"
  have u: "unat (of_nat i * ssz) = i * unat ssz" if "i < n" for i
  proof -
    have "i * unat ssz \<le> n * unat ssz" using that by simp
    then have "i * unat ssz < 2 ^ 32" using assms(3) by linarith
    then show ?thesis by (simp add: unat_word_ariths unat_of_nat mod_mult_left_eq)
  qed
  have "of_nat j * ssz = (of_nat k * ssz :: u32)" using jk assms(1) by (simp add: set_up_def slab_addr_def)
  then have "j * unat ssz = k * unat ssz" using u [of j] u [of k] jk(1,2) by (metis atLeastLessThan_iff)
  then show "j = k" using assms(2) by simp
qed

text \<open>C34: when no descriptor from the start of the table on, as far as the search can go, holds the address,
  \<open>slab_free\<close> of it never returns (the loop bound \<open>i < total_num_slabs\<close> is void, as the search does not count).\<close>

theorem slab_free_unknown_diverges:
  assumes "slab_size s \<noteq> 0" and "total_num_slabs s \<noteq> 0" and "\<And>j. m (sdata s + 8 * of_nat j) \<noteq> addr"
  shows "slab_free m s addr num_slabs = None"
proof -
  have "find_slab m addr 0 (total_num_slabs s) (sdata s) = None"
    using find_slab_result [of m addr 0 "total_num_slabs s" "sdata s"] assms(2,3)
    by (cases "find_slab m addr 0 (total_num_slabs s) (sdata s)") (auto simp: word_gt_0 slab_addr_def)
  then show ?thesis using assms(1) by (simp add: slab_free_def)
qed

theorem slab_free_unknown_diverges_witness:
  "slab_free (\<lambda>p. if p = 4 then 0x5000 else 1) demo_slab 0x5000 1 = None"
proof (rule slab_free_unknown_diverges)
  fix j
  have "4096 + 8 * of_nat j \<noteq> (4 :: u32)"
  proof
    assume "4096 + 8 * of_nat j = (4 :: u32)"
    then have "0x20000000 * 4096 + (0x20000000 * 8) * of_nat j = (0x20000000 * 4 :: u32)"
      by (simp only: mult.assoc flip: distrib_left)
    moreover have "(0x20000000 * 4096 :: u32) = 0" "(0x20000000 * 8 :: u32) = 0" "(0x20000000 * 4 :: u32) \<noteq> 0" by simp_all
    ultimately show False by (simp only:) simp
  qed
  then show "(if sdata demo_slab + 8 * of_nat j = 4 then 0x5000 else 1) \<noteq> (0x5000 :: u32)" by simp
qed (simp_all add: total_num_slabs_def)

lemma slab_init_result:
  fixes mem msize ssize :: u32
  defines "start \<equiv> mem + (msize div ssize) * ssize div 8"
  assumes "\<not> ssize < 8" and "mem \<noteq> 0" and "unat mem + unat msize + unat ssize \<le> 2 ^ 32"
  shows "\<exists>m'. slab_init m s mem msize ssize =
           Some (SUCC, m', \<lparr>smem = mem, mem_size = msize,
             free_mem_size = msize - (msize div ssize) * ssize div 8, slab_size = ssize, sdata = mem\<rparr>) \<and>
         init_loop m mem start (mem + msize) ssize = Some m' \<and>
         set_up m' mem 0 start ssize (slab_count (unat start) (unat mem + unat msize) (unat ssize))"
proof -
  have pos: "8 \<le> unat ssize" using assms(2) by (simp add: word_less_nat_alt)
  have e: "unat (mem + msize) = unat mem + unat msize"
    using assms(4) pos by (intro unat_add_nowrap) simp
  have "slab_count (unat start) (unat (mem + msize)) (unat ssize) \<le> 2 ^ 29"
  proof -
    have "(unat (mem + msize) - unat start + unat ssize - 1) div unat ssize
        \<le> (2 ^ 32 - 1) div unat ssize"
      using e assms(4) by (intro div_le_mono) simp
    also have "\<dots> \<le> (2 ^ 32 - 1) div 8" using pos by (intro div_le_mono2) simp_all
    finally have "(unat (mem + msize) - unat start + unat ssize - 1) div unat ssize \<le> 2 ^ 29"
      by (rule order_trans) simp
    then show ?thesis unfolding slab_count_def by (split if_split) (intro conjI impI; simp only: zero_le)
  qed
  then obtain m' where "init_loop m mem start (mem + msize) ssize = Some m'"
      "set_up m' mem 0 start ssize (slab_count (unat start) (unat (mem + msize)) (unat ssize))"
    using init_loop_set_up [of ssize "mem + msize" 0 start m mem] pos e assms(4) by auto
  moreover have "ssize \<noteq> 0" using assms(2) by auto
  ultimately show ?thesis using assms(2,3) e by (simp add: slab_init_def Let_def start_def)
qed

text \<open>\<open>slab_init\<close> rejects a slab smaller than a descriptor; otherwise, for a region that does not
  wrap, it terminates and sets up one free descriptor for each slab that starts in the area behind
  the first eighth of the region, at the addresses \<open>start, start + slab_size, \<dots>\<close>.\<close>

theorem slab_init_sets_up:
  assumes "ssize \<noteq> 0" and "mem \<noteq> 0" and "unat mem + unat msize + unat ssize \<le> 2 ^ 32"
  shows "if ssize < 8 then slab_init m s mem msize ssize = Some (- SLAB_INIT_FAIL, m, s)
     else let start = mem + (msize div ssize) * ssize div 8 in
       \<exists>m'. slab_init m s mem msize ssize =
           Some (SUCC, m', \<lparr>smem = mem, mem_size = msize,
             free_mem_size = msize - (msize div ssize) * ssize div 8, slab_size = ssize, sdata = mem\<rparr>) \<and>
         set_up m' mem 0 start ssize (slab_count (unat start) (unat mem + unat msize) (unat ssize))"
proof (cases "ssize < 8")
  case True
  then show ?thesis using assms(1) by (simp add: slab_init_def Let_def)
next
  case False
  then show ?thesis using slab_init_result [OF False assms(2,3), of m s] by (auto simp: Let_def)
qed

theorem slab_init_sets_up_witness:
  "\<exists>m'. slab_init (\<lambda>_. 0) demo_slab 4096 64 16 =
      Some (SUCC, m', \<lparr>smem = 4096, mem_size = 64, free_mem_size = 56, slab_size = 16, sdata = 4096\<rparr>) \<and>
     set_up m' 4096 0 4104 16 4"
  using slab_init_sets_up [of 16 4096 64 "\<lambda>_. 0" demo_slab] by (simp add: slab_count_def Let_def)

text \<open>The table of a fresh allocator, with four descriptors set up of the eight that it counts.\<close>

theorem slab_alloc_free_roundtrip_witness:
  "\<exists>m0 s0 m1 s1 m2. slab_init (\<lambda>_. 0) demo_slab 4096 64 16 = Some (SUCC, m0, s0) \<and>
     slab_alloc m0 s0 2 = Some (4104, m1, s1) \<and> slab_free m1 s1 4104 2 = Some (SUCC, m2, s0)"
proof -
  let ?s = "\<lparr>smem = 4096, mem_size = 64, free_mem_size = 56, slab_size = 16, sdata = 4096\<rparr> :: slab_alloc_t"
  obtain m0 where m0: "slab_init (\<lambda>_. 0) demo_slab 4096 64 16 = Some (SUCC, m0, ?s)" "set_up m0 4096 0 4104 16 4"
    using slab_init_result [of 16 4096 64 "\<lambda>_. 0" demo_slab] by (auto simp: slab_count_def)
  have inj: "inj_on (\<lambda>j. m0 (sdata ?s + 8 * of_nat j)) {0..<4}"
    using set_up_distinct [OF m0(2)] by simp
  have run: "run_is_free m0 (sdata ?s) 0 (unat (2 :: u32))"
    using m0(2) by (simp add: run_is_free_def set_up_def slab_is_free_def)
  have "4 \<le> unat (total_num_slabs ?s)" by (simp add: total_num_slabs_def)
  from slab_alloc_free_roundtrip [OF _ _ this _ inj run]
  obtain m1 s1 m2 where "slab_alloc m0 ?s 2 = Some (m0 4096, m1, s1)" "slab_free m1 s1 (m0 4096) 2 = Some (SUCC, m2, ?s)"
    by auto
  moreover have "m0 4096 = 4104" using m0(2) by (auto simp: set_up_def slab_addr_def dest: spec [of _ 0])
  ultimately show ?thesis using m0(1) by auto
qed

end
