(* ===== verification/Spinlock.thy ===== *)
theory Spinlock
  imports Prelude
begin

text \<open>
  libk/atomic.c and the spin locks of libk/synch.c.  \<open>int\<close> values are 32-bit words read as two's
  complement.  The operations are given twice: as functions of the lock (the sequential calls
  that kmalloc, palloc and the semaphores make; a \<open>spin_lock_acquire\<close> that spins forever is
  None), and as the step relation of any number of threads that run them interleaved at the
  granularity of the atomic instructions.
\<close>

record 'o spin_lock =
  lval :: u32
  owner :: "'o option"

section \<open>Atomic instructions\<close>

text \<open>Both return the old value and the new contents of the cell: \<open>xchgl\<close> with 1, and \<open>xaddl\<close>.\<close>

definition test_and_set :: "u32 \<Rightarrow> u32 \<times> u32" where
  "test_and_set dest = (dest, 1)"

definition fetch_and_add :: "u32 \<Rightarrow> u32 \<Rightarrow> u32 \<times> u32" where
  "fetch_and_add dest val = (dest, dest + val)"

section \<open>Operations\<close>

definition spin_lock_init :: "'o spin_lock option \<Rightarrow> err_t \<times> 'o spin_lock option" where
  "spin_lock_init sl =
     (case sl of
        None \<Rightarrow> (- LOCK_INIT_FAIL, None)
      | Some l \<Rightarrow> (SUCC, Some (l\<lparr>lval := 0, owner := None\<rparr>)))"

text \<open>\<open>while (test_and_set(&sl->val) > 0);\<close> with no other thread running.\<close>

partial_function (option) spin :: "'o spin_lock \<Rightarrow> 'o spin_lock option" where
  "spin l =
     (let (old, new) = test_and_set (lval l); l' = l\<lparr>lval := new\<rparr>
      in if 0 <s old then spin l' else Some l')"

definition spin_lock_acquire :: "'o spin_lock \<Rightarrow> (err_t \<times> 'o spin_lock) option" where
  "spin_lock_acquire l =
     (let val = lval l
      in if \<not> (val = 0 \<or> val = 1) then Some (- LOCK_ACQ_FAIL, l)
         else do { l' \<leftarrow> spin l; Some (SUCC, l') })"

definition spin_lock_release :: "'o spin_lock \<Rightarrow> err_t \<times> 'o spin_lock" where
  "spin_lock_release l =
     (let (old, new) = fetch_and_add (lval l) (-1); l' = l\<lparr>lval := new\<rparr>
      in if old \<noteq> 1 then (- LOCK_REL_FAIL, l') else (- SUCC, l'))"

lemma spin_free: "lval l = 0 \<Longrightarrow> spin l = Some (l\<lparr>lval := 1\<rparr>)"
  by (simp add: spin.simps test_and_set_def)

lemma acquire_free [simp]: "lval l = 0 \<Longrightarrow> spin_lock_acquire l = Some (SUCC, l\<lparr>lval := 1\<rparr>)"
  by (simp add: spin_lock_acquire_def spin_free)

lemma acquire_bad: "lval l \<noteq> 0 \<Longrightarrow> lval l \<noteq> 1 \<Longrightarrow> spin_lock_acquire l = Some (- LOCK_ACQ_FAIL, l)"
  by (simp add: spin_lock_acquire_def)

lemma release_held [simp]: "lval l = 1 \<Longrightarrow> spin_lock_release l = (SUCC, l\<lparr>lval := 0\<rparr>)"
  by (simp add: spin_lock_release_def fetch_and_add_def)

text \<open>A held lock is never acquired when nobody else runs: the loop has no result.\<close>

lemma spin_result: "spin l = Some l' \<Longrightarrow> lval l \<noteq> 1"
proof (rule spin.raw_induct [where P = "\<lambda>l l'. lval l \<noteq> 1"])
  fix sp :: "'o spin_lock \<Rightarrow> 'o spin_lock option" and l l'
  assume IH: "\<And>l l'. sp l = Some l' \<Longrightarrow> lval l \<noteq> 1"
    and eq: "(let (old, new) = test_and_set (lval l); l' = l\<lparr>lval := new\<rparr>
      in if 0 <s old then sp l' else Some l') = Some l'"
  show "lval l \<noteq> 1"
  proof
    assume one: "lval l = 1"
    then have "sp (l\<lparr>lval := 1\<rparr>) = Some l'"
      using eq by (simp add: test_and_set_def word_sless_alt)
    from IH [OF this] show False by simp
  qed
qed

lemma acquire_held: "lval l = 1 \<Longrightarrow> spin_lock_acquire l = None"
  using spin_result [of l] by (cases "spin l") (simp_all add: spin_lock_acquire_def)

section \<open>Interleaved threads\<close>

text \<open>
  A thread is outside, between the plausibility check and a winning \<open>test_and_set\<close> (spinning), or
  holds the lock.  Each rule is one access to the lock word.
\<close>

datatype pc = Outside | Spinning | Holding

record 't lock_sys =
  cell :: u32
  at :: "'t \<Rightarrow> pc"

definition lock_start :: "'t lock_sys" where
  "lock_start = \<lparr>cell = 0, at = (\<lambda>_. Outside)\<rparr>"

inductive lock_step :: "'t lock_sys \<Rightarrow> 't lock_sys \<Rightarrow> bool" where
  check: "at s t = Outside \<Longrightarrow> cell s = 0 \<or> cell s = 1 \<Longrightarrow>
    lock_step s (s\<lparr>at := (at s)(t := Spinning)\<rparr>)"
| refuse: "at s t = Outside \<Longrightarrow> \<not> (cell s = 0 \<or> cell s = 1) \<Longrightarrow> lock_step s s"
| busy: "at s t = Spinning \<Longrightarrow> test_and_set (cell s) = (old, new) \<Longrightarrow> 0 <s old \<Longrightarrow>
    lock_step s (s\<lparr>cell := new\<rparr>)"
| win: "at s t = Spinning \<Longrightarrow> test_and_set (cell s) = (old, new) \<Longrightarrow> \<not> 0 <s old \<Longrightarrow>
    lock_step s (s\<lparr>cell := new, at := (at s)(t := Holding)\<rparr>)"
| release: "at s t = Holding \<Longrightarrow> fetch_and_add (cell s) (-1) = (old, new) \<Longrightarrow>
    lock_step s (s\<lparr>cell := new, at := (at s)(t := Outside)\<rparr>)"

inductive reachable :: "'t lock_sys \<Rightarrow> bool" where
  start: "reachable lock_start"
| step: "reachable s \<Longrightarrow> lock_step s s' \<Longrightarrow> reachable s'"

inductive_cases lock_stepE: "lock_step s s'"

text \<open>The word is 1 exactly when some thread holds the lock, and then just one does.\<close>

definition holders :: "'t lock_sys \<Rightarrow> 't set" where
  "holders s = {t. at s t = Holding}"

definition lock_inv :: "'t lock_sys \<Rightarrow> bool" where
  "lock_inv s \<longleftrightarrow> (cell s = 0 \<and> holders s = {}) \<or> (cell s = 1 \<and> (\<exists>t. holders s = {t}))"

lemma lock_inv_start: "lock_inv lock_start"
  by (simp add: lock_inv_def lock_start_def holders_def)

lemma holders_upd:
  "holders (s\<lparr>cell := c, at := (at s)(t := p)\<rparr>) = (if p = Holding then insert t (holders s) else holders s - {t})"
  "holders (s\<lparr>at := (at s)(t := p)\<rparr>) = (if p = Holding then insert t (holders s) else holders s - {t})"
  "holders (s\<lparr>cell := c\<rparr>) = holders s"
  by (auto simp: holders_def)

lemma in_holders: "t \<in> holders s \<longleftrightarrow> at s t = Holding"
  by (simp add: holders_def)

lemma lock_inv_step:
  assumes "lock_step s s'" and inv: "lock_inv s"
  shows "lock_inv s'"
  using assms(1)
proof (cases rule: lock_step.cases)
  case (check t)
  then have "holders s - {t} = holders s" by (auto simp: in_holders)
  then show ?thesis using inv check by (simp add: lock_inv_def holders_upd)
next
  case (refuse t)
  then show ?thesis using inv by simp
next
  case (busy t old new)
  then have "cell s \<noteq> 0" by (auto simp: test_and_set_def)
  then show ?thesis using inv busy by (simp add: lock_inv_def test_and_set_def holders_upd)
next
  case (win t old new)
  then have "cell s \<noteq> 1" by (auto simp: test_and_set_def word_sless_alt)
  then have "holders s = {}" using inv by (simp add: lock_inv_def)
  then show ?thesis using win by (simp add: lock_inv_def test_and_set_def holders_upd)
next
  case (release t old new)
  then have "t \<in> holders s" by (simp add: in_holders)
  then have "cell s = 1" "holders s - {t} = {}" using inv by (auto simp: lock_inv_def)
  then show ?thesis using release by (simp add: lock_inv_def fetch_and_add_def holders_upd)
qed

lemma reachable_inv: "reachable s \<Longrightarrow> lock_inv s"
  by (induction rule: reachable.induct) (auto intro: lock_inv_start lock_inv_step)

section \<open>Correctness\<close>

text \<open>C11: in every interleaving of threads that use \<open>spin_lock_acquire\<close> and \<open>spin_lock_release\<close> on
  an initialised lock, at most one thread holds the lock, and the lock word is 1 while it does.\<close>

theorem spin_lock_mutual_exclusion:
  assumes "reachable s" and "at s t = Holding" and "at s u = Holding"
  shows "t = u \<and> cell s = 1"
proof -
  have "t \<in> holders s" "u \<in> holders s" using assms(2,3) by (simp_all add: in_holders)
  then show ?thesis using reachable_inv [OF assms(1)] by (auto simp: lock_inv_def)
qed

definition one_holder :: "nat lock_sys" where
  "one_holder = \<lparr>cell = 1, at = (\<lambda>_. Outside)(0 := Holding, 1 := Spinning)\<rparr>"

lemma one_holder_reachable: "reachable one_holder"
proof -
  let ?s1 = "lock_start\<lparr>at := (at lock_start)(0 := Spinning)\<rparr> :: nat lock_sys"
  let ?s2 = "?s1\<lparr>cell := 1, at := (at ?s1)(0 := Holding)\<rparr>"
  have "lock_step lock_start ?s1" by (rule lock_step.check) (simp_all add: lock_start_def)
  moreover have "lock_step ?s1 ?s2"
    by (rule lock_step.win [of _ _ 0]) (simp_all add: lock_start_def test_and_set_def)
  moreover have "lock_step ?s2 (?s2\<lparr>at := (at ?s2)(1 := Spinning)\<rparr>)"
    by (rule lock_step.check) (simp_all add: lock_start_def)
  moreover have "?s2\<lparr>at := (at ?s2)(1 := Spinning)\<rparr> = one_holder"
    by (simp add: one_holder_def lock_start_def)
  ultimately show ?thesis using reachable.start reachable.step by metis
qed

theorem spin_lock_mutual_exclusion_witness: "(0::nat) = 0 \<and> cell one_holder = 1"
  using spin_lock_mutual_exclusion [OF one_holder_reachable, of 0 0] by (simp add: one_holder_def)

text \<open>C30: a spinning thread is never shut out for good: whenever nobody holds the lock its next
  \<open>test_and_set\<close> wins, and a holder can always release, with the return code of success.\<close>

theorem spin_lock_progress:
  assumes "reachable s" and "at s t = Spinning"
  shows "(\<exists>u. at s u = Holding \<and> fst (spin_lock_release \<lparr>lval = cell s, owner = None\<rparr>) = SUCC \<and>
            lock_step s (s\<lparr>cell := 0, at := (at s)(u := Outside)\<rparr>)) \<or>
         lock_step s (s\<lparr>cell := 1, at := (at s)(t := Holding)\<rparr>)"
proof (cases "\<exists>u. at s u = Holding")
  case True
  then obtain u where u: "at s u = Holding" by blast
  then have "u \<in> holders s" by (simp add: in_holders)
  then have "cell s = 1" using reachable_inv [OF assms(1)] by (auto simp: lock_inv_def)
  then show ?thesis using u lock_step.release [OF u, of 1 0] by (auto simp: fetch_and_add_def)
next
  case False
  then have "holders s = {}" by (simp add: holders_def)
  then have "cell s = 0" using reachable_inv [OF assms(1)] by (auto simp: lock_inv_def)
  then show ?thesis using lock_step.win [OF assms(2), of 0 1] by (simp add: test_and_set_def)
qed

theorem spin_lock_progress_witness:
  "(\<exists>u. at one_holder u = Holding \<and> fst (spin_lock_release \<lparr>lval = cell one_holder, owner = None\<rparr>) = SUCC \<and>
      lock_step one_holder (one_holder\<lparr>cell := 0, at := (at one_holder)(u := Outside)\<rparr>)) \<or>
   lock_step one_holder (one_holder\<lparr>cell := 1, at := (at one_holder)(1 := Holding)\<rparr>)"
  by (rule spin_lock_progress [OF one_holder_reachable]) (simp add: one_holder_def)

text \<open>the sequential behaviour of the lock calls: a free lock is acquired, a held one makes the
  caller spin forever when no other thread runs (None), any other value of the word is refused;
  releasing a lock that is not held fails and leaves the word at -1, after which every acquire
  is refused.\<close>

theorem spin_lock_calls:
  "spin_lock_acquire l =
     (if lval l = 0 then Some (SUCC, l\<lparr>lval := 1\<rparr>)
      else if lval l = 1 then None else Some (- LOCK_ACQ_FAIL, l)) \<and>
   spin_lock_release (l\<lparr>lval := 0\<rparr>) = (- LOCK_REL_FAIL, l\<lparr>lval := -1\<rparr>) \<and>
   spin_lock_acquire (l\<lparr>lval := -1\<rparr>) = Some (- LOCK_ACQ_FAIL, l\<lparr>lval := -1\<rparr>)"
  using acquire_held [of l] acquire_bad [of l]
  by (auto simp: spin_lock_release_def fetch_and_add_def acquire_bad)

end
