(* ===== verification/Kalloc.thy ===== *)
theory Kalloc
  imports Lists Slab Spinlock "HOL-Library.Signed_Division"
begin

text \<open>
  kernel/kalloc.c: the page allocator (\<open>palloc\<close>, over the bitmap at 4 MB) and the byte allocator
  (\<open>kmalloc\<close>, over the default slab allocator).  All of their data apart from the globals lives in
  the physical memory: the bitmap, the slab descriptors and the \<open>struct allocation\<close> records (16
  bytes: \<open>addr\<close>, \<open>size\<close> and the list node \<open>node\<close> at offset 8), which are linked into the list
  \<open>allocations\<close>.  A call that never returns (a held lock with nobody to release it, a division by
  a slab size of 0, the searches of slab.c) is None.  The locks are those of the theory Spinlock;
  calls are sequential.
\<close>

section \<open>State\<close>

record 'o kalloc =
  kmem :: pmem
  free_map :: bitmap
  malloc_lock :: "'o spin_lock"
  palloc_lock :: "'o spin_lock"
  allocations :: "u32 list_t"
  default_slab :: slab_alloc_t

abbreviation PG_SIZE :: u32 where "PG_SIZE \<equiv> 4096"
abbreviation start_addr :: u32 where "start_addr \<equiv> 4194304"
abbreviation SLAB_SIZE :: u32 where "SLAB_SIZE \<equiv> 64"
abbreviation SIZEOF_ALLOCATION :: u32 where "SIZEOF_ALLOCATION \<equiv> 16"

definition ROUND_UP :: "u32 \<Rightarrow> u32 \<Rightarrow> u32" where
  "ROUND_UP x sz = ((x + sz - 1) div sz) * sz"

text \<open>List nodes in raw memory: \<open>next\<close> at the node's address, \<open>prev\<close> four bytes on, NULL is 0.\<close>

definition ptr_of :: "u32 option \<Rightarrow> u32" where
  "ptr_of v = (case v of None \<Rightarrow> 0 | Some a \<Rightarrow> a)"

definition of_ptr :: "u32 \<Rightarrow> u32 option" where
  "of_ptr a = (if a = 0 then None else Some a)"

definition mem_ops :: "(pmem, u32) node_ops" where
  "mem_ops = \<lparr>
     get_next = (\<lambda>m p. of_ptr (m p)),
     get_prev = (\<lambda>m p. of_ptr (m (p + 4))),
     put_next = (\<lambda>m p v. m(p := ptr_of v)),
     put_prev = (\<lambda>m p v. m(p + 4 := ptr_of v))\<rparr>"

section \<open>Pages\<close>

definition palloc_mult :: "'o kalloc \<Rightarrow> u32 \<Rightarrow> (u32 \<times> 'o kalloc) option" where
  "palloc_mult k cnt = do {
     (r, l) \<leftarrow> spin_lock_acquire (palloc_lock k);
     let k = k\<lparr>palloc_lock := l\<rparr>;
     if r \<noteq> SUCC then Some (0, k)
     else
       let sz = bitmap_get_size (free_map k);
           idx = bitmap_find_range (kmem k) (free_map k) 0 sz cnt False
       in if idx \<noteq> sz + 1
          then let (_, m) = bitmap_set_range (kmem k) (free_map k) idx cnt True;
                   (_, l) = spin_lock_release (palloc_lock k)
               in Some (start_addr + idx * PG_SIZE, k\<lparr>kmem := m, palloc_lock := l\<rparr>)
          else let (_, l) = spin_lock_release (palloc_lock k)
               in Some (0, k\<lparr>palloc_lock := l\<rparr>) }"

definition palloc :: "'o kalloc \<Rightarrow> (u32 \<times> 'o kalloc) option" where
  "palloc k = palloc_mult k 1"

text \<open>\<open>((char *) addr - start_addr) / PG_SIZE\<close>: a signed difference, divided towards 0.\<close>

definition page_idx :: "u32 \<Rightarrow> u32" where
  "page_idx addr = word_of_int (sint (addr - start_addr) sdiv 4096)"

definition pfree_mult :: "'o kalloc \<Rightarrow> u32 \<Rightarrow> u32 \<Rightarrow> (err_t \<times> 'o kalloc) option" where
  "pfree_mult k addr cnt = do {
     (r, l) \<leftarrow> spin_lock_acquire (palloc_lock k);
     let k = k\<lparr>palloc_lock := l\<rparr>;
     if r \<noteq> SUCC then Some (- MEM_FREE_FAIL, k)
     else
       let idx = page_idx addr;
           (_, l) = spin_lock_release (palloc_lock k)
       in if idx + cnt < bitmap_get_size (free_map k) \<and>
             bitmap_count_range (kmem k) (free_map k) idx cnt = cnt
          then let k = k\<lparr>palloc_lock := l\<rparr>;
                   (n, m) = bitmap_set_range (kmem k) (free_map k) idx cnt False;
                   k = k\<lparr>kmem := m\<rparr>
               in if n = cnt then Some (SUCC, k) else Some (- MEM_FREE_FAIL, k)
          else Some (- MEM_FREE_FAIL, k\<lparr>palloc_lock := l\<rparr>) }"

definition pfree :: "'o kalloc \<Rightarrow> u32 \<Rightarrow> (err_t \<times> 'o kalloc) option" where
  "pfree k addr = pfree_mult k addr 1"

text \<open>\<open>init_alloc\<close> reads only \<open>mem_upper\<close> of the boot record.\<close>

definition init_alloc :: "'o kalloc \<Rightarrow> u32 \<Rightarrow> 'o kalloc option" where
  "init_alloc k mem_upper = do {
     let num_pages = (mem_upper * 1024 - 4194304) div PG_SIZE;
     let k = k\<lparr>free_map := bitmap_init_s num_pages start_addr\<rparr>;
     let (_, m) = bitmap_set_range (kmem k) (free_map k) 0 (num_pages div PG_SIZE + 1) True;
     let k = k\<lparr>kmem := list_init mem_ops m (allocations k)\<rparr>;
     (p, k) \<leftarrow> palloc_mult k 10;
     (_, m, s) \<leftarrow> slab_init (kmem k) (default_slab k) p (10 * PG_SIZE) SLAB_SIZE;
     let k = k\<lparr>kmem := m, default_slab := s\<rparr>;
     Some (k\<lparr>malloc_lock := the (snd (spin_lock_init (Some (malloc_lock k)))),
             palloc_lock := the (snd (spin_lock_init (Some (palloc_lock k))))\<rparr>) }"

section \<open>Bytes\<close>

definition slabs_for :: "slab_alloc_t \<Rightarrow> u32 \<Rightarrow> u32" where
  "slabs_for s sz =
     (let num_slabs = ROUND_UP (sz div slab_size s) (slab_size s)
      in if num_slabs = 0 then num_slabs + 1 else num_slabs)"

definition kmalloc :: "'o kalloc \<Rightarrow> u32 \<Rightarrow> (u32 \<times> 'o kalloc) option" where
  "kmalloc k sz =
     (if slab_size (default_slab k) = 0 then None
      else do {
        let num_slabs = slabs_for (default_slab k) sz;
        let num_alloc_slabs = slabs_for (default_slab k) SIZEOF_ALLOCATION;
        (r, l) \<leftarrow> spin_lock_acquire (malloc_lock k);
        let k = k\<lparr>malloc_lock := l\<rparr>;
        let release = (\<lambda>k. k\<lparr>malloc_lock := snd (spin_lock_release (malloc_lock k))\<rparr>);
        if r \<noteq> SUCC then Some (0, k)
        else if ROUND_UP sz (slab_size (default_slab k)) > free_mem_size (default_slab k)
        then palloc (release k)
        else do {
          (ret, m, s) \<leftarrow> slab_alloc (kmem k) (default_slab k) num_slabs;
          let k = k\<lparr>kmem := m, default_slab := s\<rparr>;
          if ret = 0 then Some (0, release k)
          else do {
            (a, m, s) \<leftarrow> slab_alloc (kmem k) (default_slab k) num_alloc_slabs;
            let k = k\<lparr>kmem := m, default_slab := s\<rparr>;
            if a = 0
            then do {
              (_, m, s) \<leftarrow> slab_free (kmem k) (default_slab k) ret num_slabs;
              Some (0, release (k\<lparr>kmem := m, default_slab := s\<rparr>)) }
            else do {
              let m = (kmem k)(a := ret, a + 4 := num_slabs);
              m \<leftarrow> list_insert mem_ops m (allocations k) (a + 8);
              Some (ret, release (k\<lparr>kmem := m\<rparr>)) } } } })"

definition kcalloc :: "'o kalloc \<Rightarrow> u32 \<Rightarrow> u32 \<Rightarrow> (u32 \<times> 'o kalloc) option" where
  "kcalloc k num sz = do {
     (mem, k) \<leftarrow> kmalloc k (num * sz);
     if mem = 0 then Some (0, k)
     else Some (mem, k\<lparr>kmem := for_loop 0 (ROUND_UP (num * sz div SLAB_SIZE) SLAB_SIZE)
       (\<lambda>i m. m(mem + 8 * i := 0, mem + 8 * i + 4 := 0)) (kmem k)\<rparr>) }"

text \<open>
  The search of \<open>kfree\<close>.  \<open>LIST_ENTRY(node, struct allocation, addr)\<close> subtracts the offset of
  \<open>addr\<close>, which is 0, and not that of \<open>node\<close>: \<open>a\<close> is the address of the node itself, so \<open>a->addr\<close>
  is the node's \<open>next\<close> and \<open>a->size\<close> its \<open>prev\<close>.  The result is the \<open>size\<close> of the entry found.
\<close>

partial_function (option) kfree_find :: "pmem \<Rightarrow> u32 \<Rightarrow> u32 \<Rightarrow> u32 option option" where
  "kfree_find m addr node =
     (if list_hasNext mem_ops m node
      then let a = node - 0
           in if m a = addr then Some (Some (m (a + 4))) else kfree_find m addr (m node)
      else Some None)"

definition kfree :: "'o kalloc \<Rightarrow> u32 \<Rightarrow> (err_t \<times> 'o kalloc) option" where
  "kfree k addr = do {
     (r, l) \<leftarrow> spin_lock_acquire (malloc_lock k);
     let k = k\<lparr>malloc_lock := l\<rparr>;
     let release = (\<lambda>k. k\<lparr>malloc_lock := snd (spin_lock_release (malloc_lock k))\<rparr>);
     if r \<noteq> SUCC then Some (- MEM_FREE_FAIL, k)
     else do {
       found \<leftarrow> kfree_find (kmem k) addr (head (allocations k));
       (case found of
          Some sz \<Rightarrow> do {
            (e, m, s) \<leftarrow> slab_free (kmem k) (default_slab k) addr sz;
            Some (if e \<noteq> SUCC then - MEM_FREE_FAIL else SUCC,
                  release (k\<lparr>kmem := m, default_slab := s\<rparr>)) }
        | None \<Rightarrow> pfree (release k) addr) } }"

definition num_allocated :: "'o kalloc \<Rightarrow> u32" where
  "num_allocated k = bitmap_count_range (kmem k) (free_map k) 0 (bits (free_map k))"

definition map_size :: "'o kalloc \<Rightarrow> u32" where
  "map_size k = bits (free_map k)"

section \<open>Pages: lemmas\<close>

definition page_used :: "'o kalloc \<Rightarrow> u32 \<Rightarrow> bool" where
  "page_used k i = bitmap_test (kmem k) (free_map k) i"

definition page_addr :: "nat \<Rightarrow> u32" where
  "page_addr i = start_addr + of_nat i * PG_SIZE"

text \<open>The memory from 4 MB to the end of the address space has \<open>2 ^ 20 - 1024\<close> pages.\<close>

abbreviation MAX_PAGES :: nat where "MAX_PAGES \<equiv> 1047552"

lemma unat_page_addr:
  assumes "i < MAX_PAGES"
  shows "unat (page_addr i) = 4194304 + 4096 * i"
proof -
  have i: "unat (of_nat i * PG_SIZE) = 4096 * i"
    using assms by (simp add: unat_word_ariths unat_of_nat)
  have "unat start_addr + unat (of_nat i * PG_SIZE) < 2 ^ 32" using assms unfolding i by simp
  then have "unat (page_addr i) = unat start_addr + unat (of_nat i * PG_SIZE)"
    unfolding page_addr_def by (rule unat_add_nowrap)
  then show ?thesis unfolding i by simp
qed

lemma page_idx_addr:
  assumes "i < 2 ^ 19"
  shows "page_idx (page_addr i) = of_nat i"
proof -
  have d: "page_addr i - start_addr = of_nat (4096 * i)" by (simp add: page_addr_def)
  have "signed_take_bit 31 (int (4096 * i)) = int (4096 * i)"
    using assms by (intro signed_take_bit_int_eq_self) simp_all
  then have "sint (of_nat (4096 * i) :: u32) = int (4096 * i)"
    by (subst signed_of_nat) simp
  then have "sint (page_addr i - start_addr) = 4096 * int i" unfolding d by simp
  then show ?thesis by (cases "i = 0") (simp_all add: page_idx_def signed_divide_int_def)
qed

lemma unlock_lock [simp]: "lval l = 0 \<Longrightarrow> l\<lparr>lval := 0\<rparr> = l"
  by (cases l) simp

lemma restore_palloc_lock [simp]: "k\<lparr>palloc_lock := palloc_lock k\<rparr> = k"
  by (cases k) simp

lemma restore_malloc_lock [simp]: "k\<lparr>malloc_lock := malloc_lock k\<rparr> = k"
  by (cases k) simp

lemma palloc_mult_unlocked:
  assumes "lval (palloc_lock k) = 0"
  shows "palloc_mult k cnt = (let sz = bits (free_map k);
      idx = bitmap_find_range (kmem k) (free_map k) 0 sz cnt False
    in if idx \<noteq> sz + 1
       then Some (start_addr + idx * PG_SIZE,
              k\<lparr>kmem := snd (bitmap_set_range (kmem k) (free_map k) idx cnt True)\<rparr>)
       else Some (0, k))"
  using assms by (simp add: palloc_mult_def bitmap_get_size_def Let_def split: prod.split)

lemma pfree_mult_unlocked:
  assumes "lval (palloc_lock k) = 0"
  shows "pfree_mult k addr cnt = (let idx = page_idx addr;
      r = bitmap_set_range (kmem k) (free_map k) idx cnt False
    in if idx + cnt < bits (free_map k) \<and> bitmap_count_range (kmem k) (free_map k) idx cnt = cnt
       then Some (if fst r = cnt then SUCC else - MEM_FREE_FAIL, k\<lparr>kmem := snd r\<rparr>)
       else Some (- MEM_FREE_FAIL, k))"
  using assms by (simp add: pfree_mult_def bitmap_get_size_def Let_def split: prod.split)

lemma set_range_used:
  assumes "i + unat cnt < 2 ^ 32"
  shows "bitmap_test (snd (bitmap_set_range m b (of_nat i) cnt v)) b j =
      (if i \<le> unat j \<and> unat j < i + unat cnt then v else bitmap_test m b j)"
    and "0 < i \<Longrightarrow> fst (bitmap_set_range m b (of_nat i) cnt v) \<noteq> cnt"
    and "fst (bitmap_set_range m b 0 cnt v) = cnt"
proof -
  have i: "unat (of_nat i :: u32) = i" using assms by (intro unat_of_nat_u32) simp
  then have e: "unat (of_nat i + cnt) = i + unat cnt"
    using assms unat_add_nowrap [of "of_nat i" cnt] by simp
  show "bitmap_test (snd (bitmap_set_range m b (of_nat i) cnt v)) b j =
      (if i \<le> unat j \<and> unat j < i + unat cnt then v else bitmap_test m b j)"
    by (simp add: bitmap_set_range_def bm.test_range word_le_nat_alt word_less_nat_alt i e)
  show "fst (bitmap_set_range m b 0 cnt v) = cnt"
    by (simp add: bitmap_set_range_def max_def)
  show "fst (bitmap_set_range m b (of_nat i) cnt v) \<noteq> cnt" if "0 < i"
  proof -
    have "of_nat i \<le> of_nat i + cnt" by (simp add: word_le_nat_alt i e)
    then have "fst (bitmap_set_range m b (of_nat i) cnt v) = of_nat i + cnt"
      by (simp add: bitmap_set_range_def max_def)
    moreover have "of_nat i + cnt \<noteq> cnt" using that e by (metis add.left_neutral add_right_cancel less_numeral_extra(3))
    ultimately show ?thesis by simp
  qed
qed

lemma count_all:
  assumes "i + unat cnt < 2 ^ 32" and "bit_run m b True i (unat cnt)"
  shows "bitmap_count_range m b (of_nat i) cnt = cnt"
proof -
  have i: "unat (of_nat i :: u32) = i" using assms by (intro unat_of_nat_u32) simp
  then have e: "unat (of_nat i + cnt) = i + unat cnt"
    using assms unat_add_nowrap [of "of_nat i" cnt] by simp
  have "bitmap_test m b x" if "x \<in> set (indices (of_nat i) (of_nat i + cnt))" for x
  proof -
    have "unat x \<in> {i..<i + unat cnt}" using that by (simp add: set_indices word_le_nat_alt word_less_nat_alt i e)
    then have "bitmap_test m b (of_nat (unat x)) = True" using assms(2) unfolding bit_run_def by blast
    then show ?thesis by simp
  qed
  then have "filter (bitmap_test m b) (indices (of_nat i) (of_nat i + cnt)) = indices (of_nat i) (of_nat i + cnt)"
    by (simp add: filter_id_conv)
  then show ?thesis by (simp add: bitmap_count_range_def for_loop_fold bm.count_fold i e)
qed

text \<open>Where the elements of the map lie, and that setting a range touches nothing below them.\<close>

lemma map_elem_addr:
  assumes "map_p b = start_addr"
  shows "unat (elem_addr b (elem_idx j)) = 4194304 + 4 * (unat j div 32)"
proof -
  have lt: "unat j div 32 < 2 ^ 27" using elem_idx_bound [of j] by (simp add: unat_elem)
  then have four: "unat (4 * elem_idx j) = 4 * (unat j div 32)"
    by (simp add: unat_word_ariths unat_elem)
  have "unat start_addr + unat (4 * elem_idx j) < 2 ^ 32" using four lt by simp
  then have "unat (start_addr + 4 * elem_idx j) = unat start_addr + unat (4 * elem_idx j)"
    by (rule unat_add_nowrap)
  then show ?thesis using four by (simp add: elem_addr_def assms)
qed

lemma set_range_below:
  assumes "map_p b = start_addr" and "unat q < 4194304"
  shows "snd (bitmap_set_range m b start len v) q = m q"
proof -
  have "bitmap_set_val m b i v q = m q" for m i
    using map_elem_addr [OF assms(1), of i] assms(2)
    by (auto simp: bitmap_set_val_def bitmap_set_def bitmap_reset_def Let_def)
  then have "fold (\<lambda>i m. bitmap_set_val m b i v) is m q = m q" for "is"
    by (induction "is" arbitrary: m) simp_all
  then show ?thesis by (simp add: bitmap_set_range_def for_loop_fold)
qed

text \<open>What \<open>palloc_mult\<close> may return: the first run of free pages, or NULL when there is none.\<close>

definition palloc_outcome :: "'o kalloc \<Rightarrow> nat \<Rightarrow> u32 \<times> 'o kalloc \<Rightarrow> bool" where
  "palloc_outcome k cnt res \<longleftrightarrow>
     (\<exists>i m. first_run (kmem k) (free_map k) False 0 (unat (bits (free_map k))) cnt i \<and>
        res = (page_addr i, k\<lparr>kmem := m\<rparr>) \<and>
        (\<forall>j. page_used (k\<lparr>kmem := m\<rparr>) j = (i \<le> unat j \<and> unat j < i + cnt \<or> page_used k j))) \<or>
     ((\<forall>i. i + cnt \<le> unat (bits (free_map k)) \<longrightarrow> \<not> bit_run (kmem k) (free_map k) False i cnt) \<and>
        res = (0, k))"

lemma palloc_search:
  assumes "0 < cnt"
  shows "(\<exists>i. bitmap_find_range m b 0 (bits b) cnt False = of_nat i \<and>
        first_run m b False 0 (unat (bits b)) (unat cnt) i) \<or>
     (bitmap_find_range m b 0 (bits b) cnt False = bits b + 1 \<and>
        (\<forall>i. i + unat cnt \<le> unat (bits b) \<longrightarrow> \<not> bit_run m b False i (unat cnt)))"
  using find_range_loop_spec [of 0 0 0 "bits b" cnt m b False] assms
  by (simp add: bitmap_find_range_def bit_run_def word_less_nat_alt)

lemma palloc_mult_result:
  assumes "lval (palloc_lock k) = 0" and "0 < cnt" and "unat (bits (free_map k)) \<le> MAX_PAGES"
  shows "\<exists>res. palloc_mult k cnt = Some res \<and> palloc_outcome k (unat cnt) res"
proof -
  let ?b = "free_map k" and ?m = "kmem k"
  let ?idx = "bitmap_find_range ?m ?b 0 (bits ?b) cnt False"
  note unl = palloc_mult_unlocked [OF assms(1), of cnt, unfolded Let_def]
  show ?thesis
    using palloc_search [OF assms(2), of ?m ?b]
  proof (elim disjE exE conjE)
    fix i assume idx: "?idx = of_nat i"
      and run: "first_run ?m ?b False 0 (unat (bits ?b)) (unat cnt) i"
    have le: "i + unat cnt \<le> unat (bits ?b)" using run by (simp add: first_run_def)
    have "unat (bits ?b + 1) = unat (bits ?b) + 1"
      using assms(3) by (subst unat_add_nowrap) simp_all
    moreover have "unat ?idx = i" using idx le assms(3) by (simp add: unat_of_nat)
    ultimately have ne: "?idx \<noteq> bits ?b + 1" using le by auto
    let ?m' = "snd (bitmap_set_range ?m ?b (of_nat i) cnt True)"
    have "page_used (k\<lparr>kmem := ?m'\<rparr>) j = (i \<le> unat j \<and> unat j < i + unat cnt \<or> page_used k j)" for j
      using set_range_used(1) [of i cnt ?m ?b True j] le assms(3) by (auto simp: page_used_def)
    then have "palloc_outcome k (unat cnt) (page_addr i, k\<lparr>kmem := ?m'\<rparr>)"
      using run by (auto simp: palloc_outcome_def)
    moreover have "palloc_mult k cnt = Some (page_addr i, k\<lparr>kmem := ?m'\<rparr>)"
      unfolding unl using ne by (simp add: idx page_addr_def)
    ultimately show ?thesis by blast
  next
    assume "?idx = bits ?b + 1"
      and "\<forall>i. i + unat cnt \<le> unat (bits ?b) \<longrightarrow> \<not> bit_run ?m ?b False i (unat cnt)"
    then show ?thesis unfolding unl by (simp add: palloc_outcome_def)
  qed
qed

lemma palloc_outcome_page:
  assumes "palloc_outcome k cnt (r, k')" and "r \<noteq> 0"
  obtains i m where "r = page_addr i" "k' = k\<lparr>kmem := m\<rparr>" "i + cnt \<le> unat (bits (free_map k))"
    "bit_run (kmem k) (free_map k) False i cnt"
    "\<And>j. page_used k' j = (i \<le> unat j \<and> unat j < i + cnt \<or> page_used k j)"
  using assms by (auto simp: palloc_outcome_def first_run_def)

lemma pfree_mult_run:
  assumes "lval (palloc_lock k) = 0" and "i < 2 ^ 19" and "i + unat cnt < unat (bits (free_map k))"
    and "bit_run (kmem k) (free_map k) True i (unat cnt)"
  shows "\<exists>m. pfree_mult k (page_addr i) cnt =
       Some (if i = 0 then SUCC else - MEM_FREE_FAIL, k\<lparr>kmem := m\<rparr>) \<and>
     (\<forall>j. page_used (k\<lparr>kmem := m\<rparr>) j = (page_used k j \<and> \<not> (i \<le> unat j \<and> unat j < i + unat cnt)))"
proof -
  let ?b = "free_map k" and ?m = "kmem k"
  note unl = pfree_mult_unlocked [OF assms(1), of "page_addr i" cnt, unfolded Let_def page_idx_addr [OF assms(2)]]
  have "i + unat cnt < 4294967296" using assms(3) unat_u32_less [of "bits ?b"] by linarith
  then have lt: "i + unat cnt < 2 ^ 32" by simp
  have i: "unat (of_nat i :: u32) = i" using assms(2) by (intro unat_of_nat_u32) simp
  have "of_nat i + cnt < bits ?b"
    using assms(3) lt i unat_add_nowrap [of "of_nat i" cnt] by (simp add: word_less_nat_alt)
  moreover have "bitmap_count_range ?m ?b (of_nat i) cnt = cnt" using lt assms(4) by (rule count_all)
  moreover have "(fst (bitmap_set_range ?m ?b (of_nat i) cnt False) = cnt) = (i = 0)"
    using set_range_used(2,3) [OF lt, of ?m ?b False] by (cases "i = 0") simp_all
  ultimately have "pfree_mult k (page_addr i) cnt =
      Some (if i = 0 then SUCC else - MEM_FREE_FAIL,
        k\<lparr>kmem := snd (bitmap_set_range ?m ?b (of_nat i) cnt False)\<rparr>)"
    unfolding unl by simp
  moreover have "page_used (k\<lparr>kmem := snd (bitmap_set_range ?m ?b (of_nat i) cnt False)\<rparr>) j =
      (page_used k j \<and> \<not> (i \<le> unat j \<and> unat j < i + unat cnt))" for j
    using set_range_used(1) [OF lt, of ?m ?b False j] by (simp add: page_used_def)
  ultimately show ?thesis by blast
qed

section \<open>Pages: correctness\<close>

text \<open>A page map of 20 pages, with nothing allocated, and an untaken lock.\<close>

definition demo_kalloc :: "unit kalloc" where
  "demo_kalloc = \<lparr>kmem = (\<lambda>_. 0), free_map = \<lparr>map_p = start_addr, bits = 20\<rparr>,
     malloc_lock = \<lparr>lval = 0, owner = None\<rparr>, palloc_lock = \<lparr>lval = 0, owner = None\<rparr>,
     allocations = \<lparr>head = 8192, tail = 8200\<rparr>,
     default_slab = \<lparr>smem = 0, mem_size = 40960, free_mem_size = 0, slab_size = 64, sdata = 0\<rparr>\<rparr>"

text \<open>C13: with its lock free, \<open>palloc_mult\<close> terminates with the lock free again; it returns the
  address of the first run of \<open>cnt\<close> free pages and changes the state only by marking exactly those
  pages as used, or returns NULL and changes nothing when the map holds no such run.\<close>

theorem palloc_mult_first_fit:
  assumes "lval (palloc_lock k) = 0" and "0 < cnt" and "unat (bits (free_map k)) \<le> MAX_PAGES"
  shows "\<exists>res. palloc_mult k cnt = Some res \<and> palloc_outcome k (unat cnt) res"
  by (rule palloc_mult_result [OF assms])

theorem palloc_mult_first_fit_witness:
  "\<exists>res. palloc_mult demo_kalloc 3 = Some res \<and> palloc_outcome demo_kalloc 3 res"
  using palloc_mult_first_fit [of demo_kalloc 3] by (simp add: demo_kalloc_def)

text \<open>two allocations without a free in between never overlap: the second run of pages is
  disjoint from the first, and both lie behind 4 MB without wrapping.\<close>

theorem palloc_mult_disjoint:
  assumes "lval (palloc_lock k) = 0" and "0 < c1" and "0 < c2" and "unat (bits (free_map k)) \<le> MAX_PAGES"
    and "palloc_mult k c1 = Some (r1, k1)" and "r1 \<noteq> 0"
    and "palloc_mult k1 c2 = Some (r2, k2)" and "r2 \<noteq> 0"
  shows "4194304 \<le> unat r1 \<and> 4194304 \<le> unat r2 \<and>
     (unat r1 + 4096 * unat c1 \<le> unat r2 \<or> unat r2 + 4096 * unat c2 \<le> unat r1)"
proof -
  have pos: "0 < unat c1" "0 < unat c2" using assms(2,3) by (simp_all add: word_less_nat_alt)
  have "palloc_outcome k (unat c1) (r1, k1)"
    using palloc_mult_result [OF assms(1,2,4)] assms(5) by auto
  then obtain i m where i: "r1 = page_addr i" "k1 = k\<lparr>kmem := m\<rparr>" "i + unat c1 \<le> unat (bits (free_map k))"
      and used: "\<And>j. page_used k1 j = (i \<le> unat j \<and> unat j < i + unat c1 \<or> page_used k j)"
    by (rule palloc_outcome_page) (use assms(6) in auto)
  have "palloc_outcome k1 (unat c2) (r2, k2)"
    using palloc_mult_result [of k1 c2] assms(1,3,4,7) i(2) by auto
  then obtain i' where i': "r2 = page_addr i'" "i' + unat c2 \<le> unat (bits (free_map k))"
      and free: "bit_run (kmem k1) (free_map k1) False i' (unat c2)"
    by (rule palloc_outcome_page) (use assms(8) i(2) in auto)
  have "\<not> (i \<le> p \<and> p < i + unat c1 \<and> i' \<le> p \<and> p < i' + unat c2)" for p
  proof
    assume p: "i \<le> p \<and> p < i + unat c1 \<and> i' \<le> p \<and> p < i' + unat c2"
    then have "unat (of_nat p :: u32) = p" using i(3) assms(4) by (intro unat_of_nat_u32) simp
    then have "page_used k1 (of_nat p)" using p by (simp add: used)
    moreover have "\<not> page_used k1 (of_nat p)" using free p by (simp add: bit_run_def page_used_def)
    ultimately show False by contradiction
  qed
  from this [of i] this [of i'] have "i + unat c1 \<le> i' \<or> i' + unat c2 \<le> i" using pos by linarith
  moreover have "unat r1 = 4194304 + 4096 * i" "unat r2 = 4194304 + 4096 * i'"
    using i(1,3) i' assms(4) pos by (simp_all add: unat_page_addr)
  ultimately show ?thesis by auto
qed

lemma palloc_demo: "\<exists>k'. palloc_mult demo_kalloc 3 = Some (page_addr 0, k') \<and> k' = demo_kalloc\<lparr>kmem := kmem k'\<rparr>"
proof -
  have "bitmap_find_range (\<lambda>_. 0) \<lparr>map_p = start_addr, bits = 20\<rparr> 0 20 3 False = 0"
    by (simp add: bitmap_find_range_def find_range_loop.simps bitmap_test_def)
  then show ?thesis
    by (simp add: palloc_mult_def bitmap_get_size_def demo_kalloc_def page_addr_def Let_def split: prod.split)
qed

lemma palloc_demo_again:
  assumes "palloc_mult demo_kalloc 3 = Some (page_addr 0, k1)"
  shows "\<exists>k2. palloc_mult k1 2 = Some (page_addr 3, k2)"
proof -
  have m: "k1 = demo_kalloc\<lparr>kmem := snd (bitmap_set_range (\<lambda>_. 0) (free_map demo_kalloc) 0 3 True)\<rparr>"
    using assms palloc_demo palloc_mult_unlocked [of demo_kalloc 3]
    by (auto simp: demo_kalloc_def Let_def page_addr_def bitmap_find_range_def find_range_loop.simps
        bitmap_test_def)
  have t: "bitmap_test (kmem k1) (free_map demo_kalloc) i = (unat i < 3)" if "unat i < 20" for i
    using that set_range_used(1) [of 0 3 "\<lambda>_. 0" "free_map demo_kalloc" True i]
    by (simp add: m bitmap_test_def)
  have "bitmap_find_range (kmem k1) (free_map demo_kalloc) 0 20 2 False = 3"
    by (simp add: bitmap_find_range_def find_range_loop.simps t)
  then show ?thesis
    using palloc_mult_unlocked [of k1 2] by (simp add: m demo_kalloc_def page_addr_def Let_def)
qed

theorem palloc_mult_disjoint_witness:
  "\<exists>k1 k2. palloc_mult demo_kalloc 3 = Some (page_addr 0, k1) \<and> palloc_mult k1 2 = Some (page_addr 3, k2) \<and>
     (unat (page_addr 0) + 12288 \<le> unat (page_addr 3) \<or> unat (page_addr 3) + 8192 \<le> unat (page_addr 0))"
proof -
  obtain k1 where k1: "palloc_mult demo_kalloc 3 = Some (page_addr 0, k1)" using palloc_demo by blast
  obtain k2 where k2: "palloc_mult k1 2 = Some (page_addr 3, k2)" using palloc_demo_again [OF k1] by blast
  have nz: "page_addr 0 \<noteq> 0" "page_addr 3 \<noteq> 0" by (simp_all add: page_addr_def)
  show ?thesis
    using palloc_mult_disjoint [OF _ _ _ _ k1 nz(1) k2 nz(2)] k1 k2 by (auto simp: demo_kalloc_def)
qed

text \<open>\<open>pfree_mult\<close> of a run that \<open>palloc_mult\<close> handed out (below 2 GB above 4 MB, and not reaching
  the last page of the map, which the bound check excludes) gives every page its earlier status
  back; but it reports success only for the very first page of the map, since it compares the end
  index that \<open>bitmap_set_range\<close> returns with the page count.\<close>

theorem palloc_pfree_roundtrip:
  assumes "lval (palloc_lock k) = 0" and "0 < cnt" and "unat (bits (free_map k)) \<le> MAX_PAGES"
    and "palloc_mult k cnt = Some (r, k1)" and "r \<noteq> 0"
    and "unat r + 4096 * unat cnt < 4194304 + 4096 * unat (bits (free_map k))" and "unat r < 2 ^ 31 + 4194304"
  shows "\<exists>k2. pfree_mult k1 r cnt = Some (if r = start_addr then SUCC else - MEM_FREE_FAIL, k2) \<and>
     (\<forall>j. page_used k2 j = page_used k j)"
proof -
  have "palloc_outcome k (unat cnt) (r, k1)"
    using palloc_mult_result [OF assms(1-3)] assms(4) by auto
  then obtain i m where i: "r = page_addr i" "k1 = k\<lparr>kmem := m\<rparr>" "i + unat cnt \<le> unat (bits (free_map k))"
      and free: "bit_run (kmem k) (free_map k) False i (unat cnt)"
      and used: "\<And>j. page_used k1 j = (i \<le> unat j \<and> unat j < i + unat cnt \<or> page_used k j)"
    by (rule palloc_outcome_page) (use assms(5) in auto)
  have pos: "0 < unat cnt" using assms(2) by (simp add: word_less_nat_alt)
  then have ur: "unat r = 4194304 + 4096 * i" using i(1,3) assms(3) by (simp add: unat_page_addr)
  have p: "unat (of_nat p :: u32) = p" if "p < i + unat cnt" for p
    using that i(3) assms(3) by (intro unat_of_nat_u32) simp
  have "bit_run (kmem k1) (free_map k1) True i (unat cnt)"
    using used p by (auto simp: bit_run_def page_used_def i(2))
  moreover have "i < 2 ^ 19" using ur assms(7) by simp
  moreover have "i + unat cnt < unat (bits (free_map k))" using ur assms(6) by simp
  ultimately obtain m' where free1: "pfree_mult k1 r cnt =
        Some (if i = 0 then SUCC else - MEM_FREE_FAIL, k1\<lparr>kmem := m'\<rparr>)"
      and used1: "\<And>j. page_used (k1\<lparr>kmem := m'\<rparr>) j = (page_used k1 j \<and> \<not> (i \<le> unat j \<and> unat j < i + unat cnt))"
    using pfree_mult_run [of k1 i cnt] assms(1) i(1,2) by auto
  have "(i = 0) = (r = start_addr)" using ur by (auto simp: i(1) page_addr_def)
  moreover have "page_used (k1\<lparr>kmem := m'\<rparr>) j = page_used k j" for j
  proof -
    have "\<not> page_used k j" if "i \<le> unat j \<and> unat j < i + unat cnt"
    proof -
      have "bitmap_test (kmem k) (free_map k) (of_nat (unat j)) = False"
        using free that unfolding bit_run_def by (auto simp del: of_nat_unat)
      then show ?thesis by (simp add: page_used_def)
    qed
    then show ?thesis unfolding used1 used by blast
  qed
  ultimately show ?thesis using free1 by auto
qed

theorem palloc_pfree_roundtrip_witness:
  "\<exists>k1 k2. palloc_mult demo_kalloc 3 = Some (start_addr, k1) \<and> pfree_mult k1 start_addr 3 = Some (SUCC, k2) \<and>
     (\<forall>j. page_used k2 j = page_used demo_kalloc j)"
proof -
  have p0: "page_addr 0 = start_addr" by (simp add: page_addr_def)
  obtain k1 where k1: "palloc_mult demo_kalloc 3 = Some (start_addr, k1)" using palloc_demo p0 by auto
  show ?thesis
    using palloc_pfree_roundtrip [OF _ _ _ k1] k1 by (auto simp: demo_kalloc_def)
qed

text \<open>the page allocator never hands out its own map: when the map starts at 4 MB and the pages
  that \<open>init_alloc\<close> reserves for it are in use, every address that \<open>palloc_mult\<close> returns lies behind
  every map element.\<close>

theorem palloc_spares_map:
  assumes "lval (palloc_lock k) = 0" and "0 < cnt" and "unat (bits (free_map k)) \<le> MAX_PAGES"
    and "map_p (free_map k) = start_addr"
    and "\<And>j. unat j < unat (bits (free_map k)) div 4096 + 1 \<Longrightarrow> page_used k j"
    and "palloc_mult k cnt = Some (r, k1)" and "r \<noteq> 0"
  shows "\<forall>j<bits (free_map k). unat (elem_addr (free_map k) (elem_idx j)) + 4 \<le> unat r"
proof (intro allI impI)
  fix j assume j: "j < bits (free_map k)"
  have "palloc_outcome k (unat cnt) (r, k1)"
    using palloc_mult_result [OF assms(1-3)] assms(6) by auto
  then obtain i m where i: "r = page_addr i" "i + unat cnt \<le> unat (bits (free_map k))"
      and free: "bit_run (kmem k) (free_map k) False i (unat cnt)"
    by (rule palloc_outcome_page) (use assms(7) in auto)
  have pos: "0 < unat cnt" using assms(2) by (simp add: word_less_nat_alt)
  then have ui: "unat (of_nat i :: u32) = i" using i(2) assms(3) by (intro unat_of_nat_u32) simp
  have "\<not> page_used k (of_nat i)" using free pos by (simp add: bit_run_def page_used_def)
  then have "\<not> i < unat (bits (free_map k)) div 4096 + 1" using assms(5) [of "of_nat i"] ui by auto
  then have ge: "unat (bits (free_map k)) div 4096 + 1 \<le> i" by (simp only: not_less)
  have uj: "unat j < unat (bits (free_map k))" using j by (simp add: word_less_nat_alt)
  have "unat (elem_addr (free_map k) (elem_idx j)) = 4194304 + 4 * (unat j div 32)"
    by (rule map_elem_addr [OF assms(4)])
  moreover have "unat r = 4194304 + 4096 * i" using i assms(3) pos by (simp add: unat_page_addr)
  moreover have "4 * (unat j div 32) + 4 \<le> 4096 * i" using ge uj by linarith
  ultimately show "unat (elem_addr (free_map k) (elem_idx j)) + 4 \<le> unat r" by simp
qed

abbreviation demo_reserved :: "unit kalloc" where
  "demo_reserved \<equiv> demo_kalloc\<lparr>kmem := (\<lambda>p. if p = start_addr then 1 else 0)\<rparr>"

theorem palloc_spares_map_witness:
  "\<exists>r k1. palloc_mult demo_reserved 1 = Some (r, k1) \<and>
     (\<forall>j<20. unat (elem_addr \<lparr>map_p = start_addr, bits = 20\<rparr> (elem_idx j)) + 4 \<le> unat r)"
proof -
  let ?b = "\<lparr>map_p = start_addr, bits = 20\<rparr>" and ?m = "\<lambda>p. if p = start_addr then 1 else 0 :: u32"
  have t: "bitmap_test ?m ?b 0" "\<not> bitmap_test ?m ?b 1"
    by (simp_all add: bitmap_test_def elem_addr_def elem_idx_def bit_mask_def push_bit_eq_mult)
  have find: "bitmap_find_range ?m ?b 0 20 1 False = 1"
    by (simp add: bitmap_find_range_def find_range_loop.simps [of _ _ _ _ _ 0]
        find_range_loop.simps [of _ _ _ _ _ 1] t)
  obtain k1 where k1: "palloc_mult demo_reserved 1 = Some (start_addr + 4096, k1)"
    using palloc_mult_unlocked [of demo_reserved 1] find by (simp add: demo_kalloc_def Let_def)
  have "page_used demo_reserved j" if "unat j < unat (bits (free_map demo_reserved)) div 4096 + 1" for j
  proof -
    have "j = 0" using that by (simp add: demo_kalloc_def unat_eq_zero)
    then show ?thesis using t(1) by (simp add: page_used_def demo_kalloc_def)
  qed
  from palloc_spares_map [OF _ _ _ _ this k1] show ?thesis
    using k1 by (auto simp: demo_kalloc_def)
qed

section \<open>Bytes: correctness\<close>

text \<open>the number of 64-byte slabs that \<open>kmalloc\<close> asks for: 1 below 64 bytes and a whole page (64
  slabs) from 64 bytes to a page, so that every documented request fits; for the first request
  above a page it still is 64, one byte too few.\<close>

theorem kmalloc_slabs_fit:
  assumes "slab_size s = SLAB_SIZE" and "unat sz \<le> 4096"
  shows "slabs_for s sz = (if sz < 64 then 1 else 64) \<and> unat sz \<le> unat (slabs_for s sz * SLAB_SIZE) \<and>
     unat (slabs_for s 4097 * SLAB_SIZE) = 4096"
proof -
  have q: "unat (sz div 64) = unat sz div 64" by (simp add: unat_div)
  have "unat (sz div 64 + 63) = unat sz div 64 + 63" using q assms(2) by (subst unat_add_nowrap) simp_all
  then have r: "unat ((sz div 64 + 63) div 64) = (unat sz div 64 + 63) div 64" by (simp add: unat_div)
  have ru: "ROUND_UP w 64 = (w + 63) div 64 * 64" for w
    by (simp add: ROUND_UP_def add.commute)
  have "slabs_for s sz = (if sz < 64 then 1 else 64)"
  proof (cases "sz < 64")
    case True
    then have "(unat sz div 64 + 63) div 64 = 0" by (simp add: word_less_nat_alt)
    then have "(sz div 64 + 63) div 64 = 0" using r by (simp add: unat_eq_zero)
    then show ?thesis using True assms(1) by (simp add: slabs_for_def Let_def ru)
  next
    case False
    then have "1 \<le> unat sz div 64" by (simp add: word_less_nat_alt)
    moreover have "unat sz div 64 \<le> 64" using assms(2) by simp
    ultimately have "(unat sz div 64 + 63) div 64 = 1" by simp
    then have "(sz div 64 + 63) div 64 = 1" using r by (simp add: word_unat_eq_iff)
    then show ?thesis using False assms(1) by (simp add: slabs_for_def Let_def ru)
  qed
  moreover have "slabs_for s 4097 = 64" using assms(1) by (simp add: slabs_for_def Let_def ru)
  ultimately show ?thesis using assms(2) by (simp add: word_less_nat_alt)
qed

theorem kmalloc_slabs_fit_witness:
  "slabs_for (default_slab demo_kalloc) 100 = 64 \<and> unat (100 :: u32) \<le> unat (slabs_for (default_slab demo_kalloc) 100 * SLAB_SIZE)"
  using kmalloc_slabs_fit [of "default_slab demo_kalloc" 100] by (simp add: demo_kalloc_def)

section \<open>The allocation list\<close>

text \<open>List nodes in raw memory stand at 8-byte boundaries, so that no two of them overlap.\<close>

definition node_addrs :: "u32 set" where
  "node_addrs = {p. p \<noteq> 0 \<and> unat p mod 8 = 0}"

lemma node_fields_apart:
  assumes "p \<in> node_addrs" and "q \<in> node_addrs"
  shows "q \<noteq> p + 4"
proof
  assume "q = p + 4"
  have p: "unat p mod 8 = 0" using assms(1) by (simp add: node_addrs_def)
  then have "unat p + 4 < 4294967296" using unat_u32_less [of p] by presburger
  then have "unat (p + 4) = unat p + 4" using unat_add_nowrap [of p 4] by simp
  then have "unat q mod 8 = 4" using p \<open>q = p + 4\<close> by presburger
  then show False using assms(2) by (simp add: node_addrs_def)
qed

interpretation ms: node_store mem_ops node_addrs
proof
  fix p q m and v :: "u32 option"
  assume pq: "p \<in> node_addrs" "q \<in> node_addrs"
  note apart = node_fields_apart [OF pq] node_fields_apart [OF pq(2,1)]
  show "get_next mem_ops (put_prev mem_ops m p v) q = get_next mem_ops m q"
    and "get_prev mem_ops (put_next mem_ops m p v) q = get_prev mem_ops m q"
    using apart by (auto simp: mem_ops_def)
  assume "pred_option (\<lambda>x. x \<in> node_addrs) v"
  then have "of_ptr (ptr_of v) = v"
    by (cases v) (auto simp: of_ptr_def ptr_of_def node_addrs_def)
  then show "get_next mem_ops (put_next mem_ops m p v) q = (if q = p then v else get_next mem_ops m q)"
    and "get_prev mem_ops (put_prev mem_ops m p v) q = (if q = p then v else get_prev mem_ops m q)"
    by (simp_all add: mem_ops_def)
qed

lemma kfree_find_missing:
  "links mem_ops m (p # qs) \<Longrightarrow> get_next mem_ops m (last (p # qs)) = None \<Longrightarrow> addr \<notin> set qs \<Longrightarrow>
     kfree_find m addr p = Some None"
proof (induction qs arbitrary: p)
  case Nil
  then show ?case by (simp add: kfree_find.simps list_hasNext_def)
next
  case (Cons q qs)
  then have "of_ptr (m p) = Some q" by (simp add: mem_ops_def)
  then have "m p = q" "list_hasNext mem_ops m p"
    by (auto simp: of_ptr_def list_hasNext_def mem_ops_def split: if_splits)
  then have "kfree_find m addr p = kfree_find m addr q"
    using Cons.prems(3) by (subst kfree_find.simps) (auto simp: Let_def)
  also have "\<dots> = Some None" using Cons.prems by (intro Cons.IH) auto
  finally show ?case .
qed

text \<open>\<open>kfree\<close> never finds an allocation by its address: as it reads \<open>next\<close> for \<open>addr\<close>, every
  address that is not itself a node of the allocation list is handed to \<open>pfree\<close>, and the slab
  allocator stays as it is.\<close>

theorem kfree_goes_to_pfree:
  assumes "lval (malloc_lock k) = 0" and "dll mem_ops (kmem k) (allocations k) xs"
    and "addr \<notin> set (spine (allocations k) xs)"
  shows "kfree k addr = pfree k addr"
proof -
  have "kfree_find (kmem k) addr (head (allocations k)) = Some None"
  proof (rule kfree_find_missing [where qs = "xs @ [tail (allocations k)]"])
    show "links mem_ops (kmem k) (head (allocations k) # xs @ [tail (allocations k)])"
      and "get_next mem_ops (kmem k) (last (head (allocations k) # xs @ [tail (allocations k)])) = None"
      using assms(2) by (simp_all add: dll_def spine_def)
    show "addr \<notin> set (xs @ [tail (allocations k)])" using assms(3) by (simp add: spine_def)
  qed
  then show ?thesis using assms(1) by (simp add: kfree_def Let_def)
qed

theorem kfree_goes_to_pfree_witness:
  "kfree (demo_kalloc\<lparr>kmem := (\<lambda>_. 0)(8192 := 8200, 8204 := 8192)\<rparr>) 4195000 =
   pfree (demo_kalloc\<lparr>kmem := (\<lambda>_. 0)(8192 := 8200, 8204 := 8192)\<rparr>) 4195000"
  by (rule kfree_goes_to_pfree [where xs = "[]"])
     (simp_all add: demo_kalloc_def dll_def spine_def mem_ops_def of_ptr_def)

section \<open>Booting\<close>

lemma node_addr_low:
  assumes "p \<in> node_addrs" and "unat p < 4194304"
  shows "unat (p + 4) < 4194304"
proof -
  have "unat p mod 8 = 0" using assms(1) by (simp add: node_addrs_def)
  then have "unat p + 4 < 4194304" using assms(2) by presburger
  moreover from this have "unat (p + 4) = unat p + 4" using unat_add_nowrap [of p 4] by simp
  ultimately show ?thesis by simp
qed

lemma list_init_above:
  assumes "head l \<in> node_addrs" "tail l \<in> node_addrs" "unat (head l) < 4194304" "unat (tail l) < 4194304"
    and "4194304 \<le> unat q"
  shows "list_init mem_ops m l q = m q"
  using node_addr_low [OF assms(1,3)] node_addr_low [OF assms(2,4)] assms(3,4,5)
  by (auto simp: list_init_def mem_ops_def Let_def)

lemma list_kept:
  assumes "dll mem_ops m l []" and "head l \<in> node_addrs" "tail l \<in> node_addrs"
    and "unat (head l) < 4194304" "unat (tail l) < 4194304"
    and "\<And>q. unat q < 4194304 \<Longrightarrow> m' q = m q"
  shows "dll mem_ops m' l []"
proof (rule dll_same [OF assms(1)])
  show "same_on mem_ops (set (spine l [])) m m'"
    using assms(4,5) node_addr_low [OF assms(2,4)] node_addr_low [OF assms(3,5)]
    by (auto simp: same_on_def spine_def mem_ops_def assms(6))
qed

text \<open>With exactly the pages below \<open>i\<close> in use, the first run of ten free pages starts at \<open>i\<close>.\<close>

lemma first_run_behind:
  assumes "\<And>j. unat j < n \<Longrightarrow> bitmap_test m b j = (unat j < i)" and "i + 10 \<le> n" "n < 2 ^ 32"
    and "first_run m b False 0 n 10 i'"
  shows "i' = i"
proof -
  have t: "bitmap_test m b (of_nat j) = (j < i)" if "j < n" for j
    using assms(1) [of "of_nat j"] that assms(3) by (simp add: unat_of_nat_u32)
  have i': "i' + 10 \<le> n" "bit_run m b False i' 10" "\<And>r. r < i' \<Longrightarrow> \<not> bit_run m b False r 10"
    using assms(4) by (auto simp: first_run_def)
  have "bit_run m b False i 10" using t assms(2) by (auto simp: bit_run_def)
  then have "i' \<le> i" using i'(3) [of i] by linarith
  moreover have "\<not> i' < i" using i'(1,2) t [of i'] by (auto simp: bit_run_def dest: bspec [of _ _ i'])
  ultimately show ?thesis by simp
qed

text \<open>The allocation of the ten slab pages, out of a map with exactly the pages below \<open>i\<close> in use.\<close>

lemma palloc_slab_pages:
  assumes lock: "lval (palloc_lock k) = 0" and n: "unat (bits (free_map k)) = n" "i + 10 \<le> n" "n \<le> MAX_PAGES"
    and map: "map_p (free_map k) = start_addr"
    and t: "\<And>j. unat j < n \<Longrightarrow> page_used k j = (unat j < i)"
  shows "\<exists>m. palloc_mult k 10 = Some (page_addr i, k\<lparr>kmem := m\<rparr>) \<and>
     (\<forall>j. unat j < n \<longrightarrow> page_used (k\<lparr>kmem := m\<rparr>) j = (unat j < i + 10)) \<and>
     (\<forall>q. unat q < 4194304 \<longrightarrow> m q = kmem k q)"
proof -
  have t': "\<And>j. unat j < n \<Longrightarrow> bitmap_test (kmem k) (free_map k) j = (unat j < i)"
    using t by (simp add: page_used_def)
  have n32: "n < 2 ^ 32" using n(3) by simp
  obtain res where res: "palloc_mult k 10 = Some res" "palloc_outcome k 10 res"
    using palloc_mult_result [OF lock, of 10] n by auto
  have "bit_run (kmem k) (free_map k) False i 10"
    unfolding bit_run_def
  proof
    fix j assume "j \<in> {i..<i + 10}"
    then have "j < n" "i \<le> j" "unat (of_nat j :: u32) = j" using n(2) n32 by (simp_all add: unat_of_nat_u32)
    then show "bitmap_test (kmem k) (free_map k) (of_nat j) = False" using t' [of "of_nat j"] by simp
  qed
  then obtain i' m where run: "first_run (kmem k) (free_map k) False 0 n 10 i'"
      and m: "res = (page_addr i', k\<lparr>kmem := m\<rparr>)"
      and used: "\<And>j. page_used (k\<lparr>kmem := m\<rparr>) j = (i' \<le> unat j \<and> unat j < i' + 10 \<or> page_used k j)"
    using res(2) n by (auto simp: palloc_outcome_def)
  have i': "i' = i" by (rule first_run_behind [OF t' n(2) n32 run])
  have nz: "page_addr i \<noteq> 0"
    using unat_page_addr [of i] n by (auto dest: arg_cong [of _ _ unat])
  define M where "M = snd (bitmap_set_range (kmem k) (free_map k)
      (bitmap_find_range (kmem k) (free_map k) 0 (bits (free_map k)) 10 False) 10 True)"
  have "\<exists>r. palloc_mult k 10 = Some (r, k\<lparr>kmem := M\<rparr>) \<or> palloc_mult k 10 = Some (0, k)"
    unfolding palloc_mult_unlocked [OF lock, of 10] Let_def M_def by (simp split: if_split)
  then have "k\<lparr>kmem := m\<rparr> = k\<lparr>kmem := M\<rparr>" unfolding res(1) m i' using nz by auto
  from arg_cong [OF this, of kmem] have "m = M" by simp
  then have "m q = kmem k q" if "unat q < 4194304" for q
    using set_range_below [OF map that] by (simp add: M_def)
  moreover have "page_used (k\<lparr>kmem := m\<rparr>) j = (unat j < i + 10)" if "unat j < n" for j
    unfolding used t [OF that] i' by linarith
  ultimately show ?thesis using res(1) unfolding m i' by blast
qed


lemma map_in_reserved:
  fixes x n :: nat
  assumes "x < n"
  shows "4 * (x div 32) < 4096 * (n div 4096 + 1)"
proof -
  have "4 * (x div 32) \<le> x" by simp
  also have "x < 4096 * (n div 4096) + 4096"
    using assms mod_less_divisor [of 4096 n] mult_div_mod_eq [of 4096 n] by linarith
  finally show ?thesis by simp
qed

lemma slab_on_pages:
  assumes "i + 10 < MAX_PAGES"
  shows "\<exists>m' s'. slab_init m s (page_addr i) (10 * PG_SIZE) SLAB_SIZE = Some (SUCC, m', s') \<and>
     sdata s' = page_addr i \<and> slab_size s' = SLAB_SIZE \<and> total_num_slabs s' = 5120 \<and>
     set_up m' (page_addr i) 0 (page_addr i + 5120) 64 560 \<and>
     (\<forall>q. unat q < 4194304 + 4096 * i \<longrightarrow> m' q = m q)"
proof -
  have up: "unat (page_addr i) = 4194304 + 4096 * i" using assms by (intro unat_page_addr) simp
  then have us: "unat (page_addr i + 5120) = 4194304 + 4096 * i + 5120"
    using assms unat_add_nowrap [of "page_addr i" 5120] by simp
  have ue: "unat (page_addr i + 40960) = 4194304 + 4096 * i + 40960"
    using assms up unat_add_nowrap [of "page_addr i" 40960] by simp
  have cnt: "slab_count (unat (page_addr i + 5120)) (unat (page_addr i) + 40960) 64 = 560"
    unfolding us up slab_count_def by simp
  have nz: "page_addr i \<noteq> 0" using up by (auto dest: arg_cong [of _ _ unat])
  have bound: "unat (page_addr i) + unat (40960 :: u32) + unat (64 :: u32) \<le> 2 ^ 32"
    using up assms by simp
  obtain m' where m': "slab_init m s (page_addr i) 40960 64 = Some (SUCC, m',
        \<lparr>smem = page_addr i, mem_size = 40960, free_mem_size = 35840, slab_size = 64, sdata = page_addr i\<rparr>)"
      "init_loop m (page_addr i) (page_addr i + 5120) (page_addr i + 40960) 64 = Some m'"
      "set_up m' (page_addr i) 0 (page_addr i + 5120) 64 560"
    using slab_init_result [of 64 "page_addr i" 40960 m s, OF _ nz bound] cnt by auto
  have "m' q = m q" if "unat q < 4194304 + 4096 * i" for q
  proof (rule init_loop_below [where d = "page_addr i" and k = 0 and ssz = 64 and m = m])
    show "unat (page_addr i) + 8 * (0 + slab_count (unat (page_addr i + 5120))
        (unat (page_addr i + 40960)) (unat (64 :: u32))) \<le> 2 ^ 32"
      using cnt assms unfolding ue up by simp
  qed (use m'(2) that up ue assms in simp_all)
  with m' show ?thesis by (auto simp: total_num_slabs_def)
qed

lemma init_alloc_result:
  defines "pages mu \<equiv> unat ((mu * 1024 - 4194304) div PG_SIZE)"
  assumes lock: "lval (palloc_lock k) = 0"
    and zero: "\<And>p. 4194304 \<le> unat p \<Longrightarrow> kmem k p = 0"
    and room: "pages mu div 4096 + 11 \<le> pages mu" "pages mu < MAX_PAGES"
    and globals: "head (allocations k) \<in> node_addrs" "tail (allocations k) \<in> node_addrs"
      "head (allocations k) \<noteq> tail (allocations k)"
      "unat (head (allocations k)) < 4194304" "unat (tail (allocations k)) < 4194304"
  shows "\<exists>k' i. init_alloc k mu = Some k' \<and> i = pages mu div 4096 + 1 \<and>
     lval (palloc_lock k') = 0 \<and> lval (malloc_lock k') = 0 \<and>
     free_map k' = \<lparr>map_p = start_addr, bits = of_nat (pages mu)\<rparr> \<and>
     (\<forall>j. unat j < pages mu \<longrightarrow> page_used k' j = (unat j < i + 10)) \<and>
     dll mem_ops (kmem k') (allocations k') [] \<and>
     sdata (default_slab k') = page_addr i \<and> slab_size (default_slab k') = SLAB_SIZE \<and>
     set_up (kmem k') (page_addr i) 0 (page_addr i + 5120) 64 560 \<and>
     total_num_slabs (default_slab k') = 5120 \<and> allocations k' = allocations k"
proof -
  let ?W = "(mu * 1024 - 4194304) div PG_SIZE" and ?n = "pages mu" and ?l = "allocations k"
  let ?i = "?n div 4096 + 1"
  define b where "b = \<lparr>map_p = start_addr, bits = ?W\<rparr>"
  have uw: "unat ?W = ?n" by (simp add: pages_def)
  have ur: "unat (?W div PG_SIZE + 1) = ?i"
  proof -
    have "unat (?W div PG_SIZE) = ?n div 4096" using uw by (simp add: unat_div)
    then show ?thesis using room(2) by (subst unat_add_nowrap) simp_all
  qed
  define m1 where "m1 = snd (bitmap_set_range (kmem k) b 0 (?W div PG_SIZE + 1) True)"
  define m2 where "m2 = list_init mem_ops m1 ?l"
  have elem: "unat (elem_addr b (elem_idx j)) = 4194304 + 4 * (unat j div 32)" for j
    by (rule map_elem_addr) (simp add: b_def)
  have m2: "bitmap_test m2 b j = (unat j < ?i)" for j
  proof -
    have "bitmap_test m2 b j = bitmap_test m1 b j"
      unfolding m2_def by (rule test_cong) (simp add: list_init_above globals elem)
    also have "\<dots> = (unat j < ?i \<or> bitmap_test (kmem k) b j)"
      using set_range_used(1) [of 0 "?W div PG_SIZE + 1" "kmem k" b True j] ur
        unat_u32_less [of "?W div PG_SIZE + 1"] by (auto simp: m1_def)
    also have "\<dots> = (unat j < ?i)" using zero elem by (simp add: test_bit)
    finally show ?thesis .
  qed
  define k2 where "k2 = k\<lparr>free_map := b, kmem := m2\<rparr>"
  obtain m3 where m3: "palloc_mult k2 10 = Some (page_addr ?i, k2\<lparr>kmem := m3\<rparr>)"
      and used: "\<And>j. unat j < ?n \<Longrightarrow> page_used (k2\<lparr>kmem := m3\<rparr>) j = (unat j < ?i + 10)"
      and low: "\<And>q. unat q < 4194304 \<Longrightarrow> m3 q = m2 q"
    using palloc_slab_pages [of k2 ?n ?i] lock room m2 uw
    by (auto simp: k2_def b_def page_used_def)
  obtain m4 s4 where s4: "slab_init m3 (default_slab k) (page_addr ?i) (10 * PG_SIZE) SLAB_SIZE = Some (SUCC, m4, s4)"
      "sdata s4 = page_addr ?i" "slab_size s4 = SLAB_SIZE" "total_num_slabs s4 = 5120"
      "set_up m4 (page_addr ?i) 0 (page_addr ?i + 5120) 64 560"
      and m4: "\<And>q. unat q < 4194304 + 4096 * ?i \<Longrightarrow> m4 q = m3 q"
    using slab_on_pages [of ?i m3 "default_slab k"] room by auto
  let ?k' = "k2\<lparr>kmem := m4, default_slab := s4, malloc_lock := (malloc_lock k)\<lparr>lval := 0, owner := None\<rparr>,
     palloc_lock := (palloc_lock k)\<lparr>lval := 0, owner := None\<rparr>\<rparr>"
  have init: "init_alloc k mu = Some ?k'"
    using m3 s4(1) unfolding k2_def m2_def m1_def b_def
    by (simp add: init_alloc_def bitmap_init_s_def spin_lock_init_def Let_def split_beta)
  have "page_used ?k' j = (unat j < ?i + 10)" if "unat j < ?n" for j
  proof -
    have "4 * (unat j div 32) < 4096 * ?i" using that by (rule map_in_reserved)
    then have "bitmap_test m4 b j = bitmap_test m3 b j" by (intro test_cong m4) (simp add: elem)
    then show ?thesis using used [OF that] by (simp add: page_used_def k2_def)
  qed
  moreover have "dll mem_ops m4 ?l []"
  proof (rule list_kept [of m2])
    show "dll mem_ops m2 ?l []" unfolding m2_def using globals by (intro ms.init_dll) simp_all
    show "m4 q = m2 q" if "unat q < 4194304" for q using m4 [of q] low that by simp
  qed (use globals in simp_all)
  moreover have "bits b = of_nat ?n" unfolding b_def by (simp add: pages_def)
  then have "b = \<lparr>map_p = start_addr, bits = of_nat ?n\<rparr>" by (simp add: b_def)
  ultimately show ?thesis using init s4 by (auto simp: k2_def)
qed

text \<open>C10: on a machine whose memory from 4 MB on reads as zero, with room for the map and the slabs,
  \<open>init_alloc\<close> terminates with both locks free, the pages of the map and the ten pages of the slab
  allocator in use and no other, an empty allocation list, and a table of 560 free descriptors for
  the 64-byte slabs of those ten pages (\<open>total_num_slabs\<close> takes it to hold 5120).\<close>

theorem init_alloc_ready:
  defines "pages mu \<equiv> unat ((mu * 1024 - 4194304) div PG_SIZE)"
  assumes lock: "lval (palloc_lock k) = 0"
    and zero: "\<And>p. 4194304 \<le> unat p \<Longrightarrow> kmem k p = 0"
    and room: "pages mu div 4096 + 11 \<le> pages mu" "pages mu < MAX_PAGES"
    and globals: "head (allocations k) \<in> node_addrs" "tail (allocations k) \<in> node_addrs"
      "head (allocations k) \<noteq> tail (allocations k)"
      "unat (head (allocations k)) < 4194304" "unat (tail (allocations k)) < 4194304"
  shows "\<exists>k' i. init_alloc k mu = Some k' \<and> i = pages mu div 4096 + 1 \<and>
     lval (palloc_lock k') = 0 \<and> lval (malloc_lock k') = 0 \<and>
     free_map k' = \<lparr>map_p = start_addr, bits = of_nat (pages mu)\<rparr> \<and>
     (\<forall>j. unat j < pages mu \<longrightarrow> page_used k' j = (unat j < i + 10)) \<and>
     dll mem_ops (kmem k') (allocations k') [] \<and>
     sdata (default_slab k') = page_addr i \<and> slab_size (default_slab k') = SLAB_SIZE \<and>
     set_up (kmem k') (page_addr i) 0 (page_addr i + 5120) 64 560 \<and>
     total_num_slabs (default_slab k') = 5120"
  using init_alloc_result [OF assms(2-) [unfolded pages_def]] unfolding pages_def by blast

theorem init_alloc_ready_witness:
  "\<exists>k'. init_alloc demo_kalloc 15360 = Some k' \<and> lval (palloc_lock k') = 0 \<and>
     (\<forall>j. unat j < 2816 \<longrightarrow> page_used k' j = (unat j < 11))"
proof -
  have n: "unat (((15360 :: u32) * 1024 - 4194304) div PG_SIZE) = 2816" by simp
  show ?thesis
    using init_alloc_ready [of demo_kalloc 15360, unfolded n]
    by (auto simp: demo_kalloc_def node_addrs_def)
qed

end
