(* ===== verification/Tasks.thy ===== *)
theory Tasks
  imports Lists Streams Kalloc
begin

text \<open>
  kernel/thread.c and the parts of kernel/proc.c that it calls.  A thread is known by the address
  of its page, where its \<open>struct thread\<close> stands; a process by the address of its page.  Without
  paging every address is readable, so \<open>thr\<close> and \<open>prc\<close> are total: what a \<open>struct thread\<close> (or
  \<open>struct process\<close>) at that address holds, arbitrary where nothing was written.  The list nodes
  embedded in these structs, and the sentinels of the lists, are the references \<open>nref\<close> into one
  heap of list nodes; NULL threads are address 0.

  \<open>switch_threads\<close> (assembly) saves the context of the caller and continues the next thread where
  it stopped, and both that thread's own call of \<open>schedule\<close> and \<open>first_switch_entry\<close> of a new
  thread go on with \<open>finish_schedule\<close>.  So a call that switches ends, in the model, in the state
  behind the \<open>finish_schedule\<close> of the next thread, and its result is \<open>Switched\<close>.  Where the next thread
  goes on from there is its saved \<open>eip\<close>: in \<open>first_switch_entry\<close> if it never ran, and otherwise in its own
  call of \<open>schedule\<close>, behind which it returns into the interrupt handler if a timer interrupt made that
  call (\<open>resume\<close> in the theory Isr), or into the caller whose later steps the operations describe.  A call that comes back without a switch
  gives \<open>Returns\<close>.
\<close>

section \<open>Data\<close>

datatype thread_states =
  THREAD_READY | THREAD_RUNNING | THREAD_BLOCKED | THREAD_DYING | THREAD_TERMINATED

datatype nref =
  ReadyHead | ReadyTail | BlockedHead | BlockedTail | DyingHead | DyingTail | AllHead | AllTail
| TNode u32 | TWaitNode u32 | TWaitersHead u32 | TWaitersTail u32
| PNode u32 | PWaitersHead u32 | PWaitersTail u32 | SWaitersHead u32 | SWaitersTail u32

text \<open>The frame that a new thread starts on: \<open>thread_func_frame\<close>, \<open>tail_frame\<close> and \<open>stack_frame\<close>.\<close>

datatype code_ptr = FIRST_SWITCH_ENTRY | THREAD_EXECUTE | IN_SCHEDULE

record start_frame =
  f_function :: u32
  f_aux :: u32
  tail_eip :: code_ptr
  stack_eip :: code_ptr
  stack_ebp :: u32

record thread =
  esp :: u32
  tid :: u32
  t_pid :: u32
  priority :: u8
  ticks :: u32
  t_name :: string
  t_state :: thread_states
  child_num :: u32
  wait_code :: int
  magic :: u32
  t_frame :: start_frame
  t_proc :: u32

datatype stream_ref = StdIn u32 | StdOut u32 | StdErr u32

record process =
  pid :: u32
  p_name :: string
  active_thread :: u32
  threads :: "u32 list"
  num_live_threads :: u8
  p_stdin :: stream_ref
  p_stdout :: stream_ref
  p_stderr :: stream_ref
  std_in :: std_stream
  std_out :: std_stream
  std_err :: std_stream
  p_wait_code :: int
  p_magic :: u32

record kstate =
  nodes :: "nref heap"
  thr :: "u32 \<Rightarrow> thread"
  prc :: "u32 \<Rightarrow> process"
  running :: u32
  idle_t :: u32
  tids :: "bool list"
  thread_ticks :: u8
  interrupts :: bool
  current_p :: u32
  active_p :: u32
  pid_count :: u32
  kmm :: "u32 kalloc"

abbreviation MAX_TID :: nat where "MAX_TID \<equiv> 512"
abbreviation MAX_NUM_THREADS :: u32 where "MAX_NUM_THREADS \<equiv> 8"
abbreviation STACK_SIZE :: u32 where "STACK_SIZE \<equiv> 4096"
abbreviation MAX_THREAD_TICKS :: u8 where "MAX_THREAD_TICKS \<equiv> 8"

definition ready_threads :: "nref list_t" where
  "ready_threads = \<lparr>head = ReadyHead, tail = ReadyTail\<rparr>"

definition blocked_threads :: "nref list_t" where
  "blocked_threads = \<lparr>head = BlockedHead, tail = BlockedTail\<rparr>"

definition dying_threads :: "nref list_t" where
  "dying_threads = \<lparr>head = DyingHead, tail = DyingTail\<rparr>"

definition all_procs :: "nref list_t" where
  "all_procs = \<lparr>head = AllHead, tail = AllTail\<rparr>"

definition thread_waiters :: "u32 \<Rightarrow> nref list_t" where
  "thread_waiters t = \<lparr>head = TWaitersHead t, tail = TWaitersTail t\<rparr>"

definition proc_waiters :: "u32 \<Rightarrow> nref list_t" where
  "proc_waiters p = \<lparr>head = PWaitersHead p, tail = PWaitersTail p\<rparr>"

text \<open>\<open>LIST_ENTRY(node, struct thread, node)\<close> and \<open>LIST_ENTRY(node, struct thread, wait_node)\<close>; None
  where the node is not such a member, so that the computed address is that of no thread.\<close>

fun thread_of_node :: "nref \<Rightarrow> u32 option" where
  "thread_of_node (TNode t) = Some t"
| "thread_of_node _ = None"

fun thread_of_wait_node :: "nref \<Rightarrow> u32 option" where
  "thread_of_wait_node (TWaitNode t) = Some t"
| "thread_of_wait_node _ = None"

text \<open>How a call that may give up the processor ends.\<close>

datatype 'a ctl = Returns 'a | Switched

section \<open>Access to the state\<close>

text \<open>\<open>get_running\<close> rounds the stack pointer down to the start of the thread's page.\<close>

definition get_running :: "u32 \<Rightarrow> u32" where
  "get_running sp = sp AND NOT (STACK_SIZE - 1)"

definition get_thread_proc :: "kstate \<Rightarrow> u32 \<Rightarrow> u32" where
  "get_thread_proc s t = t_proc (thr s t)"

definition THREAD_CUR :: "kstate \<Rightarrow> u32" where "THREAD_CUR s = running s"
definition PROC_CUR :: "kstate \<Rightarrow> u32" where "PROC_CUR s = t_proc (thr s (running s))"

definition disable_interrupts :: "kstate \<Rightarrow> kstate" where
  "disable_interrupts s = s\<lparr>interrupts := False\<rparr>"

definition enable_interrupts :: "kstate \<Rightarrow> kstate" where
  "enable_interrupts s = s\<lparr>interrupts := True\<rparr>"

definition upd_thr :: "u32 \<Rightarrow> (thread \<Rightarrow> thread) \<Rightarrow> kstate \<Rightarrow> kstate" where
  "upd_thr t f s = s\<lparr>thr := (thr s)(t := f (thr s t))\<rparr>"

definition upd_prc :: "u32 \<Rightarrow> (process \<Rightarrow> process) \<Rightarrow> kstate \<Rightarrow> kstate" where
  "upd_prc p f s = s\<lparr>prc := (prc s)(p := f (prc s p))\<rparr>"

definition set_state :: "u32 \<Rightarrow> thread_states \<Rightarrow> kstate \<Rightarrow> kstate" where
  "set_state t st = upd_thr t (\<lambda>r. r\<lparr>t_state := st\<rparr>)"

definition k_insert :: "kstate \<Rightarrow> nref list_t \<Rightarrow> nref \<Rightarrow> kstate option" where
  "k_insert s l n = do { h \<leftarrow> list_insert heap_ops (nodes s) l n; Some (s\<lparr>nodes := h\<rparr>) }"

definition k_insert_end :: "kstate \<Rightarrow> nref list_t \<Rightarrow> nref \<Rightarrow> kstate option" where
  "k_insert_end s l n = do { h \<leftarrow> list_insert_end heap_ops (nodes s) (tail l) n; Some (s\<lparr>nodes := h\<rparr>) }"

definition k_delete :: "kstate \<Rightarrow> nref list_t \<Rightarrow> nref \<Rightarrow> (nref option \<times> kstate) option" where
  "k_delete s l n = do { (r, h) \<leftarrow> list_delete heap_ops (nodes s) l n; Some (r, s\<lparr>nodes := h\<rparr>) }"

definition k_pop :: "kstate \<Rightarrow> nref list_t \<Rightarrow> (nref option \<times> kstate) option" where
  "k_pop s l = do { (r, h) \<leftarrow> list_pop heap_ops (nodes s) l; Some (r, s\<lparr>nodes := h\<rparr>) }"

definition k_init :: "kstate \<Rightarrow> nref list_t \<Rightarrow> kstate" where
  "k_init s l = s\<lparr>nodes := list_init heap_ops (nodes s) l\<rparr>"

section \<open>Waking threads\<close>

definition thread_unblock :: "kstate \<Rightarrow> u32 \<Rightarrow> kstate option" where
  "thread_unblock s t =
     (let s = disable_interrupts s in
      if t_state (thr s t) \<noteq> THREAD_BLOCKED then Some (enable_interrupts s)
      else do {
        (node, s) \<leftarrow> k_delete s blocked_threads (TNode t);
        (case node of
           None \<Rightarrow> Some (enable_interrupts s)
         | Some node \<Rightarrow> do {
             let s = set_state t THREAD_READY s;
             s \<leftarrow> k_insert s ready_threads node;
             Some (enable_interrupts s) }) })"

text \<open>The loop that \<open>thread_notify\<close> and \<open>proc_notify\<close> have in common; it ends when the list is empty.\<close>

partial_function (option) notify_loop ::
    "nref list_t \<Rightarrow> bool \<Rightarrow> int \<Rightarrow> nref \<Rightarrow> kstate \<Rightarrow> kstate option" where
  "notify_loop waiters all ret node s = do {
     wait_t \<leftarrow> thread_of_wait_node node;
     s \<leftarrow> thread_unblock (upd_thr wait_t (\<lambda>r. r\<lparr>wait_code := ret\<rparr>) s) wait_t;
     (node', s) \<leftarrow> k_pop s waiters;
     (case node' of
        Some n \<Rightarrow> if all then notify_loop waiters all ret n s else Some s
      | None \<Rightarrow> Some s) }"

definition notify_waiters :: "nref list_t \<Rightarrow> bool \<Rightarrow> int \<Rightarrow> kstate \<Rightarrow> (int \<times> kstate) option" where
  "notify_waiters waiters all ret s = do {
     (node, s) \<leftarrow> k_pop s waiters;
     (case node of
        None \<Rightarrow> Some (-1, s)
      | Some n \<Rightarrow> do { s \<leftarrow> notify_loop waiters all ret n s; Some (0, s) }) }"

definition thread_notify :: "kstate \<Rightarrow> u32 \<Rightarrow> bool \<Rightarrow> int \<Rightarrow> (int \<times> kstate) option" where
  "thread_notify s t all ret = notify_waiters (thread_waiters t) all ret s"

definition proc_notify :: "kstate \<Rightarrow> u32 \<Rightarrow> bool \<Rightarrow> int \<Rightarrow> (int \<times> kstate) option" where
  "proc_notify s p all ret = notify_waiters (proc_waiters p) all ret s"

section \<open>Cleaning up\<close>

definition proc_cleanup :: "kstate \<Rightarrow> u32 \<Rightarrow> kstate option" where
  "proc_cleanup s p =
     (if p = 0 \<or> num_live_threads (prc s p) \<noteq> 0 then Some s
      else do {
        (_, s) \<leftarrow> proc_notify s p True 0;
        (_, s) \<leftarrow> k_delete s all_procs (PNode p);
        Some s })"

definition k_pfree :: "kstate \<Rightarrow> u32 \<Rightarrow> kstate option" where
  "k_pfree s a = do { (_, k) \<leftarrow> pfree (kmm s) a; Some (s\<lparr>kmm := k\<rparr>) }"

definition thread_cleanup :: "kstate \<Rightarrow> u32 \<Rightarrow> (int \<times> kstate) option" where
  "thread_cleanup s t =
     (if t = 0 \<or> t_state (thr s t) \<noteq> THREAD_DYING then Some (-1, s)
      else do {
        let p = get_thread_proc s t;
        ts \<leftarrow> arr_put (threads (prc s p)) (child_num (thr s t)) 0;
        let s = upd_prc p (\<lambda>r. r\<lparr>threads := ts, num_live_threads := num_live_threads r - 1\<rparr>) s;
        s \<leftarrow> (if num_live_threads (prc s p) = 0
               then do { s \<leftarrow> proc_cleanup s p; k_pfree s p } else Some s);
        (_, k) \<leftarrow> pfree_mult (kmm s) t (STACK_SIZE div PG_SIZE);
        Some (0, s\<lparr>kmm := k\<rparr>) })"

section \<open>Scheduling\<close>

definition proc_set_active_thread :: "kstate \<Rightarrow> u32 \<Rightarrow> u8 \<Rightarrow> kstate option" where
  "proc_set_active_thread s p num = do {
     t \<leftarrow> arr_get (threads (prc s p)) (ucast num);
     Some (upd_prc p (\<lambda>r. r\<lparr>active_thread := t\<rparr>) s) }"

definition finish_schedule :: "kstate \<Rightarrow> kstate option" where
  "finish_schedule s = do {
     let cur = THREAD_CUR s;
     let s = set_state cur THREAD_RUNNING s;
     s \<leftarrow> proc_set_active_thread s (PROC_CUR s) (ucast (child_num (thr s cur)));
     s \<leftarrow> (if \<not> list_isEmpty heap_ops (nodes s) dying_threads
            then do {
              (n, s) \<leftarrow> k_pop (disable_interrupts s) dying_threads;
              n \<leftarrow> n;
              d \<leftarrow> thread_of_node n;
              (_, s) \<leftarrow> thread_cleanup s d;
              Some s }
            else Some s);
     Some (enable_interrupts s) }"

text \<open>The frame that is saved for the running thread returns into its call of \<open>schedule\<close>.  The saved
  registers and the stack pointer do not appear in the model.\<close>

definition switch_threads :: "kstate \<Rightarrow> u32 \<Rightarrow> kstate" where
  "switch_threads s next_thread =
     (upd_thr (THREAD_CUR s) (\<lambda>r. r\<lparr>t_frame := (t_frame r)\<lparr>stack_eip := IN_SCHEDULE\<rparr>\<rparr>) s)\<lparr>running := next_thread\<rparr>"

definition schedule :: "kstate \<Rightarrow> (unit ctl \<times> kstate) option" where
  "schedule s = do {
     let s = disable_interrupts s;
     n \<leftarrow> list_size heap_ops (nodes s) ready_threads;
     (next, s) \<leftarrow> (if n = 1 then Some (get_next heap_ops (nodes s) (head ready_threads), s)
                   else k_pop s ready_threads);
     let current = THREAD_CUR s;
     (next_thread, s) \<leftarrow>
       (case next of
          None \<Rightarrow> do { s' \<leftarrow> thread_unblock s (idle_t s); Some (idle_t s, s') }
        | Some nd \<Rightarrow> do { t \<leftarrow> thread_of_node nd; Some (t, s) });
     let s = (if t_state (thr s current) = THREAD_RUNNING then set_state current THREAD_READY s else s);
     s \<leftarrow> (if t_state (thr s current) = THREAD_DYING
            then k_insert s dying_threads (TNode current) else Some s);
     s \<leftarrow> (if t_state (thr s current) = THREAD_READY
            then k_insert_end s ready_threads (TNode current) else Some s);
     s \<leftarrow> (if current = next_thread \<and> t_state (thr s current) = THREAD_DYING
            then finish_schedule s else Some s);
     if current = next_thread \<or> t_state (thr s next_thread) \<noteq> THREAD_READY
     then Some (Returns (), enable_interrupts (set_state current THREAD_RUNNING s))
     else do {
       s \<leftarrow> finish_schedule (switch_threads s next_thread);
       Some (Switched, s) } }"

definition thread_yield :: "kstate \<Rightarrow> (unit ctl \<times> kstate) option" where
  "thread_yield s = schedule s"

definition timer_interrupt_handler :: "kstate \<Rightarrow> (unit ctl \<times> kstate) option" where
  "timer_interrupt_handler s =
     (let s = s\<lparr>thread_ticks := thread_ticks s + 1\<rparr>;
          s = upd_thr (THREAD_CUR s) (\<lambda>r. r\<lparr>ticks := ticks r + 1\<rparr>) s
      in if thread_ticks s mod MAX_THREAD_TICKS = 0 then schedule s else Some (Returns (), s))"

section \<open>Thread state changes\<close>

definition thread_block :: "kstate \<Rightarrow> (unit ctl \<times> kstate) option" where
  "thread_block s = do {
     (node, s) \<leftarrow> k_delete (disable_interrupts s) ready_threads (TNode (THREAD_CUR s));
     (case node of
        None \<Rightarrow> Some (Returns (), enable_interrupts s)
      | Some nd \<Rightarrow>
          if t_state (thr s (THREAD_CUR s)) \<noteq> THREAD_RUNNING then Some (Returns (), enable_interrupts s)
          else do {
            s \<leftarrow> k_insert (set_state (THREAD_CUR s) THREAD_BLOCKED s) blocked_threads nd;
            schedule s }) }"

text \<open>\<open>thread_exit\<close> stores \<open>THREAD_KILL_SUCC\<close> (0) through a non-NULL \<open>ret\<close>: the first result.\<close>

definition thread_exit :: "kstate \<Rightarrow> bool \<Rightarrow> (int option \<times> unit ctl \<times> kstate) option" where
  "thread_exit s has_ret = do {
     let t = THREAD_CUR s;
     (_, s) \<leftarrow> k_delete (disable_interrupts s) ready_threads (TNode t);
     let s = set_state t THREAD_DYING s;
     (_, s) \<leftarrow> thread_notify s (THREAD_CUR s) True 0;
     (c, s) \<leftarrow> thread_yield s;
     Some (if has_ret then Some 0 else None, c, s) }"

definition thread_wait :: "kstate \<Rightarrow> u32 \<Rightarrow> (int ctl \<times> kstate) option" where
  "thread_wait s t =
     (if t = 0 then Some (Returns (- THREAD_FAILURE), s)
      else do {
        s \<leftarrow> k_insert s (thread_waiters t) (TWaitNode (THREAD_CUR s));
        (c, s) \<leftarrow> thread_block s;
        (case c of
           Returns _ \<Rightarrow> Some (Returns (wait_code (thr s (THREAD_CUR s))), s)
         | Switched \<Rightarrow> Some (Switched, s)) })"

text \<open>The two identical branches of \<open>thread_kill\<close> for a ready and for a blocked thread: the result
  tells whether the kill goes on.\<close>

definition kill_from :: "kstate \<Rightarrow> thread_states \<Rightarrow> nref list_t \<Rightarrow> u32 \<Rightarrow> (bool \<times> kstate) option" where
  "kill_from s st l t =
     (if t_state (thr s t) = st
      then do {
        (node, s) \<leftarrow> k_delete (set_state t THREAD_DYING s) l (TNode t);
        (case node of None \<Rightarrow> Some (False, enable_interrupts s) | Some _ \<Rightarrow> Some (True, s)) }
      else Some (True, s))"

definition thread_kill :: "kstate \<Rightarrow> u32 \<Rightarrow> (int ctl \<times> kstate) option" where
  "thread_kill s t =
     (if t = 0 then Some (Returns (-1), s)
      else do {
        let s = disable_interrupts s;
        (c, s) \<leftarrow> (if t_state (thr s t) = THREAD_RUNNING
                   then do { (_, c, s) \<leftarrow> thread_exit s False; Some (c, s) }
                   else Some (Returns (), s));
        (case c of
           Switched \<Rightarrow> Some (Switched, s)
         | Returns _ \<Rightarrow> do {
             (go, s) \<leftarrow> kill_from s THREAD_READY ready_threads t;
             if \<not> go then Some (Returns (-1), s)
             else do {
               (go, s) \<leftarrow> kill_from s THREAD_BLOCKED blocked_threads t;
               if \<not> go then Some (Returns (-1), s)
               else do {
                 (_, s) \<leftarrow> thread_notify s t True (-1);
                 (_, s) \<leftarrow> thread_cleanup s t;
                 Some (Returns 0, enable_interrupts s) } } }) })"

text \<open>\<open>thread_execute\<close> runs the function the thread was created for, a parameter.\<close>

definition thread_execute ::
    "(u32 \<Rightarrow> kstate \<Rightarrow> (unit ctl \<times> kstate) option) \<Rightarrow> u32 \<Rightarrow> kstate \<Rightarrow> (unit ctl \<times> kstate) option" where
  "thread_execute func aux s = do {
     (c, s) \<leftarrow> func aux (s\<lparr>interrupts := True\<rparr>);
     (case c of
        Switched \<Rightarrow> Some (Switched, s)
      | Returns _ \<Rightarrow> do { (_, c, s) \<leftarrow> thread_exit s False; Some (c, s) }) }"

text \<open>One round of the endless loop of \<open>idle\<close>.\<close>

definition idle_round :: "kstate \<Rightarrow> (unit ctl \<times> kstate) option" where
  "idle_round s = thread_block s"

section \<open>Creating threads\<close>

fun free_slot :: "bool list \<Rightarrow> nat \<Rightarrow> nat option" where
  "free_slot [] i = None"
| "free_slot (b # bs) i = (if b = False then Some i else free_slot bs (i + 1))"

definition allocate_tid :: "kstate \<Rightarrow> u32 \<times> kstate" where
  "allocate_tid s =
     (case free_slot (take MAX_TID (tids s)) 0 of
        Some i \<Rightarrow> (of_nat i, s\<lparr>tids := (tids s)[i := True]\<rparr>)
      | None \<Rightarrow> (513, s))"

text \<open>\<open>sprintf(dst, "%s", name)\<close> into an array of \<open>n\<close> characters; a longer name runs over its end.\<close>

definition put_name :: "nat \<Rightarrow> string \<Rightarrow> string option" where
  "put_name n name = (if length name < n then Some name else None)"

definition thread_create ::
    "kstate \<Rightarrow> u8 \<Rightarrow> string \<Rightarrow> u32 \<Rightarrow> u32 \<Rightarrow> u32 \<Rightarrow> u32 \<Rightarrow> (int \<times> kstate) option" where
  "thread_create s prio name proc child func aux = do {
     (p, k) \<leftarrow> palloc_mult (kmm s) (STACK_SIZE div PG_SIZE);
     let s = s\<lparr>kmm := k\<rparr>;
     if p = 0 then Some (-1, s)
     else if tid (thr s p) = of_nat MAX_TID + 1
     then do { (_, k) \<leftarrow> kfree (kmm s) p; Some (-1, s\<lparr>kmm := k\<rparr>) }
     else do {
       let (i, s) = allocate_tid s;
       nm \<leftarrow> put_name 37 name;
       let s = upd_thr p (\<lambda>r. r\<lparr>tid := i, t_state := THREAD_READY, t_name := nm, priority := prio,
                 t_pid := pid (prc s proc), child_num := child, t_proc := proc\<rparr>) s;
       ts \<leftarrow> arr_put (threads (prc s proc)) child p;
       let s = upd_prc proc (\<lambda>r. r\<lparr>threads := ts\<rparr>) s;
       let sp = p + STACK_SIZE - 12 - 4 - 20;
       let s = upd_thr p (\<lambda>r. r\<lparr>t_frame := \<lparr>f_function = func, f_aux = aux, tail_eip = THREAD_EXECUTE,
                 stack_eip = FIRST_SWITCH_ENTRY, stack_ebp = 0\<rparr>, esp := sp, t_state := THREAD_READY\<rparr>) s;
       let s = k_init s (thread_waiters p);
       let s = upd_thr p (\<lambda>r. r\<lparr>wait_code := 0, magic := 0x33\<rparr>) s;
       s \<leftarrow> k_insert (disable_interrupts s) ready_threads (TNode p);
       Some (sint (tid (thr s p)), enable_interrupts s) } }"

text \<open>\<open>idle_code\<close> is the address of the function \<open>idle\<close>.\<close>

definition init_threads :: "kstate \<Rightarrow> u32 \<Rightarrow> u32 \<Rightarrow> kstate option" where
  "init_threads s idle_code init = do {
     let s = k_init (k_init (k_init s ready_threads) blocked_threads) dying_threads;
     (_, s) \<leftarrow> thread_create s 0 ''idle'' init 0 idle_code 0;
     t \<leftarrow> arr_get (threads (prc s init)) 0;
     let s = s\<lparr>idle_t := t\<rparr>;
     Some (upd_thr (THREAD_CUR s) (\<lambda>r. r\<lparr>t_name := ''i0'', t_state := THREAD_BLOCKED\<rparr>) s) }"

end
