(* ===== verification/Sched.thy ===== *)
theory Sched
  imports Tasks
begin

text \<open>
  What the scheduler of kernel/thread.c does with its lists: lemmas on the operations of the
  theory Tasks over the ready, blocked and dying list at once, then the properties of
  scheduling, blocking, waking and waiting.
\<close>

section \<open>The thread lists\<close>

text \<open>\<open>thread_lists s rs bs ds\<close>: the ready list holds the threads \<open>rs\<close>, the blocked list \<open>bs\<close> and
  the dying list \<open>ds\<close>, in this order, and no thread is in two of them or twice in one.\<close>

definition thread_lists :: "nref heap \<Rightarrow> u32 list \<Rightarrow> u32 list \<Rightarrow> u32 list \<Rightarrow> bool" where
  "thread_lists h rs bs ds \<longleftrightarrow>
     dll heap_ops h ready_threads (map TNode rs) \<and> dll heap_ops h blocked_threads (map TNode bs) \<and>
     dll heap_ops h dying_threads (map TNode ds) \<and> distinct (rs @ bs @ ds)"

lemma list_heads [simp]:
  "head ready_threads = ReadyHead" "tail ready_threads = ReadyTail"
  "head blocked_threads = BlockedHead" "tail blocked_threads = BlockedTail"
  "head dying_threads = DyingHead" "tail dying_threads = DyingTail"
  by (simp_all add: ready_threads_def blocked_threads_def dying_threads_def)

lemma set_spine: "set (spine l xs) = insert (head l) (insert (tail l) (set xs))"
  by (auto simp: spine_def)

lemma remove1_TNode [simp]: "remove1 (TNode t) (map TNode xs) = map TNode (remove1 t xs)"
  by (induction xs) auto

lemma dll_frame:
  assumes "dll A h l xs" and "same_on A (- S) h h'" and "set (spine l xs) \<inter> S = {}"
  shows "dll A h' l xs"
  using assms(1) by (rule dll_same) (rule same_on_sub [OF assms(2)], use assms(3) in blast)

text \<open>The nodes of these lists; every other list is left alone by the operations on them.\<close>

definition sched_nodes :: "nref set" where
  "sched_nodes = range TNode \<union> {ReadyHead, ReadyTail, BlockedHead, BlockedTail, DyingHead, DyingTail}"

lemma sched_frame: "same_on A (- S) h h' \<Longrightarrow> S \<subseteq> sched_nodes \<Longrightarrow> same_on A (- sched_nodes) h h'"
  by (erule same_on_sub) blast

lemma thread_lists_frame:
  assumes "thread_lists h rs bs ds" and "same_on heap_ops sched_nodes h h'"
  shows "thread_lists h' rs bs ds"
proof -
  have "set (spine ready_threads (map TNode rs)) \<subseteq> sched_nodes"
    "set (spine blocked_threads (map TNode bs)) \<subseteq> sched_nodes"
    "set (spine dying_threads (map TNode ds)) \<subseteq> sched_nodes"
    by (auto simp: set_spine sched_nodes_def)
  then show ?thesis
    using assms unfolding thread_lists_def by (blast intro: dll_same same_on_sub)
qed

text \<open>The three kinds of list change, on the ready list; the frame keeps the other two lists.\<close>

lemma ready_insert:
  assumes "thread_lists (nodes s) rs bs ds" and "t \<notin> set (rs @ bs @ ds)"
  shows "\<exists>h. k_insert s ready_threads (TNode t) = Some (s\<lparr>nodes := h\<rparr>) \<and> thread_lists h (t # rs) bs ds \<and>
     same_on heap_ops (- sched_nodes) (nodes s) h"
proof -
  obtain h where h: "list_insert_front heap_ops (nodes s) ReadyHead (TNode t) = Some h"
      "dll heap_ops h ready_threads (TNode t # map TNode rs)"
      "same_on heap_ops (- insert (TNode t) (set (spine ready_threads (map TNode rs)))) (nodes s) h"
    using hs.insert_front_dll [of "nodes s" ready_threads "map TNode rs" "TNode t"] assms
    by (auto simp: thread_lists_def set_spine Compl_eq_Diff_UNIV)
  have "dll heap_ops h blocked_threads (map TNode bs)" "dll heap_ops h dying_threads (map TNode ds)"
    using assms by (auto intro!: dll_frame [OF _ h(3)] simp: thread_lists_def set_spine)
  moreover have "same_on heap_ops (- sched_nodes) (nodes s) h"
    by (rule sched_frame [OF h(3)]) (auto simp: set_spine sched_nodes_def)
  ultimately show ?thesis
    using h assms by (auto simp: k_insert_def list_insert_def thread_lists_def)
qed

lemma ready_insert_end:
  assumes "thread_lists (nodes s) rs bs ds" and "t \<notin> set (rs @ bs @ ds)"
  shows "\<exists>h. k_insert_end s ready_threads (TNode t) = Some (s\<lparr>nodes := h\<rparr>) \<and> thread_lists h (rs @ [t]) bs ds \<and>
     same_on heap_ops (- sched_nodes) (nodes s) h"
proof -
  obtain h where h: "list_insert_end heap_ops (nodes s) ReadyTail (TNode t) = Some h"
      "dll heap_ops h ready_threads (map TNode rs @ [TNode t])"
      "same_on heap_ops (- insert (TNode t) (set (spine ready_threads (map TNode rs)))) (nodes s) h"
    using hs.insert_end_dll [of "nodes s" ready_threads "map TNode rs" "TNode t"] assms
    by (auto simp: thread_lists_def set_spine Compl_eq_Diff_UNIV)
  have "dll heap_ops h blocked_threads (map TNode bs)" "dll heap_ops h dying_threads (map TNode ds)"
    using assms by (auto intro!: dll_frame [OF _ h(3)] simp: thread_lists_def set_spine)
  moreover have "same_on heap_ops (- sched_nodes) (nodes s) h"
    by (rule sched_frame [OF h(3)]) (auto simp: set_spine sched_nodes_def)
  ultimately show ?thesis
    using h assms by (auto simp: k_insert_end_def thread_lists_def)
qed

lemma ready_pop:
  assumes "thread_lists (nodes s) (t # rs) bs ds"
  shows "\<exists>h. k_pop s ready_threads = Some (Some (TNode t), s\<lparr>nodes := h\<rparr>) \<and> thread_lists h rs bs ds \<and>
     same_on heap_ops (- sched_nodes) (nodes s) h"
proof -
  obtain h where h: "list_pop heap_ops (nodes s) ready_threads = Some (Some (TNode t), h)"
      "dll heap_ops h ready_threads (map TNode rs)"
      "same_on heap_ops (- set (spine ready_threads (map TNode (t # rs)))) (nodes s) h"
    using hs.pop_dll [of "nodes s" ready_threads "map TNode (t # rs)"] assms
    by (auto simp: thread_lists_def Compl_eq_Diff_UNIV)
  have "dll heap_ops h blocked_threads (map TNode bs)" "dll heap_ops h dying_threads (map TNode ds)"
    using assms by (auto intro!: dll_frame [OF _ h(3)] simp: thread_lists_def set_spine)
  moreover have "same_on heap_ops (- sched_nodes) (nodes s) h"
    by (rule sched_frame [OF h(3)]) (auto simp: set_spine sched_nodes_def)
  ultimately show ?thesis using h assms by (auto simp: k_pop_def thread_lists_def)
qed

lemma ready_delete:
  assumes "thread_lists (nodes s) rs bs ds"
  shows "if t \<in> set rs
     then \<exists>h. k_delete s ready_threads (TNode t) = Some (Some (TNode t), s\<lparr>nodes := h\<rparr>) \<and>
            thread_lists h (remove1 t rs) bs ds \<and> same_on heap_ops (- sched_nodes) (nodes s) h
     else k_delete s ready_threads (TNode t) = Some (None, s)"
proof (cases "t \<in> set rs")
  case True
  then obtain h where h: "list_delete heap_ops (nodes s) ready_threads (TNode t) = Some (Some (TNode t), h)"
      "dll heap_ops h ready_threads (map TNode (remove1 t rs))"
      "same_on heap_ops (- set (spine ready_threads (map TNode rs))) (nodes s) h"
    using hs.delete_dll [of "nodes s" ready_threads "map TNode rs" "TNode t"] assms
    by (auto simp: thread_lists_def Compl_eq_Diff_UNIV)
  have "dll heap_ops h blocked_threads (map TNode bs)" "dll heap_ops h dying_threads (map TNode ds)"
    using assms by (auto intro!: dll_frame [OF _ h(3)] simp: thread_lists_def set_spine)
  moreover have "distinct (remove1 t rs @ bs @ ds)"
    using assms set_remove1_subset [of t rs] by (auto simp: thread_lists_def)
  moreover have "same_on heap_ops (- sched_nodes) (nodes s) h"
    by (rule sched_frame [OF h(3)]) (auto simp: set_spine sched_nodes_def)
  ultimately show ?thesis using h True by (auto simp: k_delete_def thread_lists_def)
next
  case False
  then show ?thesis
    using hs.delete_absent [of "nodes s" ready_threads "map TNode rs" "TNode t"] assms
    by (simp add: thread_lists_def k_delete_def image_iff)
qed

lemma blocked_delete:
  assumes "thread_lists (nodes s) rs bs ds"
  shows "if t \<in> set bs
     then \<exists>h. k_delete s blocked_threads (TNode t) = Some (Some (TNode t), s\<lparr>nodes := h\<rparr>) \<and>
            thread_lists h rs (remove1 t bs) ds \<and> same_on heap_ops (- sched_nodes) (nodes s) h
     else k_delete s blocked_threads (TNode t) = Some (None, s)"
proof (cases "t \<in> set bs")
  case True
  then obtain h where h: "list_delete heap_ops (nodes s) blocked_threads (TNode t) = Some (Some (TNode t), h)"
      "dll heap_ops h blocked_threads (map TNode (remove1 t bs))"
      "same_on heap_ops (- set (spine blocked_threads (map TNode bs))) (nodes s) h"
    using hs.delete_dll [of "nodes s" blocked_threads "map TNode bs" "TNode t"] assms
    by (auto simp: thread_lists_def Compl_eq_Diff_UNIV)
  have "dll heap_ops h ready_threads (map TNode rs)" "dll heap_ops h dying_threads (map TNode ds)"
    using assms by (auto intro!: dll_frame [OF _ h(3)] simp: thread_lists_def set_spine)
  moreover have "distinct (rs @ remove1 t bs @ ds)"
    using assms set_remove1_subset [of t bs] by (auto simp: thread_lists_def)
  moreover have "same_on heap_ops (- sched_nodes) (nodes s) h"
    by (rule sched_frame [OF h(3)]) (auto simp: set_spine sched_nodes_def)
  ultimately show ?thesis using h True by (auto simp: k_delete_def thread_lists_def)
next
  case False
  then show ?thesis
    using hs.delete_absent [of "nodes s" blocked_threads "map TNode bs" "TNode t"] assms
    by (simp add: thread_lists_def k_delete_def image_iff)
qed

section \<open>Scheduling\<close>

text \<open>\<open>placed s t\<close>: \<open>finish_schedule\<close> finds the slot of \<open>t\<close> in the thread table of its process.\<close>

definition placed :: "kstate \<Rightarrow> u32 \<Rightarrow> bool" where
  "placed s t \<longleftrightarrow> unat (ucast (child_num (thr s t)) :: u8) < length (threads (prc s (t_proc (thr s t))))"

text \<open>\<open>sched_ok s rs bs\<close>: the running thread is in no list, the threads \<open>rs\<close> wait for the processor in
  this order, the threads \<open>bs\<close> are blocked, and nobody is dying.\<close>

definition sched_ok :: "kstate \<Rightarrow> u32 list \<Rightarrow> u32 list \<Rightarrow> bool" where
  "sched_ok s rs bs \<longleftrightarrow> thread_lists (nodes s) rs bs [] \<and> running s \<notin> set (rs @ bs) \<and>
     t_state (thr s (running s)) = THREAD_RUNNING \<and> placed s (running s) \<and>
     (\<forall>t\<in>set rs. t_state (thr s t) = THREAD_READY \<and> placed s t) \<and>
     (\<forall>t\<in>set bs. t_state (thr s t) = THREAD_BLOCKED) \<and> length rs < 2 ^ 32"

lemma upd_thr_simps [simp]:
  "nodes (upd_thr t f s) = nodes s" "prc (upd_thr t f s) = prc s" "running (upd_thr t f s) = running s"
  "idle_t (upd_thr t f s) = idle_t s" "tids (upd_thr t f s) = tids s" "kmm (upd_thr t f s) = kmm s"
  "thr (upd_thr t f s) = (thr s)(t := f (thr s t))"
  "interrupts (upd_thr t f s) = interrupts s" "thread_ticks (upd_thr t f s) = thread_ticks s"
  by (simp_all add: upd_thr_def)

lemma upd_prc_simps [simp]:
  "nodes (upd_prc p g s) = nodes s" "thr (upd_prc p g s) = thr s" "running (upd_prc p g s) = running s"
  "prc (upd_prc p g s) = (prc s)(p := g (prc s p))" "tids (upd_prc p g s) = tids s"
  "kmm (upd_prc p g s) = kmm s" "idle_t (upd_prc p g s) = idle_t s" "thread_ticks (upd_prc p g s) = thread_ticks s"
  by (simp_all add: upd_prc_def)

lemma irq_simps [simp]:
  "nodes (enable_interrupts s) = nodes s" "thr (enable_interrupts s) = thr s" "prc (enable_interrupts s) = prc s"
  "running (enable_interrupts s) = running s" "kmm (enable_interrupts s) = kmm s" "idle_t (enable_interrupts s) = idle_t s"
  "interrupts (enable_interrupts s) = True" "tids (enable_interrupts s) = tids s"
  "nodes (disable_interrupts s) = nodes s" "thr (disable_interrupts s) = thr s" "prc (disable_interrupts s) = prc s"
  "running (disable_interrupts s) = running s" "kmm (disable_interrupts s) = kmm s" "idle_t (disable_interrupts s) = idle_t s"
  "tids (disable_interrupts s) = tids s" "thread_ticks (enable_interrupts s) = thread_ticks s"
  "thread_ticks (disable_interrupts s) = thread_ticks s"
  by (simp_all add: enable_interrupts_def disable_interrupts_def)

lemma switch_simps [simp]:
  "nodes (switch_threads s t) = nodes s" "prc (switch_threads s t) = prc s" "running (switch_threads s t) = t"
  "idle_t (switch_threads s t) = idle_t s" "tids (switch_threads s t) = tids s" "kmm (switch_threads s t) = kmm s"
  "thread_ticks (switch_threads s t) = thread_ticks s" "interrupts (switch_threads s t) = interrupts s"
  by (simp_all add: switch_threads_def)

text \<open>The switch changes the saved frame of the thread that gives up the processor, and nothing else.\<close>

lemma switch_thr [simp]:
  "t_state (thr (switch_threads s t) u) = t_state (thr s u)" "child_num (thr (switch_threads s t) u) = child_num (thr s u)"
  "t_proc (thr (switch_threads s t) u) = t_proc (thr s u)" "wait_code (thr (switch_threads s t) u) = wait_code (thr s u)"
  "tid (thr (switch_threads s t) u) = tid (thr s u)" "ticks (thr (switch_threads s t) u) = ticks (thr s u)"
  "t_pid (thr (switch_threads s t) u) = t_pid (thr s u)" "t_name (thr (switch_threads s t) u) = t_name (thr s u)"
  "u \<noteq> running s \<Longrightarrow> thr (switch_threads s t) u = thr s u"
  by (simp_all add: switch_threads_def THREAD_CUR_def)

lemma no_dying: "thread_lists h rs bs [] \<Longrightarrow> list_isEmpty heap_ops h dying_threads"
  using dll_isEmpty [of heap_ops h dying_threads "[]"] by (simp add: thread_lists_def)

text \<open>With nobody dying, \<open>finish_schedule\<close> marks the running thread and the active slot of its process.\<close>

lemma finish_schedule_quiet:
  assumes "thread_lists (nodes s) rs bs []" and "placed s (running s)"
  shows "\<exists>s'. finish_schedule s = Some s' \<and> nodes s' = nodes s \<and> running s' = running s \<and>
     thr s' = (thr s)(running s := (thr s (running s))\<lparr>t_state := THREAD_RUNNING\<rparr>) \<and>
     (\<forall>p. threads (prc s' p) = threads (prc s p)) \<and>
     active_thread (prc s' (PROC_CUR s)) =
       threads (prc s (PROC_CUR s)) ! unat (ucast (child_num (thr s (running s))) :: u8) \<and>
     interrupts s' \<and> tids s' = tids s \<and> kmm s' = kmm s \<and> idle_t s' = idle_t s \<and> thread_ticks s' = thread_ticks s"
proof -
  let ?n = "ucast (child_num (thr s (running s))) :: u8"
  have "unat (ucast ?n :: u32) = unat ?n" by (simp add: unsigned_ucast_eq unsigned_take_bit_eq)
  then have "arr_get (threads (prc s (t_proc (thr s (running s))))) (ucast ?n) =
      Some (threads (prc s (t_proc (thr s (running s)))) ! unat ?n)"
    using assms(2) by (simp add: arr_get_def placed_def)
  then show ?thesis
    using no_dying [OF assms(1)]
    by (simp add: finish_schedule_def THREAD_CUR_def PROC_CUR_def set_state_def
        proc_set_active_thread_def Let_def)
qed

lemma ready_size:
  "thread_lists h rs bs ds \<Longrightarrow> list_size heap_ops h ready_threads = Some (of_nat (length rs))"
  using dll_size [of heap_ops h ready_threads "map TNode rs"] by (simp add: thread_lists_def)

lemma of_nat_not_one: "2 \<le> n \<Longrightarrow> n < 2 ^ 32 \<Longrightarrow> (of_nat n :: u32) \<noteq> 1"
  using of_nat_eq_u32 [of n 1] by simp

lemma placed_cong:
  assumes "child_num (thr s' t) = child_num (thr s t)" "t_proc (thr s' t) = t_proc (thr s t)"
    and "\<And>p. threads (prc s' p) = threads (prc s p)"
  shows "placed s' t = placed s t"
  using assms by (simp add: placed_def)

lemma schedule_rotates:
  assumes ok: "sched_ok s (t # rs) bs" and two: "rs \<noteq> []"
  shows "\<exists>s'. schedule s = Some (Switched, s') \<and> sched_ok s' (rs @ [running s]) bs \<and> running s' = t \<and>
     interrupts s' \<and> (\<forall>u. u \<noteq> t \<and> u \<noteq> running s \<longrightarrow> thr s' u = thr s u) \<and> kmm s' = kmm s \<and>
     thread_ticks s' = thread_ticks s \<and> (\<forall>u. u \<noteq> running s \<longrightarrow> t_frame (thr s' u) = t_frame (thr s u))"
proof -
  let ?c = "running s" and ?s0 = "disable_interrupts s"
  have lists: "thread_lists (nodes s) (t # rs) bs []" and c: "?c \<notin> set ((t # rs) @ bs)"
    and run: "t_state (thr s ?c) = THREAD_RUNNING" and place: "placed s ?c"
    and ready: "\<And>u. u \<in> set (t # rs) \<Longrightarrow> t_state (thr s u) = THREAD_READY \<and> placed s u"
    and blocked: "\<And>u. u \<in> set bs \<Longrightarrow> t_state (thr s u) = THREAD_BLOCKED"
    and len: "length (t # rs) < 2 ^ 32"
    using ok by (auto simp: sched_ok_def)
  have tc: "t \<noteq> ?c" and trs: "t \<notin> set rs" "t \<notin> set bs" using c lists by (auto simp: thread_lists_def)
  have "2 \<le> length (t # rs)" using two by (cases rs) simp_all
  then have size: "list_size heap_ops (nodes ?s0) ready_threads = Some (of_nat (length (t # rs)))"
      "(of_nat (length (t # rs)) :: u32) \<noteq> 1"
    using ready_size [OF lists] of_nat_not_one [OF _ len] by simp_all
  obtain h1 where h1: "k_pop ?s0 ready_threads = Some (Some (TNode t), ?s0\<lparr>nodes := h1\<rparr>)"
      "thread_lists h1 rs bs []"
    using ready_pop [of ?s0 t rs bs "[]"] lists by auto
  let ?s1 = "set_state ?c THREAD_READY (?s0\<lparr>nodes := h1\<rparr>)"
  obtain h2 where h2: "k_insert_end ?s1 ready_threads (TNode ?c) = Some (?s1\<lparr>nodes := h2\<rparr>)"
      "thread_lists h2 (rs @ [?c]) bs []"
    using ready_insert_end [of ?s1 rs bs "[]" ?c] h1(2) c by (auto simp: set_state_def)
  let ?s2 = "?s1\<lparr>nodes := h2\<rparr>" and ?s3 = "switch_threads (?s1\<lparr>nodes := h2\<rparr>) t"
  have thr2: "thr ?s2 = (thr s)(?c := (thr s ?c)\<lparr>t_state := THREAD_READY\<rparr>)" "prc ?s2 = prc s"
    by (simp_all add: set_state_def)
  have "placed ?s3 t"
    using ready [of t] tc by (simp add: placed_def set_state_def)
  then obtain s' where s': "finish_schedule ?s3 = Some s'" "nodes s' = h2" "running s' = t"
      "thr s' = (thr ?s3)(t := (thr s t)\<lparr>t_state := THREAD_RUNNING\<rparr>)"
      "\<And>p. threads (prc s' p) = threads (prc s p)" "interrupts s'" "kmm s' = kmm s" "thread_ticks s' = thread_ticks s"
    using finish_schedule_quiet [of ?s3 "rs @ [?c]" bs] h2(2) tc
    by (auto simp: set_state_def)
  have run2: "running ?s2 = ?c" by (simp add: set_state_def)
  have sched: "schedule s = Some (Switched, s')"
  proof -
    have "t_state (thr s t) = THREAD_READY" using ready [of t] by simp
    then show ?thesis
      using size h1(1) h2(1) s'(1) tc run
      by (simp add: schedule_def Let_def THREAD_CUR_def set_state_def del: of_nat_Suc length_Cons)
  qed
  have place': "placed s' u = placed s u" for u
    using s'(4,5) thr2 by (intro placed_cong) auto
  have "sched_ok s' (rs @ [?c]) bs"
    unfolding sched_ok_def
    using h2(2) s'(2,3,4) thr2 tc trs c ready blocked place place' len two
    by (auto simp del: of_nat_Suc)
  then show ?thesis using sched s' thr2 run2 by auto
qed

text \<open>Time slices: \<open>n\<close> calls of \<open>schedule\<close>, each made by the thread that runs then.\<close>

fun run_slices :: "nat \<Rightarrow> kstate \<Rightarrow> kstate option" where
  "run_slices 0 s = Some s"
| "run_slices (Suc n) s = do { (_, s') \<leftarrow> schedule s; run_slices n s' }"

lemma run_slices_rotate:
  assumes "sched_ok s rs bs" and "2 \<le> length rs"
  shows "\<exists>s'. run_slices k s = Some s' \<and> sched_ok s' (tl (rotate k (running s # rs))) bs \<and>
     running s' = hd (rotate k (running s # rs))"
  using assms
proof (induction k arbitrary: s rs)
  case 0
  then show ?case by simp
next
  case (Suc k)
  obtain t us where rs: "rs = t # us" "us \<noteq> []" using Suc.prems(2) by (cases rs; cases "tl rs") auto
  obtain s1 where s1: "schedule s = Some (Switched, s1)" "sched_ok s1 (us @ [running s]) bs" "running s1 = t"
    using schedule_rotates [of s t us bs] Suc.prems(1) rs by auto
  have "2 \<le> length (us @ [running s])" using rs(2) by (cases us) auto
  from Suc.IH [OF s1(2) this] obtain s' where
    s': "run_slices k s1 = Some s'" "sched_ok s' (tl (rotate k (t # us @ [running s]))) bs"
      "running s' = hd (rotate k (t # us @ [running s]))"
    unfolding s1(3) by blast
  have "rotate (Suc k) (running s # rs) = rotate k (t # us @ [running s])"
    by (simp add: rs(1) rotate1_rotate_swap)
  then show ?case using s1(1) s' by simp
qed

text \<open>With a single thread ready, \<open>schedule\<close> switches to it but leaves it in the ready list.\<close>

lemma schedule_single:
  assumes ok: "sched_ok s [t] bs"
  shows "\<exists>s'. schedule s = Some (Switched, s') \<and> running s' = t \<and> t_state (thr s' t) = THREAD_RUNNING \<and>
     thread_lists (nodes s') [t, running s] bs []"
proof -
  let ?c = "running s" and ?s0 = "disable_interrupts s"
  have lists: "thread_lists (nodes s) [t] bs []" and c: "?c \<notin> set ([t] @ bs)"
    and run: "t_state (thr s ?c) = THREAD_RUNNING" and ready: "t_state (thr s t) = THREAD_READY" "placed s t"
    using ok by (auto simp: sched_ok_def)
  have tc: "t \<noteq> ?c" using c by auto
  have size: "list_size heap_ops (nodes ?s0) ready_threads = Some 1" using ready_size [OF lists] by simp
  have nxt: "n_next (nodes s ReadyHead) = Some (TNode t)"
    using dll_head_next [of heap_ops "nodes s" ready_threads "[TNode t]"] lists by (simp add: thread_lists_def)
  let ?s1 = "set_state ?c THREAD_READY ?s0"
  obtain h2 where h2: "k_insert_end ?s1 ready_threads (TNode ?c) = Some (?s1\<lparr>nodes := h2\<rparr>)"
      "thread_lists h2 ([t] @ [?c]) bs []"
    using ready_insert_end [of ?s1 "[t]" bs "[]" ?c] lists c by (auto simp: set_state_def)
  let ?s3 = "switch_threads (?s1\<lparr>nodes := h2\<rparr>) t"
  have "placed ?s3 t" using ready(2) tc by (simp add: placed_def set_state_def)
  then obtain s' where s': "finish_schedule ?s3 = Some s'" "nodes s' = h2" "running s' = t"
      "t_state (thr s' t) = THREAD_RUNNING"
    using finish_schedule_quiet [of ?s3 "[t, ?c]" bs] h2(2) tc
    by (auto simp: set_state_def)
  have "schedule s = Some (Switched, s')"
    using size nxt h2(1) s'(1) tc run ready(1)
    by (simp add: schedule_def Let_def THREAD_CUR_def set_state_def)
  then show ?thesis using s' h2(2) by auto
qed

section \<open>Scheduling: properties\<close>

text \<open>A machine with the running thread 0x1000, the ready threads 0x2000 and 0x3000 and the blocked
  thread 0x4000, all of the process at 0x9000.\<close>

definition demo_thread :: "thread_states \<Rightarrow> u32 \<Rightarrow> thread" where
  "demo_thread st i = \<lparr>esp = 0, tid = i, t_pid = 0, priority = 0, ticks = 0, t_name = '''', t_state = st,
     child_num = i, wait_code = 7, magic = 0x33,
     t_frame = \<lparr>f_function = 0, f_aux = 0, tail_eip = THREAD_EXECUTE, stack_eip = FIRST_SWITCH_ENTRY, stack_ebp = 0\<rparr>,
     t_proc = 0x9000\<rparr>"

definition demo_stream :: std_stream where
  "demo_stream = \<lparr>stream = replicate 256 0, ssize = 256, s_in = 0, s_out = 0\<rparr>"

definition demo_process :: process where
  "demo_process = \<lparr>pid = 0, p_name = ''init'', active_thread = 0x1000, threads = replicate 8 0,
     num_live_threads = 4, p_stdin = StdIn 0x9000, p_stdout = StdOut 0x9000, p_stderr = StdErr 0x9000,
     std_in = demo_stream, std_out = demo_stream, std_err = demo_stream, p_wait_code = 0, p_magic = 0x34\<rparr>"

definition demo_nodes :: "nref heap" where
  "demo_nodes = (\<lambda>_. \<lparr>n_next = None, n_prev = None\<rparr>)
     (ReadyHead := \<lparr>n_next = Some (TNode 0x2000), n_prev = None\<rparr>,
      TNode 0x2000 := \<lparr>n_next = Some (TNode 0x3000), n_prev = Some ReadyHead\<rparr>,
      TNode 0x3000 := \<lparr>n_next = Some ReadyTail, n_prev = Some (TNode 0x2000)\<rparr>,
      ReadyTail := \<lparr>n_next = None, n_prev = Some (TNode 0x3000)\<rparr>,
      BlockedHead := \<lparr>n_next = Some (TNode 0x4000), n_prev = None\<rparr>,
      TNode 0x4000 := \<lparr>n_next = Some BlockedTail, n_prev = Some BlockedHead\<rparr>,
      BlockedTail := \<lparr>n_next = None, n_prev = Some (TNode 0x4000)\<rparr>,
      DyingHead := \<lparr>n_next = Some DyingTail, n_prev = None\<rparr>,
      DyingTail := \<lparr>n_next = None, n_prev = Some DyingHead\<rparr>)"

definition demo_state :: kstate where
  "demo_state = \<lparr>nodes = demo_nodes,
     thr = (\<lambda>t. if t = 0x1000 then demo_thread THREAD_RUNNING 0
                else if t = 0x2000 then demo_thread THREAD_READY 1
                else if t = 0x3000 then demo_thread THREAD_READY 2
                else if t = 0x4000 then demo_thread THREAD_BLOCKED 3
                else demo_thread THREAD_TERMINATED 4),
     prc = (\<lambda>_. demo_process), running = 0x1000, idle_t = 0x4000, tids = replicate 512 False,
     thread_ticks = 0, interrupts = True, current_p = 0x9000, active_p = 0x9000, pid_count = 1,
     kmm = undefined\<rparr>"

lemma demo_lists: "thread_lists (nodes demo_state) [0x2000, 0x3000] [0x4000] []"
  by (simp add: thread_lists_def dll_def spine_def demo_state_def demo_nodes_def)

lemma demo_sched: "sched_ok demo_state [0x2000, 0x3000] [0x4000]"
  unfolding sched_ok_def
  by (intro conjI demo_lists) (simp_all add: demo_state_def placed_def demo_thread_def demo_process_def)

text \<open>round robin.  With at least two threads ready besides the running one and nobody dying, any
  number \<open>k\<close> of schedules succeeds; the threads take the processor in the cyclic order of the
  ready list, so after \<open>k\<close> slices the \<open>k\<close>-th of them (modulo their number) runs, the others wait
  behind it in that order, ready and linked, and the blocked threads stay blocked.\<close>

theorem schedule_round_robin:
  assumes "sched_ok s rs bs" and "2 \<le> length rs"
  shows "\<exists>s'. run_slices k s = Some s' \<and> running s' = (running s # rs) ! (k mod Suc (length rs)) \<and>
     sched_ok s' (tl (rotate k (running s # rs))) bs"
  using run_slices_rotate [OF assms, of k] hd_rotate_conv_nth [of "running s # rs" k] by auto

theorem schedule_round_robin_witness:
  "\<exists>s'. run_slices 4 demo_state = Some s' \<and> running s' = 0x2000 \<and> sched_ok s' [0x3000, 0x1000] [0x4000]"
proof -
  have "rotate 4 [a, b, c] = [b, c, a]" for a b c :: u32 by (simp add: rotate_def eval_nat_numeral)
  then show ?thesis
    using schedule_round_robin [OF demo_sched, of 4] by (simp add: demo_state_def)
qed

text \<open>with exactly one other thread ready, \<open>schedule\<close> takes it from the ready list without
  unlinking it: the thread that runs afterwards is still in the ready list, in front of the
  thread that gave up the processor.\<close>

theorem schedule_single_stays_ready:
  assumes "sched_ok s [t] bs"
  shows "\<exists>s'. schedule s = Some (Switched, s') \<and> running s' = t \<and> t_state (thr s' t) = THREAD_RUNNING \<and>
     thread_lists (nodes s') [t, running s] bs [] \<and> \<not> sched_ok s' [t, running s] bs"
  using schedule_single [OF assms] by (auto simp: sched_ok_def)

definition demo_single :: kstate where
  "demo_single = demo_state\<lparr>nodes := demo_nodes
     (TNode 0x2000 := \<lparr>n_next = Some ReadyTail, n_prev = Some ReadyHead\<rparr>,
      ReadyTail := \<lparr>n_next = None, n_prev = Some (TNode 0x2000)\<rparr>)\<rparr>"

lemma demo_single_ok: "sched_ok demo_single [0x2000] [0x4000]"
proof -
  have "thread_lists (nodes demo_single) [0x2000] [0x4000] []"
    by (simp add: thread_lists_def dll_def spine_def demo_single_def demo_state_def demo_nodes_def)
  then show ?thesis
    unfolding sched_ok_def
    by (intro conjI) (simp_all add: demo_single_def demo_state_def placed_def demo_thread_def demo_process_def)
qed

theorem schedule_single_stays_ready_witness:
  "\<exists>s'. schedule demo_single = Some (Switched, s') \<and> running s' = 0x2000 \<and>
     thread_lists (nodes s') [0x2000, 0x1000] [0x4000] []"
  using schedule_single_stays_ready [OF demo_single_ok] by (auto simp: demo_single_def demo_state_def)

section \<open>Blocking and waking\<close>

text \<open>in the regular case, where the running thread is in no list, \<open>thread_block\<close> returns at once
  without blocking it: the deletion from the ready list finds nothing, and the function takes that
  for a reason to give up.\<close>

theorem thread_block_noop:
  assumes "sched_ok s rs bs"
  shows "thread_block s = Some (Returns (), s\<lparr>interrupts := True\<rparr>)"
  using ready_delete [of "disable_interrupts s" rs bs "[]" "running s"] assms
  by (auto simp: sched_ok_def thread_block_def THREAD_CUR_def enable_interrupts_def disable_interrupts_def)

theorem thread_block_noop_witness:
  "thread_block demo_state = Some (Returns (), demo_state\<lparr>interrupts := True\<rparr>)"
  by (rule thread_block_noop [OF demo_sched])

lemma thread_unblock_blocked:
  assumes "thread_lists (nodes s) rs bs ds" and "t \<in> set bs" and "t_state (thr s t) = THREAD_BLOCKED"
  shows "\<exists>s'. thread_unblock s t = Some s' \<and> thread_lists (nodes s') (t # rs) (remove1 t bs) ds \<and>
     s' = s\<lparr>nodes := nodes s', thr := (thr s)(t := (thr s t)\<lparr>t_state := THREAD_READY\<rparr>), interrupts := True\<rparr> \<and>
     same_on heap_ops (- sched_nodes) (nodes s) (nodes s')"
proof -
  let ?s0 = "disable_interrupts s"
  obtain h1 where h1: "k_delete ?s0 blocked_threads (TNode t) = Some (Some (TNode t), ?s0\<lparr>nodes := h1\<rparr>)"
      "thread_lists h1 rs (remove1 t bs) ds" "same_on heap_ops (- sched_nodes) (nodes s) h1"
    using blocked_delete [of ?s0 rs bs ds t] assms by auto
  let ?s1 = "set_state t THREAD_READY (?s0\<lparr>nodes := h1\<rparr>)"
  have "t \<notin> set (rs @ remove1 t bs @ ds)" using assms(1,2) by (auto simp: thread_lists_def)
  then obtain h2 where h2: "k_insert ?s1 ready_threads (TNode t) = Some (?s1\<lparr>nodes := h2\<rparr>)"
      "thread_lists h2 (t # rs) (remove1 t bs) ds" "same_on heap_ops (- sched_nodes) h1 h2"
    using ready_insert [of ?s1 rs "remove1 t bs" ds t] h1(2) by (auto simp: set_state_def)
  have "thread_unblock s t = Some (enable_interrupts (?s1\<lparr>nodes := h2\<rparr>))"
    using assms(3) h1(1) h2(1) by (simp add: thread_unblock_def Let_def)
  then show ?thesis using h2(2) same_on_trans [OF h1(3) h2(3)]
    by (auto simp: enable_interrupts_def disable_interrupts_def set_state_def upd_thr_def)
qed

text \<open>\<open>thread_unblock\<close> moves a blocked thread from the blocked list to the front of the ready list,
  makes it ready, and changes nothing else but the interrupt flag; for a thread in any other state
  it changes nothing else at all.\<close>

theorem thread_unblock_moves:
  assumes "thread_lists (nodes s) rs bs ds" and "t_state (thr s t) = THREAD_BLOCKED \<longrightarrow> t \<in> set bs"
  shows "\<exists>s'. thread_unblock s t = Some s' \<and>
     (if t_state (thr s t) = THREAD_BLOCKED
      then thread_lists (nodes s') (t # rs) (remove1 t bs) ds \<and>
        s' = s\<lparr>nodes := nodes s', thr := (thr s)(t := (thr s t)\<lparr>t_state := THREAD_READY\<rparr>), interrupts := True\<rparr>
      else s' = s\<lparr>interrupts := True\<rparr>)"
  using thread_unblock_blocked [OF assms(1)] assms(2)
  by (auto simp: thread_unblock_def enable_interrupts_def disable_interrupts_def)

theorem thread_unblock_moves_witness:
  "\<exists>s'. thread_unblock demo_state 0x4000 = Some s' \<and> thread_lists (nodes s') [0x4000, 0x2000, 0x3000] [] []"
  using thread_unblock_moves [of demo_state "[0x2000, 0x3000]" "[0x4000]" "[]" "0x4000"] demo_lists
  by (auto simp: demo_state_def demo_thread_def)

section \<open>Waiting and notifying\<close>

text \<open>Waiter lists are outside the scheduler's lists.\<close>

lemma waiters_pop:
  assumes d: "dll heap_ops (nodes s) l (n # ns)" and lists: "thread_lists (nodes s) rs bs ds"
    and apart: "set (spine l (n # ns)) \<inter> sched_nodes = {}"
  shows "\<exists>h. k_pop s l = Some (Some n, s\<lparr>nodes := h\<rparr>) \<and> dll heap_ops h l ns \<and> thread_lists h rs bs ds \<and>
     same_on heap_ops (- set (spine l (n # ns))) (nodes s) h"
proof -
  obtain h where h: "list_pop heap_ops (nodes s) l = Some (Some n, h)" "dll heap_ops h l ns"
      "same_on heap_ops (- set (spine l (n # ns))) (nodes s) h"
    using hs.pop_dll [OF d] by (auto simp: Compl_eq_Diff_UNIV)
  have "same_on heap_ops sched_nodes (nodes s) h" using h(3) by (rule same_on_sub) (use apart in blast)
  with lists have "thread_lists h rs bs ds" by (rule thread_lists_frame)
  then show ?thesis using h by (auto simp: k_pop_def)
qed

lemma waiters_empty:
  "dll heap_ops (nodes s) l [] \<Longrightarrow> k_pop s l = Some (None, s)"
  by (simp add: k_pop_def list_pop_def dll_isEmpty)

text \<open>The nodes that waking the waiters of a list may touch.\<close>

definition wake_nodes :: "nref list_t \<Rightarrow> nref set" where
  "wake_nodes l = sched_nodes \<union> {head l, tail l} \<union> range TWaitNode"

lemma wake_frame: "same_on A (- S) h h' \<Longrightarrow> S \<subseteq> wake_nodes l \<Longrightarrow> same_on A (- wake_nodes l) h h'"
  by (erule same_on_sub) blast

text \<open>\<open>woken\<close>: the threads \<open>ws\<close> have the return code \<open>ret\<close> and are ready, the others are as before.\<close>

definition woken :: "kstate \<Rightarrow> u32 list \<Rightarrow> int \<Rightarrow> kstate \<Rightarrow> bool" where
  "woken s ws ret s' \<longleftrightarrow>
     thr s' = (\<lambda>u. if u \<in> set ws then (thr s u)\<lparr>wait_code := ret, t_state := THREAD_READY\<rparr> else thr s u) \<and>
     prc s' = prc s \<and> running s' = running s \<and> kmm s' = kmm s \<and> tids s' = tids s \<and> idle_t s' = idle_t s"

lemma notify_loop_wakes:
  assumes "thread_lists (nodes s) rs bs ds" and "dll heap_ops (nodes s) l (map TWaitNode ws)"
    and "distinct (w # ws)" and "set (w # ws) \<subseteq> set bs"
    and "\<forall>u\<in>set (w # ws). t_state (thr s u) = THREAD_BLOCKED"
    and "head l \<notin> sched_nodes" "tail l \<notin> sched_nodes"
  shows "\<exists>s'. notify_loop l True ret (TWaitNode w) s = Some s' \<and> woken s (w # ws) ret s' \<and>
     dll heap_ops (nodes s') l [] \<and> same_on heap_ops (- wake_nodes l) (nodes s) (nodes s') \<and>
     thread_lists (nodes s') (rev (w # ws) @ rs) (filter (\<lambda>u. u \<notin> set (w # ws)) bs) ds"
  using assms
proof (induction ws arbitrary: s w rs bs)
  case (Cons v vs)
  let ?s0 = "upd_thr w (\<lambda>r. r\<lparr>wait_code := ret\<rparr>) s"
  obtain s1 where s1: "thread_unblock ?s0 w = Some s1" "thread_lists (nodes s1) (w # rs) (remove1 w bs) ds"
      "s1 = ?s0\<lparr>nodes := nodes s1, thr := (thr ?s0)(w := (thr ?s0 w)\<lparr>t_state := THREAD_READY\<rparr>), interrupts := True\<rparr>"
      "same_on heap_ops (- sched_nodes) (nodes ?s0) (nodes s1)"
    using thread_unblock_blocked [of ?s0 rs bs ds w] Cons.prems by auto
  have apart: "set (spine l (map TWaitNode (v # vs))) \<inter> sched_nodes = {}"
    using Cons.prems(6,7) by (auto simp: set_spine sched_nodes_def)
  have "dll heap_ops (nodes s1) l (map TWaitNode (v # vs))"
    using Cons.prems(2) by (rule dll_frame [OF _ s1(4) apart, unfolded upd_thr_simps])
  then obtain h where h: "k_pop s1 l = Some (Some (TWaitNode v), s1\<lparr>nodes := h\<rparr>)"
      "dll heap_ops h l (map TWaitNode vs)" "thread_lists h (w # rs) (remove1 w bs) ds"
      "same_on heap_ops (- set (spine l (map TWaitNode (v # vs)))) (nodes s1) h"
    using waiters_pop [OF _ s1(2)] apart by fastforce
  let ?s2 = "s1\<lparr>nodes := h\<rparr>"
  have thr1: "thr ?s2 = (thr s)(w := (thr s w)\<lparr>wait_code := ret, t_state := THREAD_READY\<rparr>)"
      "prc ?s2 = prc s" "running ?s2 = running s" "kmm ?s2 = kmm s" "tids ?s2 = tids s" "idle_t ?s2 = idle_t s"
    by (subst s1(3), simp)+
  have dbs: "distinct bs" using Cons.prems(1) by (simp add: thread_lists_def)
  obtain s' where s': "notify_loop l True ret (TWaitNode v) ?s2 = Some s'" "woken ?s2 (v # vs) ret s'"
      "dll heap_ops (nodes s') l []" "same_on heap_ops (- wake_nodes l) h (nodes s')"
      "thread_lists (nodes s') (rev (v # vs) @ w # rs) (filter (\<lambda>u. u \<notin> set (v # vs)) (remove1 w bs)) ds"
    using Cons.IH [of ?s2 "w # rs" "remove1 w bs" v] h(2,3) Cons.prems(3-7) dbs thr1(1) by fastforce
  have "same_on heap_ops (- wake_nodes l) (nodes s) (nodes s1)" "same_on heap_ops (- wake_nodes l) (nodes s1) h"
    using wake_frame [OF s1(4), of l] wake_frame [OF h(4), of l] by (auto simp: wake_nodes_def set_spine)
  then have frame: "same_on heap_ops (- wake_nodes l) (nodes s) (nodes s')"
    using s'(4) by (blast intro: same_on_trans)
  have "notify_loop l True ret (TWaitNode w) s = notify_loop l True ret (TWaitNode v) ?s2"
    using s1(1) h(1) by (simp add: notify_loop.simps [of _ _ _ "TWaitNode w"])
  moreover have "woken s (w # v # vs) ret s'"
    using s'(2) thr1 Cons.prems(3) by (auto simp: woken_def fun_eq_iff)
  moreover have "filter (\<lambda>u. u \<notin> set (v # vs)) (remove1 w bs) = filter (\<lambda>u. u \<notin> set (w # v # vs)) bs"
    using dbs by (auto simp: distinct_remove1_removeAll removeAll_filter_not_eq intro!: filter_cong)
  ultimately show ?case using s' frame by simp
next
  case Nil
  let ?s0 = "upd_thr w (\<lambda>r. r\<lparr>wait_code := ret\<rparr>) s"
  obtain s1 where s1: "thread_unblock ?s0 w = Some s1" "thread_lists (nodes s1) (w # rs) (remove1 w bs) ds"
      "s1 = ?s0\<lparr>nodes := nodes s1, thr := (thr ?s0)(w := (thr ?s0 w)\<lparr>t_state := THREAD_READY\<rparr>), interrupts := True\<rparr>"
      "same_on heap_ops (- sched_nodes) (nodes ?s0) (nodes s1)"
    using thread_unblock_blocked [of ?s0 rs bs ds w] Nil.prems by auto
  have "dll heap_ops (nodes s1) l []"
    using Nil.prems(2,6,7) by (intro dll_frame [OF _ s1(4)]) (auto simp: set_spine)
  then have "notify_loop l True ret (TWaitNode w) s = Some s1"
    using s1(1) waiters_empty [of s1 l] by (simp add: notify_loop.simps)
  moreover have "woken s [w] ret s1"
    unfolding woken_def by (subst (1 2 3 4 5 6) s1(3)) (simp add: fun_eq_iff)
  moreover have "remove1 w bs = filter (\<lambda>u. u \<noteq> w) bs"
    using Nil.prems(1) by (simp add: thread_lists_def distinct_remove1_removeAll removeAll_filter_not_eq eq_commute)
  moreover have "same_on heap_ops (- wake_nodes l) (nodes s) (nodes s1)"
    using wake_frame [OF s1(4), of l] by (auto simp: wake_nodes_def)
  ultimately show ?case using s1(2) \<open>dll heap_ops (nodes s1) l []\<close> by auto
qed

lemma waiters_apart [simp]:
  "head (thread_waiters t) = TWaitersHead t" "tail (thread_waiters t) = TWaitersTail t"
  "head (proc_waiters p) = PWaitersHead p" "tail (proc_waiters p) = PWaitersTail p"
  "TWaitersHead t \<notin> sched_nodes" "TWaitersTail t \<notin> sched_nodes" "TWaitNode t \<notin> sched_nodes"
  "PWaitersHead p \<notin> sched_nodes" "PWaitersTail p \<notin> sched_nodes"
  by (auto simp: thread_waiters_def proc_waiters_def sched_nodes_def)

lemma notify_waiters_wakes:
  assumes lists: "thread_lists (nodes s) rs bs ds" and ws: "dll heap_ops (nodes s) l (map TWaitNode ws)"
    and "set ws \<subseteq> set bs" and "\<forall>u\<in>set ws. t_state (thr s u) = THREAD_BLOCKED"
    and l: "head l \<notin> sched_nodes" "tail l \<notin> sched_nodes"
  shows "\<exists>s'. notify_waiters l True ret s = Some (if ws = [] then -1 else 0, s') \<and> woken s ws ret s' \<and>
     dll heap_ops (nodes s') l [] \<and> same_on heap_ops (- wake_nodes l) (nodes s) (nodes s') \<and>
     thread_lists (nodes s') (rev ws @ rs) (filter (\<lambda>u. u \<notin> set ws) bs) ds"
proof (cases ws)
  case Nil
  then show ?thesis using waiters_empty [of s l] lists ws by (simp add: notify_waiters_def woken_def)
next
  case (Cons v vs)
  have dist: "distinct ws"
    using ws by (simp add: dll_def spine_def distinct_map)
  have apart: "set (spine l (TWaitNode v # map TWaitNode vs)) \<inter> sched_nodes = {}"
    using l by (auto simp: set_spine)
  obtain h where h: "k_pop s l = Some (Some (TWaitNode v), s\<lparr>nodes := h\<rparr>)"
      "dll heap_ops h l (map TWaitNode vs)" "thread_lists h rs bs ds"
      "same_on heap_ops (- set (spine l (TWaitNode v # map TWaitNode vs))) (nodes s) h"
    using waiters_pop [OF _ lists apart] ws Cons by auto
  obtain s' where s': "notify_loop l True ret (TWaitNode v) (s\<lparr>nodes := h\<rparr>) = Some s'"
      "woken (s\<lparr>nodes := h\<rparr>) (v # vs) ret s'" "dll heap_ops (nodes s') l []" "same_on heap_ops (- wake_nodes l) h (nodes s')"
      "thread_lists (nodes s') (rev (v # vs) @ rs) (filter (\<lambda>u. u \<notin> set (v # vs)) bs) ds"
    using notify_loop_wakes [of "s\<lparr>nodes := h\<rparr>" rs bs ds l vs v ret] h(2,3) assms(3,4) dist l Cons by auto
  moreover have "same_on heap_ops (- wake_nodes l) (nodes s) h"
    using wake_frame [OF h(4), of l] by (auto simp: wake_nodes_def set_spine)
  ultimately show ?thesis using h(1) Cons
    by (auto simp: notify_waiters_def woken_def intro: same_on_trans)
qed

text \<open>C24: \<open>thread_notify\<close> with \<open>all\<close> set terminates and wakes every thread in the waiter list: each is
  given the return code, made ready and moved from the blocked list to the front of the ready list
  (so the last one woken comes first), and the waiter list is left empty; it returns 0, or -1
  when nobody waited.\<close>

theorem thread_notify_wakes_all:
  assumes "thread_lists (nodes s) rs bs ds" and "dll heap_ops (nodes s) (thread_waiters t) (map TWaitNode ws)"
    and "set ws \<subseteq> set bs" and "\<forall>u\<in>set ws. t_state (thr s u) = THREAD_BLOCKED"
  shows "\<exists>s'. thread_notify s t True ret = Some (if ws = [] then -1 else 0, s') \<and> woken s ws ret s' \<and>
     dll heap_ops (nodes s') (thread_waiters t) [] \<and>
     thread_lists (nodes s') (rev ws @ rs) (filter (\<lambda>u. u \<notin> set ws) bs) ds"
proof -
  obtain s' where "notify_waiters (thread_waiters t) True ret s = Some (if ws = [] then -1 else 0, s')"
      "woken s ws ret s'" "dll heap_ops (nodes s') (thread_waiters t) []"
      "thread_lists (nodes s') (rev ws @ rs) (filter (\<lambda>u. u \<notin> set ws) bs) ds"
    using notify_waiters_wakes [OF assms(1,2), of ret] assms(3,4) by auto
  then show ?thesis unfolding thread_notify_def by blast
qed

definition demo_waiting :: kstate where
  "demo_waiting = demo_state\<lparr>nodes := demo_nodes
     (TWaitersHead 0x2000 := \<lparr>n_next = Some (TWaitNode 0x4000), n_prev = None\<rparr>,
      TWaitNode 0x4000 := \<lparr>n_next = Some (TWaitersTail 0x2000), n_prev = Some (TWaitersHead 0x2000)\<rparr>,
      TWaitersTail 0x2000 := \<lparr>n_next = None, n_prev = Some (TWaitNode 0x4000)\<rparr>)\<rparr>"

theorem thread_notify_wakes_all_witness:
  "\<exists>s'. thread_notify demo_waiting 0x2000 True 5 = Some (0, s') \<and> woken demo_waiting [0x4000] 5 s' \<and>
     thread_lists (nodes s') [0x4000, 0x2000, 0x3000] [] []"
proof -
  have lists: "thread_lists (nodes demo_waiting) [0x2000, 0x3000] [0x4000] []"
    by (simp add: thread_lists_def dll_def spine_def demo_waiting_def demo_nodes_def)
  have "dll heap_ops (nodes demo_waiting) (thread_waiters 0x2000) (map TWaitNode [0x4000])"
    by (simp add: dll_def spine_def demo_waiting_def demo_nodes_def)
  from thread_notify_wakes_all [OF lists this, of 5] show ?thesis
    by (auto simp: demo_waiting_def demo_state_def demo_thread_def)
qed

text \<open>What \<open>thread_wait\<close> and \<open>proc_wait\<close> have in common: the running thread enters itself in a list of
  waiters, and \<open>thread_block\<close> comes back at once.\<close>

lemma wait_in_list:
  assumes "sched_ok s rs bs" and "dll heap_ops (nodes s) l ws" and "set ws \<subseteq> range TWaitNode"
    and "TWaitNode (running s) \<notin> set ws" and "head l \<notin> sched_nodes" and "tail l \<notin> sched_nodes"
    and "head l \<noteq> TWaitNode (running s)" and "tail l \<noteq> TWaitNode (running s)"
  shows "\<exists>h. k_insert s l (TWaitNode (running s)) = Some (s\<lparr>nodes := h\<rparr>) \<and>
     thread_block (s\<lparr>nodes := h\<rparr>) = Some (Returns (), s\<lparr>nodes := h, interrupts := True\<rparr>) \<and>
     thread_lists h rs bs [] \<and> dll heap_ops h l (TWaitNode (running s) # ws)"
proof -
  let ?n = "TWaitNode (running s)"
  obtain h where h: "list_insert_front heap_ops (nodes s) (head l) ?n = Some h"
      "dll heap_ops h l (?n # ws)" "same_on heap_ops (- insert ?n (set (spine l ws))) (nodes s) h"
    using hs.insert_front_dll [OF assms(2), of ?n] assms(4,7,8) by (auto simp: set_spine Compl_eq_Diff_UNIV)
  have apart: "insert ?n (set (spine l ws)) \<inter> sched_nodes = {}"
    using assms(3,5,6) by (auto simp: set_spine)
  have "same_on heap_ops sched_nodes (nodes s) h" using h(3) by (rule same_on_sub) (use apart in blast)
  then have lists: "thread_lists h rs bs []"
    using assms(1) unfolding sched_ok_def by (blast intro: thread_lists_frame)
  have "thread_block (s\<lparr>nodes := h\<rparr>) = Some (Returns (), s\<lparr>nodes := h, interrupts := True\<rparr>)"
    using ready_delete [of "disable_interrupts (s\<lparr>nodes := h\<rparr>)" rs bs "[]" "running s"] lists assms(1)
    by (auto simp: sched_ok_def thread_block_def THREAD_CUR_def enable_interrupts_def disable_interrupts_def)
  then show ?thesis using h lists by (intro exI [of _ h]) (simp add: k_insert_def list_insert_def)
qed

text \<open>in the regular case, where the caller is in no list, \<open>thread_wait\<close> does not wait: it enters
  itself in the waiter list of the thread and returns at once, still running, with the wait code it
  had before the call.\<close>

theorem thread_wait_returns_at_once:
  assumes "sched_ok s rs bs" and "t \<noteq> 0"
    and "dll heap_ops (nodes s) (thread_waiters t) ws" and "set ws \<subseteq> range TWaitNode"
    and "TWaitNode (running s) \<notin> set ws"
  shows "\<exists>s'. thread_wait s t = Some (Returns (wait_code (thr s (running s))), s') \<and>
     running s' = running s \<and> thr s' = thr s \<and> thread_lists (nodes s') rs bs [] \<and>
     dll heap_ops (nodes s') (thread_waiters t) (TWaitNode (running s) # ws)"
  using wait_in_list [OF assms(1,3,4,5)] assms(2)
  by (auto simp: thread_wait_def THREAD_CUR_def)

theorem thread_wait_returns_at_once_witness:
  "\<exists>s'. thread_wait demo_waiting 0x2000 = Some (Returns 7, s') \<and> running s' = 0x1000"
proof -
  have lists: "thread_lists (nodes demo_waiting) [0x2000, 0x3000] [0x4000] []"
    by (simp add: thread_lists_def dll_def spine_def demo_waiting_def demo_nodes_def)
  have ok: "sched_ok demo_waiting [0x2000, 0x3000] [0x4000]"
    unfolding sched_ok_def
    by (intro conjI lists) (simp_all add: demo_waiting_def demo_state_def placed_def demo_thread_def demo_process_def)
  have "dll heap_ops (nodes demo_waiting) (thread_waiters 0x2000) [TWaitNode 0x4000]"
    by (simp add: dll_def spine_def demo_waiting_def demo_nodes_def)
  from thread_wait_returns_at_once [OF ok _ this] show ?thesis
    by (auto simp: demo_waiting_def demo_state_def demo_thread_def)
qed

end
