(* ===== verification/Creation.thy ===== *)
theory Creation
  imports Sched
begin

text \<open>
  Creating threads: thread ids, the stack page a new thread starts on, and what \<open>thread_create\<close> and
  \<open>thread_cleanup\<close> do to the lists and the thread table of the process.
\<close>

section \<open>Thread ids and pages\<close>

lemma free_slot_spec:
  "case free_slot bs i of
     Some j \<Rightarrow> i \<le> j \<and> j < i + length bs \<and> \<not> bs ! (j - i) \<and> (\<forall>k. i \<le> k \<and> k < j \<longrightarrow> bs ! (k - i))
   | None \<Rightarrow> (\<forall>b\<in>set bs. b)"
proof (induction bs arbitrary: i)
  case (Cons b bs)
  show ?case
  proof (cases b)
    case True
    have shift: "(b # bs) ! (k - i) = bs ! (k - Suc i)" if "Suc i \<le> k" for k
      using that by (cases "k - i") (auto simp: nth_Cons' Suc_diff_Suc diff_Suc split: nat.split)
    show ?thesis
    proof (cases "free_slot bs (Suc i)")
      case None
      then show ?thesis using Cons [of "Suc i"] True by simp
    next
      case (Some j)
      then have j: "Suc i \<le> j" "j < Suc i + length bs" "\<not> bs ! (j - Suc i)"
          "\<And>k. Suc i \<le> k \<Longrightarrow> k < j \<Longrightarrow> bs ! (k - Suc i)"
        using Cons [of "Suc i"] by auto
      have "(b # bs) ! (k - i)" if "i \<le> k" "k < j" for k
        using that True j(4) [of k] shift [of k] by (cases "k = i") auto
      then show ?thesis using Some True j shift [of j] by simp
    qed
  qed simp
qed simp

text \<open>\<open>allocate_tid\<close> hands out the least free thread id and marks it, and nothing else, as taken; when
  all 512 are taken it returns 513 (\<open>MAX_TID + 1\<close>) and changes nothing.\<close>

theorem allocate_tid_least:
  assumes "length (tids s) = MAX_TID"
  shows "(\<exists>i<MAX_TID. \<not> tids s ! i \<and> (\<forall>j<i. tids s ! j) \<and>
        allocate_tid s = (of_nat i, s\<lparr>tids := (tids s)[i := True]\<rparr>)) \<or>
     ((\<forall>b\<in>set (tids s). b) \<and> allocate_tid s = (513, s))"
proof (cases "free_slot (tids s) 0")
  case None
  then have "\<forall>b\<in>set (tids s). b" "allocate_tid s = (513, s)"
    using free_slot_spec [of "tids s" 0] assms by (simp_all add: allocate_tid_def)
  then show ?thesis by blast
next
  case (Some i)
  then show ?thesis using free_slot_spec [of "tids s" 0] assms by (auto simp: allocate_tid_def)
qed

theorem allocate_tid_least_witness:
  "(\<exists>i<MAX_TID. \<not> tids demo_state ! i \<and> (\<forall>j<i. tids demo_state ! j) \<and>
      allocate_tid demo_state = (of_nat i, demo_state\<lparr>tids := (tids demo_state)[i := True]\<rparr>)) \<or>
   ((\<forall>b\<in>set (tids demo_state). b) \<and> allocate_tid demo_state = (513, demo_state))"
  by (rule allocate_tid_least) (simp add: demo_state_def)

lemma sint_tid: "i < 512 \<Longrightarrow> sint (of_nat i :: u32) = int i"
  by (simp add: signed_of_nat signed_take_bit_int_eq_self)

lemma allocate_tid_at:
  assumes "i < MAX_TID" and "length (tids s) = MAX_TID" and "\<not> tids s ! i" and "\<forall>j<i. tids s ! j"
  shows "allocate_tid s = (of_nat i, s\<lparr>tids := (tids s)[i := True]\<rparr>)"
proof -
  have f: "case free_slot (tids s) 0 of Some j \<Rightarrow> \<not> tids s ! j \<and> (\<forall>k<j. tids s ! k) | None \<Rightarrow> \<forall>b\<in>set (tids s). b"
    using free_slot_spec [of "tids s" 0] by (auto split: option.splits)
  have "tids s ! i \<in> set (tids s)" using assms(1,2) by simp
  then have "free_slot (tids s) 0 \<noteq> None" using f assms(3) by (metis option.simps(4))
  then obtain j where j: "free_slot (tids s) 0 = Some j" "\<not> tids s ! j" "\<forall>k<j. tids s ! k" using f by auto
  have "j = i" using j(2,3) assms(3,4) by (cases j i rule: linorder_cases) auto
  then show ?thesis using j(1) assms(2) by (simp add: allocate_tid_def)
qed

lemma allocate_tid_full:
  assumes "length (tids s) = MAX_TID" and "\<forall>b\<in>set (tids s). b"
  shows "allocate_tid s = (513, s)"
proof -
  have "free_slot (tids s) 0 = None"
  proof (rule ccontr)
    assume "free_slot (tids s) 0 \<noteq> None"
    then obtain j where "j < length (tids s)" "\<not> tids s ! j"
      using free_slot_spec [of "tids s" 0] by (auto split: option.splits)
    then show False using assms(2) nth_mem by blast
  qed
  then show ?thesis using assms(1) by (simp add: allocate_tid_def)
qed

text \<open>\<open>get_running\<close> finds the thread from any stack pointer inside its page.\<close>

theorem get_running_page:
  assumes "t AND 4095 = 0" and "off < 4096"
  shows "get_running (t + off) = t"
proof -
  have m: "(4095 :: u32) = mask 12" "(STACK_SIZE - 1 :: u32) = mask 12" by (simp_all add: mask_eq_exp_minus_1)
  have t: "take_bit 12 t = 0" using assms(1) by (simp add: m take_bit_eq_mask and.commute)
  have off: "take_bit 12 off = off"
    using assms(2) by (simp add: word_less_nat_alt take_bit_nat_eq_self_iff take_bit_eq_mod
        word_unat_eq_iff unat_mod)
  have disj: "t AND off = 0"
  proof (rule bit_word_eqI)
    fix n assume "n < LENGTH(32)"
    have "bit t n \<Longrightarrow> 12 \<le> n" using arg_cong [OF t, of "\<lambda>w. bit w n"] by (auto simp: bit_take_bit_iff)
    moreover have "bit off n \<Longrightarrow> n < 12" using arg_cong [OF off, of "\<lambda>w. bit w n"] by (auto simp: bit_take_bit_iff)
    ultimately show "bit (t AND off) n = bit (0 :: u32) n" by (auto simp: bit_and_iff)
  qed
  then have sum: "t + off = t OR off" by (rule disjunctive_add_eq_or)
  show ?thesis
  proof (rule bit_word_eqI)
    fix n assume n: "n < LENGTH(32)"
    have "bit t n \<Longrightarrow> 12 \<le> n" using arg_cong [OF t, of "\<lambda>w. bit w n"] by (auto simp: bit_take_bit_iff)
    moreover have "bit off n \<Longrightarrow> n < 12" using arg_cong [OF off, of "\<lambda>w. bit w n"] by (auto simp: bit_take_bit_iff)
    ultimately show "bit (get_running (t + off)) n = bit t n"
      unfolding get_running_def sum m(2) using n
      by (auto simp: bit_and_iff bit_or_iff bit_not_iff bit_mask_iff)
  qed
qed

theorem get_running_page_witness: "get_running (0x402000 + 0xABC) = 0x402000"
  by (rule get_running_page) simp_all

section \<open>thread\_create\<close>

text \<open>The state of \<open>thread_create\<close> just before it puts the new thread \<open>p\<close> into the ready list; \<open>i\<close> is its
  thread id, \<open>ts\<close> the taken ids with it.\<close>

definition new_thread ::
    "kstate \<Rightarrow> u32 \<Rightarrow> u32 kalloc \<Rightarrow> u32 \<Rightarrow> bool list \<Rightarrow> u8 \<Rightarrow> string \<Rightarrow> u32 \<Rightarrow> u32 \<Rightarrow> u32 \<Rightarrow> u32 \<Rightarrow> kstate" where
  "new_thread s p k i ts prio name proc child func aux = disable_interrupts
     (upd_thr p (\<lambda>r. r\<lparr>wait_code := 0, magic := 0x33\<rparr>) (k_init (upd_thr p (\<lambda>r. r\<lparr>t_frame :=
        \<lparr>f_function = func, f_aux = aux, tail_eip = THREAD_EXECUTE, stack_eip = FIRST_SWITCH_ENTRY,
         stack_ebp = 0\<rparr>, esp := p + STACK_SIZE - 12 - 4 - 20, t_state := THREAD_READY\<rparr>)
      (upd_prc proc (\<lambda>r. r\<lparr>threads := (threads (prc s proc))[unat child := p]\<rparr>)
       (upd_thr p (\<lambda>r. r\<lparr>tid := i, t_state := THREAD_READY, t_name := name, priority := prio,
          t_pid := pid (prc s proc), child_num := child, t_proc := proc\<rparr>) (s\<lparr>kmm := k, tids := ts\<rparr>))))
      (thread_waiters p)))"

lemma thread_create_inserts:
  assumes page: "palloc_mult (kmm s) 1 = Some (p, k)" "p \<noteq> 0" "tid (thr s p) \<noteq> 513"
    and name: "length name < 37" and slot: "unat child < length (threads (prc s proc))"
    and id: "allocate_tid (s\<lparr>kmm := k\<rparr>) = (i, s\<lparr>kmm := k, tids := ts\<rparr>)"
  shows "thread_create s prio name proc child func aux = do {
       s' \<leftarrow> k_insert (new_thread s p k i ts prio name proc child func aux) ready_threads (TNode p);
       Some (sint (tid (thr s' p)), enable_interrupts s') }"
  using page name slot id
  by (simp add: thread_create_def put_name_def arr_put_def Let_def new_thread_def)

lemma new_thread_simps [simp]:
  "nodes (new_thread s p k i ts prio name proc child func aux) = list_init heap_ops (nodes s) (thread_waiters p)"
  "kmm (new_thread s p k i ts prio name proc child func aux) = k"
  "running (new_thread s p k i ts prio name proc child func aux) = running s"
  "idle_t (new_thread s p k i ts prio name proc child func aux) = idle_t s"
  "thread_ticks (new_thread s p k i ts prio name proc child func aux) = thread_ticks s"
  "prc (new_thread s p k i ts prio name proc child func aux) =
     (prc s)(proc := (prc s proc)\<lparr>threads := (threads (prc s proc))[unat child := p]\<rparr>)"
  by (simp_all add: new_thread_def k_init_def)

lemma new_thread_thr [simp]:
  "t \<noteq> p \<Longrightarrow> thr (new_thread s p k i ts prio name proc child func aux) t = thr s t"
  "thr (new_thread s p k i ts prio name proc child func aux) p = (thr s p)\<lparr>tid := i, t_state := THREAD_READY,
     t_name := name, priority := prio, t_pid := pid (prc s proc), child_num := child, t_proc := proc,
     t_frame := \<lparr>f_function = func, f_aux = aux, tail_eip = THREAD_EXECUTE, stack_eip = FIRST_SWITCH_ENTRY,
       stack_ebp = 0\<rparr>, esp := p + 4060, wait_code := 0, magic := 0x33\<rparr>"
  by (simp_all add: new_thread_def k_init_def)

text \<open>The waiter list of the new thread is set up; the lists of the scheduler are not touched.\<close>

lemma waiters_init:
  assumes "head l \<notin> sched_nodes" and "tail l \<notin> sched_nodes" and "head l \<noteq> tail l"
  shows "dll heap_ops (list_init heap_ops h l) l []"
    and "same_on heap_ops (- {head l, tail l}) h (list_init heap_ops h l)"
    and "same_on heap_ops sched_nodes h (list_init heap_ops h l)"
proof -
  show "dll heap_ops (list_init heap_ops h l) l []" by (rule hs.init_dll) (simp_all add: assms(3))
  show frame: "same_on heap_ops (- {head l, tail l}) h (list_init heap_ops h l)"
    using hs.init_frame [of l h] by (simp add: Compl_eq_Diff_UNIV)
  show "same_on heap_ops sched_nodes h (list_init heap_ops h l)"
    by (rule same_on_sub [OF frame]) (use assms(1,2) in auto)
qed

text \<open>What \<open>thread_create\<close> does with whatever id \<open>allocate_tid\<close> gives.\<close>

lemma thread_create_puts:
  assumes lists: "thread_lists (nodes s) rs bs ds" and new: "p \<notin> set (rs @ bs @ ds)"
    and page: "palloc_mult (kmm s) 1 = Some (p, k)" "p \<noteq> 0" "tid (thr s p) \<noteq> 513"
    and name: "length name < 37" and slot: "unat child < length (threads (prc s proc))"
    and id: "allocate_tid (s\<lparr>kmm := k\<rparr>) = (i, s\<lparr>kmm := k, tids := ts\<rparr>)"
  shows "\<exists>s'. thread_create s prio name proc child func aux = Some (sint i, s') \<and> tids s' = ts \<and> kmm s' = k \<and>
     thread_lists (nodes s') (p # rs) bs ds \<and> dll heap_ops (nodes s') (thread_waiters p) [] \<and>
     t_state (thr s' p) = THREAD_READY \<and> tid (thr s' p) = i \<and> t_name (thr s' p) = name \<and>
     t_proc (thr s' p) = proc \<and> child_num (thr s' p) = child \<and> t_pid (thr s' p) = pid (prc s proc) \<and>
     threads (prc s' proc) = (threads (prc s proc))[unat child := p] \<and>
     esp (thr s' p) = p + 4060 \<and>
     t_frame (thr s' p) = \<lparr>f_function = func, f_aux = aux, tail_eip = THREAD_EXECUTE,
       stack_eip = FIRST_SWITCH_ENTRY, stack_ebp = 0\<rparr> \<and>
     (\<forall>u. u \<noteq> p \<longrightarrow> thr s' u = thr s u)"
proof -
  let ?s1 = "new_thread s p k i ts prio name proc child func aux"
  note w = waiters_init [of "thread_waiters p" "nodes s", simplified]
  have w0: "dll heap_ops (nodes ?s1) (thread_waiters p) []" using w(1) by (simp add: thread_waiters_def)
  have "thread_lists (nodes ?s1) rs bs ds"
    using thread_lists_frame [OF lists w(3)] by (simp add: thread_waiters_def)
  then obtain h2 where h2: "k_insert ?s1 ready_threads (TNode p) = Some (?s1\<lparr>nodes := h2\<rparr>)"
      "thread_lists h2 (p # rs) bs ds" "same_on heap_ops (- sched_nodes) (nodes ?s1) h2"
    using ready_insert [of ?s1 rs bs ds p] new by blast
  have "dll heap_ops h2 (thread_waiters p) []"
    using w0 h2(3) by (rule dll_frame) (simp add: set_spine)
  moreover have "thread_create s prio name proc child func aux =
      Some (sint i, enable_interrupts (?s1\<lparr>nodes := h2\<rparr>))"
    using thread_create_inserts [OF page name slot id] h2(1) by simp
  ultimately show ?thesis using h2(2) by (simp add: new_thread_def k_init_def)
qed

text \<open>C26: When a page is available, the name fits and a thread id is free, \<open>thread_create\<close> puts a new thread at
  the front of the ready list: ready, with an empty waiter list, the least thread id that was free, which
  is then taken, its parent and slot, entered in
  the thread table, and with a stack at the top of its page from which the first switch enters
  \<open>first_switch_entry\<close> and then \<open>thread_execute\<close> with the given function and argument.  No other thread
  changes, and the id is the result.\<close>

theorem thread_create_ready:
  assumes "thread_lists (nodes s) rs bs ds" and "p \<notin> set (rs @ bs @ ds)"
    and "palloc_mult (kmm s) 1 = Some (p, k)" and "p \<noteq> 0" and "tid (thr s p) \<noteq> 513"
    and "length name < 37" and "unat child < length (threads (prc s proc))"
    and "length (tids s) = MAX_TID" and "i < MAX_TID" and "\<not> tids s ! i" and "\<forall>j<i. tids s ! j"
  shows "\<exists>s'. thread_create s prio name proc child func aux = Some (int i, s') \<and>
     tids s' = (tids s)[i := True] \<and> kmm s' = k \<and>
     thread_lists (nodes s') (p # rs) bs ds \<and> dll heap_ops (nodes s') (thread_waiters p) [] \<and>
     t_state (thr s' p) = THREAD_READY \<and> tid (thr s' p) = of_nat i \<and> t_name (thr s' p) = name \<and>
     t_proc (thr s' p) = proc \<and> child_num (thr s' p) = child \<and> t_pid (thr s' p) = pid (prc s proc) \<and>
     threads (prc s' proc) = (threads (prc s proc))[unat child := p] \<and>
     esp (thr s' p) = p + 4060 \<and>
     t_frame (thr s' p) = \<lparr>f_function = func, f_aux = aux, tail_eip = THREAD_EXECUTE,
       stack_eip = FIRST_SWITCH_ENTRY, stack_ebp = 0\<rparr> \<and>
     (\<forall>u. u \<noteq> p \<longrightarrow> thr s' u = thr s u)"
proof -
  have "allocate_tid (s\<lparr>kmm := k\<rparr>) = (of_nat i, s\<lparr>kmm := k, tids := (tids s)[i := True]\<rparr>)"
    using allocate_tid_at [of i "s\<lparr>kmm := k\<rparr>"] assms(8-11) by simp
  from thread_create_puts [OF assms(1-7) this] show ?thesis unfolding sint_tid [OF assms(9)] .
qed

definition demo_fresh :: kstate where
  "demo_fresh = demo_state\<lparr>kmm := \<lparr>kmem = (\<lambda>_. 0), free_map = \<lparr>map_p = start_addr, bits = 20\<rparr>,
     malloc_lock = \<lparr>lval = 0, owner = None\<rparr>, palloc_lock = \<lparr>lval = 0, owner = None\<rparr>,
     allocations = \<lparr>head = 8192, tail = 8200\<rparr>,
     default_slab = \<lparr>smem = 0, mem_size = 0, free_mem_size = 0, slab_size = 64, sdata = 0\<rparr>\<rparr>\<rparr>"

lemma demo_fresh_page: "\<exists>k. palloc_mult (kmm demo_fresh) 1 = Some (start_addr, k)"
proof -
  have "bitmap_find_range (\<lambda>_. 0) \<lparr>map_p = start_addr, bits = 20\<rparr> 0 20 1 False = 0"
    by (simp add: bitmap_find_range_def find_range_loop.simps bitmap_test_def)
  then show ?thesis using palloc_mult_unlocked [of "kmm demo_fresh" 1] by (simp add: demo_fresh_def Let_def)
qed

theorem thread_create_ready_witness:
  "\<exists>s'. thread_create demo_fresh 0 ''main'' 0x9000 5 0x100 0 = Some (0, s') \<and>
     thread_lists (nodes s') [start_addr, 0x2000, 0x3000] [0x4000] [] \<and> tid (thr s' start_addr) = 0"
proof -
  obtain k where k: "palloc_mult (kmm demo_fresh) 1 = Some (start_addr, k)" using demo_fresh_page by blast
  have lists: "thread_lists (nodes demo_fresh) [0x2000, 0x3000] [0x4000] []"
    using demo_lists by (simp add: demo_fresh_def)
  from thread_create_ready [OF lists _ k, of "''main''" 5 "0x9000" 0 0 "0x100" 0] show ?thesis
    by (auto simp: demo_fresh_def demo_state_def demo_thread_def demo_process_def)
qed

text \<open>With all 512 ids taken the thread is created all the same, with the id 513: the comment asks for a
  refusal, but the code looks for 513 in the page that it has just allocated.\<close>

theorem thread_create_over_limit:
  assumes "thread_lists (nodes s) rs bs ds" and "p \<notin> set (rs @ bs @ ds)"
    and "palloc_mult (kmm s) 1 = Some (p, k)" and "p \<noteq> 0" and "tid (thr s p) \<noteq> 513"
    and "length name < 37" and "unat child < length (threads (prc s proc))"
    and "length (tids s) = MAX_TID" and "\<forall>b\<in>set (tids s). b"
  shows "\<exists>s'. thread_create s prio name proc child func aux = Some (513, s') \<and> tids s' = tids s \<and>
     thread_lists (nodes s') (p # rs) bs ds \<and> t_state (thr s' p) = THREAD_READY \<and> tid (thr s' p) = 513"
proof -
  have "allocate_tid (s\<lparr>kmm := k\<rparr>) = (513, s\<lparr>kmm := k, tids := tids s\<rparr>)"
    using allocate_tid_full [of "s\<lparr>kmm := k\<rparr>"] assms(8,9) by simp
  moreover have "sint (513 :: u32) = 513" by simp
  ultimately show ?thesis using thread_create_puts [OF assms(1-7), of 513 "tids s" prio func aux] by auto
qed

theorem thread_create_over_limit_witness:
  "\<exists>s'. thread_create (demo_fresh\<lparr>tids := replicate 512 True\<rparr>) 0 ''main'' 0x9000 5 0x100 0 = Some (513, s') \<and>
     thread_lists (nodes s') [start_addr, 0x2000, 0x3000] [0x4000] [] \<and> tid (thr s' start_addr) = 513"
proof -
  let ?s = "demo_fresh\<lparr>tids := replicate 512 True\<rparr>"
  obtain k where k: "palloc_mult (kmm ?s) 1 = Some (start_addr, k)" using demo_fresh_page by auto
  have lists: "thread_lists (nodes ?s) [0x2000, 0x3000] [0x4000] []"
    using demo_lists by (simp add: demo_fresh_def)
  from thread_create_over_limit [OF lists _ k, of "''main''" 5 "0x9000" 0 "0x100" 0] show ?thesis
    by (auto simp: demo_fresh_def demo_state_def demo_thread_def demo_process_def)
qed

end
