(* ===== verification/Procs.thy ===== *)
theory Procs
  imports Creation
begin

text \<open>
  kernel/proc.c: processes, the containers of threads.  \<open>proc_notify\<close>, \<open>proc_cleanup\<close> and
  \<open>proc_set_active_thread\<close>, which thread.c calls, are in the theory Tasks.  A process is known by
  the address of its page; \<open>prc\<close> gives what stands there as a \<open>struct process\<close>, so the fields of
  a page that \<open>palloc\<close> has just returned are whatever that memory held.
\<close>

section \<open>Initialisation and creation\<close>

definition stream_setup :: "std_stream \<Rightarrow> std_stream option" where
  "stream_setup st = flush_std (init_std st)"

text \<open>The part that \<open>init_processes\<close> and \<open>proc_create\<close> have in common: the three streams.\<close>

definition proc_streams :: "u32 \<Rightarrow> kstate \<Rightarrow> kstate option" where
  "proc_streams p s = do {
     i \<leftarrow> stream_setup (std_in (prc s p));
     out \<leftarrow> stream_setup (std_out (prc s p));
     e \<leftarrow> stream_setup (std_err (prc s p));
     Some (upd_prc p (\<lambda>r. r\<lparr>std_in := i, std_out := out, std_err := e,
        p_stdin := StdIn p, p_stdout := StdOut p, p_stderr := StdErr p\<rparr>) s) }"

text \<open>\<open>p->pid = pid_count++\<close>.\<close>

definition proc_pid :: "u32 \<Rightarrow> kstate \<Rightarrow> kstate" where
  "proc_pid p s = (upd_prc p (\<lambda>r. r\<lparr>pid := pid_count s\<rparr>) s)\<lparr>pid_count := pid_count s + 1\<rparr>"

definition k_palloc :: "kstate \<Rightarrow> (u32 \<times> kstate) option" where
  "k_palloc s = do { (p, k) \<leftarrow> palloc (kmm s); Some (p, s\<lparr>kmm := k\<rparr>) }"

text \<open>Without memory for the first process \<open>init_processes\<close> halts the machine.\<close>

definition init_processes :: "kstate \<Rightarrow> u32 \<Rightarrow> kstate option" where
  "init_processes s idle_code = do {
     let s = k_init s all_procs;
     (p, s) \<leftarrow> k_palloc s;
     if p = 0 then None
     else do {
       s \<leftarrow> proc_streams p s;
       let s = upd_prc p (\<lambda>r. r\<lparr>p_name := ''init''\<rparr>) s;
       let s = proc_pid p (s\<lparr>pid_count := 0\<rparr>);
       ts \<leftarrow> for_loop_m 0 MAX_NUM_THREADS (\<lambda>i ts. arr_put ts i 0) (threads (prc s p));
       let s = (upd_prc p (\<lambda>r. r\<lparr>threads := ts\<rparr>) s)\<lparr>current_p := p\<rparr>;
       let s = upd_prc p (\<lambda>r. r\<lparr>p_wait_code := 0\<rparr>) (k_init s (proc_waiters p));
       s \<leftarrow> init_threads s idle_code p;
       t \<leftarrow> arr_get (threads (prc s p)) 0;
       k_insert (upd_prc p (\<lambda>r. r\<lparr>active_thread := t\<rparr>) s) all_procs (PNode p) } }"

text \<open>
  The loop of \<open>proc_create\<close> over the thread table: it writes through the eight pointers the page
  holds, before any of them was set.
\<close>

definition mark_terminated :: "u32 \<Rightarrow> u32 \<Rightarrow> kstate \<Rightarrow> kstate option" where
  "mark_terminated p i s = do {
     t \<leftarrow> arr_get (threads (prc s p)) i;
     Some (upd_thr t (\<lambda>r. r\<lparr>t_state := THREAD_TERMINATED, child_num := i\<rparr>) s) }"

definition proc_create :: "kstate \<Rightarrow> string \<Rightarrow> u32 \<Rightarrow> u32 \<Rightarrow> (u32 \<times> kstate) option" where
  "proc_create s name func aux = do {
     (p, s) \<leftarrow> k_palloc s;
     if p = 0 then Some (0, s)
     else do {
       nm \<leftarrow> put_name 13 name;
       let s = proc_pid p (upd_prc p (\<lambda>r. r\<lparr>p_name := nm\<rparr>) s);
       s \<leftarrow> proc_streams p s;
       s \<leftarrow> for_loop_m 0 MAX_NUM_THREADS (mark_terminated p) s;
       let s = upd_prc p (\<lambda>r. r\<lparr>p_wait_code := 0, p_magic := 0x34\<rparr>) (k_init s (proc_waiters p));
       (r, s) \<leftarrow> thread_create s 0 ''main'' p 0 func aux;
       if r \<noteq> - THREAD_CREATE_FAIL
       then do {
         let s = upd_prc p (\<lambda>r. r\<lparr>num_live_threads := 1\<rparr>) s;
         t \<leftarrow> arr_get (threads (prc s p)) 0;
         s \<leftarrow> k_insert_end (upd_prc p (\<lambda>r. r\<lparr>active_thread := t\<rparr>) s) all_procs (PNode p);
         Some (p, s) }
       else Some (0, s) } }"

text \<open>The loop \<open>for (i = 0; i < MAX_NUM_THREADS; i++) if (threads[i] == NULL) return i;\<close>.\<close>

fun null_slot :: "u32 list \<Rightarrow> int \<Rightarrow> int" where
  "null_slot [] i = -1"
| "null_slot (t # ts) i = (if t = 0 then i else null_slot ts (i + 1))"

definition proc_get_free_thread :: "kstate \<Rightarrow> u32 \<Rightarrow> int" where
  "proc_get_free_thread s p = null_slot (take 8 (threads (prc s p))) 0"

definition proc_create_thread :: "kstate \<Rightarrow> u8 \<Rightarrow> string \<Rightarrow> u32 \<Rightarrow> u32 \<Rightarrow> (int \<times> kstate) option" where
  "proc_create_thread s prio name func aux =
     (let thread_slot = proc_get_free_thread s (PROC_CUR s)
      in if thread_slot = -1 then Some (-1, s)
         else do {
           (i, s) \<leftarrow> thread_create s prio name (PROC_CUR s) (word_of_int thread_slot) func aux;
           let s = (if i \<noteq> - THREAD_CREATE_FAIL
                    then upd_prc (PROC_CUR s) (\<lambda>r. r\<lparr>num_live_threads := num_live_threads r + 1\<rparr>) s else s);
           Some (i, s) })"

section \<open>Waiting and killing\<close>

definition proc_wait :: "kstate \<Rightarrow> u32 \<Rightarrow> (int ctl \<times> kstate) option" where
  "proc_wait s p =
     (if p = 0 then Some (Returns (-1), s)
      else do {
        s \<leftarrow> k_insert s (proc_waiters p) (TWaitNode (THREAD_CUR s));
        (c, s) \<leftarrow> thread_block s;
        (case c of
           Returns _ \<Rightarrow> Some (Returns (p_wait_code (prc s p)), s)
         | Switched \<Rightarrow> Some (Switched, s)) })"

text \<open>The loop of \<open>proc_kill\<close>, from slot \<open>i\<close> on with \<open>n\<close> slots to go; \<open>alive\<close> is \<open>num_alive\<close>.\<close>

fun kill_loop :: "u32 \<Rightarrow> nat \<Rightarrow> u32 \<Rightarrow> int \<Rightarrow> kstate \<Rightarrow> (int ctl \<times> kstate) option" where
  "kill_loop p 0 i alive s = Some (Returns alive, s)"
| "kill_loop p (Suc n) i alive s = do {
     t \<leftarrow> arr_get (threads (prc s p)) i;
     if t \<noteq> 0 \<and> t_state (thr s t) \<noteq> THREAD_DYING \<and> t_state (thr s t) \<noteq> THREAD_RUNNING
     then do {
       (c, s) \<leftarrow> thread_kill s t;
       (case c of
          Switched \<Rightarrow> Some (Switched, s)
        | Returns r \<Rightarrow> kill_loop p n (i + 1) (if r \<noteq> -1 then alive - 1 else alive) s) }
     else kill_loop p n (i + 1) alive s }"

text \<open>What \<open>proc_kill\<close> stores through a non-NULL \<open>ret\<close> is the first result.\<close>

definition proc_kill :: "kstate \<Rightarrow> u32 \<Rightarrow> bool \<Rightarrow> (int option \<times> unit ctl \<times> kstate) option" where
  "proc_kill s p has_ret =
     (if p = 0 then Some (None, Returns (), s)
      else do {
        (c, s) \<leftarrow> kill_loop p 8 0 (uint (num_live_threads (prc s p))) s;
        (case c of
           Switched \<Rightarrow> Some (None, Switched, s)
         | Returns alive \<Rightarrow>
             if PROC_CUR s = p \<and> alive = 1
             then do {
               (_, c, s) \<leftarrow> thread_exit s False;
               Some (if has_ret then Some (alive - 1) else None, c, s) }
             else Some (if has_ret then Some alive else None, Returns (), s)) })"

definition proc_exit :: "kstate \<Rightarrow> bool \<Rightarrow> (int option \<times> unit ctl \<times> kstate) option" where
  "proc_exit s has_ret = proc_kill s (PROC_CUR s) has_ret"

section \<open>Access\<close>

text \<open>\<open>LIST_ENTRY(node, struct process, node)\<close>.\<close>

fun proc_of_node :: "nref \<Rightarrow> u32 option" where
  "proc_of_node (PNode p) = Some p"
| "proc_of_node _ = None"

text \<open>The search of \<open>proc_set_active\<close>; a NULL \<open>node\<close> is dereferenced by \<open>list_hasNext\<close>.\<close>

partial_function (option) find_pid :: "kstate \<Rightarrow> u32 \<Rightarrow> nref option \<Rightarrow> u32 option option" where
  "find_pid s i node = do {
     n \<leftarrow> node;
     if list_hasNext heap_ops (nodes s) n
     then do {
       p \<leftarrow> proc_of_node n;
       if p \<noteq> 0 \<and> pid (prc s p) = i then Some (Some p)
       else find_pid s i (get_next heap_ops (nodes s) n) }
     else Some None }"

definition proc_set_active :: "kstate \<Rightarrow> u32 \<Rightarrow> kstate option" where
  "proc_set_active s i = do {
     r \<leftarrow> find_pid s i (get_next heap_ops (nodes s) (head all_procs));
     Some (case r of Some p \<Rightarrow> s\<lparr>active_p := p\<rparr> | None \<Rightarrow> s) }"

definition proc_set_active_p :: "kstate \<Rightarrow> u32 \<Rightarrow> kstate" where
  "proc_set_active_p s p = s\<lparr>active_p := p\<rparr>"

definition proc_get_state :: "kstate \<Rightarrow> u32 \<Rightarrow> thread_states" where
  "proc_get_state s p = t_state (thr s (active_thread (prc s p)))"

definition proc_get_active :: "kstate \<Rightarrow> u32" where
  "proc_get_active s = active_p s"

definition proc_peek_all_list :: "kstate \<Rightarrow> nref option" where
  "proc_peek_all_list s = list_peek heap_ops (nodes s) all_procs"

definition proc_get_live_t_count :: "kstate \<Rightarrow> u32 \<Rightarrow> u8" where
  "proc_get_live_t_count s p = num_live_threads (prc s p)"

section \<open>Properties\<close>

lemma find_pid_path:
  "links heap_ops (nodes s) (map PNode ps @ [AllTail]) \<Longrightarrow> n_next (nodes s AllTail) = None \<Longrightarrow> 0 \<notin> set ps \<Longrightarrow>
     find_pid s i (Some (hd (map PNode ps @ [AllTail]))) = Some (find (\<lambda>p. pid (prc s p) = i) ps)"
proof (induction ps)
  case Nil
  then show ?case by (simp add: find_pid.simps list_hasNext_def)
next
  case (Cons p ps)
  let ?rest = "map PNode ps @ [AllTail]"
  have nxt: "n_next (nodes s (PNode p)) = Some (hd ?rest)" and links: "links heap_ops (nodes s) ?rest"
    using Cons.prems(1) by (cases ps, auto)+
  have "find_pid s i (Some (hd ?rest)) = Some (find (\<lambda>p. pid (prc s p) = i) ps)"
    using Cons.IH [OF links] Cons.prems by simp
  then show ?case
    using nxt Cons.prems(3) by (subst find_pid.simps) (simp add: list_hasNext_def)
qed

text \<open>\<open>proc_set_active\<close> terminates and makes the first process of the list with the given pid
  active; when there is none it changes nothing.\<close>

theorem proc_set_active_finds:
  assumes "dll heap_ops (nodes s) all_procs (map PNode ps)" and "0 \<notin> set ps"
  shows "proc_set_active s i =
     Some (case find (\<lambda>p. pid (prc s p) = i) ps of Some p \<Rightarrow> s\<lparr>active_p := p\<rparr> | None \<Rightarrow> s)"
proof -
  have d: "links heap_ops (nodes s) (AllHead # map PNode ps @ [AllTail])" "n_next (nodes s AllTail) = None"
    using assms(1) by (simp_all add: dll_def spine_def all_procs_def)
  then have "links heap_ops (nodes s) (map PNode ps @ [AllTail])" by (cases ps) auto
  moreover have "n_next (nodes s AllHead) = Some (hd (map PNode ps @ [AllTail]))"
    using d(1) by (cases ps) auto
  ultimately show ?thesis
    using find_pid_path [of s ps i] d(2) assms(2) by (simp add: proc_set_active_def all_procs_def)
qed

definition demo_procs :: kstate where
  "demo_procs = demo_state\<lparr>nodes := demo_nodes
     (AllHead := \<lparr>n_next = Some (PNode 0x9000), n_prev = None\<rparr>,
      PNode 0x9000 := \<lparr>n_next = Some AllTail, n_prev = Some AllHead\<rparr>,
      AllTail := \<lparr>n_next = None, n_prev = Some (PNode 0x9000)\<rparr>), active_p := 0\<rparr>"

theorem proc_set_active_finds_witness:
  "proc_set_active demo_procs 0 = Some (demo_procs\<lparr>active_p := 0x9000\<rparr>)"
proof -
  have "dll heap_ops (nodes demo_procs) all_procs (map PNode [0x9000])"
    by (simp add: dll_def spine_def all_procs_def demo_procs_def)
  from proc_set_active_finds [OF this, of 0] show ?thesis
    by (simp add: demo_procs_def demo_state_def demo_process_def)
qed

lemma null_slot_spec:
  "null_slot ts i = -1 \<and> 0 \<notin> set ts \<or>
     (\<exists>j<length ts. null_slot ts i = i + int j \<and> ts ! j = 0 \<and> (\<forall>k<j. ts ! k \<noteq> 0))"
proof (induction ts arbitrary: i)
  case (Cons t ts)
  show ?case
  proof (cases "t = 0")
    case False
    from Cons [of "i + 1"] show ?thesis
    proof (elim disjE exE conjE)
      fix j assume "j < length ts" "null_slot ts (i + 1) = i + 1 + int j" "ts ! j = 0" "\<forall>k<j. ts ! k \<noteq> 0"
      then show ?thesis using False
        by (intro disjI2 exI [of _ "Suc j"]) (auto simp: nth_Cons split: nat.split)
    qed (use False in simp)
  qed auto
qed simp

text \<open>\<open>proc_get_free_thread\<close> returns the first slot of the thread table that holds NULL, and -1 when
  none does.\<close>

theorem proc_get_free_thread_first:
  assumes "length (threads (prc s p)) = 8"
  shows "proc_get_free_thread s p = -1 \<and> 0 \<notin> set (threads (prc s p)) \<or>
     (\<exists>j<8. proc_get_free_thread s p = int j \<and> threads (prc s p) ! j = 0 \<and> (\<forall>k<j. threads (prc s p) ! k \<noteq> 0))"
  using null_slot_spec [of "threads (prc s p)" 0] assms by (auto simp: proc_get_free_thread_def)

theorem proc_get_free_thread_first_witness:
  "proc_get_free_thread demo_state 0x9000 = -1 \<and> 0 \<notin> set (threads (prc demo_state 0x9000)) \<or>
     (\<exists>j<8. proc_get_free_thread demo_state 0x9000 = int j \<and> threads (prc demo_state 0x9000) ! j = 0 \<and>
        (\<forall>k<j. threads (prc demo_state 0x9000) ! k \<noteq> 0))"
  by (rule proc_get_free_thread_first) (simp add: demo_state_def demo_process_def)

text \<open>\<open>proc_create_thread\<close> counts a thread that it failed to create: when no page is left,
  \<open>thread_create\<close> returns -1, which is not \<open>-THREAD_CREATE_FAIL\<close>, and the live count goes up.\<close>

theorem proc_create_thread_counts_failure:
  assumes "proc_get_free_thread s (PROC_CUR s) \<noteq> -1" and "palloc_mult (kmm s) 1 = Some (0, k)"
  shows "\<exists>s'. proc_create_thread s prio name func aux = Some (-1, s') \<and>
     num_live_threads (prc s' (PROC_CUR s)) = num_live_threads (prc s (PROC_CUR s)) + 1 \<and>
     thr s' = thr s \<and> nodes s' = nodes s"
  using assms by (simp add: proc_create_thread_def thread_create_def Let_def PROC_CUR_def)

theorem proc_create_thread_counts_failure_witness:
  "\<exists>s s'. proc_create_thread s 0 ''t'' 0 0 = Some (-1, s') \<and> num_live_threads (prc s' (PROC_CUR s)) = 5 \<and>
     num_live_threads (prc s (PROC_CUR s)) = 4"
proof -
  define s where "s = demo_fresh\<lparr>kmm := (kmm demo_fresh)\<lparr>free_map := \<lparr>map_p = start_addr, bits = 0\<rparr>\<rparr>\<rparr>"
  have "palloc_mult (kmm s) 1 = Some (0, kmm s)"
    using palloc_mult_unlocked [of "kmm s" 1]
    by (simp add: s_def demo_fresh_def Let_def bitmap_find_range_def find_range_loop.simps)
  moreover have "proc_get_free_thread s (PROC_CUR s) \<noteq> -1" "num_live_threads (prc s (PROC_CUR s)) = 4"
    by (simp_all add: proc_get_free_thread_def PROC_CUR_def s_def demo_fresh_def demo_state_def
        demo_thread_def demo_process_def numeral_eq_Suc)
  ultimately show ?thesis using proc_create_thread_counts_failure [of s "kmm s" 0 "''t''" 0 0] by auto
qed

text \<open>When the running thread is in no list, \<open>proc_wait\<close> does not wait: the caller enters itself in the waiter list of the process and
  comes back at once, running on.\<close>

theorem proc_wait_returns_at_once:
  assumes "sched_ok s rs bs" and "p \<noteq> 0"
    and "dll heap_ops (nodes s) (proc_waiters p) ws" and "set ws \<subseteq> range TWaitNode"
    and "TWaitNode (running s) \<notin> set ws"
  shows "proc_wait s p \<in> range (\<lambda>h. Some (Returns (p_wait_code (prc s p)), s\<lparr>nodes := h, interrupts := True\<rparr>))"
  using wait_in_list [OF assms(1,3,4,5)] assms(2)
  by (auto simp: proc_wait_def THREAD_CUR_def)

definition demo_proc_wait :: kstate where
  "demo_proc_wait = demo_state\<lparr>nodes := demo_nodes
     (PWaitersHead 0x9000 := \<lparr>n_next = Some (PWaitersTail 0x9000), n_prev = None\<rparr>,
      PWaitersTail 0x9000 := \<lparr>n_next = None, n_prev = Some (PWaitersHead 0x9000)\<rparr>)\<rparr>"

lemma demo_proc_wait_ok:
  "sched_ok demo_proc_wait [0x2000, 0x3000] [0x4000]" "dll heap_ops (nodes demo_proc_wait) (proc_waiters 0x9000) []"
proof -
  have "thread_lists (nodes demo_proc_wait) [0x2000, 0x3000] [0x4000] []"
    by (simp add: thread_lists_def dll_def spine_def demo_proc_wait_def demo_nodes_def)
  then show "sched_ok demo_proc_wait [0x2000, 0x3000] [0x4000]"
    unfolding sched_ok_def
    by (intro conjI) (simp_all add: demo_proc_wait_def demo_state_def placed_def demo_thread_def demo_process_def)
  show "dll heap_ops (nodes demo_proc_wait) (proc_waiters 0x9000) []"
    by (simp add: dll_def spine_def demo_proc_wait_def proc_waiters_def)
qed

theorem proc_wait_returns_at_once_witness:
  "\<exists>s'. proc_wait demo_proc_wait 0x9000 = Some (Returns 0, s') \<and> running s' = 0x1000"
  using proc_wait_returns_at_once [OF demo_proc_wait_ok(1) _ demo_proc_wait_ok(2)]
  by (auto simp: demo_proc_wait_def demo_state_def demo_process_def)

end
