(* ===== verification/Semaphores.thy ===== *)
theory Semaphores
  imports Procs
begin

text \<open>
  The semaphores of libk/synch.c, over the spin locks of the theory Spinlock and the thread
  operations of the theory Tasks.  \<open>val\<close> is a 32-bit two's complement \<open>int\<close>.  A semaphore is a
  record and an identity \<open>q\<close>, which names the sentinels of its waiter list in the node heap.  As
  in the theory Tasks a call that gives up the processor ends with \<open>Switched\<close>.
\<close>

record semaphore =
  sval :: u32
  slock :: "u32 spin_lock"

definition sem_waiters :: "u32 \<Rightarrow> nref list_t" where
  "sem_waiters q = \<lparr>head = SWaitersHead q, tail = SWaitersTail q\<rparr>"

section \<open>Operations\<close>

text \<open>A NULL semaphore is None.\<close>

definition semaphore_init ::
    "kstate \<Rightarrow> u32 \<Rightarrow> semaphore option \<Rightarrow> u32 \<Rightarrow> err_t \<times> semaphore option \<times> kstate" where
  "semaphore_init s q sem val =
     (case sem of
        None \<Rightarrow> (- LOCK_INIT_FAIL, None, s)
      | Some sm \<Rightarrow>
          let sm = sm\<lparr>sval := val\<rparr>;
              (ret, l) = spin_lock_init (Some (slock sm));
              sm = (case l of Some l \<Rightarrow> sm\<lparr>slock := l\<rparr> | None \<Rightarrow> sm)
          in (ret, Some sm, if ret = 0 then k_init s (sem_waiters q) else s))"

text \<open>\<open>&s->lock.owner->node\<close>: the node of the thread at address 0 when the owner is NULL.\<close>

definition owner_node :: "semaphore \<Rightarrow> nref" where
  "owner_node sm = TNode (case owner (slock sm) of None \<Rightarrow> 0 | Some t \<Rightarrow> t)"

definition sdown :: "kstate \<Rightarrow> u32 \<Rightarrow> semaphore \<Rightarrow> (err_t ctl \<times> semaphore \<times> kstate) option" where
  "sdown s q sm = do {
     s \<leftarrow> k_insert s (sem_waiters q) (owner_node sm);
     let (ret, l) = spin_lock_release (slock sm);
     let sm = sm\<lparr>slock := l\<rparr>;
     if ret < 0 then Some (Returns ret, sm, s)
     else do {
       (c, s) \<leftarrow> thread_block s;
       (case c of
          Switched \<Rightarrow> Some (Switched, sm, s)
        | Returns _ \<Rightarrow> do {
            (_, l) \<leftarrow> spin_lock_acquire (slock sm);
            Some (Returns SUCC, sm\<lparr>slock := l\<rparr>, s) }) } }"

definition semaphore_down :: "kstate \<Rightarrow> u32 \<Rightarrow> semaphore \<Rightarrow> (err_t ctl \<times> semaphore \<times> kstate) option" where
  "semaphore_down s q sm = do {
     (ret, l) \<leftarrow> spin_lock_acquire (slock sm);
     let sm = sm\<lparr>slock := l\<rparr>;
     if ret < 0 then Some (Returns ret, sm, s)
     else do {
       (c, sm, s) \<leftarrow> (if 0 <s sval sm then Some (Returns ret, sm\<lparr>sval := sval sm - 1\<rparr>, s) else sdown s q sm);
       (case c of
          Switched \<Rightarrow> Some (Switched, sm, s)
        | Returns ret \<Rightarrow>
            if ret < 0 then Some (Returns ret, sm, s)
            else let (ret, l) = spin_lock_release (slock sm); sm = sm\<lparr>slock := l\<rparr>
                 in if ret < 0 then Some (Returns ret, sm, s) else Some (Returns SUCC, sm, s)) } }"

definition semaphore_up :: "kstate \<Rightarrow> u32 \<Rightarrow> semaphore \<Rightarrow> (err_t \<times> semaphore \<times> kstate) option" where
  "semaphore_up s q sm = do {
     (ret, l) \<leftarrow> spin_lock_acquire (slock sm);
     let sm = sm\<lparr>slock := l\<rparr>;
     if ret < 0 then Some (ret, sm, s)
     else do {
       (sm, s) \<leftarrow> (if \<not> list_isEmpty heap_ops (nodes s) (sem_waiters q)
                   then do {
                     (n, s) \<leftarrow> k_pop s (sem_waiters q);
                     n \<leftarrow> n;
                     t \<leftarrow> thread_of_node n;
                     s \<leftarrow> thread_unblock s t;
                     Some (sm, s) }
                   else Some (sm\<lparr>sval := sval sm + 1\<rparr>, s));
       let (ret, l) = spin_lock_release (slock sm);
       let sm = sm\<lparr>slock := l\<rparr>;
       if ret < 0 then Some (ret, sm, s) else Some (SUCC, sm, s) } }"

definition semaphore_try_down :: "semaphore \<Rightarrow> (err_t \<times> semaphore) option" where
  "semaphore_try_down sm = do {
     (ret, l) \<leftarrow> spin_lock_acquire (slock sm);
     let sm = sm\<lparr>slock := l\<rparr>;
     if ret < 0 then Some (ret, sm)
     else if 0 <s sval sm
     then (let sm = sm\<lparr>sval := sval sm - 1\<rparr>;
               (ret, l) = spin_lock_release (slock sm); sm = sm\<lparr>slock := l\<rparr>
           in if ret < 0 then Some (ret, sm) else Some (SUCC, sm))
     else (let (_, l) = spin_lock_release (slock sm)
           in Some (- LOCK_ACQ_FAIL, sm\<lparr>slock := l\<rparr>)) }"

section \<open>Properties\<close>

lemma sem_list [simp]: "head (sem_waiters q) = SWaitersHead q" "tail (sem_waiters q) = SWaitersTail q"
  by (simp_all add: sem_waiters_def)

lemma lock_back [simp]: "lval (slock sm) = 0 \<Longrightarrow> sm\<lparr>slock := (slock sm)\<lparr>lval := 0\<rparr>\<rparr> = sm"
  by (cases sm) simp

lemma lock_same [simp]: "sm\<lparr>slock := slock sm\<rparr> = sm"
  by (cases sm) simp

definition demo_sem :: "u32 \<Rightarrow> semaphore" where
  "demo_sem v = \<lparr>sval = v, slock = \<lparr>lval = 0, owner = None\<rparr>\<rparr>"

text \<open>on a free lock, \<open>semaphore_try_down\<close> takes one unit of a positive semaphore and otherwise
  fails with \<open>-LOCK_ACQ_FAIL\<close> and leaves it alone; the lock is free again in both cases.\<close>

theorem semaphore_try_down_takes:
  assumes "lval (slock sm) = 0"
  shows "semaphore_try_down sm =
     Some (if 0 <s sval sm then (SUCC, sm\<lparr>sval := sval sm - 1\<rparr>) else (- LOCK_ACQ_FAIL, sm))"
  using assms by (simp add: semaphore_try_down_def Let_def)

theorem semaphore_try_down_takes_witness:
  "semaphore_try_down (demo_sem 2) = Some (SUCC, demo_sem 1) \<and>
   semaphore_try_down (demo_sem 0) = Some (- LOCK_ACQ_FAIL, demo_sem 0)"
  using semaphore_try_down_takes [of "demo_sem 2"] semaphore_try_down_takes [of "demo_sem 0"]
  by (simp add: demo_sem_def word_sless_alt)

text \<open>with nobody waiting, an \<open>up\<close> on a semaphore that a \<open>down\<close> has taken a unit from restores it;
  both succeed at once and leave the threads alone.\<close>

theorem semaphore_down_up:
  assumes "lval (slock sm) = 0" and "0 <s sval sm" and "dll heap_ops (nodes s) (sem_waiters q) []"
  shows "\<exists>sm'. semaphore_down s q sm = Some (Returns SUCC, sm', s) \<and> sval sm' = sval sm - 1 \<and>
     semaphore_up s q sm' = Some (SUCC, sm, s)"
  using assms dll_isEmpty [OF assms(3)] by (simp add: semaphore_down_def semaphore_up_def Let_def)

definition demo_sem_state :: kstate where
  "demo_sem_state = demo_state\<lparr>nodes := demo_nodes
     (SWaitersHead 1 := \<lparr>n_next = Some (SWaitersTail 1), n_prev = None\<rparr>,
      SWaitersTail 1 := \<lparr>n_next = None, n_prev = Some (SWaitersHead 1)\<rparr>)\<rparr>"

lemma demo_sem_waiters: "dll heap_ops (nodes demo_sem_state) (sem_waiters 1) []"
  by (simp add: dll_def spine_def demo_sem_state_def)

theorem semaphore_down_up_witness:
  "\<exists>sm'. semaphore_down demo_sem_state 1 (demo_sem 3) = Some (Returns SUCC, sm', demo_sem_state) \<and>
     semaphore_up demo_sem_state 1 sm' = Some (SUCC, demo_sem 3, demo_sem_state)"
  using semaphore_down_up [OF _ _ demo_sem_waiters, of "demo_sem 3"]
  by (auto simp: demo_sem_def word_sless_alt)

text \<open>C36: an exhausted semaphore does not hold its caller back.  In the regular case (the caller in no
  list, no owner ever recorded) \<open>semaphore_down\<close> returns success without taking anything and without
  giving up the processor, and what it enters in the waiter list is the thread at address 0, not
  the caller.\<close>

theorem semaphore_down_exhausted:
  assumes "lval (slock sm) = 0" and "owner (slock sm) = None" and "\<not> 0 <s sval sm"
    and "sched_ok s rs bs" and "0 \<notin> set (rs @ bs)" and "running s \<noteq> 0"
    and "dll heap_ops (nodes s) (sem_waiters q) (map TNode ws)" and "0 \<notin> set ws"
    and "set ws \<inter> set (rs @ bs) = {}"
  shows "\<exists>s'. semaphore_down s q sm = Some (Returns SUCC, sm, s') \<and> running s' = running s \<and>
     thread_lists (nodes s') rs bs [] \<and> dll heap_ops (nodes s') (sem_waiters q) (map TNode (0 # ws))"
proof -
  obtain h where h: "list_insert_front heap_ops (nodes s) (SWaitersHead q) (TNode 0) = Some h"
      "dll heap_ops h (sem_waiters q) (TNode 0 # map TNode ws)"
      "same_on heap_ops (- insert (TNode 0) (set (spine (sem_waiters q) (map TNode ws)))) (nodes s) h"
    using hs.insert_front_dll [OF assms(7), of "TNode 0"] assms(8)
    by (auto simp: set_spine Compl_eq_Diff_UNIV)
  have lists: "thread_lists h rs bs []"
    using assms(4,5,9) by (auto intro!: dll_frame [OF _ h(3)] simp: sched_ok_def thread_lists_def set_spine)
  let ?s1 = "s\<lparr>nodes := h\<rparr>"
  have "thread_block ?s1 = Some (Returns (), s\<lparr>nodes := h, interrupts := True\<rparr>)"
    using ready_delete [of "disable_interrupts ?s1" rs bs "[]" "running s"] lists assms(4)
    by (auto simp: sched_ok_def thread_block_def THREAD_CUR_def enable_interrupts_def disable_interrupts_def)
  moreover have "k_insert s (sem_waiters q) (owner_node (sm\<lparr>slock := (slock sm)\<lparr>lval := 1\<rparr>\<rparr>)) = Some ?s1"
    using h(1) assms(2) by (simp add: k_insert_def list_insert_def owner_node_def)
  ultimately have "semaphore_down s q sm = Some (Returns SUCC, sm, s\<lparr>nodes := h, interrupts := True\<rparr>)"
    using assms(1,3) by (simp add: semaphore_down_def sdown_def Let_def)
  then show ?thesis using lists h(2) by simp
qed

theorem semaphore_down_exhausted_witness:
  "\<exists>s'. semaphore_down demo_sem_state 1 (demo_sem 0) = Some (Returns SUCC, demo_sem 0, s') \<and>
     running s' = 0x1000 \<and> dll heap_ops (nodes s') (sem_waiters 1) [TNode 0]"
proof -
  have lists: "thread_lists (nodes demo_sem_state) [0x2000, 0x3000] [0x4000] []"
    by (simp add: thread_lists_def dll_def spine_def demo_sem_state_def demo_nodes_def)
  have ok: "sched_ok demo_sem_state [0x2000, 0x3000] [0x4000]"
    unfolding sched_ok_def
    by (intro conjI lists) (simp_all add: demo_sem_state_def demo_state_def placed_def demo_thread_def demo_process_def)
  have run: "running demo_sem_state = 0x1000" by (simp add: demo_sem_state_def demo_state_def)
  show ?thesis
    using semaphore_down_exhausted [of "demo_sem 0", OF _ _ _ ok, of 1 "[]"] demo_sem_waiters run
    by (auto simp: demo_sem_def)
qed

end
