(* ===== verification/Isr.thy ===== *)
theory Isr
  imports Tty Messages Semaphores
begin

text \<open>
  kernel/isr.c, drivers/timer.c, \<open>init_keyboard\<close> of drivers/keyboard.c and the registration part of
  drivers/serial.c: the interrupt descriptor table, the interrupt controllers, and the way from an
  interrupt number to the handler of the timer or the keyboard.  \<open>machine\<close> puts the states of the
  components together.  The entry points \<open>isr00\<close> to \<open>isr31\<close> and \<open>irq00\<close> to \<open>irq15\<close> are assembly: their
  addresses, and the address of \<open>idt\<close> itself, are arguments.
\<close>

section \<open>Data\<close>

record idt_entry =
  offset_low :: u16
  selector :: u16
  e_zero :: u8
  e_flags :: u8
  offset_high :: u16

record idt_info =
  i_limit :: u16
  i_addr :: u32

text \<open>The functions that are registered as handlers.\<close>

datatype isr_frame = TIMER_INTERRUPT_HANDLER | KEYBOARD_HANDLER | SERIAL_INTERRUPT_HANDLER

text \<open>\<open>idtr\<close> is the register that \<open>lidt\<close> loads, \<open>halted\<close> says that the processor executed \<open>hlt\<close> with
  interrupts disabled.  A NULL entry of \<open>interrupt_handlers\<close> is None.  \<open>m_irq\<close> is what the stacks of the
  threads that wait for the processor hold of \<open>irq_handler\<close>: the interrupt number of the call that the
  thread is in, None for a thread that gave up the processor without an interrupt.\<close>

record machine =
  idt :: "idt_entry list"
  idt_i :: idt_info
  interrupt_handlers :: "isr_frame option list"
  idtr :: "idt_info option"
  m_ports :: ports
  m_tty :: "vesa tty"
  m_k :: kstate
  m_irq :: "u32 \<Rightarrow> u32 option"
  halted :: bool

abbreviation IDT_SIZE :: nat where "IDT_SIZE \<equiv> 256"
abbreviation IRQ00 :: u8 where "IRQ00 \<equiv> 32"
abbreviation IRQ01 :: u8 where "IRQ01 \<equiv> 33"
abbreviation IRQ03 :: u8 where "IRQ03 \<equiv> 35"
abbreviation IRQ04 :: u8 where "IRQ04 \<equiv> 36"
abbreviation R_FREQ :: u32 where "R_FREQ \<equiv> 100"

definition exception_messages :: "string list" where
  "exception_messages =
    [''Division By Zero'', ''Debug'', ''Non Maskable Interrupt'', ''Breakpoint'', ''Into Detected Overflow'',
     ''Out of Bounds'', ''Invalid Opcode'', ''Device Not Available'', ''Double Fault'',
     ''Coprocessor Segment Overrun'', ''Invalid TSS'', ''Segment Not Present'', ''Stack Fault'',
     ''General Protection Fault'', ''Page Fault'', ''Unknown Interrupt'', ''Coprocessor Fault'',
     ''Alignment Check'', ''Machine Check'', ''Reserved'', ''Reserved'', ''Reserved'', ''Reserved'',
     ''Reserved'', ''Reserved'', ''Reserved'', ''Reserved'', ''Reserved'', ''Reserved'', ''Reserved'',
     ''Reserved'', ''Reserved'']"

section \<open>The descriptor table\<close>

definition set_idt_gate :: "u8 \<Rightarrow> u32 \<Rightarrow> machine \<Rightarrow> machine" where
  "set_idt_gate n handler_addr s =
     s\<lparr>idt := (idt s)[unat n :=
        \<lparr>offset_low = ucast (handler_addr AND 0xFFFF), selector = 0x08, e_zero = 0, e_flags = 0b10001110,
         offset_high = ucast (drop_bit 16 handler_addr AND 0xFFFF)\<rparr>]\<rparr>"

definition load_idt :: "u32 \<Rightarrow> machine \<Rightarrow> machine" where
  "load_idt idt_addr s =
     (let i = \<lparr>i_limit = of_nat (8 * IDT_SIZE - 1), i_addr = idt_addr\<rparr> in s\<lparr>idt_i := i, idtr := Some i\<rparr>)"

definition m_outb :: "u16 \<Rightarrow> u8 \<Rightarrow> machine \<Rightarrow> machine" where
  "m_outb port val s = s\<lparr>m_ports := outb port val (m_ports s)\<rparr>"

definition remap_pics :: "machine \<Rightarrow> machine" where
  "remap_pics s =
     fold (\<lambda>(port, val). m_outb port val)
       [(0x20, 0x11), (0xA0, 0x11), (0x21, 0x20), (0xA1, 0x28), (0x21, 0x04), (0xA1, 0x02),
        (0x21, 0x01), (0xA1, 0x01), (0x21, 0x0), (0xA1, 0x0)] s"

text \<open>\<open>isr n\<close> is the address of the entry of exception \<open>n\<close>, \<open>irq n\<close> that of interrupt request \<open>n\<close>.\<close>

definition install_isrs :: "(nat \<Rightarrow> u32) \<Rightarrow> machine \<Rightarrow> machine" where
  "install_isrs isr s = fold (\<lambda>n. set_idt_gate (of_nat n) (isr n)) [0..<32] s"

definition install_irqs :: "(nat \<Rightarrow> u32) \<Rightarrow> machine \<Rightarrow> machine" where
  "install_irqs irq s = fold (\<lambda>n. set_idt_gate (of_nat (32 + n)) (irq n)) [0..<16] s"

section \<open>Handling interrupts\<close>

text \<open>A number behind the 32 messages reads other memory: None.\<close>

definition isr_handler :: "u32 \<Rightarrow> machine \<Rightarrow> machine option" where
  "isr_handler int_no s = do {
     msg \<leftarrow> arr_get exception_messages int_no;
     (_, d) \<leftarrow> kprintf_lit default_dis (bytes ''Recieved Interrupt: %d %s'' @ [10])
                [AInt (sint int_no), AStr (bytes msg)] (screen (m_tty s));
     Some (s\<lparr>m_tty := (m_tty s)\<lparr>screen := d\<rparr>, m_k := disable_interrupts (m_k s), halted := True\<rparr>) }"

text \<open>The registered functions; the one of the serial port does nothing for any interrupt.\<close>

definition run_handler :: "isr_frame \<Rightarrow> machine \<Rightarrow> (unit ctl \<times> machine) option" where
  "run_handler h s =
     (case h of
        TIMER_INTERRUPT_HANDLER \<Rightarrow> do {
          (c, k) \<leftarrow> timer_interrupt_handler (m_k s);
          Some (c, s\<lparr>m_k := k\<rparr>) }
      | KEYBOARD_HANDLER \<Rightarrow> do {
          (p, t) \<leftarrow> keyboard_handler (m_ports s) (m_tty s);
          Some (Returns (), s\<lparr>m_ports := p, m_tty := t\<rparr>) }
      | SERIAL_INTERRUPT_HANDLER \<Rightarrow> Some (Returns (), s))"

text \<open>The end of \<open>irq_handler\<close>.\<close>

definition send_eoi :: "u32 \<Rightarrow> machine \<Rightarrow> machine" where
  "send_eoi int_no s = m_outb 0x20 0x20 (if 49 \<le> int_no then m_outb 0xA0 0x20 s else s)"

text \<open>What the thread that a switch continues does before it is back in the code that it ran: a new thread
  goes through the rest of \<open>first_switch_entry\<close>, one that lost the processor in an interrupt through the
  rest of its own call of \<open>irq_handler\<close>; one that gave it up itself returns from \<open>schedule\<close> into its
  caller.\<close>

definition resume :: "machine \<Rightarrow> machine" where
  "resume s =
     (let t = THREAD_CUR (m_k s);
          s' = s\<lparr>m_irq := (m_irq s)(t := None)\<rparr>
      in if stack_eip (t_frame (thr (m_k s) t)) = FIRST_SWITCH_ENTRY then m_outb 0x20 0x20 s'
         else (case m_irq s t of None \<Rightarrow> s' | Some int_no \<Rightarrow> send_eoi int_no s'))"

definition irq_handler :: "u32 \<Rightarrow> machine \<Rightarrow> (unit ctl \<times> machine) option" where
  "irq_handler int_no s = do {
     let me = THREAD_CUR (m_k s);
     h \<leftarrow> arr_get (interrupt_handlers s) int_no;
     (c, s) \<leftarrow> (case h of None \<Rightarrow> Some (Returns (), s) | Some f \<Rightarrow> run_handler f s);
     Some (case c of
             Switched \<Rightarrow> (Switched, resume (s\<lparr>m_irq := (m_irq s)(me := Some int_no)\<rparr>))
           | Returns _ \<Rightarrow> (Returns (), send_eoi int_no s)) }"

text \<open>The machine behind a call outside of interrupts that ended in the kernel state \<open>k\<close>.\<close>

definition after_call :: "'a ctl \<Rightarrow> kstate \<Rightarrow> machine \<Rightarrow> machine" where
  "after_call c k s = (case c of Returns _ \<Rightarrow> s\<lparr>m_k := k\<rparr> | Switched \<Rightarrow> resume (s\<lparr>m_k := k\<rparr>))"

definition register_interrupt_handler :: "u8 \<Rightarrow> isr_frame \<Rightarrow> machine \<Rightarrow> machine" where
  "register_interrupt_handler n f s = s\<lparr>interrupt_handlers := (interrupt_handlers s)[unat n := Some f]\<rparr>"

section \<open>Initialisation\<close>

text \<open>A frequency of 0 divides by zero: None.\<close>

definition init_timer :: "u32 \<Rightarrow> machine \<Rightarrow> machine option" where
  "init_timer freq s =
     (let s = register_interrupt_handler IRQ00 TIMER_INTERRUPT_HANDLER s
      in if freq = 0 then None
         else let divisor = 1193180 div freq;
                  low = ucast (divisor AND 0xFF);
                  high = ucast (drop_bit 8 divisor AND 0xFF)
              in Some (m_outb 0x40 high (m_outb 0x40 low (m_outb 0x43 0x36 s))))"

definition init_keyboard :: "machine \<Rightarrow> machine" where
  "init_keyboard s = register_interrupt_handler IRQ01 KEYBOARD_HANDLER s"

definition init_serial_irqs :: "machine \<Rightarrow> machine" where
  "init_serial_irqs s =
     (let (ok, p) = init_serial (m_ports s);
          s = s\<lparr>m_ports := p\<rparr>
      in if ok then register_interrupt_handler IRQ04 SERIAL_INTERRUPT_HANDLER
                 (register_interrupt_handler IRQ03 SERIAL_INTERRUPT_HANDLER s)
         else s)"

definition init_irqs :: "machine \<Rightarrow> machine option" where
  "init_irqs s = do { s \<leftarrow> init_timer R_FREQ s; Some (init_serial_irqs (init_keyboard s)) }"

definition init_idt :: "(nat \<Rightarrow> u32) \<Rightarrow> (nat \<Rightarrow> u32) \<Rightarrow> u32 \<Rightarrow> machine \<Rightarrow> machine option" where
  "init_idt isr irq idt_addr s = do {
     s \<leftarrow> init_irqs (install_irqs irq (remap_pics (install_isrs isr s)));
     Some (load_idt idt_addr s) }"

end
