(* ===== verification/TtyProofs.thy ===== *)
theory TtyProofs
  imports Tty
begin

text \<open>
  What the line discipline guarantees.  \<open>line_ok\<close> is the state in which a cooked line discipline
  works: a line buffer of at least 1024 bytes, an index inside it, a well-formed output queue and a
  display that can print.  The locale \<open>line_display\<close> adds to \<open>char_display\<close> what the line discipline
  needs of its display.
\<close>

section \<open>The display that a line discipline needs\<close>

locale line_display = char_display "dis_putc dd" "dis_puts dd" ok
  for dd :: "'d display" and ok :: "'d \<Rightarrow> bool" +
  assumes scur_ok: "ok d \<Longrightarrow> ok (dis_scur dd d)"
    and backspace_ok: "ok d \<Longrightarrow> ok (dis_backspace dd d)"

interpretation vl: line_display default_dis cursor_ok
  by unfold_locales (simp_all add: default_dis_def backspace_ok)

definition line_ok :: "'d display \<Rightarrow> ('d \<Rightarrow> bool) \<Rightarrow> 'd tty \<Rightarrow> u32 \<Rightarrow> bool" where
  "line_ok dd ok s ld \<longleftrightarrow>
     (\<exists>b. line_buffer (lines s ld) = Some b \<and> 1024 \<le> length b) \<and> unat (buffer_i (lines s ld)) \<le> 1023 \<and>
     l_mode (lines s ld) = COOKED \<and> dis_of s ld = dd \<and> ok (screen s) \<and> std_inv (streams s (l_out (lines s ld)))"

section \<open>Key codes\<close>

text \<open>The keys that are stored as a character in cooked mode.\<close>

definition plain :: "u8 \<Rightarrow> bool" where
  "plain k \<longleftrightarrow> k \<noteq> 0 \<and> k \<le> KC_MAX \<and> k \<notin> {KC_LALT, KC_LSHIFT, KC_RSHIFT, KC_LCTRL, KC_ESCAPE, KC_BACKSPACE}"

definition key_char :: "bool \<Rightarrow> u8 \<Rightarrow> u8" where
  "key_char cap k = (if cap then kc_ascii_cap else kc_ascii) ! unat k"

lemma key_char_lower: "key_char False = (\<lambda>k. kc_ascii ! unat k)"
  by (rule ext) (simp add: key_char_def)

lemma length_kc [simp]: "length kc_ascii = 58" "length kc_ascii_cap = 58"
  by (simp_all add: kc_ascii_def kc_ascii_cap_def)

lemma kc_all: "list_all (\<lambda>c. 0 < sint c) kc_ascii" "list_all (\<lambda>c. 0 < sint c) kc_ascii_cap"
  unfolding kc_ascii_def kc_ascii_cap_def by code_simp+

lemma key_char_ascii: "k \<le> KC_MAX \<Longrightarrow> 0 < sint (key_char cap k)"
  using kc_all by (auto simp: key_char_def list_all_length word_le_nat_alt)

lemma kc_getchar_key:
  assumes "k \<le> KC_MAX"
  shows "kc_getchar s t k = Some (key_char (capitalize (ts (terms s t))) k)"
proof -
  have k: "unat (ucast k :: u32) = unat k" by transfer (simp add: take_bit_take_bit)
  then have "unat (ucast k :: u32) < 58" using assms by (simp add: word_le_nat_alt)
  then show ?thesis using k by (simp add: kc_getchar_def get_term_state_def key_char_def arr_get_def)
qed

text \<open>\<open>eval_kc\<close> changes nothing but the state of the terminal.\<close>

lemma eval_kc_frame:
  assumes "eval_kc s t k = (r, s')"
  shows "lines s' = lines s \<and> streams s' = streams s \<and> screen s' = screen s \<and> dterm s' = dterm s \<and>
    out_term s' = out_term s \<and> t_dis (terms s' u) = t_dis (terms s u) \<and> t_ld (terms s' u) = t_ld (terms s u)"
  using assms by (auto simp: eval_kc_def upd_ts_def upd_term_def split: if_splits)

lemma eval_kc_nonzero: "eval_kc s t k = (r, s') \<Longrightarrow> r \<noteq> 0 \<Longrightarrow> r = k \<and> s' = s \<and> k \<le> KC_MAX"
  by (auto simp: eval_kc_def split: if_splits)

lemma eval_kc_plain: "plain k \<Longrightarrow> eval_kc s t k = (k, s)"
  by (auto simp: eval_kc_def plain_def)

section \<open>Storing and echoing a key\<close>

definition stored :: "'d tty \<Rightarrow> u32 \<Rightarrow> u8 list \<Rightarrow> u8 \<Rightarrow> std_stream \<Rightarrow> 'd \<Rightarrow> 'd tty" where
  "stored s ld b c st d =
     s\<lparr>lines := (lines s)(ld := (lines s ld)\<lparr>line_buffer := Some (b[unat (buffer_i (lines s ld)) := c]),
          buffer_i := buffer_i (lines s ld) + 1\<rparr>),
       streams := (streams s)(l_out (lines s ld) := st), screen := d\<rparr>"

context line_display
begin

lemma line_store_echo:
  assumes ok: "line_ok dd ok s ld" and key: "k \<le> KC_MAX"
  defines "ch \<equiv> key_char (capitalize (ts (terms s (l_term (lines s ld))))) k"
  shows "\<exists>b st d r. line_buffer (lines s ld) = Some b \<and> put_std (streams s (l_out (lines s ld))) ch = Some (r, st) \<and>
     std_inv st \<and> dis_putc dd ch (screen s) = Some d \<and> ok d \<and>
     Option.bind (line_store s ld k) (\<lambda>s. line_echo s ld) = Some (stored s ld b ch st (dis_scur dd d))"
proof -
  let ?l = "lines s ld" and ?i = "unat (buffer_i (lines s ld))"
  obtain b where b: "line_buffer ?l = Some b" "1024 \<le> length b" using ok by (auto simp: line_ok_def)
  have i: "?i < length b" using ok b(2) by (auto simp: line_ok_def)
  have ch: "0 < sint ch" using key_char_ascii [OF key] by (simp add: ch_def)
  then have nz: "ch \<noteq> 0" by auto
  obtain r st where st: "put_std (streams s (l_out ?l)) ch = Some (r, st)" "std_inv st"
  proof -
    have inv: "std_inv (streams s (l_out ?l))" using ok by (simp add: line_ok_def)
    show ?thesis
    proof (cases "length (std_contents (streams s (l_out ?l))) < 255")
      case True
      then show ?thesis using std.put_room [OF inv True, of ch] that by blast
    next
      case False
      then have "length (std_contents (streams s (l_out ?l))) = 255"
        using std.contents_bound [OF inv] by linarith
      then show ?thesis using std.put_full [OF inv, of ch] that inv by blast
    qed
  qed
  obtain d where d: "dis_putc dd ch (screen s) = Some d" "ok d"
    using putc_ok [of "screen s" ch] ok ch by (auto simp: line_ok_def)
  have "t_dis (terms s (l_term ?l)) = dd" using ok by (simp add: line_ok_def dis_of_def)
  then have "Option.bind (line_store s ld k) (\<lambda>s. line_echo s ld) = Some (stored s ld b ch st (dis_scur dd d))"
    using b i st d nz kc_getchar_key [OF key, of s "l_term ?l"]
    by (simp add: line_store_def line_echo_def line_sendv_def buf_put_def buf_get_def arr_put_def arr_get_def
        upd_line_def terminal_write_def dis_of_def on_screen_def stored_def ch_def)
  then show ?thesis using b st d by blast
qed

text \<open>What \<open>line_in\<close> leaves alone.\<close>

lemma stored_frame [simp]:
  "terms (stored s ld b c st d) = terms s" "dterm (stored s ld b c st d) = dterm s"
  "out_term (stored s ld b c st d) = out_term s"
  "l_term (lines (stored s ld b c st d) ld) = l_term (lines s ld)"
  "l_out (lines (stored s ld b c st d) ld) = l_out (lines s ld)"
  by (simp_all add: stored_def)

lemma stored_ok:
  assumes "line_ok dd ok s ld" and "buffer_i (lines s ld) \<noteq> 1023" and "line_buffer (lines s ld) = Some b"
    and "std_inv st" and "ok d"
  shows "line_ok dd ok (stored s ld b c st d) ld"
proof -
  have "unat (buffer_i (lines s ld)) \<noteq> unat (1023 :: u32)" using assms(2) unsigned_word_eqI by blast
  then have "unat (buffer_i (lines s ld)) < 1023" using assms(1) by (simp add: line_ok_def)
  then have "unat (buffer_i (lines s ld) + 1) \<le> 1023"
    using unat_Suc_less [of "buffer_i (lines s ld)" 1023] by (simp add: word_less_nat_alt)
  then show ?thesis using assms by (simp add: line_ok_def stored_def dis_of_def)
qed

text \<open>Every branch of \<open>line_in\<close> in cooked mode.\<close>

lemma line_in_cases:
  assumes ok: "line_ok dd ok s ld"
  obtains
    (full) s' where "buffer_i (lines s ld) = 1023" "line_in s ld k = Some (- LINE_IN_FAIL, s')"
      "eval_kc s (l_term (lines s ld)) k = (fst (eval_kc s (l_term (lines s ld)) k), s')"
  | (control) s' where "buffer_i (lines s ld) \<noteq> 1023" "line_in s ld k = Some (SUCC, s')"
      "eval_kc s (l_term (lines s ld)) k = (0, s')"
  | (at_start) "k = KC_BACKSPACE" "buffer_i (lines s ld) = 0" "line_in s ld k = Some (SUCC, s)"
  | (erase) b where "k = KC_BACKSPACE" "0 < buffer_i (lines s ld)" "line_buffer (lines s ld) = Some b"
      "line_in s ld k = Some (SUCC, s\<lparr>lines := (lines s)(ld := (lines s ld)\<lparr>
           line_buffer := Some (b[unat (buffer_i (lines s ld)) := 0]), buffer_i := buffer_i (lines s ld) - 1\<rparr>),
         screen := dis_scur dd (dis_backspace dd (screen s))\<rparr>)"
  | (store) b r st d where "k \<le> KC_MAX" "k \<noteq> KC_BACKSPACE" "buffer_i (lines s ld) \<noteq> 1023"
      "line_buffer (lines s ld) = Some b"
      "put_std (streams s (l_out (lines s ld))) (key_char (capitalize (ts (terms s (l_term (lines s ld))))) k) = Some (r, st)"
      "std_inv st" "dis_putc dd (key_char (capitalize (ts (terms s (l_term (lines s ld))))) k) (screen s) = Some d" "ok d"
      "line_in s ld k = Some (SUCC,
         stored s ld b (key_char (capitalize (ts (terms s (l_term (lines s ld))))) k) st (dis_scur dd d))"
proof -
  let ?l = "lines s ld"
  obtain r s' where e: "eval_kc s (l_term ?l) k = (r, s')" by (cases "eval_kc s (l_term ?l) k")
  have l: "lines s' = lines s" using eval_kc_frame [OF e] by simp
  have cooked: "l_mode ?l = COOKED" using ok by (simp add: line_ok_def)
  obtain b where b: "line_buffer ?l = Some b" "1024 \<le> length b" "unat (buffer_i ?l) < length b"
    using ok by (auto simp: line_ok_def)
  show thesis
  proof (cases "buffer_i ?l = 1023")
    case True
    then show thesis using e l full [of s'] by (simp add: line_in_def)
  next
    case room: False
    show thesis
    proof (cases "r = 0")
      case True
      then show thesis using e l room cooked control [of s'] by (simp add: line_in_def)
    next
      case False
      then have k: "r = k" "s' = s" "k \<le> KC_MAX" using eval_kc_nonzero [OF e] by auto
      show thesis
      proof (cases "k = KC_BACKSPACE")
        case True
        have dis: "t_dis (terms s (l_term ?l)) = dd" using ok by (simp add: line_ok_def dis_of_def)
        show thesis
        proof (cases "buffer_i ?l = 0")
          case True
          then show thesis using \<open>k = KC_BACKSPACE\<close> e k room cooked at_start by (simp add: line_in_def)
        next
          case nz: False
          then have "0 < buffer_i ?l" by (simp add: word_gt_0)
          then show thesis using True e k room cooked b dis erase [of b]
            by (simp add: line_in_def buf_put_def arr_put_def upd_line_def on_screen_def dis_of_def)
        qed
      next
        case nb: False
        obtain b' st d r' where st: "line_buffer ?l = Some b'"
          "put_std (streams s (l_out ?l)) (key_char (capitalize (ts (terms s (l_term ?l)))) k) = Some (r', st)"
          "std_inv st" "dis_putc dd (key_char (capitalize (ts (terms s (l_term ?l)))) k) (screen s) = Some d" "ok d"
          "Option.bind (line_store s ld k) (\<lambda>s. line_echo s ld) =
             Some (stored s ld b' (key_char (capitalize (ts (terms s (l_term ?l)))) k) st (dis_scur dd d))"
          using line_store_echo [OF ok k(3)] by blast
        have "line_in s ld k = Option.bind (Option.bind (line_store s ld k) (\<lambda>s. line_echo s ld)) (\<lambda>s. Some (SUCC, s))"
          using e k room cooked nb False by (simp add: line_in_def)
        then show thesis using store [OF k(3) nb room st(1-5)] st(6) by simp
      qed
    qed
  qed
qed

text \<open>So it never fails, and keeps the line discipline well formed.\<close>

lemma line_in_ok:
  assumes ok: "line_ok dd ok s ld"
  shows "\<exists>r s'. line_in s ld k = Some (r, s') \<and> line_ok dd ok s' ld \<and>
     dterm s' = dterm s \<and> out_term s' = out_term s \<and> (\<forall>t. t_ld (terms s' t) = t_ld (terms s t))"
  using ok
proof (cases rule: line_in_cases [of s ld k])
  case (full s')
  have f: "lines s' = lines s" "streams s' = streams s" "screen s' = screen s" "dterm s' = dterm s"
    "out_term s' = out_term s" "\<forall>u. t_dis (terms s' u) = t_dis (terms s u)" "\<forall>u. t_ld (terms s' u) = t_ld (terms s u)"
    using eval_kc_frame [OF full(3)] by auto
  then show ?thesis using full(2) ok by (auto simp: line_ok_def dis_of_def)
next
  case (control s')
  have f: "lines s' = lines s" "streams s' = streams s" "screen s' = screen s" "dterm s' = dterm s"
    "out_term s' = out_term s" "\<forall>u. t_dis (terms s' u) = t_dis (terms s u)" "\<forall>u. t_ld (terms s' u) = t_ld (terms s u)"
    using eval_kc_frame [OF control(3)] by auto
  then show ?thesis using control(2) ok by (auto simp: line_ok_def dis_of_def)
next
  case at_start
  then show ?thesis using ok by auto
next
  case (erase b)
  have "buffer_i (lines s ld) \<noteq> 0" using erase(2) by auto
  then have "unat (buffer_i (lines s ld) - 1) = unat (buffer_i (lines s ld)) - 1" by (rule unat_minus_one)
  then show ?thesis using ok erase by (auto simp: line_ok_def dis_of_def scur_ok backspace_ok)
next
  case (store b r st d)
  then show ?thesis using stored_ok [OF ok store(3,4,6) scur_ok [OF store(8)]] by simp
qed

end

section \<open>The keyboard\<close>

text \<open>Scan codes arriving one after the other.\<close>

fun keys :: "'d tty \<Rightarrow> u8 list \<Rightarrow> 'd tty option" where
  "keys s [] = Some s"
| "keys s (c # cs) = Option.bind (on_scancode s c) (\<lambda>s. keys s cs)"

definition kb_ok :: "'d display \<Rightarrow> ('d \<Rightarrow> bool) \<Rightarrow> 'd tty \<Rightarrow> u32 \<Rightarrow> bool" where
  "kb_ok dd ok s ld \<longleftrightarrow> line_ok dd ok s ld \<and> dterm s \<noteq> 0 \<and> out_term s \<in> {0, dterm s} \<and> t_ld (terms s (dterm s)) = ld"

definition connected :: "'d tty \<Rightarrow> 'd tty" where
  "connected s = (if out_term s = 0 then s\<lparr>out_term := dterm s\<rparr> else s)"

lemma connected_simps [simp]:
  "terms (connected s) = terms s" "lines (connected s) = lines s" "streams (connected s) = streams s"
  "screen (connected s) = screen s" "dterm (connected s) = dterm s"
  by (simp_all add: connected_def)

lemma kb_ok_connected: "kb_ok dd ok s ld \<Longrightarrow> kb_ok dd ok (connected s) ld \<and> out_term (connected s) = dterm s"
  by (auto simp: kb_ok_def connected_def line_ok_def dis_of_def)

lemma on_scancode_connected:
  "on_scancode s c =
     (if c \<in> {KC_LALT_REL, KC_LSHIFT_REL, KC_LCTRL_REL, KC_RSHIFT_REL} \<or> c < KC_RELEASED
      then if out_term (connected s) = 0 then None
           else map_option snd (terminal_in (connected s) (out_term (connected s)) c)
      else Some (connected s))"
  unfolding on_scancode_def connected_def get_default_terminal_def Let_def ..

text \<open>A scan code that is passed on reaches \<open>line_in\<close> of the line discipline of the default terminal.\<close>

lemma on_scancode_line_in:
  assumes "kb_ok dd ok s ld" and "c \<in> {KC_LALT_REL, KC_LSHIFT_REL, KC_LCTRL_REL, KC_RSHIFT_REL} \<or> c < KC_RELEASED"
  shows "on_scancode s c = map_option snd (line_in (connected s) ld c)"
proof -
  have "out_term (connected s) = dterm s" "dterm s \<noteq> 0" "t_ld (terms s (dterm s)) = ld"
    using assms(1) kb_ok_connected by (auto simp: kb_ok_def)
  then show ?thesis using assms(2)
    by (cases "line_in (connected s) ld c") (auto simp: on_scancode_connected terminal_in_def)
qed

lemma on_scancode_ignored:
  "\<not> (c \<in> {KC_LALT_REL, KC_LSHIFT_REL, KC_LCTRL_REL, KC_RSHIFT_REL} \<or> c < KC_RELEASED) \<Longrightarrow> on_scancode s c = Some (connected s)"
  by (simp add: on_scancode_connected)

context line_display
begin

lemma on_scancode_ok: "kb_ok dd ok s ld \<Longrightarrow> \<exists>s'. on_scancode s c = Some s' \<and> kb_ok dd ok s' ld"
proof (cases "c \<in> {KC_LALT_REL, KC_LSHIFT_REL, KC_LCTRL_REL, KC_RSHIFT_REL} \<or> c < KC_RELEASED")
  case True
  assume kb: "kb_ok dd ok s ld"
  then have c: "line_ok dd ok (connected s) ld" "out_term (connected s) = dterm s" "dterm s \<noteq> 0"
    "t_ld (terms s (dterm s)) = ld"
    using kb_ok_connected by (auto simp: kb_ok_def)
  obtain r s' where "line_in (connected s) ld c = Some (r, s')" "line_ok dd ok s' ld" "dterm s' = dterm s"
    "out_term s' = dterm s" "\<forall>t. t_ld (terms s' t) = t_ld (terms s t)"
    using line_in_ok [OF c(1), of c] c(2) by auto
  then show ?thesis using on_scancode_line_in [OF kb True] c(3,4) by (auto simp: kb_ok_def)
next
  case False
  assume "kb_ok dd ok s ld"
  then show ?thesis using on_scancode_ignored [OF False] kb_ok_connected by blast
qed

lemma keys_ok: "kb_ok dd ok s ld \<Longrightarrow> \<exists>s'. keys s cs = Some s' \<and> kb_ok dd ok s' ld"
proof (induction cs arbitrary: s)
  case (Cons c cs)
  then show ?case using on_scancode_ok [OF Cons.prems, of c] by auto
qed simp

end

lemma line_init_ready:
  assumes "ld \<noteq> 0" "tmem \<noteq> 0" "1024 \<le> length b" "dterm s = 0" "out_term s = 0" "ok (screen s)"
    "std_inv (streams s out)"
  shows "fst (line_init dd (Some b) tmem ld 0 out COOKED s) = SUCC \<and>
    kb_ok dd ok (snd (line_init dd (Some b) tmem ld 0 out COOKED s)) ld"
  using assms
  by (simp add: line_init_def terminal_init_def Let_def upd_line_def upd_ts_def upd_term_def kb_ok_def line_ok_def dis_of_def)

text \<open>C19: when the shell's line discipline has been set up, in cooked mode on the default display,
  every sequence of scan codes is handled without an access outside the key tables, the line buffer
  or the font: the index stays inside the buffer and queue and cursor stay well formed.\<close>

theorem keyboard_cooked_safe:
  assumes "ld \<noteq> 0" and "tmem \<noteq> 0" and "1024 \<le> length b" and "dterm s = 0" and "out_term s = 0"
    and "cursor_ok (screen s)" and "std_inv (streams s out)"
  shows "\<exists>s'. keys (snd (line_init default_dis (Some b) tmem ld 0 out COOKED s)) codes = Some s' \<and>
    unat (buffer_i (lines s' ld)) \<le> 1023 \<and> std_inv (streams s' (l_out (lines s' ld))) \<and> cursor_ok (screen s')"
proof -
  have "kb_ok default_dis cursor_ok (snd (line_init default_dis (Some b) tmem ld 0 out COOKED s)) ld"
    using line_init_ready [OF assms(1-5), of cursor_ok out default_dis] assms(6,7) by blast
  from vl.keys_ok [OF this, of codes] show ?thesis by (auto simp: kb_ok_def line_ok_def)
qed

definition demo_tty :: "vesa tty" where
  "demo_tty = \<lparr>terms = (\<lambda>t. \<lparr>t_ld = 0, ts = \<lparr>capitalize = False, alt_pressed = False, ctrl_pressed = False\<rparr>,
       t_dis = default_dis\<rparr>),
     lines = (\<lambda>l. \<lparr>line_buffer = None, buffer_i = 0, l_term = 0, l_out = 0, l_mode = RAW\<rparr>),
     streams = (\<lambda>a. \<lparr>stream = replicate 256 0, ssize = 256, s_in = 0, s_out = 0\<rparr>),
     dterm = 0, out_term = 0, screen = demo_vesa\<rparr>"

lemma demo_tty_ok: "dterm demo_tty = 0" "out_term demo_tty = 0" "cursor_ok (screen demo_tty)"
  "std_inv (streams demo_tty a)"
  by (simp_all add: demo_tty_def demo_vesa_def cursor_ok_def std_inv_def)

theorem keyboard_cooked_safe_witness:
  "\<exists>s'. keys (snd (line_init default_dis (Some (replicate 4096 0)) 0x5000 0x6000 0 0x7000 COOKED demo_tty))
      [0x2A, 35, 0xAA, 0x0E, 200] = Some s' \<and> unat (buffer_i (lines s' 0x6000)) \<le> 1023 \<and> cursor_ok (screen s')"
  using keyboard_cooked_safe [of "0x6000" "0x5000" "replicate 4096 0" demo_tty "0x7000" "[0x2A, 35, 0xAA, 0x0E, 200]"]
    demo_tty_ok by auto

section \<open>Typing\<close>

text \<open>The state of typing: the keyboard works on line discipline \<open>ld\<close>, whose terminal is the default one.\<close>

definition typing :: "'d display \<Rightarrow> ('d \<Rightarrow> bool) \<Rightarrow> 'd tty \<Rightarrow> u32 \<Rightarrow> bool" where
  "typing dd ok s ld \<longleftrightarrow> kb_ok dd ok s ld \<and> l_term (lines s ld) = dterm s"

definition caps :: "'d tty \<Rightarrow> bool" where
  "caps s = capitalize (ts (terms s (dterm s)))"

definition out_chars :: "'d tty \<Rightarrow> u32 \<Rightarrow> u8 list" where
  "out_chars s ld = std_contents (streams s (l_out (lines s ld)))"

text \<open>\<open>typed s ld b cs s'\<close>: from \<open>s\<close>, whose buffer is \<open>b\<close>, the characters \<open>cs\<close> have been stored,
  giving \<open>s'\<close>.\<close>

definition typed :: "'d tty \<Rightarrow> u32 \<Rightarrow> u8 list \<Rightarrow> u8 list \<Rightarrow> 'd tty \<Rightarrow> bool" where
  "typed s ld b cs s' \<longleftrightarrow>
     (let i = unat (buffer_i (lines s ld))
      in line_buffer (lines s' ld) = Some (take i b @ cs @ drop (i + length cs) b) \<and>
         unat (buffer_i (lines s' ld)) = i + length cs \<and> caps s' = caps s \<and>
         out_chars s' ld = out_chars s ld @ take (255 - length (out_chars s ld)) cs \<and>
         l_out (lines s' ld) = l_out (lines s ld))"

lemma plain_scancode: "plain k \<Longrightarrow> k < KC_RELEASED"
  by (auto simp: plain_def intro: le_less_trans)

context line_display
begin

lemma line_in_plain:
  assumes ok: "line_ok dd ok s ld" and room: "unat (buffer_i (lines s ld)) < 1023" and k: "plain k"
    and b: "line_buffer (lines s ld) = Some b"
  shows "\<exists>st d. std_inv st \<and> ok d \<and>
    std_contents st = out_chars s ld @
      take (255 - length (out_chars s ld)) [key_char (capitalize (ts (terms s (l_term (lines s ld))))) k] \<and>
    line_in s ld k = Some (SUCC, stored s ld b (key_char (capitalize (ts (terms s (l_term (lines s ld))))) k) st d)"
proof -
  have n: "buffer_i (lines s ld) \<noteq> 1023" using room by auto
  have e: "eval_kc s (l_term (lines s ld)) k = (k, s)" "k \<noteq> 0" using k by (auto simp: eval_kc_plain plain_def)
  from ok show ?thesis
  proof (cases rule: line_in_cases [of s ld k])
    case (store b' r st d)
    have "std_inv (streams s (l_out (lines s ld)))" using ok by (simp add: line_ok_def)
    from put_std_contents [OF this store(5)] show ?thesis
      using store b scur_ok [OF store(8)] by (intro exI conjI) (auto simp: out_chars_def)
  qed (use n e k in \<open>auto simp: plain_def\<close>)
qed

lemma typing_step:
  assumes ty: "typing dd ok s ld" and room: "unat (buffer_i (lines s ld)) < 1023" and k: "plain k"
    and b: "line_buffer (lines s ld) = Some b"
  shows "\<exists>s'. on_scancode s k = Some s' \<and> typing dd ok s' ld \<and> typed s ld b [key_char (caps s) k] s'"
proof -
  let ?s = "connected s" and ?i = "unat (buffer_i (lines s ld))"
  have kb: "kb_ok dd ok ?s ld" "out_term ?s = dterm s" "dterm s \<noteq> 0" "l_term (lines s ld) = dterm s"
    using ty kb_ok_connected by (auto simp: typing_def kb_ok_def)
  have ok: "line_ok dd ok ?s ld" using kb(1) by (simp add: kb_ok_def)
  obtain st d where st: "std_inv st" "ok d"
    "std_contents st = out_chars s ld @ take (255 - length (out_chars s ld)) [key_char (caps s) k]"
    "line_in ?s ld k = Some (SUCC, stored ?s ld b (key_char (caps s) k) st d)"
    using line_in_plain [OF ok _ k, of b] room b kb(4) by (auto simp: caps_def out_chars_def)
  let ?t = "stored ?s ld b (key_char (caps s) k) st d"
  have i: "?i < length b" using ok b room by (auto simp: line_ok_def)
  have "buffer_i (lines s ld) \<noteq> 1023" using room by auto
  then have "line_ok dd ok ?t ld" using stored_ok [OF ok _ _ st(1,2)] b by simp
  then have "typing dd ok ?t ld" using kb ty by (simp add: typing_def kb_ok_def)
  moreover have "typed s ld b [key_char (caps s) k] ?t"
    using i room st(3) kb(4) unat_Suc_less [of "buffer_i (lines s ld)" 1023]
    by (simp add: typed_def Let_def stored_def caps_def out_chars_def upd_conv_take_nth_drop word_less_nat_alt)
  ultimately show ?thesis
    using on_scancode_line_in [of dd ok s ld k] ty plain_scancode [OF k] st(4) by (auto simp: typing_def)
qed

lemma typed_trans:
  assumes "typed s ld b cs s'" and "line_buffer (lines s' ld) = Some b'" and "typed s' ld b' ds s''"
    and "unat (buffer_i (lines s ld)) + length cs + length ds \<le> length b"
  shows "typed s ld b (cs @ ds) s''"
  using assms take_append_take [of 255 "out_chars s ld" cs ds]
  by (auto simp: typed_def Let_def ac_simps)

lemma typing_keys:
  "typing dd ok s ld \<Longrightarrow> line_buffer (lines s ld) = Some b \<Longrightarrow> 1024 \<le> length b \<Longrightarrow> \<forall>k\<in>set ks. plain k \<Longrightarrow>
   unat (buffer_i (lines s ld)) + length ks \<le> 1023 \<Longrightarrow>
   \<exists>s'. keys s ks = Some s' \<and> typing dd ok s' ld \<and> typed s ld b (map (key_char (caps s)) ks) s'"
proof (induction ks arbitrary: s b)
  case Nil
  then show ?case by (simp add: typed_def Let_def)
next
  case (Cons k ks)
  obtain s1 where s1: "on_scancode s k = Some s1" "typing dd ok s1 ld" "typed s ld b [key_char (caps s) k] s1"
    using typing_step [OF Cons.prems(1) _ _ Cons.prems(2), of k] Cons.prems(4,5) by auto
  let ?i = "unat (buffer_i (lines s ld))"
  let ?b = "take ?i b @ [key_char (caps s) k] @ drop (?i + 1) b"
  have t: "line_buffer (lines s1 ld) = Some ?b" "unat (buffer_i (lines s1 ld)) = ?i + 1" "caps s1 = caps s"
    using s1(3) by (simp_all add: typed_def Let_def)
  have lb: "1024 \<le> length ?b" using Cons.prems(3,5) by simp
  obtain s' where s': "keys s1 ks = Some s'" "typing dd ok s' ld" "typed s1 ld ?b (map (key_char (caps s)) ks) s'"
    using Cons.IH [OF s1(2) t(1) lb] Cons.prems(4,5) t(2,3) by auto
  have "typed s ld b ([key_char (caps s) k] @ map (key_char (caps s)) ks) s'"
    using typed_trans [OF s1(3) t(1) s'(3)] Cons.prems(3,5) by simp
  then show ?case using s1(1) s' by auto
qed

end

text \<open>Typing: after \<open>line_init\<close> in cooked mode, pressing ordinary keys, at most 1023 of them, puts
  their characters into the line buffer in order and hands each at once to the reading process,
  as long as its queue of 255 characters has room.\<close>

theorem typing_fills_line:
  assumes "ld \<noteq> 0" and "tmem \<noteq> 0" and "1024 \<le> length b" and "dterm s = 0" and "out_term s = 0"
    and "cursor_ok (screen s)" and "std_inv (streams s out)" and "std_contents (streams s out) = []"
    and "\<forall>k\<in>set ks. plain k" and "length ks \<le> 1023"
  shows "\<exists>s'. keys (snd (line_init default_dis (Some b) tmem ld 0 out COOKED s)) ks = Some s' \<and>
    line_buffer (lines s' ld) = Some (map (\<lambda>k. kc_ascii ! unat k) ks @ drop (length ks) b) \<and>
    unat (buffer_i (lines s' ld)) = length ks \<and>
    out_chars s' ld = take 255 (map (\<lambda>k. kc_ascii ! unat k) ks)"
proof -
  let ?s = "snd (line_init default_dis (Some b) tmem ld 0 out COOKED s)"
  have kb: "kb_ok default_dis cursor_ok ?s ld"
    using line_init_ready [OF assms(1-5), of cursor_ok out default_dis] assms(6,7) by blast
  have s: "l_term (lines ?s ld) = tmem" "dterm ?s = tmem" "buffer_i (lines ?s ld) = 0"
    "line_buffer (lines ?s ld) = Some b" "\<not> caps ?s" "out_chars ?s ld = []"
    using assms by (simp_all add: line_init_def terminal_init_def Let_def upd_line_def upd_ts_def upd_term_def
        caps_def out_chars_def)
  have "typing default_dis cursor_ok ?s ld" using kb s by (simp add: typing_def)
  from vl.typing_keys [OF this s(4) assms(3,9)] show ?thesis
    using assms(10) s by (auto simp: typed_def Let_def key_char_lower)
qed

theorem typing_fills_line_witness:
  "\<exists>s'. keys (snd (line_init default_dis (Some (replicate 1024 0)) 0x5000 0x6000 0 0x7000 COOKED demo_tty)) [35, 23] = Some s' \<and>
     line_buffer (lines s' 0x6000) = Some ([104, 105] @ replicate 1022 0) \<and> out_chars s' 0x6000 = [104, 105]"
  using typing_fills_line [of "0x6000" "0x5000" "replicate 1024 0" demo_tty "0x7000" "[35, 23]"] demo_tty_ok
  by (auto simp: plain_def kc_ascii_def demo_tty_def std_contents_def ring_def)

section \<open>Shift and backspace\<close>

context line_display
begin

text \<open>A key that only changes the state of the terminal.\<close>

lemma shift_step:
  assumes ty: "typing dd ok s ld" and room: "unat (buffer_i (lines s ld)) < 1023"
    and k: "k \<in> {KC_LSHIFT, KC_RSHIFT, KC_LSHIFT_REL, KC_RSHIFT_REL}"
  shows "\<exists>s'. on_scancode s k = Some s' \<and> typing dd ok s' ld \<and> lines s' = lines s \<and> streams s' = streams s \<and>
    caps s' = (\<not> caps s)"
proof -
  let ?s = "connected s"
  let ?t = "upd_ts (dterm s) (\<lambda>r. r\<lparr>capitalize := \<not> capitalize r\<rparr>) ?s"
  have kb: "kb_ok dd ok ?s ld" "out_term ?s = dterm s" "l_term (lines s ld) = dterm s" "l_mode (lines s ld) = COOKED"
    using ty kb_ok_connected by (auto simp: typing_def kb_ok_def line_ok_def)
  have e: "eval_kc ?s (dterm s) k = (0, ?t)" using k by (auto simp: eval_kc_def)
  have n: "buffer_i (lines s ld) \<noteq> 1023" using room by auto
  have "line_in ?s ld k = Some (SUCC, ?t)"
    using e kb(3,4) n by (simp add: line_in_def upd_ts_def upd_term_def)
  moreover have "k \<in> {KC_LALT_REL, KC_LSHIFT_REL, KC_LCTRL_REL, KC_RSHIFT_REL} \<or> k < KC_RELEASED" using k by auto
  ultimately have "on_scancode s k = Some ?t" using on_scancode_line_in [of dd ok s ld k] ty by (simp add: typing_def)
  moreover have "typing dd ok ?t ld"
    using kb ty by (auto simp: typing_def kb_ok_def line_ok_def dis_of_def upd_ts_def upd_term_def)
  ultimately show ?thesis by (auto simp: upd_ts_def upd_term_def caps_def)
qed

lemma backspace_step:
  assumes ty: "typing dd ok s ld" and i: "0 < unat (buffer_i (lines s ld))" "unat (buffer_i (lines s ld)) < 1023"
    and b: "line_buffer (lines s ld) = Some b"
  shows "\<exists>s'. on_scancode s KC_BACKSPACE = Some s' \<and>
    line_buffer (lines s' ld) = Some (b[unat (buffer_i (lines s ld)) := 0]) \<and>
    unat (buffer_i (lines s' ld)) = unat (buffer_i (lines s ld)) - 1 \<and> streams s' = streams s \<and>
    l_out (lines s' ld) = l_out (lines s ld)"
proof -
  let ?s = "connected s"
  have ok: "line_ok dd ok ?s ld" using ty kb_ok_connected by (auto simp: typing_def kb_ok_def)
  have n: "buffer_i (lines s ld) \<noteq> 1023" "buffer_i (lines s ld) \<noteq> 0" using i by auto
  have e: "eval_kc ?s t KC_BACKSPACE \<noteq> (0, s')" for t s' by (simp add: eval_kc_def)
  have scan: "on_scancode s KC_BACKSPACE = map_option snd (line_in ?s ld KC_BACKSPACE)"
    using on_scancode_line_in [of dd ok s ld KC_BACKSPACE] ty by (simp add: typing_def)
  from ok show ?thesis
  proof (cases rule: line_in_cases [of ?s ld KC_BACKSPACE])
    case (erase b')
    then show ?thesis using scan b n unat_minus_one [OF n(2)] by auto
  qed (use n e in auto)
qed

end

text \<open>holding shift while pressing a key types its capital and leaves the case as it was: after
  the scan codes of shift, the key, and shift released, the line holds the character of the
  capital table and the terminal is in lower case again.\<close>

theorem shift_types_capital:
  assumes "typing default_dis cursor_ok s ld" and "\<not> caps s" and "plain k"
    and "unat (buffer_i (lines s ld)) < 1022" and "line_buffer (lines s ld) = Some b"
  shows "\<exists>s'. keys s [KC_LSHIFT, k, KC_LSHIFT_REL] = Some s' \<and> \<not> caps s' \<and>
    line_buffer (lines s' ld) = Some (b[unat (buffer_i (lines s ld)) := kc_ascii_cap ! unat k]) \<and>
    unat (buffer_i (lines s' ld)) = unat (buffer_i (lines s ld)) + 1"
proof -
  let ?i = "unat (buffer_i (lines s ld))"
  obtain s1 where s1: "on_scancode s KC_LSHIFT = Some s1" "typing default_dis cursor_ok s1 ld" "lines s1 = lines s" "caps s1"
    using vl.shift_step [OF assms(1), of KC_LSHIFT] assms(2,4) by auto
  obtain s2 where s2: "on_scancode s1 k = Some s2" "typing default_dis cursor_ok s2 ld" "typed s1 ld b [key_char True k] s2"
    using vl.typing_step [OF s1(2) _ assms(3), of b] assms(4,5) s1(3,4) by auto
  have b2: "line_buffer (lines s2 ld) = Some (take ?i b @ [key_char True k] @ drop (?i + 1) b)"
    "unat (buffer_i (lines s2 ld)) = ?i + 1" "caps s2"
    using s2(3) s1(3,4) by (simp_all add: typed_def Let_def)
  obtain s3 where s3: "on_scancode s2 KC_LSHIFT_REL = Some s3" "lines s3 = lines s2" "\<not> caps s3"
    using vl.shift_step [OF s2(2), of KC_LSHIFT_REL] b2(2,3) assms(4) by auto
  have "?i < length b" using assms(1,5) by (auto simp: typing_def kb_ok_def line_ok_def)
  then show ?thesis
    using s1(1) s2(1) s3 b2 by (simp add: upd_conv_take_nth_drop key_char_def)
qed

text \<open>A terminal at 0x5000 and a line discipline at 0x6000, as after \<open>line_init\<close>, over an empty line.\<close>

definition demo_line :: "vesa tty" where
  "demo_line = snd (line_init default_dis (Some (replicate 1024 0)) 0x5000 0x6000 0 0x7000 COOKED demo_tty)"

lemma demo_line_typing:
  "typing default_dis cursor_ok demo_line 0x6000" "\<not> caps demo_line"
  "buffer_i (lines demo_line 0x6000) = 0" "line_buffer (lines demo_line 0x6000) = Some (replicate 1024 0)"
  "out_chars demo_line 0x6000 = []"
proof -
  have "kb_ok default_dis cursor_ok demo_line 0x6000"
    using line_init_ready [of "0x6000" "0x5000" "replicate 1024 0" demo_tty cursor_ok "0x7000" default_dis] demo_tty_ok
    by (simp add: demo_line_def)
  then show "typing default_dis cursor_ok demo_line 0x6000"
    by (simp add: typing_def demo_line_def line_init_def terminal_init_def Let_def upd_line_def upd_ts_def upd_term_def demo_tty_def)
qed (simp_all add: demo_line_def line_init_def terminal_init_def Let_def upd_line_def upd_ts_def upd_term_def
      demo_tty_def caps_def out_chars_def std_contents_def ring_def)

theorem shift_types_capital_witness:
  "\<exists>s'. keys demo_line [KC_LSHIFT, 35, KC_LSHIFT_REL] = Some s' \<and>
     line_buffer (lines s' 0x6000) = Some ((replicate 1024 0)[0 := 72])"
  using shift_types_capital [OF demo_line_typing(1,2), of 35] demo_line_typing(3,4)
  by (auto simp: plain_def kc_ascii_cap_def)

text \<open>C40: backspace takes the last character back from the line, but not from the process: the
  character has already been handed over, and stays in the queue.  The byte that is cleared is
  the free one behind the line, not the character.\<close>

theorem backspace_keeps_sent:
  assumes "typing default_dis cursor_ok s ld" and "plain k" and "unat (buffer_i (lines s ld)) < 1022"
    and "line_buffer (lines s ld) = Some b" and "length (out_chars s ld) < 255"
  shows "\<exists>s'. keys s [k, KC_BACKSPACE] = Some s' \<and> buffer_i (lines s' ld) = buffer_i (lines s ld) \<and>
    buf_get s' ld (buffer_i (lines s' ld)) = Some (key_char (caps s) k) \<and>
    out_chars s' ld = out_chars s ld @ [key_char (caps s) k]"
proof -
  let ?i = "unat (buffer_i (lines s ld))" and ?c = "key_char (caps s) k"
  obtain s1 where s1: "on_scancode s k = Some s1" "typing default_dis cursor_ok s1 ld" "typed s ld b [?c] s1"
    using vl.typing_step [OF assms(1) _ assms(2,4)] assms(3) by auto
  let ?b = "take ?i b @ [?c] @ drop (?i + 1) b"
  have t: "line_buffer (lines s1 ld) = Some ?b" "unat (buffer_i (lines s1 ld)) = ?i + 1"
    "out_chars s1 ld = out_chars s ld @ [?c]"
    using s1(3) assms(5) by (simp_all add: typed_def Let_def)
  obtain s2 where s2: "on_scancode s1 KC_BACKSPACE = Some s2" "line_buffer (lines s2 ld) = Some (?b[?i + 1 := 0])"
    "unat (buffer_i (lines s2 ld)) = ?i" "streams s2 = streams s1" "l_out (lines s2 ld) = l_out (lines s1 ld)"
    using vl.backspace_step [OF s1(2) _ _ t(1)] t(2) assms(3) by auto
  have "?i < length b" using assms(1,4) by (auto simp: typing_def kb_ok_def line_ok_def)
  then have "buf_get s2 ld (buffer_i (lines s2 ld)) = Some ?c"
    using s2(2,3) by (simp add: buf_get_def arr_get_def nth_append)
  moreover have "buffer_i (lines s2 ld) = buffer_i (lines s ld)" using s2(3) by (simp add: unsigned_word_eqI)
  ultimately show ?thesis using s1(1) s2 t(3) by (simp add: out_chars_def)
qed

theorem backspace_keeps_sent_witness:
  "\<exists>s'. keys demo_line [35, KC_BACKSPACE] = Some s' \<and> buffer_i (lines s' 0x6000) = 0 \<and> out_chars s' 0x6000 = [104]"
  using backspace_keeps_sent [OF demo_line_typing(1), of 35] demo_line_typing(2-5)
  by (auto simp: plain_def key_char_def kc_ascii_def)

text \<open>in raw mode a key code is not passed on raw but translated, without a check that the tables
  have it: every code above 57 that is no end of the buffer reads behind them.\<close>

theorem line_in_raw_overruns:
  assumes "l_mode (lines s ld) = RAW" and "buffer_i (lines s ld) \<noteq> 1023" and "KC_MAX < k"
  shows "line_in s ld k = None"
proof -
  obtain r s' where e: "eval_kc s (l_term (lines s ld)) k = (r, s')" by (cases "eval_kc s (l_term (lines s ld)) k")
  have l: "lines s' = lines s" using eval_kc_frame [OF e] by simp
  have "unat (ucast k :: u32) = unat k" by transfer (simp add: take_bit_take_bit)
  then have "58 \<le> unat (ucast k :: u32)" using assms(3) by (simp add: word_less_nat_alt)
  then have "kc_getchar s' t k = None" for t by (simp add: kc_getchar_def arr_get_def)
  then show ?thesis using e l assms(1,2) by (simp add: line_in_def line_store_def)
qed

theorem line_in_raw_overruns_witness: "line_in demo_tty 0 59 = None"
  by (rule line_in_raw_overruns) (simp_all add: demo_tty_def)

end
