(* ===== verification/IsrProofs.thy ===== *)
theory IsrProofs
  imports Isr TtyProofs
begin

text \<open>
  What the interrupt code of the theory Isr guarantees: where the gates lead, what the controllers and
  the timer chip are told, and how interrupts reach the scheduler and the keyboard driver.
\<close>

section \<open>The descriptor table\<close>

text \<open>The address that the processor jumps to through a gate.\<close>

definition gate_addr :: "idt_entry \<Rightarrow> u32" where
  "gate_addr e = push_bit 16 (ucast (offset_high e)) OR ucast (offset_low e)"

text \<open>A present gate of privilege level 0 into a 32-bit handler of the kernel's code segment.\<close>

definition kernel_gate :: "idt_entry \<Rightarrow> bool" where
  "kernel_gate e \<longleftrightarrow> selector e = 8 \<and> e_zero e = 0 \<and> e_flags e = 0x8E"

lemma halves_of_word:
  fixes a :: u32
  shows "push_bit 16 (ucast (ucast (drop_bit 16 a AND 0xFFFF) :: u16)) OR ucast (ucast (a AND 0xFFFF) :: u16) = a"
proof (rule bit_word_eqI)
  fix n assume n: "n < LENGTH(32)"
  have m: "(0xFFFF :: u32) = mask 16" by (simp add: mask_eq_exp_minus_1)
  show "bit (push_bit 16 (ucast (ucast (drop_bit 16 a AND 0xFFFF) :: u16)) OR
      ucast (ucast (a AND 0xFFFF) :: u16) :: u32) n = bit a n"
    unfolding m take_bit_eq_mask [symmetric] using n by (cases "n < 16") (simp_all add: bit_simps, auto)
qed

lemma set_idt_gate_simps [simp]:
  "interrupt_handlers (set_idt_gate n a s) = interrupt_handlers s" "m_ports (set_idt_gate n a s) = m_ports s"
  "m_k (set_idt_gate n a s) = m_k s" "m_tty (set_idt_gate n a s) = m_tty s" "idtr (set_idt_gate n a s) = idtr s"
  "length (idt (set_idt_gate n a s)) = length (idt s)"
  by (simp_all add: set_idt_gate_def)

lemma set_idt_gate_at:
  assumes "length (idt s) = IDT_SIZE" and "i < IDT_SIZE"
  shows "idt (set_idt_gate n a s) ! i =
    (if i = unat n then \<lparr>offset_low = ucast (a AND 0xFFFF), selector = 8, e_zero = 0, e_flags = 0x8E,
       offset_high = ucast (drop_bit 16 a AND 0xFFFF)\<rparr> else idt s ! i)"
  using assms by (simp add: set_idt_gate_def nth_list_update)

text \<open>\<open>set_idt_gate\<close> splits the address of the handler so that the processor finds it again, as a
  kernel gate, and leaves every other gate alone.\<close>

theorem set_idt_gate_roundtrip:
  assumes "length (idt s) = IDT_SIZE"
  shows "gate_addr (idt (set_idt_gate n a s) ! unat n) = a \<and> kernel_gate (idt (set_idt_gate n a s) ! unat n) \<and>
    (\<forall>i<IDT_SIZE. i \<noteq> unat n \<longrightarrow> idt (set_idt_gate n a s) ! i = idt s ! i)"
proof -
  have "unat n < IDT_SIZE" using unsigned_less [of n] by simp
  then show ?thesis
    using set_idt_gate_at [OF assms] by (simp add: gate_addr_def kernel_gate_def halves_of_word)
qed

lemma gate_at:
  assumes "length (idt s) = IDT_SIZE" and "i < IDT_SIZE"
  shows "gate_addr (idt (set_idt_gate n a s) ! i) = (if i = unat n then a else gate_addr (idt s ! i))"
    and "kernel_gate (idt (set_idt_gate n a s) ! i) = (i = unat n \<or> kernel_gate (idt s ! i))"
  using set_idt_gate_at [OF assms] by (simp_all add: gate_addr_def kernel_gate_def halves_of_word)

text \<open>A row of gates: what \<open>install_isrs\<close> and \<open>install_irqs\<close> do.\<close>

lemma install_gates:
  fixes f :: "nat \<Rightarrow> u32"
  assumes "b + n \<le> IDT_SIZE" and "length (idt s) = IDT_SIZE"
  shows "\<exists>s'. fold (\<lambda>i. set_idt_gate (of_nat (b + i)) (f i)) [0..<n] s = s' \<and> length (idt s') = IDT_SIZE \<and>
     interrupt_handlers s' = interrupt_handlers s \<and> m_ports s' = m_ports s \<and> m_k s' = m_k s \<and> m_tty s' = m_tty s \<and>
     (\<forall>i<IDT_SIZE. gate_addr (idt s' ! i) = (if b \<le> i \<and> i < b + n then f (i - b) else gate_addr (idt s ! i)) \<and>
        kernel_gate (idt s' ! i) = (b \<le> i \<and> i < b + n \<or> kernel_gate (idt s ! i)))"
  using assms(1)
proof (induction n)
  case (Suc n)
  let ?s = "fold (\<lambda>i. set_idt_gate (of_nat (b + i)) (f i)) [0..<n] s"
  have n: "unat (of_nat (b + n) :: u8) = b + n" using Suc.prems by (simp add: unat_of_nat del: of_nat_add)
  have IH: "length (idt ?s) = IDT_SIZE" "interrupt_handlers ?s = interrupt_handlers s" "m_ports ?s = m_ports s"
    "m_k ?s = m_k s" "m_tty ?s = m_tty s"
    "\<And>i. i < IDT_SIZE \<Longrightarrow> gate_addr (idt ?s ! i) = (if b \<le> i \<and> i < b + n then f (i - b) else gate_addr (idt s ! i))"
    "\<And>i. i < IDT_SIZE \<Longrightarrow> kernel_gate (idt ?s ! i) = (b \<le> i \<and> i < b + n \<or> kernel_gate (idt s ! i))"
    using Suc by auto
  then show ?case
    using gate_at [OF IH(1), of _ "of_nat (b + n)" "f n"] n by (auto simp del: of_nat_add)
qed (use assms in auto)

section \<open>Initialisation\<close>

lemma register_simps [simp]:
  "idt (register_interrupt_handler n f s) = idt s" "m_ports (register_interrupt_handler n f s) = m_ports s"
  "m_k (register_interrupt_handler n f s) = m_k s" "m_irq (register_interrupt_handler n f s) = m_irq s" "m_tty (register_interrupt_handler n f s) = m_tty s"
  "interrupt_handlers (register_interrupt_handler n f s) = (interrupt_handlers s)[unat n := Some f]"
  by (simp_all add: register_interrupt_handler_def)

lemma m_outb_simps [simp]:
  "idt (m_outb p v s) = idt s" "interrupt_handlers (m_outb p v s) = interrupt_handlers s"
  "m_k (m_outb p v s) = m_k s" "m_tty (m_outb p v s) = m_tty s" "m_irq (m_outb p v s) = m_irq s"
  "port_log (m_ports (m_outb p v s)) = port_log (m_ports s) @ [Outb p v]" "dev (m_ports (m_outb p v s)) = dev (m_ports s)"
  by (simp_all add: m_outb_def outb_def)

lemma resume_simps [simp]:
  "m_k (resume s) = m_k s" "m_tty (resume s) = m_tty s" "interrupt_handlers (resume s) = interrupt_handlers s"
  "idt (resume s) = idt s"
  by (simp_all add: resume_def send_eoi_def Let_def split: option.splits)

lemma after_call_simps [simp]:
  "m_k (after_call c k s) = k" "m_tty (after_call c k s) = m_tty s"
  by (simp_all add: after_call_def split: ctl.splits)

lemma remap_pics_simps [simp]:
  "idt (remap_pics s) = idt s" "interrupt_handlers (remap_pics s) = interrupt_handlers s"
  "m_k (remap_pics s) = m_k s" "m_tty (remap_pics s) = m_tty s" "dev (m_ports (remap_pics s)) = dev (m_ports s)"
  by (simp_all add: remap_pics_def)

lemma divisor_bytes:
  fixes d :: u32
  shows "256 * unat (ucast (drop_bit 8 d AND 0xFF) :: u8) + unat (ucast (d AND 0xFF) :: u8) = unat d mod 2 ^ 16"
proof -
  have m: "(0xFF :: u32) = mask 8" by (simp add: mask_eq_exp_minus_1)
  have "unat (ucast (take_bit 8 e) :: u8) = unat e mod 256" for e :: u32
    by (simp add: unsigned_ucast_eq unsigned_take_bit_eq) (simp add: take_bit_eq_mod)
  then have "256 * unat (ucast (drop_bit 8 d AND 0xFF) :: u8) + unat (ucast (d AND 0xFF) :: u8) =
      256 * (unat (drop_bit 8 d) mod 256) + unat d mod 256"
    by (simp add: m take_bit_eq_mask)
  also have "unat (drop_bit 8 d) = unat d div 256" by (simp add: drop_bit_eq_div unat_div_distrib)
  also have "256 * (unat d div 256 mod 256) + unat d mod 256 = unat d mod 2 ^ 16"
    using mod_mult2_eq [of "unat d" 256 256] by simp
  finally show ?thesis .
qed

text \<open>\<open>init_timer\<close> programs the timer chip for a square wave and sends the divisor of its
  1193180 Hz clock, low byte first.  From 19 Hz on the two bytes are the divisor; below they are only
  its last 16 bits, and a frequency of 0 divides by zero.\<close>

theorem init_timer_divisor:
  "(freq = 0 \<longrightarrow> init_timer freq s = None) \<and>
   (freq \<noteq> 0 \<longrightarrow> (\<exists>s' low high. init_timer freq s = Some s' \<and>
      interrupt_handlers s' = (interrupt_handlers s)[32 := Some TIMER_INTERRUPT_HANDLER] \<and>
      port_log (m_ports s') = port_log (m_ports s) @ [Outb 0x43 0x36, Outb 0x40 low, Outb 0x40 high] \<and>
      256 * unat high + unat low = 1193180 div unat freq mod 2 ^ 16 \<and>
      (256 * unat high + unat low = 1193180 div unat freq \<longleftrightarrow> 19 \<le> freq)))"
proof (cases "freq = 0")
  case False
  let ?d = "1193180 div freq" and ?f = "unat freq"
  have d: "unat ?d = 1193180 div ?f" by (simp add: unat_div_distrib)
  have f: "0 < ?f" using False by (simp add: unat_gt_0)
  have "1193180 div ?f < 2 ^ 16 \<longleftrightarrow> 19 \<le> ?f"
  proof
    assume "19 \<le> ?f"
    then have "1193180 div ?f \<le> 1193180 div 19" by (intro div_le_mono2) simp_all
    then show "1193180 div ?f < 2 ^ 16" by simp
  next
    assume l: "1193180 div ?f < 2 ^ 16"
    show "19 \<le> ?f"
    proof (rule ccontr)
      assume "\<not> 19 \<le> ?f"
      then have "1193180 div 18 \<le> 1193180 div ?f" using f by (intro div_le_mono2) simp_all
      then show False using l by simp
    qed
  qed
  then have "1193180 div ?f mod 2 ^ 16 = 1193180 div ?f \<longleftrightarrow> 19 \<le> freq"
    by (simp add: word_le_nat_alt) (metis mod_less mod_less_divisor zero_less_numeral)
  then show ?thesis
    using False divisor_bytes [of ?d] d by (simp add: init_timer_def Let_def)
qed (simp add: init_timer_def Let_def)

lemma init_serial_frame:
  "\<exists>ok l. init_serial p = (ok, p\<lparr>port_log := port_log p @ l\<rparr>) \<and> sent_to 0x21 l = [] \<and> sent_to 0xA1 l = []"
proof -
  define l where "l = [Outb (COM1 + 1) 0, Outb (COM1 + 3) 0x80, Outb (COM1 + 0) 3, Outb (COM1 + 1) 0, Outb (COM1 + 3) 3,
    Outb (COM1 + 2) 0xC7, Outb (COM1 + 4) 0x0B, Outb (COM1 + 4) 0x1E, Outb (COM1 + 0) 0xAE, Inb (COM1 + 0)]"
  have "init_serial p \<in> {(False, p\<lparr>port_log := port_log p @ l\<rparr>), (True, p\<lparr>port_log := port_log p @ l @ [Outb (COM1 + 4) 0x0F]\<rparr>)}"
    by (simp add: init_serial_def Let_def outb_def inb_def l_def)
  moreover have "sent_to 0x21 l = []" "sent_to 0xA1 l = []" by (simp_all add: l_def)
  moreover have "sent_to 0x21 (l @ [Outb (COM1 + 4) 0x0F]) = []" "sent_to 0xA1 (l @ [Outb (COM1 + 4) 0x0F]) = []"
    by (simp_all add: l_def)
  ultimately show ?thesis by blast
qed

lemma init_serial_irqs_frame:
  assumes "length (interrupt_handlers s) = IDT_SIZE"
  shows "\<exists>l. idt (init_serial_irqs s) = idt s \<and> port_log (m_ports (init_serial_irqs s)) = port_log (m_ports s) @ l \<and>
     sent_to 0x21 l = [] \<and> sent_to 0xA1 l = [] \<and> length (interrupt_handlers (init_serial_irqs s)) = IDT_SIZE \<and>
     (\<forall>i<IDT_SIZE. i \<notin> {35, 36} \<longrightarrow> interrupt_handlers (init_serial_irqs s) ! i = interrupt_handlers s ! i) \<and>
     m_k (init_serial_irqs s) = m_k s \<and> m_tty (init_serial_irqs s) = m_tty s"
proof -
  obtain ok l where l: "init_serial (m_ports s) = (ok, (m_ports s)\<lparr>port_log := port_log (m_ports s) @ l\<rparr>)"
    "sent_to 0x21 l = []" "sent_to 0xA1 l = []"
    using init_serial_frame [of "m_ports s"] by auto
  then show ?thesis using assms by (intro exI [of _ l]) (simp add: init_serial_irqs_def Let_def)
qed

text \<open>A machine at start: no interrupt handlers, a serial chip that answers with zeros.\<close>

definition demo_machine :: machine where
  "demo_machine = \<lparr>idt = replicate 256 \<lparr>offset_low = 0, selector = 0, e_zero = 0, e_flags = 0, offset_high = 0\<rparr>,
     idt_i = \<lparr>i_limit = 0, i_addr = 0\<rparr>, interrupt_handlers = replicate 256 None, idtr = None,
     m_ports = \<lparr>port_log = [], dev = (\<lambda>l p. 0)\<rparr>, m_tty = demo_line, m_k = demo_state, m_irq = Map.empty, halted = False\<rparr>"

lemma demo_machine_simps [simp]:
  "length (idt demo_machine) = 256" "length (interrupt_handlers demo_machine) = 256" "m_k demo_machine = demo_state"
  "m_tty demo_machine = demo_line" "port_log (m_ports demo_machine) = []" "m_irq demo_machine = Map.empty"
  by (simp_all add: demo_machine_def)

theorem set_idt_gate_roundtrip_witness:
  "gate_addr (idt (set_idt_gate 33 0x123456 demo_machine) ! 33) = 0x123456"
  using set_idt_gate_roundtrip [of demo_machine 33 "0x123456"] by simp

theorem init_timer_divisor_witness:
  "\<exists>s' low high. init_timer 100 demo_machine = Some s' \<and> 256 * unat high + unat (low :: u8) = 11931 \<and>
     port_log (m_ports s') = [Outb 0x43 0x36, Outb 0x40 low, Outb 0x40 high]"
  using init_timer_divisor [of 100 demo_machine] by auto

text \<open>C22: \<open>init_idt\<close> sends exceptions and interrupt requests to their entry points through kernel gates
  and leaves the other gates alone, makes the controllers raise vectors 32 to 39 and 40 to 47 with
  every line enabled, registers the handlers of timer and keyboard, and loads the table.\<close>

theorem init_idt_installs:
  assumes "length (idt s) = IDT_SIZE" and "length (interrupt_handlers s) = IDT_SIZE"
  shows "\<exists>s'. init_idt isr irq a s = Some s' \<and>
     (\<forall>i<48. kernel_gate (idt s' ! i) \<and> gate_addr (idt s' ! i) = (if i < 32 then isr i else irq (i - 32))) \<and>
     (\<forall>i<IDT_SIZE. 48 \<le> i \<longrightarrow> gate_addr (idt s' ! i) = gate_addr (idt s ! i)) \<and>
     idtr s' = Some \<lparr>i_limit = 2047, i_addr = a\<rparr> \<and>
     interrupt_handlers s' ! 32 = Some TIMER_INTERRUPT_HANDLER \<and> interrupt_handlers s' ! 33 = Some KEYBOARD_HANDLER \<and>
     sent_to 0x21 (port_log (m_ports s')) = sent_to 0x21 (port_log (m_ports s)) @ [0x20, 4, 1, 0] \<and>
     sent_to 0xA1 (port_log (m_ports s')) = sent_to 0xA1 (port_log (m_ports s)) @ [0x28, 2, 1, 0]"
proof -
  obtain s1 where s1: "install_isrs isr s = s1" "length (idt s1) = IDT_SIZE"
    "interrupt_handlers s1 = interrupt_handlers s" "m_ports s1 = m_ports s"
    "\<forall>i<IDT_SIZE. gate_addr (idt s1 ! i) = (if i < 32 then isr i else gate_addr (idt s ! i)) \<and>
       kernel_gate (idt s1 ! i) = (i < 32 \<or> kernel_gate (idt s ! i))"
    using install_gates [of 0 32 s isr] assms(1) by (auto simp: install_isrs_def)
  let ?s1 = "remap_pics s1"
  have "length (idt ?s1) = IDT_SIZE" using s1(2) by simp
  then obtain s2 where s2: "install_irqs irq ?s1 = s2" "length (idt s2) = IDT_SIZE"
    "interrupt_handlers s2 = interrupt_handlers s" "m_ports s2 = m_ports ?s1"
    "\<forall>i<IDT_SIZE. gate_addr (idt s2 ! i) = (if 32 \<le> i \<and> i < 48 then irq (i - 32) else gate_addr (idt s1 ! i)) \<and>
       kernel_gate (idt s2 ! i) = (32 \<le> i \<and> i < 48 \<or> kernel_gate (idt s1 ! i))"
    using install_gates [of 32 16 ?s1 irq] s1(3) by (auto simp: install_irqs_def)
  define s3 where "s3 = m_outb 0x40 0x2E (m_outb 0x40 0x9B (m_outb 0x43 0x36
    (register_interrupt_handler IRQ00 TIMER_INTERRUPT_HANDLER s2)))"
  have s3: "init_timer R_FREQ s2 = Some s3" by (simp add: init_timer_def s3_def Let_def)
  have h: "length (interrupt_handlers (init_keyboard s3)) = IDT_SIZE"
    using s2(3) assms(2) by (simp add: init_keyboard_def s3_def)
  obtain l where l: "idt (init_serial_irqs (init_keyboard s3)) = idt s2"
    "port_log (m_ports (init_serial_irqs (init_keyboard s3))) = port_log (m_ports (init_keyboard s3)) @ l"
    "sent_to 0x21 l = []" "sent_to 0xA1 l = []"
    "\<forall>i<IDT_SIZE. i \<notin> {35, 36} \<longrightarrow>
       interrupt_handlers (init_serial_irqs (init_keyboard s3)) ! i = interrupt_handlers (init_keyboard s3) ! i"
    using init_serial_irqs_frame [OF h] by (auto simp: init_keyboard_def s3_def)
  have hs: "interrupt_handlers (init_keyboard s3) = (interrupt_handlers s)[32 := Some TIMER_INTERRUPT_HANDLER, 33 := Some KEYBOARD_HANDLER]"
    by (simp add: init_keyboard_def s3_def s2(3))
  have "init_idt isr irq a s = Some (load_idt a (init_serial_irqs (init_keyboard s3)))"
    by (simp add: init_idt_def init_irqs_def s1(1) s2(1) s3)
  moreover have "sent_to 0x21 (port_log (m_ports (init_keyboard s3))) = sent_to 0x21 (port_log (m_ports s)) @ [0x20, 4, 1, 0]"
    "sent_to 0xA1 (port_log (m_ports (init_keyboard s3))) = sent_to 0xA1 (port_log (m_ports s)) @ [0x28, 2, 1, 0]"
    by (simp_all add: init_keyboard_def s3_def s2(4) remap_pics_def s1(4))
  ultimately show ?thesis
    using l hs s1(5) s2(5) assms(2) by (simp add: load_idt_def Let_def)
qed

theorem init_idt_installs_witness:
  "\<exists>s'. init_idt (\<lambda>i. 0x100000) (\<lambda>i. 0x200000) 0x300000 demo_machine = Some s' \<and>
     gate_addr (idt s' ! 14) = 0x100000 \<and> gate_addr (idt s' ! 33) = 0x200000 \<and>
     interrupt_handlers s' ! 33 = Some KEYBOARD_HANDLER"
  using init_idt_installs [of demo_machine "\<lambda>i. 0x100000" "\<lambda>i. 0x200000" "0x300000"] by auto

section \<open>Interrupts\<close>

lemma run_handler_log:
  assumes "run_handler f s = Some (c, s')"
  shows "sent_to q (port_log (m_ports s')) = sent_to q (port_log (m_ports s)) \<and>
     interrupt_handlers s' = interrupt_handlers s \<and> m_irq s' = m_irq s"
  using assms
  by (cases f) (auto simp: run_handler_def keyboard_handler_def inb_def split: bind_splits)

text \<open>No interrupt is ever acknowledged to the second controller: the test is for numbers from 49
  on, but its interrupts are raised as 40 to 47.\<close>

theorem irq_handler_skips_slave:
  assumes "irq_handler n s = Some (c, s')" and "n < 49" and "\<And>t i. m_irq s t = Some i \<Longrightarrow> i < 49"
  shows "sent_to 0xA0 (port_log (m_ports s')) = sent_to 0xA0 (port_log (m_ports s))"
proof -
  have n: "\<not> 49 \<le> n" "m_irq s t = Some i \<Longrightarrow> \<not> 49 \<le> i" for t i using assms(2,3) by (auto simp: not_le)
  show ?thesis
    using assms(1) n
    by (auto simp: irq_handler_def send_eoi_def resume_def Let_def dest!: run_handler_log [where q = "0xA0"]
        split: bind_splits option.splits ctl.splits if_splits)
qed

theorem irq_handler_skips_slave_witness:
  "\<exists>c s'. irq_handler 44 demo_machine = Some (c, s') \<and> sent_to 0xA0 (port_log (m_ports s')) = [] \<and>
     sent_to 0x20 (port_log (m_ports s')) = [0x20]"
proof -
  have "irq_handler 44 demo_machine = Some (Returns (), m_outb 0x20 0x20 demo_machine)"
    by (simp add: irq_handler_def arr_get_def demo_machine_def send_eoi_def)
  moreover from irq_handler_skips_slave [OF this]
  have "sent_to 0xA0 (port_log (m_ports (m_outb 0x20 0x20 demo_machine))) = []" by simp
  ultimately show ?thesis by simp
qed

text \<open>An exception prints its number and name and stops the machine.\<close>

definition decimal :: "nat \<Rightarrow> u8 list" where
  "decimal n = (if n < 10 then [of_nat (48 + n)] else [of_nat (48 + n div 10), of_nat (48 + n mod 10)])"

definition exception_text :: "nat \<Rightarrow> u8 list" where
  "exception_text n = bytes ''Recieved Interrupt: '' @ decimal n @ [32] @ bytes (exception_messages ! n) @ [10]"

lemma length_exception_messages: "length exception_messages = 32"
  by (simp add: exception_messages_def)

lemma exception_numbers: "list_all (\<lambda>n. dec_string (int n) = Some (decimal n) \<and> ascii (decimal n)) [0..<32]"
  unfolding ascii_def by code_simp

lemma exception_names: "list_all (\<lambda>s. list_all (\<lambda>c. 0 \<le> sint c \<and> c \<noteq> 0) (bytes s)) exception_messages"
  by code_simp

lemma exception_message:
  assumes "dec_string i = Some d"
  shows "message (bytes ''Recieved Interrupt: %d %s'' @ [10]) [AInt i, AStr s] =
     Some (bytes ''Recieved Interrupt: '' @ d @ [32] @ s @ [10])"
  using assms by (simp add: bytes_def lit_directive_def)

theorem exception_halts:
  assumes "n < 32" and "cursor_ok (screen (m_tty s))"
  shows "\<exists>s'. isr_handler n s = Some s' \<and> halted s' \<and> \<not> interrupts (m_k s') \<and>
     vesa_print (exception_text (unat n)) (screen (m_tty s)) = Some (screen (m_tty s'))"
proof -
  let ?n = "unat n" and ?f = "bytes ''Recieved Interrupt: %d %s'' @ [10]"
  have n: "?n < 32" using assms(1) by (simp add: word_less_nat_alt)
  then have "sint n = int ?n" by (intro sint_small) simp
  moreover have get: "arr_get exception_messages n = Some (exception_messages ! ?n)"
    using n by (simp add: arr_get_def exception_messages_def)
  have d: "dec_string (int ?n) = Some (decimal ?n)" "ascii (decimal ?n)"
    using bspec [OF exception_numbers [unfolded list_all_iff], of ?n] n by auto
  have s: "ascii (bytes (exception_messages ! ?n))" "0 \<notin> set (bytes (exception_messages ! ?n))"
    using bspec [OF exception_names [unfolded list_all_iff] nth_mem, of ?n] n
    by (auto simp: list_all_iff ascii_def length_exception_messages)
  have "ascii (bytes ''Recieved Interrupt: '')" by (simp add: bytes_def)
  then have "ascii (exception_text ?n)" using d s by (simp add: exception_text_def)
  moreover have m: "message ?f [AInt (int ?n), AStr (bytes (exception_messages ! ?n))] = Some (exception_text ?n)"
    unfolding exception_text_def by (rule exception_message [OF d(1)])
  moreover have "0 \<notin> set ?f" by code_simp
  ultimately show ?thesis
    using kprintf_lit_vesa [OF assms(2) m] s(2) get by (auto simp: isr_handler_def disable_interrupts_def)
qed

theorem exception_halts_witness:
  "\<exists>s'. isr_handler 0 demo_machine = Some s' \<and> halted s' \<and>
     vesa_print (exception_text 0) (screen demo_line) = Some (screen (m_tty s'))"
proof -
  have "cursor_ok (screen demo_line)" using demo_line_typing(1) by (simp add: typing_def kb_ok_def line_ok_def)
  then show ?thesis using exception_halts [of 0 demo_machine] by auto
qed

section \<open>The machine stays well formed\<close>

text \<open>Full tables, and a keyboard that is connected to the line discipline \<open>ld\<close>.\<close>

definition machine_ok :: "u32 \<Rightarrow> machine \<Rightarrow> bool" where
  "machine_ok ld s \<longleftrightarrow> length (idt s) = IDT_SIZE \<and> length (interrupt_handlers s) = IDT_SIZE \<and>
     kb_ok default_dis cursor_ok (m_tty s) ld"

text \<open>Interrupts one after the other, as long as each handler returns.\<close>

fun device_irqs :: "u32 list \<Rightarrow> machine \<Rightarrow> machine option" where
  "device_irqs [] s = Some s"
| "device_irqs (n # ns) s = (case irq_handler n s of Some (Returns _, s) \<Rightarrow> device_irqs ns s | _ \<Rightarrow> None)"

lemma keyboard_handler_ok:
  assumes "kb_ok default_dis cursor_ok t ld"
  shows "\<exists>t'. keyboard_handler p t = Some (p\<lparr>port_log := port_log p @ [Inb 0x60]\<rparr>, t') \<and> kb_ok default_dis cursor_ok t' ld"
  using vl.on_scancode_ok [OF assms] by (fastforce simp: keyboard_handler_def inb_def)

lemma irq_handler_ok:
  assumes ok: "machine_ok ld s" and n: "n < 256" "interrupt_handlers s ! unat n \<noteq> Some TIMER_INTERRUPT_HANDLER"
  shows "\<exists>s'. irq_handler n s = Some (Returns (), s') \<and> machine_ok ld s' \<and> m_k s' = m_k s \<and>
     m_irq s' = m_irq s \<and> interrupt_handlers s' = interrupt_handlers s \<and> sent_to 0x20 (port_log (m_ports s')) = sent_to 0x20 (port_log (m_ports s)) @ [0x20]"
proof -
  obtain t' where kb: "keyboard_handler (m_ports s) (m_tty s) =
      Some ((m_ports s)\<lparr>port_log := port_log (m_ports s) @ [Inb 0x60]\<rparr>, t')" "kb_ok default_dis cursor_ok t' ld"
    using keyboard_handler_ok ok unfolding machine_ok_def by blast
  have get: "arr_get (interrupt_handlers s) n = Some (interrupt_handlers s ! unat n)"
    using ok n(1) by (simp add: arr_get_def machine_ok_def word_less_nat_alt)
  show ?thesis
  proof (cases "interrupt_handlers s ! unat n")
    case None
    then show ?thesis using ok get by (simp add: irq_handler_def send_eoi_def machine_ok_def)
  next
    case (Some h)
    then show ?thesis using ok get kb n(2)
      by (cases h) (simp_all add: irq_handler_def run_handler_def send_eoi_def machine_ok_def)
  qed
qed

text \<open>Any interrupts other than those of the timer, with any scan codes from the keyboard: every
  handler returns, the tables, the line buffer, the output queue and the cursor stay within their
  bounds, no thread is affected, and the first controller gets exactly one acknowledgement each.\<close>

theorem device_irqs_keep_machine:
  assumes "machine_ok ld s" and "\<forall>n\<in>set ns. n < 256 \<and> interrupt_handlers s ! unat n \<noteq> Some TIMER_INTERRUPT_HANDLER"
  shows "\<exists>s'. device_irqs ns s = Some s' \<and> machine_ok ld s' \<and> m_k s' = m_k s \<and>
     sent_to 0x20 (port_log (m_ports s')) = sent_to 0x20 (port_log (m_ports s)) @ replicate (length ns) 0x20"
  using assms
proof (induction ns arbitrary: s)
  case (Cons n ns)
  obtain s1 where s1: "irq_handler n s = Some (Returns (), s1)" "machine_ok ld s1" "m_k s1 = m_k s"
      "interrupt_handlers s1 = interrupt_handlers s"
      "sent_to 0x20 (port_log (m_ports s1)) = sent_to 0x20 (port_log (m_ports s)) @ [0x20]"
    using irq_handler_ok [OF Cons.prems(1), of n] Cons.prems(2) by auto
  then show ?case using Cons.IH [of s1] Cons.prems(2) by auto
qed simp

theorem device_irqs_keep_machine_witness:
  "\<exists>s'. device_irqs [33, 35, 33, 44] (register_interrupt_handler IRQ01 KEYBOARD_HANDLER demo_machine) = Some s' \<and>
     m_k s' = demo_state \<and> sent_to 0x20 (port_log (m_ports s')) = [0x20, 0x20, 0x20, 0x20]"
proof -
  let ?s = "register_interrupt_handler IRQ01 KEYBOARD_HANDLER demo_machine"
  have ok: "machine_ok 0x6000 ?s" using demo_line_typing(1) by (simp add: machine_ok_def typing_def)
  have "interrupt_handlers demo_machine ! i = None" if "i < 256" for i using that by (simp add: demo_machine_def)
  then show ?thesis using device_irqs_keep_machine [OF ok, of "[33, 35, 33, 44]"] by auto
qed

end
