(* ===== verification/Preempt.thy ===== *)
theory Preempt
  imports IsrProofs
begin

text \<open>
  How the components work together on an interrupt: the timer drives the scheduler of kernel/thread.c
  through \<open>irq_handler\<close>, the keyboard the terminal and the line discipline.
\<close>

section \<open>Time slices\<close>

lemma tick_sched_ok:
  assumes "sched_ok k rs bs"
  shows "sched_ok (upd_thr (running k) (\<lambda>r. r\<lparr>ticks := ticks r + 1\<rparr>) (k\<lparr>thread_ticks := n\<rparr>)) rs bs"
  using assms by (auto simp: sched_ok_def placed_def)

lemma unat_numeral_u8: "unat (8 :: u8) = 8"
  by simp

lemma unat_tick: "unat (x + 1 :: u8) mod 8 = (unat x + 1) mod 8"
  by (simp add: unat_word_ariths mod_mod_cancel)

lemma tick_mod: "(x + 1 :: u8) mod 8 = 0 \<longleftrightarrow> (unat x + 1) mod 8 = 0"
proof -
  have "(x + 1 :: u8) mod 8 = 0 \<longleftrightarrow> unat ((x + 1) mod 8) = 0" by (rule unat_eq_0 [symmetric])
  also have "unat ((x + 1) mod 8) = (unat x + 1) mod 8" by (simp only: unat_mod unat_numeral_u8 unat_tick)
  finally show ?thesis .
qed

text \<open>The timer handler gives up the processor at every eighth tick.\<close>

lemma timer_tick_returns:
  assumes "sched_ok k rs bs" and "(unat (thread_ticks k) + 1) mod 8 \<noteq> 0"
  shows "\<exists>k'. timer_interrupt_handler k = Some (Returns (), k') \<and> sched_ok k' rs bs \<and> running k' = running k \<and>
     thread_ticks k' = thread_ticks k + 1 \<and> (\<forall>u. t_frame (thr k' u) = t_frame (thr k u))"
  using assms tick_sched_ok [OF assms(1), of "thread_ticks k + 1"]
  by (simp add: timer_interrupt_handler_def Let_def THREAD_CUR_def tick_mod)

lemma timer_tick_switches:
  assumes "sched_ok k (t # rs) bs" and "rs \<noteq> []" and "(unat (thread_ticks k) + 1) mod 8 = 0"
  shows "\<exists>k'. timer_interrupt_handler k = Some (Switched, k') \<and> sched_ok k' (rs @ [running k]) bs \<and> running k' = t \<and>
     thread_ticks k' = thread_ticks k + 1 \<and> (\<forall>u. u \<noteq> running k \<longrightarrow> t_frame (thr k' u) = t_frame (thr k u))"
  using assms(3) schedule_rotates [OF tick_sched_ok [OF assms(1), of "thread_ticks k + 1"] assms(2)]
  by (auto simp: timer_interrupt_handler_def Let_def THREAD_CUR_def tick_mod)

text \<open>\<open>preempted s t\<close>: the waiting thread \<open>t\<close> never ran, or lost the processor to a timer interrupt, so that
  it acknowledges an interrupt when it goes on.\<close>

definition preempted :: "machine \<Rightarrow> u32 \<Rightarrow> bool" where
  "preempted s t \<longleftrightarrow> stack_eip (t_frame (thr (m_k s) t)) = FIRST_SWITCH_ENTRY \<or> m_irq s t = Some 32"

text \<open>A machine that takes timer interrupts, its threads as \<open>sched_ok\<close> says; the ready ones gave up the
  processor to the timer only.\<close>

definition ticking :: "machine \<Rightarrow> u32 list \<Rightarrow> u32 list \<Rightarrow> bool" where
  "ticking s rs bs \<longleftrightarrow> sched_ok (m_k s) rs bs \<and> length (interrupt_handlers s) = IDT_SIZE \<and>
     interrupt_handlers s ! 32 = Some TIMER_INTERRUPT_HANDLER \<and> (\<forall>t\<in>set rs. preempted s t)"

lemma resume_preempted:
  assumes "preempted s (running (m_k s))"
  shows "resume s = m_outb 0x20 0x20 (s\<lparr>m_irq := (m_irq s)(running (m_k s) := None)\<rparr>)"
  using assms by (auto simp: preempted_def resume_def THREAD_CUR_def Let_def send_eoi_def)

lemma irq_timer_at:
  assumes "length (interrupt_handlers s) = IDT_SIZE" and "interrupt_handlers s ! 32 = Some TIMER_INTERRUPT_HANDLER"
  shows "irq_handler 32 s = do {
     (c, k) \<leftarrow> timer_interrupt_handler (m_k s);
     Some (case c of Switched \<Rightarrow> (Switched, resume (s\<lparr>m_k := k, m_irq := (m_irq s)(running (m_k s) \<mapsto> 32)\<rparr>))
                   | Returns _ \<Rightarrow> (Returns (), m_outb 0x20 0x20 (s\<lparr>m_k := k\<rparr>))) }"
  using assms
  by (cases "timer_interrupt_handler (m_k s)")
     (auto simp: irq_handler_def arr_get_def run_handler_def send_eoi_def THREAD_CUR_def Let_def split: ctl.splits)

lemma irq_timer:
  assumes "ticking s rs bs"
  shows "irq_handler 32 s = do {
     (c, k) \<leftarrow> timer_interrupt_handler (m_k s);
     Some (case c of Switched \<Rightarrow> (Switched, resume (s\<lparr>m_k := k, m_irq := (m_irq s)(running (m_k s) \<mapsto> 32)\<rparr>))
                   | Returns _ \<Rightarrow> (Returns (), m_outb 0x20 0x20 (s\<lparr>m_k := k\<rparr>))) }"
  using assms by (intro irq_timer_at) (simp_all add: ticking_def)

text \<open>The interrupt that switches is acknowledged by the thread that it continues.\<close>

lemma irq_timer_switches:
  assumes t: "ticking s (t # rs) bs" and "rs \<noteq> []" and "(unat (thread_ticks (m_k s)) + 1) mod 8 = 0"
  shows "\<exists>k i. irq_handler 32 s = Some (Switched, m_outb 0x20 0x20 (s\<lparr>m_k := k, m_irq := i\<rparr>)) \<and>
     ticking (m_outb 0x20 0x20 (s\<lparr>m_k := k, m_irq := i\<rparr>)) (rs @ [running (m_k s)]) bs \<and> running k = t \<and>
     thread_ticks k = thread_ticks (m_k s) + 1"
proof -
  let ?r = "running (m_k s)"
  have ok: "sched_ok (m_k s) (t # rs) bs" using t by (simp add: ticking_def)
  then have r: "?r \<notin> set (t # rs)" "t \<notin> set rs" by (auto simp: sched_ok_def thread_lists_def)
  obtain k where k: "timer_interrupt_handler (m_k s) = Some (Switched, k)" "sched_ok k (rs @ [?r]) bs" "running k = t"
      "thread_ticks k = thread_ticks (m_k s) + 1" "\<And>u. u \<noteq> ?r \<Longrightarrow> t_frame (thr k u) = t_frame (thr (m_k s) u)"
    using timer_tick_switches [OF ok assms(2,3)] by auto
  let ?s = "s\<lparr>m_k := k, m_irq := (m_irq s)(?r \<mapsto> 32)\<rparr>" and ?i = "(m_irq s)(?r \<mapsto> 32, t := None)"
  have p: "preempted ?s u" if "u \<in> set (t # rs)" for u
    using t r k(5) [of u] that by (auto simp: ticking_def preempted_def)
  then have run: "irq_handler 32 s = Some (Switched, m_outb 0x20 0x20 (s\<lparr>m_k := k, m_irq := ?i\<rparr>))"
    using irq_timer [OF t] k(1,3) resume_preempted [of ?s] by simp
  have "preempted (m_outb 0x20 0x20 (s\<lparr>m_k := k, m_irq := ?i\<rparr>)) u" if "u \<in> set (rs @ [?r])" for u
    using p [of u] r that by (cases "u = ?r") (auto simp: preempted_def)
  then have "ticking (m_outb 0x20 0x20 (s\<lparr>m_k := k, m_irq := ?i\<rparr>)) (rs @ [?r]) bs"
    using t k(2) by (simp add: ticking_def)
  then show ?thesis using run k(3,4) by blast
qed

text \<open>Timer interrupts one after the other, and how each ends.\<close>

fun timer_irqs :: "nat \<Rightarrow> machine \<Rightarrow> (unit ctl list \<times> machine) option" where
  "timer_irqs 0 s = Some ([], s)"
| "timer_irqs (Suc n) s = do {
     (c, s) \<leftarrow> irq_handler 32 s;
     (cs, s) \<leftarrow> timer_irqs n s;
     Some (c # cs, s) }"

lemma timer_irqs_append:
  "timer_irqs (m + n) s = do { (cs, s) \<leftarrow> timer_irqs m s; (cs', s) \<leftarrow> timer_irqs n s; Some (cs @ cs', s) }"
proof (induction m arbitrary: s)
  case (Suc m)
  then show ?case by (simp add: split_def)
qed simp

abbreviation slice :: "unit ctl list" where
  "slice \<equiv> replicate 7 (Returns ()) @ [Switched]"

lemma timer_irqs_within:
  assumes "ticking s rs bs" and "unat (thread_ticks (m_k s)) mod 8 + n \<le> 7"
  shows "\<exists>s'. timer_irqs n s = Some (replicate n (Returns ()), s') \<and> ticking s' rs bs \<and>
     running (m_k s') = running (m_k s) \<and>
     unat (thread_ticks (m_k s')) mod 8 = unat (thread_ticks (m_k s)) mod 8 + n \<and>
     port_log (m_ports s') = port_log (m_ports s) @ replicate n (Outb 0x20 0x20)"
  using assms
proof (induction n arbitrary: s)
  case (Suc n)
  let ?k = "m_k s"
  have m: "(unat (thread_ticks ?k) + 1) mod 8 = unat (thread_ticks ?k) mod 8 + 1"
    using Suc.prems(2) by (simp add: mod_Suc)
  then obtain k' where k': "timer_interrupt_handler ?k = Some (Returns (), k')" "sched_ok k' rs bs"
    "running k' = running ?k" "thread_ticks k' = thread_ticks ?k + 1" "\<And>u. t_frame (thr k' u) = t_frame (thr ?k u)"
    using timer_tick_returns [of ?k rs bs] Suc.prems(1) m by (auto simp: ticking_def)
  let ?s = "m_outb 0x20 0x20 (s\<lparr>m_k := k'\<rparr>)"
  have "ticking ?s rs bs" "unat (thread_ticks (m_k ?s)) mod 8 = unat (thread_ticks ?k) mod 8 + 1"
    using Suc.prems k' m unat_tick [of "thread_ticks ?k"] by (simp_all add: ticking_def preempted_def)
  moreover from this have "unat (thread_ticks (m_k ?s)) mod 8 + n \<le> 7" using Suc.prems(2) by simp
  ultimately obtain s' where "timer_irqs n ?s = Some (replicate n (Returns ()), s')" "ticking s' rs bs"
    "running (m_k s') = running (m_k ?s)"
    "unat (thread_ticks (m_k s')) mod 8 = unat (thread_ticks ?k) mod 8 + 1 + n"
    "port_log (m_ports s') = port_log (m_ports ?s) @ replicate n (Outb 0x20 0x20)"
    using Suc.IH [of ?s] by auto
  then show ?case using k' irq_timer [OF Suc.prems(1)] by simp
qed simp

lemma timer_slice:
  assumes "ticking s (t # rs) bs" and "rs \<noteq> []" and "unat (thread_ticks (m_k s)) mod 8 = 0"
  shows "\<exists>s'. timer_irqs 8 s = Some (slice, s') \<and> ticking s' (rs @ [running (m_k s)]) bs \<and>
     running (m_k s') = t \<and> unat (thread_ticks (m_k s')) mod 8 = 0 \<and>
     port_log (m_ports s') = port_log (m_ports s) @ replicate 8 (Outb 0x20 0x20)"
proof -
  obtain s1 where s1: "timer_irqs 7 s = Some (replicate 7 (Returns ()), s1)" "ticking s1 (t # rs) bs"
    "running (m_k s1) = running (m_k s)" "unat (thread_ticks (m_k s1)) mod 8 = 7"
    "port_log (m_ports s1) = port_log (m_ports s) @ replicate 7 (Outb 0x20 0x20)"
    using timer_irqs_within [OF assms(1), of 7] assms(3) by auto
  have m: "(unat (thread_ticks (m_k s1)) + 1) mod 8 = 0" using s1(4) by (simp add: mod_Suc)
  obtain k i where k: "irq_handler 32 s1 = Some (Switched, m_outb 0x20 0x20 (s1\<lparr>m_k := k, m_irq := i\<rparr>))"
    "ticking (m_outb 0x20 0x20 (s1\<lparr>m_k := k, m_irq := i\<rparr>)) (rs @ [running (m_k s)]) bs" "running k = t"
    "thread_ticks k = thread_ticks (m_k s1) + 1"
    using irq_timer_switches [OF s1(2) assms(2) m] s1(3) by auto
  let ?s = "m_outb 0x20 0x20 (s1\<lparr>m_k := k, m_irq := i\<rparr>)"
  have "timer_irqs 1 s1 = Some ([Switched], ?s)" "unat (thread_ticks k) mod 8 = 0"
    using k(1,4) m unat_tick [of "thread_ticks (m_k s1)"] by simp_all
  moreover have "replicate 8 x = replicate 7 x @ [x]" for x :: port_access by (simp add: eval_nat_numeral)
  ultimately show ?thesis
    using timer_irqs_append [of 7 1 s] s1(1,5) k(2,3) by (intro exI [of _ ?s]) (simp del: timer_irqs.simps replicate.simps)
qed

lemma timer_slices:
  assumes "ticking s rs bs" and "2 \<le> length rs" and "unat (thread_ticks (m_k s)) mod 8 = 0"
  shows "\<exists>s'. timer_irqs (8 * k) s = Some (concat (replicate k slice), s') \<and>
     ticking s' (tl (rotate k (running (m_k s) # rs))) bs \<and> running (m_k s') = hd (rotate k (running (m_k s) # rs)) \<and>
     port_log (m_ports s') = port_log (m_ports s) @ replicate (8 * k) (Outb 0x20 0x20)"
  using assms
proof (induction k arbitrary: s rs)
  case (Suc k)
  let ?r = "running (m_k s)"
  obtain t us where rs: "rs = t # us" "us \<noteq> []" using Suc.prems(2) by (cases rs; cases "tl rs") auto
  obtain s1 where s1: "timer_irqs 8 s = Some (slice, s1)" "ticking s1 (us @ [?r]) bs" "running (m_k s1) = t"
    "unat (thread_ticks (m_k s1)) mod 8 = 0" "port_log (m_ports s1) = port_log (m_ports s) @ replicate 8 (Outb 0x20 0x20)"
    using timer_slice [OF Suc.prems(1) [unfolded rs(1)] rs(2) Suc.prems(3)] by (elim exE conjE) (rule that)
  have "2 \<le> length (us @ [?r])" using rs(2) by (cases us) auto
  from Suc.IH [OF s1(2) this s1(4)] obtain s' where
    s': "timer_irqs (8 * k) s1 = Some (concat (replicate k slice), s')"
      "ticking s' (tl (rotate k (t # us @ [?r]))) bs" "running (m_k s') = hd (rotate k (t # us @ [?r]))"
      "port_log (m_ports s') = port_log (m_ports s1) @ replicate (8 * k) (Outb 0x20 0x20)"
    unfolding s1(3) by blast
  have "rotate (Suc k) (?r # rs) = rotate k (t # us @ [?r])"
    by (simp add: rs(1) rotate1_rotate_swap)
  moreover have "timer_irqs (8 * Suc k) s = Some (concat (replicate (Suc k) slice), s')"
    using timer_irqs_append [of 8 "8 * k" s] s1(1) s'(1) by (simp del: timer_irqs.simps)
  moreover have "replicate (8 * Suc k) x = replicate 8 x @ replicate (8 * k) x" for x :: port_access
    by (simp flip: replicate_add)
  ultimately show ?case using s' s1(5) by (simp del: replicate.simps)
qed simp

text \<open>C7: Time slicing by the timer.  With at least two threads ready, each of them new or interrupted by the
  timer when it last ran, and nobody dying, eight times \<open>k\<close> timer interrupts, counted from the start of a
  slice, all succeed; every eighth, and no other, switches, so that the threads get the processor for
  eight ticks each in the cyclic order of the ready list.  Each interrupt is acknowledged to the first
  controller exactly once: those that do not switch by the interrupted thread, the others by the thread
  that the switch continues, in its own call of \<open>irq_handler\<close> or in \<open>first_switch_entry\<close>.\<close>

theorem timer_round_robin:
  assumes "ticking s rs bs" and "2 \<le> length rs" and "unat (thread_ticks (m_k s)) mod 8 = 0"
  shows "\<exists>s'. timer_irqs (8 * k) s = Some (concat (replicate k slice), s') \<and>
     running (m_k s') = (running (m_k s) # rs) ! (k mod Suc (length rs)) \<and>
     ticking s' (tl (rotate k (running (m_k s) # rs))) bs \<and>
     port_log (m_ports s') = port_log (m_ports s) @ replicate (8 * k) (Outb 0x20 0x20)"
  using timer_slices [OF assms, of k] hd_rotate_conv_nth [of "running (m_k s) # rs" k] by auto

definition demo_ticking :: machine where
  "demo_ticking = register_interrupt_handler IRQ00 TIMER_INTERRUPT_HANDLER demo_machine"

lemma demo_frames: "stack_eip (t_frame (thr demo_state t)) = FIRST_SWITCH_ENTRY"
  by (simp add: demo_state_def demo_thread_def)

lemma demo_ticking_ok: "ticking demo_ticking [0x2000, 0x3000] [0x4000]"
  using demo_sched by (simp add: ticking_def demo_ticking_def preempted_def demo_frames)

theorem timer_round_robin_witness:
  "\<exists>s'. timer_irqs 32 demo_ticking = Some (concat (replicate 4 slice), s') \<and> running (m_k s') = 0x2000 \<and>
     port_log (m_ports s') = replicate 32 (Outb 0x20 0x20)"
proof -
  have "unat (thread_ticks (m_k demo_ticking)) mod 8 = 0" "running (m_k demo_ticking) = 0x1000"
      "port_log (m_ports demo_ticking) = []"
    by (simp_all add: demo_ticking_def demo_state_def)
  moreover have "8 * 4 = (32 :: nat)" "4 mod Suc (length [0x2000, 0x3000 :: u32]) = 1" by simp_all
  ultimately show ?thesis
    using timer_round_robin [OF demo_ticking_ok, of 4] by (auto simp del: timer_irqs.simps)
qed

text \<open>The acknowledgement waits for the interrupted thread when the timer continues a thread that gave up the
  processor itself, in \<open>thread_yield\<close> or \<open>thread_block\<close>: nothing is sent to the controllers, so that
  the timer does not interrupt that thread.\<close>

theorem timer_unacknowledged:
  assumes ok: "sched_ok (m_k s) (t # rs) bs" and "rs \<noteq> []" and "(unat (thread_ticks (m_k s)) + 1) mod 8 = 0"
    and "length (interrupt_handlers s) = IDT_SIZE" and "interrupt_handlers s ! 32 = Some TIMER_INTERRUPT_HANDLER"
    and "stack_eip (t_frame (thr (m_k s) t)) = IN_SCHEDULE" and "m_irq s t = None"
  shows "\<exists>s'. irq_handler 32 s = Some (Switched, s') \<and> running (m_k s') = t \<and>
     port_log (m_ports s') = port_log (m_ports s) \<and> m_irq s' (running (m_k s)) = Some 32"
proof -
  have t: "t \<noteq> running (m_k s)" using ok by (auto simp: sched_ok_def)
  obtain k where k: "timer_interrupt_handler (m_k s) = Some (Switched, k)" "running k = t"
      "t_frame (thr k t) = t_frame (thr (m_k s) t)"
    using timer_tick_switches [OF ok assms(2,3)] t by blast
  then show ?thesis using irq_timer_at [OF assms(4,5)] t assms(6,7) by (simp add: resume_def THREAD_CUR_def Let_def)
qed

definition demo_yielded :: machine where
  "demo_yielded = demo_ticking\<lparr>m_k := (upd_thr 0x2000 (\<lambda>r. r\<lparr>t_frame := (t_frame r)\<lparr>stack_eip := IN_SCHEDULE\<rparr>\<rparr>)
     demo_state)\<lparr>thread_ticks := 7\<rparr>\<rparr>"

lemma demo_yielded_ok: "sched_ok (m_k demo_yielded) [0x2000, 0x3000] [0x4000]"
  using demo_sched by (auto simp: demo_yielded_def sched_ok_def placed_def)

theorem timer_unacknowledged_witness:
  "\<exists>s'. irq_handler 32 demo_yielded = Some (Switched, s') \<and> running (m_k s') = 0x2000 \<and> port_log (m_ports s') = []"
proof -
  have "unat (7 :: u8) = 7" by simp
  then have "(unat (thread_ticks (m_k demo_yielded)) + 1) mod 8 = 0" by (simp add: demo_yielded_def)
  moreover have "length (interrupt_handlers demo_yielded) = IDT_SIZE" "m_irq demo_yielded 0x2000 = None"
      "interrupt_handlers demo_yielded ! 32 = Some TIMER_INTERRUPT_HANDLER" "port_log (m_ports demo_yielded) = []"
      "stack_eip (t_frame (thr (m_k demo_yielded) 0x2000)) = IN_SCHEDULE"
    by (simp_all add: demo_yielded_def demo_ticking_def)
  ultimately show ?thesis using timer_unacknowledged [OF demo_yielded_ok] by auto
qed

section \<open>Typing\<close>

text \<open>C15: The interrupt of a key: the handler reads the scan code once, its character goes into the line
  and to the process that reads the line, the interrupt is acknowledged, and no thread is affected.\<close>

theorem keyboard_irq_types:
  assumes "typing default_dis cursor_ok (m_tty s) ld" and "length (interrupt_handlers s) = IDT_SIZE"
    and "interrupt_handlers s ! 33 = Some KEYBOARD_HANDLER"
    and "k = ucast (dev (m_ports s) (port_log (m_ports s)) 0x60)" and "plain k"
    and "unat (buffer_i (lines (m_tty s) ld)) < 1023" and "line_buffer (lines (m_tty s) ld) = Some b"
  shows "\<exists>s'. irq_handler 33 s = Some (Returns (), s') \<and>
     typed (m_tty s) ld b [key_char (caps (m_tty s)) k] (m_tty s') \<and> typing default_dis cursor_ok (m_tty s') ld \<and>
     m_k s' = m_k s \<and> port_log (m_ports s') = port_log (m_ports s) @ [Inb 0x60, Outb 0x20 0x20]"
proof -
  obtain t where t: "on_scancode (m_tty s) k = Some t" "typing default_dis cursor_ok t ld"
    "typed (m_tty s) ld b [key_char (caps (m_tty s)) k] t"
    using vl.typing_step [OF assms(1,6,5,7)] by blast
  let ?p = "(m_ports s)\<lparr>port_log := port_log (m_ports s) @ [Inb 0x60]\<rparr>"
  have "keyboard_handler (m_ports s) (m_tty s) = Some (?p, t)"
    using t(1) assms(4) by (simp add: keyboard_handler_def inb_def)
  then have "irq_handler 33 s = Some (Returns (), send_eoi 33 (s\<lparr>m_ports := ?p, m_tty := t\<rparr>))"
    using assms(2,3) by (simp add: irq_handler_def arr_get_def run_handler_def)
  then show ?thesis using t(2,3) by (simp add: send_eoi_def)
qed

definition demo_typing :: machine where
  "demo_typing = (register_interrupt_handler IRQ01 KEYBOARD_HANDLER demo_machine)
     \<lparr>m_ports := \<lparr>port_log = [], dev = (\<lambda>l p. if p = 0x60 then 35 else 0)\<rparr>\<rparr>"

theorem keyboard_irq_types_witness:
  "\<exists>s'. irq_handler 33 demo_typing = Some (Returns (), s') \<and> out_chars (m_tty s') 0x6000 = [104] \<and>
     port_log (m_ports s') = [Inb 0x60, Outb 0x20 0x20]"
  using keyboard_irq_types [of demo_typing "0x6000" 35 "replicate 1024 0"] demo_line_typing
  by (auto simp: demo_typing_def plain_def key_char_def kc_ascii_def typed_def Let_def)

end
