(* ===== verification/Tokens.thy ===== *)
theory Tokens
  imports CStringProofs
begin

text \<open>
  \<open>strtok\<close> of libc/string.c as its callers use it: called until it returns NULL, it cuts a string into
  words.  \<open>words\<close> is the reference it is compared with.
\<close>

section \<open>The reference\<close>

function words :: "u8 set \<Rightarrow> u8 list \<Rightarrow> u8 list list" where
  "words D s =
     (let r = dropWhile (\<lambda>c. c \<in> D) s
      in if r = [] then [] else takeWhile (\<lambda>c. c \<notin> D) r # words D (dropWhile (\<lambda>c. c \<notin> D) r))"
  by pat_completeness auto
termination
proof (relation "measure (\<lambda>(D, s). length s)", simp, clarsimp)
  fix D and s :: "u8 list" and x xa
  assume "x \<in> set s" "x \<notin> D"
  then have "dropWhile (\<lambda>c. c \<in> D) s \<noteq> []" by (auto simp: dropWhile_eq_Nil_conv)
  then obtain c r where r: "dropWhile (\<lambda>c. c \<in> D) s = c # r" by (cases "dropWhile (\<lambda>c. c \<in> D) s") auto
  then have "c \<notin> D" using hd_dropWhile [of "\<lambda>c. c \<in> D" s] by auto
  then have "length (dropWhile (\<lambda>c. c \<notin> D) (c # r)) \<le> length r" by (simp add: length_dropWhile_le)
  also have "\<dots> < length s" using length_dropWhile_le [of "\<lambda>c. c \<in> D" s] by (simp add: r)
  finally show "length (dropWhile (\<lambda>c. c \<notin> D) (dropWhile (\<lambda>c. c \<in> D) s)) < length s" by (simp add: r)
qed

declare words.simps [simp del]

section \<open>One call\<close>

text \<open>What a call leaves when it starts at \<open>p\<close>, where the string \<open>s\<close> stands.\<close>

lemma strtok_step:
  assumes s: "cstr m p s" and d: "cstr m q d" and src: "(case arg of None \<Rightarrow> old | Some a \<Rightarrow> Some a) = Some p"
  defines "r \<equiv> dropWhile (\<lambda>c. c \<in> set d) s" and "t \<equiv> p + length (takeWhile (\<lambda>c. c \<in> set d) s)"
  shows "r = [] \<Longrightarrow> strtok m old arg q = Some (None, Some t, m)"
    and "r \<noteq> [] \<Longrightarrow> dropWhile (\<lambda>c. c \<notin> set d) r = [] \<Longrightarrow> strtok m old arg q = Some (Some t, Some (t + length r), m)"
    and "dropWhile (\<lambda>c. c \<notin> set d) r = c # r' \<Longrightarrow>
      strtok m old arg q = Some (Some t, Some (t + length (takeWhile (\<lambda>c. c \<notin> set d) r) + 1),
        m[t + length (takeWhile (\<lambda>c. c \<notin> set d) r) := 0])"
proof -
  have span: "strspn m p q = Some (length (takeWhile (\<lambda>c. c \<in> set d) s))"
    using strspn_loop_cstr [OF d, of p 0 s] s by (simp add: strspn_def)
  have "cstr m p (takeWhile (\<lambda>c. c \<in> set d) s @ r)" using s by (simp add: r_def)
  then have r: "cstr m t r" by (simp add: cstr_append t_def)
  show "r = [] \<Longrightarrow> strtok m old arg q = Some (None, Some t, m)"
    using r span src by (simp add: strtok_def t_def)
  have len: "strlen m t = Some (length r)" using strlen_cstr [OF r] .
  have step: "strtok m old arg q = (case (if set r \<inter> set d = {} then None else
      Some (t + length (takeWhile (\<lambda>c. c \<notin> set d) r))) of
        None \<Rightarrow> Some (Some t, Some (t + length r), m)
      | Some e \<Rightarrow> do { m \<leftarrow> wr m e 0; Some (Some t, Some (e + 1), m) })" if "r \<noteq> []"
  proof -
    obtain b r' where "r = b # r'" using \<open>r \<noteq> []\<close> by (cases r) simp_all
    then have "rd m t = Some b" "b \<noteq> 0" using r by simp_all
    then show ?thesis using span src strpbrk_cstr [OF d r] len by (simp add: strtok_def t_def Let_def)
  qed
  show "r \<noteq> [] \<Longrightarrow> dropWhile (\<lambda>c. c \<notin> set d) r = [] \<Longrightarrow> strtok m old arg q = Some (Some t, Some (t + length r), m)"
    using step by (auto simp: dropWhile_eq_Nil_conv)
  assume e: "dropWhile (\<lambda>c. c \<notin> set d) r = c # r'"
  then have "c \<in> set (dropWhile (\<lambda>c. c \<notin> set d) r)" "c \<in> set d"
    using hd_dropWhile [of "\<lambda>c. c \<notin> set d" r] by (simp_all add: e)
  then have "c \<in> set r" "c \<in> set d" by (auto dest: set_dropWhileD)
  then have "r \<noteq> []" "set r \<inter> set d \<noteq> {}" by auto
  moreover have "length (takeWhile (\<lambda>c. c \<notin> set d) r) < length r"
    using arg_cong [OF takeWhile_dropWhile_id [of "\<lambda>c. c \<notin> set d" r], of length] e by simp
  then have "t + length (takeWhile (\<lambda>c. c \<notin> set d) r) < length m" using r by (simp add: cstr_nth)
  ultimately show "strtok m old arg q = Some (Some t, Some (t + length (takeWhile (\<lambda>c. c \<notin> set d) r) + 1),
        m[t + length (takeWhile (\<lambda>c. c \<notin> set d) r) := 0])"
    using step by (simp add: wr_def)
qed

section \<open>All calls\<close>

text \<open>\<open>for (p = strtok(arg, delims); p != NULL; p = strtok(NULL, delims)) ...\<close>, at most \<open>n\<close> calls.\<close>

fun strtok_all :: "nat \<Rightarrow> bmem \<Rightarrow> nat option \<Rightarrow> nat option \<Rightarrow> nat \<Rightarrow> (nat list \<times> bmem) option" where
  "strtok_all 0 m old arg q = None"
| "strtok_all (Suc n) m old arg q = do {
     (r, old, m) \<leftarrow> strtok m old arg q;
     (case r of
        None \<Rightarrow> Some ([], m)
      | Some p \<Rightarrow> do { (ps, m) \<leftarrow> strtok_all n m old None q; Some (p # ps, m) }) }"

lemma words_delim: "dropWhile (\<lambda>c. c \<notin> D) e = e \<Longrightarrow> words D (tl e) = words D e"
proof (cases e)
  case (Cons c e')
  assume "dropWhile (\<lambda>c. c \<notin> D) e = e"
  then have "c \<in> D" using hd_dropWhile [of "\<lambda>c. c \<notin> D" e] Cons by auto
  then show ?thesis unfolding Cons by (subst (2) words.simps, subst words.simps) simp
qed simp

lemma strtok_all_words:
  assumes "cstr m p s" and "cstr m q d" and "q + length d < p \<or> p + length s < q"
    and "(case arg of None \<Rightarrow> old | Some a \<Rightarrow> Some a) = Some p" and "length s < n"
  shows "\<exists>ps m'. strtok_all n m old arg q = Some (ps, m') \<and> list_all2 (cstr m') ps (words (set d) s) \<and>
     length m' = length m \<and> (\<forall>x. x < p \<or> p + length s \<le> x \<longrightarrow> m' ! x = m ! x)"
  using assms
proof (induction n arbitrary: m p s arg old)
  case (Suc n)
  define l r where "l = takeWhile (\<lambda>c. c \<in> set d) s" and "r = dropWhile (\<lambda>c. c \<in> set d) s"
  define w e where "w = takeWhile (\<lambda>c. c \<notin> set d) r" and "e = dropWhile (\<lambda>c. c \<notin> set d) r"
  define t where "t = p + length l"
  have s: "s = l @ r" and r: "r = w @ e" by (simp_all add: l_def r_def w_def e_def)
  note step = strtok_step [OF Suc.prems(1,2,4), folded l_def r_def, folded t_def w_def e_def]
  have cr: "cstr m t r" using Suc.prems(1) by (simp add: s cstr_append t_def)
  have words: "words (set d) s = (if r = [] then [] else w # words (set d) e)"
    by (subst words.simps) (simp add: r_def w_def e_def Let_def)
  show ?case
  proof (cases "r = []")
    case True
    then show ?thesis using step(1) words by simp
  next
    case ne: False
    define m1 where "m1 = (if e = [] then m else m[t + length w := 0])"
    define p1 where "p1 = t + length w + (if e = [] then 0 else 1)"
    have tok: "strtok m old arg q = Some (Some t, Some p1, m1)"
      using step(2,3) ne by (cases e) (auto simp: m1_def p1_def r)
    have len: "length m1 = length m" by (simp add: m1_def)
    have fin: "p1 + length (tl e) = p + length s" by (cases e) (simp_all add: p1_def t_def s r)
    have same: "m1 ! x = m ! x" if "x \<noteq> t + length w" for x using that by (simp add: m1_def)
    have ce: "cstr m (t + length w) e" using cr by (simp add: r cstr_append)
    have w1: "cstr m1 t w" using cr by (auto simp: m1_def r cstr_nth nth_append nth_list_update)
    have rest: "cstr m1 p1 (tl e)"
    proof (cases e)
      case Nil
      then show ?thesis using ce by (simp add: m1_def p1_def)
    next
      case (Cons c e')
      then have "cstr m p1 e'" using ce by (simp add: p1_def)
      then have "cstr m1 p1 e'" by (rule cstr_frame [OF _ len], intro same) (simp add: p1_def Cons)
      then show ?thesis by (simp add: Cons)
    qed
    have q1: "cstr m1 q d"
      by (rule cstr_frame [OF Suc.prems(2) len], rule same)
         (use Suc.prems(3) ne in \<open>auto simp: t_def s r m1_def\<close>)
    have "length (tl e) < n" using Suc.prems(5) ne by (cases w; cases e) (auto simp: s r)
    moreover have "q + length d < p1 \<or> p1 + length (tl e) < q"
      unfolding fin using Suc.prems(3) by (auto simp: p1_def t_def)
    ultimately obtain ps m' where IH: "strtok_all n m1 (Some p1) None q = Some (ps, m')"
      "list_all2 (cstr m') ps (words (set d) (tl e))" "length m' = length m1"
      "\<forall>x. x < p1 \<or> p1 + length (tl e) \<le> x \<longrightarrow> m' ! x = m1 ! x"
      using Suc.IH [OF rest q1, of "Some p1" None] by auto
    have "cstr m' t w"
      using w1 IH(3) by (rule cstr_frame) (use IH(4) in \<open>auto simp: p1_def split: if_splits\<close>)
    moreover have "words (set d) (tl e) = words (set d) e" by (rule words_delim) (simp add: e_def)
    moreover have "m' ! x = m ! x" if "x < p \<or> p + length s \<le> x" for x
    proof -
      have "x < p1 \<or> p1 + length (tl e) \<le> x" using that fin by (auto simp: p1_def t_def)
      moreover have "m1 ! x = m ! x"
        using that ne by (cases e) (auto simp: m1_def t_def s r)
      ultimately show ?thesis using IH(4) by auto
    qed
    ultimately show ?thesis using tok IH(1,2,3) len words ne by auto
  qed
qed simp

text \<open>C18: Calling \<open>strtok\<close> on a string and then with NULL until it returns NULL terminates and yields the
  words of the string, in order, each a string of its own in the memory; nothing but the string is
  written to.\<close>

theorem strtok_splits:
  assumes "cstr m p s" and "cstr m q d" and "q + length d < p \<or> p + length s < q"
  shows "\<exists>ps m'. strtok_all (Suc (length s)) m old (Some p) q = Some (ps, m') \<and>
     list_all2 (cstr m') ps (words (set d) s) \<and> length m' = length m \<and>
     (\<forall>x. x < p \<or> p + length s \<le> x \<longrightarrow> m' ! x = m ! x)"
  by (rule strtok_all_words [OF assms]) simp_all

theorem strtok_splits_witness:
  "\<exists>ps m'. strtok_all 7 [32, 112, 115, 32, 32, 97, 0, 32, 0] None (Some 0) 7 = Some (ps, m') \<and>
     list_all2 (cstr m') ps [[112, 115], [97]] \<and> length m' = 9"
proof -
  have "words {32} [32, 112, 115, 32, 32, 97] = [[112, 115], [97]]"
    by (subst words.simps, simp add: Let_def)+
  moreover have "Suc (length [32, 112, 115, 32, 32, 97 :: u8]) = 7" "length [32, 112, 115, 32, 32, 97, 0, 32, 0 :: u8] = 9"
    by simp_all
  moreover have "cstr [32, 112, 115, 32, 32, 97, 0, 32, 0] 0 [32, 112, 115, 32, 32, 97]"
    "cstr [32, 112, 115, 32, 32, 97, 0, 32, 0] 7 [32]"
    by (simp_all add: rd_def)
  ultimately show ?thesis
    using strtok_splits [of "[32, 112, 115, 32, 32, 97, 0, 32, 0]" 0 "[32, 112, 115, 32, 32, 97]" 7 "[32]" None]
    by (auto simp del: strtok_all.simps list.size)
qed

section \<open>trim\<close>

text \<open>The reference: the string without the spaces at both ends.\<close>

definition strip_end :: "u8 list \<Rightarrow> u8 list" where
  "strip_end s = rev (dropWhile (\<lambda>c. c = 32) (rev s))"

definition strip :: "u8 list \<Rightarrow> u8 list" where
  "strip s = strip_end (dropWhile (\<lambda>c. c = 32) s)"

lemma skip_front_cstr:
  "cstr m (p + i) s \<Longrightarrow> skip_front m p i (length s) = Some (i + length (takeWhile (\<lambda>c. c = 32) s))"
proof (induction s arbitrary: i)
  case (Cons c s)
  then show ?case using Cons.IH [of "i + 1"] by simp
qed simp

lemma skip_back_cstr:
  "\<forall>i<length s. rd m (p + i) = Some (s ! i) \<Longrightarrow> skip_back m p (length s) = Some (length (strip_end s))"
proof (induction s rule: rev_induct)
  case (snoc c s)
  then have "rd m (p + length s) = Some c" by (simp add: nth_append)
  moreover have "\<forall>i<length s. rd m (p + i) = Some (s ! i)" using snoc.prems by (simp add: nth_append)
  ultimately show ?case using snoc.IH by (simp add: strip_end_def)
qed (simp add: strip_end_def)

lemma strip_end_split: "\<exists>b. s = strip_end s @ b \<and> set b \<subseteq> {32}"
proof -
  have "rev s = takeWhile (\<lambda>c. c = 32) (rev s) @ dropWhile (\<lambda>c. c = 32) (rev s)" by simp
  then have "s = strip_end s @ rev (takeWhile (\<lambda>c. c = 32) (rev s))"
    unfolding strip_end_def by (metis rev_append rev_rev_ident)
  moreover have "set (rev (takeWhile (\<lambda>c. c = 32) (rev s))) \<subseteq> {32}" by (auto dest: set_takeWhileD)
  ultimately show ?thesis by blast
qed

lemma strip_split:
  assumes "\<exists>c\<in>set s. c \<noteq> 32"
  shows "\<exists>b. s = takeWhile (\<lambda>c. c = 32) s @ strip s @ b \<and> strip_end s = takeWhile (\<lambda>c. c = 32) s @ strip s"
proof -
  let ?r = "dropWhile (\<lambda>c. c = 32) s"
  have "?r \<noteq> []" using assms by (simp add: dropWhile_eq_Nil_conv)
  then obtain c r where r: "?r = c # r" by (cases ?r) auto
  then have "c \<noteq> 32" using hd_dropWhile [of "\<lambda>c. c = 32" s] by simp
  note r = r this
  have idem: "strip s = strip_end ?r" by (simp add: strip_def)
  obtain b where b: "?r = strip s @ b" using strip_end_split [of ?r] idem by auto
  have "rev s = rev ?r @ rev (takeWhile (\<lambda>c. c = 32) s)" by (simp flip: rev_append)
  moreover have "dropWhile (\<lambda>c. c = 32) (rev ?r @ xs) = dropWhile (\<lambda>c. c = 32) (rev ?r) @ xs" for xs
    using r by (intro dropWhile_append1 [of c]) auto
  ultimately have "strip_end s = takeWhile (\<lambda>c. c = 32) s @ strip s"
    by (simp add: strip_end_def idem)
  moreover have "s = takeWhile (\<lambda>c. c = 32) s @ strip s @ b"
    using takeWhile_dropWhile_id [of "\<lambda>c. c = 32" s] unfolding b by simp
  ultimately show ?thesis by blast
qed

text \<open>\<open>trim\<close> strips the spaces off both ends of a string, unless only one character is left: that is
  taken for none, and the result is the empty string.\<close>

theorem trim_strips:
  assumes "cstr m p s" and "\<exists>c\<in>set s. c \<noteq> 32"
  shows "\<exists>q m'. trim m p = Some (q, m') \<and> cstr m' q (if length (strip s) = 1 then [] else strip s) \<and>
     length m' = length m \<and> (\<forall>x. x < p \<or> p + length s < x \<longrightarrow> m' ! x = m ! x)"
proof -
  let ?l = "takeWhile (\<lambda>c. c = 32) s"
  obtain b where b: "s = ?l @ strip s @ b" "strip_end s = ?l @ strip s" using strip_split [OF assms(2)] by blast
  have ne: "strip s \<noteq> []"
  proof
    assume "strip s = []"
    then have "length (strip_end s) = length ?l" using b(2) by simp
    moreover obtain b' where "s = strip_end s @ b'" "set b' \<subseteq> {32}" using strip_end_split [of s] by blast
    ultimately have "set s \<subseteq> set ?l \<union> {32}" using b(2) \<open>strip s = []\<close> by (metis Un_mono append_Nil2 order_refl set_append)
    moreover have "set ?l \<subseteq> {32}" by (auto dest: set_takeWhileD)
    ultimately have "set s \<subseteq> {32}" by blast
    then show False using assms(2) by auto
  qed
  have n: "strlen m p = Some (length s)" using strlen_cstr [OF assms(1)] .
  have i: "skip_front m p 0 (length s) = Some (length ?l)" using skip_front_cstr [of m p 0 s] assms(1) by simp
  have j: "skip_back m p (length s) = Some (length ?l + length (strip s))"
    using skip_back_cstr [of s m p] assms(1) b(2) by (simp add: cstr_nth rd_def)
  have len: "length ?l + length (strip s) \<le> length s" using arg_cong [OF b(1), of length] by simp
  have m: "p + length s < length m" using assms(1) by (simp add: cstr_nth)
  show ?thesis
  proof (cases "length (strip s) = 1")
    case True
    then show ?thesis using n i j m by (simp add: trim_def wr_def rd_def)
  next
    case False
    then have two: "length (strip s) \<ge> 2" using ne by (cases "strip s"; cases "tl (strip s)") auto
    let ?m = "m[p + (length ?l + length (strip s)) := 0]"
    have "trim m p = Some (p + length ?l, ?m)"
      using n i j m len two by (simp add: trim_def wr_def)
    moreover have "cstr ?m (p + length ?l) (strip s)"
    proof -
      have "cstr m p ((?l @ strip s) @ b)" using assms(1) b(1) by simp
      then have "\<forall>k<length (?l @ strip s). rd m (p + k) = Some ((?l @ strip s) ! k)" "0 \<notin> set (?l @ strip s)"
        unfolding cstr_append by blast+
      then have "m ! (p + length ?l + k) = strip s ! k" if "k < length (strip s)" for k
        using that by (auto simp: rd_def nth_append add.assoc split: if_splits dest!: spec [of _ "length ?l + k"])
      then show ?thesis using \<open>0 \<notin> set (?l @ strip s)\<close> len m by (simp add: cstr_nth nth_list_update add.assoc)
    qed
    ultimately show ?thesis using False len by auto
  qed
qed

theorem trim_strips_witness:
  "\<exists>q m'. trim [32, 112, 115, 32, 0] 0 = Some (q, m') \<and> cstr m' q [112, 115]"
proof -
  have "cstr [32, 112, 115, 32, 0] 0 [32, 112, 115, 32]" "strip [32, 112, 115, 32] = [112, 115]"
    by (simp_all add: rd_def strip_def strip_end_def)
  then show ?thesis using trim_strips [of "[32, 112, 115, 32, 0]" 0 "[32, 112, 115, 32]"]
    by (auto simp del: cstr.simps)
qed

end
