(* ===== verification/Shell.thy ===== *)
theory Shell
  imports Preempt Tokens
begin

text \<open>
  kernel/shell.c: the shell process, its commands, and the way from a line of input to a command.
  Strings live in the byte memory \<open>bm\<close>, the rest of the state is the machine of the theory Isr; the
  bytes of a block that \<open>kmalloc\<close> returns are those of \<open>bm\<close> at its address.  Where the linker puts
  the static data and the functions is an argument (\<open>shell_env\<close>).
\<close>

section \<open>Data\<close>

record shell_env =
  kb :: nat
  blank :: nat
  command_strs :: "nat list"
  command_functions :: "u32 list"
  dline :: u32
  sh_stdin :: u32
  waiter_fn :: u32
  aux_addr :: u32

text \<open>\<open>sm\<close> is the machine, \<open>tok\<close> the static pointer of \<open>strtok\<close>, \<open>shell_p\<close> the shell's process.  The bytes of
  strings (\<open>bm\<close>), the words of the memory manager (\<open>kmem\<close>) and the records of threads and processes are
  separate here, so that a page that has two owners does not show in the data.  The code gets there:
  \<open>kfree\<close> of a word frees a page of the slab allocator (theory Blocks), which a process or a
  thread gets later.  Theorems about the shell hold as long as such a page is not written by both.\<close>

record shell =
  sm :: machine
  bm :: bmem
  tok :: "nat option"
  shell_p :: u32
  shell_cursor_on :: bool

abbreviation MAX_NUM_ARGS :: nat where "MAX_NUM_ARGS \<equiv> 26"
abbreviation NUM_COMMANDS :: nat where "NUM_COMMANDS \<equiv> 8"
abbreviation NUM_HELP_COMMANDS :: nat where "NUM_HELP_COMMANDS \<equiv> 6"
abbreviation MIN_ARG_MEM :: nat where "MIN_ARG_MEM \<equiv> 16"

definition help_commands :: "string list" where
  "help_commands = [''help'', ''shutdown'', ''exit'', ''ps'', ''clear'', ''getbuf'']"

definition commands :: "string list" where
  "commands = [''help'', ''shutdown'', ''exit'', ''ps'', ''clear'', ''getbuf'', ''grub'', ''moon'']"

section \<open>Access to the state\<close>

definition set_kmm :: "u32 kalloc \<Rightarrow> machine \<Rightarrow> machine" where
  "set_kmm k s = s\<lparr>m_k := (m_k s)\<lparr>kmm := k\<rparr>\<rparr>"

definition set_screen :: "vesa \<Rightarrow> machine \<Rightarrow> machine" where
  "set_screen d s = s\<lparr>m_tty := (m_tty s)\<lparr>screen := d\<rparr>\<rparr>"

definition say :: "string \<Rightarrow> lit_arg list \<Rightarrow> machine \<Rightarrow> machine option" where
  "say f as s = do { (_, d) \<leftarrow> kprintf_lit default_dis (bytes f) as (screen (m_tty s)); Some (set_screen d s) }"

section \<open>Commands\<close>

fun say_all :: "string \<Rightarrow> u8 list list \<Rightarrow> machine \<Rightarrow> machine option" where
  "say_all f [] s = Some s"
| "say_all f (x # xs) s = do { s \<leftarrow> say f [AStr x] s; say_all f xs s }"

definition help_c :: "machine \<Rightarrow> machine option" where
  "help_c s = do {
     s \<leftarrow> say (''Available Commands:'' @ [CHR 0x0A]) [] s;
     say_all (CHR 0x09 # ''%s'' @ [CHR 0x0A]) (map bytes help_commands) s }"

definition shutdown :: "machine \<Rightarrow> machine" where
  "shutdown s = s\<lparr>m_ports := outw 0x604 0x2000 (m_ports s)\<rparr>"

text \<open>The arguments by their characters.\<close>

definition getbuf :: "u8 list list \<Rightarrow> machine \<Rightarrow> machine option" where
  "getbuf args s = do {
     s \<leftarrow> say ''buffer: '' [] s;
     s \<leftarrow> say_all ''%s '' args s;
     say [CHR 0x0A] [] s }"

fun p_state_to_string :: "thread_states \<Rightarrow> string" where
  "p_state_to_string THREAD_RUNNING = ''RUN''"
| "p_state_to_string THREAD_READY = ''REA''"
| "p_state_to_string THREAD_DYING = ''DYI''"
| "p_state_to_string THREAD_TERMINATED = ''TER''"
| "p_state_to_string THREAD_BLOCKED = ''BLO''"

text \<open>The result: the column, and what \<open>*a\<close> becomes.\<close>

definition ps_get_alignment :: "'d display \<Rightarrow> 'd \<Rightarrow> u32 \<Rightarrow> u32 \<times> u32" where
  "ps_get_alignment dis d a = (let next_y = a * (dis_getn_cols dis d div 8) in (next_y, a + 1))"

text \<open>\<open>dis->dis_putats(s, ps_get_alignment(dis, &a), dis->dis_gety())\<close> for the strings of a row.\<close>

fun ps_cells :: "u8 list list \<Rightarrow> u32 \<Rightarrow> vesa \<Rightarrow> vesa option" where
  "ps_cells [] a d = Some d"
| "ps_cells (s # ss) a d = do {
     let (x, a) = ps_get_alignment default_dis d a;
     d \<leftarrow> dis_putats default_dis s x (dis_gety default_dis d) d;
     ps_cells ss a d }"

definition ps_row :: "kstate \<Rightarrow> u32 \<Rightarrow> machine \<Rightarrow> machine option" where
  "ps_row k p s = do {
     i \<leftarrow> dec_string (sint (pid (prc k p)));
     d \<leftarrow> ps_cells [bytes (p_name (prc k p)), i, bytes (p_state_to_string (proc_get_state k p)),
            bytes (t_name (thr k (active_thread (prc k p))))] 0 (screen (m_tty s));
     say [CHR 0x0A] [] (set_screen d s) }"

partial_function (option) ps_loop :: "kstate \<Rightarrow> nref option \<Rightarrow> machine \<Rightarrow> machine option" where
  "ps_loop k node s = do {
     n \<leftarrow> node;
     if list_hasNext heap_ops (nodes k) n
     then do {
       p \<leftarrow> proc_of_node n;
       s \<leftarrow> ps_row k p s;
       ps_loop k (list_get_next heap_ops (nodes k) n) s }
     else Some s }"

definition ps :: "machine \<Rightarrow> machine option" where
  "ps s = do {
     let node = proc_peek_all_list (m_k s);
     d \<leftarrow> ps_cells [bytes ''name'', bytes ''pid'', bytes ''state'', bytes (''active thread'' @ [CHR 0x0A])]
            0 (screen (m_tty s));
     ps_loop (m_k s) node (set_screen d s) }"

definition clear :: "machine \<Rightarrow> machine" where
  "clear s = set_screen (dis_clear default_dis (screen (m_tty s))) s"

definition grub :: "machine \<Rightarrow> machine option" where
  "grub s = say (''GRUB is ok'' @ [CHR 0x0A, CHR 0x0A, CHR 0x0A, CHR 0x0A] @ ''i guess...'' @ [CHR 0x0A]) [] s"

definition moon :: "machine \<Rightarrow> machine option" where
  "moon s = do {
     s \<leftarrow> say ''did you mean: '' [] s;
     let s = set_screen (dis_setcol default_dis 0xff0000 0 (screen (m_tty s))) s;
     s \<leftarrow> say (CHR 0x22 # ''GAMER GOD MOONMOON'' @ [CHR 0x22] @ ''?'' @ [CHR 0x0A]) [] s;
     Some (set_screen (dis_setcol default_dis 0xffffff 0 (screen (m_tty s))) s) }"

section \<open>From a line to a command\<close>

text \<open>\<open>args[i] = kmalloc(n); strcpy(args[i], token)\<close>.\<close>

definition new_arg :: "nat \<Rightarrow> nat \<Rightarrow> shell \<Rightarrow> (nat \<times> shell) option" where
  "new_arg n token s = do {
     (a, k) \<leftarrow> kmalloc (kmm (m_k (sm s))) (of_nat n);
     (_, m) \<leftarrow> strcpy (bm s) (unat a) token;
     Some (unat a, s\<lparr>sm := set_kmm k (sm s), bm := m\<rparr>) }"

definition next_token :: "shell_env \<Rightarrow> nat option \<Rightarrow> shell \<Rightarrow> (nat option \<times> shell) option" where
  "next_token e arg s = do {
     (r, old, m) \<leftarrow> strtok (bm s) (tok s) arg (blank e);
     Some (r, s\<lparr>bm := m, tok := old\<rparr>) }"

text \<open>The loop over the further tokens, with room for \<open>k\<close> more arguments; \<open>strtok\<close> is called once more
  when there is no room.\<close>

fun arg_loop :: "shell_env \<Rightarrow> nat \<Rightarrow> nat list \<Rightarrow> shell \<Rightarrow> (nat list \<times> shell) option" where
  "arg_loop e 0 args s = do { (_, s) \<leftarrow> next_token e None s; Some (args, s) }"
| "arg_loop e (Suc k) args s = do {
     (token, s) \<leftarrow> next_token e None s;
     (case token of
        None \<Rightarrow> Some (args, s)
      | Some t \<Rightarrow> do {
          arg_length \<leftarrow> strlen (bm s) t;
          (a, s) \<leftarrow> new_arg (if arg_length < MIN_ARG_MEM then MIN_ARG_MEM else arg_length) t s;
          arg_loop e k (args @ [a]) s }) }"

text \<open>The arguments of the line in \<open>key_buffer\<close>.  A NULL first token is handed to \<open>strlen\<close>.\<close>

definition read_args :: "shell_env \<Rightarrow> shell \<Rightarrow> (nat list \<times> shell) option" where
  "read_args e s = do {
     n \<leftarrow> strlen (bm s) (kb e);
     m \<leftarrow> wr (bm s) (kb e + n - 1) 0;
     (token, s) \<leftarrow> next_token e (Some (kb e)) (s\<lparr>bm := m\<rparr>);
     t \<leftarrow> token;
     arg_length \<leftarrow> strlen (bm s) t;
     (a, s) \<leftarrow> new_arg arg_length t s;
     arg_loop e (MAX_NUM_ARGS - 1) [a] s }"

text \<open>The search for the command: \<open>trim\<close> is applied to the first argument in every round.\<close>

fun find_command :: "nat list \<Rightarrow> nat \<Rightarrow> nat \<Rightarrow> bmem \<Rightarrow> (nat option \<times> bmem) option" where
  "find_command [] i arg m = Some (None, m)"
| "find_command (c # cs) i arg m = do {
     (p, m) \<leftarrow> trim m arg;
     r \<leftarrow> strcmp m p c;
     if r = 0 then Some (Some i, m) else find_command cs (i + 1) arg m }"

text \<open>Running a command: a new process, for which the shell waits.\<close>

definition run_command :: "shell_env \<Rightarrow> nat \<Rightarrow> shell \<Rightarrow> (unit ctl \<times> shell) option" where
  "run_command e i s = do {
     f \<leftarrow> arr_get (command_functions e) (of_nat i);
     (comm, k) \<leftarrow> proc_create (m_k (sm s)) ''ps'' f (aux_addr e);
     if comm = 0 then Some (Returns (), s\<lparr>sm := (sm s)\<lparr>m_k := k\<rparr>\<rparr>)
     else do {
       (c, k) \<leftarrow> proc_wait k comm;
       Some (case c of Returns _ \<Rightarrow> Returns () | Switched \<Rightarrow> Switched, s\<lparr>sm := after_call c k (sm s)\<rparr>) } }"

fun free_args :: "nat list \<Rightarrow> shell \<Rightarrow> shell option" where
  "free_args [] s = Some s"
| "free_args (a # as) s = do {
     n \<leftarrow> strlen (bm s) a;
     (_, m) \<leftarrow> memset (bm s) a 0 n;
     (_, k) \<leftarrow> kfree (kmm (m_k (sm s))) (of_nat a);
     free_args as (s\<lparr>bm := m, sm := set_kmm k (sm s)\<rparr>) }"

text \<open>What \<open>read_stdin\<close> does when a line is complete.  When waiting for the command switches to another
  thread, the rest happens after the shell is resumed.\<close>

definition finish_line :: "shell_env \<Rightarrow> nat list \<Rightarrow> shell \<Rightarrow> shell option" where
  "finish_line e args s = do {
     let t = m_tty (sm s);
     st \<leftarrow> flush_std (streams t (sh_stdin e));
     (_, t) \<leftarrow> line_flush (t\<lparr>streams := (streams t)(sh_stdin e := st)\<rparr>) (dline e);
     s \<leftarrow> free_args args (s\<lparr>sm := (sm s)\<lparr>m_tty := t\<rparr>\<rparr>);
     (_, m) \<leftarrow> memset (bm s) (kb e) 0 1024;
     m' \<leftarrow> say ''> '' [] (sm s);
     Some (s\<lparr>bm := m, sm := m'\<rparr>) }"

definition run_line :: "shell_env \<Rightarrow> shell \<Rightarrow> (unit ctl \<times> shell) option" where
  "run_line e s = do {
     let t = on_screen (dis_hcur default_dis) (m_tty (sm s));
     (_, buf) \<leftarrow> line_outbufn t (dline e) (Some (take 1024 (drop (kb e) (bm s)))) 1024;
     b \<leftarrow> buf;
     let s = s\<lparr>sm := (sm s)\<lparr>m_tty := t\<rparr>, bm := take (kb e) (bm s) @ b @ drop (kb e + 1024) (bm s)\<rparr>;
     (args, s) \<leftarrow> read_args e s;
     (found, m) \<leftarrow> find_command (command_strs e) 0 (hd args) (bm s);
     let s = s\<lparr>bm := m\<rparr>;
     (c, s) \<leftarrow> (case found of None \<Rightarrow> Some (Returns (), s) | Some i \<Rightarrow> run_command e i s);
     (case c of
        Switched \<Rightarrow> Some (Switched, s)
      | Returns _ \<Rightarrow> do { s \<leftarrow> finish_line e args s; Some (Returns (), s) }) }"

text \<open>\<open>read_stdin\<close>: \<open>get_std\<close> gives -1 (NOCHAR) when the queue is empty.\<close>

definition read_char :: "shell_env \<Rightarrow> shell \<Rightarrow> (char_t \<times> shell) option" where
  "read_char e s = do {
     (c, st) \<leftarrow> get_std (streams (m_tty (sm s)) (sh_stdin e));
     let t = m_tty (sm s);
     Some (c, s\<lparr>sm := (sm s)\<lparr>m_tty := t\<lparr>streams := (streams t)(sh_stdin e := st)\<rparr>\<rparr>\<rparr>) }"

partial_function (option) read_stdin :: "shell_env \<Rightarrow> shell \<Rightarrow> (unit ctl \<times> shell) option" where
  "read_stdin e s = do {
     (c, s) \<leftarrow> read_char e s;
     if c = NOCHAR then Some (Returns (), s)
     else if c = 10
     then do {
       (r, s) \<leftarrow> run_line e s;
       (case r of Switched \<Rightarrow> Some (Switched, s) | Returns _ \<Rightarrow> read_stdin e s) }
     else read_stdin e s }"

end
