(* ===== verification/Bmp.thy ===== *)
theory Bmp
  imports StdioProofs
begin

text \<open>
  drivers/bmp.c: reading and changing an image of the BMP format.  The file lies in the byte memory of
  the theory CString; a pointer is a position in it, NULL is 0.  Drawing goes to the framebuffer of
  the theory Vesa.
\<close>

section \<open>Data\<close>

record bmp_info_header =
  bi_size :: u32
  bi_width :: u32
  bi_height :: u32
  bi_planes :: u16
  bi_bpp :: u16
  bi_compression :: u32
  bi_image_size :: u32
  bi_x_pixels_pm :: u32
  bi_y_pixels_pm :: u32
  bi_colors_used :: u32
  bi_important_colors :: u32

record bmp_header =
  bh_signature :: u16
  bh_file_size :: u32
  bh_reserved :: u32
  bh_data_offset :: u32

record bmp_file_header =
  bf_header :: bmp_header
  bf_info :: bmp_info_header
  bf_color_table :: nat
  bf_data :: nat

text \<open>The sizes of the structs: two bytes of padding stand behind \<open>signature\<close>.\<close>

abbreviation HEADER_SIZE :: u32 where "HEADER_SIZE \<equiv> 16"
abbreviation HEADER_INFO_SIZE :: u32 where "HEADER_INFO_SIZE \<equiv> 40"

text \<open>The static variables of the file.\<close>

record bmp_globals =
  start_pos :: nat
  img_size :: u32

section \<open>Reading\<close>

definition rd16 :: "bmem \<Rightarrow> nat \<Rightarrow> u16 option" where
  "rd16 m p = do { a \<leftarrow> rd m p; b \<leftarrow> rd m (p + 1); Some (ucast a OR push_bit 8 (ucast b)) }"

definition rd32 :: "bmem \<Rightarrow> nat \<Rightarrow> u32 option" where
  "rd32 m p = do { a \<leftarrow> rd16 m p; b \<leftarrow> rd16 m (p + 2); Some (ucast a OR push_bit 16 (ucast b)) }"

definition read_bmp_header :: "bmem \<Rightarrow> nat \<Rightarrow> bmp_file_header \<Rightarrow> (int \<times> bmp_file_header) option" where
  "read_bmp_header m file buf = do {
     sig \<leftarrow> rd16 m file;
     let file = file + 2;
     fsize \<leftarrow> rd32 m file;
     let file = file + 8;
     doff \<leftarrow> rd32 m file;
     let file = file + 4;
     let buf = buf\<lparr>bf_header := (bf_header buf)\<lparr>bh_signature := sig, bh_file_size := fsize, bh_data_offset := doff\<rparr>\<rparr>;
     if fsize < HEADER_SIZE + HEADER_INFO_SIZE then Some (-1, buf\<lparr>bf_data := 0\<rparr>)
     else do {
       let num_read = int (unat HEADER_SIZE);
       size \<leftarrow> rd32 m file;
       let file = file + 4;
       width \<leftarrow> rd32 m file;
       let file = file + 4;
       height \<leftarrow> rd32 m file;
       let file = file + 4;
       planes \<leftarrow> rd16 m file;
       let file = file + 2;
       bpp \<leftarrow> rd16 m file;
       let file = file + 2;
       compression \<leftarrow> rd32 m file;
       let file = file + 4;
       image_size \<leftarrow> rd32 m file;
       let file = file + 4;
       xpm \<leftarrow> rd32 m file;
       let file = file + 4;
       ypm \<leftarrow> rd32 m file;
       let file = file + 4;
       used \<leftarrow> rd32 m file;
       let file = file + 4;
       important \<leftarrow> rd32 m file;
       let file = file + 4;
       let buf = buf\<lparr>bf_info := \<lparr>bi_size = size, bi_width = width, bi_height = height, bi_planes = planes,
         bi_bpp = bpp, bi_compression = compression, bi_image_size = image_size, bi_x_pixels_pm = xpm,
         bi_y_pixels_pm = ypm, bi_colors_used = used, bi_important_colors = important\<rparr>\<rparr>;
       let num_read = num_read + int (unat HEADER_INFO_SIZE);
       if bpp < 24 then Some (-1, buf\<lparr>bf_data := 0\<rparr>)
       else Some (num_read + 1, buf\<lparr>bf_color_table := 0, bf_data := file\<rparr>) } }"

text \<open>The loop of \<open>read_bmp_data\<close> with at most \<open>k\<close> rounds left; \<open>limit\<close> is \<open>(int) img_size\<close>.\<close>

fun read_data_loop :: "bmem \<Rightarrow> nat \<Rightarrow> int \<Rightarrow> nat \<Rightarrow> nat \<Rightarrow> int \<Rightarrow> std_stream \<Rightarrow> (nat \<times> int \<times> std_stream) option" where
  "read_data_loop m start limit 0 p n st = Some (p, n, st)"
| "read_data_loop m start limit (Suc k) p n st =
     (if int p - int start < limit
      then do { c \<leftarrow> rd m p; (_, st) \<leftarrow> put_std st c; read_data_loop m start limit k (p + 1) (n + 1) st }
      else Some (p, n, st))"

definition read_bmp_data ::
    "bmem \<Rightarrow> bmp_globals \<Rightarrow> bmp_file_header \<Rightarrow> std_stream \<Rightarrow> (int \<times> bmp_globals \<times> bmp_file_header \<times> std_stream) option" where
  "read_bmp_data m g hdr st = do {
     let g = (if start_pos g = 0
              then \<lparr>start_pos = bf_data hdr,
                    img_size = bi_width (bf_info hdr) * bi_height (bf_info hdr) * ucast (bi_bpp (bf_info hdr))\<rparr>
              else g);
     (p, n, st) \<leftarrow> read_data_loop m (start_pos g) (sint (img_size g)) 256 (bf_data hdr) 0 st;
     if n < 256 then Some (n, g\<lparr>start_pos := 0\<rparr>, hdr\<lparr>bf_data := start_pos g\<rparr>, st)
     else Some (n, g, hdr\<lparr>bf_data := p\<rparr>, st) }"

section \<open>Walking over the pixels\<close>

text \<open>The loops that the drawing and the colour functions have in common: rows \<open>i\<close> from the height
  down to 1, columns \<open>j\<close>, with the pixel pointer as part of the state; \<open>body i j pixel\<close> is what is
  done to a pixel.\<close>

definition row_pad :: "bmp_file_header \<Rightarrow> u32" where
  "row_pad hdr = 4 - (bi_width (bf_info hdr) * ucast (bi_bpp (bf_info hdr) div 8)) mod 4"

definition pixel_row :: "(u32 \<Rightarrow> u32 \<Rightarrow> nat \<Rightarrow> 's \<Rightarrow> 's option) \<Rightarrow> bmp_file_header \<Rightarrow> u32 \<Rightarrow> nat \<times> 's \<Rightarrow> (nat \<times> 's) option" where
  "pixel_row body hdr i =
     for_loop_m 0 (bi_width (bf_info hdr))
       (\<lambda>j (pixel, s). do { s \<leftarrow> body i j pixel s; Some (pixel + 3, s) })"

fun pixel_rows :: "(u32 \<Rightarrow> u32 \<Rightarrow> nat \<Rightarrow> 's \<Rightarrow> 's option) \<Rightarrow> bmp_file_header \<Rightarrow> nat \<Rightarrow> nat \<times> 's \<Rightarrow> 's option" where
  "pixel_rows body hdr 0 (pixel, s) = Some s"
| "pixel_rows body hdr (Suc i) (pixel, s) = do {
     (pixel, s) \<leftarrow> pixel_row body hdr (of_nat (Suc i)) (pixel, s);
     pixel_rows body hdr i (pixel + unat (row_pad hdr), s) }"

definition all_pixels :: "(u32 \<Rightarrow> u32 \<Rightarrow> nat \<Rightarrow> 's \<Rightarrow> 's option) \<Rightarrow> bmp_file_header \<Rightarrow> 's \<Rightarrow> 's option" where
  "all_pixels body hdr s =
     (if bf_data hdr = 0 then Some s
      else pixel_rows body hdr (unat (bi_height (bf_info hdr))) (bf_data hdr, s))"

definition pixel_col :: "bmem \<Rightarrow> nat \<Rightarrow> u32 option" where
  "pixel_col m p = do {
     b \<leftarrow> rd m p;
     g \<leftarrow> rd m (p + 1);
     r \<leftarrow> rd m (p + 2);
     Some (ucast b OR push_bit 8 (ucast g) OR push_bit 16 (ucast r)) }"

section \<open>Drawing and changing\<close>

definition draw_bmp_data :: "bmem \<Rightarrow> bmp_file_header \<Rightarrow> u32 \<Rightarrow> u32 \<Rightarrow> vesa \<Rightarrow> vesa option" where
  "draw_bmp_data m hdr x y =
     all_pixels (\<lambda>i j p v. do { col \<leftarrow> pixel_col m p; Some (vesa_draw (x + j) (y + i) col v) }) hdr"

definition wr3 :: "bmem \<Rightarrow> nat \<Rightarrow> u8 \<Rightarrow> u8 \<Rightarrow> u8 \<Rightarrow> bmem option" where
  "wr3 m p b g r = do { m \<leftarrow> wr m p b; m \<leftarrow> wr m (p + 1) g; wr m (p + 2) r }"

text \<open>The colours are masked but not shifted before they are stored in a byte.\<close>

definition bmp_change_color :: "bmp_file_header \<Rightarrow> u32 \<Rightarrow> u32 \<Rightarrow> bmem \<Rightarrow> bmem option" where
  "bmp_change_color hdr old new =
     all_pixels (\<lambda>i j p m. do {
       col \<leftarrow> pixel_col m p;
       if col = old
       then wr3 m p (ucast (new AND 0xFF)) (ucast (new AND push_bit 8 0xFF)) (ucast (new AND push_bit 16 0xFF))
       else Some m }) hdr"

definition bmp_remove_all :: "bmp_file_header \<Rightarrow> u32 \<Rightarrow> bmem \<Rightarrow> bmem option" where
  "bmp_remove_all hdr color =
     all_pixels (\<lambda>i j p m. do {
       col \<leftarrow> pixel_col m p;
       if col \<noteq> color then wr3 m p 0 0 0 else Some m }) hdr"

end
