(* ===== verification/Kmain.thy ===== *)
theory Kmain
  imports Shell Bmp
begin

text \<open>
  kernel/kernel.c and the start of the shell (\<open>shell_init\<close> and one round of the loop of
  \<open>shell_waiter\<close>): the order in which the kernel brings its parts up.
\<close>

section \<open>Starting the shell\<close>

text \<open>The bytes of a block of memory, from the words of the allocator's view.\<close>

definition block_bytes :: "(u32 \<Rightarrow> u32) \<Rightarrow> u32 \<Rightarrow> nat \<Rightarrow> u8 list" where
  "block_bytes m a n =
     map (\<lambda>i. ucast (drop_bit (8 * (i mod 4)) (m (a + of_nat (i - i mod 4))))) [0..<n]"

abbreviation SIZEOF_TERM :: u32 where "SIZEOF_TERM \<equiv> 32"

text \<open>\<open>shell->stdout = shell->stdin\<close>; then the default line discipline is connected to it, with a line
  buffer of \<open>LINE_BUFFER_SIZE * sizeof(int)\<close> bytes and a terminal of its own.\<close>

definition shell_init :: "shell_env \<Rightarrow> shell \<Rightarrow> shell option" where
  "shell_init e s = do {
     (p, k) \<leftarrow> proc_create (m_k (sm s)) ''shell'' (waiter_fn e) 0;
     k \<leftarrow> proc_set_active k (pid (prc k p));
     let k = upd_prc p (\<lambda>r. r\<lparr>p_stdout := p_stdin r\<rparr>) k;
     (b, mm) \<leftarrow> kcalloc (kmm k) LINE_BUFFER_SIZE 4;
     let buf = (if b = 0 then None else Some (block_bytes (kmem mm) b 4096));
     (t, mm) \<leftarrow> (if b = 0 then Some (0, mm) else kmalloc mm SIZEOF_TERM);
     let (_, tt) = line_init default_dis buf t (dline e) 0 (sh_stdin e) COOKED (m_tty (sm s));
     Some (s\<lparr>shell_p := p, sm := (sm s)\<lparr>m_k := k\<lparr>kmm := mm\<rparr>, m_tty := tt\<rparr>\<rparr>) }"

text \<open>One round of \<open>shell_waiter\<close>; \<open>prev\<close> is \<open>last_cursor_tick\<close>.\<close>

definition blink :: "u32 \<Rightarrow> shell \<Rightarrow> u32 \<times> shell" where
  "blink prev s =
     (let now = ticks (thr (m_k (sm s)) (THREAD_CUR (m_k (sm s))))
      in if now mod 48 = 0 \<and> now \<noteq> prev
         then (now,
               if shell_cursor_on s
               then s\<lparr>sm := set_screen (dis_hcur default_dis (screen (m_tty (sm s)))) (sm s), shell_cursor_on := False\<rparr>
               else s\<lparr>sm := set_screen (dis_scur default_dis (screen (m_tty (sm s)))) (sm s), shell_cursor_on := True\<rparr>)
         else (prev, s))"

definition shell_round :: "shell_env \<Rightarrow> u32 \<Rightarrow> shell \<Rightarrow> (u32 \<times> unit ctl \<times> shell) option" where
  "shell_round e prev s = (let (prev, s) = blink prev s in map_option (Pair prev) (read_stdin e s))"

section \<open>kmain\<close>

text \<open>The addresses that the linker and the boot loader give: the entry points of the interrupts, the
  descriptor table, \<open>idle\<close>, the boot record, and the logo in the byte memory.\<close>

record boot_env =
  isr_entry :: "nat \<Rightarrow> u32"
  irq_entry :: "nat \<Rightarrow> u32"
  idt_address :: u32
  idle_fn :: u32
  mem_upper :: u32
  framebuffer :: multiboot_fb
  header_addr :: nat

definition version_no :: string where
  "version_no = ''0.4.1''"

definition print_logo :: "nat \<Rightarrow> bmp_file_header \<Rightarrow> bmem \<Rightarrow> vesa \<Rightarrow> (bmp_file_header \<times> bmem \<times> vesa) option" where
  "print_logo file hdr m v = do {
     (_, hdr) \<leftarrow> read_bmp_header m file hdr;
     m \<leftarrow> bmp_change_color hdr 0xFFFFFF 0 m;
     let v = dis_clear default_dis v;
     v \<leftarrow> draw_bmp_data m hdr 10 (vesa_get_cursor_y v * FONT_HEIGHT + 10) v;
     Some (hdr, m, dis_setcur default_dis 0 (bi_height (bf_info hdr) div FONT_HEIGHT + 1) v) }"

text \<open>\<open>kmain\<close> up to its loop, in a build without the tests.\<close>

definition kmain_init :: "boot_env \<Rightarrow> shell_env \<Rightarrow> bmp_file_header \<Rightarrow> shell \<Rightarrow> (bmp_file_header \<times> shell) option" where
  "kmain_init b e hdr s = do {
     m \<leftarrow> init_idt (isr_entry b) (irq_entry b) (idt_address b) (sm s);
     mm \<leftarrow> init_alloc (kmm (m_k m)) (mem_upper b);
     k \<leftarrow> init_processes ((m_k m)\<lparr>kmm := mm\<rparr>) (idle_fn b);
     let m = m\<lparr>m_k := k\<rparr>;
     let m = set_screen (snd (display_init (framebuffer b) (screen (m_tty m)))) m;
     s \<leftarrow> shell_init e (s\<lparr>sm := m\<rparr>);
     (hdr, bytes', v) \<leftarrow> print_logo (header_addr b) hdr (bm s) (screen (m_tty (sm s)));
     let s = s\<lparr>bm := bytes', sm := set_screen v (sm s)\<rparr>;
     m \<leftarrow> say (CHR 0x0A # ''Welcome to Longhorn!'' @ [CHR 0x0A] @ ''Version no.: %s'' @ [CHR 0x0A] @
               ''Type <help> for a list of commands.'' @ [CHR 0x0A] @ ''> '') [AStr (bytes version_no)] (sm s);
     Some (hdr, s\<lparr>sm := m\<lparr>m_k := enable_interrupts (m_k m)\<rparr>\<rparr>) }"

definition kmain_round :: "machine \<Rightarrow> (unit ctl \<times> machine) option" where
  "kmain_round s = do { (c, k) \<leftarrow> thread_yield (m_k s); Some (c, after_call c k s) }"

end
