(* ===== verification/Testing.thy ===== *)
theory Testing
  imports Kmain
begin

text \<open>
  The test build (\<open>TESTS\<close> defined): testing/tests.h, tests.c, test_slab.c and test_proc.c, and the parts
  of kernel.c, serial.c and slab.c that only this build has.  Its output goes to the serial port, as
  \<open>init_serial\<close> replaces three functions of the default display by its own.

  A test that gives up the processor ends in \<open>Switched\<close>, like every call that does.
\<close>

section \<open>Groups of tests\<close>

text \<open>The functions that are used as tests, to set up and to tear down.\<close>

datatype test_function = TEST_SLAB1 | TEST_SLAB2 | TEST_CREATE | TEST_KILL
datatype setup_function = SLAB_SETUP
datatype teardown_function = SLAB_TEARDOWN

record test_group =
  num_tests :: int
  test_names :: "string option list"
  tests :: "test_function option list"
  g_setup :: "setup_function option"
  g_teardown :: "teardown_function option"
  g_name :: string

text \<open>The globals: the machine, the default display, whose functions work on the machine, and those of
  tests.c.  The entries of \<open>groups\<close> point to static groups, which do not change once they are
  initialised, and are given by their contents.\<close>

record testing =
  tm :: machine
  t_dis :: "machine display"
  slab_alloc_mem :: u32
  test_err_msg :: string
  num_groups :: int
  groups :: "test_group option list"

abbreviation MAX_NUM_TESTS :: int where "MAX_NUM_TESTS \<equiv> 20"
abbreviation MAX_NUM_TEST_GROUPS :: int where "MAX_NUM_TEST_GROUPS \<equiv> 50"

definition TEST_GROUP_INIT :: "string \<Rightarrow> setup_function option \<Rightarrow> teardown_function option \<Rightarrow> test_group" where
  "TEST_GROUP_INIT n f td = \<lparr>num_tests = 0, test_names = replicate 20 None, tests = replicate 20 None,
     g_setup = f, g_teardown = td, g_name = n\<rparr>"

definition add_test :: "test_group \<Rightarrow> test_function \<Rightarrow> string \<Rightarrow> test_group option" where
  "add_test g test test_name =
     (if num_tests g \<ge> MAX_NUM_TESTS then Some g
      else do {
        ts \<leftarrow> arr_put (tests g) (word_of_int (num_tests g)) (Some test);
        ns \<leftarrow> arr_put (test_names g) (word_of_int (num_tests g)) (Some test_name);
        Some (g\<lparr>tests := ts, test_names := ns, num_tests := num_tests g + 1\<rparr>) })"

text \<open>The loop of \<open>init_slab_group\<close> and of \<open>init_proc_group\<close> over the two arrays.\<close>

fun add_tests :: "(test_function \<times> string) list \<Rightarrow> test_group \<Rightarrow> test_group option" where
  "add_tests [] g = Some g"
| "add_tests ((f, n) # fs) g = Option.bind (add_test g f n) (add_tests fs)"

definition init_slab_group :: "test_group option" where
  "init_slab_group = add_tests [(TEST_SLAB1, ''slab1''), (TEST_SLAB2, ''slab2'')]
     (TEST_GROUP_INIT ''Slab Allocator'' (Some SLAB_SETUP) (Some SLAB_TEARDOWN))"

definition init_proc_group :: "test_group option" where
  "init_proc_group = add_tests [(TEST_CREATE, ''create1''), (TEST_KILL, ''kill'')]
     (TEST_GROUP_INIT ''Processes'' None None)"

text \<open>\<open>testg\<close> is what the function that is passed returns.\<close>

definition add_group :: "test_group option \<Rightarrow> testing \<Rightarrow> testing option" where
  "add_group testg s =
     (if num_groups s \<ge> MAX_NUM_TEST_GROUPS then Some s
      else do {
        g \<leftarrow> testg;
        gs \<leftarrow> arr_put (groups s) (word_of_int (num_groups s)) (Some g);
        Some (s\<lparr>groups := gs, num_groups := num_groups s + 1\<rparr>) })"

definition init_testing :: "testing \<Rightarrow> testing option" where
  "init_testing s = do { s \<leftarrow> add_group init_slab_group s; add_group init_proc_group s }"

section \<open>Output\<close>

definition t_say :: "string \<Rightarrow> lit_arg list \<Rightarrow> testing \<Rightarrow> testing option" where
  "t_say f as s = do { (_, m) \<leftarrow> kprintf_lit (t_dis s) (bytes f) as (tm s); Some (s\<lparr>tm := m\<rparr>) }"

text \<open>The array \<open>padding\<close> of \<open>print_test\<close>, of 28 characters, as the string it holds.  Each character of it
  is written before it is read, so that what it holds at first does not show; for an empty name the
  terminator is written behind its end: None.\<close>

definition padding :: "string \<Rightarrow> u8 list option" where
  "padding test_name = (let n = nat (28 - int (length test_name)) in do {
     (_, m) \<leftarrow> memset (replicate 28 0) 0 0 28;
     m \<leftarrow> put_bytes m 0 (replicate n 32);
     m \<leftarrow> wr m n 0;
     cstring_at m 0 })"

abbreviation ESC :: char where "ESC \<equiv> CHR 0x1B"
abbreviation NL :: char where "NL \<equiv> CHR 0x0A"

definition print_test :: "string \<Rightarrow> bool \<Rightarrow> testing \<Rightarrow> testing option" where
  "print_test test_name passed s = do {
     s \<leftarrow> t_say ''%s'' [AStr (bytes test_name)] s;
     pad \<leftarrow> padding test_name;
     s \<leftarrow> t_say ''%s'' [AStr pad] s;
     if passed
     then t_say (CHR ''['' # ESC # ''[01;32mSUCCESS'' @ ESC # ''[00;37m]'' @ [NL]) [] s
     else do {
       s \<leftarrow> t_say (CHR ''['' # ESC # ''[01;31mFAIL'' @ ESC # ''[00;37m]'' @ [NL]) [] s;
       s \<leftarrow> t_say (CHR 0x09 # ''%s'' @ [NL]) [AStr (bytes (test_err_msg s))] s;
       Some (s\<lparr>test_err_msg := ''''\<rparr>) } }"

section \<open>The tests\<close>

text \<open>The macros; \<open>k\<close> is what follows when the check succeeds.\<close>

type_synonym test_result = "(bool ctl \<times> testing) option"

definition check_failed :: "string \<Rightarrow> testing \<Rightarrow> test_result" where
  "check_failed msg s = do { e \<leftarrow> put_name 256 msg; Some (Returns False, s\<lparr>test_err_msg := e\<rparr>) }"

definition CHECK_EQ :: "'v \<Rightarrow> 'v \<Rightarrow> string \<Rightarrow> testing \<Rightarrow> (testing \<Rightarrow> test_result) \<Rightarrow> test_result" where
  "CHECK_EQ a b msg s k = (if a \<noteq> b then check_failed (''CHECK_EQ FAILED: '' @ msg) s else k s)"

definition CHECK_NEQ :: "'v \<Rightarrow> 'v \<Rightarrow> string \<Rightarrow> testing \<Rightarrow> (testing \<Rightarrow> test_result) \<Rightarrow> test_result" where
  "CHECK_NEQ a b msg s k = (if a = b then check_failed (''CHECK_NEQ FAILED: '' @ msg) s else k s)"

definition t_kmm :: "testing \<Rightarrow> u32 kalloc" where
  "t_kmm s = kmm (m_k (tm s))"

definition set_k :: "kstate \<Rightarrow> testing \<Rightarrow> testing" where
  "set_k k s = s\<lparr>tm := (tm s)\<lparr>m_k := k\<rparr>\<rparr>"

definition set_t_kmm :: "u32 kalloc \<Rightarrow> testing \<Rightarrow> testing" where
  "set_t_kmm k s = set_k ((m_k (tm s))\<lparr>kmm := k\<rparr>) s"

text \<open>\<open>slab_allocator->alloc(slab_allocator, n)\<close> and \<open>slab_allocator->free(slab_allocator, addr, n)\<close> for the
  default allocator.\<close>

definition t_alloc :: "u32 \<Rightarrow> testing \<Rightarrow> (u32 \<times> testing) option" where
  "t_alloc n s = do {
     (r, m, a) \<leftarrow> slab_alloc (kmem (t_kmm s)) (default_slab (t_kmm s)) n;
     Some (r, set_t_kmm ((t_kmm s)\<lparr>kmem := m, default_slab := a\<rparr>) s) }"

definition t_free :: "u32 \<Rightarrow> u32 \<Rightarrow> testing \<Rightarrow> (err_t \<times> testing) option" where
  "t_free addr n s = do {
     (e, m, a) \<leftarrow> slab_free (kmem (t_kmm s)) (default_slab (t_kmm s)) addr n;
     Some (e, set_t_kmm ((t_kmm s)\<lparr>kmem := m, default_slab := a\<rparr>) s) }"

definition test_slab1 :: "testing \<Rightarrow> test_result" where
  "test_slab1 s =
     CHECK_NEQ (slab_alloc_mem s) 0 ''mem allocation for slab failed'' s (\<lambda>s. do {
       (slab_ret, s) \<leftarrow> t_alloc 1 s;
       CHECK_NEQ slab_ret 0 ''allocation 1'' s (\<lambda>s. do {
         (e, s) \<leftarrow> t_free slab_ret 1 s;
         CHECK_EQ e SUCC ''Slab allocator free 1'' s (\<lambda>s. Some (Returns True, s)) }) })"

definition test_slab2 :: "testing \<Rightarrow> test_result" where
  "test_slab2 s = do {
     (slab_ret, s) \<leftarrow> t_alloc 30 s;
     CHECK_NEQ slab_ret 0 ''allocation 2'' s (\<lambda>s. do {
       (e, s) \<leftarrow> t_free slab_ret 30 s;
       CHECK_EQ e SUCC ''Slab allocator free 2'' s (\<lambda>s. Some (Returns True, s)) }) }"

definition slab_setup :: "testing \<Rightarrow> testing option" where
  "slab_setup s = do { (p, k) \<leftarrow> palloc (t_kmm s); Some ((set_t_kmm k s)\<lparr>slab_alloc_mem := p\<rparr>) }"

definition slab_teardown :: "testing \<Rightarrow> testing option" where
  "slab_teardown s = do { (_, k) \<leftarrow> kfree (t_kmm s) (slab_alloc_mem s); Some (set_t_kmm k s) }"

text \<open>\<open>fn\<close> is the address of \<open>proc_test_func\<close>, an endless loop.\<close>

definition test_create :: "u32 \<Rightarrow> testing \<Rightarrow> test_result" where
  "test_create fn s = do {
     (p1, k) \<leftarrow> proc_create (m_k (tm s)) ''test'' fn 0;
     CHECK_EQ (pid (prc k p1)) 1 ''create process'' (set_k k s) (\<lambda>s.
       CHECK_EQ (num_live_threads (prc k p1)) 1 ''num live threads does not equal 1'' s (\<lambda>s. do {
         (_, c, k) \<leftarrow> proc_kill (m_k (tm s)) p1 True;
         let s = s\<lparr>tm := after_call c k (tm s)\<rparr>;
         case c of Switched \<Rightarrow> Some (Switched, s) | Returns _ \<Rightarrow> Some (Returns True, s) })) }"

definition test_kill :: "u32 \<Rightarrow> testing \<Rightarrow> test_result" where
  "test_kill fn s = do {
     (p1, k) \<leftarrow> proc_create (m_k (tm s)) ''test'' fn 0;
     (r, c, k) \<leftarrow> proc_kill k p1 True;
     case c of
       Switched \<Rightarrow> Some (Switched, s\<lparr>tm := after_call c k (tm s)\<rparr>)
     | Returns _ \<Rightarrow>
         CHECK_EQ (case r of None \<Rightarrow> 0 | Some v \<Rightarrow> v) 0 ''killing process p1 returned an error code''
           (set_k k s) (\<lambda>s. Some (Returns True, s)) }"

section \<open>Running the tests\<close>

definition call_test :: "u32 \<Rightarrow> test_function \<Rightarrow> testing \<Rightarrow> test_result" where
  "call_test fn f s =
     (case f of
        TEST_SLAB1 \<Rightarrow> test_slab1 s
      | TEST_SLAB2 \<Rightarrow> test_slab2 s
      | TEST_CREATE \<Rightarrow> test_create fn s
      | TEST_KILL \<Rightarrow> test_kill fn s)"

fun call_setup :: "setup_function \<Rightarrow> testing \<Rightarrow> testing option" where
  "call_setup SLAB_SETUP s = slab_setup s"

fun call_teardown :: "teardown_function \<Rightarrow> testing \<Rightarrow> testing option" where
  "call_teardown SLAB_TEARDOWN s = slab_teardown s"

text \<open>The loop of \<open>run_test_group\<close> from test \<open>i\<close> on, \<open>n\<close> being \<open>MAX_NUM_TESTS - i\<close>; the result tells whether
  all tests passed.  A NULL test is called, and a NULL name printed: None.\<close>

fun test_loop :: "u32 \<Rightarrow> test_group \<Rightarrow> nat \<Rightarrow> int \<Rightarrow> testing \<Rightarrow> test_result" where
  "test_loop fn g 0 i s = Some (Returns True, s)"
| "test_loop fn g (Suc n) i s =
     (if i < num_tests g
      then do {
        f \<leftarrow> arr_get (tests g) (word_of_int i);
        f \<leftarrow> f;
        (c, s) \<leftarrow> call_test fn f s;
        case c of
          Switched \<Rightarrow> Some (Switched, s)
        | Returns result \<Rightarrow> do {
            name \<leftarrow> arr_get (test_names g) (word_of_int i);
            name \<leftarrow> name;
            s \<leftarrow> print_test name result s;
            if result then test_loop fn g n (i + 1) s
            else do {
              s \<leftarrow> t_say (''FAILED ON TEST %s... NUM PASSED: %d NUM FAILED: %d'' @ [NL])
                     [AStr (bytes name), AInt i, AInt (num_tests g - i)] s;
              Some (Returns False, s) } } }
      else Some (Returns True, s))"

definition run_test_group :: "u32 \<Rightarrow> test_group \<Rightarrow> testing \<Rightarrow> (unit ctl \<times> testing) option" where
  "run_test_group fn g s = do {
     s \<leftarrow> t_say (NL # ''TESTING GROUP: %s'' @ [NL]) [AStr (bytes (g_name g))] s;
     s \<leftarrow> (case g_setup g of None \<Rightarrow> Some s | Some f \<Rightarrow> call_setup f s);
     (c, s) \<leftarrow> test_loop fn g (nat MAX_NUM_TESTS) 0 s;
     case c of
       Switched \<Rightarrow> Some (Switched, s)
     | Returns passed \<Rightarrow> do {
         s \<leftarrow> (if passed then t_say (''TESTS DONE FOR GROUP: %s'' @ [NL, NL]) [AStr (bytes (g_name g))] s else Some s);
         s \<leftarrow> (case g_teardown g of None \<Rightarrow> Some s | Some f \<Rightarrow> call_teardown f s);
         Some (Returns (), s) } }"

text \<open>The loop of \<open>run_groups\<close> from group \<open>i\<close> on, with \<open>n\<close> groups to go.\<close>

fun group_loop :: "u32 \<Rightarrow> nat \<Rightarrow> int \<Rightarrow> testing \<Rightarrow> (unit ctl \<times> testing) option" where
  "group_loop fn 0 i s = Some (Returns (), s)"
| "group_loop fn (Suc n) i s = do {
     g \<leftarrow> arr_get (groups s) (word_of_int i);
     g \<leftarrow> g;
     (c, s) \<leftarrow> run_test_group fn g s;
     case c of Switched \<Rightarrow> Some (Switched, s) | Returns _ \<Rightarrow> group_loop fn n (i + 1) s }"

definition run_groups :: "u32 \<Rightarrow> testing \<Rightarrow> (unit ctl \<times> testing) option" where
  "run_groups fn s = do {
     s \<leftarrow> t_say (''NUMBER TEST GROUPS: %d'' @ [NL]) [AInt (num_groups s)] s;
     (c, s) \<leftarrow> group_loop fn (nat (num_groups s)) 0 s;
     case c of
       Switched \<Rightarrow> Some (Switched, s)
     | Returns _ \<Rightarrow> do {
         s \<leftarrow> t_say (''TESTING COMPLETED'' @ NL # ''exiting...'' @ [NL]) [] s;
         Some (Returns (), s\<lparr>tm := (tm s)\<lparr>m_ports := outw 0x604 0x2000 (m_ports (tm s))\<rparr>\<rparr>) } }"

section \<open>The slab table\<close>

fun print_slabs :: "nat \<Rightarrow> u32 \<Rightarrow> u32 \<Rightarrow> testing \<Rightarrow> testing option" where
  "print_slabs 0 i slab s = Some s"
| "print_slabs (Suc n) i slab s = do {
     let m = kmem (t_kmm s);
     s \<leftarrow> t_say (''slab %d: %x | mem: %x | free: %B'' @ [NL])
       [AInt (sint i), AInt (sint slab), AInt (sint (slab_addr m slab)), AInt (if slab_is_free m slab then 1 else 0)] s;
     print_slabs n (i + 1) (slab + SIZEOF_SLAB) s }"

definition slab_print_list :: "slab_alloc_t \<Rightarrow> testing \<Rightarrow> testing option" where
  "slab_print_list a s =
     (if slab_size a = 0 then None
      else do {
        s \<leftarrow> t_say (''sizeof(struct slab): %d'' @ [NL]) [AInt (sint SIZEOF_SLAB)] s;
        s \<leftarrow> t_say (''s->mem_size: %d | s->slab_size: %d | s->free_mem_size: %d'' @ [NL])
               [AInt (sint (mem_size a)), AInt (sint (slab_size a)), AInt (sint (free_mem_size a))] s;
        s \<leftarrow> t_say (''number of slabs total: %d'' @ [NL]) [AInt (sint (total_num_slabs a))] s;
        print_slabs (unat (total_num_slabs a)) 0 (sdata a) s })"

section \<open>The test build\<close>

text \<open>The default display at the start, over the machine, and with the functions of the serial port.\<close>

definition on_screen :: "(vesa \<Rightarrow> vesa) \<Rightarrow> machine \<Rightarrow> machine" where
  "on_screen f s = set_screen (f (screen (m_tty s))) s"

definition on_screen_opt :: "(vesa \<Rightarrow> vesa option) \<Rightarrow> machine \<Rightarrow> machine option" where
  "on_screen_opt f s = map_option (\<lambda>v. set_screen v s) (f (screen (m_tty s)))"

definition machine_dis :: "machine display" where
  "machine_dis = (let d = default_dis; v = (\<lambda>s. screen (m_tty s)) in
     \<lparr>dis_setcur = (\<lambda>x y. on_screen (dis_setcur d x y)), dis_getcur_vis = (\<lambda>s. dis_getcur_vis d (v s)),
      dis_getx = (\<lambda>s. dis_getx d (v s)), dis_gety = (\<lambda>s. dis_gety d (v s)),
      dis_getn_cols = (\<lambda>s. dis_getn_cols d (v s)), dis_getn_rows = (\<lambda>s. dis_getn_rows d (v s)),
      dis_scur = on_screen (dis_scur d), dis_hcur = on_screen (dis_hcur d),
      dis_putc = (\<lambda>c. on_screen_opt (dis_putc d c)), dis_puts = (\<lambda>t. on_screen_opt (dis_puts d t)),
      dis_putats = (\<lambda>t x y. on_screen_opt (dis_putats d t x y)),
      dis_backspace = on_screen (dis_backspace d), dis_clear = on_screen (dis_clear d),
      dis_setcol = (\<lambda>f b. on_screen (dis_setcol d f b))\<rparr>)"

definition on_ports :: "(ports \<Rightarrow> ports) \<Rightarrow> machine \<Rightarrow> machine" where
  "on_ports f s = s\<lparr>m_ports := f (m_ports s)\<rparr>"

definition serial_dis :: "machine display \<Rightarrow> machine display" where
  "serial_dis d = d\<lparr>dis_putc := (\<lambda>c s. Some (on_ports (serial_putc c) s)),
     dis_puts := (\<lambda>t s. Some (on_ports (serial_puts t) s)), dis_clear := on_ports serial_clear\<rparr>"

definition init_serial_tests :: "testing \<Rightarrow> testing" where
  "init_serial_tests s =
     (let ok = fst (init_serial (m_ports (tm s)));
          s = s\<lparr>tm := init_serial_irqs (tm s)\<rparr>
      in if ok then let d = serial_dis (t_dis s) in s\<lparr>t_dis := d, tm := dis_clear d (tm s)\<rparr>
         else s)"

definition init_idt_tests :: "(nat \<Rightarrow> u32) \<Rightarrow> (nat \<Rightarrow> u32) \<Rightarrow> u32 \<Rightarrow> testing \<Rightarrow> testing option" where
  "init_idt_tests isr irq idt_addr s = do {
     m \<leftarrow> init_timer R_FREQ (install_irqs irq (remap_pics (install_isrs isr (tm s))));
     let s = init_serial_tests (s\<lparr>tm := init_keyboard m\<rparr>);
     Some (s\<lparr>tm := load_idt idt_addr (tm s)\<rparr>) }"

text \<open>\<open>kmain\<close> of the test build as the boot thread runs it when no interrupt is taken on the way.  Interrupts
  are not excluded, since \<open>thread_create\<close> enables them.\<close>

definition kmain_tests :: "boot_env \<Rightarrow> u32 \<Rightarrow> testing \<Rightarrow> (unit ctl \<times> testing) option" where
  "kmain_tests b fn s = do {
     s \<leftarrow> init_idt_tests (isr_entry b) (irq_entry b) (idt_address b) s;
     mm \<leftarrow> init_alloc (t_kmm s) (mem_upper b);
     k \<leftarrow> init_processes ((m_k (tm s))\<lparr>kmm := mm\<rparr>) (idle_fn b);
     s \<leftarrow> init_testing (set_k k s);
     (c, s) \<leftarrow> run_groups fn s;
     case c of
       Switched \<Rightarrow> Some (Switched, s)
     | Returns _ \<Rightarrow> Some (Returns (), set_k (enable_interrupts (m_k (tm s))) s) }"

end
