(* ===== verification/Report.thy ===== *)
theory Report
  imports Testing StdioProofs
begin

text \<open>
  The output of the test build: the serial port as a device for text, what \<open>print_test\<close> prints for a test that
  passes, and the relation that follows the text through the run of the tests.
\<close>

section \<open>A device for text\<close>

text \<open>What a client of \<open>kprintf\<close> relies on when its output is observed: a character that is put appears at
  the end of the text, and nothing else changes that \<open>rest\<close> shows.\<close>

locale text_device =
  fixes dd :: "'d display" and ok :: "'d \<Rightarrow> bool" and text_on :: "'d \<Rightarrow> u8 list" and rest :: "'d \<Rightarrow> 'r"
  assumes put_text: "ok d \<Longrightarrow> \<exists>d'. dis_putc dd c d = Some d' \<and> ok d' \<and> text_on d' = text_on d @ [c] \<and> rest d' = rest d"
    and puts_all: "dis_puts dd s d = put_all (dis_putc dd) s d"
begin

lemma put_all_text:
  "ok d \<Longrightarrow> \<exists>d'. put_all (dis_putc dd) s d = Some d' \<and> ok d' \<and> text_on d' = text_on d @ s \<and> rest d' = rest d"
proof (induction s arbitrary: d)
  case (Cons c s)
  obtain d1 where d1: "dis_putc dd c d = Some d1" "ok d1" "text_on d1 = text_on d @ [c]" "rest d1 = rest d"
    using put_text [OF Cons.prems] by blast
  from Cons.IH [OF d1(2)] d1 show ?case by auto
qed simp

lemma kprintf_text:
  assumes "ok d" and "message f as = Some t" and "0 \<notin> set f" and "proper as"
  shows "\<exists>d'. kprintf_lit dd f as d = Some (0, d') \<and> ok d' \<and> text_on d' = text_on d @ t \<and> rest d' = rest d"
  using put_all_text [OF assms(1), of t] kprintf_lit_text [OF puts_all assms(2-4), of d] by auto

end

section \<open>The serial port as a text device\<close>

text \<open>The transmitter is never found busy 50001 times in a row.\<close>

definition transmits :: "(port_access list \<Rightarrow> u16 \<Rightarrow> u16) \<Rightarrow> bool" where
  "transmits d \<longleftrightarrow> (\<forall>l. \<exists>n\<le>SERIAL_TIMEOUT. bit (ucast (d (l @ replicate n (Inb COM1_LSR)) COM1_LSR) :: u8) 5)"

lemma ready_at_bit: "ready_at p n = bit (ucast (dev p (port_log p @ replicate n (Inb COM1_LSR)) COM1_LSR) :: u8) 5"
  by (simp add: ready_at_def serial_transmit_empty_def inb_def polled_def)

lemma putc_sent:
  assumes "transmits (dev p)"
  shows "\<exists>n. serial_putc c p = outb COM1 c (polled n p)"
proof -
  have "\<exists>n. n \<le> SERIAL_TIMEOUT \<and> ready_at p n" using assms unfolding transmits_def ready_at_bit by blast
  then obtain n where n: "n \<le> SERIAL_TIMEOUT" "ready_at p n" by blast
  define m where "m = (LEAST m. ready_at p m)"
  have "ready_at p m" "m \<le> SERIAL_TIMEOUT" "\<forall>i<m. \<not> ready_at p i"
    using n LeastI [of "ready_at p" n] Least_le [of "ready_at p" n] not_less_Least unfolding m_def by auto
  then show ?thesis using serial_putc_sends_once [of m p c] by blast
qed

lemma sent_to_polls [simp]: "sent_to q (replicate n (Inb r)) = []"
  by (induction n) simp_all

definition com1 :: "machine \<Rightarrow> u8 list" where
  "com1 s = sent_to COM1 (port_log (m_ports s))"

text \<open>The machine without its log of port accesses.\<close>

definition quiet :: "machine \<Rightarrow> machine" where
  "quiet s = on_ports (\<lambda>p. p\<lparr>port_log := []\<rparr>) s"

lemma putc_machine:
  assumes "transmits (dev (m_ports s))"
  shows "transmits (dev (m_ports (on_ports (serial_putc c) s)))" and "com1 (on_ports (serial_putc c) s) = com1 s @ [c]"
    and "quiet (on_ports (serial_putc c) s) = quiet s"
proof -
  obtain n where "serial_putc c (m_ports s) = outb COM1 c (polled n (m_ports s))" using putc_sent [OF assms] by blast
  then show "transmits (dev (m_ports (on_ports (serial_putc c) s)))" "com1 (on_ports (serial_putc c) s) = com1 s @ [c]"
    "quiet (on_ports (serial_putc c) s) = quiet s"
    using assms by (simp_all add: on_ports_def outb_def polled_def com1_def quiet_def)
qed

lemma serial_puts_all: "Some (on_ports (serial_puts t) s) = put_all (\<lambda>c s. Some (on_ports (serial_putc c) s)) t s"
proof (induction t arbitrary: s)
  case (Cons c t)
  have "on_ports (serial_puts (c # t)) s = on_ports (serial_puts t) (on_ports (serial_putc c) s)"
    by (simp add: on_ports_def)
  then show ?case unfolding put_all.simps bind.bind_lunit using Cons [of "on_ports (serial_putc c) s"] by metis
qed (simp add: on_ports_def)

lemma serial_dis_simps [simp]:
  "dis_putc (serial_dis b) = (\<lambda>c s. Some (on_ports (serial_putc c) s))"
  "dis_puts (serial_dis b) = (\<lambda>t s. Some (on_ports (serial_puts t) s))"
  "dis_clear (serial_dis b) = on_ports serial_clear"
  by (simp_all add: serial_dis_def)

interpretation st: text_device "serial_dis b" "\<lambda>s. transmits (dev (m_ports s))" com1 quiet for b
  by unfold_locales (simp_all add: putc_machine serial_puts_all)

section \<open>Printing\<close>

text \<open>\<open>printed t s s'\<close>: from \<open>s\<close> to \<open>s'\<close> only the text \<open>t\<close> was printed, on the serial port.\<close>

definition printed :: "u8 list \<Rightarrow> testing \<Rightarrow> testing \<Rightarrow> bool" where
  "printed t s s' \<longleftrightarrow> com1 (tm s') = com1 (tm s) @ t \<and> quiet (tm s') = quiet (tm s) \<and> s' = s\<lparr>tm := tm s'\<rparr>"

definition talks :: "testing \<Rightarrow> bool" where
  "talks s \<longleftrightarrow> (\<exists>b. t_dis s = serial_dis b) \<and> transmits (dev (m_ports (tm s)))"

lemma quiet_simps: 
  assumes "quiet m = quiet m'"
  shows "dev (m_ports m) = dev (m_ports m')" "m_k m = m_k m'"
  using arg_cong [OF assms, of "\<lambda>m. dev (m_ports m)"] arg_cong [OF assms, of m_k]
  by (simp_all add: quiet_def on_ports_def)

lemma t_say_prints:
  assumes "talks s" and "message (bytes f) as = Some t" and "0 \<notin> set (bytes f)" and "proper as"
  shows "\<exists>s'. t_say f as s = Some s' \<and> printed t s s'"
proof -
  obtain b where b: "t_dis s = serial_dis b" "transmits (dev (m_ports (tm s)))" using assms(1) by (auto simp: talks_def)
  obtain m where "kprintf_lit (serial_dis b) (bytes f) as (tm s) = Some (0, m)" "com1 m = com1 (tm s) @ t"
      "quiet m = quiet (tm s)"
    using st.kprintf_text [OF b(2) assms(2-4), of b] by blast
  then show ?thesis using b(1) by (auto simp: t_say_def printed_def)
qed

lemma printed_talks: "printed t s s' \<Longrightarrow> talks s \<Longrightarrow> talks s'"
  unfolding printed_def talks_def using quiet_simps(1) [of "tm s'" "tm s"] by (metis testing.ext_inject testing.surjective testing.update_convs(1))

lemma printed_refl: "printed [] s s"
  by (simp add: printed_def)

lemma printed_trans: "printed t s1 s2 \<Longrightarrow> printed u s2 s3 \<Longrightarrow> printed (t @ u) s1 s3"
  unfolding printed_def by (metis append.assoc testing.surjective testing.update_convs(1))


text \<open>The padding fills a name up to 28 characters.\<close>

lemma padding_spaces:
  assumes "0 < length name" and "length name \<le> 28"
  shows "padding name = Some (replicate (28 - length name) 32)"
proof -
  define n where "n = 28 - length name"
  have n: "n < 28" "nat (28 - int (length name)) = n" using assms by (simp_all add: n_def nat_diff_distrib)
  let ?z = "replicate 28 0 :: u8 list"
  let ?m = "overlay ?z 0 (replicate n 32)"
  have len: "length ?m = 28" using n(1) by (simp add: overlay_def)
  have "memset ?z 0 0 28 = Some (0, ?z)"
    using memset_memcmp_first_byte [of 0 ?z 0 0 28 0] by (simp add: numeral_eq_Suc)
  moreover have "put_bytes ?z 0 (replicate n 32) = Some ?m" using n(1) by (intro put_bytes_overlay) simp
  moreover have "wr ?m n 0 = Some (?m[n := 0])" using n(1) len by (simp add: wr_def)
  moreover have "cstr (?m[n := 0]) 0 (replicate n 32)"
    unfolding cstr_nth using n(1) len by (auto simp: overlay_def nth_append)
  ultimately show ?thesis
    using n cstring_at_of_cstr [of "?m[n := 0]" 0 "replicate n 32"] by (simp add: padding_def Let_def n_def)
qed

definition success :: "u8 list" where
  "success = bytes (CHR ''['' # ESC # ''[01;32mSUCCESS'' @ ESC # ''[00;37m]'' @ [NL])"

definition passed_line :: "string \<Rightarrow> u8 list" where
  "passed_line name = bytes name @ replicate (28 - length name) 32 @ success"

lemma message_string: "message (bytes ''%s'') [AStr t] = Some t"
  by (simp add: bytes_def lit_directive_def)

lemma say_string: "talks s \<Longrightarrow> 0 \<notin> set t \<Longrightarrow> \<exists>s'. t_say ''%s'' [AStr t] s = Some s' \<and> printed t s s'"
  by (rule t_say_prints [OF _ message_string]) (simp_all add: bytes_def)

lemma print_test_passed:
  assumes "talks s" and "0 < length name" and "length name \<le> 28" and "0 \<notin> set (bytes name)"
  shows "\<exists>s'. print_test name True s = Some s' \<and> printed (passed_line name) s s'"
proof -
  obtain s1 where s1: "t_say ''%s'' [AStr (bytes name)] s = Some s1" "printed (bytes name) s s1"
    using say_string [OF assms(1,4)] by blast
  obtain s2 where s2: "t_say ''%s'' [AStr (replicate (28 - length name) 32)] s1 = Some s2"
      "printed (replicate (28 - length name) 32) s1 s2"
    using say_string [OF printed_talks [OF s1(2) assms(1)], of "replicate (28 - length name) 32"] by auto
  obtain s3 where s3: "t_say (CHR ''['' # ESC # ''[01;32mSUCCESS'' @ ESC # ''[00;37m]'' @ [NL]) [] s2 = Some s3"
      "printed success s2 s3"
    using t_say_prints [OF printed_talks [OF s2(2) printed_talks [OF s1(2) assms(1)]], of
        "CHR ''['' # ESC # ''[01;32mSUCCESS'' @ ESC # ''[00;37m]'' @ [NL]" "[]" success]
    by (auto simp: bytes_def success_def)
  show ?thesis
    using s1 s2 s3 padding_spaces [OF assms(2,3)] printed_trans [OF s1(2) printed_trans [OF s2(2) s3(2)]]
    by (simp add: print_test_def passed_line_def)
qed


section \<open>Stages of the run\<close>

text \<open>\<open>stage P s\<close>: the output works and the kernel is in a state with \<open>P\<close>; \<open>spoke t s s'\<close>: from \<open>s\<close> to \<open>s'\<close> the
  text \<open>t\<close> was printed and the groups stayed what they are.\<close>

definition stage :: "(kstate \<Rightarrow> bool) \<Rightarrow> testing \<Rightarrow> bool" where
  "stage P s \<longleftrightarrow> talks s \<and> P (m_k (tm s))"

definition spoke :: "u8 list \<Rightarrow> testing \<Rightarrow> testing \<Rightarrow> bool" where
  "spoke t s s' \<longleftrightarrow> com1 (tm s') = com1 (tm s) @ t \<and> num_groups s' = num_groups s \<and> groups s' = groups s \<and>
     slab_alloc_mem s' = slab_alloc_mem s"

lemma spoke_trans: "spoke t s1 s2 \<Longrightarrow> spoke u s2 s3 \<Longrightarrow> spoke (t @ u) s1 s3"
  by (simp add: spoke_def)

lemma printed_stage:
  assumes "printed t s s'" and "stage P s"
  shows "stage P s'" and "spoke t s s'"
proof -
  have "quiet (tm s') = quiet (tm s)" using assms(1) by (simp add: printed_def)
  then have "m_k (tm s') = m_k (tm s)" by (rule quiet_simps(2))
  then show "stage P s'" using assms printed_talks unfolding stage_def by metis
  have e: "s' = s\<lparr>tm := tm s'\<rparr>" and c: "com1 (tm s') = com1 (tm s) @ t" using assms(1) by (simp_all add: printed_def)
  show "spoke t s s'" unfolding spoke_def using c by (subst (2 3 4) e) simp
qed

lemma say_stage:
  assumes "stage P s" and "message (bytes f) as = Some t" and "0 \<notin> set (bytes f)" and "proper as"
  shows "\<exists>s'. t_say f as s = Some s' \<and> stage P s' \<and> spoke t s s'"
proof -
  have "talks s" using assms(1) by (simp add: stage_def)
  from t_say_prints [OF this assms(2-4)] obtain s' where "t_say f as s = Some s'" "printed t s s'" by blast
  then show ?thesis using printed_stage [OF _ assms(1)] by blast
qed

lemma passed_stage:
  assumes "stage P s" and "0 < length name" and "length name \<le> 28" and "0 \<notin> set (bytes name)"
  shows "\<exists>s'. print_test name True s = Some s' \<and> stage P s' \<and> spoke (passed_line name) s s'"
proof -
  have "talks s" using assms(1) by (simp add: stage_def)
  from print_test_passed [OF this assms(2-4)] obtain s' where "print_test name True s = Some s'" "printed (passed_line name) s s'"
    by blast
  then show ?thesis using printed_stage [OF _ assms(1)] by blast
qed

text \<open>A step of the kernel alone.\<close>

lemma set_k_stage: "stage P s \<Longrightarrow> Q k \<Longrightarrow> stage Q (set_k k s)" "spoke [] s (set_k k s)"
  by (simp_all add: stage_def talks_def spoke_def set_k_def com1_def)

end
