(* ===== verification/Solo.thy ===== *)
theory Solo
  imports Procs Preempt
begin

text \<open>
  The scheduler with a running thread that is still in the ready list: \<open>schedule\<close> leaves the last ready
  thread there when it switches to it, so this is how the system runs while the shell, or a single
  command, is the only thread that does not block.
\<close>

section \<open>The running thread in the ready list\<close>

text \<open>\<open>listed_ok s rs bs\<close>: the running thread is one of the threads \<open>rs\<close> of the ready list; the others of
  them are ready, the threads \<open>bs\<close> are blocked, and nobody is dying.\<close>

definition listed_ok :: "kstate \<Rightarrow> u32 list \<Rightarrow> u32 list \<Rightarrow> bool" where
  "listed_ok s rs bs \<longleftrightarrow> thread_lists (nodes s) rs bs [] \<and> running s \<in> set rs \<and>
     t_state (thr s (running s)) = THREAD_RUNNING \<and> (\<forall>t\<in>set rs. placed s t) \<and>
     (\<forall>t\<in>set rs - {running s}. t_state (thr s t) = THREAD_READY) \<and>
     (\<forall>t\<in>set bs. t_state (thr s t) = THREAD_BLOCKED)"

lemma set_state_simps [simp]:
  "nodes (set_state t st s) = nodes s" "prc (set_state t st s) = prc s" "running (set_state t st s) = running s"
  "idle_t (set_state t st s) = idle_t s" "kmm (set_state t st s) = kmm s"
  "thr (set_state t st s) = (thr s)(t := (thr s t)\<lparr>t_state := st\<rparr>)"
  "thread_ticks (set_state t st s) = thread_ticks s"
  by (simp_all add: set_state_def)

lemma blocked_insert:
  assumes "thread_lists (nodes s) rs bs ds" and "t \<notin> set (rs @ bs @ ds)"
  shows "\<exists>h. k_insert s blocked_threads (TNode t) = Some (s\<lparr>nodes := h\<rparr>) \<and> thread_lists h rs (t # bs) ds \<and>
     same_on heap_ops (- sched_nodes) (nodes s) h"
proof -
  obtain h where h: "list_insert_front heap_ops (nodes s) BlockedHead (TNode t) = Some h"
      "dll heap_ops h blocked_threads (TNode t # map TNode bs)"
      "same_on heap_ops (- insert (TNode t) (set (spine blocked_threads (map TNode bs)))) (nodes s) h"
    using hs.insert_front_dll [of "nodes s" blocked_threads "map TNode bs" "TNode t"] assms
    by (auto simp: thread_lists_def set_spine Compl_eq_Diff_UNIV)
  have "dll heap_ops h ready_threads (map TNode rs)" "dll heap_ops h dying_threads (map TNode ds)"
    using assms by (auto intro!: dll_frame [OF _ h(3)] simp: thread_lists_def set_spine)
  moreover have "same_on heap_ops (- sched_nodes) (nodes s) h"
    by (rule sched_frame [OF h(3)]) (auto simp: set_spine sched_nodes_def)
  ultimately show ?thesis
    using h assms by (auto simp: k_insert_def list_insert_def thread_lists_def)
qed

lemma dying_insert:
  assumes "thread_lists (nodes s) rs bs ds" and "t \<notin> set (rs @ bs @ ds)"
  shows "\<exists>h. k_insert s dying_threads (TNode t) = Some (s\<lparr>nodes := h\<rparr>) \<and> thread_lists h rs bs (t # ds) \<and>
     same_on heap_ops (- sched_nodes) (nodes s) h"
proof -
  obtain h where h: "list_insert_front heap_ops (nodes s) DyingHead (TNode t) = Some h"
      "dll heap_ops h dying_threads (TNode t # map TNode ds)"
      "same_on heap_ops (- insert (TNode t) (set (spine dying_threads (map TNode ds)))) (nodes s) h"
    using hs.insert_front_dll [of "nodes s" dying_threads "map TNode ds" "TNode t"] assms
    by (auto simp: thread_lists_def set_spine Compl_eq_Diff_UNIV)
  have "dll heap_ops h ready_threads (map TNode rs)" "dll heap_ops h blocked_threads (map TNode bs)"
    using assms by (auto intro!: dll_frame [OF _ h(3)] simp: thread_lists_def set_spine)
  moreover have "same_on heap_ops (- sched_nodes) (nodes s) h"
    by (rule sched_frame [OF h(3)]) (auto simp: set_spine sched_nodes_def)
  ultimately show ?thesis
    using h assms by (auto simp: k_insert_def list_insert_def thread_lists_def)
qed

lemma dying_pop:
  assumes "thread_lists (nodes s) rs bs (t # ds)"
  shows "\<exists>h. k_pop s dying_threads = Some (Some (TNode t), s\<lparr>nodes := h\<rparr>) \<and> thread_lists h rs bs ds \<and>
     same_on heap_ops (- sched_nodes) (nodes s) h"
proof -
  obtain h where h: "list_pop heap_ops (nodes s) dying_threads = Some (Some (TNode t), h)"
      "dll heap_ops h dying_threads (map TNode ds)"
      "same_on heap_ops (- set (spine dying_threads (map TNode (t # ds)))) (nodes s) h"
    using hs.pop_dll [of "nodes s" dying_threads "map TNode (t # ds)"] assms
    by (auto simp: thread_lists_def Compl_eq_Diff_UNIV)
  have "dll heap_ops h ready_threads (map TNode rs)" "dll heap_ops h blocked_threads (map TNode bs)"
    using assms by (auto intro!: dll_frame [OF _ h(3)] simp: thread_lists_def set_spine)
  moreover have "same_on heap_ops (- sched_nodes) (nodes s) h"
    by (rule sched_frame [OF h(3)]) (auto simp: set_spine sched_nodes_def)
  ultimately show ?thesis using h assms by (auto simp: k_pop_def thread_lists_def)
qed

lemma ready_delete_frame:
  assumes "thread_lists (nodes s) rs bs ds" and "t \<in> set rs"
  shows "\<exists>h. k_delete s ready_threads (TNode t) = Some (Some (TNode t), s\<lparr>nodes := h\<rparr>) \<and>
     thread_lists h (remove1 t rs) bs ds \<and> same_on heap_ops (- sched_nodes) (nodes s) h"
  using ready_delete [OF assms(1), of t] assms(2) by auto

text \<open>\<open>dispatched t s\<close>: the thread \<open>t\<close> has the processor.\<close>

definition dispatched :: "u32 \<Rightarrow> kstate \<Rightarrow> kstate" where
  "dispatched t s = (let p = t_proc (thr s t) in
     enable_interrupts (upd_prc p (\<lambda>r. r\<lparr>active_thread := threads r ! unat (ucast (child_num (thr s t)) :: u8)\<rparr>)
       (set_state t THREAD_RUNNING (switch_threads s t))))"

lemma dispatched_simps [simp]:
  "nodes (dispatched t s) = nodes s" "running (dispatched t s) = t" "idle_t (dispatched t s) = idle_t s"
  "kmm (dispatched t s) = kmm s" "thread_ticks (dispatched t s) = thread_ticks s"
  "thr (dispatched t s) = (thr (switch_threads s t))(t := (thr (switch_threads s t) t)\<lparr>t_state := THREAD_RUNNING\<rparr>)"
  "threads (prc (dispatched t s) p) = threads (prc s p)"
  "num_live_threads (prc (dispatched t s) p) = num_live_threads (prc s p)"
  "p_wait_code (prc (dispatched t s) p) = p_wait_code (prc s p)"
  by (simp_all add: dispatched_def Let_def)

lemma placed_upd [simp]: "placed (s\<lparr>nodes := h\<rparr>) t = placed s t" "placed (disable_interrupts s) t = placed s t"
  "placed (set_state u st s) t = placed s t" "placed (dispatched u s) t = placed s t"
  by (simp_all add: placed_def)

lemma proc_set_active_placed:
  assumes "placed s t"
  shows "proc_set_active_thread s (t_proc (thr s t)) (ucast (child_num (thr s t))) = Some
     (upd_prc (t_proc (thr s t)) (\<lambda>r. r\<lparr>active_thread := threads r ! unat (ucast (child_num (thr s t)) :: u8)\<rparr>) s)"
proof -
  let ?n = "ucast (child_num (thr s t)) :: u8"
  have "unat (ucast ?n :: u32) = unat ?n" by (simp add: unsigned_ucast_eq unsigned_take_bit_eq)
  then have "arr_get (threads (prc s (t_proc (thr s t)))) (ucast ?n) =
      Some (threads (prc s (t_proc (thr s t))) ! unat ?n)"
    using assms by (simp add: arr_get_def placed_def)
  then show ?thesis by (simp add: proc_set_active_thread_def upd_prc_def)
qed

lemma finish_quiet:
  assumes "thread_lists (nodes s) rs bs []" and "placed s t"
  shows "finish_schedule (switch_threads s t) = Some (dispatched t s)"
proof -
  let ?s = "set_state t THREAD_RUNNING (switch_threads s t)"
  have "placed ?s t" using assms(2) by (simp add: placed_def)
  from proc_set_active_placed [OF this] show ?thesis
    using no_dying [OF assms(1)]
    by (simp add: finish_schedule_def THREAD_CUR_def PROC_CUR_def Let_def dispatched_def)
qed

text \<open>A blocked thread gives the processor to the only ready one, which stays in the list.\<close>

lemma schedule_to_single:
  assumes lists: "thread_lists (nodes s) [c] bs []" and "t_state (thr s (running s)) = THREAD_BLOCKED"
    and "c \<noteq> running s" and "t_state (thr s c) = THREAD_READY" and "placed s c"
  shows "schedule s = Some (Switched, dispatched c (disable_interrupts s))"
proof -
  let ?s = "disable_interrupts s"
  have "list_size heap_ops (nodes s) ready_threads = Some 1" using ready_size [OF lists] by simp
  moreover have "n_next (nodes s ReadyHead) = Some (TNode c)"
    using dll_head_next [of heap_ops "nodes s" ready_threads "[TNode c]"] lists by (simp add: thread_lists_def)
  moreover have "finish_schedule (switch_threads ?s c) = Some (dispatched c ?s)"
    by (rule finish_quiet [of _ "[c]" bs]) (simp_all add: lists assms(5))
  ultimately show ?thesis
    using assms(2-4) by (simp add: schedule_def Let_def THREAD_CUR_def)
qed

lemma block_to_single:
  assumes ok: "listed_ok s rs bs" and rest: "remove1 (running s) rs = [c]"
  shows "\<exists>h. thread_block s = Some (Switched,
       dispatched c (disable_interrupts ((set_state (running s) THREAD_BLOCKED s)\<lparr>nodes := h\<rparr>))) \<and>
     thread_lists h [c] (running s # bs) [] \<and> same_on heap_ops (- sched_nodes) (nodes s) h"
proof -
  let ?t = "running s" and ?s0 = "disable_interrupts s"
  have lists: "thread_lists (nodes s) rs bs []" and t: "?t \<in> set rs" and run: "t_state (thr s ?t) = THREAD_RUNNING"
    using ok by (auto simp: listed_ok_def)
  have "c \<in> set (remove1 ?t rs)" using rest by simp
  then have c: "c \<in> set rs" "c \<noteq> ?t"
    using lists by (auto simp: thread_lists_def)
  then have ready: "t_state (thr s c) = THREAD_READY" "placed s c" using ok by (auto simp: listed_ok_def)
  obtain h1 where h1: "k_delete ?s0 ready_threads (TNode ?t) = Some (Some (TNode ?t), ?s0\<lparr>nodes := h1\<rparr>)"
      "thread_lists h1 [c] bs []" "same_on heap_ops (- sched_nodes) (nodes s) h1"
    using ready_delete_frame [of ?s0 rs bs "[]" ?t] lists t rest by auto
  let ?s1 = "set_state ?t THREAD_BLOCKED (?s0\<lparr>nodes := h1\<rparr>)"
  have "?t \<notin> set ([c] @ bs @ [])" using lists t c by (auto simp: thread_lists_def)
  then obtain h2 where h2: "k_insert ?s1 blocked_threads (TNode ?t) = Some (?s1\<lparr>nodes := h2\<rparr>)"
      "thread_lists h2 [c] (?t # bs) []" "same_on heap_ops (- sched_nodes) h1 h2"
    using blocked_insert [of ?s1 "[c]" bs "[]" ?t] h1(2) by auto
  let ?s2 = "?s1\<lparr>nodes := h2\<rparr>"
  have "schedule ?s2 = Some (Switched, dispatched c (disable_interrupts ?s2))"
    using h2(2) ready c(2) by (intro schedule_to_single) auto
  moreover have "disable_interrupts ?s2 = disable_interrupts ((set_state ?t THREAD_BLOCKED s)\<lparr>nodes := h2\<rparr>)"
    by (simp add: disable_interrupts_def set_state_def upd_thr_def)
  ultimately have "thread_block s = Some (Switched,
      dispatched c (disable_interrupts ((set_state ?t THREAD_BLOCKED s)\<lparr>nodes := h2\<rparr>)))"
    using h1(1) h2(1) run by (simp add: thread_block_def THREAD_CUR_def)
  then show ?thesis using h2(2) same_on_trans [OF h1(3) h2(3)] by blast
qed


section \<open>The end of a process\<close>

text \<open>Cleaning up the last thread of a process wakes the waiters of the process, takes it off the list
  of processes and frees both pages.\<close>

lemma same_on_disj: "same_on A (- S) h h' \<Longrightarrow> S \<inter> T = {} \<Longrightarrow> same_on A T h h'"
  by (erule same_on_sub) blast

definition proc_nodes :: "nref set" where
  "proc_nodes = range PNode \<union> {AllHead, AllTail}"

lemma proc_nodes_apart: "sched_nodes \<inter> proc_nodes = {}" "wake_nodes (proc_waiters p) \<inter> proc_nodes = {}"
  "wake_nodes (thread_waiters t) \<inter> proc_nodes = {}"
  by (auto simp: proc_nodes_def sched_nodes_def wake_nodes_def thread_waiters_def proc_waiters_def)

lemma all_procs_spine: "set (spine all_procs (map PNode ps)) \<subseteq> proc_nodes"
  by (auto simp: set_spine all_procs_def proc_nodes_def)

lemma all_procs_frame:
  "dll heap_ops h all_procs (map PNode ps) \<Longrightarrow> same_on heap_ops (- S) h h' \<Longrightarrow> S \<inter> proc_nodes = {} \<Longrightarrow>
     dll heap_ops h' all_procs (map PNode ps)"
  using all_procs_spine [of ps] by (blast intro: dll_frame)

lemma remove1_PNode [simp]: "remove1 (PNode t) (map PNode xs) = map PNode (remove1 t xs)"
  by (induction xs) auto

lemma all_procs_delete:
  assumes "dll heap_ops (nodes s) all_procs (map PNode ps)" and "p \<in> set ps"
    and "thread_lists (nodes s) rs bs ds"
  shows "\<exists>h. k_delete s all_procs (PNode p) = Some (Some (PNode p), s\<lparr>nodes := h\<rparr>) \<and>
     dll heap_ops h all_procs (map PNode (remove1 p ps)) \<and> thread_lists h rs bs ds \<and>
     same_on heap_ops (- proc_nodes) (nodes s) h"
proof -
  obtain h where h: "list_delete heap_ops (nodes s) all_procs (PNode p) = Some (Some (PNode p), h)"
      "dll heap_ops h all_procs (map PNode (remove1 p ps))"
      "same_on heap_ops (- set (spine all_procs (map PNode ps))) (nodes s) h"
    using hs.delete_dll [OF assms(1), of "PNode p"] assms(2) by (auto simp: Compl_eq_Diff_UNIV)
  have frame: "same_on heap_ops (- proc_nodes) (nodes s) h"
    using h(3) all_procs_spine [of ps] by (blast intro: same_on_sub)
  have "same_on heap_ops sched_nodes (nodes s) h"
    using frame proc_nodes_apart(1) by (blast intro: same_on_disj)
  with assms(3) have "thread_lists h rs bs ds" by (rule thread_lists_frame)
  then show ?thesis using h frame by (auto simp: k_delete_def)
qed

lemma thread_cleanup_last:
  assumes lists: "thread_lists (nodes s) rs bs ds"
    and t: "t \<noteq> 0" "t_state (thr s t) = THREAD_DYING" "t_proc (thr s t) = p" "p \<noteq> 0"
      "unat (child_num (thr s t)) < length (threads (prc s p))" "num_live_threads (prc s p) = 1"
    and ws: "dll heap_ops (nodes s) (proc_waiters p) (map TWaitNode ws)" "set ws \<subseteq> set bs"
      "\<forall>u\<in>set ws. t_state (thr s u) = THREAD_BLOCKED"
    and ps: "dll heap_ops (nodes s) all_procs (map PNode ps)" "p \<in> set ps"
    and free: "pfree (kmm s) p = Some (e1, k1)" "pfree_mult k1 t 1 = Some (e2, k2)"
  shows "\<exists>s'. thread_cleanup s t = Some (0, s') \<and> running s' = running s \<and> idle_t s' = idle_t s \<and> kmm s' = k2 \<and>
     thr s' = (\<lambda>u. if u \<in> set ws then (thr s u)\<lparr>wait_code := 0, t_state := THREAD_READY\<rparr> else thr s u) \<and>
     prc s' = (prc s)(p := (prc s p)\<lparr>threads := (threads (prc s p))[unat (child_num (thr s t)) := 0],
       num_live_threads := 0\<rparr>) \<and>
     thread_lists (nodes s') (rev ws @ rs) (filter (\<lambda>u. u \<notin> set ws) bs) ds \<and>
     dll heap_ops (nodes s') all_procs (map PNode (remove1 p ps))"
proof -
  let ?s1 = "upd_prc p (\<lambda>r. r\<lparr>threads := (threads (prc s p))[unat (child_num (thr s t)) := 0],
       num_live_threads := 0\<rparr>) s"
  have put: "arr_put (threads (prc s p)) (child_num (thr s t)) 0 =
      Some ((threads (prc s p))[unat (child_num (thr s t)) := 0])"
    using t(5) by (simp add: arr_put_def)
  obtain s2 r where s2: "proc_notify ?s1 p True 0 = Some (r, s2)" "woken ?s1 ws 0 s2"
      "same_on heap_ops (- wake_nodes (proc_waiters p)) (nodes ?s1) (nodes s2)"
      "thread_lists (nodes s2) (rev ws @ rs) (filter (\<lambda>u. u \<notin> set ws) bs) ds"
    using notify_waiters_wakes [of ?s1 rs bs ds "proc_waiters p" ws 0] lists ws
    by (auto simp: proc_notify_def)
  have "dll heap_ops (nodes s2) all_procs (map PNode ps)"
    using ps(1) s2(3) proc_nodes_apart(2) by (auto intro: all_procs_frame)
  then obtain h where h: "k_delete s2 all_procs (PNode p) = Some (Some (PNode p), s2\<lparr>nodes := h\<rparr>)"
      "dll heap_ops h all_procs (map PNode (remove1 p ps))"
      "thread_lists h (rev ws @ rs) (filter (\<lambda>u. u \<notin> set ws) bs) ds"
    using all_procs_delete [OF _ ps(2) s2(4)] by blast
  have up: "upd_prc p (\<lambda>r. r\<lparr>threads := (threads (prc s p))[unat (child_num (thr s t)) := 0],
       num_live_threads := num_live_threads r - 1\<rparr>) s = ?s1"
    using t(6) by (simp add: upd_prc_def)
  have "proc_cleanup ?s1 p = Some (s2\<lparr>nodes := h\<rparr>)"
    using t(4) s2(1) h(1) by (simp add: proc_cleanup_def)
  moreover have "kmm s2 = kmm s" using s2(2) by (simp add: woken_def)
  ultimately have "thread_cleanup s t = Some (0, s2\<lparr>nodes := h, kmm := k2\<rparr>)"
    using t free put up by (simp add: thread_cleanup_def get_thread_proc_def Let_def k_pfree_def)
  then show ?thesis using h(2,3) s2(2) by (auto simp: woken_def)
qed


lemma finish_dying:
  assumes lists: "thread_lists (nodes s) rs bs [d]" and "placed s t"
  shows "\<exists>h. finish_schedule (switch_threads s t) =
       do { (_, s') \<leftarrow> thread_cleanup ((disable_interrupts (dispatched t s))\<lparr>nodes := h\<rparr>) d; Some (enable_interrupts s') } \<and>
     thread_lists h rs bs [] \<and> same_on heap_ops (- sched_nodes) (nodes s) h"
proof -
  let ?s = "set_state t THREAD_RUNNING (switch_threads s t)"
  let ?d = "disable_interrupts (dispatched t s)"
  obtain h where h: "k_pop ?d dying_threads = Some (Some (TNode d), ?d\<lparr>nodes := h\<rparr>)" "thread_lists h rs bs []"
      "same_on heap_ops (- sched_nodes) (nodes s) h"
    using dying_pop [of ?d rs bs d "[]"] lists by auto
  have "\<not> list_isEmpty heap_ops (nodes s) dying_threads"
    using dll_isEmpty [of heap_ops "nodes s" dying_threads "[TNode d]"] lists by (simp add: thread_lists_def)
  moreover have "placed ?s t" using assms(2) by (simp add: placed_def)
  moreover have "disable_interrupts (upd_prc (t_proc (thr s t))
      (\<lambda>r. r\<lparr>active_thread := threads r ! unat (ucast (child_num (thr s t)) :: u8)\<rparr>) ?s) = ?d"
    by (simp add: dispatched_def disable_interrupts_def enable_interrupts_def Let_def upd_prc_def)
  ultimately have "finish_schedule (switch_threads s t) =
      do { (_, s') \<leftarrow> thread_cleanup (?d\<lparr>nodes := h\<rparr>) d; Some (enable_interrupts s') }"
    using proc_set_active_placed [of ?s t] h(1)
    by (simp add: finish_schedule_def THREAD_CUR_def PROC_CUR_def Let_def split_def)
  then show ?thesis using h(2,3) by blast
qed

lemma ready_size_empty: "thread_lists h [] bs ds \<Longrightarrow> list_size heap_ops h ready_threads = Some 0"
  using ready_size [of h "[]" bs ds] by simp

lemma ready_pop_empty: "thread_lists (nodes s) [] bs ds \<Longrightarrow> k_pop s ready_threads = Some (None, s)"
  using dll_isEmpty [of heap_ops "nodes s" ready_threads "[]"] by (simp add: k_pop_def list_pop_def thread_lists_def)

text \<open>The thread that exits with nobody else ready leaves the processor to \<open>idle\<close>, which frees it.\<close>

lemma schedule_last_dying:
  assumes lists: "thread_lists (nodes s) [] bs []" and t: "running s = t" "t_state (thr s t) = THREAD_DYING"
    and i: "idle_t s = i" "i \<in> set bs" "t_state (thr s i) = THREAD_BLOCKED" "placed s i" "t \<notin> set bs"
  shows "\<exists>h. schedule s = do { (_, s') \<leftarrow> thread_cleanup ((disable_interrupts (dispatched i s))\<lparr>nodes := h\<rparr>) t;
         Some (Switched, enable_interrupts s') } \<and>
     thread_lists h [i] (remove1 i bs) [] \<and> same_on heap_ops (- sched_nodes) (nodes s) h"
proof -
  let ?s0 = "disable_interrupts s"
  obtain h1 where h1: "thread_unblock ?s0 i = Some (enable_interrupts ((set_state i THREAD_READY s)\<lparr>nodes := h1\<rparr>))"
      "thread_lists h1 [i] (remove1 i bs) []" "same_on heap_ops (- sched_nodes) (nodes s) h1"
  proof -
    obtain s' where s': "thread_unblock ?s0 i = Some s'" "thread_lists (nodes s') [i] (remove1 i bs) []"
      "s' = ?s0\<lparr>nodes := nodes s', thr := (thr ?s0)(i := (thr ?s0 i)\<lparr>t_state := THREAD_READY\<rparr>), interrupts := True\<rparr>"
      "same_on heap_ops (- sched_nodes) (nodes ?s0) (nodes s')"
      using thread_unblock_blocked [of ?s0 "[]" bs "[]" i] lists i by auto
    have "s' = enable_interrupts ((set_state i THREAD_READY s)\<lparr>nodes := nodes s'\<rparr>)"
      by (subst s'(3)) (simp add: enable_interrupts_def disable_interrupts_def set_state_def upd_thr_def)
    then show ?thesis using that [of "nodes s'"] s'(1,2,4) by simp
  qed
  let ?s1 = "enable_interrupts ((set_state i THREAD_READY s)\<lparr>nodes := h1\<rparr>)"
  have ti: "t \<noteq> i" using i by auto
  have "t \<notin> set ([i] @ remove1 i bs @ [])" using ti i(5) set_remove1_subset [of i bs] by auto
  then obtain h2 where h2: "k_insert ?s1 dying_threads (TNode t) = Some (?s1\<lparr>nodes := h2\<rparr>)"
      "thread_lists h2 [i] (remove1 i bs) [t]" "same_on heap_ops (- sched_nodes) h1 h2"
    using dying_insert [of ?s1 "[i]" "remove1 i bs" "[]" t] h1(2) by auto
  let ?s2 = "?s1\<lparr>nodes := h2\<rparr>"
  have "placed ?s2 i" using i(4) by (simp add: placed_def)
  then obtain h where h: "finish_schedule (switch_threads ?s2 i) =
       do { (_, s') \<leftarrow> thread_cleanup ((disable_interrupts (dispatched i ?s2))\<lparr>nodes := h\<rparr>) t; Some (enable_interrupts s') }"
      "thread_lists h [i] (remove1 i bs) []" "same_on heap_ops (- sched_nodes) h2 h"
    using finish_dying [of ?s2 "[i]" "remove1 i bs" t i] h2(2) by auto
  have eq: "(disable_interrupts (dispatched i ?s2))\<lparr>nodes := h\<rparr> = (disable_interrupts (dispatched i s))\<lparr>nodes := h\<rparr>"
    using ti t(1) by (simp add: dispatched_def disable_interrupts_def enable_interrupts_def set_state_def upd_thr_def
        upd_prc_def Let_def switch_threads_def THREAD_CUR_def fun_upd_twist)
  have "schedule s = do { (_, s') \<leftarrow> thread_cleanup ((disable_interrupts (dispatched i s))\<lparr>nodes := h\<rparr>) t;
         Some (Switched, enable_interrupts s') }"
    using ready_size_empty [OF lists] ready_pop_empty [of ?s0 bs "[]"] lists h1(1) h2(1) h(1) t i(1) ti
    by (simp add: schedule_def Let_def THREAD_CUR_def eq split_def)
  moreover have "same_on heap_ops (- sched_nodes) (nodes s) h"
    using h1(3) h2(3) h(3) by (blast intro: same_on_trans)
  ultimately show ?thesis using h(2) by blast
qed


text \<open>\<open>lone s t p ws ps\<close>: the thread \<open>t\<close> runs and is the last of the process \<open>p\<close>; nobody waits for the
  thread, the threads \<open>ws\<close> wait for the process; the list of processes holds \<open>ps\<close>.\<close>

definition lone :: "kstate \<Rightarrow> u32 \<Rightarrow> u32 \<Rightarrow> u32 list \<Rightarrow> u32 list \<Rightarrow> bool" where
  "lone s t p ws ps \<longleftrightarrow> running s = t \<and> t \<noteq> 0 \<and> p \<noteq> 0 \<and> t_proc (thr s t) = p \<and>
     unat (child_num (thr s t)) < length (threads (prc s p)) \<and> num_live_threads (prc s p) = 1 \<and>
     dll heap_ops (nodes s) (thread_waiters t) [] \<and> dll heap_ops (nodes s) (proc_waiters p) (map TWaitNode ws) \<and>
     dll heap_ops (nodes s) all_procs (map PNode ps) \<and> p \<in> set ps"

text \<open>\<open>idling s bs\<close>: the idle thread is blocked and can be dispatched.\<close>

definition idling :: "kstate \<Rightarrow> u32 list \<Rightarrow> bool" where
  "idling s bs \<longleftrightarrow> idle_t s \<in> set bs \<and> placed s (idle_t s)"

lemma waiter_spines:
  "set (spine (proc_waiters p) (map TWaitNode ws)) \<inter> sched_nodes = {}"
  "set (spine (thread_waiters t) (map TWaitNode ws)) \<inter> sched_nodes = {}"
  by (auto simp: set_spine)

lemma lone_frame:
  assumes "lone s t p ws ps" and "same_on heap_ops (- sched_nodes) (nodes s) h"
  shows "dll heap_ops h (thread_waiters t) []" "dll heap_ops h (proc_waiters p) (map TWaitNode ws)"
    "dll heap_ops h all_procs (map PNode ps)"
proof -
  show "dll heap_ops h (thread_waiters t) []"
    using dll_frame [OF _ assms(2), of "thread_waiters t" "[]"] waiter_spines(2) [of t "[]"] assms(1)
    by (simp add: lone_def)
  show "dll heap_ops h (proc_waiters p) (map TWaitNode ws)"
    using dll_frame [OF _ assms(2) waiter_spines(1)] assms(1) by (simp add: lone_def)
  show "dll heap_ops h all_procs (map PNode ps)"
    using all_procs_frame [OF _ assms(2) proc_nodes_apart(1)] assms(1) by (simp add: lone_def)
qed

lemma exit_to_idle:
  assumes ok: "listed_ok s [t] bs" and l: "lone s t p ws ps" and idle: "idling s bs"
    and ws: "set ws \<subseteq> set bs - {idle_t s}" "\<forall>u\<in>set ws. placed s u"
    and free: "pfree (kmm s) p = Some (e1, k1)" "pfree_mult k1 t 1 = Some (e2, k2)"
  shows "\<exists>s'. thread_exit s r = Some (if r then Some 0 else None, Switched, s') \<and>
     running s' = idle_t s \<and> idle_t s' = idle_t s \<and> kmm s' = k2 \<and>
     listed_ok s' (rev ws @ [idle_t s]) (filter (\<lambda>u. u \<notin> set ws) (remove1 (idle_t s) bs)) \<and>
     num_live_threads (prc s' p) = 0 \<and> (\<forall>u\<in>set ws. wait_code (thr s' u) = 0) \<and>
     dll heap_ops (nodes s') all_procs (map PNode (remove1 p ps))"
proof -
  let ?i = "idle_t s" and ?s0 = "disable_interrupts s"
  have lists: "thread_lists (nodes s) [t] bs []" and run: "running s = t"
    and blocked: "\<And>u. u \<in> set bs \<Longrightarrow> t_state (thr s u) = THREAD_BLOCKED"
    using ok by (auto simp: listed_ok_def)
  have tb: "t \<notin> set bs" "distinct bs" using lists by (auto simp: thread_lists_def)
  have i: "?i \<in> set bs" "placed s ?i" "?i \<noteq> t" using idle tb by (auto simp: idling_def)
  obtain h1 where h1: "k_delete ?s0 ready_threads (TNode t) = Some (Some (TNode t), ?s0\<lparr>nodes := h1\<rparr>)"
      "thread_lists h1 [] bs []" "same_on heap_ops (- sched_nodes) (nodes s) h1"
    using ready_delete_frame [of ?s0 "[t]" bs "[]" t] lists by auto
  let ?s1 = "set_state t THREAD_DYING (?s0\<lparr>nodes := h1\<rparr>)"
  have "thread_notify ?s1 t True 0 = Some (-1, ?s1)"
    using waiters_empty [of ?s1 "thread_waiters t"] lone_frame(1) [OF l h1(3)]
    by (simp add: thread_notify_def notify_waiters_def)
  moreover obtain h2 where h2: "schedule ?s1 =
        do { (_, s') \<leftarrow> thread_cleanup ((disable_interrupts (dispatched ?i ?s1))\<lparr>nodes := h2\<rparr>) t;
             Some (Switched, enable_interrupts s') }"
      "thread_lists h2 [?i] (remove1 ?i bs) []" "same_on heap_ops (- sched_nodes) h1 h2"
  proof -
    have "placed ?s1 ?i" using i(2) by simp
    then show ?thesis
      using schedule_last_dying [of ?s1 bs t ?i] h1(2) run i blocked tb that by auto
  qed
  moreover have h: "same_on heap_ops (- sched_nodes) (nodes s) h2" using h1(3) h2(3) by (rule same_on_trans)
  let ?s2 = "(disable_interrupts (dispatched ?i ?s1))\<lparr>nodes := h2\<rparr>"
  have thr2: "thr ?s2 u = (if u = ?i then (thr s ?i)\<lparr>t_state := THREAD_RUNNING\<rparr> else thr s u)" if "u \<noteq> t" for u
    using i(3) run that by simp
  obtain s3 where s3: "thread_cleanup ?s2 t = Some (0, s3)" "running s3 = ?i" "idle_t s3 = ?i" "kmm s3 = k2"
      "thr s3 = (\<lambda>u. if u \<in> set ws then (thr ?s2 u)\<lparr>wait_code := 0, t_state := THREAD_READY\<rparr> else thr ?s2 u)"
      "prc s3 = (prc ?s2)(p := (prc ?s2 p)\<lparr>threads := (threads (prc ?s2 p))[unat (child_num (thr ?s2 t)) := 0],
         num_live_threads := 0\<rparr>)"
      "thread_lists (nodes s3) (rev ws @ [?i]) (filter (\<lambda>u. u \<notin> set ws) (remove1 ?i bs)) []"
      "dll heap_ops (nodes s3) all_procs (map PNode (remove1 p ps))"
  proof -
    have "set ws \<subseteq> set (remove1 ?i bs)" using ws(1) tb(2) by auto
    moreover have "\<forall>u\<in>set ws. t_state (thr ?s2 u) = THREAD_BLOCKED"
      using ws(1) blocked tb(1) by (auto simp: thr2)
    ultimately show ?thesis
      using thread_cleanup_last [of ?s2 "[?i]" "remove1 ?i bs" "[]" t p ws ps e1 k1 e2 k2]
        h2(2) l lone_frame(2,3) [OF l h] free i(3) that by (auto simp: lone_def)
  qed
  have "thread_exit s r = Some (if r then Some 0 else None, Switched, enable_interrupts s3)"
    using h1(1) run calculation s3(1)
    by (simp add: thread_exit_def thread_yield_def THREAD_CUR_def Let_def)
  moreover have "placed s3 u" if "placed s u" for u
    using that s3(5,6) by (auto simp: placed_def)
  then have pl: "\<forall>u\<in>set (rev ws @ [?i]). placed (enable_interrupts s3) u"
    using ws(2) i(2) by (auto simp: placed_def)
  have iw: "?i \<notin> set ws" using ws(1) by auto
  have tws: "u \<noteq> t" if "u \<in> set ws" for u using that ws(1) tb(1) by auto
  have st: "t_state (thr s3 ?i) = THREAD_RUNNING" "\<And>u. u \<in> set ws \<Longrightarrow> t_state (thr s3 u) = THREAD_READY"
    "\<And>u. u \<notin> set ws \<Longrightarrow> u \<noteq> t \<Longrightarrow> u \<noteq> ?i \<Longrightarrow> t_state (thr s3 u) = t_state (thr s u)"
    using iw tws i(3) by (simp_all add: s3(5) thr2)
  have "t_state (thr s3 u) = THREAD_BLOCKED" if "u \<in> set (filter (\<lambda>u. u \<notin> set ws) (remove1 ?i bs))" for u
  proof -
    have "u \<in> set bs" "u \<notin> set ws" "u \<noteq> ?i" using that tb(2) by auto
    then show ?thesis using st(3) [of u] blocked [of u] tb(1) by auto
  qed
  then have "listed_ok (enable_interrupts s3) (rev ws @ [?i]) (filter (\<lambda>u. u \<notin> set ws) (remove1 ?i bs))"
    unfolding listed_ok_def using s3(2,7) pl st(1,2) by simp
  ultimately show ?thesis using s3 by auto
qed


section \<open>Ticks of a lone thread\<close>

text \<open>Timer interrupts one after the other, with nothing in between.\<close>

fun k_ticks :: "nat \<Rightarrow> kstate \<Rightarrow> kstate option" where
  "k_ticks 0 s = Some s"
| "k_ticks (Suc n) s = do { (_, s) \<leftarrow> timer_interrupt_handler s; k_ticks n s }"

text \<open>\<open>solo h t\<close>: the ready list is \<open>t\<close> alone, up to the back link of \<open>t\<close>.\<close>

definition solo :: "nref heap \<Rightarrow> u32 \<Rightarrow> bool" where
  "solo h t \<longleftrightarrow> n_next (h ReadyHead) = Some (TNode t) \<and> n_next (h (TNode t)) = Some ReadyTail \<and>
     n_next (h ReadyTail) = None \<and> n_prev (h ReadyTail) = Some (TNode t) \<and> n_prev (h ReadyHead) = None"

lemma thread_lists_solo: "thread_lists h [t] bs ds \<Longrightarrow> solo h t"
  by (simp add: thread_lists_def dll_def spine_def solo_def)

lemma solo_size: "solo h t \<Longrightarrow> list_size heap_ops h ready_threads = Some 1"
  by (simp add: solo_def list_size_def list_count.simps list_hasNext_def)

text \<open>\<open>schedule\<close> puts the only thread of the ready list behind itself: its back link is then a loop.\<close>

definition self_linked :: "nref heap \<Rightarrow> u32 \<Rightarrow> nref heap" where
  "self_linked h t = h(TNode t := \<lparr>n_next = Some ReadyTail, n_prev = Some (TNode t)\<rparr>)"

lemma solo_insert_end:
  assumes "solo (nodes s) t"
  shows "k_insert_end s ready_threads (TNode t) = Some (s\<lparr>nodes := self_linked (nodes s) t\<rparr>)"
proof -
  have "list_insert_end heap_ops (nodes s) ReadyTail (TNode t) = Some (self_linked (nodes s) t)"
    using assms by (simp add: list_insert_end_def solo_def self_linked_def fun_eq_iff)
  then show ?thesis by (simp add: k_insert_end_def)
qed

lemma schedule_solo:
  assumes "solo (nodes s) t" and "running s = t" and "t_state (thr s t) = THREAD_RUNNING"
  shows "schedule s = Some (Returns (), s\<lparr>nodes := self_linked (nodes s) t, interrupts := True\<rparr>)"
proof -
  let ?s = "set_state t THREAD_READY (disable_interrupts s)"
  have ins: "k_insert_end ?s ready_threads (TNode t) = Some (?s\<lparr>nodes := self_linked (nodes s) t\<rparr>)"
    using solo_insert_end [of ?s t] assms(1) by simp
  have "thr s = (thr s)(t := (thr s t)\<lparr>t_state := THREAD_RUNNING\<rparr>)" using assms(3) by (simp add: fun_eq_iff)
  then have "enable_interrupts (set_state t THREAD_RUNNING (?s\<lparr>nodes := self_linked (nodes s) t\<rparr>)) =
      s\<lparr>nodes := self_linked (nodes s) t, interrupts := True\<rparr>"
    by (simp add: set_state_def upd_thr_def enable_interrupts_def disable_interrupts_def)
  moreover have "n_next (nodes s ReadyHead) = Some (TNode t)" using assms(1) by (simp add: solo_def)
  ultimately show ?thesis
    using solo_size [OF assms(1)] assms(2,3) ins by (simp add: schedule_def Let_def THREAD_CUR_def)
qed

definition ticked :: "nat \<Rightarrow> kstate \<Rightarrow> kstate" where
  "ticked n s = upd_thr (running s) (\<lambda>r. r\<lparr>ticks := ticks r + of_nat n\<rparr>) (s\<lparr>thread_ticks := thread_ticks s + of_nat n\<rparr>)"

lemma ticked_simps [simp]:
  "nodes (ticked n s) = nodes s" "running (ticked n s) = running s" "prc (ticked n s) = prc s"
  "kmm (ticked n s) = kmm s" "idle_t (ticked n s) = idle_t s"
  "t_state (thr (ticked n s) u) = t_state (thr s u)" "t_proc (thr (ticked n s) u) = t_proc (thr s u)"
  "child_num (thr (ticked n s) u) = child_num (thr s u)" "placed (ticked n s) u = placed s u"
  "thread_ticks (ticked n s) = thread_ticks s + of_nat n"
  by (simp_all add: ticked_def placed_def)

lemma ticked_0 [simp]: "ticked 0 s = s"
  by (simp add: ticked_def upd_thr_def)

lemma ticked_ticked: "ticked n (ticked (Suc 0) s) = ticked (Suc n) s"
  by (simp add: ticked_def upd_thr_def add.commute add.left_commute)

lemma tick_returns:
  "(unat (thread_ticks s) + 1) mod 8 \<noteq> 0 \<Longrightarrow> timer_interrupt_handler s = Some (Returns (), ticked (Suc 0) s)"
  by (simp add: timer_interrupt_handler_def Let_def THREAD_CUR_def tick_mod ticked_def)

lemma tick_schedules:
  "(unat (thread_ticks s) + 1) mod 8 = 0 \<Longrightarrow> timer_interrupt_handler s = schedule (ticked (Suc 0) s)"
  by (simp add: timer_interrupt_handler_def Let_def THREAD_CUR_def tick_mod ticked_def)

lemma unat_ticked: "unat (thread_ticks (ticked (Suc 0) s)) mod 8 = (unat (thread_ticks s) + 1) mod 8"
  using unat_tick by simp

text \<open>Within its slice a thread is not disturbed, whatever the lists are.\<close>

lemma ticks_in_slice:
  "unat (thread_ticks s) mod 8 + n < 8 \<Longrightarrow> k_ticks n s = Some (ticked n s)"
proof (induction n arbitrary: s)
  case (Suc n)
  have m: "(unat (thread_ticks s) + 1) mod 8 = unat (thread_ticks s) mod 8 + 1"
    using Suc.prems by (simp add: mod_Suc)
  then have "unat (thread_ticks (ticked (Suc 0) s)) mod 8 + n < 8" using Suc.prems unat_ticked [of s] by simp
  from Suc.IH [OF this] show ?case using tick_returns [of s] m by (simp add: ticked_ticked)
qed simp

text \<open>Beyond it the lone thread runs on, linked to itself.\<close>

lemma solo_self_linked [simp]: "solo (self_linked h t) t = (n_next (h ReadyHead) = Some (TNode t) \<and>
    n_next (h ReadyTail) = None \<and> n_prev (h ReadyTail) = Some (TNode t) \<and> n_prev (h ReadyHead) = None)"
  by (auto simp: solo_def self_linked_def)

lemma self_linked_frame: "same_on heap_ops (- sched_nodes) h (self_linked h t)"
  by (auto simp: same_on_def self_linked_def sched_nodes_def)

lemma self_linked_twice [simp]: "self_linked (self_linked h t) t = self_linked h t"
  by (simp add: self_linked_def)

lemma ticks_solo:
  assumes "solo (nodes s) t" and "running s = t" and "t_state (thr s t) = THREAD_RUNNING"
  shows "\<exists>s'. k_ticks n s = Some s' \<and> running s' = t \<and> t_state (thr s' t) = THREAD_RUNNING \<and>
     nodes s' = (if unat (thread_ticks s) mod 8 + n < 8 then nodes s else self_linked (nodes s) t)"
  using assms
proof (induction n arbitrary: s)
  case (Suc n)
  let ?m = "unat (thread_ticks s) mod 8"
  have h: "self_linked (nodes s) t = nodes s" if "nodes s = self_linked h t" for h using that by simp
  show ?case
  proof (cases "(unat (thread_ticks s) + 1) mod 8 = 0")
    case False
    then have m: "(unat (thread_ticks s) + 1) mod 8 = ?m + 1" by (simp add: mod_Suc split: if_splits)
    then show ?thesis
      using Suc.IH [of "ticked (Suc 0) s"] Suc.prems tick_returns [OF False] unat_ticked [of s]
      by (simp split: if_split_asm)
  next
    case True
    then have m: "?m = 7" "unat (thread_ticks (ticked (Suc 0) s)) mod 8 = 0"
      using unat_ticked [of s] by (simp_all add: mod_Suc split: if_splits)
    let ?s = "(ticked (Suc 0) s)\<lparr>nodes := self_linked (nodes s) t, interrupts := True\<rparr>"
    have step: "timer_interrupt_handler s = Some (Returns (), ?s)"
      using tick_schedules [OF True] schedule_solo [of "ticked (Suc 0) s" t] Suc.prems by simp
    have "solo (nodes ?s) t" using Suc.prems(1) by (simp add: solo_def self_linked_def)
    from Suc.IH [of ?s, OF this] Suc.prems(2,3) step m(1) show ?thesis by (simp split: if_splits)
  qed
qed simp

text \<open>A deletion of the self-linked thread clears its links, but the head of the list keeps pointing to
  it; the next \<open>schedule\<close> follows the cleared links.\<close>

lemma delete_self_linked:
  assumes "solo h t"
  shows "list_delete heap_ops (self_linked h t) ready_threads (TNode t) =
     Some (Some (TNode t), h(TNode t := \<lparr>n_next = None, n_prev = None\<rparr>))"
proof -
  have "list_seek heap_ops (self_linked h t) (Some ReadyHead) (TNode t) = Some (Some (TNode t))"
    using assms by (simp add: list_seek_step solo_def self_linked_def)
  then show ?thesis
    using assms by (simp add: list_delete_def Let_def self_linked_def solo_def fun_eq_iff)
qed

lemma exit_self_linked:
  assumes s: "nodes s = self_linked h t" "solo h t" "running s = t"
    and w: "dll heap_ops h (thread_waiters t) []"
  shows "thread_exit s r = None"
proof -
  let ?h = "h(TNode t := \<lparr>n_next = None, n_prev = None\<rparr>)"
  let ?s1 = "set_state t THREAD_DYING ((disable_interrupts s)\<lparr>nodes := ?h\<rparr>)"
  have del: "k_delete (disable_interrupts s) ready_threads (TNode t) =
      Some (Some (TNode t), (disable_interrupts s)\<lparr>nodes := ?h\<rparr>)"
    using delete_self_linked [OF s(2)] s(1) by (simp add: k_delete_def)
  have "dll heap_ops ?h (thread_waiters t) []"
    using w by (rule dll_same) (simp add: same_on_def spine_def)
  then have notify: "thread_notify ?s1 t True 0 = Some (-1, ?s1)"
    using waiters_empty [of ?s1 "thread_waiters t"] by (simp add: thread_notify_def notify_waiters_def)
  have size: "list_size heap_ops ?h ready_threads = Some 0"
    using s(2) by (simp add: solo_def list_size_def list_count.simps list_hasNext_def)
  have pop: "list_pop heap_ops ?h ready_threads = None"
    using s(2) by (simp add: solo_def list_pop_def list_isEmpty_def list_delete_def list_seek_step)
  have "schedule ?s1 = None" using size pop by (simp add: schedule_def k_pop_def Let_def)
  then show ?thesis using del notify s(3) by (simp add: thread_exit_def thread_yield_def THREAD_CUR_def Let_def)
qed


section \<open>Leaving the last ready thread\<close>

lemma listed_ticked [simp]: "listed_ok (ticked n s) rs bs = listed_ok s rs bs"
  by (simp add: listed_ok_def)

lemma lone_ticked [simp]: "lone (ticked n s) t p ws ps = lone s t p ws ps"
  by (simp add: lone_def)

text \<open>\<open>holds_pages k p t\<close>: the addresses \<open>p\<close> and \<open>t\<close> are two allocated pages, not the last of the map.\<close>

definition used_page :: "u32 kalloc \<Rightarrow> u32 \<Rightarrow> bool" where
  "used_page k a \<longleftrightarrow> (\<exists>i. a = page_addr i \<and> i < 2 ^ 19 \<and> i + 1 < unat (bits (free_map k)) \<and> page_used k (of_nat i))"

definition holds_pages :: "u32 kalloc \<Rightarrow> u32 \<Rightarrow> u32 \<Rightarrow> bool" where
  "holds_pages k p t \<longleftrightarrow> lval (palloc_lock k) = 0 \<and> used_page k p \<and> used_page k t \<and> page_idx p \<noteq> page_idx t"

lemma free_used_page:
  assumes "lval (palloc_lock k) = 0" and "used_page k a"
  shows "\<exists>e k'. pfree_mult k a 1 = Some (e, k') \<and> lval (palloc_lock k') = 0 \<and> free_map k' = free_map k \<and>
     (\<forall>x. page_used k' x = (page_used k x \<and> x \<noteq> page_idx a))"
proof -
  obtain i where i: "a = page_addr i" "i < 2 ^ 19" "i + 1 < unat (bits (free_map k))" "page_used k (of_nat i)"
    using assms(2) by (auto simp: used_page_def)
  have "bit_run (kmem k) (free_map k) True i (unat 1)"
    using i(4) by (auto simp: bit_run_def page_used_def less_Suc_eq_le dest!: le_antisym)
  then obtain m where m: "pfree_mult k a 1 = Some (if i = 0 then SUCC else - MEM_FREE_FAIL, k\<lparr>kmem := m\<rparr>)"
      "\<And>x. page_used (k\<lparr>kmem := m\<rparr>) x = (page_used k x \<and> \<not> (i \<le> unat x \<and> unat x < i + 1))"
    using pfree_mult_run [of k i 1] assms(1) i(1-3) by auto
  have u: "unat (of_nat i :: u32) = i" using i(2) by (intro unat_of_nat_u32) simp
  have "(i \<le> unat x \<and> unat x < i + 1) = (x = page_idx a)" for x
    unfolding i(1) page_idx_addr [OF i(2)] word_unat_eq_iff u by auto
  then show ?thesis using m assms(1) by auto
qed

lemma free_two_pages:
  assumes "holds_pages k p t"
  shows "\<exists>e1 k1 e2 k2. pfree k p = Some (e1, k1) \<and> pfree_mult k1 t 1 = Some (e2, k2) \<and>
     (\<forall>x. page_used k2 x = (page_used k x \<and> x \<noteq> page_idx p \<and> x \<noteq> page_idx t))"
proof -
  have k: "lval (palloc_lock k) = 0" "used_page k p" "used_page k t" "page_idx p \<noteq> page_idx t"
    using assms by (simp_all add: holds_pages_def)
  obtain e1 k1 where k1: "pfree_mult k p 1 = Some (e1, k1)" "lval (palloc_lock k1) = 0" "free_map k1 = free_map k"
      "\<And>x. page_used k1 x = (page_used k x \<and> x \<noteq> page_idx p)"
    using free_used_page [OF k(1,2)] by auto
  have "used_page k1 t"
    using k(3,4) by (auto simp: used_page_def k1(3,4) page_idx_addr)
  then obtain e2 k2 where "pfree_mult k1 t 1 = Some (e2, k2)" "\<And>x. page_used k2 x = (page_used k1 x \<and> x \<noteq> page_idx t)"
    using free_used_page [OF k1(2)] by blast
  then show ?thesis using k1(1,4) by (auto simp: pfree_def)
qed

text \<open>C35: The end of the only thread that is ready, after \<open>n\<close> ticks of the timer.  Within its first slice the
  exit works: it wakes the waiters of the process and frees the pages of the process and of the
  thread, and the idle thread takes over, with all links of the lists in order.  Once its slice was renewed, and
  so the thread put behind itself in the ready list, the same exit follows a NULL link.\<close>

theorem lone_thread_exit:
  assumes "listed_ok s [t] bs" and "lone s t p ws ps" and "idling s bs" and "holds_pages (kmm s) p t"
    and "set ws \<subseteq> set bs - {idle_t s}" and "\<forall>u\<in>set ws. placed s u"
  shows "\<exists>s1. k_ticks n s = Some s1 \<and> running s1 = t \<and>
     (if unat (thread_ticks s) mod 8 + n < 8
      then \<exists>s2. thread_exit s1 r = Some (if r then Some 0 else None, Switched, s2) \<and> running s2 = idle_t s \<and>
        listed_ok s2 (rev ws @ [idle_t s]) (filter (\<lambda>u. u \<notin> set ws) (remove1 (idle_t s) bs)) \<and>
        (\<forall>x. page_used (kmm s2) x = (page_used (kmm s) x \<and> x \<noteq> page_idx p \<and> x \<noteq> page_idx t))
      else thread_exit s1 r = None)"
proof -
  obtain e1 k1 e2 k2 where free: "pfree (kmm s) p = Some (e1, k1)" "pfree_mult k1 t 1 = Some (e2, k2)"
      "\<forall>x. page_used k2 x = (page_used (kmm s) x \<and> x \<noteq> page_idx p \<and> x \<noteq> page_idx t)"
    using free_two_pages [OF assms(4)] by auto
  have run: "running s = t" "t_state (thr s t) = THREAD_RUNNING" "solo (nodes s) t"
    using assms(1) by (auto simp: listed_ok_def intro: thread_lists_solo)
  obtain s1 where s1: "k_ticks n s = Some s1" "running s1 = t"
      "nodes s1 = (if unat (thread_ticks s) mod 8 + n < 8 then nodes s else self_linked (nodes s) t)"
    using ticks_solo [OF run(3,1,2), of n] by auto
  show ?thesis
  proof (cases "unat (thread_ticks s) mod 8 + n < 8")
    case True
    then have "s1 = ticked n s" using ticks_in_slice [OF True] s1(1) by simp
    moreover have "listed_ok (ticked n s) [t] bs" "lone (ticked n s) t p ws ps" "idling (ticked n s) bs"
      using assms(1-3) by (simp_all add: idling_def)
    from exit_to_idle [OF this, of e1 k1 e2 k2 r] have "\<exists>s2. thread_exit (ticked n s) r =
        Some (if r then Some 0 else None, Switched, s2) \<and> running s2 = idle_t s \<and> kmm s2 = k2 \<and>
        listed_ok s2 (rev ws @ [idle_t s]) (filter (\<lambda>u. u \<notin> set ws) (remove1 (idle_t s) bs))"
      using assms(5,6) free(1,2) by auto
    ultimately show ?thesis using s1(1,2) free(3) True by auto
  next
    case False
    then have "thread_exit s1 r = None"
      using exit_self_linked [of s1 "nodes s" t r] s1(2,3) run(3) assms(2) by (simp add: lone_def)
    then show ?thesis using s1(1,2) False by auto
  qed
qed


text \<open>The thread 0x402000 of the process 0x401000 runs alone, in the first half of its slice; the shell 0x1000
  waits for the process; the idle thread is 0x4000.\<close>

definition demo_pages :: "u32 kalloc" where
  "demo_pages = \<lparr>kmem = (\<lambda>_. 6), free_map = \<lparr>map_p = start_addr, bits = 20\<rparr>,
     malloc_lock = \<lparr>lval = 0, owner = None\<rparr>, palloc_lock = \<lparr>lval = 0, owner = None\<rparr>,
     allocations = \<lparr>head = 8192, tail = 8200\<rparr>,
     default_slab = \<lparr>smem = 0, mem_size = 0, free_mem_size = 0, slab_size = 64, sdata = 0\<rparr>\<rparr>"

definition solo_nodes :: "nref heap" where
  "solo_nodes = (\<lambda>_. \<lparr>n_next = None, n_prev = None\<rparr>)
     (ReadyHead := \<lparr>n_next = Some (TNode 0x402000), n_prev = None\<rparr>,
      TNode 0x402000 := \<lparr>n_next = Some ReadyTail, n_prev = Some ReadyHead\<rparr>,
      ReadyTail := \<lparr>n_next = None, n_prev = Some (TNode 0x402000)\<rparr>,
      BlockedHead := \<lparr>n_next = Some (TNode 0x1000), n_prev = None\<rparr>,
      TNode 0x1000 := \<lparr>n_next = Some (TNode 0x4000), n_prev = Some BlockedHead\<rparr>,
      TNode 0x4000 := \<lparr>n_next = Some BlockedTail, n_prev = Some (TNode 0x1000)\<rparr>,
      BlockedTail := \<lparr>n_next = None, n_prev = Some (TNode 0x4000)\<rparr>,
      DyingHead := \<lparr>n_next = Some DyingTail, n_prev = None\<rparr>,
      DyingTail := \<lparr>n_next = None, n_prev = Some DyingHead\<rparr>,
      TWaitersHead 0x402000 := \<lparr>n_next = Some (TWaitersTail 0x402000), n_prev = None\<rparr>,
      TWaitersTail 0x402000 := \<lparr>n_next = None, n_prev = Some (TWaitersHead 0x402000)\<rparr>,
      PWaitersHead 0x401000 := \<lparr>n_next = Some (TWaitNode 0x1000), n_prev = None\<rparr>,
      TWaitNode 0x1000 := \<lparr>n_next = Some (PWaitersTail 0x401000), n_prev = Some (PWaitersHead 0x401000)\<rparr>,
      PWaitersTail 0x401000 := \<lparr>n_next = None, n_prev = Some (TWaitNode 0x1000)\<rparr>,
      AllHead := \<lparr>n_next = Some (PNode 0x401000), n_prev = None\<rparr>,
      PNode 0x401000 := \<lparr>n_next = Some AllTail, n_prev = Some AllHead\<rparr>,
      AllTail := \<lparr>n_next = None, n_prev = Some (PNode 0x401000)\<rparr>)"

definition demo_lone :: kstate where
  "demo_lone = demo_state\<lparr>nodes := solo_nodes,
     thr := (\<lambda>_. demo_thread THREAD_BLOCKED 1)(0x402000 := (demo_thread THREAD_RUNNING 0)\<lparr>t_proc := 0x401000\<rparr>),
     prc := (\<lambda>_. demo_process\<lparr>num_live_threads := 1\<rparr>), running := 0x402000, kmm := demo_pages\<rparr>"

lemma demo_pages_held: "holds_pages demo_pages 0x401000 0x402000"
proof -
  have a: "0x401000 = page_addr 1" "0x402000 = page_addr 2" by (simp_all add: page_addr_def)
  have "page_used demo_pages 1" "page_used demo_pages 2"
    by (simp_all add: page_used_def bitmap_test_def demo_pages_def bit_mask_def)
  moreover have "bits (free_map demo_pages) = 20" by (simp add: demo_pages_def)
  ultimately have "used_page demo_pages (page_addr 1)" "used_page demo_pages (page_addr 2)"
    using used_page_def [of demo_pages "page_addr 1"] used_page_def [of demo_pages "page_addr 2"]
    by (auto intro: exI [of _ 1] exI [of _ 2])
  moreover have "page_idx (page_addr 1) = of_nat 1" "page_idx (page_addr 2) = of_nat 2"
    by (simp_all add: page_idx_addr)
  ultimately show ?thesis unfolding holds_pages_def a by (simp add: demo_pages_def)
qed

lemma solo_nodes_lists:
  "thread_lists solo_nodes [0x402000] [0x1000, 0x4000] []" "dll heap_ops solo_nodes (thread_waiters 0x402000) []"
  "dll heap_ops solo_nodes (proc_waiters 0x401000) [TWaitNode 0x1000]" "dll heap_ops solo_nodes all_procs [PNode 0x401000]"
  by (simp_all add: thread_lists_def dll_def spine_def solo_nodes_def thread_waiters_def proc_waiters_def all_procs_def)

lemma demo_lone_ok:
  "listed_ok demo_lone [0x402000] [0x1000, 0x4000]" "lone demo_lone 0x402000 0x401000 [0x1000] [0x401000]"
  "idling demo_lone [0x1000, 0x4000]"
  using solo_nodes_lists
  by (simp_all add: listed_ok_def lone_def idling_def demo_lone_def placed_def demo_state_def demo_thread_def
      demo_process_def)

theorem lone_thread_exit_witness:
  "(\<exists>s1 s2. k_ticks 7 demo_lone = Some s1 \<and> thread_exit s1 False = Some (None, Switched, s2) \<and> running s2 = 0x4000 \<and>
      listed_ok s2 [0x1000, 0x4000] []) \<and>
   (\<exists>s1. k_ticks 8 demo_lone = Some s1 \<and> running s1 = 0x402000 \<and> thread_exit s1 False = None)"
proof -
  have h: "holds_pages (kmm demo_lone) 0x401000 0x402000" "set [0x1000] \<subseteq> set [0x1000, 0x4000] - {idle_t demo_lone}"
    "\<forall>u\<in>set [0x1000]. placed demo_lone u" "unat (thread_ticks demo_lone) mod 8 = 0" "idle_t demo_lone = 0x4000"
    using demo_pages_held
    by (simp_all add: demo_lone_def placed_def demo_state_def demo_thread_def demo_process_def)
  note e = lone_thread_exit [OF demo_lone_ok h(1-3)]
  show ?thesis
  proof
    show "\<exists>s1 s2. k_ticks 7 demo_lone = Some s1 \<and> thread_exit s1 False = Some (None, Switched, s2) \<and> running s2 = 0x4000 \<and>
      listed_ok s2 [0x1000, 0x4000] []" using e [of 7 False] h(4,5) by auto
    show "\<exists>s1. k_ticks 8 demo_lone = Some s1 \<and> running s1 = 0x402000 \<and> thread_exit s1 False = None"
      using e [of 8 False] h(4) by auto
  qed
qed

section \<open>A command from its start to its end\<close>

text \<open>\<open>waiting_for s sh p c ps bs\<close>: what the shell leaves when it has created the process \<open>p\<close> of a command
  with its thread \<open>c\<close> and calls \<open>proc_wait\<close>: it runs, itself in the ready list behind \<open>c\<close>.\<close>

definition waiting_for :: "kstate \<Rightarrow> u32 \<Rightarrow> u32 \<Rightarrow> u32 \<Rightarrow> u32 list \<Rightarrow> u32 list \<Rightarrow> bool" where
  "waiting_for s sh p c ps bs \<longleftrightarrow> listed_ok s [c, sh] bs \<and> running s = sh \<and> lone (s\<lparr>running := c\<rparr>) c p [] ps \<and>
     idling s bs \<and> holds_pages (kmm s) p c"

lemma thread_lists_waitnode:
  assumes "thread_lists h rs bs ds" and "same_on heap_ops (- insert (TWaitNode t) (set (spine l ws))) h h'"
    and "set (spine l ws) \<inter> sched_nodes = {}"
  shows "thread_lists h' rs bs ds"
proof -
  have "insert (TWaitNode t) (set (spine l ws)) \<inter> sched_nodes = {}" using assms(3) by auto
  then show ?thesis using assms(1,2) by (blast intro: thread_lists_frame same_on_disj)
qed

lemma proc_wait_blocks:
  assumes "waiting_for s sh p c ps bs"
  shows "\<exists>s'. proc_wait s p = Some (Switched, s') \<and> running s' = c \<and> t_state (thr s' sh) = THREAD_BLOCKED \<and>
     listed_ok s' [c] (sh # bs) \<and> lone s' c p [sh] ps \<and> idling s' (sh # bs) \<and> idle_t s' = idle_t s \<and>
     kmm s' = kmm s \<and> thread_ticks s' = thread_ticks s \<and> placed s' sh \<and> t_frame (thr s' c) = t_frame (thr s c)"
proof -
  let ?l = "proc_waiters p" and ?n = "TWaitNode sh"
  have ok: "listed_ok s [c, sh] bs" and run: "running s = sh"
    and l: "lone (s\<lparr>running := c\<rparr>) c p [] ps" and idle: "idling s bs"
    using assms by (auto simp: waiting_for_def)
  have lists: "thread_lists (nodes s) [c, sh] bs []" using ok by (simp add: listed_ok_def)
  have d: "dll heap_ops (nodes s) ?l []" using l by (simp add: lone_def)
  obtain h where h: "list_insert_front heap_ops (nodes s) (head ?l) ?n = Some h"
      "dll heap_ops h ?l [?n]" "same_on heap_ops (- insert ?n (set (spine ?l []))) (nodes s) h"
    using hs.insert_front_dll [OF d, of ?n] by (auto simp: set_spine Compl_eq_Diff_UNIV)
  let ?s1 = "s\<lparr>nodes := h\<rparr>"
  have ins: "k_insert s ?l ?n = Some ?s1" using h(1) by (simp add: k_insert_def list_insert_def)
  have "set (spine ?l []) \<inter> sched_nodes = {}" by (simp add: set_spine)
  with lists h(3) have lists1: "thread_lists h [c, sh] bs []" by (rule thread_lists_waitnode)
  have "dll heap_ops h (thread_waiters c) []"
    using l h(3) by (intro dll_frame [OF _ h(3)]) (auto simp: lone_def set_spine thread_waiters_def proc_waiters_def)
  moreover have "dll heap_ops h all_procs (map PNode ps)"
    using l by (intro all_procs_frame [OF _ h(3)]) (auto simp: lone_def set_spine proc_nodes_def proc_waiters_def)
  ultimately have l1: "lone (?s1\<lparr>running := c\<rparr>) c p [sh] ps"
    using l h(2) by (auto simp: lone_def)
  have ok1: "listed_ok ?s1 [c, sh] bs" using ok lists1 by (auto simp: listed_ok_def)
  have cs: "c \<noteq> sh" "sh \<notin> set bs" "c \<notin> set bs" using lists by (auto simp: thread_lists_def)
  obtain h2 where h2: "thread_block ?s1 = Some (Switched,
        dispatched c (disable_interrupts ((set_state sh THREAD_BLOCKED ?s1)\<lparr>nodes := h2\<rparr>)))"
      "thread_lists h2 [c] (sh # bs) []" "same_on heap_ops (- sched_nodes) h h2"
    using block_to_single [OF ok1, of c] run cs(1) by auto
  let ?s2 = "dispatched c (disable_interrupts ((set_state sh THREAD_BLOCKED ?s1)\<lparr>nodes := h2\<rparr>))"
  have wait: "proc_wait s p = Some (Switched, ?s2)"
    using l ins h2(1) run by (simp add: proc_wait_def lone_def THREAD_CUR_def)
  have "listed_ok ?s2 [c] (sh # bs)"
    using ok h2(2) run cs by (auto simp: listed_ok_def placed_def)
  moreover have "lone ?s2 c p [sh] ps"
    using l1 lone_frame [OF l1, of h2] h2(3) cs(1) by (simp add: lone_def)
  moreover have "idling ?s2 (sh # bs)" using idle by (auto simp: idling_def placed_def)
  moreover have "placed ?s2 sh" using ok by (auto simp: listed_ok_def placed_def)
  moreover have "t_frame (thr ?s2 c) = t_frame (thr s c)" using cs(1) run by simp
  ultimately show ?thesis using wait cs(1) by (intro exI [of _ ?s2]) simp
qed

text \<open>A command of the shell that ends within its first slice.  \<open>proc_wait\<close> really blocks the shell here,
  which is still in the ready list, and gives the processor to the command; the timer does not
  disturb it; when its thread exits, the idle thread takes over, wakes the shell and frees both
  pages, and the next round of \<open>idle\<close> gives the processor back to the shell: it runs alone as
  before, the command has left the list of processes, and only its two pages are free.\<close>

lemma command_lifecycle_steps:
  assumes "waiting_for s sh p c ps bs" and "unat (thread_ticks s) mod 8 + n < 8"
  shows "\<exists>s1 s2 s3 s4. proc_wait s p = Some (Switched, s1) \<and> running s1 = c \<and> t_state (thr s1 sh) = THREAD_BLOCKED \<and>
     t_frame (thr s1 c) = t_frame (thr s c) \<and> k_ticks n s1 = Some s2 \<and>
     thread_exit s2 False = Some (None, Switched, s3) \<and> running s3 = idle_t s \<and>
     idle_round s3 = Some (Switched, s4) \<and> running s4 = sh \<and> wait_code (thr s4 sh) = 0 \<and>
     listed_ok s4 [sh] (idle_t s # remove1 (idle_t s) bs) \<and>
     dll heap_ops (nodes s4) all_procs (map PNode (remove1 p ps)) \<and>
     (\<forall>x. page_used (kmm s4) x = (page_used (kmm s) x \<and> x \<noteq> page_idx p \<and> x \<noteq> page_idx c))"
proof -
  let ?i = "idle_t s"
  have lists: "thread_lists (nodes s) [c, sh] bs []" and idle: "?i \<in> set bs" and pages: "holds_pages (kmm s) p c"
    using assms(1) by (auto simp: waiting_for_def listed_ok_def idling_def)
  have sh: "sh \<noteq> ?i" "sh \<notin> set bs" using lists idle by (auto simp: thread_lists_def)
  obtain s1 where s1: "proc_wait s p = Some (Switched, s1)" "running s1 = c" "t_state (thr s1 sh) = THREAD_BLOCKED"
      "listed_ok s1 [c] (sh # bs)" "lone s1 c p [sh] ps" "idling s1 (sh # bs)" "idle_t s1 = ?i" "kmm s1 = kmm s"
      "thread_ticks s1 = thread_ticks s" "placed s1 sh" "t_frame (thr s1 c) = t_frame (thr s c)"
    using proc_wait_blocks [OF assms(1)] by auto
  let ?s2 = "ticked n s1"
  have ticks: "k_ticks n s1 = Some ?s2" using assms(2) s1(9) by (intro ticks_in_slice) simp
  obtain e1 k1 e2 k2 where free: "pfree (kmm s) p = Some (e1, k1)" "pfree_mult k1 c 1 = Some (e2, k2)"
      "\<forall>x. page_used k2 x = (page_used (kmm s) x \<and> x \<noteq> page_idx p \<and> x \<noteq> page_idx c)"
    using free_two_pages [OF pages] by auto
  have s2: "listed_ok ?s2 [c] (sh # bs)" "lone ?s2 c p [sh] ps" "idling ?s2 (sh # bs)" "idle_t ?s2 = ?i"
      "kmm ?s2 = kmm s" "placed ?s2 sh"
    using s1 by (simp_all add: idling_def)
  have "filter (\<lambda>u. u \<notin> set [sh]) (remove1 ?i (sh # bs)) = remove1 ?i bs"
  proof -
    have "filter (\<lambda>u. u \<noteq> sh) (remove1 ?i bs) = remove1 ?i bs"
      using sh(2) by (intro filter_True) (auto dest: notin_set_remove1)
    then show ?thesis using sh(1) by simp
  qed
  then obtain s3 where s3: "thread_exit ?s2 False = Some (None, Switched, s3)" "running s3 = ?i" "kmm s3 = k2"
      "listed_ok s3 [sh, ?i] (remove1 ?i bs)" "wait_code (thr s3 sh) = 0"
      "dll heap_ops (nodes s3) all_procs (map PNode (remove1 p ps))"
    using exit_to_idle [OF s2(1-3), of e1 k1 e2 k2 False] s2(4-6) sh(1) free(1,2) by auto
  obtain h where h: "thread_block s3 = Some (Switched,
        dispatched sh (disable_interrupts ((set_state ?i THREAD_BLOCKED s3)\<lparr>nodes := h\<rparr>)))"
      "thread_lists h [sh] (?i # remove1 ?i bs) []" "same_on heap_ops (- sched_nodes) (nodes s3) h"
    using block_to_single [OF s3(4), of sh] s3(2) sh(1) by auto
  let ?s4 = "dispatched sh (disable_interrupts ((set_state ?i THREAD_BLOCKED s3)\<lparr>nodes := h\<rparr>))"
  have "listed_ok ?s4 [sh] (?i # remove1 ?i bs)"
    using s3(4) h(2) sh s3(2) by (auto simp: listed_ok_def placed_def dest: notin_set_remove1)
  moreover have "dll heap_ops (nodes ?s4) all_procs (map PNode (remove1 p ps))"
    using all_procs_frame [OF s3(6) h(3) proc_nodes_apart(1)] by simp
  moreover have "wait_code (thr ?s4 sh) = 0" using s3(5) sh(1) by simp
  moreover have "running ?s4 = sh" "kmm ?s4 = k2" using s3(3) by simp_all
  ultimately obtain s4 where s4: "thread_block s3 = Some (Switched, s4)" "running s4 = sh" "kmm s4 = k2"
      "listed_ok s4 [sh] (?i # remove1 ?i bs)" "dll heap_ops (nodes s4) all_procs (map PNode (remove1 p ps))"
      "wait_code (thr s4 sh) = 0"
    using h(1) by blast
  have "\<forall>x. page_used (kmm s4) x = (page_used (kmm s) x \<and> x \<noteq> page_idx p \<and> x \<noteq> page_idx c)"
    using free(3) s4(3) by simp
  then show ?thesis
    unfolding idle_round_def using s1(1-3,11) ticks s3(1,2) s4(1,2,4-6) by blast
qed

end
