(* ===== verification/Born.thy ===== *)
theory Born
  imports Solo
begin

text \<open>
  Creating a process: what \<open>proc_create\<close> does when the memory lasts, first in general, then called by the
  thread that runs alone.  The shell runs its commands this way.
\<close>

section \<open>Marking the slots\<close>

text \<open>The loop over the thread table changes nothing but the states and child numbers of the threads that
  the table names.\<close>

definition marked :: "u32 \<Rightarrow> kstate \<Rightarrow> kstate \<Rightarrow> bool" where
  "marked p s s' \<longleftrightarrow> s' = s\<lparr>thr := thr s'\<rparr> \<and> (\<forall>t. tid (thr s' t) = tid (thr s t)) \<and>
     (\<forall>t. t \<notin> set (threads (prc s p)) \<longrightarrow> thr s' t = thr s t)"

lemma marked_refl [simp]: "marked p s s"
  by (simp add: marked_def)

lemma mark_loop:
  "unat e \<le> length (threads (prc s p)) \<Longrightarrow>
     \<exists>s'. for_loop_m i e (mark_terminated p) s = Some s' \<and> marked p s s'"
proof (induction i e "mark_terminated p" s rule: for_loop_m.induct)
  case (1 i e s)
  show ?case
  proof (cases "i < e")
    case True
    then have len: "unat i < length (threads (prc s p))" using "1.prems" by (simp add: word_less_nat_alt)
    let ?t = "threads (prc s p) ! unat i"
    let ?s = "upd_thr ?t (\<lambda>r. r\<lparr>t_state := THREAD_TERMINATED, child_num := i\<rparr>) s"
    have m: "mark_terminated p i s = Some ?s" using len by (simp add: mark_terminated_def arr_get_def)
    have "unat e \<le> length (threads (prc ?s p))" using "1.prems" by simp
    from "1.hyps" [OF True m this] obtain s' where s': "for_loop_m (i + 1) e (mark_terminated p) ?s = Some s'"
      "marked p ?s s'" by blast
    have "?t \<in> set (threads (prc s p))" using len by simp
    then have "marked p s s'"
      using s'(2) unfolding marked_def by (auto simp: upd_thr_def)
    then show ?thesis using s'(1) m True by (simp add: for_loop_m_step)
  qed simp
qed

lemma marked_simps:
  assumes "marked p s s'"
  shows "nodes s' = nodes s" "prc s' = prc s" "kmm s' = kmm s" "running s' = running s" "idle_t s' = idle_t s"
    "thread_ticks s' = thread_ticks s" "tids s' = tids s" "pid_count s' = pid_count s"
  using assms unfolding marked_def by (metis kstate.select_convs kstate.update_convs(2) kstate.surjective)+


section \<open>Up to the first thread\<close>

text \<open>\<open>blank s p\<close>: the memory at \<open>p\<close> can be set up as a process, and the pointers in its thread table are
  not those of the threads \<open>us\<close>.\<close>

definition blank :: "kstate \<Rightarrow> u32 \<Rightarrow> u32 list \<Rightarrow> bool" where
  "blank s p us \<longleftrightarrow> length (stream (std_in (prc s p))) = 256 \<and> length (stream (std_out (prc s p))) = 256 \<and>
     length (stream (std_err (prc s p))) = 256 \<and> length (threads (prc s p)) = 8 \<and>
     set (threads (prc s p)) \<inter> set us = {}"

definition streams_ok :: "process \<Rightarrow> bool" where
  "streams_ok r \<longleftrightarrow> length (stream (std_in r)) = 256 \<and> length (stream (std_out r)) = 256 \<and> length (stream (std_err r)) = 256"

lemma stream_setup_fresh: "length (stream st) = 256 \<Longrightarrow> \<exists>st'. stream_setup st = Some st' \<and> length (stream st') = 256"
  using flush_std_zero [of "init_std st"] by (simp add: stream_setup_def init_std_def)

lemma proc_streams_fresh:
  assumes "length (stream (std_in (prc s p))) = 256" "length (stream (std_out (prc s p))) = 256"
    "length (stream (std_err (prc s p))) = 256"
  shows "\<exists>f. proc_streams p s = Some (upd_prc p f s) \<and>
     (\<forall>r. threads (f r) = threads r \<and> pid (f r) = pid r \<and> streams_ok (f r))"
proof -
  obtain i out e where "stream_setup (std_in (prc s p)) = Some i" "stream_setup (std_out (prc s p)) = Some out"
    "stream_setup (std_err (prc s p)) = Some e"
    "length (stream i) = 256" "length (stream out) = 256" "length (stream e) = 256"
    using stream_setup_fresh assms by metis
  then show ?thesis by (auto simp: proc_streams_def streams_ok_def)
qed

text \<open>The rest of \<open>proc_create\<close>, behind \<open>thread_create\<close>.\<close>

definition proc_adopt :: "u32 \<Rightarrow> int \<times> kstate \<Rightarrow> (u32 \<times> kstate) option" where
  "proc_adopt p = (\<lambda>(r, s).
     if r \<noteq> - THREAD_CREATE_FAIL
     then do {
       let s = upd_prc p (\<lambda>r. r\<lparr>num_live_threads := 1\<rparr>) s;
       t \<leftarrow> arr_get (threads (prc s p)) 0;
       s \<leftarrow> k_insert_end (upd_prc p (\<lambda>r. r\<lparr>active_thread := t\<rparr>) s) all_procs (PNode p);
       Some (p, s) }
     else Some (0, s))"

lemma proc_create_prepares:
  assumes page: "palloc (kmm s) = Some (p, k)" "p \<noteq> 0" and name: "length name < 13" and blank: "blank s p us"
  shows "\<exists>sa. proc_create s name func aux = do { r \<leftarrow> thread_create sa 0 ''main'' p 0 func aux; proc_adopt p r } \<and>
     nodes sa = list_init heap_ops (nodes s) (proc_waiters p) \<and> kmm sa = k \<and> running sa = running s \<and>
     idle_t sa = idle_t s \<and> thread_ticks sa = thread_ticks s \<and> tids sa = tids s \<and>
     (\<forall>t. tid (thr sa t) = tid (thr s t)) \<and> (\<forall>t\<in>set us. thr sa t = thr s t) \<and>
     (\<forall>q. q \<noteq> p \<longrightarrow> prc sa q = prc s q) \<and> threads (prc sa p) = threads (prc s p) \<and>
     pid (prc sa p) = pid_count s \<and> pid_count sa = pid_count s + 1 \<and> streams_ok (prc sa p)"
proof -
  let ?s0 = "s\<lparr>kmm := k\<rparr>"
  let ?s1 = "proc_pid p (upd_prc p (\<lambda>r. r\<lparr>p_name := name\<rparr>) ?s0)"
  have s1: "nodes ?s1 = nodes s" "kmm ?s1 = k" "running ?s1 = running s" "idle_t ?s1 = idle_t s" "tids ?s1 = tids s"
    "thread_ticks ?s1 = thread_ticks s" "thr ?s1 = thr s" "\<And>q. q \<noteq> p \<Longrightarrow> prc ?s1 q = prc s q"
    "threads (prc ?s1 p) = threads (prc s p)" "std_in (prc ?s1 p) = std_in (prc s p)"
    "std_out (prc ?s1 p) = std_out (prc s p)" "std_err (prc ?s1 p) = std_err (prc s p)"
    "pid (prc ?s1 p) = pid_count s" "pid_count ?s1 = pid_count s + 1"
    by (simp_all add: proc_pid_def upd_prc_def)
  obtain f where f: "proc_streams p ?s1 = Some (upd_prc p f ?s1)" "\<And>r. threads (f r) = threads r"
      "\<And>r. pid (f r) = pid r" "\<And>r. streams_ok (f r)"
    using proc_streams_fresh [of ?s1 p] blank unfolding s1 blank_def by blast
  let ?s2 = "upd_prc p f ?s1"
  have len: "unat MAX_NUM_THREADS \<le> length (threads (prc ?s2 p))" using blank f(2) s1(9) by (simp add: blank_def)
  obtain s3 where s3: "for_loop_m 0 MAX_NUM_THREADS (mark_terminated p) ?s2 = Some s3" "marked p ?s2 s3"
    using mark_loop [OF len, of 0] by blast
  note m = marked_simps [OF s3(2)]
  let ?sa = "upd_prc p (\<lambda>r. r\<lparr>p_wait_code := 0, p_magic := 0x34\<rparr>) (k_init s3 (proc_waiters p))"
  have eq: "proc_create s name func aux = do { r \<leftarrow> thread_create ?sa 0 ''main'' p 0 func aux; proc_adopt p r }"
    using page name f(1) s3(1)
    by (simp add: proc_create_def k_palloc_def put_name_def proc_adopt_def Let_def)
  have tab: "threads (prc ?s2 p) = threads (prc s p)" using f(2) s1(9) by simp
  have "\<forall>t. tid (thr s3 t) = tid (thr s t)" "\<forall>t. t \<notin> set (threads (prc s p)) \<longrightarrow> thr s3 t = thr s t"
    using s3(2) s1(7) unfolding marked_def tab by simp_all
  then have "\<forall>t. tid (thr ?sa t) = tid (thr s t)" "\<forall>t\<in>set us. thr ?sa t = thr s t"
    using blank by (auto simp: k_init_def blank_def)
  moreover have "\<forall>q. q \<noteq> p \<longrightarrow> prc ?sa q = prc s q" "threads (prc ?sa p) = threads (prc s p)"
    using m(2) tab s1(8) by (simp_all add: k_init_def)
  moreover have "pid (prc ?sa p) = pid_count s" "pid_count ?sa = pid_count s + 1" "streams_ok (prc ?sa p)"
    using m(2,8) f(3,4) s1(13,14) by (simp_all add: k_init_def upd_prc_def streams_ok_def)
  moreover have "nodes ?sa = list_init heap_ops (nodes s) (proc_waiters p)" "kmm ?sa = k" "running ?sa = running s"
     "idle_t ?sa = idle_t s" "thread_ticks ?sa = thread_ticks s" "tids ?sa = tids s"
    using m s1 by (simp_all add: k_init_def)
  ultimately show ?thesis using eq by blast
qed


section \<open>Called by the thread that runs alone\<close>

text \<open>After its first slice the thread that runs alone is linked to itself; \<open>healed\<close> is the heap with its
  back link set right.\<close>

definition healed :: "nref heap \<Rightarrow> u32 \<Rightarrow> nref heap" where
  "healed h t = h(TNode t := (h (TNode t))\<lparr>n_prev := Some ReadyHead\<rparr>)"

lemma healed_same: "same_on heap_ops S h h' \<Longrightarrow> same_on heap_ops S (healed h t) (healed h' t)"
  by (auto simp: same_on_def healed_def)

text \<open>\<open>solo_ok s t bs\<close>: the thread \<open>t\<close> runs and is alone in the ready list, up to its back link; the threads
  \<open>bs\<close> are blocked.\<close>

definition solo_ok :: "kstate \<Rightarrow> u32 \<Rightarrow> u32 list \<Rightarrow> bool" where
  "solo_ok s t bs \<longleftrightarrow> running s = t \<and> listed_ok (s\<lparr>nodes := healed (nodes s) t\<rparr>) [t] bs"

lemma listed_ok_solo: "listed_ok s [t] bs \<Longrightarrow> solo_ok s t bs"
proof -
  assume ok: "listed_ok s [t] bs"
  then have "n_prev (nodes s (TNode t)) = Some ReadyHead"
    by (simp add: listed_ok_def thread_lists_def dll_def spine_def)
  then have "healed (nodes s) t = nodes s" by (simp add: healed_def fun_eq_iff)
  then show ?thesis using ok by (auto simp: solo_ok_def listed_ok_def)
qed

text \<open>The timer does not take the thread out of this state.\<close>

lemma healed_self_linked: "solo h t \<Longrightarrow> healed (self_linked h t) t = healed h t"
  by (simp add: healed_def self_linked_def solo_def fun_eq_iff)

text \<open>An insertion at the front sets the back link right.\<close>

lemma insert_heals:
  assumes "n_next (nodes s ReadyHead) = Some (TNode t)" and "p \<noteq> t"
  shows "k_insert (s\<lparr>nodes := healed (nodes s) t\<rparr>) ready_threads (TNode p) = k_insert s ready_threads (TNode p)"
proof -
  have "list_insert_front heap_ops (healed (nodes s) t) ReadyHead (TNode p) =
      list_insert_front heap_ops (nodes s) ReadyHead (TNode p)"
    using assms by (simp add: list_insert_front_def healed_def fun_eq_iff)
  then show ?thesis by (simp add: k_insert_def list_insert_def)
qed

lemma solo_insert:
  assumes "thread_lists (healed (nodes s) t) [t] bs []" and "p \<notin> set (t # bs)"
  shows "\<exists>h. k_insert s ready_threads (TNode p) = Some (s\<lparr>nodes := h\<rparr>) \<and> thread_lists h [p, t] bs [] \<and>
     same_on heap_ops (- sched_nodes) (nodes s) h"
proof -
  let ?s = "s\<lparr>nodes := healed (nodes s) t\<rparr>"
  obtain h where h: "k_insert ?s ready_threads (TNode p) = Some (?s\<lparr>nodes := h\<rparr>)" "thread_lists h [p, t] bs []"
      "same_on heap_ops (- sched_nodes) (healed (nodes s) t) h"
    using ready_insert [of ?s "[t]" bs "[]" p] assms by auto
  have "n_next (healed (nodes s) t ReadyHead) = Some (TNode t)"
    using thread_lists_solo [OF assms(1)] by (simp add: solo_def)
  then have "n_next (nodes s ReadyHead) = Some (TNode t)" by (simp add: healed_def)
  moreover have "same_on heap_ops (- sched_nodes) (nodes s) (healed (nodes s) t)"
    by (auto simp: same_on_def healed_def sched_nodes_def)
  ultimately have "k_insert s ready_threads (TNode p) = Some (s\<lparr>nodes := h\<rparr>)"
      "same_on heap_ops (- sched_nodes) (nodes s) h"
    using h(1,3) insert_heals [of s t p] assms(2) by (auto intro: same_on_trans)
  then show ?thesis using h(2) by blast
qed

lemma allocate_tid_shape:
  assumes "length (tids s) = MAX_TID"
  shows "\<exists>i ts. allocate_tid s = (i, s\<lparr>tids := ts\<rparr>) \<and> 0 \<le> sint i \<and> length ts = MAX_TID \<and>
     (\<exists>j. ts = (tids s)[j := True]) \<and> (False \<in> set (tids s) \<longrightarrow> i \<noteq> 513)"
  using allocate_tid_least [OF assms]
proof (elim disjE exE conjE)
  fix i assume i: "i < MAX_TID" "allocate_tid s = (of_nat i, s\<lparr>tids := (tids s)[i := True]\<rparr>)"
  then have s: "sint (of_nat i :: u32) = int i" using sint_tid [of i] by simp
  then have "0 \<le> sint (of_nat i :: u32)" "sint (of_nat i :: u32) \<noteq> sint (513 :: u32)" using i(1) by simp_all
  then have "0 \<le> sint (of_nat i :: u32)" "(of_nat i :: u32) \<noteq> 513" by metis+
  then show ?thesis using i(2) assms by auto
next
  assume full: "allocate_tid s = (513, s)" "\<forall>b\<in>set (tids s). b"
  have "(tids s)[512 := True] = tids s" using assms by (intro list_update_beyond) simp
  then have "allocate_tid s = (513, s\<lparr>tids := (tids s)[512 := True]\<rparr>) \<and> 0 \<le> sint (513 :: u32)"
    using full(1) by simp
  then show ?thesis using assms full(2) by (intro exI [of _ 513] exI [of _ "(tids s)[512 := True]"]) auto
qed

lemma all_procs_append:
  assumes "dll heap_ops (nodes s) all_procs (map PNode ps)" and "p \<notin> set ps"
  shows "\<exists>h. k_insert_end s all_procs (PNode p) = Some (s\<lparr>nodes := h\<rparr>) \<and>
     dll heap_ops h all_procs (map PNode (ps @ [p])) \<and> same_on heap_ops (- proc_nodes) (nodes s) h"
proof -
  have "PNode p \<notin> set (spine all_procs (map PNode ps))" using assms(2) by (auto simp: set_spine all_procs_def)
  then obtain h where h: "list_insert_end heap_ops (nodes s) (tail all_procs) (PNode p) = Some h"
      "dll heap_ops h all_procs (map PNode ps @ [PNode p])"
      "same_on heap_ops (- insert (PNode p) (set (spine all_procs (map PNode ps)))) (nodes s) h"
    using hs.insert_end_dll [OF assms(1), of "PNode p"] by (auto simp: Compl_eq_Diff_UNIV)
  have "insert (PNode p) (set (spine all_procs (map PNode ps))) \<subseteq> proc_nodes"
    using all_procs_spine [of ps] by (auto simp: proc_nodes_def)
  then have "same_on heap_ops (- proc_nodes) (nodes s) h" using h(3) by (blast intro: same_on_sub)
  then show ?thesis using h by (auto simp: k_insert_end_def)
qed


text \<open>\<open>can_create s p k c k'\<close>: the memory gives the page \<open>p\<close> for a process and the page \<open>c\<close> for its thread,
  neither the last page of the map nor beyond 2 GB.\<close>

definition inner :: "u32 kalloc \<Rightarrow> u32 \<Rightarrow> bool" where
  "inner k a \<longleftrightarrow> unat a < 2 ^ 31 + 4194304 \<and> unat a + 4096 < 4194304 + 4096 * unat (bits (free_map k))"

definition can_create :: "kstate \<Rightarrow> u32 \<Rightarrow> u32 kalloc \<Rightarrow> u32 \<Rightarrow> u32 kalloc \<Rightarrow> bool" where
  "can_create s p k c k' \<longleftrightarrow> lval (palloc_lock (kmm s)) = 0 \<and> unat (bits (free_map (kmm s))) \<le> MAX_PAGES \<and>
     palloc (kmm s) = Some (p, k) \<and> p \<noteq> 0 \<and> inner (kmm s) p \<and>
     palloc_mult k 1 = Some (c, k') \<and> c \<noteq> 0 \<and> inner (kmm s) c \<and>
     tid (thr s c) \<noteq> 513 \<and> length (tids s) = MAX_TID"

lemma palloc_page:
  assumes "lval (palloc_lock k) = 0" and "unat (bits (free_map k)) \<le> MAX_PAGES"
    and "palloc_mult k 1 = Some (a, k')" and "a \<noteq> 0" and "inner k a"
  shows "lval (palloc_lock k') = 0" and "free_map k' = free_map k" and "used_page k' a"
    and "\<not> page_used k (page_idx a)" and "\<And>x. page_used k' x = (x = page_idx a \<or> page_used k x)"
proof -
  have "\<exists>res. palloc_mult k 1 = Some res \<and> palloc_outcome k (unat (1 :: u32)) res"
    by (rule palloc_mult_result [OF assms(1) _ assms(2)]) simp
  then have "palloc_outcome k (unat (1 :: u32)) (a, k')" unfolding assms(3) by blast
  then obtain i m where i: "a = page_addr i" "k' = k\<lparr>kmem := m\<rparr>" "i + unat (1 :: u32) \<le> unat (bits (free_map k))"
      "bit_run (kmem k) (free_map k) False i (unat (1 :: u32))"
      "\<And>j. page_used k' j = (i \<le> unat j \<and> unat j < i + unat (1 :: u32) \<or> page_used k j)"
    by (rule palloc_outcome_page) (rule assms(4), rule that, assumption+)
  have ua: "unat a = 4194304 + 4096 * i" using i(1,3) assms(2) by (simp add: unat_page_addr)
  then have lt: "i < 2 ^ 19" "i + 1 < unat (bits (free_map k))" using assms(5) by (simp_all add: inner_def)
  then have idx: "page_idx a = of_nat i" using i(1) by (simp add: page_idx_addr)
  have u: "unat (of_nat i :: u32) = i" using lt(1) by (intro unat_of_nat_u32) simp
  show "lval (palloc_lock k') = 0" "free_map k' = free_map k" using assms(1) i(2) by simp_all
  show eq: "page_used k' x = (x = page_idx a \<or> page_used k x)" for x
    using i(5) [of x] unfolding idx word_unat_eq_iff u by auto
  show "used_page k' a"
    unfolding used_page_def using i(1) lt eq [of "of_nat i"] idx i(2) by auto
  show "\<not> page_used k (page_idx a)"
    using i(4) unfolding idx bit_run_def page_used_def by simp
qed

lemma can_create_pages:
  assumes "can_create s p k c k'"
  shows "holds_pages k' p c" and "\<not> page_used (kmm s) (page_idx p)" and "\<not> page_used (kmm s) (page_idx c)"
    and "\<And>x. page_used k' x = (page_used (kmm s) x \<or> x = page_idx p \<or> x = page_idx c)"
proof -
  have c: "lval (palloc_lock (kmm s)) = 0" "unat (bits (free_map (kmm s))) \<le> MAX_PAGES"
    "palloc_mult (kmm s) 1 = Some (p, k)" "p \<noteq> 0" "inner (kmm s) p" "palloc_mult k 1 = Some (c, k')" "c \<noteq> 0"
    "inner (kmm s) c"
    using assms by (simp_all add: can_create_def palloc_def)
  note p = palloc_page [OF c(1-5)]
  have "unat (bits (free_map k)) \<le> MAX_PAGES" "inner k c" using c(2,8) p(2) by (simp_all add: inner_def)
  note q = palloc_page [OF p(1) this(1) c(6,7) this(2)]
  have ne: "page_idx p \<noteq> page_idx c" using q(4) p(5) [of "page_idx c"] by metis
  have "used_page k' p" using p(3) unfolding used_page_def q(2,5) by blast
  then show "holds_pages k' p c" using q(1,3) ne by (simp add: holds_pages_def)
  show "\<not> page_used (kmm s) (page_idx p)" by (rule p(4))
  show "\<not> page_used (kmm s) (page_idx c)" using q(4) p(5) [of "page_idx c"] by metis
  show "page_used k' x = (page_used (kmm s) x \<or> x = page_idx p \<or> x = page_idx c)" for x
    using q(5) [of x] p(5) [of x] by metis
qed

text \<open>The nodes of the lists that are set up for the new process and its thread.\<close>

definition birth_nodes :: "u32 \<Rightarrow> u32 \<Rightarrow> nref set" where
  "birth_nodes p c = {PWaitersHead p, PWaitersTail p, TWaitersHead c, TWaitersTail c}"

lemma birth_nodes_apart: "birth_nodes p c \<inter> sched_nodes = {}" "birth_nodes p c \<inter> proc_nodes = {}"
  by (auto simp: birth_nodes_def sched_nodes_def proc_nodes_def)

lemma waiters_heads:
  "head (thread_waiters t) = TWaitersHead t" "tail (thread_waiters t) = TWaitersTail t"
  "head (proc_waiters p) = PWaitersHead p" "tail (proc_waiters p) = PWaitersTail p"
  by simp_all

definition birth :: "nref heap \<Rightarrow> u32 \<Rightarrow> u32 \<Rightarrow> nref heap" where
  "birth h p c = list_init heap_ops (list_init heap_ops h (proc_waiters p)) (thread_waiters c)"

lemma birth_init:
  "dll heap_ops (birth h p c) (proc_waiters p) []" "dll heap_ops (birth h p c) (thread_waiters c) []"
  "same_on heap_ops (- birth_nodes p c) h (birth h p c)"
proof -
  let ?h1 = "list_init heap_ops h (proc_waiters p)"
  note p = waiters_init [of "proc_waiters p" h, simplified] and c = waiters_init [of "thread_waiters c" ?h1, simplified]
  show "dll heap_ops (birth h p c) (thread_waiters c) []" using c(1) unfolding birth_def .
  show "dll heap_ops (birth h p c) (proc_waiters p) []"
    unfolding birth_def by (rule dll_frame [OF p(1) c(2)]) (auto simp: set_spine)
  show "same_on heap_ops (- birth_nodes p c) h (birth h p c)"
    unfolding birth_def using p(2) c(2) by (auto simp: birth_nodes_def same_on_def)
qed

text \<open>What the records of the new process and its thread hold, and the counters.\<close>

definition newborn :: "kstate \<Rightarrow> kstate \<Rightarrow> u32 \<Rightarrow> u32 \<Rightarrow> bool" where
  "newborn s s' p c \<longleftrightarrow> pid (prc s' p) = pid_count s \<and> pid_count s' = pid_count s + 1 \<and>
     threads (prc s' p) = (threads (prc s p))[0 := c] \<and> streams_ok (prc s' p) \<and> child_num (thr s' c) = 0 \<and>
     (\<exists>j. tids s' = (tids s)[j := True]) \<and> (False \<in> set (tids s) \<longrightarrow> tid (thr s' c) \<noteq> 513)"

text \<open>What \<open>proc_create\<close> does once the new thread \<open>c\<close> can be put into the ready list: \<open>rs\<close> is that list then,
  and \<open>us\<close> are threads that it leaves as they are.\<close>

lemma proc_create_pages:
  assumes blank: "blank s p us" and can: "can_create s p k c k'" and new: "c \<notin> set us" and name: "length name < 13"
    and ps: "dll heap_ops (nodes s) all_procs (map PNode ps)" "p \<notin> set ps"
    and ins: "\<And>n. same_on heap_ops sched_nodes (nodes s) (nodes n) \<Longrightarrow>
       \<exists>h. k_insert n ready_threads (TNode c) = Some (n\<lparr>nodes := h\<rparr>) \<and> thread_lists h rs bs ds \<and>
         same_on heap_ops (- sched_nodes) (nodes n) h"
  shows "\<exists>s'. proc_create s name func aux = Some (p, s') \<and> thread_lists (nodes s') rs bs ds \<and>
     (\<forall>u\<in>set us. thr s' u = thr s u \<and> placed s' u = placed s u) \<and>
     t_state (thr s' c) = THREAD_READY \<and> placed s' c \<and> lone (s'\<lparr>running := c\<rparr>) c p [] (ps @ [p]) \<and>
     running s' = running s \<and> idle_t s' = idle_t s \<and> thread_ticks s' = thread_ticks s \<and> kmm s' = k' \<and>
     f_function (t_frame (thr s' c)) = func \<and> f_aux (t_frame (thr s' c)) = aux \<and> newborn s s' p c"
proof -
  have pg: "palloc (kmm s) = Some (p, k)" "p \<noteq> 0" "palloc_mult k 1 = Some (c, k')" "c \<noteq> 0"
    "tid (thr s c) \<noteq> 513" "length (tids s) = MAX_TID"
    using can by (auto simp: can_create_def)
  obtain sa where sa: "proc_create s name func aux =
        do { r \<leftarrow> thread_create sa 0 ''main'' p 0 func aux; proc_adopt p r }"
      "nodes sa = list_init heap_ops (nodes s) (proc_waiters p)" "kmm sa = k" "running sa = running s"
      "idle_t sa = idle_t s" "thread_ticks sa = thread_ticks s" "tids sa = tids s"
      "\<And>t. tid (thr sa t) = tid (thr s t)" "\<And>t. t \<in> set us \<Longrightarrow> thr sa t = thr s t"
      "\<And>q. q \<noteq> p \<Longrightarrow> prc sa q = prc s q" "threads (prc sa p) = threads (prc s p)"
      "pid (prc sa p) = pid_count s" "pid_count sa = pid_count s + 1" "streams_ok (prc sa p)"
    using proc_create_prepares [OF pg(1,2) name blank, of func aux] by blast
  have len: "length (threads (prc sa p)) = 8" using blank sa(11) by (simp add: blank_def)
  obtain i ts where id: "allocate_tid (sa\<lparr>kmm := k'\<rparr>) = (i, sa\<lparr>kmm := k', tids := ts\<rparr>)" "0 \<le> sint i"
      "\<exists>j. ts = (tids s)[j := True]" "False \<in> set (tids s) \<longrightarrow> i \<noteq> 513"
    using allocate_tid_shape [of "sa\<lparr>kmm := k'\<rparr>"] pg(6) sa(7) by auto
  let ?n = "new_thread sa c k' i ts 0 ''main'' p 0 func aux"
  have birth: "dll heap_ops (nodes ?n) (proc_waiters p) []" "dll heap_ops (nodes ?n) (thread_waiters c) []"
      "same_on heap_ops (- birth_nodes p c) (nodes s) (nodes ?n)"
    using birth_init [where h = "nodes s" and p = p and c = c] sa(2) by (simp_all add: birth_def)
  have "same_on heap_ops sched_nodes (nodes s) (nodes ?n)"
    using birth(3) birth_nodes_apart(1) by (rule same_on_disj)
  from ins [OF this] obtain h where h: "k_insert ?n ready_threads (TNode c) = Some (?n\<lparr>nodes := h\<rparr>)"
      "thread_lists h rs bs ds" "same_on heap_ops (- sched_nodes) (nodes ?n) h" by blast
  let ?c = "enable_interrupts (?n\<lparr>nodes := h\<rparr>)"
  have create: "thread_create sa 0 ''main'' p 0 func aux = Some (sint i, ?c)"
    using thread_create_inserts [of sa c k' "''main''" 0 p i ts 0 func aux] pg(3-5) sa(3,8) len id(1) h(1) by simp
  let ?d = "upd_prc p (\<lambda>r. r\<lparr>active_thread := c\<rparr>) (upd_prc p (\<lambda>r. r\<lparr>num_live_threads := 1\<rparr>) ?c)"
  have "dll heap_ops h all_procs (map PNode ps)"
    using all_procs_frame [OF all_procs_frame [OF ps(1) birth(3) birth_nodes_apart(2)] h(3) proc_nodes_apart(1)] .
  then obtain h' where h': "k_insert_end ?d all_procs (PNode p) = Some (?d\<lparr>nodes := h'\<rparr>)"
      "dll heap_ops h' all_procs (map PNode (ps @ [p]))" "same_on heap_ops (- proc_nodes) h h'"
    using all_procs_append [of ?d ps p] ps(2) by auto
  let ?s = "?d\<lparr>nodes := h'\<rparr>"
  have "arr_get (threads (prc (upd_prc p (\<lambda>r. r\<lparr>num_live_threads := 1\<rparr>) ?c) p)) 0 = Some c"
    using len by (simp add: arr_get_def)
  then have eq: "proc_create s name func aux = Some (p, ?s)"
    using sa(1) create h'(1) id(2) by (simp add: proc_adopt_def Let_def)
  have thr: "thr ?s u = thr s u" if "u \<in> set us" for u
  proof -
    have "u \<noteq> c" using that new by auto
    then show ?thesis using sa(9) [OF that] by simp
  qed
  have tabs: "length (threads (prc ?s q)) = length (threads (prc s q))" for q
    using sa(10) [of q] sa(11) by (cases "q = p") simp_all
  have place: "placed ?s u = placed s u" if "u \<in> set us" for u
    unfolding placed_def thr [OF that] tabs ..
  have "same_on heap_ops sched_nodes h h'"
    using h'(3) proc_nodes_apart(1) by (blast intro: same_on_disj)
  then have lists: "thread_lists h' rs bs ds" using h(2) by (blast intro: thread_lists_frame)
  have waiters: "dll heap_ops h' (proc_waiters p) []" "dll heap_ops h' (thread_waiters c) []"
    by (rule dll_frame [OF dll_frame [OF birth(1) h(3)] h'(3)]; auto simp: set_spine proc_nodes_def)
       (rule dll_frame [OF dll_frame [OF birth(2) h(3)] h'(3)]; auto simp: set_spine proc_nodes_def)
  have "lone (?s\<lparr>running := c\<rparr>) c p [] (ps @ [p])"
    using waiters h'(2) pg(2,4) len by (simp add: lone_def)
  moreover have "tids ?s = ts" "pid_count ?s = pid_count sa"
    by (simp_all add: new_thread_def upd_thr_def k_init_def disable_interrupts_def upd_prc_def enable_interrupts_def)
  then have "newborn s ?s p c"
    using sa(11-14) id(3,4) by (simp add: newborn_def streams_ok_def)
  moreover have "placed ?s c" "t_state (thr ?s c) = THREAD_READY" using len by (simp_all add: placed_def)
  moreover have "\<forall>u\<in>set us. thr ?s u = thr s u \<and> placed ?s u = placed s u" using thr place by blast
  moreover have "f_function (t_frame (thr ?s c)) = func" "f_aux (t_frame (thr ?s c)) = aux" "running ?s = running s"
    "idle_t ?s = idle_t s" "thread_ticks ?s = thread_ticks s" "kmm ?s = k'" "nodes ?s = h'"
    using sa(4-6) by simp_all
  ultimately show ?thesis using eq lists by (intro exI [of _ ?s]) simp
qed

lemma proc_create_solo:
  assumes solo: "solo_ok s sh bs" and idle: "idling s bs" and blank: "blank s p (sh # bs)"
    and can: "can_create s p k c k'" and new: "c \<notin> set (sh # bs)" and name: "length name < 13"
    and ps: "dll heap_ops (nodes s) all_procs (map PNode ps)" "p \<notin> set ps"
  shows "\<exists>s'. proc_create s name func aux = Some (p, s') \<and> waiting_for s' sh p c (ps @ [p]) bs \<and>
     idle_t s' = idle_t s \<and> thread_ticks s' = thread_ticks s \<and> kmm s' = k' \<and>
     f_function (t_frame (thr s' c)) = func \<and> f_aux (t_frame (thr s' c)) = aux"
proof -
  have run: "running s = sh" and ok: "listed_ok (s\<lparr>nodes := healed (nodes s) sh\<rparr>) [sh] bs"
    using solo by (auto simp: solo_ok_def)
  have ins: "\<exists>h. k_insert n ready_threads (TNode c) = Some (n\<lparr>nodes := h\<rparr>) \<and> thread_lists h [c, sh] bs [] \<and>
      same_on heap_ops (- sched_nodes) (nodes n) h" if "same_on heap_ops sched_nodes (nodes s) (nodes n)" for n
  proof -
    have "thread_lists (healed (nodes n) sh) [sh] bs []"
      using ok thread_lists_frame healed_same [OF that, of sh] by (auto simp: listed_ok_def)
    then show ?thesis using solo_insert new by blast
  qed
  obtain s' where s': "proc_create s name func aux = Some (p, s')" "thread_lists (nodes s') [c, sh] bs []"
      "\<And>u. u \<in> set (sh # bs) \<Longrightarrow> thr s' u = thr s u \<and> placed s' u = placed s u"
      "t_state (thr s' c) = THREAD_READY" "placed s' c" "lone (s'\<lparr>running := c\<rparr>) c p [] (ps @ [p])"
      "running s' = sh" "idle_t s' = idle_t s" "thread_ticks s' = thread_ticks s" "kmm s' = k'"
      "f_function (t_frame (thr s' c)) = func" "f_aux (t_frame (thr s' c)) = aux"
    using proc_create_pages [OF blank can new name ps ins, of func aux] run by blast
  have "t_state (thr s sh) = THREAD_RUNNING" "placed s sh" "\<And>u. u \<in> set bs \<Longrightarrow> t_state (thr s u) = THREAD_BLOCKED"
    using ok run by (auto simp: listed_ok_def placed_def)
  then have "listed_ok s' [c, sh] bs"
    using s'(2,3,4,5,7) new by (auto simp: listed_ok_def)
  moreover have "idling s' bs" using idle s'(3,8) by (auto simp: idling_def)
  ultimately have "waiting_for s' sh p c (ps @ [p]) bs"
    using s'(6,7,10) can_create_pages(1) [OF can] by (simp add: waiting_for_def)
  then show ?thesis using s' by blast
qed

lemma command_life:
  assumes "solo_ok s sh bs" and "idling s bs" and "blank s p (sh # bs)" and "can_create s p k c k'"
    and "c \<notin> set (sh # bs)" and "length name < 13" and "dll heap_ops (nodes s) all_procs (map PNode ps)"
    and "p \<notin> set ps" and "unat (thread_ticks s) mod 8 + n < 8"
  shows "\<exists>s0 s1 s2 s3 s4. proc_create s name func aux = Some (p, s0) \<and>
     proc_wait s0 p = Some (Switched, s1) \<and> running s1 = c \<and> t_state (thr s1 sh) = THREAD_BLOCKED \<and> f_function (t_frame (thr s0 c)) = func \<and>
     t_frame (thr s1 c) = t_frame (thr s0 c) \<and>
     k_ticks n s1 = Some s2 \<and>
     thread_exit s2 False = Some (None, Switched, s3) \<and> running s3 = idle_t s \<and>
     idle_round s3 = Some (Switched, s4) \<and> solo_ok s4 sh (idle_t s # remove1 (idle_t s) bs) \<and>
     dll heap_ops (nodes s4) all_procs (map PNode ps) \<and> (\<forall>x. page_used (kmm s4) x = page_used (kmm s) x)"
proof -
  obtain s0 where s0: "proc_create s name func aux = Some (p, s0)" "waiting_for s0 sh p c (ps @ [p]) bs"
      "idle_t s0 = idle_t s" "thread_ticks s0 = thread_ticks s" "kmm s0 = k'" "f_function (t_frame (thr s0 c)) = func"
    using proc_create_solo [OF assms(1-8), of func aux] by blast
  have "unat (thread_ticks s0) mod 8 + n < 8" using assms(9) s0(4) by simp
  from command_lifecycle_steps [OF s0(2) this] obtain s1 s2 s3 s4 where s:
      "proc_wait s0 p = Some (Switched, s1)" "running s1 = c" "t_state (thr s1 sh) = THREAD_BLOCKED"
      "t_frame (thr s1 c) = t_frame (thr s0 c)" "k_ticks n s1 = Some s2"
      "thread_exit s2 False = Some (None, Switched, s3)" "running s3 = idle_t s0"
      "idle_round s3 = Some (Switched, s4)" "running s4 = sh"
      "listed_ok s4 [sh] (idle_t s0 # remove1 (idle_t s0) bs)"
      "dll heap_ops (nodes s4) all_procs (map PNode (remove1 p (ps @ [p])))"
      "\<And>x. page_used (kmm s4) x = (page_used (kmm s0) x \<and> x \<noteq> page_idx p \<and> x \<noteq> page_idx c)"
    by blast
  have "remove1 p (ps @ [p]) = ps" using assms(8) by (simp add: remove1_append)
  moreover have "page_used (kmm s4) x = page_used (kmm s) x" for x
    using s(12) [of x] can_create_pages(2-4) [OF assms(4)] s0(5) by auto
  moreover have "solo_ok s4 sh (idle_t s # remove1 (idle_t s) bs)"
    using listed_ok_solo [OF s(10)] s0(3) by simp
  ultimately show ?thesis
    using s0(1,3,6) s(1-8,11)
    by (intro exI [of _ s0] exI [of _ s1] exI [of _ s2] exI [of _ s3] exI [of _ s4]) simp
qed

text \<open>C4: A command of the shell from its creation to its end.  The shell runs alone, however often its slice
  was renewed; it creates the process of a command, waits for it, the command ends within its first
  slice, the idle thread cleans up and gives the processor back: the shell runs alone again, the
  list of processes is what it was, and so are the pages in use.\<close>

theorem command_roundtrip:
  assumes "solo_ok s sh bs" and "idling s bs" and "blank s p (sh # bs)" and "can_create s p k c k'"
    and "c \<notin> set (sh # bs)" and "length name < 13" and "dll heap_ops (nodes s) all_procs (map PNode ps)"
    and "p \<notin> set ps" and "unat (thread_ticks s) mod 8 + n < 8"
  shows "\<exists>s0 s1 s2 s3 s4. proc_create s name func aux = Some (p, s0) \<and>
     proc_wait s0 p = Some (Switched, s1) \<and> running s1 = c \<and> f_function (t_frame (thr s0 c)) = func \<and>
     k_ticks n s1 = Some s2 \<and>
     thread_exit s2 False = Some (None, Switched, s3) \<and> running s3 = idle_t s \<and>
     idle_round s3 = Some (Switched, s4) \<and> solo_ok s4 sh (idle_t s # remove1 (idle_t s) bs) \<and>
     dll heap_ops (nodes s4) all_procs (map PNode ps) \<and> (\<forall>x. page_used (kmm s4) x = page_used (kmm s) x)"
  using command_life [OF assms, of func aux] by blast


text \<open>The shell 0x1000 alone, linked to itself, with the idle thread 0x4000 blocked and only the first page of
  the memory in use.\<close>

definition shell_nodes :: "nref heap" where
  "shell_nodes = (\<lambda>_. \<lparr>n_next = None, n_prev = None\<rparr>)
     (ReadyHead := \<lparr>n_next = Some (TNode 0x1000), n_prev = None\<rparr>,
      TNode 0x1000 := \<lparr>n_next = Some ReadyTail, n_prev = Some (TNode 0x1000)\<rparr>,
      ReadyTail := \<lparr>n_next = None, n_prev = Some (TNode 0x1000)\<rparr>,
      BlockedHead := \<lparr>n_next = Some (TNode 0x4000), n_prev = None\<rparr>,
      TNode 0x4000 := \<lparr>n_next = Some BlockedTail, n_prev = Some BlockedHead\<rparr>,
      BlockedTail := \<lparr>n_next = None, n_prev = Some (TNode 0x4000)\<rparr>,
      DyingHead := \<lparr>n_next = Some DyingTail, n_prev = None\<rparr>,
      DyingTail := \<lparr>n_next = None, n_prev = Some DyingHead\<rparr>,
      AllHead := \<lparr>n_next = Some (PNode 0x9000), n_prev = None\<rparr>,
      PNode 0x9000 := \<lparr>n_next = Some AllTail, n_prev = Some AllHead\<rparr>,
      AllTail := \<lparr>n_next = None, n_prev = Some (PNode 0x9000)\<rparr>)"

definition demo_shell :: kstate where
  "demo_shell = demo_state\<lparr>nodes := shell_nodes, kmm := demo_pages\<lparr>kmem := \<lambda>_. 1\<rparr>\<rparr>"

lemma demo_shell_ok: "solo_ok demo_shell 0x1000 [0x4000]" "idling demo_shell [0x4000]"
  "blank demo_shell 0x401000 [0x1000, 0x4000]" "dll heap_ops (nodes demo_shell) all_procs (map PNode [0x9000])"
proof -
  have "thread_lists (healed shell_nodes 0x1000) [0x1000] [0x4000] []" "dll heap_ops shell_nodes all_procs [PNode 0x9000]"
    by (simp_all add: thread_lists_def dll_def spine_def healed_def shell_nodes_def all_procs_def)
  then show "solo_ok demo_shell 0x1000 [0x4000]" "idling demo_shell [0x4000]"
    "blank demo_shell 0x401000 [0x1000, 0x4000]" "dll heap_ops (nodes demo_shell) all_procs (map PNode [0x9000])"
    by (simp_all add: solo_ok_def listed_ok_def idling_def blank_def demo_shell_def placed_def demo_state_def
        demo_thread_def demo_process_def demo_stream_def)
qed

lemma demo_shell_create: "\<exists>k k'. can_create demo_shell 0x401000 k 0x402000 k'"
proof -
  let ?b = "\<lparr>map_p = start_addr, bits = 20\<rparr>" and ?m = "\<lambda>_ :: u32. 1 :: u32"
  let ?k = "demo_pages\<lparr>kmem := ?m\<rparr>"
  have k: "kmem ?k = ?m" "free_map ?k = ?b" "lval (palloc_lock ?k) = 0" by (simp_all add: demo_pages_def)
  have "bitmap_find_range ?m ?b 0 20 1 False = 1"
    by (simp add: bitmap_find_range_def find_range_loop.simps bitmap_test_def bit_mask_def)
  then obtain m where m: "palloc_mult ?k 1 = Some (0x401000, ?k\<lparr>kmem := m\<rparr>)" "m = snd (bitmap_set_range ?m ?b 1 1 True)"
    using palloc_mult_unlocked [OF k(3), of 1] k by (simp add: Let_def)
  have t: "bitmap_test m ?b i = (i = 1 \<or> bitmap_test ?m ?b i)" for i
    using set_range_used(1) [of 1 1 ?m ?b True i] unfolding m(2) word_unat_eq_iff by auto
  have "bitmap_find_range m ?b 0 20 1 False = 2"
    by (simp add: bitmap_find_range_def find_range_loop.simps t bitmap_test_def [of ?m] bit_mask_def)
  then have "\<exists>k'. palloc_mult (?k\<lparr>kmem := m\<rparr>) 1 = Some (0x402000, k')"
    using palloc_mult_unlocked [of "?k\<lparr>kmem := m\<rparr>" 1] k by (simp add: Let_def)
  then obtain k' where k': "palloc_mult (?k\<lparr>kmem := m\<rparr>) 1 = Some (0x402000, k')" by blast
  have "can_create demo_shell 0x401000 (?k\<lparr>kmem := m\<rparr>) 0x402000 k'"
    using m(1) k' k by (simp add: can_create_def palloc_def demo_shell_def inner_def demo_state_def demo_thread_def)
  then show ?thesis by blast
qed

theorem command_roundtrip_witness:
  "\<exists>s0 s1 s2 s3 s4. proc_create demo_shell ''ps'' 0x100 0 = Some (0x401000, s0) \<and>
     proc_wait s0 0x401000 = Some (Switched, s1) \<and> running s1 = 0x402000 \<and> k_ticks 7 s1 = Some s2 \<and>
     thread_exit s2 False = Some (None, Switched, s3) \<and> running s3 = 0x4000 \<and>
     idle_round s3 = Some (Switched, s4) \<and> solo_ok s4 0x1000 [0x4000]"
proof -
  obtain k k' where "can_create demo_shell 0x401000 k 0x402000 k'" using demo_shell_create by blast
  from command_roundtrip [OF demo_shell_ok(1-3) this _ _ demo_shell_ok(4), of "''ps''" 7 "0x100" 0]
  show ?thesis by (fastforce simp: demo_shell_def demo_state_def)
qed

end
