(* ===== verification/Boot.thy ===== *)
theory Boot
  imports Born
begin

text \<open>
  From the start of the kernel to the shell that runs alone: what \<open>init_processes\<close> sets up, and the first
  switches after \<open>kmain\<close> has created the shell.
\<close>

section \<open>The lists after the initialisation\<close>

definition sched_init :: "nref heap \<Rightarrow> nref heap" where
  "sched_init h = list_init heap_ops (list_init heap_ops (list_init heap_ops h ready_threads) blocked_threads) dying_threads"

lemma sched_init_lists: "thread_lists (sched_init h) [] [] []"
  by (simp add: thread_lists_def dll_def spine_def sched_init_def list_init_def Let_def)

lemma sched_init_frame: "same_on heap_ops (- sched_nodes) h (sched_init h)"
  by (auto simp: same_on_def sched_init_def list_init_def Let_def sched_nodes_def)

lemma all_procs_init:
  "dll heap_ops (list_init heap_ops h all_procs) all_procs []"
  "same_on heap_ops (- proc_nodes) h (list_init heap_ops h all_procs)"
  by (auto simp: dll_def spine_def list_init_def Let_def all_procs_def same_on_def proc_nodes_def)

lemma all_procs_insert:
  assumes "dll heap_ops (nodes s) all_procs []"
  shows "\<exists>h. k_insert s all_procs (PNode p) = Some (s\<lparr>nodes := h\<rparr>) \<and>
     dll heap_ops h all_procs [PNode p] \<and> same_on heap_ops (- proc_nodes) (nodes s) h"
proof -
  obtain h where h: "list_insert_front heap_ops (nodes s) (head all_procs) (PNode p) = Some h"
      "dll heap_ops h all_procs [PNode p]"
      "same_on heap_ops (- insert (PNode p) (set (spine all_procs []))) (nodes s) h"
    using hs.insert_front_dll [OF assms, of "PNode p"] by (auto simp: spine_def all_procs_def Compl_eq_Diff_UNIV)
  have "same_on heap_ops (- proc_nodes) (nodes s) h"
    by (rule same_on_sub [OF h(3)]) (auto simp: spine_def all_procs_def proc_nodes_def)
  then show ?thesis using h by (auto simp: k_insert_def list_insert_def)
qed

section \<open>init\_threads\<close>

lemma init_threads_lists:
  assumes page: "palloc_mult (kmm s) 1 = Some (i, k)" "i \<noteq> 0" "tid (thr s i) \<noteq> 513" "length (tids s) = MAX_TID"
    and tab: "length (threads (prc s p)) = 8" and b: "running s \<noteq> i"
  shows "\<exists>s'. init_threads s idle_code p = Some s' \<and> thread_lists (nodes s') [i] [] [] \<and>
     same_on heap_ops (- (sched_nodes \<union> {TWaitersHead i, TWaitersTail i})) (nodes s) (nodes s') \<and>
     t_state (thr s' i) = THREAD_READY \<and> t_proc (thr s' i) = p \<and> child_num (thr s' i) = 0 \<and>
     f_function (t_frame (thr s' i)) = idle_code \<and> t_state (thr s' (running s)) = THREAD_BLOCKED \<and>
     (\<forall>u. u \<noteq> i \<and> u \<noteq> running s \<longrightarrow> thr s' u = thr s u) \<and>
     prc s' = (prc s)(p := (prc s p)\<lparr>threads := (threads (prc s p))[0 := i]\<rparr>) \<and>
     idle_t s' = i \<and> running s' = running s \<and> kmm s' = k \<and> length (tids s') = MAX_TID \<and>
     thread_ticks s' = thread_ticks s \<and> current_p s' = current_p s \<and> pid_count s' = pid_count s \<and>
     (\<exists>j. tids s' = (tids s)[j := True])"
proof -
  let ?s = "k_init (k_init (k_init s ready_threads) blocked_threads) dying_threads"
  have s: "nodes ?s = sched_init (nodes s)" "kmm ?s = kmm s" "thr ?s = thr s" "prc ?s = prc s" "tids ?s = tids s"
    "running ?s = running s" "thread_ticks ?s = thread_ticks s"
    by (simp_all add: k_init_def sched_init_def)
  obtain j ts where id: "allocate_tid (?s\<lparr>kmm := k\<rparr>) = (j, ?s\<lparr>kmm := k, tids := ts\<rparr>)" "length ts = MAX_TID"
      "\<exists>j. ts = (tids s)[j := True]"
    using allocate_tid_shape [of "?s\<lparr>kmm := k\<rparr>"] page(4) s(5) by auto
  let ?n = "new_thread ?s i k j ts 0 ''idle'' p 0 idle_code 0"
  note w = waiters_init [of "thread_waiters i" "sched_init (nodes s)", simplified]
  have "thread_lists (nodes ?n) [] [] []"
    using thread_lists_frame [OF sched_init_lists w(3)] s(1) by (simp add: thread_waiters_def)
  then obtain h where h: "k_insert ?n ready_threads (TNode i) = Some (?n\<lparr>nodes := h\<rparr>)" "thread_lists h [i] [] []"
      "same_on heap_ops (- sched_nodes) (nodes ?n) h"
    using ready_insert [of ?n "[]" "[]" "[]" i] by auto
  have create: "thread_create ?s 0 ''idle'' p 0 idle_code 0 = Some (sint j, enable_interrupts (?n\<lparr>nodes := h\<rparr>))"
    using thread_create_inserts [of ?s i k "''idle''" 0 p j ts 0 idle_code 0] page tab id(1) h(1) s by simp
  have "same_on heap_ops (- {TWaitersHead i, TWaitersTail i}) (sched_init (nodes s)) (nodes ?n)"
    using w(2) s(1) by (simp add: thread_waiters_def)
  then have frame: "same_on heap_ops (- (sched_nodes \<union> {TWaitersHead i, TWaitersTail i})) (nodes s) h"
    using sched_init_frame [of "nodes s"] h(3) by (auto simp: same_on_def)
  have tb: "tids ?n = ts" "current_p ?n = current_p s" "pid_count ?n = pid_count s"
    by (simp_all add: new_thread_def k_init_def upd_prc_def upd_thr_def disable_interrupts_def)
  let ?f = "upd_thr (running s) (\<lambda>r. r\<lparr>t_name := ''i0'', t_state := THREAD_BLOCKED\<rparr>)
      ((enable_interrupts (?n\<lparr>nodes := h\<rparr>))\<lparr>idle_t := i\<rparr>)"
  have "init_threads s idle_code p = Some ?f"
    using create tab s by (auto simp: init_threads_def Let_def arr_get_def THREAD_CUR_def)
  then show ?thesis
    using h(2) frame b s id(2,3) tb
    by (intro exI [of _ ?f]) (simp add: fun_eq_iff upd_thr_def enable_interrupts_def)
qed


section \<open>init\_processes\<close>

lemma table_cleared:
  "length xs = 8 \<Longrightarrow> for_loop_m 0 MAX_NUM_THREADS (\<lambda>i xs. arr_put xs i 0) xs = Some (replicate 8 (0 :: u32))"
  using fill_array [of 8 xs 0 0] by simp

lemma init_processes_lists:
  assumes can: "can_create s p k i k'" and blank: "blank s p []" and b: "running s \<noteq> i"
  shows "\<exists>s'. init_processes s idle_code = Some s' \<and> thread_lists (nodes s') [i] [] [] \<and>
     dll heap_ops (nodes s') all_procs [PNode p] \<and> idle_t s' = i \<and> running s' = running s \<and>
     t_state (thr s' i) = THREAD_READY \<and> f_function (t_frame (thr s' i)) = idle_code \<and> placed s' i \<and>
     t_state (thr s' (running s)) = THREAD_BLOCKED \<and>
     (\<forall>u. u \<noteq> i \<and> u \<noteq> running s \<longrightarrow> thr s' u = thr s u) \<and> (\<forall>q. q \<noteq> p \<longrightarrow> prc s' q = prc s q) \<and>
     threads (prc s' p) = i # replicate 7 0 \<and> pid (prc s' p) = 0 \<and> p_name (prc s' p) = ''init'' \<and>
     active_thread (prc s' p) = i \<and> current_p s' = p \<and> pid_count s' = 1 \<and>
     kmm s' = k' \<and> length (tids s') = MAX_TID \<and> thread_ticks s' = thread_ticks s \<and>
     (\<exists>j. tids s' = (tids s)[j := True])"
proof -
  have pg: "palloc (kmm s) = Some (p, k)" "p \<noteq> 0" "palloc_mult k 1 = Some (i, k')" "i \<noteq> 0"
    "tid (thr s i) \<noteq> 513" "length (tids s) = MAX_TID"
    using can by (auto simp: can_create_def)
  let ?s0 = "(k_init s all_procs)\<lparr>kmm := k\<rparr>"
  have prc0: "prc ?s0 = prc s" by (simp add: k_init_def)
  have "k_palloc (k_init s all_procs) = Some (p, ?s0)" using pg(1) by (simp add: k_palloc_def k_init_def)
  moreover obtain f where f: "proc_streams p ?s0 = Some (upd_prc p f ?s0)" "\<And>r. threads (f r) = threads r"
    using proc_streams_fresh [of ?s0 p] blank unfolding prc0 blank_def by blast
  moreover define s1 where "s1 = proc_pid p ((upd_prc p (\<lambda>r. r\<lparr>p_name := ''init''\<rparr>) (upd_prc p f ?s0))\<lparr>pid_count := 0\<rparr>)"
  moreover have "length (threads (prc s1 p)) = 8"
    using blank f(2) by (simp add: s1_def proc_pid_def k_init_def blank_def)
  then have "for_loop_m 0 MAX_NUM_THREADS (\<lambda>i xs. arr_put xs i 0) (threads (prc s1 p)) = Some (replicate 8 0)"
    by (rule table_cleared)
  moreover define s2 where "s2 = upd_prc p (\<lambda>r. r\<lparr>p_wait_code := 0\<rparr>)
      (k_init ((upd_prc p (\<lambda>r. r\<lparr>threads := replicate 8 0\<rparr>) s1)\<lparr>current_p := p\<rparr>) (proc_waiters p))"
  ultimately have eq: "init_processes s idle_code = do {
       s \<leftarrow> init_threads s2 idle_code p; t \<leftarrow> arr_get (threads (prc s p)) 0;
       k_insert (upd_prc p (\<lambda>r. r\<lparr>active_thread := t\<rparr>) s) all_procs (PNode p) }"
    using pg(2) by (simp add: init_processes_def Let_def)
  have s2: "nodes s2 = list_init heap_ops (list_init heap_ops (nodes s) all_procs) (proc_waiters p)" "kmm s2 = k"
    "thr s2 = thr s" "running s2 = running s" "tids s2 = tids s" "thread_ticks s2 = thread_ticks s"
    "threads (prc s2 p) = replicate 8 0" "pid (prc s2 p) = 0" "p_name (prc s2 p) = ''init''" "current_p s2 = p"
    "pid_count s2 = 1" "\<And>q. q \<noteq> p \<Longrightarrow> prc s2 q = prc s q"
    by (simp_all add: s2_def s1_def proc_pid_def k_init_def upd_prc_def)
  obtain s3 where s3: "init_threads s2 idle_code p = Some s3" "thread_lists (nodes s3) [i] [] []"
      "same_on heap_ops (- (sched_nodes \<union> {TWaitersHead i, TWaitersTail i})) (nodes s2) (nodes s3)"
      "t_state (thr s3 i) = THREAD_READY" "t_proc (thr s3 i) = p" "child_num (thr s3 i) = 0"
      "f_function (t_frame (thr s3 i)) = idle_code" "t_state (thr s3 (running s)) = THREAD_BLOCKED"
      "\<forall>u. u \<noteq> i \<and> u \<noteq> running s \<longrightarrow> thr s3 u = thr s u"
      "prc s3 = (prc s2)(p := (prc s2 p)\<lparr>threads := (replicate 8 0)[0 := i]\<rparr>)"
      "idle_t s3 = i" "running s3 = running s" "kmm s3 = k'" "length (tids s3) = MAX_TID" "thread_ticks s3 = thread_ticks s"
      "current_p s3 = p" "pid_count s3 = 1" "\<exists>j. tids s3 = (tids s)[j := True]"
    using init_threads_lists [of s2 i k' p idle_code] pg(3-6) s2 b by auto
  have arr: "arr_get (threads (prc s3 p)) 0 = Some i" using s3(10) by (simp add: arr_get_def)
  have w: "same_on heap_ops (- {PWaitersHead p, PWaitersTail p}) (list_init heap_ops (nodes s) all_procs) (nodes s2)"
    using waiters_init(2) [of "proc_waiters p" "list_init heap_ops (nodes s) all_procs"] unfolding s2(1)
    by (simp add: proc_waiters_def)
  have "dll heap_ops (nodes s3) all_procs (map PNode [])"
    by (rule all_procs_frame [OF all_procs_frame [OF _ w] s3(3)])
       (auto simp: all_procs_init proc_nodes_def sched_nodes_def)
  then obtain h where h: "k_insert (upd_prc p (\<lambda>r. r\<lparr>active_thread := i\<rparr>) s3) all_procs (PNode p) =
        Some ((upd_prc p (\<lambda>r. r\<lparr>active_thread := i\<rparr>) s3)\<lparr>nodes := h\<rparr>)"
      "dll heap_ops h all_procs [PNode p]" "same_on heap_ops (- proc_nodes) (nodes s3) h"
    using all_procs_insert [of "upd_prc p (\<lambda>r. r\<lparr>active_thread := i\<rparr>) s3" p] by auto
  let ?s = "(upd_prc p (\<lambda>r. r\<lparr>active_thread := i\<rparr>) s3)\<lparr>nodes := h\<rparr>"
  have "thread_lists h [i] [] []"
    by (rule thread_lists_frame [OF s3(2) same_on_disj [OF h(3)]]) (use proc_nodes_apart(1) in blast)
  moreover have "init_processes s idle_code = Some ?s" using eq s3(1) arr h(1) by simp
  moreover have "placed ?s i" using s3(5,6,10) by (simp add: placed_def)
  moreover have "threads (prc ?s p) = i # replicate 7 0" using s3(10) by (simp add: eval_nat_numeral)
  moreover have "current_p ?s = p" "pid_count ?s = 1" using s3(16,17) by (simp_all add: upd_prc_def)
  moreover have "tids ?s = tids s3" by (simp add: upd_prc_def)
  ultimately show ?thesis using h(2) s3 s2 by (intro exI [of _ ?s]) simp
qed


section \<open>The first switches\<close>

lemma sched_size_two: "thread_lists h [a, b] bs ds \<Longrightarrow> list_size heap_ops h ready_threads = Some 2"
  using ready_size [of h "[a, b]" bs ds] by simp

text \<open>The boot thread, marked as blocked but in no list, gives the processor away for good.\<close>

lemma schedule_boot:
  assumes lists: "thread_lists (nodes s) [c, i] [] []" and b: "running s \<notin> {c, i}" "t_state (thr s (running s)) = THREAD_BLOCKED"
    and c: "t_state (thr s c) = THREAD_READY" "placed s c" and i: "t_state (thr s i) = THREAD_READY" "placed s i"
  shows "\<exists>s'. schedule s = Some (Switched, s') \<and> running s' = c \<and> sched_ok s' [i] [] \<and> idle_t s' = idle_t s \<and>
     thread_ticks s' = thread_ticks s \<and> same_on heap_ops (- sched_nodes) (nodes s) (nodes s')"
proof -
  let ?s0 = "disable_interrupts s"
  obtain h where h: "k_pop ?s0 ready_threads = Some (Some (TNode c), ?s0\<lparr>nodes := h\<rparr>)" "thread_lists h [i] [] []"
      "same_on heap_ops (- sched_nodes) (nodes s) h"
    using ready_pop [of ?s0 c "[i]" "[]" "[]"] lists by auto
  have "finish_schedule (switch_threads (?s0\<lparr>nodes := h\<rparr>) c) = Some (dispatched c (?s0\<lparr>nodes := h\<rparr>))"
    by (rule finish_quiet) (use h(2) c(2) in simp_all)
  then have "schedule s = Some (Switched, dispatched c (?s0\<lparr>nodes := h\<rparr>))"
    using sched_size_two [OF lists] h(1) b c(1) by (simp add: schedule_def Let_def THREAD_CUR_def)
  moreover have "c \<noteq> i" using lists by (auto simp: thread_lists_def)
  then have "sched_ok (dispatched c (?s0\<lparr>nodes := h\<rparr>)) [i] []"
    using h(2) c i by (simp add: sched_ok_def)
  ultimately show ?thesis using h(3) by simp
qed

text \<open>With one other thread ready, \<open>schedule\<close> leaves that thread, running, in front of the ready list.\<close>

lemma schedule_single_listed:
  assumes ok: "sched_ok s [t] bs"
  shows "\<exists>s'. schedule s = Some (Switched, s') \<and> running s' = t \<and> listed_ok s' [t, running s] bs \<and>
     idle_t s' = idle_t s \<and> same_on heap_ops (- sched_nodes) (nodes s) (nodes s')"
proof -
  let ?c = "running s" and ?s0 = "disable_interrupts s"
  have lists: "thread_lists (nodes s) [t] bs []" and c: "?c \<notin> set ([t] @ bs)"
    and run: "t_state (thr s ?c) = THREAD_RUNNING" and ready: "t_state (thr s t) = THREAD_READY" "placed s t"
    and place: "placed s ?c" and blocked: "\<And>u. u \<in> set bs \<Longrightarrow> t_state (thr s u) = THREAD_BLOCKED"
    using ok by (auto simp: sched_ok_def)
  have tb: "t \<noteq> ?c" "t \<notin> set bs" using c lists by (auto simp: thread_lists_def)
  let ?s1 = "set_state ?c THREAD_READY ?s0"
  obtain h where h: "k_insert_end ?s1 ready_threads (TNode ?c) = Some (?s1\<lparr>nodes := h\<rparr>)" "thread_lists h [t, ?c] bs []"
      "same_on heap_ops (- sched_nodes) (nodes s) h"
    using ready_insert_end [of ?s1 "[t]" bs "[]" ?c] lists c by auto
  let ?s2 = "?s1\<lparr>nodes := h\<rparr>"
  have "finish_schedule (switch_threads ?s2 t) = Some (dispatched t ?s2)"
    by (rule finish_quiet) (use h(2) ready(2) in simp_all)
  moreover have "list_size heap_ops (nodes s) ready_threads = Some 1" using ready_size [OF lists] by simp
  moreover have "n_next (nodes s ReadyHead) = Some (TNode t)"
    using thread_lists_solo [OF lists] by (simp add: solo_def)
  ultimately have "schedule s = Some (Switched, dispatched t ?s2)"
    using h(1) tb run ready(1) by (simp add: schedule_def Let_def THREAD_CUR_def)
  moreover have "listed_ok (dispatched t ?s2) [t, ?c] bs"
    using h(2) tb c ready(2) place blocked by (auto simp: listed_ok_def)
  ultimately show ?thesis using h(3) by simp
qed

lemma k_ticks_append: "k_ticks (m + n) s = do { s \<leftarrow> k_ticks m s; k_ticks n s }"
  by (induction m arbitrary: s) (simp_all add: split_def)

lemma sched_ticked [simp]: "sched_ok (ticked n s) rs bs = sched_ok s rs bs"
  by (simp add: sched_ok_def)

lemma ticks_to_switch:
  assumes "sched_ok s [t] bs"
  shows "\<exists>s'. k_ticks (8 - unat (thread_ticks s) mod 8) s = Some s' \<and> running s' = t \<and>
     listed_ok s' [t, running s] bs \<and> idle_t s' = idle_t s \<and> same_on heap_ops (- sched_nodes) (nodes s) (nodes s')"
proof -
  let ?m = "unat (thread_ticks s) mod 8"
  have m: "?m < 8" by (rule mod_less_divisor) simp
  then obtain n where n: "?m + n = 7" using that [of "7 - ?m"] by linarith
  let ?s = "ticked n s"
  have "k_ticks n s = Some ?s" using n by (intro ticks_in_slice) simp
  moreover have "unat (of_nat n :: u8) = n" using n by (simp add: unat_of_nat)
  then have "unat (thread_ticks ?s) mod 8 = (unat (thread_ticks s) + n) mod 8"
    by (simp add: unat_word_ariths mod_mod_cancel)
  then have "(unat (thread_ticks ?s) + 1) mod 8 = 0"
    using n mod_add_left_eq [of "unat (thread_ticks s)" 8 n] by (simp add: mod_Suc)
  then have "timer_interrupt_handler ?s = schedule (ticked (Suc 0) ?s)" by (rule tick_schedules)
  moreover obtain s' where "schedule (ticked (Suc 0) ?s) = Some (Switched, s')" "running s' = t"
      "listed_ok s' [t, running s] bs" "idle_t s' = idle_t s" "same_on heap_ops (- sched_nodes) (nodes s) (nodes s')"
    using schedule_single_listed [of "ticked (Suc 0) ?s" t bs] assms by auto
  moreover have "8 - ?m = n + 1" using n by simp
  then have "k_ticks (8 - ?m) s = do { s \<leftarrow> k_ticks n s; k_ticks 1 s }" by (simp only: k_ticks_append)
  ultimately show ?thesis by simp
qed

text \<open>From the first yield of the boot thread to the shell that runs alone.\<close>

lemma boot_switches:
  assumes lists: "thread_lists (nodes s) [c, i] [] []" and b: "running s \<notin> {c, i}" "t_state (thr s (running s)) = THREAD_BLOCKED"
    and c: "t_state (thr s c) = THREAD_READY" "placed s c" and i: "t_state (thr s i) = THREAD_READY" "placed s i" "idle_t s = i"
    and ps: "dll heap_ops (nodes s) all_procs (map PNode ps)"
  shows "\<exists>s3 s4 s5. thread_yield s = Some (Switched, s3) \<and> running s3 = c \<and>
     k_ticks (8 - unat (thread_ticks s) mod 8) s3 = Some s4 \<and> running s4 = i \<and>
     idle_round s4 = Some (Switched, s5) \<and> solo_ok s5 c [i] \<and> idling s5 [i] \<and>
     dll heap_ops (nodes s5) all_procs (map PNode ps)"
proof -
  obtain s3 where s3: "thread_yield s = Some (Switched, s3)" "running s3 = c" "sched_ok s3 [i] []" "idle_t s3 = i"
      "thread_ticks s3 = thread_ticks s" "same_on heap_ops (- sched_nodes) (nodes s) (nodes s3)"
    using schedule_boot [OF lists b c i(1,2)] i(3) unfolding thread_yield_def by auto
  obtain s4 where s4: "k_ticks (8 - unat (thread_ticks s) mod 8) s3 = Some s4" "running s4 = i"
      "listed_ok s4 [i, c] []" "idle_t s4 = i" "same_on heap_ops (- sched_nodes) (nodes s3) (nodes s4)"
    using ticks_to_switch [OF s3(3)] s3(2,4,5) by auto
  have ic: "i \<noteq> c" using lists by (auto simp: thread_lists_def)
  obtain h where h: "thread_block s4 = Some (Switched,
        dispatched c (disable_interrupts ((set_state i THREAD_BLOCKED s4)\<lparr>nodes := h\<rparr>)))"
      "thread_lists h [c] [i] []" "same_on heap_ops (- sched_nodes) (nodes s4) h"
    using block_to_single [OF s4(3), of c] s4(2) ic by auto
  let ?s5 = "dispatched c (disable_interrupts ((set_state i THREAD_BLOCKED s4)\<lparr>nodes := h\<rparr>))"
  have "listed_ok ?s5 [c] [i]" using s4(3) h(2) ic by (auto simp: listed_ok_def placed_def)
  then have "solo_ok ?s5 c [i]" by (rule listed_ok_solo)
  moreover have "idling ?s5 [i]" using s4(3,4) by (auto simp: idling_def listed_ok_def placed_def)
  moreover have "same_on heap_ops (- sched_nodes) (nodes s) h"
    using s3(6) s4(5) h(3) by (blast intro: same_on_trans)
  then have "dll heap_ops (nodes ?s5) all_procs (map PNode ps)"
    using all_procs_frame [OF ps _ proc_nodes_apart(1), of h] by simp
  ultimately show ?thesis using s3(1,2) s4(1,2) h(1) unfolding idle_round_def by blast
qed

text \<open>C2: From the start of the kernel to the shell that runs alone, in the steps that concern threads.  With memory for four pages,
  \<open>init_processes\<close> sets up the first process and the idle thread, \<open>proc_create\<close> the shell, whose thread comes
  first in the ready list; the first yield of the boot thread gives the processor to the shell for good,
  the next end of a slice to the idle thread, and the first round of \<open>idle\<close> blocks it: from then on the
  shell runs alone, with the idle thread blocked, ready to run commands.\<close>

theorem boot_reaches_shell:
  assumes init: "can_create s p k i k'" "blank s p []" "running s \<noteq> i"
    and shell: "can_create (s\<lparr>kmm := k'\<rparr>) q l c l'" "blank s q [running s, i]" "c \<notin> {running s, i}" "q \<noteq> p"
  shows "\<exists>s1 s2. init_processes s idle_code = Some s1 \<and> proc_create s1 ''shell'' f 0 = Some (q, s2) \<and>
     f_function (t_frame (thr s1 i)) = idle_code \<and> f_function (t_frame (thr s2 c)) = f \<and>
     (\<forall>m. \<exists>s3 s4 s5. thread_yield (s2\<lparr>kmm := m\<rparr>) = Some (Switched, s3) \<and> running s3 = c \<and>
        k_ticks (8 - unat (thread_ticks s) mod 8) s3 = Some s4 \<and> running s4 = i \<and>
        idle_round s4 = Some (Switched, s5) \<and> solo_ok s5 c [i] \<and> idling s5 [i] \<and>
        dll heap_ops (nodes s5) all_procs (map PNode [p, q]))"
proof -
  let ?b = "running s"
  obtain s1 where s1: "init_processes s idle_code = Some s1" "thread_lists (nodes s1) [i] [] []"
      "dll heap_ops (nodes s1) all_procs (map PNode [p])" "idle_t s1 = i" "running s1 = ?b"
      "t_state (thr s1 i) = THREAD_READY" "f_function (t_frame (thr s1 i)) = idle_code" "placed s1 i"
      "t_state (thr s1 ?b) = THREAD_BLOCKED" "\<And>u. u \<noteq> i \<Longrightarrow> u \<noteq> ?b \<Longrightarrow> thr s1 u = thr s u"
      "\<And>u. u \<noteq> p \<Longrightarrow> prc s1 u = prc s u" "kmm s1 = k'" "length (tids s1) = MAX_TID" "thread_ticks s1 = thread_ticks s"
    using init_processes_lists [OF init, of idle_code] by auto
  have can: "can_create s1 q l c l'" and blank: "blank s1 q [?b, i]"
    using shell s1(10-13) by (auto simp: can_create_def blank_def)
  have ins: "\<exists>h. k_insert n ready_threads (TNode c) = Some (n\<lparr>nodes := h\<rparr>) \<and> thread_lists h [c, i] [] [] \<and>
      same_on heap_ops (- sched_nodes) (nodes n) h" if "same_on heap_ops sched_nodes (nodes s1) (nodes n)" for n
    using ready_insert [of n "[i]" "[]" "[]" c] thread_lists_frame [OF s1(2) that] shell(3) by auto
  obtain s2 where s2: "proc_create s1 ''shell'' f 0 = Some (q, s2)" "thread_lists (nodes s2) [c, i] [] []"
      "\<And>u. u \<in> {?b, i} \<Longrightarrow> thr s2 u = thr s1 u \<and> placed s2 u = placed s1 u"
      "t_state (thr s2 c) = THREAD_READY" "placed s2 c" "lone (s2\<lparr>running := c\<rparr>) c q [] [p, q]" "running s2 = ?b"
      "idle_t s2 = i" "thread_ticks s2 = thread_ticks s" "f_function (t_frame (thr s2 c)) = f"
    using proc_create_pages [OF blank can _ _ s1(3) _ ins, of "''shell''" f 0] shell(3,4) s1(4,5,14) by auto
  have run: "\<exists>s3 s4 s5. thread_yield (s2\<lparr>kmm := m\<rparr>) = Some (Switched, s3) \<and> running s3 = c \<and>
        k_ticks (8 - unat (thread_ticks s) mod 8) s3 = Some s4 \<and> running s4 = i \<and>
        idle_round s4 = Some (Switched, s5) \<and> solo_ok s5 c [i] \<and> idling s5 [i] \<and>
        dll heap_ops (nodes s5) all_procs (map PNode [p, q])" for m
  proof -
    have pl: "placed (s2\<lparr>kmm := m\<rparr>) u = placed s2 u" for u by (simp add: placed_def)
    have "dll heap_ops (nodes (s2\<lparr>kmm := m\<rparr>)) all_procs (map PNode [p, q])" using s2(6) by (simp add: lone_def)
    then show ?thesis
      using boot_switches [of "s2\<lparr>kmm := m\<rparr>" c i "[p, q]"] s2 s1(6,8,9) init(3) shell(3) pl by auto
  qed
  show ?thesis using s1(1,7) s2(1,10) run by blast
qed


text \<open>A machine at boot: the boot thread 0x1000 runs, and of 20 pages only the first is in use.\<close>

abbreviation demo_mem :: "pmem \<Rightarrow> u32 kalloc" where
  "demo_mem m \<equiv> demo_pages\<lparr>kmem := m\<rparr>"

lemma bit_run_one: "bit_run m b v i 1 = (bitmap_test m b (of_nat i) = v)"
  by (simp add: bit_run_def)

lemma demo_next_page:
  assumes used: "\<And>x. unat x < 20 \<Longrightarrow> page_used (demo_mem m) x = (unat x \<le> j)" and "j < 18"
  shows "\<exists>m'. palloc_mult (demo_mem m) 1 = Some (page_addr (Suc j), demo_mem m') \<and>
     (\<forall>x. unat x < 20 \<longrightarrow> page_used (demo_mem m') x = (unat x \<le> Suc j))"
proof -
  let ?b = "\<lparr>map_p = start_addr, bits = 20\<rparr>"
  have b: "free_map (demo_mem m) = ?b" "lval (palloc_lock (demo_mem m)) = 0" by (simp_all add: demo_pages_def)
  have u: "unat (of_nat i :: u32) = i" if "i < 20" for i using that by (simp add: unat_of_nat)
  have test: "bitmap_test m ?b (of_nat i) = (i \<le> j)" if "i < 20" for i
    using used [of "of_nat i"] u [OF that] that by (simp add: page_used_def demo_pages_def)
  have free: "bit_run m ?b False (Suc j) 1" unfolding bit_run_one using assms(2) test [of "Suc j"] by simp
  have only: "i = Suc j" if "first_run m ?b False 0 20 1 i" for i
  proof -
    have i: "i < 20" "\<not> bitmap_test m ?b (of_nat i)" "\<And>r. r < i \<Longrightarrow> \<not> bit_run m ?b False r 1"
      using that by (auto simp: first_run_def bit_run_one [unfolded One_nat_def])
    then have "j < i" using test [of i] by simp
    moreover have "\<not> Suc j < i" using i(3) free by blast
    ultimately show ?thesis by simp
  qed
  obtain res where res: "palloc_mult (demo_mem m) 1 = Some res" "palloc_outcome (demo_mem m) 1 res"
    using palloc_mult_result [OF b(2), of 1] b(1) by auto
  have "\<not> (\<forall>i. i + 1 \<le> 20 \<longrightarrow> \<not> bit_run m ?b False i 1)" using free assms(2) by (auto intro!: exI [of _ "Suc j"])
  then obtain i m' where m': "first_run m ?b False 0 20 1 i" "res = (page_addr i, demo_mem m')"
      "\<And>x. page_used (demo_mem m') x = (i \<le> unat x \<and> unat x < i + 1 \<or> page_used (demo_mem m) x)"
    using res(2) unfolding palloc_outcome_def b(1) by auto
  have "page_used (demo_mem m') x = (unat x \<le> Suc j)" if "unat x < 20" for x
    using m'(3) [of x] only [OF m'(1)] used [OF that] by auto
  then show ?thesis using res(1) m'(2) only [OF m'(1)] by blast
qed


definition demo_boot :: kstate where
  "demo_boot = demo_state\<lparr>kmm := demo_mem (\<lambda>_. 1)\<rparr>"

lemma demo_boot_used: "unat x < 20 \<Longrightarrow> page_used (demo_mem (\<lambda>_. 1)) x = (unat x \<le> 0)"
  by (simp add: page_used_def bitmap_test_def demo_pages_def bit_mask_exp unat_mod and_exp_eq_0_iff_not_bit bit_1_iff)

text \<open>Four pages after the first.\<close>

lemma demo_four_pages:
  obtains m1 m2 m3 m4 where
    "palloc_mult (demo_mem (\<lambda>_. 1)) 1 = Some (0x401000, demo_mem m1)" "palloc_mult (demo_mem m1) 1 = Some (0x402000, demo_mem m2)"
    "palloc_mult (demo_mem m2) 1 = Some (0x403000, demo_mem m3)" "palloc_mult (demo_mem m3) 1 = Some (0x404000, demo_mem m4)"
proof -
  have a: "page_addr (Suc 0) = 0x401000" "page_addr (Suc 1) = 0x402000" "page_addr (Suc 2) = 0x403000"
    "page_addr (Suc 3) = 0x404000" by (simp_all add: page_addr_def)
  obtain m1 where m1: "palloc_mult (demo_mem (\<lambda>_. 1)) 1 = Some (page_addr (Suc 0), demo_mem m1)"
      "\<And>x. unat x < 20 \<Longrightarrow> page_used (demo_mem m1) x = (unat x \<le> 1)"
    using demo_next_page [OF demo_boot_used] by auto
  obtain m2 where m2: "palloc_mult (demo_mem m1) 1 = Some (page_addr (Suc 1), demo_mem m2)"
      "\<And>x. unat x < 20 \<Longrightarrow> page_used (demo_mem m2) x = (unat x \<le> 2)"
    using demo_next_page [OF m1(2)] by (auto simp: numeral_2_eq_2)
  obtain m3 where m3: "palloc_mult (demo_mem m2) 1 = Some (page_addr (Suc 2), demo_mem m3)"
      "\<And>x. unat x < 20 \<Longrightarrow> page_used (demo_mem m3) x = (unat x \<le> 3)"
    using demo_next_page [OF m2(2)] by (auto simp: numeral_3_eq_3)
  obtain m4 where "palloc_mult (demo_mem m3) 1 = Some (page_addr (Suc 3), demo_mem m4)"
    using demo_next_page [OF m3(2)] by auto
  then show thesis using that m1(1) m2(1) m3(1) unfolding a by blast
qed

theorem boot_reaches_shell_witness:
  "\<exists>s1 s2 s3 s4 s5. init_processes demo_boot 0x100 = Some s1 \<and> proc_create s1 ''shell'' 0x200 0 = Some (0x403000, s2) \<and>
     thread_yield s2 = Some (Switched, s3) \<and> running s3 = 0x404000 \<and> k_ticks 8 s3 = Some s4 \<and> running s4 = 0x402000 \<and>
     idle_round s4 = Some (Switched, s5) \<and> solo_ok s5 0x404000 [0x402000]"
proof -
  obtain m1 m2 m3 m4 where m: "palloc_mult (demo_mem (\<lambda>_. 1)) 1 = Some (0x401000, demo_mem m1)"
    "palloc_mult (demo_mem m1) 1 = Some (0x402000, demo_mem m2)" "palloc_mult (demo_mem m2) 1 = Some (0x403000, demo_mem m3)"
    "palloc_mult (demo_mem m3) 1 = Some (0x404000, demo_mem m4)" by (rule demo_four_pages)
  have 1: "can_create demo_boot 0x401000 (demo_mem m1) 0x402000 (demo_mem m2)"
    using m by (simp add: can_create_def palloc_def demo_boot_def inner_def demo_state_def demo_thread_def demo_pages_def)
  have 2: "can_create (demo_boot\<lparr>kmm := demo_mem m2\<rparr>) 0x403000 (demo_mem m3) 0x404000 (demo_mem m4)"
    using m by (simp add: can_create_def palloc_def demo_boot_def inner_def demo_state_def demo_thread_def demo_pages_def)
  have b: "running demo_boot = 0x1000" "unat (thread_ticks demo_boot) mod 8 = 0" by (simp_all add: demo_boot_def demo_state_def)
  have 3: "blank demo_boot 0x401000 []" "blank demo_boot 0x403000 [running demo_boot, 0x402000]"
    by (simp_all add: blank_def demo_boot_def demo_state_def demo_process_def demo_stream_def)
  obtain s1 s2 where s: "init_processes demo_boot 0x100 = Some s1" "proc_create s1 ''shell'' 0x200 0 = Some (0x403000, s2)"
      "\<forall>m. \<exists>s3 s4 s5. thread_yield (s2\<lparr>kmm := m\<rparr>) = Some (Switched, s3) \<and> running s3 = 0x404000 \<and>
        k_ticks (8 - unat (thread_ticks demo_boot) mod 8) s3 = Some s4 \<and> running s4 = 0x402000 \<and>
        idle_round s4 = Some (Switched, s5) \<and> solo_ok s5 0x404000 [0x402000] \<and> idling s5 [0x402000] \<and>
        dll heap_ops (nodes s5) all_procs (map PNode [0x401000, 0x403000])"
    using boot_reaches_shell [OF 1 3(1) _ 2 3(2), of "0x100" "0x200"] b(1) by auto
  have "s2\<lparr>kmm := kmm s2\<rparr> = s2" by simp
  then show ?thesis using s(1,2) s(3) [rule_format, of "kmm s2"] b(2) by auto
qed

end
