(* ===== verification/Kill.thy ===== *)
theory Kill
  imports Boot
begin

text \<open>
  Killing a process from outside: \<open>proc_kill\<close> of a process whose only thread is ready takes back what
  \<open>proc_create\<close> did.
\<close>

section \<open>Killing a ready thread\<close>

text \<open>The state behind \<open>thread_kill\<close>, apart from the list nodes and the memory.\<close>

definition killed :: "kstate \<Rightarrow> u32 \<Rightarrow> u32 \<Rightarrow> nref heap \<Rightarrow> u32 kalloc \<Rightarrow> kstate" where
  "killed s p c h k = (upd_prc p (\<lambda>r. r\<lparr>threads := (threads r)[unat (child_num (thr s c)) := 0],
     num_live_threads := 0\<rparr>) (set_state c THREAD_DYING s))\<lparr>nodes := h, kmm := k, interrupts := True\<rparr>"

lemma killed_simps [simp]:
  "nodes (killed s p c h k) = h" "kmm (killed s p c h k) = k" "running (killed s p c h k) = running s"
  "idle_t (killed s p c h k) = idle_t s" "tids (killed s p c h k) = tids s" "pid_count (killed s p c h k) = pid_count s"
  "thread_ticks (killed s p c h k) = thread_ticks s"
  "prc (killed s p c h k) = (prc s)(p := (prc s p)\<lparr>threads := (threads (prc s p))[unat (child_num (thr s c)) := 0],
     num_live_threads := 0\<rparr>)"
  "thr (killed s p c h k) = (thr s)(c := (thr s c)\<lparr>t_state := THREAD_DYING\<rparr>)"
  by (simp_all add: killed_def set_state_def upd_prc_def upd_thr_def)

lemma thread_kill_ready:
  assumes lists: "thread_lists (nodes s) rs bs []" and c: "c \<in> set rs" "t_state (thr s c) = THREAD_READY"
    and l: "lone (s\<lparr>running := c\<rparr>) c p [] ps"
    and free: "pfree (kmm s) p = Some (e1, k1)" "pfree_mult k1 c 1 = Some (e2, k2)"
  shows "\<exists>h. thread_kill s c = Some (Returns 0, killed s p c h k2) \<and> thread_lists h (remove1 c rs) bs [] \<and>
     dll heap_ops h all_procs (map PNode (remove1 p ps))"
proof -
  have f: "c \<noteq> 0" "p \<noteq> 0" "t_proc (thr s c) = p" "unat (child_num (thr s c)) < length (threads (prc s p))"
    "num_live_threads (prc s p) = 1" "p \<in> set ps"
    using l by (simp_all add: lone_def)
  let ?s0 = "set_state c THREAD_DYING (disable_interrupts s)"
  obtain h1 where h1: "k_delete ?s0 ready_threads (TNode c) = Some (Some (TNode c), ?s0\<lparr>nodes := h1\<rparr>)"
      "thread_lists h1 (remove1 c rs) bs []" "same_on heap_ops (- sched_nodes) (nodes s) h1"
    using ready_delete_frame [of ?s0 rs bs "[]" c] lists c by auto
  let ?s1 = "?s0\<lparr>nodes := h1\<rparr>"
  have frame: "same_on heap_ops (- sched_nodes) (nodes (s\<lparr>running := c\<rparr>)) h1" using h1(3) by simp
  note w = lone_frame [OF l frame]
  have notify: "thread_notify ?s1 c True (-1) = Some (-1, ?s1)"
    using waiters_empty [of ?s1 "thread_waiters c"] w(1) by (simp add: thread_notify_def notify_waiters_def)
  let ?s2 = "upd_prc p (\<lambda>r. r\<lparr>threads := (threads (prc s p))[unat (child_num (thr s c)) := 0], num_live_threads := 0\<rparr>) ?s1"
  have "proc_notify ?s2 p True 0 = Some (-1, ?s2)"
    using waiters_empty [of ?s2 "proc_waiters p"] w(2) by (simp add: proc_notify_def notify_waiters_def)
  moreover obtain h where h: "k_delete ?s2 all_procs (PNode p) = Some (Some (PNode p), ?s2\<lparr>nodes := h\<rparr>)"
      "dll heap_ops h all_procs (map PNode (remove1 p ps))" "thread_lists h (remove1 c rs) bs []"
    using all_procs_delete [of ?s2 ps p "remove1 c rs" bs "[]"] w(3) f(6) h1(2) by auto
  ultimately have "proc_cleanup ?s2 p = Some (?s2\<lparr>nodes := h\<rparr>)" using f(2) by (simp add: proc_cleanup_def)
  moreover have "upd_prc p (\<lambda>r. r\<lparr>threads := (threads (prc s p))[unat (child_num (thr s c)) := 0],
       num_live_threads := num_live_threads r - 1\<rparr>) ?s1 = ?s2"
    using f(5) by (simp add: upd_prc_def)
  ultimately have "thread_cleanup ?s1 c = Some (0, ?s2\<lparr>nodes := h, kmm := k2\<rparr>)"
    using f free by (simp add: thread_cleanup_def get_thread_proc_def arr_put_def Let_def k_pfree_def)
  moreover have "enable_interrupts (?s2\<lparr>nodes := h, kmm := k2\<rparr>) = killed s p c h k2"
    by (simp add: killed_def upd_prc_def set_state_def upd_thr_def enable_interrupts_def disable_interrupts_def)
  ultimately have "thread_kill s c = Some (Returns 0, killed s p c h k2)"
    using f(1) c(2) h1(1) notify by (simp add: thread_kill_def kill_from_def Let_def)
  then show ?thesis using h(2,3) by blast
qed

section \<open>Killing a process\<close>

lemma kill_loop_empty:
  "unat i + n \<le> length (threads (prc s p)) \<Longrightarrow> length (threads (prc s p)) = 8 \<Longrightarrow>
     (\<forall>j<8. unat i \<le> j \<longrightarrow> threads (prc s p) ! j = 0) \<Longrightarrow> kill_loop p n i alive s = Some (Returns alive, s)"
proof (induction n arbitrary: i)
  case (Suc n)
  then have i: "unat i < 8" "threads (prc s p) ! unat i = 0" by auto
  then have n: "unat (i + 1) = unat i + 1" by (subst unat_add_nowrap) simp_all
  have "kill_loop p n (i + 1) alive s = Some (Returns alive, s)"
    using Suc.prems n by (intro Suc.IH) auto
  then show ?case using i Suc.prems(2) by (simp add: arr_get_def)
qed simp

text \<open>A process whose thread table holds one thread, ready, in the first slot.\<close>

lemma proc_kill_ready:
  assumes lists: "thread_lists (nodes s) rs bs []" and c: "c \<in> set rs" "t_state (thr s c) = THREAD_READY" "child_num (thr s c) = 0"
    and l: "lone (s\<lparr>running := c\<rparr>) c p [] ps" and tab: "threads (prc s p) = c # replicate 7 0"
    and free: "pfree (kmm s) p = Some (e1, k1)" "pfree_mult k1 c 1 = Some (e2, k2)"
  shows "\<exists>h. (\<forall>r. proc_kill s p r = Some (if r then Some 0 else None, Returns (), killed s p c h k2)) \<and>
     thread_lists h (remove1 c rs) bs [] \<and> dll heap_ops h all_procs (map PNode (remove1 p ps))"
proof -
  obtain h where h: "thread_kill s c = Some (Returns 0, killed s p c h k2)" "thread_lists h (remove1 c rs) bs []"
     "dll heap_ops h all_procs (map PNode (remove1 p ps))"
    using thread_kill_ready [OF lists c(1,2) l free] by blast
  let ?s = "killed s p c h k2"
  have f: "c \<noteq> 0" "p \<noteq> 0" "num_live_threads (prc s p) = 1" using l by (simp_all add: lone_def)
  have "threads (prc ?s p) = replicate 8 0" using tab c(3) by (simp add: eval_nat_numeral)
  then have rest: "kill_loop p 7 1 0 ?s = Some (Returns 0, ?s)" by (intro kill_loop_empty) auto
  have "kill_loop p (Suc 7) 0 1 s = Some (Returns 0, ?s)"
    unfolding kill_loop.simps(2) using f(1) h(1) c(2) tab rest by (simp add: arr_get_def)
  moreover have "(8 :: nat) = Suc 7" by simp
  ultimately have "kill_loop p 8 0 (uint (num_live_threads (prc s p))) s = Some (Returns 0, ?s)"
    using f(3) by (simp only: uint_1)
  then have "proc_kill s p r = Some (if r then Some 0 else None, Returns (), ?s)" for r
    using f(2) by (simp add: proc_kill_def)
  then show ?thesis using h(2,3) by blast
qed


section \<open>Creating and killing\<close>

lemma create_then_kill:
  assumes lists: "thread_lists (nodes s) rs bs []" and blank: "blank s p us" and tab: "threads (prc s p) = replicate 8 0"
    and can: "can_create s p k c k'" and new: "c \<notin> set (rs @ bs @ us)" and name: "length name < 13"
    and ps: "dll heap_ops (nodes s) all_procs (map PNode ps)" "p \<notin> set ps"
    and free: "pfree k' p = Some (e1, k1)" "pfree_mult k1 c 1 = Some (e2, k2)"
  shows "\<exists>s1 h. proc_create s name func aux = Some (p, s1) \<and> newborn s s1 p c \<and> num_live_threads (prc s1 p) = 1 \<and>
     running s1 = running s \<and> kmm s1 = k' \<and>
     (\<forall>r. proc_kill s1 p r = Some (if r then Some 0 else None, Returns (), killed s1 p c h k2)) \<and>
     thread_lists h rs bs [] \<and> dll heap_ops h all_procs (map PNode ps)"
proof -
  have new': "c \<notin> set us" using new by simp
  have ins: "\<exists>h. k_insert n ready_threads (TNode c) = Some (n\<lparr>nodes := h\<rparr>) \<and> thread_lists h (c # rs) bs [] \<and>
      same_on heap_ops (- sched_nodes) (nodes n) h" if "same_on heap_ops sched_nodes (nodes s) (nodes n)" for n
    using ready_insert [of n rs bs "[]" c] thread_lists_frame [OF lists that] new by auto
  obtain s1 where s1: "proc_create s name func aux = Some (p, s1)" "thread_lists (nodes s1) (c # rs) bs []"
      "t_state (thr s1 c) = THREAD_READY" "lone (s1\<lparr>running := c\<rparr>) c p [] (ps @ [p])" "running s1 = running s"
      "kmm s1 = k'" "newborn s s1 p c"
    using proc_create_pages [OF blank can new' name ps ins, of func aux] by blast
  have t1: "threads (prc s1 p) = c # replicate 7 0" "child_num (thr s1 c) = 0"
    using s1(7) tab by (simp_all add: newborn_def eval_nat_numeral)
  obtain h where h: "thread_lists h (remove1 c (c # rs)) bs []" "dll heap_ops h all_procs (map PNode (remove1 p (ps @ [p])))"
      "\<And>r. proc_kill s1 p r = Some (if r then Some 0 else None, Returns (), killed s1 p c h k2)"
    using proc_kill_ready [OF s1(2) list.set_intros(1) s1(3) t1(2) s1(4) t1(1)] free unfolding s1(6) by blast
  have "remove1 p (ps @ [p]) = ps" using ps(2) by (simp add: remove1_append)
  moreover have "num_live_threads (prc s1 p) = 1" using s1(4) by (simp add: lone_def)
  ultimately show ?thesis using s1 h by auto
qed

text \<open>C25: A process that is created and killed before it runs leaves no trace in the lists and in the memory: when
  its page holds no stale thread pointers, \<open>proc_kill\<close> ends its only thread, reports that none is left
  alive, and the ready list, the blocked list, the list of processes, the running thread and the pages in
  use are as they were before \<open>proc_create\<close>.\<close>

theorem proc_create_kill:
  assumes "thread_lists (nodes s) rs bs []" and "blank s p []" and "threads (prc s p) = replicate 8 0"
    and "can_create s p k c k'" and "c \<notin> set (rs @ bs)" and "length name < 13"
    and "dll heap_ops (nodes s) all_procs (map PNode ps)" and "p \<notin> set ps"
  shows "\<exists>s1 s2. proc_create s name func aux = Some (p, s1) \<and> pid (prc s1 p) = pid_count s \<and>
     proc_kill s1 p r = Some (if r then Some 0 else None, Returns (), s2) \<and> running s2 = running s \<and>
     thread_lists (nodes s2) rs bs [] \<and> dll heap_ops (nodes s2) all_procs (map PNode ps) \<and>
     (\<forall>x. page_used (kmm s2) x = page_used (kmm s) x)"
proof -
  note pages = can_create_pages [OF assms(4)]
  obtain e1 k1 e2 k2 where free: "pfree k' p = Some (e1, k1)" "pfree_mult k1 c 1 = Some (e2, k2)"
      "\<And>x. page_used k2 x = (page_used k' x \<and> x \<noteq> page_idx p \<and> x \<noteq> page_idx c)"
    using free_two_pages [OF pages(1)] by blast
  obtain s1 h where s1: "proc_create s name func aux = Some (p, s1)" "newborn s s1 p c" "running s1 = running s"
      "\<And>r. proc_kill s1 p r = Some (if r then Some 0 else None, Returns (), killed s1 p c h k2)"
      "thread_lists h rs bs []" "dll heap_ops h all_procs (map PNode ps)"
    using create_then_kill [OF assms(1-4) _ assms(6-8) free(1,2), of func aux] assms(5) by auto
  have "page_used k2 x = page_used (kmm s) x" for x using free(3) pages(2-4) by auto
  then show ?thesis using s1 by (auto simp: newborn_def)
qed

theorem proc_create_kill_witness:
  "\<exists>s1 s2. proc_create (demo_shell\<lparr>nodes := healed shell_nodes 0x1000\<rparr>) ''test'' 0x100 0 = Some (0x401000, s1) \<and>
     proc_kill s1 0x401000 True = Some (Some 0, Returns (), s2) \<and> thread_lists (nodes s2) [0x1000] [0x4000] []"
proof -
  let ?s = "demo_shell\<lparr>nodes := healed shell_nodes 0x1000\<rparr>"
  obtain k k' where k: "can_create demo_shell 0x401000 k 0x402000 k'" using demo_shell_create by blast
  have 1: "thread_lists (nodes ?s) [0x1000] [0x4000] []" "dll heap_ops (nodes ?s) all_procs (map PNode [0x9000])"
    by (simp_all add: thread_lists_def dll_def spine_def healed_def shell_nodes_def all_procs_def)
  have 2: "blank ?s 0x401000 []" "threads (prc ?s 0x401000) = replicate 8 0"
    using demo_shell_ok(3) by (simp_all add: blank_def demo_shell_def demo_state_def demo_process_def)
  have 3: "can_create ?s 0x401000 k 0x402000 k'" using k by (simp add: can_create_def)
  show ?thesis
    using proc_create_kill [OF 1(1) 2 3 _ _ 1(2), of "''test''" "0x100" 0 True] by auto
qed

end
