(* ===== verification/Pages.thy ===== *)
theory Pages
  imports Kalloc
begin

text \<open>
  What the page allocator promises to its clients, as an abstract machine: a set of free page numbers,
  the runs of pages that clients hold, and the words that clients have stored in them.  The allocator
  of kernel/kalloc.c, on the raw memory that also holds its own bitmap, refines this machine.
\<close>

section \<open>Requests\<close>

datatype request = Alloc u32 | Free u32 u32 | Store u32 u32 | Load u32

text \<open>The answers: an address, or a loaded word; the status of \<open>pfree_mult\<close> is not one, since the code
  reports failure for all pages but the first.\<close>

fun serve :: "request \<Rightarrow> 'o kalloc \<Rightarrow> (u32 option \<times> 'o kalloc) option" where
  "serve (Alloc cnt) k = do { (a, k) \<leftarrow> palloc_mult k cnt; Some (Some a, k) }"
| "serve (Free a cnt) k = do { (_, k) \<leftarrow> pfree_mult k a cnt; Some (None, k) }"
| "serve (Store a v) k = Some (None, k\<lparr>kmem := (kmem k)(a := v)\<rparr>)"
| "serve (Load a) k = Some (Some (kmem k a), k)"

section \<open>The abstract machine\<close>

record page_pool =
  avail :: "nat set"
  held :: "(nat \<times> nat) set"
  cells :: "u32 \<rightharpoonup> u32"

definition run :: "nat \<times> nat \<Rightarrow> nat set" where
  "run r = {fst r..<fst r + snd r}"

definition page_no :: "u32 \<Rightarrow> nat" where
  "page_no a = (unat a - 4194304) div 4096"

definition first_free :: "nat \<Rightarrow> nat set \<Rightarrow> nat \<Rightarrow> nat option" where
  "first_free n F c = find (\<lambda>i. run (i, c) \<subseteq> F) [0..<Suc n - c]"

text \<open>The address of a word in a page of a held run.\<close>

definition in_held :: "page_pool \<Rightarrow> u32 \<Rightarrow> bool" where
  "in_held p a \<longleftrightarrow> unat a mod 4 = 0 \<and> start_addr \<le> a \<and> (\<exists>r\<in>held p. page_no a \<in> run r)"

text \<open>A pool of \<open>n\<close> pages.  A client may ask for at least one page, may give back a run that it holds
  unless the run contains the last page of the memory, and may access the words of the pages it holds,
  reading only what it has stored there before.\<close>

fun pool_step :: "nat \<Rightarrow> request \<Rightarrow> page_pool \<Rightarrow> (u32 option \<times> page_pool) option" where
  "pool_step n (Alloc cnt) p =
     (if cnt = 0 then None
      else case first_free n (avail p) (unat cnt) of
             None \<Rightarrow> Some (Some 0, p)
           | Some i \<Rightarrow> Some (Some (page_addr i),
               p\<lparr>avail := avail p - run (i, unat cnt), held := insert (i, unat cnt) (held p)\<rparr>))"
| "pool_step n (Free a cnt) p =
     (let r = (page_no a, unat cnt)
      in if a = page_addr (page_no a) \<and> r \<in> held p \<and> fst r + snd r < n
         then Some (None, \<lparr>avail = avail p \<union> run r, held = held p - {r},
                cells = (\<lambda>b. if page_no b \<in> run r then None else cells p b)\<rparr>)
         else None)"
| "pool_step n (Store a v) p = (if in_held p a then Some (None, p\<lparr>cells := (cells p)(a \<mapsto> v)\<rparr>) else None)"
| "pool_step n (Load a) p = map_option (\<lambda>v. (Some v, p)) (cells p a)"

section \<open>The relation of the two\<close>

definition free_pages :: "'o kalloc \<Rightarrow> nat set" where
  "free_pages k = {i. i < unat (bits (free_map k)) \<and> \<not> page_used k (of_nat i)}"

text \<open>Every page of \<open>A\<close>, the pages that were free at first, is free or in one of the held runs, which
  do not overlap; what a client has stored is in memory.\<close>

definition pool_ok :: "nat set \<Rightarrow> page_pool \<Rightarrow> bool" where
  "pool_ok A p \<longleftrightarrow> avail p \<union> \<Union> (run ` held p) = A \<and> avail p \<inter> \<Union> (run ` held p) = {} \<and>
     (\<forall>r\<in>held p. \<forall>r'\<in>held p. r \<noteq> r' \<longrightarrow> run r \<inter> run r' = {}) \<and> (\<forall>r\<in>held p. 0 < snd r) \<and>
     (\<forall>a. cells p a \<noteq> None \<longrightarrow> in_held p a)"

definition pool_rel :: "bitmap \<Rightarrow> nat set \<Rightarrow> 'o kalloc \<Rightarrow> page_pool \<Rightarrow> bool" where
  "pool_rel b A k p \<longleftrightarrow> free_map k = b \<and> lval (palloc_lock k) = 0 \<and> avail p = free_pages k \<and> pool_ok A p \<and>
     (\<forall>a v. cells p a = Some v \<longrightarrow> kmem k a = v)"

text \<open>A map as \<open>init_alloc\<close> lays it out, with its own pages among those that are never free.\<close>

definition map_apart :: "bitmap \<Rightarrow> nat set \<Rightarrow> bool" where
  "map_apart b A \<longleftrightarrow> map_p b = start_addr \<and> unat (bits b) \<le> 2 ^ 19 \<and> A \<subseteq> {unat (bits b) div 4096 + 1..<unat (bits b)}"

section \<open>Pages and addresses\<close>

lemma page_no_addr:
  assumes "i < MAX_PAGES"
  shows "page_no (page_addr i) = i"
  using unat_page_addr [OF assms] by (simp add: page_no_def)

lemma first_free_Some:
  assumes "first_free n F c = Some i"
  shows "i + c \<le> n \<and> run (i, c) \<subseteq> F \<and> (\<forall>i'<i. \<not> run (i', c) \<subseteq> F)"
  using assms unfolding first_free_def find_Some_iff by auto

lemma first_free_None: "first_free n F c = None \<Longrightarrow> i + c \<le> n \<Longrightarrow> \<not> run (i, c) \<subseteq> F"
  unfolding first_free_def find_None_iff by auto

lemma run_free_iff:
  assumes "i + c \<le> unat (bits (free_map k))"
  shows "run (i, c) \<subseteq> free_pages k \<longleftrightarrow> bit_run (kmem k) (free_map k) False i c"
  using assms by (auto simp: run_def free_pages_def bit_run_def page_used_def)

text \<open>Setting bits of the map changes no word behind its pages.\<close>

lemma set_range_keeps:
  assumes "map_p b = start_addr" and "i + unat len \<le> unat (bits b)"
    and "unat start_addr + 4096 * (unat (bits b) div 4096 + 1) \<le> unat q"
  shows "snd (bitmap_set_range m b (of_nat i) len v) q = m q"
proof -
  have "unat (bits b) < 2 ^ 32" using unat_u32_less [of "bits b"] by simp
  then have i: "unat (of_nat i :: u32) = i" using assms(2) by (intro unat_of_nat_u32) linarith
  have e: "unat (of_nat i + len) = i + unat len"
    using unat_add_nowrap [of "of_nat i" len] i le_less_trans [OF assms(2) unat_u32_less] by simp
  have "bitmap_set_val m b j v q = m q" if "unat j < unat (bits b)" for m j
  proof -
    have "unat (elem_addr b (elem_idx j)) < unat q"
      using map_elem_addr [OF assms(1), of j] that assms(3) by simp
    then show ?thesis by (auto simp: bitmap_set_val_def bitmap_set_def bitmap_reset_def Let_def)
  qed
  moreover have "unat j < unat (bits b)" if "j \<in> set (indices (of_nat i) (of_nat i + len))" for j
    using that assms(2) by (simp add: set_indices word_le_nat_alt word_less_nat_alt i e)
  moreover have "fold (\<lambda>i m. bitmap_set_val m b i v) js m q = m q"
    if "\<And>j m. j \<in> set js \<Longrightarrow> bitmap_set_val m b j v q = m q" for js m
    using that by (induction js arbitrary: m) simp_all
  ultimately show ?thesis by (simp add: bitmap_set_range_def for_loop_fold)
qed

lemma palloc_mult_keeps:
  assumes "lval (palloc_lock k) = 0" and "0 < cnt" and "unat (bits (free_map k)) \<le> MAX_PAGES"
    and "map_p (free_map k) = start_addr"
    and "unat start_addr + 4096 * (unat (bits (free_map k)) div 4096 + 1) \<le> unat q"
    and "palloc_mult k cnt = Some (r, k')"
  shows "kmem k' q = kmem k q"
proof -
  let ?b = "free_map k" and ?m = "kmem k"
  let ?idx = "bitmap_find_range ?m ?b 0 (bits ?b) cnt False"
  note unl = palloc_mult_unlocked [OF assms(1), of cnt, unfolded Let_def]
  consider i where "?idx = of_nat i" "i + unat cnt \<le> unat (bits ?b)" | "?idx = bits ?b + 1"
    using palloc_search [OF assms(2), of ?m ?b] by (auto simp: first_run_def)
  then show ?thesis
  proof cases
    case 1
    then show ?thesis
      using assms(6) set_range_keeps [OF assms(4) 1(2) assms(5), of ?m True] by (auto simp: unl split: if_splits)
  qed (use assms(6) in \<open>simp add: unl\<close>)
qed

lemma pfree_mult_keeps:
  assumes "lval (palloc_lock k) = 0" and "i < 2 ^ 19" and "i + unat cnt < unat (bits (free_map k))"
    and "map_p (free_map k) = start_addr"
    and "unat start_addr + 4096 * (unat (bits (free_map k)) div 4096 + 1) \<le> unat q"
    and "pfree_mult k (page_addr i) cnt = Some (r, k')"
  shows "kmem k' q = kmem k q"
  using assms(6) set_range_keeps [OF assms(4) less_imp_le [OF assms(3)] assms(5), of "kmem k" False]
  by (auto simp: pfree_mult_unlocked [OF assms(1)] page_idx_addr [OF assms(2)] Let_def split: if_splits)

text \<open>A word of a held page lies behind the map.\<close>

lemma in_held_behind:
  assumes "map_apart b A" and "pool_ok A p" and "in_held p a"
  shows "unat start_addr + 4096 * (unat (bits b) div 4096 + 1) \<le> unat a"
proof -
  obtain r where r: "r \<in> held p" "page_no a \<in> run r" using assms(3) by (auto simp: in_held_def)
  then have "page_no a \<in> A" using assms(2) by (auto simp: pool_ok_def)
  then have "unat (bits b) div 4096 + 1 \<le> (unat a - 4194304) div 4096"
    using assms(1) by (auto simp: map_apart_def page_no_def)
  moreover have "4194304 \<le> unat a" using assms(3) by (simp add: in_held_def word_le_nat_alt)
  ultimately show ?thesis by simp
qed

section \<open>The pool stays consistent\<close>

lemma pool_ok_alloc:
  assumes ok: "pool_ok A p" and r: "run r \<subseteq> avail p" "0 < snd r"
  shows "pool_ok A (p\<lparr>avail := avail p - run r, held := insert r (held p)\<rparr>)"
proof -
  have "run r \<inter> run r' = {}" if "r' \<in> held p" for r'
    using ok r that unfolding pool_ok_def by blast
  then show ?thesis using ok r unfolding pool_ok_def in_held_def by (auto simp: Int_commute)
qed

lemma pool_ok_free:
  assumes ok: "pool_ok A p" and r: "r \<in> held p"
  shows "pool_ok A \<lparr>avail = avail p \<union> run r, held = held p - {r},
     cells = (\<lambda>b. if page_no b \<in> run r then None else cells p b)\<rparr>"
  using ok r unfolding pool_ok_def in_held_def by auto

lemma pool_ok_store: "pool_ok A p \<Longrightarrow> in_held p a \<Longrightarrow> pool_ok A (p\<lparr>cells := (cells p)(a \<mapsto> v)\<rparr>)"
  by (auto simp: pool_ok_def in_held_def)

section \<open>Each request\<close>

lemma alloc_simulates:
  assumes sep: "map_apart b A" and rel: "pool_rel b A k p"
    and a: "pool_step (unat (bits b)) (Alloc cnt) p = Some (x, p')"
  shows "\<exists>k'. serve (Alloc cnt) k = Some (x, k') \<and> pool_rel b A k' p'"
proof -
  have k: "free_map k = b" "lval (palloc_lock k) = 0" "avail p = free_pages k" "pool_ok A p"
      "\<And>a v. cells p a = Some v \<Longrightarrow> kmem k a = v"
    using rel by (auto simp: pool_rel_def)
  have cnt: "cnt \<noteq> 0" using a by (auto split: if_splits)
  then have pos: "0 < cnt" "0 < unat cnt" by (auto simp: word_neq_0_conv unat_gt_0)
  have le: "unat (bits (free_map k)) \<le> MAX_PAGES" using sep k(1) by (simp add: map_apart_def)
  obtain y k' where res: "palloc_mult k cnt = Some (y, k')" "palloc_outcome k (unat cnt) (y, k')"
    using palloc_mult_result [OF k(2) pos(1) le] by auto
  have runs: "run (i, unat cnt) \<subseteq> avail p \<longleftrightarrow> bit_run (kmem k) b False i (unat cnt)"
    if "i + unat cnt \<le> unat (bits b)" for i
    using run_free_iff [of i "unat cnt" k] that k(1,3) by simp
  show ?thesis
  proof (cases "first_free (unat (bits b)) (avail p) (unat cnt)")
    case None
    then have "\<not> bit_run (kmem k) b False i (unat cnt)" if "i + unat cnt \<le> unat (bits b)" for i
      using first_free_None [OF None that] runs [OF that] by simp
    then have "y = 0 \<and> k' = k" using res(2) k(1) by (auto simp: palloc_outcome_def first_run_def)
    moreover have "x = Some 0 \<and> p' = p" using a None cnt by simp
    ultimately show ?thesis using res(1) rel by simp
  next
    case (Some i)
    note i = first_free_Some [OF Some]
    have hit: "bit_run (kmem k) b False i (unat cnt)" using i runs [of i] by simp
    then obtain i' m where o: "first_run (kmem k) b False 0 (unat (bits b)) (unat cnt) i'" "y = page_addr i'"
        "k' = k\<lparr>kmem := m\<rparr>"
        "\<And>j. page_used k' j = (i' \<le> unat j \<and> unat j < i' + unat cnt \<or> page_used k j)"
      using res(2) i k(1) by (auto simp: palloc_outcome_def)
    have "i' = i"
      using o(1) hit i runs [of i'] by (cases i i' rule: linorder_cases) (auto simp: first_run_def)
    have p': "x = Some (page_addr i)" "p' = p\<lparr>avail := avail p - run (i, unat cnt), held := insert (i, unat cnt) (held p)\<rparr>"
      using a Some cnt by simp_all
    have "avail p' = free_pages k'"
    proof -
      have "unat (of_nat j :: u32) = j" if "j < unat (bits b)" for j
        using that le k(1) by (intro unat_of_nat_u32) simp
      then show ?thesis using o(3,4) \<open>i' = i\<close> k(1,3) p'(2) by (auto simp: free_pages_def run_def)
    qed
    moreover have "pool_ok A p'" unfolding p'(2) using k(4) i pos(2) by (intro pool_ok_alloc) auto
    moreover have "kmem k' a = v" if "cells p' a = Some v" for a v
    proof -
      have c: "cells p a = Some v" using that p'(2) by simp
      then have "in_held p a" using k(4) by (auto simp: pool_ok_def)
      from in_held_behind [OF sep k(4) this] have "kmem k' a = kmem k a"
        using palloc_mult_keeps [OF k(2) pos(1) le] sep k(1) res(1) by (auto simp: map_apart_def)
      then show ?thesis using k(5) [OF c] by simp
    qed
    ultimately show ?thesis
      using res(1) o(2,3) \<open>i' = i\<close> p'(1) k(1,2) by (auto simp: pool_rel_def)
  qed
qed

lemma free_simulates:
  assumes sep: "map_apart b A" and rel: "pool_rel b A k p"
    and a: "pool_step (unat (bits b)) (Free adr cnt) p = Some (x, p')"
  shows "\<exists>k'. serve (Free adr cnt) k = Some (x, k') \<and> pool_rel b A k' p'"
proof -
  define r where "r = (page_no adr, unat cnt)"
  have k: "free_map k = b" "lval (palloc_lock k) = 0" "avail p = free_pages k" "pool_ok A p"
      "\<And>a v. cells p a = Some v \<Longrightarrow> kmem k a = v"
    using rel by (auto simp: pool_rel_def)
  have r: "adr = page_addr (page_no adr)" "r \<in> held p" "page_no adr + unat cnt < unat (bits b)" "x = None"
      "p' = \<lparr>avail = avail p \<union> run r, held = held p - {r},
              cells = (\<lambda>b. if page_no b \<in> run r then None else cells p b)\<rparr>"
    using a by (auto simp: Let_def r_def split: if_splits)
  have small: "unat (bits b) \<le> 2 ^ 19" using sep by (simp add: map_apart_def)
  then have i: "page_no adr < 2 ^ 19" using r(3) by linarith
  have "page_used k (of_nat j)" if "j \<in> run r" for j
  proof -
    have "j \<notin> avail p" using that r(2) k(4) unfolding pool_ok_def by blast
    moreover have "j < unat (bits b)" using that r(3) by (auto simp: run_def r_def)
    ultimately show ?thesis using k(1,3) by (simp add: free_pages_def)
  qed
  then have "bit_run (kmem k) (free_map k) True (page_no adr) (unat cnt)"
    by (simp add: bit_run_def page_used_def run_def r_def)
  then obtain m e where m: "pfree_mult k adr cnt = Some (e, k\<lparr>kmem := m\<rparr>)"
      "\<And>j. page_used (k\<lparr>kmem := m\<rparr>) j = (page_used k j \<and> \<not> (page_no adr \<le> unat j \<and> unat j < page_no adr + unat cnt))"
    using pfree_mult_run [OF k(2) i] r(1,3) k(1) by metis
  have "avail p' = free_pages (k\<lparr>kmem := m\<rparr>)"
  proof -
    have "unat (of_nat j :: u32) = j" if "j < unat (bits b)" for j
      using that small by (intro unat_of_nat_u32) simp
    then show ?thesis using m(2) k(1,3) r(3) by (auto simp: free_pages_def run_def r_def r(5))
  qed
  moreover have "m a = v" if "cells p' a = Some v" for a v
  proof -
    have c: "cells p a = Some v" using that r(5) by (simp split: if_splits)
    then have "in_held p a" using k(4) by (auto simp: pool_ok_def)
    from in_held_behind [OF sep k(4) this] have "kmem (k\<lparr>kmem := m\<rparr>) a = kmem k a"
      using pfree_mult_keeps [OF k(2) i] sep k(1) m(1) r(1,3) by (metis map_apart_def)
    then show ?thesis using k(5) [OF c] by simp
  qed
  moreover have "pool_ok A p'" unfolding r(5) by (rule pool_ok_free [OF k(4) r(2)])
  ultimately show ?thesis using m(1) r(4) k(1,2) by (auto simp: pool_rel_def)
qed

lemma store_simulates:
  assumes sep: "map_apart b A" and rel: "pool_rel b A k p"
    and a: "pool_step (unat (bits b)) (Store adr v) p = Some (x, p')"
  shows "\<exists>k'. serve (Store adr v) k = Some (x, k') \<and> pool_rel b A k' p'"
proof -
  have h: "in_held p adr" "x = None" "p' = p\<lparr>cells := (cells p)(adr \<mapsto> v)\<rparr>" using a by (auto split: if_splits)
  have k: "free_map k = b" "pool_ok A p" using rel by (auto simp: pool_rel_def)
  define k' where "k' = k\<lparr>kmem := (kmem k)(adr := v)\<rparr>"
  have "page_used k' j = page_used k j" if "unat j < unat (bits b)" for j
  proof -
    have "unat (elem_addr b (elem_idx j)) < unat adr"
      using map_elem_addr [of b j] in_held_behind [OF sep k(2) h(1)] that sep by (simp add: map_apart_def)
    then show ?thesis by (auto simp: page_used_def k'_def k(1) bitmap_test_def)
  qed
  moreover have "unat (of_nat j :: u32) = j" if "j < unat (bits b)" for j
    using that sep by (intro unat_of_nat_u32) (simp add: map_apart_def)
  ultimately have "free_pages k' = free_pages k" by (auto simp: free_pages_def k'_def k(1))
  then have "pool_rel b A k' p'"
    using rel pool_ok_store [OF k(2) h(1)] unfolding pool_rel_def h(3) by (auto simp: k'_def)
  then show ?thesis by (simp add: h(2) k'_def)
qed

lemma serve_simulates:
  assumes sep: "map_apart b A" and rel: "pool_rel b A k p" and a: "pool_step (unat (bits b)) r p = Some (x, p')"
  shows "\<exists>k'. serve r k = Some (x, k') \<and> pool_rel b A k' p'"
proof (cases r)
  case (Load adr)
  then show ?thesis using a rel by (auto simp: pool_rel_def)
next
  case (Store adr v)
  from store_simulates [OF sep rel a [unfolded Store]] show ?thesis by (simp only: Store)
qed (use assms alloc_simulates free_simulates in blast)+

interpretation pool: simulation serve "pool_step (unat (bits b))" "\<lambda>k p. map_apart b A \<and> pool_rel b A k p" for b A
  by unfold_locales (use serve_simulates in blast)

section \<open>The refinement\<close>

definition fresh_pool :: "'o kalloc \<Rightarrow> page_pool" where
  "fresh_pool k = \<lparr>avail = free_pages k, held = {}, cells = (\<lambda>_. None)\<rparr>"

text \<open>C9: The page allocator refines the pool of pages: for any sequence of requests that the pool allows,
  \<open>palloc_mult\<close> and \<open>pfree_mult\<close> always return and give the pool's answers, the words that clients
  store in their pages are still there when they load them, no two held runs overlap, and no page is
  lost.\<close>

theorem pages_refine_pool:
  assumes "lval (palloc_lock k) = 0" and "map_apart (free_map k) (free_pages k)"
    and "run_all (pool_step (unat (bits (free_map k)))) rs (fresh_pool k) = Some (out, p)"
  shows "\<exists>k'. run_all serve rs k = Some (out, k') \<and> free_pages k' = avail p \<and> pool_ok (free_pages k) p \<and>
     lval (palloc_lock k') = 0"
proof -
  have "pool_rel (free_map k) (free_pages k) k (fresh_pool k)"
    using assms(1) by (simp add: pool_rel_def pool_ok_def fresh_pool_def)
  then obtain k' where "run_all serve rs k = Some (out, k')" "pool_rel (free_map k) (free_pages k) k' p"
    using pool.trace [OF _ assms(3)] assms(2) by blast
  then show ?thesis by (auto simp: pool_rel_def)
qed

text \<open>Three of 19 free pages are taken, written to, read from and given back.\<close>

lemma demo_free_pages: "free_pages demo_reserved = {1..<20}"
proof -
  have "page_used demo_reserved (of_nat i) \<longleftrightarrow> i = 0" if "i < 20" for i
  proof -
    have "i \<in> set [0..<20]" using that by simp
    then show ?thesis
      by (auto simp: upt_rec page_used_def demo_kalloc_def bitmap_test_def elem_addr_def elem_idx_def bit_mask_def
          push_bit_eq_mult)
  qed
  then show ?thesis by (auto simp: free_pages_def demo_kalloc_def Suc_le_eq)
qed

lemma demo_pool_run:
  "run_all (pool_step 20) [Alloc 3, Store (page_addr 1) 7, Alloc 30, Load (page_addr 1), Free (page_addr 1) 3]
     (fresh_pool demo_reserved) =
   Some ([Some (page_addr 1), None, Some 0, Some 7, None],
     \<lparr>avail = {1..<20}, held = {}, cells = (\<lambda>b. if page_no b \<in> {1..<4} then None
        else ((\<lambda>_. None)(page_addr 1 \<mapsto> 7)) b)\<rparr>)"
proof -
  have f: "first_free 20 {Suc 0..<20} 3 = Some (Suc 0)" "first_free 20 {4..<20} 30 = None"
    by (simp_all add: first_free_def run_def upt_rec)
  have n: "page_no (page_addr (Suc 0)) = Suc 0" by (rule page_no_addr) simp
  have "{4..<20} \<union> {Suc 0..<4} = {Suc 0..<20}" by auto
  moreover have "in_held \<lparr>avail = {4..<20}, held = {(Suc 0, 3)}, cells = c\<rparr> (page_addr (Suc 0))" for c
    unfolding in_held_def n by (simp add: run_def) (simp add: page_addr_def)
  ultimately show ?thesis
    by (simp add: fresh_pool_def demo_free_pages f n run_def) (simp add: fun_eq_iff)
qed

theorem pages_refine_pool_witness:
  "\<exists>k'. run_all serve [Alloc 3, Store (page_addr 1) 7, Alloc 30, Load (page_addr 1), Free (page_addr 1) 3]
       demo_reserved = Some ([Some (page_addr 1), None, Some 0, Some 7, None], k') \<and> free_pages k' = {1..<20}"
proof -
  have d: "lval (palloc_lock demo_reserved) = 0" "unat (bits (free_map demo_reserved)) = 20"
    by (simp_all add: demo_kalloc_def)
  have "map_apart (free_map demo_reserved) (free_pages demo_reserved)"
    unfolding map_apart_def d(2) demo_free_pages by (simp add: demo_kalloc_def)
  from pages_refine_pool [OF d(1) this, unfolded d(2), OF demo_pool_run] show ?thesis by auto
qed

end
