(* ===== verification/Bench.thy ===== *)
theory Bench
  imports Kill Pages
begin

text \<open>
  The memory while the tests run: both allocators ready as \<open>init_alloc\<close> leaves them, and how pages and
  slabs that are taken and given back leave each other alone.
\<close>

section \<open>Both allocators at work\<close>

text \<open>\<open>mem_ready k n u\<close>: of the \<open>n\<close> pages those with a number in \<open>u\<close> are in use, no block of bytes is
  allocated, and all slabs are free.\<close>

definition map_end :: "nat \<Rightarrow> nat" where
  "map_end n = n div 4096 + 1"

definition mem_ready :: "'o kalloc \<Rightarrow> nat \<Rightarrow> nat set \<Rightarrow> bool" where
  "mem_ready k n u \<longleftrightarrow> lval (palloc_lock k) = 0 \<and> lval (malloc_lock k) = 0 \<and>
     free_map k = \<lparr>map_p = start_addr, bits = of_nat n\<rparr> \<and> n < 2 ^ 19 \<and> map_end n + 10 < n \<and>
     (\<forall>x. unat x < n \<longrightarrow> page_used k x = (unat x \<in> u)) \<and>
     dll mem_ops (kmem k) (allocations k) [] \<and>
     head (allocations k) \<in> node_addrs \<and> tail (allocations k) \<in> node_addrs \<and>
     unat (head (allocations k)) < 4194304 \<and> unat (tail (allocations k)) < 4194304 \<and>
     sdata (default_slab k) = page_addr (map_end n) \<and> slab_size (default_slab k) = SLAB_SIZE \<and>
     total_num_slabs (default_slab k) = 5120 \<and>
     set_up (kmem k) (page_addr (map_end n)) 0 (page_addr (map_end n) + 5120) 64 560"

lemma map_end_bound: "n < 2 ^ 19 \<Longrightarrow> map_end n \<le> 128"
  by (simp add: map_end_def)

lemma unat_map_end: "n < 2 ^ 19 \<Longrightarrow> unat (page_addr (map_end n)) = 4194304 + 4096 * map_end n"
  using map_end_bound [of n] by (intro unat_page_addr) simp

text \<open>Descriptor \<open>j\<close> of the table behind the map.\<close>

lemma unat_desc:
  assumes "n < 2 ^ 19" and "j < 560" and "r \<le> 4"
  shows "unat (page_addr (map_end n) + 8 * of_nat j + of_nat r) = 4194304 + 4096 * map_end n + 8 * j + r"
proof -
  have u: "unat (8 * of_nat j :: u32) = 8 * j" using assms(2) by (intro unat_8) simp
  have "unat (page_addr (map_end n) + 8 * of_nat j) = 4194304 + 4096 * map_end n + 8 * j"
    using unat_map_end [OF assms(1)] u map_end_bound [OF assms(1)] assms(2) by (subst unat_add_nowrap) simp_all
  moreover have "unat (of_nat r :: u32) = r" using assms(3) by (intro unat_of_nat_u32) simp
  ultimately show ?thesis using map_end_bound [OF assms(1)] assms(2,3) by (subst unat_add_nowrap) simp_all
qed

lemma set_up_frame:
  assumes "set_up m (page_addr (map_end n)) 0 a 64 560" and "n < 2 ^ 19"
    and "\<And>q. 4194304 + 4096 * map_end n \<le> unat q \<Longrightarrow> m' q = m q"
  shows "set_up m' (page_addr (map_end n)) 0 a 64 560"
proof -
  have "m' (page_addr (map_end n) + 8 * of_nat j) = m (page_addr (map_end n) + 8 * of_nat j)"
    "m' (page_addr (map_end n) + 8 * of_nat j + 4) = m (page_addr (map_end n) + 8 * of_nat j + 4)" if "j < 560" for j
    using unat_desc [OF assms(2) that, of 0] unat_desc [OF assms(2) that, of 4] by (auto intro: assms(3))
  then show ?thesis using assms(1) by (simp add: set_up_def slab_addr_def slab_is_free_def)
qed

text \<open>A change of the map alone.\<close>

lemma mem_ready_map:
  assumes ok: "mem_ready k n u"
    and low: "\<And>q. unat q < 4194304 \<Longrightarrow> m q = kmem k q"
    and high: "\<And>q. 4194304 + 4096 * map_end n \<le> unat q \<Longrightarrow> m q = kmem k q"
    and used: "\<And>x. unat x < n \<Longrightarrow> page_used (k\<lparr>kmem := m\<rparr>) x = (unat x \<in> u')"
  shows "mem_ready (k\<lparr>kmem := m\<rparr>) n u'"
proof -
  note r = ok [unfolded mem_ready_def]
  have "dll mem_ops m (allocations k) []"
    by (rule list_kept [of "kmem k"]) (use r in \<open>blast intro: low\<close>)+
  moreover have "set_up m (page_addr (map_end n)) 0 (page_addr (map_end n) + 5120) 64 560"
    by (rule set_up_frame [of "kmem k"]) (use r in \<open>blast intro: high\<close>)+
  ultimately show ?thesis using r used by (simp add: mem_ready_def)
qed

section \<open>Pages\<close>

text \<open>Nothing below 4 MB is touched.\<close>

lemma palloc_mult_low:
  assumes "lval (palloc_lock k) = 0" and "map_p (free_map k) = start_addr" and "unat q < 4194304"
    and "palloc_mult k cnt = Some (r, k')"
  shows "kmem k' q = kmem k q"
  using assms(4) set_range_below [OF assms(2,3)]
  by (auto simp: palloc_mult_unlocked [OF assms(1)] Let_def split: if_splits)

lemma pfree_mult_low:
  assumes "lval (palloc_lock k) = 0" and "map_p (free_map k) = start_addr" and "unat q < 4194304"
    and "pfree_mult k a cnt = Some (r, k')"
  shows "kmem k' q = kmem k q"
  using assms(4) set_range_below [OF assms(2,3)]
  by (auto simp: pfree_mult_unlocked [OF assms(1)] Let_def split: if_splits)

lemma unat_small: "n < 2 ^ 19 \<Longrightarrow> unat (of_nat n :: u32) = n"
  by (intro unat_of_nat_u32) simp

lemma palloc_first_page:
  assumes lock: "lval (palloc_lock k) = 0" and n: "unat (bits (free_map k)) = n" "n < 2 ^ 19"
    and used: "\<And>x. unat x < n \<Longrightarrow> page_used k x = (unat x \<in> u)"
    and j: "j \<notin> u" "{0..<j} \<subseteq> u" "j < n"
  shows "\<exists>m. palloc_mult k 1 = Some (page_addr j, k\<lparr>kmem := m\<rparr>) \<and>
     (\<forall>x. page_used (k\<lparr>kmem := m\<rparr>) x = (unat x = j \<or> page_used k x))"
proof -
  let ?b = "free_map k"
  have test: "bitmap_test (kmem k) ?b (of_nat i) = (i \<in> u)" if "i < n" for i
    using used [of "of_nat i"] that unat_small [of i] n(2) by (simp add: page_used_def)
  have run: "bit_run (kmem k) ?b False i 1 = (i \<notin> u)" if "i < n" for i
    unfolding bit_run_one using test [OF that] by simp
  obtain res where res: "palloc_mult k 1 = Some res" "palloc_outcome k (unat (1 :: u32)) res"
    using palloc_mult_result [OF lock, of 1] n by auto
  have "\<not> (\<forall>i. i + 1 \<le> n \<longrightarrow> \<not> bit_run (kmem k) ?b False i 1)" using run [OF j(3)] j(1,3) by (auto intro!: exI [of _ j])
  then obtain i m where m: "first_run (kmem k) ?b False 0 n 1 i" "res = (page_addr i, k\<lparr>kmem := m\<rparr>)"
      "\<And>x. page_used (k\<lparr>kmem := m\<rparr>) x = (i \<le> unat x \<and> unat x < i + 1 \<or> page_used k x)"
    using res(2) unfolding palloc_outcome_def n(1) by auto
  have i: "i < n" "i \<notin> u" "\<And>r. r < i \<Longrightarrow> \<not> bit_run (kmem k) ?b False r 1"
    using m(1) run by (auto simp: first_run_def)
  have "\<not> j < i" using i(3) [of j] run [OF j(3)] j(1) by blast
  moreover have "\<not> i < j" using i(2) j(2) by auto
  ultimately have "i = j" by simp
  then have "page_used (k\<lparr>kmem := m\<rparr>) x = (unat x = j \<or> page_used k x)" for x
    unfolding m(3) [of x] by (auto simp: less_Suc_eq_le)
  then show ?thesis using res(1) m(2) \<open>i = j\<close> by auto
qed

lemma palloc_lowest:
  assumes ok: "mem_ready k n u" and j: "j \<notin> u" "{0..<j} \<subseteq> u" "j < n"
  shows "\<exists>m. palloc_mult k 1 = Some (page_addr j, k\<lparr>kmem := m\<rparr>) \<and> mem_ready (k\<lparr>kmem := m\<rparr>) n (insert j u)"
proof -
  let ?b = "free_map k"
  have lock: "lval (palloc_lock k) = 0" and n: "n < 2 ^ 19" "unat (bits ?b) = n" and b: "map_p ?b = start_addr"
    and used: "\<And>x. unat x < n \<Longrightarrow> page_used k x = (unat x \<in> u)"
    using ok unat_small [of n] by (auto simp: mem_ready_def)
  obtain m where m: "palloc_mult k 1 = Some (page_addr j, k\<lparr>kmem := m\<rparr>)"
      "\<And>x. page_used (k\<lparr>kmem := m\<rparr>) x = (unat x = j \<or> page_used k x)"
    using palloc_first_page [OF lock n(2,1) used j] by blast
  have "map_p ?b = start_addr \<and> unat start_addr + 4096 * (unat (bits ?b) div 4096 + 1) \<le> unat q \<longrightarrow> m q = kmem k q" for q
    using palloc_mult_keeps [OF lock, of 1 q] n m(1) by auto
  then have high: "m q = kmem k q" if "4194304 + 4096 * map_end n \<le> unat q" for q
    using that b n(2) by (simp add: map_end_def)
  moreover have "m q = kmem k q" if "unat q < 4194304" for q
    using palloc_mult_low [OF lock b that, of 1] m(1) by simp
  moreover have "page_used (k\<lparr>kmem := m\<rparr>) x = (unat x \<in> insert j u)" if "unat x < n" for x
    using m(2) [of x] used [OF that] by auto
  ultimately have "mem_ready (k\<lparr>kmem := m\<rparr>) n (insert j u)" by (intro mem_ready_map [OF ok])
  then show ?thesis using m(1) by auto
qed

lemma pfree_used:
  assumes ok: "mem_ready k n u" and j: "j \<in> u" "j + 1 < n"
  shows "\<exists>e m. pfree_mult k (page_addr j) 1 = Some (e, k\<lparr>kmem := m\<rparr>) \<and> mem_ready (k\<lparr>kmem := m\<rparr>) n (u - {j})"
proof -
  let ?b = "free_map k"
  have lock: "lval (palloc_lock k) = 0" and n: "n < 2 ^ 19" "unat (bits ?b) = n" and b: "map_p ?b = start_addr"
    and used: "\<And>x. unat x < n \<Longrightarrow> page_used k x = (unat x \<in> u)"
    using ok unat_small [of n] by (auto simp: mem_ready_def)
  have jn: "j < 2 ^ 19" "j + unat (1 :: u32) < unat (bits ?b)" using j(2) n by simp_all
  have "bit_run (kmem k) ?b True j 1"
    unfolding bit_run_one using used [of "of_nat j"] j unat_small [of j] jn(1) by (simp add: page_used_def)
  then obtain m where m: "pfree_mult k (page_addr j) 1 = Some (if j = 0 then SUCC else - MEM_FREE_FAIL, k\<lparr>kmem := m\<rparr>)"
      "\<And>x. page_used (k\<lparr>kmem := m\<rparr>) x = (page_used k x \<and> \<not> (j \<le> unat x \<and> unat x < j + 1))"
    using pfree_mult_run [OF lock jn(1), of 1] jn(2) by auto
  have "m q = kmem k q" if "4194304 + 4096 * map_end n \<le> unat q" for q
    using pfree_mult_keeps [OF lock jn b _ m(1), of q] that n(2) by (simp add: map_end_def)
  moreover have "m q = kmem k q" if "unat q < 4194304" for q
    using pfree_mult_low [OF lock b that m(1)] by simp
  moreover have "page_used (k\<lparr>kmem := m\<rparr>) x = (unat x \<in> u - {j})" if "unat x < n" for x
    using m(2) [of x] used [OF that] by auto
  ultimately have "mem_ready (k\<lparr>kmem := m\<rparr>) n (u - {j})" by (intro mem_ready_map [OF ok])
  then show ?thesis using m(1) by blast
qed

text \<open>\<open>kfree\<close> of a page finds no block of that address and gives the page back.\<close>

lemma kfree_used:
  assumes ok: "mem_ready k n u" and j: "j \<in> u" "j + 1 < n"
  shows "\<exists>e m. kfree k (page_addr j) = Some (e, k\<lparr>kmem := m\<rparr>) \<and> mem_ready (k\<lparr>kmem := m\<rparr>) n (u - {j})"
proof -
  have k: "lval (malloc_lock k) = 0" "dll mem_ops (kmem k) (allocations k) []" "n < 2 ^ 19"
    "unat (head (allocations k)) < 4194304" "unat (tail (allocations k)) < 4194304"
    using ok by (simp_all add: mem_ready_def)
  have "unat (page_addr j) = 4194304 + 4096 * j" using j(2) k(3) by (intro unat_page_addr) simp
  then have "page_addr j \<notin> set (spine (allocations k) [])" using k(4,5) by (auto simp: spine_def)
  then have "kfree k (page_addr j) = pfree k (page_addr j)" by (rule kfree_goes_to_pfree [OF k(1,2)])
  then show ?thesis using pfree_used [OF assms] by (simp add: pfree_def)
qed


section \<open>Slabs\<close>

lemma mark_slabs_frame:
  "(\<forall>j<c. q \<noteq> p + 8 * of_nat j + 4) \<Longrightarrow> mark_slabs m p c b q = m q"
proof (induction c arbitrary: m p)
  case (Suc c)
  have "q \<noteq> p + 8 + 8 * of_nat j + 4" if "j < c" for j
    using Suc.prems [rule_format, of "Suc j"] that by (simp add: algebra_simps)
  then have "mark_slabs (slab_put_free m p b) (p + 8) c b q = slab_put_free m p b q" by (intro Suc.IH) blast
  moreover have "q \<noteq> p + 4" using Suc.prems [rule_format, of 0] by simp
  ultimately show ?case by (simp add: slab_put_free_def)
qed simp

text \<open>A change behind the map alone.\<close>

lemma mem_ready_slabs:
  assumes ok: "mem_ready k n u" and front: "\<And>q. unat q < 4194304 + 4096 * map_end n \<Longrightarrow> m q = kmem k q"
    and tab: "set_up m (page_addr (map_end n)) 0 (page_addr (map_end n) + 5120) 64 560"
  shows "mem_ready (k\<lparr>kmem := m\<rparr>) n u"
proof -
  note r = ok [unfolded mem_ready_def]
  have low: "m q = kmem k q" if "unat q < 4194304" for q using that by (intro front) simp
  have "dll mem_ops m (allocations k) []"
    by (rule list_kept [of "kmem k"]) (use r in \<open>blast intro: low\<close>)+
  moreover have "page_used (k\<lparr>kmem := m\<rparr>) x = page_used k x" if "unat x < n" for x
  proof -
    have "unat (elem_addr (free_map k) (elem_idx x)) = 4194304 + 4 * (unat x div 32)"
      using r by (intro map_elem_addr) simp
    then have "m (elem_addr (free_map k) (elem_idx x)) = kmem k (elem_addr (free_map k) (elem_idx x))"
      using map_in_reserved [OF that] by (intro front) (simp add: map_end_def)
    then show ?thesis unfolding page_used_def using test_cong [of m "free_map k" x "kmem k"] by simp
  qed
  ultimately show ?thesis using r tab by (simp add: mem_ready_def)
qed

text \<open>With all slabs free, a request is served from the front of the table, and giving it back restores the
  table; the memory in front of the table is not touched.\<close>

lemma slab_front:
  assumes ok: "mem_ready k n u" and c: "0 < unat c" "unat c \<le> 560"
  defines "a \<equiv> page_addr (map_end n) + 5120"
  shows "\<exists>m1 s1 m2. slab_alloc (kmem k) (default_slab k) c = Some (a, m1, s1) \<and> a \<noteq> 0 \<and>
     slab_free m1 s1 a c = Some (SUCC, m2, default_slab k) \<and> mem_ready (k\<lparr>kmem := m2\<rparr>) n u"
proof -
  let ?m = "kmem k" and ?s = "default_slab k" and ?d = "page_addr (map_end n)" and ?c = "unat c"
  have n: "n < 2 ^ 19" and s: "sdata ?s = ?d" "slab_size ?s = 64" "total_num_slabs ?s = 5120"
    and tab: "set_up ?m ?d 0 a 64 560"
    using ok by (simp_all add: mem_ready_def a_def)
  have c0: "c \<noteq> 0" using c(1) by auto
  have row: "slab_addr ?m (?d + 8 * of_nat j) = a + of_nat j * 64" "slab_is_free ?m (?d + 8 * of_nat j)" if "j < 560" for j
    using tab that by (auto simp: set_up_def)
  then have "free_run ?m ?d 0 ?c" using c(2) by (auto simp: free_run_def)
  define m1 where "m1 = mark_slabs ?m ?d ?c False"
  define s1 where "s1 = ?s\<lparr>free_mem_size := free_mem_size ?s - c * 64\<rparr>"
  define m2 where "m2 = mark_slabs m1 ?d ?c True"
  obtain res where res: "slab_alloc ?m ?s c = Some res" using s(2) by (simp add: slab_alloc_def)
  have "alloc_outcome ?m ?s 5120 ?c 0 res"
    using slab_alloc_result [OF _ c0 res] s by simp
  then obtain r where "\<not> 0 < r \<or> \<not> free_run ?m ?d 0 ?c" "res = (slab_addr ?m (desc ?s r), mark_slabs ?m (desc ?s r) ?c False,
      ?s\<lparr>free_mem_size := free_mem_size ?s - of_nat ?c * slab_size ?s\<rparr>)"
    unfolding alloc_outcome_def s(1) using \<open>free_run ?m ?d 0 ?c\<close> by auto
  then have res': "res = (a, m1, s1)"
    using \<open>free_run ?m ?d 0 ?c\<close> row(1) [of 0] s(1,2) by (simp add: m1_def s1_def desc_def)
  have off: "?d + 8 * of_nat (0 :: nat) = ?d" by simp
  have cle: "0 + ?c \<le> 2 ^ 29" using c(2) by simp
  note mk = mark_slabs_spec [OF cle, of _ _ ?d, unfolded off]
  have m1: "slab_is_free m1 (?d + 8 * of_nat j) = (if j < ?c then False else slab_is_free ?m (?d + 8 * of_nat j))"
    "slab_addr m1 (?d + 8 * of_nat j) = slab_addr ?m (?d + 8 * of_nat j)" if "j < 560" for j
    using mk [of j ?m False] that by (simp_all add: m1_def)
  have m2: "slab_is_free m2 (?d + 8 * of_nat j) = (if j < ?c then True else slab_is_free m1 (?d + 8 * of_nat j))"
    "slab_addr m2 (?d + 8 * of_nat j) = slab_addr m1 (?d + 8 * of_nat j)" if "j < 560" for j
    using mk [of j m1 True] that by (simp_all add: m2_def)
  have "set_up m2 ?d 0 a 64 560" unfolding set_up_def using m1 m2 row by auto
  have front: "m2 q = ?m q" if "unat q < 4194304 + 4096 * map_end n" for q
  proof -
    have "q \<noteq> ?d + 8 * of_nat j + 4" if "j < ?c" for j
      using unat_desc [OF n, of j 4] that c(2) \<open>unat q < _\<close> by auto
    then show ?thesis by (simp add: m1_def m2_def mark_slabs_frame)
  qed
  have "find_slab m1 a 0 5120 ?d = Some ?d" using m1(2) [of 0] row(1) [of 0] by (simp add: find_slab.simps)
  moreover have "\<not> (\<exists>j\<in>{0..<?c}. slab_is_free m1 (?d + 8 * of_nat j))" using m1(1) c(2) by auto
  ultimately have "slab_free m1 s1 a c = Some (SUCC, m2, ?s)"
    using s by (simp add: slab_free_def s1_def total_num_slabs_def m2_def)
  moreover have "a \<noteq> 0"
  proof -
    have "unat a = 4194304 + 4096 * map_end n + 5120"
      unfolding a_def using unat_map_end [OF n] map_end_bound [OF n] by (subst unat_add_nowrap) simp_all
    then show ?thesis by auto
  qed
  moreover have "mem_ready (k\<lparr>kmem := m2\<rparr>) n u"
    using \<open>set_up m2 ?d 0 a 64 560\<close> by (intro mem_ready_slabs [OF ok front]) (simp_all add: a_def)
  ultimately show ?thesis using res res' by blast
qed

section \<open>Memory after power on\<close>

text \<open>\<open>fresh_memory b k n\<close>: there are \<open>n\<close> pages, less than 2 GB of them but enough for the tests, they read as zero,
  and so do the globals of the memory manager.\<close>

definition fresh_memory :: "u32 \<Rightarrow> u32 kalloc \<Rightarrow> nat \<Rightarrow> bool" where
  "fresh_memory mu k n \<longleftrightarrow> n = unat ((mu * 1024 - 4194304) div PG_SIZE) \<and> map_end n + 14 < n \<and> n < 2 ^ 19 \<and>
     lval (palloc_lock k) = 0 \<and> (\<forall>p. 4194304 \<le> unat p \<longrightarrow> kmem k p = 0) \<and>
     head (allocations k) \<in> node_addrs \<and> tail (allocations k) \<in> node_addrs \<and>
     head (allocations k) \<noteq> tail (allocations k) \<and>
     unat (head (allocations k)) < 4194304 \<and> unat (tail (allocations k)) < 4194304"

lemma init_alloc_fresh:
  assumes "fresh_memory mu k n"
  shows "\<exists>k'. init_alloc k mu = Some k' \<and> mem_ready k' n {0..<map_end n + 10}"
proof -
  note f = assms [unfolded fresh_memory_def]
  have n: "n = unat ((mu * 1024 - 4194304) div PG_SIZE)" using f by blast
  have "map_end n + 14 < n" "n < 2 ^ 19" using f by blast+
  then have "n div 4096 + 11 \<le> n" "n < MAX_PAGES" by (simp_all add: map_end_def)
  then obtain k' where k': "init_alloc k mu = Some k'" "lval (palloc_lock k') = 0" "lval (malloc_lock k') = 0"
      "free_map k' = \<lparr>map_p = start_addr, bits = of_nat n\<rparr>" "\<forall>j. unat j < n \<longrightarrow> page_used k' j = (unat j < map_end n + 10)"
      "dll mem_ops (kmem k') (allocations k') []" "sdata (default_slab k') = page_addr (map_end n)"
      "slab_size (default_slab k') = SLAB_SIZE" "set_up (kmem k') (page_addr (map_end n)) 0 (page_addr (map_end n) + 5120) 64 560"
      "total_num_slabs (default_slab k') = 5120" "allocations k' = allocations k"
    using init_alloc_result [of k mu] f unfolding n [symmetric] map_end_def by blast
  then show ?thesis using f unfolding mem_ready_def by auto
qed

end
