(* ===== verification/TestingProofs.thy ===== *)
theory TestingProofs
  imports Report Bench
begin

text \<open>
  The tests themselves: each of the four tests passes when the memory and the lists are in order, prints its
  line and leaves everything as it was, and so do the two groups and \<open>run_groups\<close>.
\<close>

section \<open>The tests of the slab allocator\<close>

text \<open>\<open>slab_bench k0 n u\<close>: but for the memory the kernel is in the state \<open>k0\<close>.\<close>

definition slab_bench :: "kstate \<Rightarrow> nat \<Rightarrow> nat set \<Rightarrow> kstate \<Rightarrow> bool" where
  "slab_bench k0 n u k \<longleftrightarrow> mem_ready (kmm k) n u \<and> k = k0\<lparr>kmm := kmm k\<rparr>"

lemma set_t_kmm_stage:
  assumes "stage (slab_bench k0 n u) s" and "mem_ready k n u'"
  shows "stage (slab_bench k0 n u') (set_t_kmm k s)" and "spoke [] s (set_t_kmm k s)"
proof -
  have "m_k (tm s) = k0\<lparr>kmm := kmm (m_k (tm s))\<rparr>" using assms(1) by (simp add: stage_def slab_bench_def)
  then have "(m_k (tm s))\<lparr>kmm := k\<rparr> = k0\<lparr>kmm := k\<rparr>" by (rule ssubst) simp
  then have "slab_bench k0 n u' ((m_k (tm s))\<lparr>kmm := k\<rparr>)" using assms(2) by (simp add: slab_bench_def)
  then show "stage (slab_bench k0 n u') (set_t_kmm k s)" "spoke [] s (set_t_kmm k s)"
    using assms(1) set_k_stage unfolding set_t_kmm_def by blast+
qed

text \<open>Both tests take slabs and give them back.\<close>

lemma t_alloc_free:
  assumes ok: "stage (slab_bench k0 n u) s" and c: "0 < unat c" "unat c \<le> 560"
  shows "\<exists>a s1 s2. t_alloc c s = Some (a, s1) \<and> a \<noteq> 0 \<and> t_free a c s1 = Some (SUCC, s2) \<and>
     stage (slab_bench k0 n u) s2 \<and> spoke [] s s2"
proof -
  let ?k = "t_kmm s"
  have "mem_ready ?k n u" using ok by (simp add: stage_def slab_bench_def t_kmm_def)
  from slab_front [OF this c] obtain a m1 d1 m2 where a: "slab_alloc (kmem ?k) (default_slab ?k) c = Some (a, m1, d1)"
      "a \<noteq> 0" "slab_free m1 d1 a c = Some (SUCC, m2, default_slab ?k)" "mem_ready (?k\<lparr>kmem := m2\<rparr>) n u" by blast
  let ?s1 = "set_t_kmm (?k\<lparr>kmem := m1, default_slab := d1\<rparr>) s" and ?s2 = "set_t_kmm (?k\<lparr>kmem := m2\<rparr>) s"
  have "t_alloc c s = Some (a, ?s1)" using a(1) by (simp add: t_alloc_def)
  moreover have "t_free a c ?s1 = Some (SUCC, ?s2)"
    using a(3) by (simp add: t_free_def t_kmm_def set_t_kmm_def set_k_def)
  moreover have "stage (slab_bench k0 n u) ?s2" "spoke [] s ?s2" using set_t_kmm_stage [OF ok a(4)] by simp_all
  ultimately show ?thesis using a(2) by blast
qed

lemma slab_tests_pass:
  assumes ok: "stage (slab_bench k0 n u) s"
  shows "slab_alloc_mem s \<noteq> 0 \<Longrightarrow> \<exists>s'. test_slab1 s = Some (Returns True, s') \<and> stage (slab_bench k0 n u) s' \<and> spoke [] s s'"
    and "\<exists>s'. test_slab2 s = Some (Returns True, s') \<and> stage (slab_bench k0 n u) s' \<and> spoke [] s s'"
proof -
  obtain a s1 s2 where 1: "t_alloc 1 s = Some (a, s1)" "a \<noteq> 0" "t_free a 1 s1 = Some (SUCC, s2)"
      "stage (slab_bench k0 n u) s2" "spoke [] s s2"
    using t_alloc_free [OF ok, of 1] by auto
  then show "slab_alloc_mem s \<noteq> 0 \<Longrightarrow> \<exists>s'. test_slab1 s = Some (Returns True, s') \<and> stage (slab_bench k0 n u) s' \<and> spoke [] s s'"
    by (simp add: test_slab1_def CHECK_EQ_def CHECK_NEQ_def)
  obtain a s1 s2 where 2: "t_alloc 30 s = Some (a, s1)" "a \<noteq> 0" "t_free a 30 s1 = Some (SUCC, s2)"
      "stage (slab_bench k0 n u) s2" "spoke [] s s2"
    using t_alloc_free [OF ok, of 30] by auto
  then show "\<exists>s'. test_slab2 s = Some (Returns True, s') \<and> stage (slab_bench k0 n u) s' \<and> spoke [] s s'"
    by (simp add: test_slab2_def CHECK_EQ_def CHECK_NEQ_def)
qed

lemma slab_setup_page:
  assumes ok: "stage (slab_bench k0 n u) s" and j: "j \<notin> u" "{0..<j} \<subseteq> u" "j < n"
  shows "\<exists>s'. slab_setup s = Some s' \<and> stage (slab_bench k0 n (insert j u)) s' \<and>
     spoke [] (s\<lparr>slab_alloc_mem := page_addr j\<rparr>) s'"
proof -
  have "mem_ready (t_kmm s) n u" using ok by (simp add: stage_def slab_bench_def t_kmm_def)
  from palloc_lowest [OF this j] obtain m where m: "palloc_mult (t_kmm s) 1 = Some (page_addr j, (t_kmm s)\<lparr>kmem := m\<rparr>)"
      "mem_ready ((t_kmm s)\<lparr>kmem := m\<rparr>) n (insert j u)" by blast
  let ?s = "set_t_kmm ((t_kmm s)\<lparr>kmem := m\<rparr>) s"
  have "stage (slab_bench k0 n (insert j u)) ?s" "spoke [] s ?s" using set_t_kmm_stage [OF ok m(2)] by simp_all
  then show ?thesis using m(1) by (simp add: slab_setup_def palloc_def stage_def talks_def spoke_def)
qed

lemma slab_teardown_page:
  assumes ok: "stage (slab_bench k0 n u) s" and j: "slab_alloc_mem s = page_addr j" "j \<in> u" "j + 1 < n"
  shows "\<exists>s'. slab_teardown s = Some s' \<and> stage (slab_bench k0 n (u - {j})) s' \<and> spoke [] s s'"
proof -
  have "mem_ready (t_kmm s) n u" using ok by (simp add: stage_def slab_bench_def t_kmm_def)
  from kfree_used [OF this j(2,3)] obtain e m where "kfree (t_kmm s) (page_addr j) = Some (e, (t_kmm s)\<lparr>kmem := m\<rparr>)"
      "mem_ready ((t_kmm s)\<lparr>kmem := m\<rparr>) n (u - {j})" by blast
  then show ?thesis using set_t_kmm_stage [OF ok] j(1) by (simp add: slab_teardown_def)
qed

section \<open>Running a group\<close>

definition slab_test_group :: test_group where
  "slab_test_group = \<lparr>num_tests = 2, test_names = Some ''slab1'' # Some ''slab2'' # replicate 18 None,
     tests = Some TEST_SLAB1 # Some TEST_SLAB2 # replicate 18 None, g_setup = Some SLAB_SETUP,
     g_teardown = Some SLAB_TEARDOWN, g_name = ''Slab Allocator''\<rparr>"

definition proc_test_group :: test_group where
  "proc_test_group = \<lparr>num_tests = 2, test_names = Some ''create1'' # Some ''kill'' # replicate 18 None,
     tests = Some TEST_CREATE # Some TEST_KILL # replicate 18 None, g_setup = None, g_teardown = None,
     g_name = ''Processes''\<rparr>"

lemma init_groups: "init_slab_group = Some slab_test_group" "init_proc_group = Some proc_test_group"
  by (simp_all add: init_slab_group_def init_proc_group_def slab_test_group_def proc_test_group_def TEST_GROUP_INIT_def
      add_test_def arr_put_def eval_nat_numeral)

text \<open>A group of two tests that pass.\<close>

lemma test_loop_two:
  assumes g: "num_tests g = 2" "tests g = Some f1 # Some f2 # fs" "test_names g = Some n1 # Some n2 # ns"
    and t1: "call_test fn f1 s = Some (Returns True, s1)" "print_test n1 True s1 = Some s2"
    and t2: "call_test fn f2 s2 = Some (Returns True, s3)" "print_test n2 True s3 = Some s4"
  shows "test_loop fn g (nat MAX_NUM_TESTS) 0 s = Some (Returns True, s4)"
proof -
  have n: "nat MAX_NUM_TESTS = Suc (Suc (Suc 17))" by simp
  show ?thesis unfolding n test_loop.simps(2) using assms by (simp add: arr_get_def)
qed

definition group_head :: "string \<Rightarrow> u8 list" where
  "group_head name = bytes (NL # ''TESTING GROUP: '') @ bytes name @ [10]"

definition group_tail :: "string \<Rightarrow> u8 list" where
  "group_tail name = bytes ''TESTS DONE FOR GROUP: '' @ bytes name @ [10, 10]"

lemma say_head:
  assumes "stage P s" and "0 \<notin> set (bytes name)"
  shows "\<exists>s'. t_say (NL # ''TESTING GROUP: %s'' @ [NL]) [AStr (bytes name)] s = Some s' \<and> stage P s' \<and> spoke (group_head name) s s'"
  by (rule say_stage [OF assms(1)]) (use assms(2) in \<open>simp_all add: bytes_def lit_directive_def group_head_def\<close>)

lemma say_tail:
  assumes "stage P s" and "0 \<notin> set (bytes name)"
  shows "\<exists>s'. t_say (''TESTS DONE FOR GROUP: %s'' @ [NL, NL]) [AStr (bytes name)] s = Some s' \<and> stage P s' \<and>
     spoke (group_tail name) s s'"
  by (rule say_stage [OF assms(1)]) (use assms(2) in \<open>simp_all add: bytes_def lit_directive_def group_tail_def\<close>)

lemma slab_group_passes:
  assumes ok: "stage (slab_bench k0 n u) s" and j: "j \<notin> u" "{0..<j} \<subseteq> u" "j + 1 < n" "j < 2 ^ 19"
  shows "\<exists>s'. run_test_group fn slab_test_group s = Some (Returns (), s') \<and> stage (slab_bench k0 n u) s' \<and>
     spoke (group_head ''Slab Allocator'' @ passed_line ''slab1'' @ passed_line ''slab2'' @ group_tail ''Slab Allocator'')
       (s\<lparr>slab_alloc_mem := page_addr j\<rparr>) s'"
proof -
  let ?g = "slab_test_group" and ?j = "slab_bench k0 n (insert j u)"
  obtain s1 where s1: "t_say (NL # ''TESTING GROUP: %s'' @ [NL]) [AStr (bytes (g_name ?g))] s = Some s1"
      "stage (slab_bench k0 n u) s1" "spoke (group_head ''Slab Allocator'') s s1"
    using say_head [OF ok, of "''Slab Allocator''"] by (auto simp: slab_test_group_def bytes_def)
  obtain s2 where s2: "slab_setup s1 = Some s2" "stage ?j s2" "spoke [] (s1\<lparr>slab_alloc_mem := page_addr j\<rparr>) s2"
    using slab_setup_page [OF s1(2) j(1,2)] j(3) by auto
  have a: "slab_alloc_mem s2 = page_addr j" "page_addr j \<noteq> 0"
    using s2(3) unat_page_addr [of j] j(4) by (auto simp: spoke_def dest: arg_cong [of _ _ unat])
  then have "slab_alloc_mem s2 \<noteq> 0" by simp
  from slab_tests_pass(1) [OF s2(2) this] obtain s3 where s3: "test_slab1 s2 = Some (Returns True, s3)" "stage ?j s3" "spoke [] s2 s3"
    by blast
  obtain s4 where s4: "print_test ''slab1'' True s3 = Some s4" "stage ?j s4" "spoke (passed_line ''slab1'') s3 s4"
    using passed_stage [OF s3(2), of "''slab1''"] by (auto simp: bytes_def)
  obtain s5 where s5: "test_slab2 s4 = Some (Returns True, s5)" "stage ?j s5" "spoke [] s4 s5"
    using slab_tests_pass(2) [OF s4(2)] by blast
  obtain s6 where s6: "print_test ''slab2'' True s5 = Some s6" "stage ?j s6" "spoke (passed_line ''slab2'') s5 s6"
    using passed_stage [OF s5(2), of "''slab2''"] by (auto simp: bytes_def)
  obtain s7 where s7: "t_say (''TESTS DONE FOR GROUP: %s'' @ [NL, NL]) [AStr (bytes (g_name ?g))] s6 = Some s7"
      "stage ?j s7" "spoke (group_tail ''Slab Allocator'') s6 s7"
    using say_tail [OF s6(2), of "''Slab Allocator''"] by (auto simp: slab_test_group_def bytes_def)
  have "slab_alloc_mem s7 = page_addr j" using a s3(3) s4(3) s5(3) s6(3) s7(3) by (simp add: spoke_def)
  then obtain s8 where s8: "slab_teardown s7 = Some s8" "stage (slab_bench k0 n (insert j u - {j})) s8" "spoke [] s7 s8"
    using slab_teardown_page [OF s7(2)] j(3) by blast
  have loop: "test_loop fn ?g (nat MAX_NUM_TESTS) 0 s2 = Some (Returns True, s6)"
    by (rule test_loop_two [of _ TEST_SLAB1 TEST_SLAB2 _ "''slab1''" "''slab2''", OF _ _ _ _ s4(1) _ s6(1)])
       (simp_all add: slab_test_group_def call_test_def s3(1) s5(1))
  have "run_test_group fn ?g s = Some (Returns (), s8)"
    unfolding run_test_group_def using s1(1) s2(1) loop s7(1) s8(1)
    by (simp add: slab_test_group_def)
  moreover have "insert j u - {j} = u" using j(1) by blast
  then have "stage (slab_bench k0 n u) s8" using s8(2) by simp
  moreover have "spoke (group_head ''Slab Allocator'' @ passed_line ''slab1'' @ passed_line ''slab2'' @ group_tail ''Slab Allocator'')
       (s\<lparr>slab_alloc_mem := page_addr j\<rparr>) s8"
    using s1(3) s2(3) s3(3) s4(3) s5(3) s6(3) s7(3) s8(3) unfolding spoke_def by simp
  ultimately show ?thesis by blast
qed


section \<open>The tests of the processes\<close>

text \<open>The lists and the memory while the tests run; the pages \<open>j\<close> and \<open>j + 1\<close> are the next two that are free,
  and the first of them holds no stale thread pointers.\<close>

definition proc_bench :: "nat \<Rightarrow> nat set \<Rightarrow> nat \<Rightarrow> u32 list \<Rightarrow> u32 list \<Rightarrow> kstate \<Rightarrow> bool" where
  "proc_bench n u j rs qs k \<longleftrightarrow> thread_lists (nodes k) rs [] [] \<and> dll heap_ops (nodes k) all_procs (map PNode qs) \<and>
     mem_ready (kmm k) n u \<and> streams_ok (prc k (page_addr j)) \<and> threads (prc k (page_addr j)) = replicate 8 0 \<and>
     length (tids k) = MAX_TID"

definition next_two :: "nat \<Rightarrow> nat set \<Rightarrow> nat \<Rightarrow> bool" where
  "next_two n u j \<longleftrightarrow> {0..<j} \<subseteq> u \<and> j \<notin> u \<and> Suc j \<notin> u \<and> j + 2 < n"

lemma page_addr_nz: "i < 2 ^ 19 \<Longrightarrow> page_addr i \<noteq> 0"
  using unat_page_addr [of i] by (auto dest: arg_cong [of _ _ unat])

lemma page_inner: "unat (bits (free_map k)) = n \<Longrightarrow> i < 2 ^ 19 \<Longrightarrow> i + 1 < n \<Longrightarrow> inner k (page_addr i)"
  using unat_page_addr [of i] by (simp add: inner_def)

lemma two_pages:
  assumes ok: "mem_ready (kmm k) n u" and j: "next_two n u j"
    and t: "tid (thr k (page_addr (Suc j))) \<noteq> 513" "length (tids k) = MAX_TID"
  shows "\<exists>k1 k2. can_create k (page_addr j) k1 (page_addr (Suc j)) k2 \<and> mem_ready k2 n (insert (Suc j) (insert j u))"
proof -
  have jj: "{0..<j} \<subseteq> u" "j \<notin> u" "Suc j \<notin> u" "j + 2 < n" using j by (simp_all add: next_two_def)
  have n: "n < 2 ^ 19" "unat (bits (free_map (kmm k))) = n" "lval (palloc_lock (kmm k)) = 0"
    using ok unat_small [of n] by (auto simp: mem_ready_def)
  obtain m1 where m1: "palloc_mult (kmm k) 1 = Some (page_addr j, (kmm k)\<lparr>kmem := m1\<rparr>)"
      "mem_ready ((kmm k)\<lparr>kmem := m1\<rparr>) n (insert j u)"
    using palloc_lowest [OF ok jj(2,1)] jj(4) by auto
  let ?k1 = "(kmm k)\<lparr>kmem := m1\<rparr>"
  have "Suc j \<notin> insert j u" "{0..<Suc j} \<subseteq> insert j u" using jj by (auto simp: less_Suc_eq)
  then obtain m2 where m2: "palloc_mult ?k1 1 = Some (page_addr (Suc j), ?k1\<lparr>kmem := m2\<rparr>)"
      "mem_ready (?k1\<lparr>kmem := m2\<rparr>) n (insert (Suc j) (insert j u))"
    using palloc_lowest [OF m1(2), of "Suc j"] jj(4) by (metis Suc_lessD add_2_eq_Suc')
  have "can_create k (page_addr j) ?k1 (page_addr (Suc j)) (?k1\<lparr>kmem := m2\<rparr>)"
    using m1(1) m2(1) n t jj(4) page_addr_nz page_inner [OF n(2)] by (simp add: can_create_def palloc_def)
  then show ?thesis using m2(2) by blast
qed

lemma bench_creates:
  assumes b: "proc_bench n u j rs qs k" and j: "next_two n u j" and t: "tid (thr k (page_addr (Suc j))) \<noteq> 513"
  shows "\<exists>k1 k2 e1 k3 e2 k4. can_create k (page_addr j) k1 (page_addr (Suc j)) k2 \<and>
     pfree k2 (page_addr j) = Some (e1, k3) \<and> pfree_mult k3 (page_addr (Suc j)) 1 = Some (e2, k4) \<and> mem_ready k4 n u"
proof -
  have jj: "j \<notin> u" "Suc j \<notin> u" "j + 2 < n" using j by (simp_all add: next_two_def)
  obtain k1 k2 where k2: "can_create k (page_addr j) k1 (page_addr (Suc j)) k2" "mem_ready k2 n (insert (Suc j) (insert j u))"
    using two_pages [OF _ j t] b unfolding proc_bench_def by blast
  obtain e1 m3 where m3: "pfree_mult k2 (page_addr j) 1 = Some (e1, k2\<lparr>kmem := m3\<rparr>)"
      "mem_ready (k2\<lparr>kmem := m3\<rparr>) n (insert (Suc j) (insert j u) - {j})"
    using pfree_used [OF k2(2), of j] jj(3) by auto
  obtain e2 m4 where m4: "pfree_mult (k2\<lparr>kmem := m3\<rparr>) (page_addr (Suc j)) 1 = Some (e2, k2\<lparr>kmem := m3, kmem := m4\<rparr>)"
      "mem_ready (k2\<lparr>kmem := m3, kmem := m4\<rparr>) n (insert (Suc j) (insert j u) - {j} - {Suc j})"
    using pfree_used [OF m3(2), of "Suc j"] jj(3) by auto
  have "insert (Suc j) (insert j u) - {j} - {Suc j} = u" using jj by auto
  then show ?thesis using k2(1) m3(1) m4 by (auto simp: pfree_def)
qed

lemma bench_create_kill:
  assumes b: "proc_bench n u j rs qs k" and j: "next_two n u j" and t: "tid (thr k (page_addr (Suc j))) \<noteq> 513"
    and new: "page_addr (Suc j) \<notin> set rs" "page_addr j \<notin> set qs"
  shows "\<exists>k1 k2. proc_create k ''test'' fn 0 = Some (page_addr j, k1) \<and> pid (prc k1 (page_addr j)) = pid_count k \<and>
     num_live_threads (prc k1 (page_addr j)) = 1 \<and> proc_kill k1 (page_addr j) True = Some (Some 0, Returns (), k2) \<and>
     proc_bench n u j rs qs k2 \<and> (False \<in> set (tids k) \<longrightarrow> tid (thr k2 (page_addr (Suc j))) \<noteq> 513)"
proof -
  let ?p = "page_addr j" and ?c = "page_addr (Suc j)"
  note r = b [unfolded proc_bench_def]
  obtain k1 k2 e1 k3 e2 k4 where m: "can_create k ?p k1 ?c k2" "pfree k2 ?p = Some (e1, k3)"
      "pfree_mult k3 ?c 1 = Some (e2, k4)" "mem_ready k4 n u"
    using bench_creates [OF b j t] by blast
  have blank: "blank k ?p []" using r by (simp add: blank_def streams_ok_def)
  have "?c \<notin> set (rs @ [] @ [])" "length ''test'' < 13" using new(1) by simp_all
  then obtain s1 h where s1: "proc_create k ''test'' fn 0 = Some (?p, s1)" "newborn k s1 ?p ?c" "num_live_threads (prc s1 ?p) = 1"
      "\<forall>r. proc_kill s1 ?p r = Some (if r then Some 0 else None, Returns (), killed s1 ?p ?c h k4)"
      "thread_lists h rs [] []" "dll heap_ops h all_procs (map PNode qs)"
    using create_then_kill [of k rs "[]" ?p "[]" k1 ?c k2 "''test''" qs e1 k3 e2 k4 fn 0] r blank m new(2) by blast
  have nb: "pid (prc s1 ?p) = pid_count k" "threads (prc s1 ?p) = (threads (prc k ?p))[0 := ?c]" "streams_ok (prc s1 ?p)"
      "child_num (thr s1 ?c) = 0" "\<exists>i. tids s1 = (tids k)[i := True]" "False \<in> set (tids k) \<longrightarrow> tid (thr s1 ?c) \<noteq> 513"
    using s1(2) by (simp_all add: newborn_def)
  have "threads (prc (killed s1 ?p ?c h k4) ?p) = replicate 8 0" "streams_ok (prc (killed s1 ?p ?c h k4) ?p)"
    "length (tids (killed s1 ?p ?c h k4)) = MAX_TID"
    using nb(2-5) r by (auto simp: streams_ok_def eval_nat_numeral)
  then have "proc_bench n u j rs qs (killed s1 ?p ?c h k4)" using s1(5,6) m(4) by (simp add: proc_bench_def)
  then show ?thesis using s1(1,3,4) nb(1,6) by auto
qed


text \<open>Before the first of the two tests and between them.\<close>

definition before_create :: "nat \<Rightarrow> nat set \<Rightarrow> nat \<Rightarrow> u32 list \<Rightarrow> u32 list \<Rightarrow> kstate \<Rightarrow> bool" where
  "before_create n u j rs qs k \<longleftrightarrow> proc_bench n u j rs qs k \<and> tid (thr k (page_addr (Suc j))) \<noteq> 513 \<and>
     False \<in> set (tids k) \<and> pid_count k = 1"

definition before_kill :: "nat \<Rightarrow> nat set \<Rightarrow> nat \<Rightarrow> u32 list \<Rightarrow> u32 list \<Rightarrow> kstate \<Rightarrow> bool" where
  "before_kill n u j rs qs k \<longleftrightarrow> proc_bench n u j rs qs k \<and> tid (thr k (page_addr (Suc j))) \<noteq> 513"

lemma test_create_passes:
  assumes ok: "stage (before_create n u j rs qs) s" and j: "next_two n u j"
    and new: "page_addr (Suc j) \<notin> set rs" "page_addr j \<notin> set qs"
  shows "\<exists>s'. test_create fn s = Some (Returns True, s') \<and> stage (before_kill n u j rs qs) s' \<and> spoke [] s s'"
proof -
  let ?k = "m_k (tm s)"
  have b: "proc_bench n u j rs qs ?k" "tid (thr ?k (page_addr (Suc j))) \<noteq> 513" "False \<in> set (tids ?k)" "pid_count ?k = 1"
    using ok by (simp_all add: stage_def before_create_def)
  obtain k1 k2 where k: "proc_create ?k ''test'' fn 0 = Some (page_addr j, k1)" "pid (prc k1 (page_addr j)) = 1"
      "num_live_threads (prc k1 (page_addr j)) = 1" "proc_kill k1 (page_addr j) True = Some (Some 0, Returns (), k2)"
      "before_kill n u j rs qs k2"
    using bench_create_kill [OF b(1) j b(2) new, of fn] b(3,4) by (auto simp: before_kill_def)
  have "test_create fn s = Some (Returns True, set_k k2 s)"
    using k(1-4) by (simp add: test_create_def CHECK_EQ_def set_k_def after_call_def)
  then show ?thesis using set_k_stage(1) [OF ok, of "before_kill n u j rs qs" k2] set_k_stage(2) k(5) by blast
qed

lemma test_kill_passes:
  assumes ok: "stage (before_kill n u j rs qs) s" and j: "next_two n u j"
    and new: "page_addr (Suc j) \<notin> set rs" "page_addr j \<notin> set qs"
  shows "\<exists>s'. test_kill fn s = Some (Returns True, s') \<and> stage (proc_bench n u j rs qs) s' \<and> spoke [] s s'"
proof -
  let ?k = "m_k (tm s)"
  have b: "proc_bench n u j rs qs ?k" "tid (thr ?k (page_addr (Suc j))) \<noteq> 513"
    using ok by (simp_all add: stage_def before_kill_def)
  obtain k1 k2 where k: "proc_create ?k ''test'' fn 0 = Some (page_addr j, k1)"
      "proc_kill k1 (page_addr j) True = Some (Some 0, Returns (), k2)" "proc_bench n u j rs qs k2"
    using bench_create_kill [OF b(1) j b(2) new, of fn] by auto
  have "test_kill fn s = Some (Returns True, set_k k2 s)"
    using k(1,2) by (simp add: test_kill_def CHECK_EQ_def set_k_def)
  then show ?thesis using set_k_stage(1) [OF ok, of "proc_bench n u j rs qs" k2] set_k_stage(2) k(3) by blast
qed

lemma proc_group_passes:
  assumes ok: "stage (before_create n u j rs qs) s" and j: "next_two n u j"
    and new: "page_addr (Suc j) \<notin> set rs" "page_addr j \<notin> set qs"
  shows "\<exists>s'. run_test_group fn proc_test_group s = Some (Returns (), s') \<and> stage (proc_bench n u j rs qs) s' \<and>
     spoke (group_head ''Processes'' @ passed_line ''create1'' @ passed_line ''kill'' @ group_tail ''Processes'') s s'"
proof -
  let ?g = "proc_test_group"
  obtain s1 where s1: "t_say (NL # ''TESTING GROUP: %s'' @ [NL]) [AStr (bytes (g_name ?g))] s = Some s1"
      "stage (before_create n u j rs qs) s1" "spoke (group_head ''Processes'') s s1"
    using say_head [OF ok, of "''Processes''"] by (auto simp: proc_test_group_def bytes_def)
  obtain s2 where s2: "test_create fn s1 = Some (Returns True, s2)" "stage (before_kill n u j rs qs) s2" "spoke [] s1 s2"
    using test_create_passes [OF s1(2) j new] by blast
  obtain s3 where s3: "print_test ''create1'' True s2 = Some s3" "stage (before_kill n u j rs qs) s3"
      "spoke (passed_line ''create1'') s2 s3"
    using passed_stage [OF s2(2), of "''create1''"] by (auto simp: bytes_def)
  obtain s4 where s4: "test_kill fn s3 = Some (Returns True, s4)" "stage (proc_bench n u j rs qs) s4" "spoke [] s3 s4"
    using test_kill_passes [OF s3(2) j new] by blast
  obtain s5 where s5: "print_test ''kill'' True s4 = Some s5" "stage (proc_bench n u j rs qs) s5"
      "spoke (passed_line ''kill'') s4 s5"
    using passed_stage [OF s4(2), of "''kill''"] by (auto simp: bytes_def)
  obtain s6 where s6: "t_say (''TESTS DONE FOR GROUP: %s'' @ [NL, NL]) [AStr (bytes (g_name ?g))] s5 = Some s6"
      "stage (proc_bench n u j rs qs) s6" "spoke (group_tail ''Processes'') s5 s6"
    using say_tail [OF s5(2), of "''Processes''"] by (auto simp: proc_test_group_def bytes_def)
  have loop: "test_loop fn ?g (nat MAX_NUM_TESTS) 0 s1 = Some (Returns True, s5)"
    by (rule test_loop_two [of _ TEST_CREATE TEST_KILL _ "''create1''" "''kill''", OF _ _ _ _ s3(1) _ s5(1)])
       (simp_all add: proc_test_group_def call_test_def s2(1) s4(1))
  have "run_test_group fn ?g s = Some (Returns (), s6)"
    unfolding run_test_group_def using s1(1) loop s6(1) by (simp add: proc_test_group_def)
  moreover have "spoke (group_head ''Processes'' @ passed_line ''create1'' @ passed_line ''kill'' @ group_tail ''Processes'') s s6"
    using s1(3) s2(3) s3(3) s4(3) s5(3) s6(3) unfolding spoke_def by simp
  ultimately show ?thesis using s6(2) by blast
qed

section \<open>Running all groups\<close>

definition test_report :: "u8 list" where
  "test_report = bytes (''NUMBER TEST GROUPS: 2'' @ [NL]) @
     group_head ''Slab Allocator'' @ passed_line ''slab1'' @ passed_line ''slab2'' @ group_tail ''Slab Allocator'' @
     group_head ''Processes'' @ passed_line ''create1'' @ passed_line ''kill'' @ group_tail ''Processes'' @
     bytes (''TESTING COMPLETED'' @ NL # ''exiting...'' @ [NL])"

lemma dec_string_2: "dec_string 2 = Some [50]"
  by code_simp

lemma bench_slab: "proc_bench n u j rs qs k0 \<Longrightarrow> slab_bench k0 n u k0"
  by (simp add: slab_bench_def proc_bench_def)

lemma slab_bench_create:
  assumes "slab_bench k0 n u k" and "before_create n u j rs qs k0"
  shows "before_create n u j rs qs k"
proof -
  have m: "mem_ready (kmm k) n u" and k: "k = k0\<lparr>kmm := kmm k\<rparr>" using assms(1) by (simp_all add: slab_bench_def)
  have "before_create n u j rs qs (k0\<lparr>kmm := kmm k\<rparr>)" using assms(2) m by (simp add: before_create_def proc_bench_def)
  then show ?thesis using k by simp
qed

lemma run_groups_pass:
  assumes ok: "talks s" "before_create n u j rs qs (m_k (tm s))" and j: "next_two n u j" "n < 2 ^ 19"
    and new: "page_addr (Suc j) \<notin> set rs" "page_addr j \<notin> set qs"
    and g: "num_groups s = 2" "groups s = Some slab_test_group # Some proc_test_group # gs"
  shows "\<exists>s'. run_groups fn s = Some (Returns (), s') \<and> com1 (tm s') = com1 (tm s) @ test_report \<and>
     last (port_log (m_ports (tm s'))) = Outw 0x604 0x2000 \<and> proc_bench n u j rs qs (m_k (tm s'))"
proof -
  let ?k0 = "m_k (tm s)"
  have ok': "stage (slab_bench ?k0 n u) s"
    using ok bench_slab by (auto simp: stage_def before_create_def)
  obtain s1 where s1: "t_say (''NUMBER TEST GROUPS: %d'' @ [NL]) [AInt (num_groups s)] s = Some s1"
      "stage (slab_bench ?k0 n u) s1" "spoke (bytes (''NUMBER TEST GROUPS: 2'' @ [NL])) s s1"
    using say_stage [OF ok', of "''NUMBER TEST GROUPS: %d'' @ [NL]" "[AInt (num_groups s)]"] g(1)
    by (auto simp: bytes_def lit_directive_def dec_string_2)
  have jj: "j \<notin> u" "{0..<j} \<subseteq> u" "j + 1 < n" "j < 2 ^ 19" using j by (simp_all add: next_two_def)
  obtain s2 where s2: "run_test_group fn slab_test_group s1 = Some (Returns (), s2)" "stage (slab_bench ?k0 n u) s2"
      "spoke (group_head ''Slab Allocator'' @ passed_line ''slab1'' @ passed_line ''slab2'' @ group_tail ''Slab Allocator'')
         (s1\<lparr>slab_alloc_mem := page_addr j\<rparr>) s2"
    using slab_group_passes [OF s1(2) jj, of fn] by blast
  have "stage (before_create n u j rs qs) s2"
    using s2(2) slab_bench_create [OF _ ok(2)] by (auto simp: stage_def)
  from proc_group_passes [OF this j(1) new, of fn] obtain s3 where
      s3: "run_test_group fn proc_test_group s2 = Some (Returns (), s3)" "stage (proc_bench n u j rs qs) s3"
      "spoke (group_head ''Processes'' @ passed_line ''create1'' @ passed_line ''kill'' @ group_tail ''Processes'') s2 s3"
    by blast
  obtain s4 where s4: "t_say (''TESTING COMPLETED'' @ NL # ''exiting...'' @ [NL]) [] s3 = Some s4"
      "stage (proc_bench n u j rs qs) s4" "spoke (bytes (''TESTING COMPLETED'' @ NL # ''exiting...'' @ [NL])) s3 s4"
    using say_stage [OF s3(2), of "''TESTING COMPLETED'' @ NL # ''exiting...'' @ [NL]" "[]"] by (auto simp: bytes_def)
  have gr: "groups s1 = Some slab_test_group # Some proc_test_group # gs" "groups s2 = groups s1"
    using s1(3) s2(3) g(2) by (simp_all add: spoke_def)
  have two: "nat (num_groups s1) = Suc (Suc 0)" using g(1) s1(3) by (simp add: spoke_def)
  have loop: "group_loop fn (nat (num_groups s1)) 0 s1 = Some (Returns (), s3)"
    unfolding two using s2(1) s3(1) gr by (simp add: arr_get_def)
  let ?s = "s4\<lparr>tm := (tm s4)\<lparr>m_ports := outw 0x604 0x2000 (m_ports (tm s4))\<rparr>\<rparr>"
  have "run_groups fn s = Some (Returns (), ?s)"
    unfolding run_groups_def using s1(1) loop s4(1) by simp
  moreover have "com1 (tm ?s) = com1 (tm s) @ test_report"
    using s1(3) s2(3) s3(3) s4(3) unfolding spoke_def test_report_def by (simp add: com1_def outw_def)
  ultimately show ?thesis using s4(2) by (auto simp: outw_def stage_def)
qed

end
