(* ===== verification/Suite.thy ===== *)
theory Suite
  imports TestingProofs
begin

text \<open>
  The test build from power on: the interrupt table and the serial port are set up, both allocators and
  the first process, and then all tests run and pass.
\<close>

section \<open>Booting the test build\<close>

text \<open>What the documentation of the chip promises of its loopback mode.  The mode is on when bit 4 of the
  modem control register (port \<open>COM1 + 4\<close>) is set, and port \<open>COM1\<close> is the data register, not the baud rate,
  when bit 7 of the line control register (\<open>COM1 + 3\<close>) is clear; bit 1 of the FIFO control register (\<open>COM1 + 2\<close>)
  empties the receiver.  A byte that is sent in this mode is received at once, and it is the next to be
  read if nothing was sent since the receiver was emptied (and nothing came in on the line before the
  mode was switched on).\<close>

definition last_out :: "u16 \<Rightarrow> port_access list \<Rightarrow> u8" where
  "last_out q l = (if sent_to q l = [] then 0 else last (sent_to q l))"

definition loopback_mode :: "port_access list \<Rightarrow> bool" where
  "loopback_mode l \<longleftrightarrow> bit (last_out (COM1 + 4) l) 4 \<and> \<not> bit (last_out (COM1 + 3) l) 7"

definition receiver_empty :: "port_access list \<Rightarrow> bool" where
  "receiver_empty l \<longleftrightarrow> (\<exists>l1 f l2. l = l1 @ Outb (COM1 + 2) f # l2 \<and> bit f 1 \<and> sent_to COM1 l2 = [])"

definition loops_back :: "(port_access list \<Rightarrow> u16 \<Rightarrow> u16) \<Rightarrow> bool" where
  "loops_back d \<longleftrightarrow>
     (\<forall>l b. loopback_mode l \<and> receiver_empty l \<longrightarrow> (ucast (d (l @ [Outb COM1 b]) COM1) :: u8) = b)"

definition clear_codes :: "u8 list" where
  "clear_codes = [27, 91, 50, 74, 27, 91, 72]"

lemma outb_log: "outb q v (p\<lparr>port_log := l\<rparr>) = p\<lparr>port_log := l @ [Outb q v]\<rparr>"
  by (simp add: outb_def)

lemma init_serial_loop:
  assumes "loops_back (dev p)"
  shows "fst (init_serial p)" and "dev (snd (init_serial p)) = dev p"
    and "sent_to COM1 (port_log (snd (init_serial p))) = sent_to COM1 (port_log p) @ [3, 0xAE]"
proof -
  define l where "l = port_log p @ [Outb (COM1 + 1) 0x00, Outb (COM1 + 3) 0x80,
     Outb COM1 0x03, Outb (COM1 + 1) 0x00, Outb (COM1 + 3) 0x03, Outb (COM1 + 2) 0xC7, Outb (COM1 + 4) 0x0B,
     Outb (COM1 + 4) 0x1E]"
  have sent: "sent_to COM1 l = sent_to COM1 (port_log p) @ [3]" by (simp add: l_def)
  have "loopback_mode l" by (simp add: loopback_mode_def last_out_def l_def bit_numeral_rec)
  moreover have "receiver_empty l"
    unfolding receiver_empty_def
  proof (intro exI conjI)
    show "l = (port_log p @ [Outb (COM1 + 1) 0x00, Outb (COM1 + 3) 0x80, Outb COM1 0x03, Outb (COM1 + 1) 0x00,
        Outb (COM1 + 3) 0x03]) @ Outb (COM1 + 2) 0xC7 # [Outb (COM1 + 4) 0x0B, Outb (COM1 + 4) 0x1E]"
      by (simp add: l_def)
  qed simp_all
  ultimately have v: "(ucast (dev p (l @ [Outb COM1 0xAE]) COM1) :: u8) = 0xAE"
    using assms unfolding loops_back_def by blast
  let ?q = "p\<lparr>port_log := l @ [Outb COM1 0xAE, Inb COM1, Outb (COM1 + 4) 0x0F]\<rparr>"
  have "outb (COM1 + 0) 0xAE (outb (COM1 + 4) 0x1E (outb (COM1 + 4) 0x0B (outb (COM1 + 2) 0xC7 (outb (COM1 + 3) 0x03
      (outb (COM1 + 1) 0x00 (outb (COM1 + 0) 0x03 (outb (COM1 + 3) 0x80 (outb (COM1 + 1) 0x00
        (p\<lparr>port_log := port_log p\<rparr>))))))))) = p\<lparr>port_log := l @ [Outb COM1 0xAE]\<rparr>"
    unfolding outb_log by (simp add: l_def)
  moreover have "p\<lparr>port_log := port_log p\<rparr> = p" by simp
  ultimately have "init_serial p = (let (v, r) = inb (COM1 + 0) (p\<lparr>port_log := l @ [Outb COM1 0xAE]\<rparr>)
     in if v \<noteq> 0xAE then (False, r) else (True, outb (COM1 + 4) 0x0F r))"
    unfolding init_serial_def by (simp only: Let_def)
  also have "\<dots> = (True, ?q)" using v by (simp add: inb_def outb_def)
  finally have "init_serial p = (True, ?q)" .
  then show "fst (init_serial p)" "dev (snd (init_serial p)) = dev p"
    "sent_to COM1 (port_log (snd (init_serial p))) = sent_to COM1 (port_log p) @ [3, 0xAE]"
    using sent by simp_all
qed

lemma serial_clear_codes: "serial_clear = serial_puts clear_codes"
  by (simp add: fun_eq_iff serial_clear_def clear_codes_def)

text \<open>The other devices do not write to the serial port.\<close>

definition apart :: "machine \<Rightarrow> machine \<Rightarrow> bool" where
  "apart s s' \<longleftrightarrow> com1 s' = com1 s \<and> dev (m_ports s') = dev (m_ports s) \<and> m_k s' = m_k s"

lemma apart_refl: "apart s s"
  by (simp add: apart_def)

lemma apart_trans: "apart s1 s2 \<Longrightarrow> apart s2 s3 \<Longrightarrow> apart s1 s3"
  by (simp add: apart_def)

lemma apart_outb: "q \<noteq> COM1 \<Longrightarrow> apart s (m_outb q v s)"
  by (simp add: apart_def m_outb_def com1_def outb_def)

lemma apart_fold: "(\<And>x s. x \<in> set xs \<Longrightarrow> apart s (f x s)) \<Longrightarrow> apart s (fold f xs s)"
proof (induction xs arbitrary: s)
  case (Cons x xs)
  have "apart (f x s) (fold f xs (f x s))" using Cons.prems by (intro Cons.IH) simp
  then show ?case using Cons.prems [of x s] apart_trans by simp
qed (simp add: apart_refl)

lemma apart_ops:
  "apart s (install_isrs f s)" "apart s (install_irqs f s)" "apart s (remap_pics s)" "apart s (init_keyboard s)"
  "apart s (load_idt a s)"
proof -
  show "apart s (install_isrs f s)" "apart s (install_irqs f s)"
    unfolding install_isrs_def install_irqs_def by (rule apart_fold, simp add: apart_def set_idt_gate_def com1_def)+
  show "apart s (remap_pics s)" unfolding remap_pics_def by (rule apart_fold) (auto simp: apart_outb)
  show "apart s (init_keyboard s)" "apart s (load_idt a s)"
    by (simp_all add: apart_def init_keyboard_def register_interrupt_handler_def load_idt_def com1_def Let_def)
qed

lemma apart_timer: "freq \<noteq> 0 \<Longrightarrow> \<exists>s'. init_timer freq s = Some s' \<and> apart s s'"
  by (simp add: init_timer_def register_interrupt_handler_def Let_def apart_def m_outb_def outb_def com1_def)

lemma init_idt_tests_ready:
  assumes "transmits (dev (m_ports (tm s)))" and "loops_back (dev (m_ports (tm s)))"
  shows "\<exists>s'. init_idt_tests isr irq a s = Some s' \<and> talks s' \<and> com1 (tm s') = com1 (tm s) @ [3, 0xAE] @ clear_codes \<and>
     m_k (tm s') = m_k (tm s) \<and> num_groups s' = num_groups s \<and> groups s' = groups s"
proof -
  let ?m0 = "install_irqs irq (remap_pics (install_isrs isr (tm s)))"
  have "apart (tm s) ?m0" by (rule apart_trans [OF apart_trans [OF apart_ops(1) apart_ops(3)] apart_ops(2)])
  moreover obtain m1 where "init_timer R_FREQ ?m0 = Some m1" "apart ?m0 m1"
    using apart_timer [of R_FREQ ?m0] by auto
  ultimately have m1: "init_timer R_FREQ ?m0 = Some m1" "apart (tm s) m1" using apart_trans by blast+
  let ?m = "init_keyboard m1"
  have m: "apart (tm s) ?m" using m1(2) apart_ops(4) apart_trans by blast
  note lb = init_serial_loop [of "m_ports ?m"]
  have ok: "fst (init_serial (m_ports ?m))" "dev (snd (init_serial (m_ports ?m))) = dev (m_ports (tm s))"
     "sent_to COM1 (port_log (snd (init_serial (m_ports ?m)))) = com1 (tm s) @ [3, 0xAE]"
    using lb assms(2) m unfolding apart_def com1_def by simp_all
  let ?m2 = "init_serial_irqs ?m"
  have m2: "m_ports ?m2 = snd (init_serial (m_ports ?m))" "m_k ?m2 = m_k (tm s)"
    using ok(1) m by (simp_all add: init_serial_irqs_def register_interrupt_handler_def split_def Let_def apart_def)
  then have tr: "transmits (dev (m_ports ?m2))" using assms(1) ok(2) by simp
  obtain m3 where m3: "on_ports serial_clear ?m2 = m3" "transmits (dev (m_ports m3))" "com1 m3 = com1 ?m2 @ clear_codes"
      "quiet m3 = quiet ?m2"
    using st.put_all_text [OF tr, of "t_dis s" clear_codes] unfolding st.puts_all [symmetric] serial_clear_codes by auto
  let ?s = "s\<lparr>t_dis := serial_dis (t_dis s), tm := load_idt a m3\<rparr>"
  have "init_idt_tests isr irq a s = Some ?s"
    using m1(1) ok(1) m3(1) by (simp add: init_idt_tests_def init_serial_tests_def Let_def)
  moreover have "apart m3 (load_idt a m3)" by (rule apart_ops)
  moreover have "m_k m3 = m_k (tm s)" using quiet_simps(2) [OF m3(4)] m2(2) by simp
  moreover have "com1 m3 = com1 (tm s) @ [3, 0xAE] @ clear_codes" using m3(3) ok(3) m2(1) by (simp add: com1_def)
  ultimately show ?thesis using m3(2) by (auto simp: talks_def apart_def)
qed

lemma init_testing_groups:
  assumes "num_groups s = 0" and "groups s = replicate 50 None"
  shows "init_testing s = Some (s\<lparr>num_groups := 2, groups := Some slab_test_group # Some proc_test_group # replicate 48 None\<rparr>)"
  using assms by (simp add: init_testing_def add_group_def init_groups arr_put_def eval_nat_numeral)


section \<open>The test build from power on to the end\<close>

text \<open>\<open>fresh_threads k j\<close>: no thread id is taken, and what is at the four pages from \<open>j\<close> on reads as empty
  processes and threads; the boot thread is on none of them.\<close>

definition fresh_threads :: "kstate \<Rightarrow> nat \<Rightarrow> bool" where
  "fresh_threads k j \<longleftrightarrow> tids k = replicate MAX_TID False \<and>
     streams_ok (prc k (page_addr j)) \<and> length (threads (prc k (page_addr j))) = 8 \<and>
     streams_ok (prc k (page_addr (j + 2))) \<and> threads (prc k (page_addr (j + 2))) = replicate 8 0 \<and>
     tid (thr k (page_addr (j + 1))) \<noteq> 513 \<and> tid (thr k (page_addr (j + 3))) \<noteq> 513 \<and>
     running k \<notin> {page_addr (j + 1), page_addr (j + 3)}"

lemma page_addr_inj: "i < 2 ^ 19 \<Longrightarrow> j < 2 ^ 19 \<Longrightarrow> (page_addr i = page_addr j) = (i = j)"
proof
  assume ij: "i < 2 ^ 19" "j < 2 ^ 19" and eq: "page_addr i = page_addr j"
  have "unat (page_addr i) = 4194304 + 4096 * i" using ij(1) by (intro unat_page_addr) simp
  moreover have "unat (page_addr j) = 4194304 + 4096 * j" using ij(2) by (intro unat_page_addr) simp
  ultimately have "4194304 + 4096 * i = 4194304 + 4096 * j" unfolding eq by (rule trans [OF sym])
  then show "i = j" by linarith
qed simp

lemma init_processes_fresh:
  assumes m: "mem_ready (kmm k) n {0..<j}" and t: "fresh_threads k j" and j: "j + 4 < n"
  shows "\<exists>k'. init_processes k idle = Some k' \<and>
     before_create n {0..<j + 2} (j + 2) [page_addr (j + 1)] [page_addr j] k'"
proof -
  note f = t [unfolded fresh_threads_def]
  have n: "n < 2 ^ 19" using m by (simp add: mem_ready_def)
  have "next_two n {0..<j} j" using j by (simp add: next_two_def)
  then obtain k1 k2 where c: "can_create k (page_addr j) k1 (page_addr (Suc j)) k2" "mem_ready k2 n (insert (Suc j) (insert j {0..<j}))"
    using two_pages [OF m, of j] f by auto
  have u: "insert (Suc j) (insert j {0..<j}) = {0..<j + 2}" by auto
  have blank: "blank k (page_addr j) []" and run: "running k \<noteq> page_addr (Suc j)"
    using f by (simp_all add: blank_def streams_ok_def)
  obtain k' where k': "init_processes k idle = Some k'" "thread_lists (nodes k') [page_addr (Suc j)] [] []"
      "dll heap_ops (nodes k') all_procs [PNode (page_addr j)]" "kmm k' = k2" "pid_count k' = 1" "length (tids k') = MAX_TID"
      "\<And>u. u \<noteq> page_addr (Suc j) \<Longrightarrow> u \<noteq> running k \<Longrightarrow> thr k' u = thr k u" "\<And>q. q \<noteq> page_addr j \<Longrightarrow> prc k' q = prc k q"
      "\<exists>i. tids k' = (tids k)[i := True]"
    using init_processes_lists [OF c(1) blank run, of idle] by blast
  obtain i where i: "tids k' = (tids k)[i := True]" using k'(9) by blast
  have "tids k' ! (if i = 0 then 1 else 0) = False" using i f by simp
  then have "False \<in> set (tids k')" using k'(6) by (metis nth_mem zero_less_numeral one_less_numeral_iff semiring_norm(76))
  moreover have "page_addr (j + 3) \<noteq> page_addr (Suc j)" "page_addr (j + 2) \<noteq> page_addr j"
    using page_addr_inj j n by simp_all
  then have "thr k' (page_addr (j + 3)) = thr k (page_addr (j + 3))" "prc k' (page_addr (j + 2)) = prc k (page_addr (j + 2))"
    using k'(7,8) f by auto
  moreover have "Suc (j + 2) = j + 3" by simp
  ultimately have "before_create n {0..<j + 2} (j + 2) [page_addr (j + 1)] [page_addr j] k'"
    using k'(2-6) c(2) f unfolding before_create_def proc_bench_def u by (simp add: numeral_3_eq_3)
  then show ?thesis using k'(1) by blast
qed

text \<open>C6: The test suite passes.  On a machine whose memory reads as zero, with a serial port that returns a
  byte in loopback mode and transmits, and if no interrupt is taken on the way, \<open>kmain\<close> of the test build
  comes to the end of \<open>run_groups\<close>: all four tests pass, and the serial
  port gets the codes that clear the screen and the report, with a line for each test; then QEMU is
  told to shut down.  (The kernel does not exclude interrupts here: \<open>thread_create\<close> enables them, and as
  the boot thread is marked as blocked the eighth tick would take the processor from it for good.)  The
  tests leave no trace: the ready list, the list of processes and the pages in use are those that \<open>init_alloc\<close> and \<open>init_processes\<close> set up.\<close>

theorem test_suite_passes:
  assumes mem: "fresh_memory (mem_upper b) (t_kmm s) n" and thr: "fresh_threads (m_k (tm s)) (map_end n + 10)"
    and dev: "transmits (dev (m_ports (tm s)))" "loops_back (dev (m_ports (tm s)))"
    and statics: "num_groups s = 0" "groups s = replicate 50 None"
  shows "\<exists>s'. kmain_tests b fn s = Some (Returns (), s') \<and>
     com1 (tm s') = com1 (tm s) @ [3, 0xAE] @ clear_codes @ test_report \<and>
     last (port_log (m_ports (tm s'))) = Outw 0x604 0x2000 \<and>
     thread_lists (nodes (m_k (tm s'))) [page_addr (map_end n + 11)] [] [] \<and>
     dll heap_ops (nodes (m_k (tm s'))) all_procs [PNode (page_addr (map_end n + 10))] \<and>
     (\<forall>x. unat x < n \<longrightarrow> page_used (t_kmm s') x = (unat x < map_end n + 12))"
proof -
  let ?j = "map_end n + 10"
  have "map_end n + 14 < n" and n2: "n < 2 ^ 19" using mem unfolding fresh_memory_def by blast+
  then have n: "?j + 4 < n" "n < 2 ^ 19" by simp_all
  obtain s1 where s1: "init_idt_tests (isr_entry b) (irq_entry b) (idt_address b) s = Some s1" "talks s1"
      "com1 (tm s1) = com1 (tm s) @ [3, 0xAE] @ clear_codes" "m_k (tm s1) = m_k (tm s)" "num_groups s1 = 0"
      "groups s1 = replicate 50 None"
    using init_idt_tests_ready [OF dev] statics by metis
  have kmm: "t_kmm s1 = t_kmm s" using s1(4) by (simp add: t_kmm_def)
  obtain mm where mm: "init_alloc (t_kmm s1) (mem_upper b) = Some mm" "mem_ready mm n {0..<?j}"
    using init_alloc_fresh [OF mem] kmm by auto
  let ?k = "(m_k (tm s1))\<lparr>kmm := mm\<rparr>"
  have "fresh_threads ?k ?j" using thr s1(4) by (simp add: fresh_threads_def)
  from init_processes_fresh [OF _ this n(1)] mm(2) obtain k where
    k: "init_processes ?k (idle_fn b) = Some k" "before_create n {0..<?j + 2} (?j + 2) [page_addr (?j + 1)] [page_addr ?j] k"
    by auto
  let ?gs = "Some slab_test_group # Some proc_test_group # replicate 48 None"
  let ?s2 = "(set_k k s1)\<lparr>num_groups := 2, groups := ?gs\<rparr>"
  have it: "init_testing (set_k k s1) = Some ?s2"
    using s1(5,6) by (intro init_testing_groups) (simp_all add: set_k_def)
  have t2: "talks ?s2" "com1 (tm ?s2) = com1 (tm s1)" "m_k (tm ?s2) = k" using s1(2) by (simp_all add: talks_def set_k_def com1_def)
  have two: "next_two n {0..<?j + 2} (?j + 2)" using n by (simp add: next_two_def)
  have new: "page_addr (Suc (?j + 2)) \<notin> set [page_addr (?j + 1)]" "page_addr (?j + 2) \<notin> set [page_addr ?j]"
    using page_addr_inj n by simp_all
  obtain s3 where s3: "run_groups fn ?s2 = Some (Returns (), s3)" "com1 (tm s3) = com1 (tm ?s2) @ test_report"
      "last (port_log (m_ports (tm s3))) = Outw 0x604 0x2000" "proc_bench n {0..<?j + 2} (?j + 2) [page_addr (?j + 1)] [page_addr ?j] (m_k (tm s3))"
    using run_groups_pass [OF t2(1) _ two n(2) new, of "replicate 48 None" fn] k(2) t2(3) by auto
  let ?s = "set_k (enable_interrupts (m_k (tm s3))) s3"
  have "kmain_tests b fn s = Some (Returns (), ?s)"
    using s1(1) mm(1) k(1) it s3(1) by (simp add: kmain_tests_def)
  moreover have "com1 (tm ?s) = com1 (tm s3)" "m_ports (tm ?s) = m_ports (tm s3)" "nodes (m_k (tm ?s)) = nodes (m_k (tm s3))"
    "kmm (m_k (tm ?s)) = kmm (m_k (tm s3))"
    by (simp_all add: set_k_def com1_def)
  ultimately show ?thesis
    using s1(3) t2(2) s3(2-4) unfolding proc_bench_def mem_ready_def t_kmm_def
    by (intro exI [of _ ?s]) (simp add: add.commute)
qed

text \<open>Memory for 2816 pages, devices that answer at once, and the boot thread 0x1000.\<close>

definition demo_env :: boot_env where
  "demo_env = \<lparr>isr_entry = (\<lambda>_. 0x100000), irq_entry = (\<lambda>_. 0x100100), idt_address = 0x9000, idle_fn = 0x100200,
     mem_upper = 15360, framebuffer = demo_mbi, header_addr = 0\<rparr>"

definition demo_uart :: "port_access list \<Rightarrow> u16 \<Rightarrow> u16" where
  "demo_uart l q =
     (if q = COM1 then (if loopback_mode l then ucast (last_out COM1 l) else 0) else 0x20)"

definition demo_testing :: testing where
  "demo_testing = \<lparr>tm = demo_machine\<lparr>m_ports := \<lparr>port_log = [], dev = demo_uart\<rparr>,
       m_k := demo_state\<lparr>kmm := demo_pages\<lparr>kmem := \<lambda>_. 0\<rparr>\<rparr>\<rparr>,
     t_dis = machine_dis, slab_alloc_mem = 0, test_err_msg = [], num_groups = 0, groups = replicate 50 None\<rparr>"

theorem test_suite_passes_witness:
  "\<exists>s'. kmain_tests demo_env 0x100300 demo_testing = Some (Returns (), s') \<and>
     com1 (tm s') = [3, 0xAE] @ clear_codes @ test_report \<and> thread_lists (nodes (m_k (tm s'))) [0x40C000] [] []"
proof -
  have e: "map_end 2816 = 1" by (simp add: map_end_def)
  have 1: "fresh_memory (mem_upper demo_env) (t_kmm demo_testing) 2816"
    unfolding fresh_memory_def e by (simp add: demo_env_def t_kmm_def demo_testing_def demo_pages_def node_addrs_def)
  have 2: "fresh_threads (m_k (tm demo_testing)) (map_end 2816 + 10)"
    unfolding fresh_threads_def e by (simp add: demo_testing_def demo_state_def demo_process_def streams_ok_def demo_stream_def
        demo_thread_def page_addr_def)
  have tr: "transmits demo_uart" unfolding transmits_def by (auto simp: demo_uart_def intro!: exI [of _ 0])
  have "(ucast (ucast b :: u16) :: u8) = b" for b :: u8 by (rule bit_word_eqI) (auto simp: bit_simps)
  moreover have "loopback_mode (l @ [Outb COM1 b]) = loopback_mode l" "last_out COM1 (l @ [Outb COM1 b]) = b" for l b
    by (simp_all add: loopback_mode_def last_out_def)
  ultimately have "loops_back demo_uart" by (simp add: loops_back_def demo_uart_def)
  with tr have 3: "transmits (dev (m_ports (tm demo_testing)))" "loops_back (dev (m_ports (tm demo_testing)))"
    by (simp_all add: demo_testing_def)
  have "com1 (tm demo_testing) = []" "page_addr 12 = 0x40C000"
    by (simp_all add: demo_testing_def com1_def page_addr_def)
  then show ?thesis
    using test_suite_passes [OF 1 2 3, of "0x100300"] unfolding e by (auto simp: demo_testing_def)
qed

end
