(* ===== verification/Starve.thy ===== *)
theory Starve
  imports Born
begin

text \<open>
  Two runnable threads and nobody else: the scheduler of kernel/thread.c loses one of them.  As \<open>schedule\<close>
  leaves the last ready thread in the list, the second of the two is put behind itself when its slice ends,
  and two slices later the first one is cut off the list.
\<close>

section \<open>The lists beside the two threads\<close>

text \<open>\<open>calm s bs\<close>: the threads \<open>bs\<close> are blocked, and nobody is dying.\<close>

definition calm :: "kstate \<Rightarrow> u32 list \<Rightarrow> bool" where
  "calm s bs \<longleftrightarrow> dll heap_ops (nodes s) blocked_threads (map TNode bs) \<and> dll heap_ops (nodes s) dying_threads []"

text \<open>The nodes of the ready list with the threads \<open>ts\<close>.\<close>

definition ready_nodes :: "u32 set \<Rightarrow> nref set" where
  "ready_nodes us = TNode ` us \<union> {ReadyHead, ReadyTail}"

lemma calm_frame:
  assumes "calm s bs" and "same_on heap_ops (- ready_nodes us) (nodes s) (nodes s')" and "us \<inter> set bs = {}"
  shows "calm s' bs"
proof -
  have "set (spine blocked_threads (map TNode bs)) \<inter> ready_nodes us = {}" "set (spine dying_threads []) \<inter> ready_nodes us = {}"
    using assms(3) by (auto simp: set_spine ready_nodes_def)
  then show ?thesis using assms(1,2) unfolding calm_def by (blast intro: dll_frame)
qed

lemma calm_lists: "thread_lists (nodes s) rs bs [] \<Longrightarrow> calm s bs"
  by (simp add: thread_lists_def calm_def)

lemma calm_dispatched [simp]: "calm (dispatched t s) bs = calm s bs" "calm (disable_interrupts s) bs = calm s bs"
  "calm (set_state t st s) bs = calm s bs" "calm (enable_interrupts s) bs = calm s bs"
  by (simp_all add: calm_def)

lemma placed_enable [simp]: "placed (enable_interrupts s) t = placed s t"
  by (simp add: placed_def)

lemma finish_calm:
  assumes "calm s bs" and "placed s t"
  shows "finish_schedule (switch_threads s t) = Some (dispatched t s)"
proof -
  let ?s = "set_state t THREAD_RUNNING (switch_threads s t)"
  have "placed ?s t" using assms(2) by (simp add: placed_def)
  moreover have "list_isEmpty heap_ops (nodes s) dying_threads"
    using dll_isEmpty [of heap_ops "nodes s" dying_threads "[]"] assms(1) by (simp add: calm_def)
  ultimately show ?thesis
    using proc_set_active_placed [of ?s t]
    by (simp add: finish_schedule_def THREAD_CUR_def PROC_CUR_def Let_def dispatched_def)
qed

text \<open>The two ways a running thread comes out of \<open>schedule\<close> once the next one has been taken.\<close>

lemma schedule_pops:
  assumes "list_size heap_ops (nodes s) ready_threads = Some n" "n \<noteq> 1"
    and "k_pop (disable_interrupts s) ready_threads = Some (Some (TNode t), (disable_interrupts s)\<lparr>nodes := h\<rparr>)"
    and "t_state (thr s (running s)) = THREAD_RUNNING"
    and "k_insert_end (set_state (running s) THREAD_READY ((disable_interrupts s)\<lparr>nodes := h\<rparr>)) ready_threads
       (TNode (running s)) = Some (set_state (running s) THREAD_READY ((disable_interrupts s)\<lparr>nodes := h'\<rparr>))"
  shows "t = running s \<Longrightarrow> schedule s = Some (Returns (),
       enable_interrupts (set_state t THREAD_RUNNING (set_state t THREAD_READY ((disable_interrupts s)\<lparr>nodes := h'\<rparr>))))"
    and "t \<noteq> running s \<Longrightarrow> t_state (thr s t) = THREAD_READY \<Longrightarrow> placed s t \<Longrightarrow> calm (s\<lparr>nodes := h'\<rparr>) bs \<Longrightarrow>
       schedule s = Some (Switched, dispatched t (set_state (running s) THREAD_READY ((disable_interrupts s)\<lparr>nodes := h'\<rparr>)))"
proof -
  let ?s = "set_state (running s) THREAD_READY ((disable_interrupts s)\<lparr>nodes := h'\<rparr>)"
  show "schedule s = Some (Returns (), enable_interrupts (set_state t THREAD_RUNNING
      (set_state t THREAD_READY ((disable_interrupts s)\<lparr>nodes := h'\<rparr>))))" if "t = running s"
    using assms that by (simp add: schedule_def Let_def THREAD_CUR_def)
  assume t: "t \<noteq> running s" "t_state (thr s t) = THREAD_READY" "placed s t" "calm (s\<lparr>nodes := h'\<rparr>) bs"
  have "finish_schedule (switch_threads ?s t) = Some (dispatched t ?s)"
    using t(3,4) by (intro finish_calm [of _ bs]) (simp_all add: calm_def)
  then show "schedule s = Some (Switched, dispatched t ?s)"
    using assms t by (simp add: schedule_def Let_def THREAD_CUR_def)
qed

lemma schedule_keeps_one:
  assumes "solo (nodes s) t" and "t \<noteq> running s" and "t_state (thr s (running s)) = THREAD_RUNNING"
    and "k_insert_end (set_state (running s) THREAD_READY (disable_interrupts s)) ready_threads
       (TNode (running s)) = Some (set_state (running s) THREAD_READY ((disable_interrupts s)\<lparr>nodes := h\<rparr>))"
    and "t_state (thr s t) = THREAD_READY" and "placed s t" and "calm (s\<lparr>nodes := h\<rparr>) bs"
  shows "schedule s = Some (Switched, dispatched t (set_state (running s) THREAD_READY ((disable_interrupts s)\<lparr>nodes := h\<rparr>)))"
proof -
  let ?s = "set_state (running s) THREAD_READY ((disable_interrupts s)\<lparr>nodes := h\<rparr>)"
  have "finish_schedule (switch_threads ?s t) = Some (dispatched t ?s)"
    using assms by (intro finish_calm [of _ bs]) (simp_all add: calm_def)
  moreover have "n_next (nodes s ReadyHead) = Some (TNode t)" using assms(1) by (simp add: solo_def)
  ultimately show ?thesis
    using assms solo_size [OF assms(1)] by (simp add: schedule_def Let_def THREAD_CUR_def)
qed

section \<open>Three schedules\<close>

text \<open>The running thread, in front of the ready list, goes behind the other one and runs on.\<close>

lemma schedule_front:
  assumes ok: "listed_ok s [t, c] bs" and run: "running s = t"
  shows "\<exists>s'. schedule s = Some (Returns (), s') \<and> listed_ok s' [c, t] bs \<and> running s' = t"
proof -
  let ?s0 = "disable_interrupts s"
  have lists: "thread_lists (nodes s) [t, c] bs []" and r: "t_state (thr s t) = THREAD_RUNNING" and tc: "t \<noteq> c" "t \<notin> set bs"
    using ok run by (auto simp: listed_ok_def thread_lists_def)
  obtain h1 where h1: "k_pop ?s0 ready_threads = Some (Some (TNode t), ?s0\<lparr>nodes := h1\<rparr>)" "thread_lists h1 [c] bs []"
    using ready_pop [of ?s0 t "[c]" bs "[]"] lists by auto
  let ?s1 = "set_state t THREAD_READY (?s0\<lparr>nodes := h1\<rparr>)"
  obtain h2 where h2: "k_insert_end ?s1 ready_threads (TNode t) = Some (?s1\<lparr>nodes := h2\<rparr>)" "thread_lists h2 [c, t] bs []"
    using ready_insert_end [of ?s1 "[c]" bs "[]" t] h1(2) tc by auto
  let ?s' = "enable_interrupts (set_state t THREAD_RUNNING (set_state t THREAD_READY (?s0\<lparr>nodes := h2\<rparr>)))"
  have ins: "k_insert_end ?s1 ready_threads (TNode t) = Some (set_state t THREAD_READY (?s0\<lparr>nodes := h2\<rparr>))"
    using h2(1) by (simp add: set_state_def upd_thr_def)
  have "schedule s = Some (Returns (), ?s')"
    using schedule_pops(1) [of s 2 t h1 h2, unfolded run, OF _ _ h1(1) r ins] ready_size [OF lists] by simp
  moreover have "listed_ok ?s' [c, t] bs"
    using ok h2(2) tc run by (auto simp: listed_ok_def)
  ultimately show ?thesis using run by auto
qed

text \<open>\<open>passed s c t bs\<close>: the thread \<open>c\<close> runs, and \<open>t\<close> is ready, alone in the list and linked to itself.\<close>

definition passed :: "kstate \<Rightarrow> u32 \<Rightarrow> u32 \<Rightarrow> u32 list \<Rightarrow> bool" where
  "passed s c t bs \<longleftrightarrow> running s = c \<and> c \<noteq> t \<and> {c, t} \<inter> set bs = {} \<and> calm s bs \<and> placed s c \<and> placed s t \<and>
     t_state (thr s c) = THREAD_RUNNING \<and> t_state (thr s t) = THREAD_READY \<and> (\<exists>h. nodes s = self_linked h t \<and> solo h t)"

text \<open>The running thread, at the end of the ready list, is put behind itself.\<close>

lemma schedule_back:
  assumes ok: "listed_ok s [c, t] bs" and run: "running s = t"
  shows "\<exists>s'. schedule s = Some (Switched, s') \<and> passed s' c t bs"
proof -
  let ?s0 = "disable_interrupts s"
  have lists: "thread_lists (nodes s) [c, t] bs []" and r: "t_state (thr s t) = THREAD_RUNNING" "t_state (thr s c) = THREAD_READY"
    and tc: "c \<noteq> t" "{c, t} \<inter> set bs = {}" and p: "placed s c" "placed s t"
    using ok run by (auto simp: listed_ok_def thread_lists_def)
  obtain h1 where h1: "k_pop ?s0 ready_threads = Some (Some (TNode c), ?s0\<lparr>nodes := h1\<rparr>)" "thread_lists h1 [t] bs []"
    using ready_pop [of ?s0 c "[t]" bs "[]"] lists by auto
  have solo: "solo h1 t" using h1(2) by (rule thread_lists_solo)
  let ?s1 = "set_state t THREAD_READY (?s0\<lparr>nodes := h1\<rparr>)" and ?h = "self_linked h1 t"
  let ?s' = "dispatched c (set_state t THREAD_READY (?s0\<lparr>nodes := ?h\<rparr>))"
  have ins: "k_insert_end ?s1 ready_threads (TNode t) = Some (set_state t THREAD_READY (?s0\<lparr>nodes := ?h\<rparr>))"
    using solo_insert_end [of ?s1 t] solo by (simp add: set_state_def upd_thr_def)
  have "same_on heap_ops (- ready_nodes {t}) h1 ?h" by (auto simp: same_on_def self_linked_def ready_nodes_def)
  then have calm: "calm (s\<lparr>nodes := ?h\<rparr>) bs"
    using calm_frame [of "s\<lparr>nodes := h1\<rparr>" bs "{t}" "s\<lparr>nodes := ?h\<rparr>"] calm_lists [of "s\<lparr>nodes := h1\<rparr>" "[t]" bs] h1(2) tc by simp
  have "schedule s = Some (Switched, ?s')"
    using schedule_pops(2) [of s 2 c h1 ?h bs, unfolded run, OF _ _ h1(1) r(1) ins tc(1) r(2) p(1) calm] ready_size [OF lists] by simp
  moreover have "passed ?s' c t bs"
    using tc p r calm solo by (auto simp: passed_def calm_def)
  ultimately show ?thesis by blast
qed

text \<open>The thread \<open>c\<close> behind the thread \<open>t\<close> that is linked to itself.\<close>

definition behind :: "nref heap \<Rightarrow> u32 \<Rightarrow> u32 \<Rightarrow> nref heap" where
  "behind h t c = h(TNode t := \<lparr>n_next = Some (TNode c), n_prev = Some (TNode t)\<rparr>,
     TNode c := \<lparr>n_next = Some ReadyTail, n_prev = Some (TNode t)\<rparr>,
     ReadyTail := \<lparr>n_next = None, n_prev = Some (TNode c)\<rparr>)"

lemma schedule_passed:
  assumes ok: "passed s c t bs"
  shows "\<exists>s'. schedule s = Some (Switched, s') \<and> running s' = t \<and> t_state (thr s' t) = THREAD_RUNNING \<and>
     t_state (thr s' c) = THREAD_READY \<and> calm s' bs \<and> (\<exists>h. solo h t \<and> nodes s' = behind h t c)"
proof -
  have run: "running s = c" and p: "c \<noteq> t" "{c, t} \<inter> set bs = {}" "calm s bs" "placed s t"
    "t_state (thr s c) = THREAD_RUNNING" "t_state (thr s t) = THREAD_READY"
    using ok by (simp_all add: passed_def)
  obtain h where h: "nodes s = self_linked h t" "solo h t" using ok by (auto simp: passed_def)
  let ?s0 = "disable_interrupts s"
  let ?h = "behind h t c" and ?s' = "dispatched t (set_state c THREAD_READY ((disable_interrupts s)\<lparr>nodes := behind h t c\<rparr>))"
  have "list_insert_end heap_ops (self_linked h t) ReadyTail (TNode c) = Some ?h"
    using h(2) p(1) by (simp add: list_insert_end_def solo_def self_linked_def behind_def fun_eq_iff)
  then have ins: "k_insert_end (set_state c THREAD_READY ?s0) ready_threads (TNode c) =
      Some (set_state c THREAD_READY (?s0\<lparr>nodes := ?h\<rparr>))"
    using h(1) by (simp add: k_insert_end_def set_state_def upd_thr_def)
  have "same_on heap_ops (- ready_nodes {c, t}) (nodes s) ?h"
    by (auto simp: h(1) same_on_def self_linked_def behind_def ready_nodes_def)
  then have calm: "calm (s\<lparr>nodes := ?h\<rparr>) bs"
    using calm_frame [OF p(3), of "{c, t}" "s\<lparr>nodes := ?h\<rparr>"] p(2) by simp
  have solo: "solo (nodes s) t" using h by (simp add: solo_def self_linked_def)
  have "schedule s = Some (Switched, ?s')"
    using schedule_keeps_one [OF solo, of ?h bs, unfolded run] p(1) calm ins p(4-6) by simp
  moreover have "calm ?s' bs"
    using calm by (simp add: calm_def)
  ultimately show ?thesis using h(2) p(1) by (intro exI [of _ ?s']) auto
qed

text \<open>The thread that is linked to itself cuts the list behind it off.\<close>

lemma schedule_cuts:
  assumes run: "running s = t" "t_state (thr s t) = THREAD_RUNNING" and c: "c \<noteq> t" "t_state (thr s c) = THREAD_READY"
    and bs: "calm s bs" "{c, t} \<inter> set bs = {}"
    and h: "solo h t" "nodes s = behind h t c"
  shows "\<exists>s'. schedule s = Some (Returns (), s') \<and> running s' = t \<and> t_state (thr s' t) = THREAD_RUNNING \<and>
     t_state (thr s' c) = THREAD_READY \<and> calm s' bs \<and> solo (nodes s') t"
proof -
  let ?s0 = "disable_interrupts s"
  let ?h1 = "(nodes s)(TNode t := \<lparr>n_next = None, n_prev = None\<rparr>, TNode c := \<lparr>n_next = Some ReadyTail, n_prev = Some (TNode t)\<rparr>)"
  let ?h2 = "?h1(TNode c := \<lparr>n_next = Some (TNode t), n_prev = Some (TNode t)\<rparr>,
     TNode t := \<lparr>n_next = Some ReadyTail, n_prev = Some (TNode c)\<rparr>, ReadyTail := \<lparr>n_next = None, n_prev = Some (TNode t)\<rparr>)"
  have hd: "n_next (h ReadyHead) = Some (TNode t)" "n_prev (h ReadyHead) = None" using h(1) by (simp_all add: solo_def)
  have size: "list_size heap_ops (nodes s) ready_threads = Some 2"
    using c(1) hd by (simp add: h(2) behind_def list_size_def list_count.simps list_hasNext_def)
  have seek: "list_seek heap_ops (nodes s) (Some ReadyHead) (TNode t) = Some (Some (TNode t))"
    using hd by (simp add: h(2) behind_def list_seek_step)
  have "list_delete heap_ops (nodes s) ready_threads (TNode t) = Some (Some (TNode t), ?h1)"
    using seek c(1) by (simp add: list_delete_def Let_def h(2) behind_def fun_eq_iff)
  then have pop: "k_pop ?s0 ready_threads = Some (Some (TNode t), ?s0\<lparr>nodes := ?h1\<rparr>)"
    using hd c(1) by (simp add: k_pop_def list_pop_def list_isEmpty_def h(2) behind_def)
  have "list_insert_end heap_ops ?h1 ReadyTail (TNode t) = Some ?h2"
    using c(1) by (simp add: list_insert_end_def h(2) behind_def fun_eq_iff)
  then have ins: "k_insert_end (set_state t THREAD_READY (?s0\<lparr>nodes := ?h1\<rparr>)) ready_threads (TNode t) =
      Some (set_state t THREAD_READY (?s0\<lparr>nodes := ?h2\<rparr>))"
    by (simp add: k_insert_end_def set_state_def upd_thr_def)
  let ?s' = "enable_interrupts (set_state t THREAD_RUNNING (set_state t THREAD_READY (?s0\<lparr>nodes := ?h2\<rparr>)))"
  have "schedule s = Some (Returns (), ?s')"
    using schedule_pops(1) [of s 2 t ?h1 ?h2, unfolded run(1), OF size _ pop run(2) ins] by simp
  moreover have "same_on heap_ops (- ready_nodes {c, t}) (nodes s) ?h2"
    by (auto simp: same_on_def ready_nodes_def)
  then have "calm (s\<lparr>nodes := ?h2\<rparr>) bs" using calm_frame [OF bs(1), of "{c, t}" "s\<lparr>nodes := ?h2\<rparr>"] bs(2) by simp
  then have "calm ?s' bs" by (simp add: calm_def)
  moreover have "solo ?h2 t" using hd c(1) by (simp add: solo_def h(2) behind_def)
  ultimately show ?thesis using run c by (intro exI [of _ ?s']) auto
qed

section \<open>The lost thread\<close>

definition lost :: "kstate \<Rightarrow> u32 \<Rightarrow> u32 \<Rightarrow> u32 list \<Rightarrow> bool" where
  "lost s c t bs \<longleftrightarrow> running s = t \<and> t_state (thr s t) = THREAD_RUNNING \<and> c \<noteq> t \<and> {c, t} \<inter> set bs = {} \<and>
     t_state (thr s c) = THREAD_READY \<and> calm s bs \<and> solo (nodes s) t"

lemma lost_stays:
  assumes "lost s c t bs"
  shows "\<exists>s'. run_slices n s = Some s' \<and> lost s' c t bs"
  using assms
proof (induction n arbitrary: s)
  case (Suc n)
  let ?s = "s\<lparr>nodes := self_linked (nodes s) t, interrupts := True\<rparr>"
  have "same_on heap_ops (- ready_nodes {t}) (nodes s) (nodes ?s)"
    by (auto simp: same_on_def self_linked_def ready_nodes_def)
  then have "calm ?s bs" using calm_frame [of s bs "{t}" ?s] Suc.prems by (simp add: lost_def)
  then have "lost ?s c t bs" using Suc.prems by (simp add: lost_def solo_def self_linked_def)
  moreover have "schedule s = Some (Returns (), ?s)" using schedule_solo [of s t] Suc.prems by (simp add: lost_def)
  ultimately show ?case using Suc.IH [of ?s] by auto
qed simp

text \<open>The first schedule, from a state in which the running thread is in no list.\<close>

lemma schedule_first:
  assumes ok: "sched_ok s [t] bs"
  shows "\<exists>s'. schedule s = Some (Switched, s') \<and> running s' = t \<and> listed_ok s' [t, running s] bs"
proof -
  let ?c = "running s" and ?s0 = "disable_interrupts s"
  let ?s1 = "set_state ?c THREAD_READY ?s0"
  have lists: "thread_lists (nodes s) [t] bs []" and c: "?c \<notin> set ([t] @ bs)"
    and st: "t_state (thr s ?c) = THREAD_RUNNING" "t_state (thr s t) = THREAD_READY" and p: "placed s ?c" "placed s t"
    and b: "\<forall>u\<in>set bs. t_state (thr s u) = THREAD_BLOCKED"
    using ok by (auto simp: sched_ok_def)
  obtain h where h: "k_insert_end ?s1 ready_threads (TNode ?c) = Some (?s1\<lparr>nodes := h\<rparr>)" "thread_lists h [t, ?c] bs []"
    using ready_insert_end [of ?s1 "[t]" bs "[]" ?c] lists c by auto
  let ?s' = "dispatched t (set_state ?c THREAD_READY (?s0\<lparr>nodes := h\<rparr>))"
  have ins: "k_insert_end ?s1 ready_threads (TNode ?c) = Some (set_state ?c THREAD_READY (?s0\<lparr>nodes := h\<rparr>))"
    using h(1) by (simp add: set_state_def upd_thr_def)
  have calm: "calm (s\<lparr>nodes := h\<rparr>) bs" using calm_lists [of "s\<lparr>nodes := h\<rparr>"] h(2) by simp
  have tc: "t \<noteq> ?c" and tb: "t \<notin> set bs" "?c \<notin> set bs" using c lists by (auto simp: thread_lists_def)
  have "schedule s = Some (Switched, ?s')"
    using schedule_keeps_one [OF thread_lists_solo [OF lists] tc st(1) ins st(2) p(2) calm] by simp
  moreover have "listed_ok ?s' [t, ?c] bs" using h(2) tc tb p b by (auto simp: listed_ok_def)
  ultimately show ?thesis by auto
qed

text \<open>C8: Two runnable threads are one too many.  From a state in which the lists are in order, with one
  thread running and one ready, the slices go to the ready thread, to it again, once more to the
  first, and from then on only to the second: after the fifth \<open>schedule\<close> the first thread is ready,
  but in no list, and never runs again.\<close>

theorem two_threads_starve:
  assumes "sched_ok s [t] bs"
  shows "\<exists>s'. run_slices k s = Some s' \<and> running s' = (if k = 0 \<or> k = 3 then running s else t) \<and>
     (5 \<le> k \<longrightarrow> t_state (thr s' (running s)) = THREAD_READY \<and> solo (nodes s') t \<and> calm s' bs \<and>
        running s \<notin> set (t # bs))"
proof -
  let ?c = "running s"
  have c: "?c \<noteq> t" "{?c, t} \<inter> set bs = {}" using assms by (auto simp: sched_ok_def thread_lists_def)
  obtain s1 where s1: "schedule s = Some (Switched, s1)" "running s1 = t" "listed_ok s1 [t, ?c] bs"
    using schedule_first [OF assms] by blast
  obtain s2 where s2: "schedule s1 = Some (Returns (), s2)" "listed_ok s2 [?c, t] bs" "running s2 = t"
    using schedule_front [OF s1(3,2)] by blast
  obtain s3 where s3: "schedule s2 = Some (Switched, s3)" "passed s3 ?c t bs" using schedule_back [OF s2(2,3)] by blast
  obtain s4 h where s4: "schedule s3 = Some (Switched, s4)" "running s4 = t" "t_state (thr s4 t) = THREAD_RUNNING"
      "t_state (thr s4 ?c) = THREAD_READY" "calm s4 bs" "solo h t" "nodes s4 = behind h t ?c"
    using schedule_passed [OF s3(2)] by blast
  obtain s5 where s5: "schedule s4 = Some (Returns (), s5)" "lost s5 ?c t bs"
    using schedule_cuts [OF s4(2,3) c(1) s4(4,5) c(2) s4(6,7)] c by (auto simp: lost_def)
  have r3: "running s3 = ?c" using s3(2) by (simp add: passed_def)
  show ?thesis
  proof (cases "5 \<le> k")
    case True
    obtain s' where "run_slices (k - 5) s5 = Some s'" "lost s' ?c t bs" using lost_stays [OF s5(2)] by blast
    moreover have "k = Suc (Suc (Suc (Suc (Suc (k - 5)))))" using True by simp
    then have "run_slices k s = run_slices (k - 5) s5"
      using s1(1) s2(1) s3(1) s4(1) s5(1) run_slices.simps(2) by (metis bind.bind_lunit case_prod_conv)
    ultimately show ?thesis using True c by (auto simp: lost_def)
  next
    case False
    then have "k \<in> {0, 1, 2, 3, 4}" by auto
    then show ?thesis
      using s1(1,2) s2(1,3) s3(1) r3 s4(1,2) by (auto simp: eval_nat_numeral)
  qed
qed

theorem two_threads_starve_witness:
  "\<exists>s'. run_slices 100 demo_single = Some s' \<and> running s' = 0x2000 \<and> t_state (thr s' 0x1000) = THREAD_READY \<and>
     solo (nodes s') 0x2000"
  using two_threads_starve [OF demo_single_ok, of 100] by (auto simp: demo_single_def demo_state_def)

end
