(* ===== verification/Multitask.thy ===== *)
theory Multitask
  imports Suite Starve
begin

text \<open>
  Several threads at once: the scheduler of kernel/thread.c, the thread tables of kernel/proc.c and the page
  allocator together refine a list of tasks, as long as at least two threads are ready beside the running one.
\<close>

section \<open>The specification\<close>

text \<open>The running task, the ready ones in the order of their turns, the blocked ones; for each task its process
  and its slot there; the slots of the processes and the number of their threads; the pages in use, the ids
  taken, and the ticks since the last slice.\<close>

record tasks =
  cur :: u32
  rdy :: "u32 list"
  blk :: "u32 list"
  home :: "u32 \<Rightarrow> u32 \<times> nat"
  slots :: "u32 \<Rightarrow> u32 list"
  live :: "u32 \<Rightarrow> nat"
  used :: "nat set"
  ids :: "bool list"
  tick :: nat

definition all_tasks :: "tasks \<Rightarrow> u32 list" where
  "all_tasks a = cur a # rdy a @ blk a"

text \<open>What threads and the timer ask of the scheduler.  \<open>Spawn\<close> is \<open>proc_create_thread\<close>.\<close>

datatype request = Tick | Yield | Block | Unblock u32 | Spawn u8 string u32 u32 | Kill u32 | Exit

text \<open>The task at the head of the ready list gets its turn.\<close>

definition turn :: "tasks \<Rightarrow> (int ctl \<times> tasks) option" where
  "turn a = (if 2 \<le> length (rdy a) then Some (Switched, a\<lparr>cur := hd (rdy a), rdy := tl (rdy a) @ [cur a]\<rparr>) else None)"

text \<open>What a task leaves behind: its slot, its page; its process has to outlive it.\<close>

definition bury :: "u32 \<Rightarrow> tasks \<Rightarrow> tasks" where
  "bury t a = (let (p, i) = home a t in
     a\<lparr>slots := (slots a)(p := (slots a p)[i := 0]), live := (live a)(p := live a p - 1),
       used := used a - {page_no t}\<rparr>)"

definition spawn :: "nat \<Rightarrow> string \<Rightarrow> tasks \<Rightarrow> (int ctl \<times> tasks) option" where
  "spawn n name a = (let p = fst (home a (cur a)) in do {
     c \<leftarrow> find (\<lambda>c. slots a p ! c = 0) [0..<8];
     i \<leftarrow> find (\<lambda>i. \<not> ids a ! i) [0..<512];
     j \<leftarrow> find (\<lambda>j. j \<notin> used a) [0..<n];
     if j + 1 < n \<and> length name < 37 \<and> live a p < 8
     then Some (Returns (int i), let t = page_addr j in
       a\<lparr>rdy := t # rdy a, home := (home a)(t := (p, c)), slots := (slots a)(p := (slots a p)[c := t]),
         live := (live a)(p := live a p + 1), used := insert j (used a), ids := (ids a)[i := True]\<rparr>)
     else None })"

text \<open>A request that the specification does not answer is one that it does not cover.  \<open>Block\<close> changes nothing:
  \<open>thread_block\<close> gives up when it does not find the running thread in the ready list, and in the states of
  this theory it never does, as \<open>schedule\<close> has taken the thread off the list.\<close>

fun task_step :: "nat \<Rightarrow> request \<Rightarrow> tasks \<Rightarrow> (int ctl \<times> tasks) option" where
  "task_step n Tick a =
     (if tick a = 7 then turn (a\<lparr>tick := 0\<rparr>) else Some (Returns 0, a\<lparr>tick := tick a + 1\<rparr>))"
| "task_step n Yield a = turn a"
| "task_step n Block a = Some (Returns 0, a)"
| "task_step n (Unblock t) a =
     (if t \<in> set (blk a) then Some (Returns 0, a\<lparr>rdy := t # rdy a, blk := remove1 t (blk a)\<rparr>)
      else if t \<in> set (all_tasks a) then Some (Returns 0, a) else None)"
| "task_step n (Spawn prio name func aux) a = spawn n name a"
| "task_step n (Kill t) a =
     (if t \<in> set (rdy a) \<and> 3 \<le> length (rdy a) \<and> 2 \<le> live a (fst (home a t))
      then Some (Returns 0, bury t (a\<lparr>rdy := remove1 t (rdy a)\<rparr>)) else None)"
| "task_step n Exit a =
     (if 3 \<le> length (rdy a) \<and> 2 \<le> live a (fst (home a (cur a)))
      then Some (Switched, bury (cur a) (a\<lparr>cur := hd (rdy a), rdy := tl (rdy a)\<rparr>)) else None)"

section \<open>The kernel\<close>

text \<open>The requests as calls of the kernel; calls without a result return 0.\<close>

definition quietly :: "(unit ctl \<times> kstate) option \<Rightarrow> (int ctl \<times> kstate) option" where
  "quietly r = map_option (\<lambda>(c, s). (case c of Returns _ \<Rightarrow> Returns 0 | Switched \<Rightarrow> Switched, s)) r"

fun kernel_step :: "request \<Rightarrow> kstate \<Rightarrow> (int ctl \<times> kstate) option" where
  "kernel_step Tick s = quietly (timer_interrupt_handler s)"
| "kernel_step Yield s = quietly (thread_yield s)"
| "kernel_step Block s = quietly (thread_block s)"
| "kernel_step (Unblock t) s = map_option (Pair (Returns 0)) (thread_unblock s t)"
| "kernel_step (Spawn prio name func aux) s =
     map_option (\<lambda>(i, s). (Returns i, s)) (proc_create_thread s prio name func aux)"
| "kernel_step (Kill t) s = thread_kill s t"
| "kernel_step Exit s = quietly (map_option snd (thread_exit s False))"

text \<open>\<open>owns n s a t\<close>: the thread \<open>t\<close> has its slot and a page of its own, and nobody waits for it.\<close>

definition owns :: "nat \<Rightarrow> kstate \<Rightarrow> tasks \<Rightarrow> u32 \<Rightarrow> bool" where
  "owns n s a t \<longleftrightarrow> t_proc (thr s t) = fst (home a t) \<and> unat (child_num (thr s t)) = snd (home a t) \<and> snd (home a t) < 8 \<and>
     dll heap_ops (nodes s) (thread_waiters t) [] \<and> page_no t \<in> used a \<and> page_no t + 1 < n \<and> t = page_addr (page_no t)"

definition tasks_rel :: "nat \<Rightarrow> kstate \<Rightarrow> tasks \<Rightarrow> bool" where
  "tasks_rel n s a \<longleftrightarrow> sched_ok s (rdy a) (blk a) \<and> running s = cur a \<and> 2 \<le> length (rdy a) \<and>
     (\<forall>t\<in>set (all_tasks a). owns n s a t) \<and> mem_ready (kmm s) n (used a) \<and>
     (\<forall>p. threads (prc s p) = slots a p \<and> length (slots a p) = 8 \<and> unat (num_live_threads (prc s p)) = live a p) \<and>
     tids s = ids a \<and> length (ids a) = 512 \<and> unat (thread_ticks s) mod 8 = tick a \<and> (\<forall>t. tid (thr s t) \<noteq> 513)"

section \<open>Turns\<close>

lemma waiters_kept:
  assumes "dll heap_ops h (thread_waiters t) []" and "same_on heap_ops (- sched_nodes) h h'"
  shows "dll heap_ops h' (thread_waiters t) []"
  using dll_frame [OF assms] waiter_spines(2) [of t "[]"] by simp

text \<open>\<open>moved s s'\<close>: between the two states threads have changed lists and states, and nothing else that matters.\<close>

definition moved :: "kstate \<Rightarrow> kstate \<Rightarrow> bool" where
  "moved s s' \<longleftrightarrow> same_on heap_ops (- sched_nodes) (nodes s) (nodes s') \<and> kmm s' = kmm s \<and> tids s' = tids s \<and>
     (\<forall>t. t_proc (thr s' t) = t_proc (thr s t) \<and> child_num (thr s' t) = child_num (thr s t) \<and> tid (thr s' t) = tid (thr s t)) \<and>
     (\<forall>p. threads (prc s' p) = threads (prc s p) \<and> num_live_threads (prc s' p) = num_live_threads (prc s p))"

lemma moved_refl [simp]: "moved s s"
  by (simp add: moved_def)

lemma owns_moved:
  assumes "owns n s a t" and "moved s s'" and "home a' t = home a t" and "page_no t \<in> used a'"
  shows "owns n s' a' t"
  using assms waiters_kept unfolding owns_def moved_def by metis

lemma tasks_rel_moved:
  assumes rel: "tasks_rel n s a" and m: "moved s s'" and ok: "sched_ok s' rs bs" "2 \<le> length rs"
    and sub: "set (running s' # rs @ bs) \<subseteq> set (all_tasks a)"
  shows "tasks_rel n s' (a\<lparr>cur := running s', rdy := rs, blk := bs, tick := unat (thread_ticks s') mod 8\<rparr>)"
proof -
  let ?a = "a\<lparr>cur := running s', rdy := rs, blk := bs, tick := unat (thread_ticks s') mod 8\<rparr>"
  have "owns n s' ?a t" if "t \<in> set (all_tasks ?a)" for t
  proof -
    have "owns n s a t" using that sub rel by (auto simp: tasks_rel_def all_tasks_def)
    then show ?thesis using m by (rule owns_moved) (use \<open>owns n s a t\<close> in \<open>simp_all add: owns_def\<close>)
  qed
  then show ?thesis using rel m ok by (simp add: tasks_rel_def moved_def)
qed

lemma tids_dispatched [simp]: "tids (dispatched t s) = tids s" "tids (set_state t st s) = tids s"
  by (simp_all add: dispatched_def set_state_def Let_def enable_interrupts_def)

text \<open>With two threads ready, \<open>schedule\<close> gives the next one its turn.\<close>

lemma schedule_turn:
  assumes ok: "sched_ok s (t # rs) bs" and two: "rs \<noteq> []"
  shows "\<exists>s'. schedule s = Some (Switched, s') \<and> sched_ok s' (rs @ [running s]) bs \<and> running s' = t \<and>
     moved s s' \<and> thread_ticks s' = thread_ticks s"
proof -
  let ?c = "running s" and ?s0 = "disable_interrupts s"
  have lists: "thread_lists (nodes s) (t # rs) bs []" and c: "?c \<notin> set ((t # rs) @ bs)"
    and st: "t_state (thr s ?c) = THREAD_RUNNING" "t_state (thr s t) = THREAD_READY" and p: "placed s t"
    and len: "length (t # rs) < 2 ^ 32"
    using ok by (auto simp: sched_ok_def)
  obtain h1 where h1: "k_pop ?s0 ready_threads = Some (Some (TNode t), ?s0\<lparr>nodes := h1\<rparr>)" "thread_lists h1 rs bs []"
      "same_on heap_ops (- sched_nodes) (nodes s) h1"
    using ready_pop [of ?s0 t rs bs "[]"] lists by auto
  let ?s1 = "set_state ?c THREAD_READY (?s0\<lparr>nodes := h1\<rparr>)"
  obtain h2 where h2: "k_insert_end ?s1 ready_threads (TNode ?c) = Some (?s1\<lparr>nodes := h2\<rparr>)" "thread_lists h2 (rs @ [?c]) bs []"
      "same_on heap_ops (- sched_nodes) h1 h2"
    using ready_insert_end [of ?s1 rs bs "[]" ?c] h1(2) c by auto
  let ?s' = "dispatched t (set_state ?c THREAD_READY (?s0\<lparr>nodes := h2\<rparr>))"
  have ins: "k_insert_end ?s1 ready_threads (TNode ?c) = Some (set_state ?c THREAD_READY (?s0\<lparr>nodes := h2\<rparr>))"
    using h2(1) by (simp add: set_state_def upd_thr_def)
  have "2 \<le> length (t # rs)" using two by (cases rs) simp_all
  then have n: "(of_nat (length (t # rs)) :: u32) \<noteq> 1" using of_nat_not_one [OF _ len] by blast
  have calm: "calm (s\<lparr>nodes := h2\<rparr>) bs" using calm_lists [of "s\<lparr>nodes := h2\<rparr>"] h2(2) by simp
  have tc: "t \<noteq> ?c" using c by auto
  have run: "schedule s = Some (Switched, ?s')"
    using schedule_pops(2) [OF _ n h1(1) st(1) ins tc st(2) p calm] ready_size [OF lists] by simp
  obtain s' where s': "schedule s = Some (Switched, s')" "sched_ok s' (rs @ [?c]) bs" "running s' = t" "thread_ticks s' = thread_ticks s"
    using schedule_rotates [OF ok two] by blast
  have "s' = ?s'" using run s'(1) by simp
  then have "moved s s'" using same_on_trans [OF h1(3) h2(3)] by (simp add: moved_def)
  then show ?thesis using s' by blast
qed

lemma turn_simulates:
  assumes rel: "tasks_rel n s a" and a: "turn a = Some (x, a')"
  shows "\<exists>s'. quietly (schedule s) = Some (x, s') \<and> tasks_rel n s' a' \<and> thread_ticks s' = thread_ticks s"
proof -
  obtain t rs where rs: "rdy a = t # rs" "rs \<noteq> []" using rel by (cases "rdy a"; cases "tl (rdy a)") (auto simp: tasks_rel_def)
  have x: "x = Switched" "a' = a\<lparr>cur := t, rdy := rs @ [cur a]\<rparr>" using a rs(1) by (auto simp: turn_def split: if_splits)
  have ok: "sched_ok s (t # rs) (blk a)" "running s = cur a" using rel rs(1) by (simp_all add: tasks_rel_def)
  obtain s' where s': "schedule s = Some (Switched, s')" "sched_ok s' (rs @ [cur a]) (blk a)" "running s' = t" "moved s s'"
      "thread_ticks s' = thread_ticks s"
    using schedule_turn [OF ok(1) rs(2)] ok(2) by auto
  have "2 \<le> length (rs @ [cur a])" using rs(2) by (cases rs) simp_all
  then have "tasks_rel n s' (a\<lparr>cur := t, rdy := rs @ [cur a], tick := unat (thread_ticks s) mod 8\<rparr>)"
    using tasks_rel_moved [OF rel s'(4,2)] s'(3,5) rs(1) by (auto simp: all_tasks_def)
  moreover have "a\<lparr>cur := t, rdy := rs @ [cur a], tick := unat (thread_ticks s) mod 8\<rparr> = a'"
    using rel x(2) by (simp add: tasks_rel_def)
  ultimately show ?thesis using s'(1,5) x(1) by (simp add: quietly_def)
qed

section \<open>Ticks, blocking and waking\<close>

lemma mod_tick: "(unat (x :: u8) + 1) mod 8 = (unat x mod 8 + 1) mod 8"
  by (simp add: mod_Suc)

lemma tick_simulates:
  assumes rel: "tasks_rel n s a" and a: "task_step n Tick a = Some (x, a')"
  shows "\<exists>s'. kernel_step Tick s = Some (x, s') \<and> tasks_rel n s' a'"
proof -
  let ?s = "ticked (Suc 0) s"
  have t: "unat (thread_ticks s) mod 8 = tick a" "unat (thread_ticks ?s) mod 8 = (tick a + 1) mod 8"
    using rel unat_ticked [of s] mod_tick [of "thread_ticks s"] by (simp_all add: tasks_rel_def del: ticked_simps)
  have m: "moved s ?s" by (simp add: moved_def ticked_def)
  have "tasks_rel n ?s (a\<lparr>cur := running ?s, rdy := rdy a, blk := blk a, tick := unat (thread_ticks ?s) mod 8\<rparr>)"
    using rel by (intro tasks_rel_moved [OF rel m]) (auto simp: tasks_rel_def all_tasks_def simp del: ticked_simps(10))
  then have rel': "tasks_rel n ?s (a\<lparr>tick := (tick a + 1) mod 8\<rparr>)"
    using rel unfolding t by (simp add: tasks_rel_def del: ticked_simps(10))
  show ?thesis
  proof (cases "tick a = 7")
    case True
    then have "(unat (thread_ticks s) + 1) mod 8 = 0" using t mod_tick [of "thread_ticks s"] by simp
    then have "timer_interrupt_handler s = schedule ?s" by (rule tick_schedules)
    then show ?thesis using turn_simulates [of n ?s "a\<lparr>tick := 0\<rparr>"] rel' True a by auto
  next
    case False
    have "tick a < 8" using t(1) by (metis mod_less_divisor zero_less_numeral)
    then have "(unat (thread_ticks s) + 1) mod 8 \<noteq> 0" "(tick a + 1) mod 8 = tick a + 1"
      using False t(1) mod_tick [of "thread_ticks s"] by simp_all
    then show ?thesis using tick_returns [of s] rel' False a by (auto simp: quietly_def)
  qed
qed

lemma tasks_rel_enabled:
  assumes rel: "tasks_rel n s a"
  shows "tasks_rel n (s\<lparr>interrupts := True\<rparr>) a"
proof -
  let ?s = "s\<lparr>interrupts := True\<rparr>"
  have "moved s ?s" by (simp add: moved_def)
  moreover have "sched_ok s (rdy a) (blk a)" using rel by (simp add: tasks_rel_def)
  then have "sched_ok ?s (rdy a) (blk a)" by (simp add: sched_ok_def placed_def)
  ultimately have "tasks_rel n ?s (a\<lparr>cur := running ?s, rdy := rdy a, blk := blk a, tick := unat (thread_ticks ?s) mod 8\<rparr>)"
    by (rule tasks_rel_moved [OF rel]) (use rel in \<open>auto simp: tasks_rel_def all_tasks_def\<close>)
  then show ?thesis using rel by (simp add: tasks_rel_def)
qed

lemma block_simulates:
  assumes rel: "tasks_rel n s a"
  shows "\<exists>s'. kernel_step Block s = Some (Returns 0, s') \<and> tasks_rel n s' a"
proof -
  have "sched_ok s (rdy a) (blk a)" using rel by (simp add: tasks_rel_def)
  then have "thread_block s = Some (Returns (), s\<lparr>interrupts := True\<rparr>)"
    using ready_delete [of "disable_interrupts s" "rdy a" "blk a" "[]" "running s"]
    by (auto simp: sched_ok_def thread_block_def THREAD_CUR_def enable_interrupts_def disable_interrupts_def)
  then show ?thesis using tasks_rel_enabled [OF rel] by (simp add: quietly_def)
qed

text \<open>What owning a slot and a page gives.\<close>

lemma owns_placed:
  assumes "owns n s a t" and "length (slots a (fst (home a t))) = 8"
    and "child_num (thr k t) = child_num (thr s t)" "t_proc (thr k t) = t_proc (thr s t)"
    and "threads (prc k (t_proc (thr s t))) = slots a (fst (home a t))"
  shows "placed k t"
proof -
  have "unat (ucast (child_num (thr s t)) :: u8) \<le> unat (child_num (thr s t))"
    by (simp add: unsigned_ucast_eq unsigned_take_bit_eq)
  then show ?thesis using assms by (simp add: owns_def placed_def)
qed

lemma owns_few:
  assumes "\<forall>t\<in>set us. owns n s a t" and "distinct us" and "n < 2 ^ 19"
  shows "length us < 2 ^ 32"
proof -
  have "set us \<subseteq> page_addr ` {..<n}"
  proof
    fix u assume "u \<in> set us"
    then have "owns n s a u" using assms(1) by blast
    then show "u \<in> page_addr ` {..<n}" unfolding owns_def by (metis add_lessD1 image_eqI lessThan_iff)
  qed
  then have "card (set us) \<le> card (page_addr ` {..<n})" by (rule card_mono [rotated]) simp
  also have "\<dots> \<le> n" using card_image_le [of "{..<n}" page_addr] by simp
  finally have "card (set us) \<le> n" .
  moreover have "card (set us) = length us" using assms(2) by (rule distinct_card)
  ultimately show ?thesis using assms(3) by simp
qed

lemma unblock_ready:
  assumes rel: "tasks_rel n s a" and t: "t \<in> set (blk a)"
  shows "\<exists>k. thread_unblock s t = Some k \<and> moved s k \<and> running k = cur a \<and> thread_ticks k = thread_ticks s \<and>
     sched_ok k (t # rdy a) (remove1 t (blk a))"
proof -
  have ok: "sched_ok s (rdy a) (blk a)" "running s = cur a" and n: "n < 2 ^ 19"
    and own: "\<And>u. u \<in> set (all_tasks a) \<Longrightarrow> owns n s a u"
    using rel by (auto simp: tasks_rel_def mem_ready_def)
  have lists: "thread_lists (nodes s) (rdy a) (blk a) []" and st: "t_state (thr s t) = THREAD_BLOCKED"
    using ok t by (auto simp: sched_ok_def)
  obtain s' where s': "thread_unblock s t = Some s'" "thread_lists (nodes s') (t # rdy a) (remove1 t (blk a)) []"
      "s' = s\<lparr>nodes := nodes s', thr := (thr s)(t := (thr s t)\<lparr>t_state := THREAD_READY\<rparr>), interrupts := True\<rparr>"
      "same_on heap_ops (- sched_nodes) (nodes s) (nodes s')"
    using thread_unblock_blocked [OF lists t st] by blast
  define h where "h = nodes s'"
  define k where "k = s\<lparr>nodes := h, thr := (thr s)(t := (thr s t)\<lparr>t_state := THREAD_READY\<rparr>), interrupts := True\<rparr>"
  have "s' = k" unfolding k_def h_def by (rule s'(3))
  then have h: "thread_unblock s t = Some k" "thread_lists h (t # rdy a) (remove1 t (blk a)) []"
      "same_on heap_ops (- sched_nodes) (nodes s) h"
    using s'(1,2,4) by (simp_all add: h_def)
  have place: "placed k u" if "u \<in> set (all_tasks a)" for u
    using own [OF that] rel by (intro owns_placed [of n s a]) (auto simp: tasks_rel_def owns_def k_def)
  have dist: "distinct (t # rdy a)" "t \<notin> set (remove1 t (blk a))" using h(2) by (auto simp: thread_lists_def)
  have "length (t # rdy a) < 2 ^ 32"
    using own t by (intro owns_few [OF _ dist(1) n]) (auto simp: all_tasks_def)
  moreover have "\<forall>u\<in>set (t # rdy a). placed k u" "placed k (running k)"
    using place t ok(2) by (auto simp: all_tasks_def k_def)
  moreover have "thread_lists (nodes k) (t # rdy a) (remove1 t (blk a)) []" using h(2) by (simp add: k_def)
  moreover have "running k \<notin> set ((t # rdy a) @ remove1 t (blk a))" "t_state (thr k (running k)) = THREAD_RUNNING"
    using ok(1) t by (auto simp: sched_ok_def k_def dest: notin_set_remove1)
  moreover have "\<forall>u\<in>set (t # rdy a). t_state (thr k u) = THREAD_READY" using ok(1) by (auto simp: sched_ok_def k_def)
  moreover have "\<forall>u\<in>set (remove1 t (blk a)). t_state (thr k u) = THREAD_BLOCKED"
    using ok(1) dist(2) by (auto simp: sched_ok_def k_def dest: notin_set_remove1)
  ultimately have "sched_ok k (t # rdy a) (remove1 t (blk a))" unfolding sched_ok_def by blast
  moreover have "moved s k" using h(3) by (simp add: moved_def k_def)
  ultimately show ?thesis using h(1) ok(2) by (intro exI [of _ k]) (simp add: k_def)
qed

lemma unblock_simulates:
  assumes rel: "tasks_rel n s a" and a: "task_step n (Unblock t) a = Some (x, a')"
  shows "\<exists>s'. kernel_step (Unblock t) s = Some (x, s') \<and> tasks_rel n s' a'"
proof (cases "t \<in> set (blk a)")
  case True
  obtain k where k: "thread_unblock s t = Some k" "moved s k" "running k = cur a" "thread_ticks k = thread_ticks s"
      "sched_ok k (t # rdy a) (remove1 t (blk a))"
    using unblock_ready [OF rel True] by blast
  have "tasks_rel n k (a\<lparr>cur := running k, rdy := t # rdy a, blk := remove1 t (blk a), tick := unat (thread_ticks k) mod 8\<rparr>)"
    by (rule tasks_rel_moved [OF rel k(2,5)])
      (use rel True k(3) in \<open>auto simp: all_tasks_def tasks_rel_def dest: notin_set_remove1\<close>)
  then have "tasks_rel n k (a\<lparr>rdy := t # rdy a, blk := remove1 t (blk a)\<rparr>)" using rel k(3,4) by (simp add: tasks_rel_def)
  then show ?thesis using k(1) a True by auto
next
  case False
  then have a': "t \<in> set (cur a # rdy a)" "x = Returns 0" "a' = a" using a by (auto simp: all_tasks_def split: if_splits)
  have "sched_ok s (rdy a) (blk a)" "running s = cur a" using rel by (simp_all add: tasks_rel_def)
  then have "t_state (thr s t) \<noteq> THREAD_BLOCKED" using a'(1) by (auto simp: sched_ok_def)
  then have "thread_unblock s t = Some (s\<lparr>interrupts := True\<rparr>)"
    by (simp add: thread_unblock_def enable_interrupts_def disable_interrupts_def)
  then show ?thesis using tasks_rel_enabled [OF rel] a'(2,3) by simp
qed

section \<open>The end of a task\<close>

text \<open>What \<open>thread_cleanup\<close> does when the process outlives the thread.\<close>

definition buried :: "kstate \<Rightarrow> u32 \<Rightarrow> u32 kalloc \<Rightarrow> kstate" where
  "buried s t k = (upd_prc (t_proc (thr s t)) (\<lambda>r. r\<lparr>threads := (threads r)[unat (child_num (thr s t)) := 0],
     num_live_threads := num_live_threads r - 1\<rparr>) s)\<lparr>kmm := k\<rparr>"

lemma buried_simps [simp]:
  "nodes (buried s t k) = nodes s" "thr (buried s t k) = thr s" "running (buried s t k) = running s"
  "tids (buried s t k) = tids s" "kmm (buried s t k) = k" "thread_ticks (buried s t k) = thread_ticks s"
  "prc (buried s t k) = (prc s)(t_proc (thr s t) := (prc s (t_proc (thr s t)))
     \<lparr>threads := (threads (prc s (t_proc (thr s t))))[unat (child_num (thr s t)) := 0],
      num_live_threads := num_live_threads (prc s (t_proc (thr s t))) - 1\<rparr>)"
  by (simp_all add: buried_def)

lemma placed_buried [simp]: "placed (buried s t k) u = placed s u"
  by (simp add: placed_def)

lemma sched_ok_buried: "sched_ok (enable_interrupts (buried s t k)) rs bs = sched_ok s rs bs"
  by (simp add: sched_ok_def)

lemma thread_cleanup_buries:
  assumes "t \<noteq> 0" and "t_state (thr s t) = THREAD_DYING"
    and "unat (child_num (thr s t)) < length (threads (prc s (t_proc (thr s t))))"
    and "num_live_threads (prc s (t_proc (thr s t))) \<noteq> 1" and "pfree_mult (kmm s) t 1 = Some (e, k)"
  shows "thread_cleanup s t = Some (0, buried s t k)"
proof -
  have "num_live_threads (prc s (t_proc (thr s t))) - 1 \<noteq> 0" using assms(4) by simp
  then show ?thesis
    using assms by (simp add: thread_cleanup_def get_thread_proc_def arr_put_def Let_def buried_def upd_prc_def)
qed

lemma tasks_rel_buried:
  assumes rel: "tasks_rel n s a" and m: "moved s s1" "thread_ticks s1 = thread_ticks s"
    and ok: "sched_ok s1 rs bs" "2 \<le> length rs"
    and t: "t \<in> set (all_tasks a)" "2 \<le> live a (fst (home a t))"
    and sub: "set (running s1 # rs @ bs) \<subseteq> set (all_tasks a) - {t}"
    and mem: "mem_ready k n (used a - {page_no t})"
  shows "tasks_rel n (enable_interrupts (buried s1 t k)) (bury t (a\<lparr>cur := running s1, rdy := rs, blk := bs\<rparr>))"
proof -
  let ?a = "bury t (a\<lparr>cur := running s1, rdy := rs, blk := bs\<rparr>)" and ?s = "enable_interrupts (buried s1 t k)"
  obtain p i where h: "home a t = (p, i)" by fastforce
  have a: "cur ?a = running s1" "rdy ?a = rs" "blk ?a = bs" "home ?a = home a" "used ?a = used a - {page_no t}"
    "ids ?a = ids a" "tick ?a = tick a" "slots ?a = (slots a)(p := (slots a p)[i := 0])"
    "live ?a = (live a)(p := live a p - 1)"
    by (simp_all add: bury_def h)
  have own: "\<And>u. u \<in> set (all_tasks a) \<Longrightarrow> owns n s a u" using rel by (auto simp: tasks_rel_def)
  have "t_proc (thr s1 t) = p" "unat (child_num (thr s1 t)) = i"
    using own [OF t(1)] m(1) h by (simp_all add: owns_def moved_def)
  then have prc: "prc ?s = (prc s1)(p := (prc s1 p)\<lparr>threads := (threads (prc s1 p))[i := 0],
      num_live_threads := num_live_threads (prc s1 p) - 1\<rparr>)" by simp
  have "owns n ?s ?a u" if "u \<in> set (all_tasks ?a)" for u
  proof -
    have u: "u \<in> set (all_tasks a)" "u \<noteq> t" using that sub a(1-3) by (auto simp: all_tasks_def)
    have "page_no u \<noteq> page_no t" using own [OF u(1)] own [OF t(1)] u(2) by (metis owns_def)
    then have "owns n s1 ?a u" using own [OF u(1)] by (intro owns_moved [OF own [OF u(1)] m(1)]) (simp_all add: a owns_def)
    then show ?thesis by (simp add: owns_def)
  qed
  moreover have "unat (num_live_threads (prc s1 p) - 1) = live a p - 1"
  proof -
    have "unat (num_live_threads (prc s1 p)) = live a p" using rel m(1) by (simp add: tasks_rel_def moved_def)
    moreover have "2 \<le> live a p" using t(2) h by simp
    ultimately have "1 \<le> num_live_threads (prc s1 p)" by (simp add: word_le_nat_alt)
    then show ?thesis using \<open>unat (num_live_threads (prc s1 p)) = live a p\<close> by (simp add: unat_sub)
  qed
  ultimately show ?thesis
    using rel m ok mem sched_ok_buried [of s1 t k rs bs] unfolding tasks_rel_def prc by (simp add: a moved_def)
qed

lemma owns_page:
  assumes "owns n s a t" and "mem_ready k n (used a)"
  shows "t \<noteq> 0" "\<exists>e k'. pfree_mult k t 1 = Some (e, k') \<and> mem_ready k' n (used a - {page_no t})"
proof -
  have j: "page_no t \<in> used a" "page_no t + 1 < n" "t = page_addr (page_no t)" using assms(1) by (simp_all add: owns_def)
  have "n < 2 ^ 19" using assms(2) by (simp add: mem_ready_def)
  then have "unat (page_addr (page_no t)) = 4194304 + 4096 * page_no t" using j(2) by (intro unat_page_addr) simp
  then show "t \<noteq> 0" using j(3) by auto
  show "\<exists>e k'. pfree_mult k t 1 = Some (e, k') \<and> mem_ready k' n (used a - {page_no t})"
    using pfree_used [OF assms(2) j(1,2)] j(3) by metis
qed

lemma kill_simulates:
  assumes rel: "tasks_rel n s a" and a: "task_step n (Kill t) a = Some (x, a')"
  shows "\<exists>s'. kernel_step (Kill t) s = Some (x, s') \<and> tasks_rel n s' a'"
proof -
  have t: "t \<in> set (rdy a)" "3 \<le> length (rdy a)" "2 \<le> live a (fst (home a t))" "t \<in> set (all_tasks a)"
    and a': "x = Returns 0" "a' = bury t (a\<lparr>rdy := remove1 t (rdy a)\<rparr>)"
    using a by (auto simp: all_tasks_def split: if_splits)
  have ok: "sched_ok s (rdy a) (blk a)" "running s = cur a" and own: "owns n s a t" and mem: "mem_ready (kmm s) n (used a)"
    and len: "length (slots a (fst (home a t))) = 8" "threads (prc s (fst (home a t))) = slots a (fst (home a t))"
    and live: "unat (num_live_threads (prc s (fst (home a t)))) = live a (fst (home a t))"
    using rel t(4) by (auto simp: tasks_rel_def)
  have lists: "thread_lists (nodes s) (rdy a) (blk a) []" and st: "t_state (thr s t) = THREAD_READY"
    using ok t(1) by (auto simp: sched_ok_def)
  obtain e k where k: "pfree_mult (kmm s) t 1 = Some (e, k)" "mem_ready k n (used a - {page_no t})"
    using owns_page(2) [OF own mem] by blast
  let ?s0 = "set_state t THREAD_DYING (disable_interrupts s)"
  obtain h where h: "k_delete ?s0 ready_threads (TNode t) = Some (Some (TNode t), ?s0\<lparr>nodes := h\<rparr>)"
      "thread_lists h (remove1 t (rdy a)) (blk a) []" "same_on heap_ops (- sched_nodes) (nodes s) h"
    using ready_delete_frame [of ?s0 "rdy a" "blk a" "[]" t] lists t(1) by auto
  let ?s1 = "?s0\<lparr>nodes := h\<rparr>"
  have "dll heap_ops h (thread_waiters t) []" using own h(3) by (auto simp: owns_def intro: waiters_kept)
  then have notify: "thread_notify ?s1 t True (-1) = Some (-1, ?s1)"
    using waiters_empty [of ?s1 "thread_waiters t"] by (simp add: thread_notify_def notify_waiters_def)
  have "num_live_threads (prc s (fst (home a t))) \<noteq> 1" using live t(3) by auto
  then have "thread_cleanup ?s1 t = Some (0, buried ?s1 t k)"
    using own len k(1) owns_page(1) [OF own mem] by (intro thread_cleanup_buries) (simp_all add: owns_def)
  then have run: "thread_kill s t = Some (Returns 0, enable_interrupts (buried ?s1 t k))"
    using h(1) st notify owns_page(1) [OF own mem] by (simp add: thread_kill_def kill_from_def Let_def)
  have tr: "t \<notin> set (remove1 t (rdy a))" "t \<notin> set (blk a)" "t \<noteq> cur a" and few: "length (remove1 t (rdy a)) < 2 ^ 32"
    using lists t(1) ok by (auto simp: thread_lists_def sched_ok_def length_remove1)
  have m: "moved s ?s1" using h(3) by (simp add: moved_def)
  have ok1: "sched_ok ?s1 (remove1 t (rdy a)) (blk a)"
    using ok h(2) tr few unfolding sched_ok_def by (auto dest: notin_set_remove1)
  have sub: "set (running ?s1 # remove1 t (rdy a) @ blk a) \<subseteq> set (all_tasks a) - {t}"
    using ok(2) tr set_remove1_subset [of t "rdy a"] by (auto simp: all_tasks_def)
  have "2 \<le> length (remove1 t (rdy a))" using t(1,2) by (simp add: length_remove1)
  then have "tasks_rel n (enable_interrupts (buried ?s1 t k)) (bury t (a\<lparr>cur := running ?s1, rdy := remove1 t (rdy a), blk := blk a\<rparr>))"
    by (rule tasks_rel_buried [OF rel m _ ok1 _ t(4,3) sub k(2), rotated]) simp
  moreover have "a\<lparr>cur := running ?s1, rdy := remove1 t (rdy a), blk := blk a\<rparr> = a\<lparr>rdy := remove1 t (rdy a)\<rparr>"
    using ok(2) by simp
  ultimately show ?thesis using run a' by simp
qed

text \<open>A dying thread gives the processor to the next one, which cleans up.\<close>

lemma schedule_dying:
  assumes lists: "thread_lists (nodes s) (d # rs) bs []" and two: "rs \<noteq> []" "length (d # rs) < 2 ^ 32"
    and t: "running s = t" "t_state (thr s t) = THREAD_DYING" "t \<notin> set ((d # rs) @ bs)"
    and d: "t_state (thr s d) = THREAD_READY" "placed s d"
  shows "\<exists>h. schedule s = do { (_, s') \<leftarrow> thread_cleanup ((disable_interrupts (dispatched d (disable_interrupts s)))\<lparr>nodes := h\<rparr>) t;
         Some (Switched, enable_interrupts s') } \<and>
     thread_lists h rs bs [] \<and> same_on heap_ops (- sched_nodes) (nodes s) h"
proof -
  let ?s0 = "disable_interrupts s"
  obtain h1 where h1: "k_pop ?s0 ready_threads = Some (Some (TNode d), ?s0\<lparr>nodes := h1\<rparr>)" "thread_lists h1 rs bs []"
      "same_on heap_ops (- sched_nodes) (nodes s) h1"
    using ready_pop [of ?s0 d rs bs "[]"] lists by auto
  obtain h2 where h2: "k_insert (?s0\<lparr>nodes := h1\<rparr>) dying_threads (TNode t) = Some (?s0\<lparr>nodes := h2\<rparr>)"
      "thread_lists h2 rs bs [t]" "same_on heap_ops (- sched_nodes) h1 h2"
    using dying_insert [of "?s0\<lparr>nodes := h1\<rparr>" rs bs "[]" t] h1(2) t(3) by auto
  have eq: "disable_interrupts (dispatched d (?s0\<lparr>nodes := h2\<rparr>))\<lparr>nodes := h\<rparr> =
      disable_interrupts (dispatched d ?s0)\<lparr>nodes := h\<rparr>" for h
    by (simp add: dispatched_def disable_interrupts_def enable_interrupts_def set_state_def upd_thr_def
        upd_prc_def Let_def switch_threads_def THREAD_CUR_def)
  obtain h where h: "finish_schedule (switch_threads (?s0\<lparr>nodes := h2\<rparr>) d) =
       do { (_, s') \<leftarrow> thread_cleanup (disable_interrupts (dispatched d ?s0)\<lparr>nodes := h\<rparr>) t; Some (enable_interrupts s') }"
      "thread_lists h rs bs []" "same_on heap_ops (- sched_nodes) h2 h"
    using finish_dying [of "?s0\<lparr>nodes := h2\<rparr>" rs bs t d] h2(2) d(2) eq by auto
  have "2 \<le> length (d # rs)" using two(1) by (cases rs) simp_all
  then have "list_size heap_ops (nodes s) ready_threads = Some (of_nat (length (d # rs)))" "(of_nat (length (d # rs)) :: u32) \<noteq> 1"
    using ready_size [OF lists] of_nat_not_one [OF _ two(2)] by simp_all
  moreover have "d \<noteq> t" using t(3) by auto
  ultimately have "schedule s = do { s' \<leftarrow> finish_schedule (switch_threads (?s0\<lparr>nodes := h2\<rparr>) d); Some (Switched, s') }"
    using h1(1) h2(1) t(1,2) d(1) by (simp add: schedule_def Let_def THREAD_CUR_def del: of_nat_Suc length_Cons)
  then have "schedule s = do { (_, s') \<leftarrow> thread_cleanup (disable_interrupts (dispatched d ?s0)\<lparr>nodes := h\<rparr>) t;
      Some (Switched, enable_interrupts s') }"
    unfolding h(1) by (cases "thread_cleanup (disable_interrupts (dispatched d ?s0)\<lparr>nodes := h\<rparr>) t") (auto simp: split_def)
  moreover have "same_on heap_ops (- sched_nodes) (nodes s) h"
    using same_on_trans [OF same_on_trans [OF h1(3) h2(3)] h(3)] .
  ultimately show ?thesis using h(2) by blast
qed

lemma exit_simulates:
  assumes rel: "tasks_rel n s a" and a: "task_step n Exit a = Some (x, a')"
  shows "\<exists>s'. kernel_step Exit s = Some (x, s') \<and> tasks_rel n s' a'"
proof -
  let ?t = "cur a"
  have t: "3 \<le> length (rdy a)" "2 \<le> live a (fst (home a ?t))" "?t \<in> set (all_tasks a)" using a by (auto simp: all_tasks_def split: if_splits)
  then obtain d rs where d: "rdy a = d # rs" "2 \<le> length rs" "rs \<noteq> []" by (cases "rdy a") fastforce+
  have a': "x = Switched" "a' = bury ?t (a\<lparr>cur := d, rdy := rs\<rparr>)" using a d(1) by (auto split: if_splits)
  have ok: "sched_ok s (d # rs) (blk a)" "running s = ?t" and own: "owns n s a ?t" and mem: "mem_ready (kmm s) n (used a)"
    and len: "length (slots a (fst (home a ?t))) = 8" "threads (prc s (fst (home a ?t))) = slots a (fst (home a ?t))"
    and live: "unat (num_live_threads (prc s (fst (home a ?t)))) = live a (fst (home a ?t))"
    using rel t(3) d(1) by (auto simp: tasks_rel_def)
  have lists: "thread_lists (nodes s) (d # rs) (blk a) []" and apart: "?t \<notin> set ((d # rs) @ blk a)" "length (d # rs) < 2 ^ 32"
    and st: "t_state (thr s d) = THREAD_READY" "placed s d"
    using ok by (auto simp: sched_ok_def)
  obtain e k where k: "pfree_mult (kmm s) ?t 1 = Some (e, k)" "mem_ready k n (used a - {page_no ?t})"
    using owns_page(2) [OF own mem] by blast
  let ?s0 = "set_state ?t THREAD_DYING (disable_interrupts s)"
  have dt: "d \<noteq> ?t" using apart(1) by auto
  have del: "k_delete (disable_interrupts s) ready_threads (TNode ?t) = Some (None, disable_interrupts s)"
    using ready_delete [of "disable_interrupts s" "d # rs" "blk a" "[]" ?t] lists apart(1) by auto
  have notify: "thread_notify ?s0 ?t True 0 = Some (-1, ?s0)"
    using waiters_empty [of ?s0 "thread_waiters ?t"] own by (simp add: thread_notify_def notify_waiters_def owns_def)
  obtain h where h: "schedule ?s0 = do { (_, s') \<leftarrow> thread_cleanup ((disable_interrupts (dispatched d (disable_interrupts ?s0)))\<lparr>nodes := h\<rparr>) ?t;
         Some (Switched, enable_interrupts s') }" "thread_lists h rs (blk a) []" "same_on heap_ops (- sched_nodes) (nodes s) h"
    using schedule_dying [of ?s0 d rs "blk a" ?t] lists d(3) apart ok(2) st dt by auto
  let ?s1 = "(disable_interrupts (dispatched d (disable_interrupts ?s0)))\<lparr>nodes := h\<rparr>"
  have "num_live_threads (prc s (fst (home a ?t))) \<noteq> 1" using live t(2) by auto
  then have "thread_cleanup ?s1 ?t = Some (0, buried ?s1 ?t k)"
    using own len k(1) owns_page(1) [OF own mem] dt by (intro thread_cleanup_buries) (simp_all add: owns_def)
  then have run: "thread_exit s False = Some (None, Switched, enable_interrupts (buried ?s1 ?t k))"
    using del notify h(1) ok(2) by (simp add: thread_exit_def thread_yield_def THREAD_CUR_def Let_def)
  have m: "moved s ?s1" using h(3) by (simp add: moved_def)
  have "d \<notin> set rs" "d \<notin> set (blk a)" using lists by (auto simp: thread_lists_def)
  then have ok1: "sched_ok ?s1 rs (blk a)" using ok h(2) dt apart(1) unfolding sched_ok_def by auto
  have sub: "set (running ?s1 # rs @ blk a) \<subseteq> set (all_tasks a) - {?t}" using apart(1) d(1) dt by (auto simp: all_tasks_def)
  have "tasks_rel n (enable_interrupts (buried ?s1 ?t k)) (bury ?t (a\<lparr>cur := running ?s1, rdy := rs, blk := blk a\<rparr>))"
    by (rule tasks_rel_buried [OF rel m _ ok1 d(2) t(3,2) sub k(2)]) simp
  then show ?thesis using run a' by (simp add: quietly_def)
qed

section \<open>New tasks\<close>

lemma find_upt:
  assumes "find P [0..<m] = Some (i :: nat)"
  shows "i < m" "P i" "\<And>j. j < i \<Longrightarrow> \<not> P j"
proof -
  obtain k where k: "k < length [0..<m]" "P ([0..<m] ! k)" "i = [0..<m] ! k" "\<forall>j<k. \<not> P ([0..<m] ! j)"
    using assms unfolding find_Some_iff by blast
  then have "i = k" by simp
  then show "i < m" "P i" "\<And>j. j < i \<Longrightarrow> \<not> P j" using k by (simp_all add: \<open>i = k\<close>)
qed

lemma free_thread_slot:
  assumes "find (\<lambda>c. tab ! c = 0) [0..<8] = Some c" and "threads (prc s p) = tab" and "length tab = 8"
  shows "proc_get_free_thread s p = int c"
proof -
  note c = find_upt [OF assms(1)]
  have "null_slot tab 0 \<noteq> -1 \<longrightarrow> (\<exists>j<8. null_slot tab 0 = int j \<and> tab ! j = 0 \<and> (\<forall>k<j. tab ! k \<noteq> 0))" "0 \<in> set tab"
    using null_slot_spec [of tab 0] assms(3) c(1,2) by (auto simp: in_set_conv_nth)
  then obtain j where j: "null_slot tab 0 = int j" "tab ! j = 0" "\<forall>k<j. tab ! k \<noteq> 0"
    using null_slot_spec [of tab 0] by auto
  have "j = c" using j(2,3) c(2,3) by (cases j c rule: linorder_cases) auto
  then show ?thesis using j(1) assms(2,3) by (simp add: proc_get_free_thread_def)
qed

lemma allocate_tid_first:
  assumes "find (\<lambda>i. \<not> tids s ! i) [0..<512] = Some i" and "length (tids s) = 512"
  shows "allocate_tid s = (of_nat i, s\<lparr>tids := (tids s)[i := True]\<rparr>)"
  using find_upt [OF assms(1)] assms(2) by (intro allocate_tid_at) auto

text \<open>\<open>entered s s' t p c i\<close>: the new thread \<open>t\<close> with the id \<open>i\<close> is in the slot \<open>c\<close> of the process \<open>p\<close>.\<close>

definition entered :: "kstate \<Rightarrow> kstate \<Rightarrow> u32 \<Rightarrow> u32 \<Rightarrow> nat \<Rightarrow> nat \<Rightarrow> bool" where
  "entered s s' t p c i \<longleftrightarrow> (\<forall>u. u \<noteq> t \<longrightarrow> thr s' u = thr s u) \<and> t_state (thr s' t) = THREAD_READY \<and> t_proc (thr s' t) = p \<and>
     child_num (thr s' t) = of_nat c \<and> tid (thr s' t) = of_nat i \<and> running s' = running s \<and> thread_ticks s' = thread_ticks s \<and>
     prc s' = (prc s)(p := (prc s p)\<lparr>threads := (threads (prc s p))[c := t]\<rparr>) \<and>
     dll heap_ops (nodes s') (thread_waiters t) [] \<and>
     (\<forall>u. dll heap_ops (nodes s) (thread_waiters u) [] \<longrightarrow> dll heap_ops (nodes s') (thread_waiters u) [])"

lemma thread_create_task:
  assumes lists: "thread_lists (nodes s) rs bs []" and new: "t \<notin> set (rs @ bs)"
    and page: "palloc_mult (kmm s) 1 = Some (t, k)" "t \<noteq> 0" "tid (thr s t) \<noteq> 513"
    and name: "length name < 37" and slot: "c < 8" "length (threads (prc s p)) = 8"
    and id: "allocate_tid (s\<lparr>kmm := k\<rparr>) = (of_nat i, s\<lparr>kmm := k, tids := ts'\<rparr>)" "i < 512"
  shows "\<exists>s'. thread_create s prio name p (of_nat c) func aux = Some (int i, s') \<and> thread_lists (nodes s') (t # rs) bs [] \<and>
     entered s s' t p c i \<and> kmm s' = k \<and> tids s' = ts'"
proof -
  have c: "unat (of_nat c :: u32) = c" using slot(1) by (intro unat_of_nat_u32) simp
  let ?n = "new_thread s t k (of_nat i) ts' prio name p (of_nat c) func aux"
  note w = waiters_init [of "thread_waiters t" "nodes s", simplified]
  have w0: "dll heap_ops (nodes ?n) (thread_waiters t) []" using w(1) by (simp add: thread_waiters_def)
  have "thread_lists (nodes ?n) rs bs []" using thread_lists_frame [OF lists w(3)] by (simp add: thread_waiters_def)
  then obtain h where h: "k_insert ?n ready_threads (TNode t) = Some (?n\<lparr>nodes := h\<rparr>)" "thread_lists h (t # rs) bs []"
      "same_on heap_ops (- sched_nodes) (nodes ?n) h"
    using ready_insert [of ?n rs bs "[]" t] new by auto
  have wt: "dll heap_ops h (thread_waiters t) []" using w0 h(3) by (rule waiters_kept)
  have wu: "dll heap_ops h (thread_waiters u) []" if "dll heap_ops (nodes s) (thread_waiters u) []" for u
  proof (cases "u = t")
    case False
    then have "set (spine (thread_waiters u) []) \<inter> {TWaitersHead t, TWaitersTail t} = {}" by (auto simp: set_spine)
    then have "dll heap_ops (nodes ?n) (thread_waiters u) []"
      using dll_frame [OF that w(2)] by (simp add: thread_waiters_def)
    then show ?thesis using h(3) by (rule waiters_kept)
  qed (use wt in simp)
  have "thread_create s prio name p (of_nat c) func aux = Some (sint (of_nat i :: u32), enable_interrupts (?n\<lparr>nodes := h\<rparr>))"
    using thread_create_inserts [OF page name _ id(1), of "of_nat c" p] slot c h(1) by simp
  then show ?thesis
    using h(2) wt wu c sint_tid [OF id(2)] by (intro exI [of _ "enable_interrupts (?n\<lparr>nodes := h\<rparr>)"]) (simp add: entered_def new_thread_def k_init_def)
qed

lemma tasks_rel_entered:
  assumes rel: "tasks_rel n s a" and e: "entered s s1 t p c i" and k: "mem_ready (kmm s1) n (insert j (used a))"
    and ids: "tids s1 = (ids a)[i := True]" "i < 512" and c: "c < 8" and p: "live a p < 8"
    and lists: "thread_lists (nodes s1) (t # rdy a) (blk a) []"
    and t: "t \<notin> set (all_tasks a)" "t = page_addr j" "page_no t = j" "j + 1 < n"
  shows "tasks_rel n (upd_prc p (\<lambda>r. r\<lparr>num_live_threads := num_live_threads r + 1\<rparr>) s1)
     (a\<lparr>rdy := t # rdy a, home := (home a)(t := (p, c)), slots := (slots a)(p := (slots a p)[c := t]),
        live := (live a)(p := live a p + 1), used := insert j (used a), ids := (ids a)[i := True]\<rparr>)" (is "tasks_rel n ?s ?a")
proof -
  have ok: "sched_ok s (rdy a) (blk a)" "running s = cur a" "2 \<le> length (rdy a)" and n: "n < 2 ^ 19"
    and own: "\<And>u. u \<in> set (all_tasks a) \<Longrightarrow> owns n s a u"
    and tab: "\<And>q. threads (prc s q) = slots a q" "\<And>q. length (slots a q) = 8" "\<And>q. unat (num_live_threads (prc s q)) = live a q"
    using rel by (auto simp: tasks_rel_def mem_ready_def)
  note e' = e [unfolded entered_def]
  have t1: "t \<noteq> cur a" "t \<notin> set (rdy a)" "t \<notin> set (blk a)" using t(1) by (simp_all add: all_tasks_def)
  have cn: "unat (of_nat c :: u32) = c" "unat (of_nat i :: u32) = i" using c ids(2) by (auto intro!: unat_of_nat_u32)
  have old: "owns n ?s ?a u" if "u \<in> set (all_tasks a)" for u
    using own [OF that] that t(1) e' by (auto simp: owns_def)
  have "owns n ?s ?a t" using e' cn c t(2-4) by (auto simp: owns_def)
  with old have owns: "\<forall>u\<in>set (all_tasks ?a). owns n ?s ?a u" by (auto simp: all_tasks_def)
  have tabs: "threads (prc ?s q) = slots ?a q" "length (slots ?a q) = 8" for q using tab(1,2) e' by auto
  have place: "placed ?s u" if "u \<in> set (all_tasks ?a)" for u
  proof -
    have u: "owns n ?s ?a u" using owns that by blast
    then have "t_proc (thr ?s u) = fst (home ?a u)" by (simp only: owns_def)
    then show ?thesis using tabs by (intro owns_placed [OF u]) (simp_all only:)
  qed
  have "distinct (t # rdy a)" using lists by (simp add: thread_lists_def)
  then have "length (t # rdy a) < 2 ^ 32" using owns n by (intro owns_few [of _ n ?s ?a]) (auto simp: all_tasks_def)
  moreover have "\<forall>u\<in>set (t # rdy a). placed ?s u" "placed ?s (running ?s)" using place e' ok(2) by (auto simp: all_tasks_def)
  moreover have "\<forall>u\<in>set (t # rdy a). t_state (thr ?s u) = THREAD_READY" "\<forall>u\<in>set (blk a). t_state (thr ?s u) = THREAD_BLOCKED"
      "t_state (thr ?s (running ?s)) = THREAD_RUNNING" "running ?s \<notin> set ((t # rdy a) @ blk a)"
    using ok(1,2) e' t1 by (auto simp: sched_ok_def)
  ultimately have "sched_ok ?s (t # rdy a) (blk a)" using lists unfolding sched_ok_def by simp
  moreover have "unat (num_live_threads (prc s p) + 1) = live a p + 1" using tab(3) [of p] p by (simp add: unat_word_ariths)
  moreover have "tid (thr s1 u) \<noteq> 513" for u
  proof (cases "u = t")
    case True
    then have "unat (tid (thr s1 u)) = i" using e' cn(2) by simp
    then show ?thesis using ids(2) by auto
  qed (use rel e' in \<open>simp add: tasks_rel_def\<close>)
  ultimately show ?thesis
    using rel owns k ids e' ok(2,3) unfolding tasks_rel_def by simp
qed

lemma spawn_simulates:
  assumes rel: "tasks_rel n s a" and a: "spawn n name a = Some (x, a')"
  shows "\<exists>s'. kernel_step (Spawn prio name func aux) s = Some (x, s') \<and> tasks_rel n s' a'"
proof -
  define p where "p = fst (home a (cur a))"
  obtain c i j where f: "find (\<lambda>c. slots a p ! c = 0) [0..<8] = Some c" "find (\<lambda>i. \<not> ids a ! i) [0..<512] = Some i"
      "find (\<lambda>j. j \<notin> used a) [0..<n] = Some j" and g: "j + 1 < n" "length name < 37" "live a p < 8"
    using a by (auto simp: spawn_def p_def Let_def split: if_splits bind_splits)
  define t where "t = page_addr j"
  have a': "x = Returns (int i)" "a' = a\<lparr>rdy := t # rdy a, home := (home a)(t := (p, c)), slots := (slots a)(p := (slots a p)[c := t]),
         live := (live a)(p := live a p + 1), used := insert j (used a), ids := (ids a)[i := True]\<rparr>"
    using a f g by (simp_all add: spawn_def p_def [symmetric] t_def Let_def)
  have ok: "sched_ok s (rdy a) (blk a)" "running s = cur a" and mem: "mem_ready (kmm s) n (used a)" "n < 2 ^ 19"
    and own: "\<And>u. u \<in> set (all_tasks a) \<Longrightarrow> owns n s a u"
    and tab: "threads (prc s p) = slots a p" "length (slots a p) = 8" and id: "tids s = ids a" "length (ids a) = 512" "tid (thr s t) \<noteq> 513"
    using rel by (auto simp: tasks_rel_def mem_ready_def)
  note c = find_upt [OF f(1)] and i = find_upt [OF f(2)] and j = find_upt [OF f(3)]
  have "{0..<j} \<subseteq> used a" using j(3) by auto
  then obtain m where m: "palloc_mult (kmm s) 1 = Some (t, (kmm s)\<lparr>kmem := m\<rparr>)" "mem_ready ((kmm s)\<lparr>kmem := m\<rparr>) n (insert j (used a))"
    using palloc_lowest [OF mem(1) j(2) _ j(1)] by (auto simp: t_def)
  have pt: "page_no t = j" "unat t = 4194304 + 4096 * j"
    using j(1) mem(2) page_no_addr [of j] unat_page_addr [of j] by (simp_all add: t_def)
  have new: "t \<notin> set (all_tasks a)" using own [of t] j(2) pt(1) by (auto simp: owns_def)
  have al: "allocate_tid (s\<lparr>kmm := (kmm s)\<lparr>kmem := m\<rparr>\<rparr>) = (of_nat i, s\<lparr>kmm := (kmm s)\<lparr>kmem := m\<rparr>, tids := (ids a)[i := True]\<rparr>)"
    using allocate_tid_first [of "s\<lparr>kmm := (kmm s)\<lparr>kmem := m\<rparr>\<rparr>" i] f(2) id(1,2) by simp
  have l: "thread_lists (nodes s) (rdy a) (blk a) []" "t \<notin> set (rdy a @ blk a)" "t \<noteq> 0"
    using ok(1) new pt(2) by (auto simp: sched_ok_def all_tasks_def)
  from thread_create_task [OF l(1,2) m(1) l(3) id(3) g(2) c(1) _ al i(1), of p prio func aux] tab
  obtain s1 where s1: "thread_create s prio name p (of_nat c) func aux = Some (int i, s1)" "entered s s1 t p c i"
      "thread_lists (nodes s1) (t # rdy a) (blk a) []" "kmm s1 = (kmm s)\<lparr>kmem := m\<rparr>" "tids s1 = (ids a)[i := True]"
    by auto
  let ?s = "upd_prc p (\<lambda>r. r\<lparr>num_live_threads := num_live_threads r + 1\<rparr>) s1"
  have "cur a \<in> set (all_tasks a)" by (simp add: all_tasks_def)
  then have P: "PROC_CUR s = p" "PROC_CUR s1 = p"
    using own [of "cur a"] ok(2) s1(2) new by (auto simp: PROC_CUR_def owns_def p_def entered_def all_tasks_def)
  have "proc_create_thread s prio name func aux = Some (int i, ?s)"
    using free_thread_slot [OF f(1) tab] s1(1) P by (simp add: proc_create_thread_def Let_def)
  moreover have "tasks_rel n ?s a'"
    unfolding a'(2) by (rule tasks_rel_entered [OF rel s1(2) _ s1(5) i(1) c(1) g(3) s1(3) new t_def pt(1) g(1)]) (use m(2) s1(4) in simp)
  ultimately show ?thesis using a'(1) by auto
qed

section \<open>The refinement\<close>

lemma kernel_simulates:
  assumes rel: "tasks_rel n s a" and a: "task_step n r a = Some (x, a')"
  shows "\<exists>s'. kernel_step r s = Some (x, s') \<and> tasks_rel n s' a'"
proof (cases r)
  case Tick
  then show ?thesis using tick_simulates [OF rel] a by simp
next
  case Yield
  then show ?thesis using turn_simulates [OF rel] a by (auto simp: thread_yield_def)
next
  case Block
  then show ?thesis using block_simulates [OF rel] a by auto
next
  case (Unblock t)
  then show ?thesis using unblock_simulates [OF rel] a by simp
next
  case (Spawn prio name func aux)
  then show ?thesis using spawn_simulates [OF rel] a by simp
next
  case (Kill t)
  then show ?thesis using kill_simulates [OF rel] a by simp
next
  case Exit
  then show ?thesis using exit_simulates [OF rel] a by simp
qed

interpretation tasks: simulation kernel_step "task_step n" "tasks_rel n" for n
  by unfold_locales (rule kernel_simulates)

text \<open>C5: The scheduler, the thread tables and the page allocator refine a list of tasks.  For any sequence of ticks,
  yields, blocks, wake-ups, new threads, kills and exits that the specification answers, in particular with two
  threads ready at every switch, each call of the kernel returns with the answer of the
  specification, where a thread that blocks itself stays the running one (the search of \<open>thread_block\<close> in the
  ready list does not find it); then the ready and the blocked list hold the threads that the specification says, in the
  order of their turns, the running thread is in neither, every thread has its own page, which is allocated,
  and its slot in the table of its process, and the allocated pages are those of the specification.\<close>

theorem scheduler_refines_tasks:
  assumes "tasks_rel n s a" and "run_all (task_step n) rs a = Some (xs, a')"
  shows "\<exists>s'. run_all kernel_step rs s = Some (xs, s') \<and> running s' = cur a' \<and> sched_ok s' (rdy a') (blk a') \<and>
     (\<forall>t\<in>set (all_tasks a'). owns n s' a' t) \<and> (\<forall>x. unat x < n \<longrightarrow> page_used (kmm s') x = (unat x \<in> used a')) \<and>
     (\<forall>p. threads (prc s' p) = slots a' p)"
proof -
  obtain s' where "run_all kernel_step rs s = Some (xs, s')" "tasks_rel n s' a'" using tasks.trace [OF assms] by blast
  then show ?thesis by (auto simp: tasks_rel_def mem_ready_def)
qed

text \<open>Four threads of one process on the pages behind the slabs: one runs, two are ready, one is blocked.\<close>

definition four_nodes :: "nref heap" where
  "four_nodes = (\<lambda>r. case r of
       TWaitersHead t \<Rightarrow> \<lparr>n_next = Some (TWaitersTail t), n_prev = None\<rparr>
     | TWaitersTail t \<Rightarrow> \<lparr>n_next = None, n_prev = Some (TWaitersHead t)\<rparr>
     | _ \<Rightarrow> \<lparr>n_next = None, n_prev = None\<rparr>)
     (ReadyHead := \<lparr>n_next = Some (TNode 0x40C000), n_prev = None\<rparr>,
      TNode 0x40C000 := \<lparr>n_next = Some (TNode 0x40D000), n_prev = Some ReadyHead\<rparr>,
      TNode 0x40D000 := \<lparr>n_next = Some ReadyTail, n_prev = Some (TNode 0x40C000)\<rparr>,
      ReadyTail := \<lparr>n_next = None, n_prev = Some (TNode 0x40D000)\<rparr>,
      BlockedHead := \<lparr>n_next = Some (TNode 0x40E000), n_prev = None\<rparr>,
      TNode 0x40E000 := \<lparr>n_next = Some BlockedTail, n_prev = Some BlockedHead\<rparr>,
      BlockedTail := \<lparr>n_next = None, n_prev = Some (TNode 0x40E000)\<rparr>,
      DyingHead := \<lparr>n_next = Some DyingTail, n_prev = None\<rparr>,
      DyingTail := \<lparr>n_next = None, n_prev = Some DyingHead\<rparr>)"

definition four_table :: "u32 list" where
  "four_table = [0x40B000, 0x40C000, 0x40D000, 0x40E000, 0, 0, 0, 0]"

definition four_threads :: "u32 kalloc \<Rightarrow> kstate" where
  "four_threads k = demo_state\<lparr>nodes := four_nodes, running := 0x40B000, kmm := k,
     thr := (\<lambda>_. demo_thread THREAD_TERMINATED 0)
       (0x40B000 := demo_thread THREAD_RUNNING 0, 0x40C000 := demo_thread THREAD_READY 1,
        0x40D000 := demo_thread THREAD_READY 2, 0x40E000 := demo_thread THREAD_BLOCKED 3),
     prc := (\<lambda>_. demo_process\<lparr>threads := four_table\<rparr>)\<rparr>"

definition four_tasks :: tasks where
  "four_tasks = \<lparr>cur = 0x40B000, rdy = [0x40C000, 0x40D000], blk = [0x40E000],
     home = (\<lambda>t. (0x9000, if t = 0x40B000 then 0 else if t = 0x40C000 then 1 else if t = 0x40D000 then 2 else 3)),
     slots = (\<lambda>_. four_table), live = (\<lambda>_. 4), used = {0..<15}, ids = replicate 512 False, tick = 0\<rparr>"

lemma four_memory: "\<exists>k :: u32 kalloc. mem_ready k 2816 {0..<15}"
proof -
  have e: "map_end 2816 = 1" by (simp add: map_end_def)
  have "fresh_memory (mem_upper demo_env) (t_kmm demo_testing) 2816"
    unfolding fresh_memory_def e by (simp add: demo_env_def t_kmm_def demo_testing_def demo_pages_def node_addrs_def)
  from init_alloc_fresh [OF this] obtain k :: "u32 kalloc" where k: "mem_ready k 2816 {0..<11}" unfolding e by auto
  have "\<exists>k :: u32 kalloc. mem_ready k 2816 {0..<11 + j}" if "j \<le> 4" for j
    using that
  proof (induction j)
    case (Suc j)
    then obtain k :: "u32 kalloc" where "mem_ready k 2816 {0..<11 + j}" by auto
    then show ?case using palloc_lowest [of k 2816 "{0..<11 + j}" "11 + j"] Suc.prems atLeast0_lessThan_Suc [of "11 + j"] by auto
  qed (use k in auto)
  from this [of 4] show ?thesis by simp
qed

lemma four_related:
  assumes "mem_ready k 2816 {0..<15}"
  shows "tasks_rel 2816 (four_threads k) four_tasks"
proof -
  let ?s = "four_threads k"
  have pages: "page_no 0x40B000 = 11" "page_no 0x40C000 = 12" "page_no 0x40D000 = 13" "page_no 0x40E000 = 14"
    by (simp_all add: page_no_def)
  have lists: "thread_lists four_nodes [0x40C000, 0x40D000] [0x40E000] []"
    by (simp add: thread_lists_def dll_def spine_def four_nodes_def)
  have "sched_ok ?s [0x40C000, 0x40D000] [0x40E000]"
    unfolding sched_ok_def using lists
    by (simp add: four_threads_def demo_state_def placed_def demo_thread_def demo_process_def four_table_def)
  moreover have "dll heap_ops four_nodes (thread_waiters t) []" for t
    by (simp add: dll_def spine_def thread_waiters_def four_nodes_def)
  then have "\<forall>t\<in>set (all_tasks four_tasks). owns 2816 ?s four_tasks t"
    unfolding owns_def all_tasks_def
    by (simp add: four_tasks_def four_threads_def demo_thread_def pages) (simp add: page_addr_def)
  moreover have "mem_ready (kmm ?s) 2816 (used four_tasks)" using assms by (simp add: four_threads_def four_tasks_def)
  ultimately show ?thesis
    unfolding tasks_rel_def
    by (simp add: four_tasks_def four_threads_def demo_state_def demo_process_def demo_thread_def four_table_def)
qed

lemma find_first: "i < m \<Longrightarrow> P i \<Longrightarrow> \<forall>j<i. \<not> P j \<Longrightarrow> find P [0..<m] = Some (i :: nat)"
  unfolding find_Some_iff by (auto intro!: exI [of _ i])

lemma four_spawn:
  "spawn 2816 ''w'' four_tasks = Some (Returns 0, four_tasks\<lparr>rdy := [0x40F000, 0x40C000, 0x40D000],
     home := (home four_tasks)(0x40F000 := (0x9000, 4)), slots := (slots four_tasks)(0x9000 := four_table[4 := 0x40F000]),
     live := (live four_tasks)(0x9000 := 5), used := insert 15 {0..<15}, ids := (replicate 512 False)[0 := True]\<rparr>)"
proof -
  have "find (\<lambda>c. four_table ! c = 0) [0..<8] = Some 4"
    by (simp add: four_table_def upt_rec)
  moreover have "find (\<lambda>i. \<not> replicate 512 False ! i) [0..<512] = Some 0" by (rule find_first) simp_all
  moreover have "find (\<lambda>j. j \<notin> {0..<15}) [0..<2816] = Some (15 :: nat)" by (rule find_first) auto
  moreover have "page_addr 15 = 0x40F000" by (simp add: page_addr_def)
  ultimately show ?thesis by (simp add: spawn_def four_tasks_def Let_def)
qed

lemma four_run:
  "\<exists>a. run_all (task_step 2816) [Spawn 0 ''w'' 0x100 0, Unblock 0x40E000, Kill 0x40F000, Tick, Exit, Yield] four_tasks =
     Some ([Returns 0, Returns 0, Returns 0, Returns 0, Switched, Switched], a) \<and>
     cur a = 0x40C000 \<and> rdy a = [0x40D000, 0x40E000] \<and> blk a = []"
  by (simp add: four_spawn) (simp add: four_tasks_def bury_def turn_def Let_def)

theorem scheduler_refines_tasks_witness:
  "\<exists>s s'. run_all kernel_step [Spawn 0 ''w'' 0x100 0, Unblock 0x40E000, Kill 0x40F000, Tick, Exit, Yield] s =
     Some ([Returns 0, Returns 0, Returns 0, Returns 0, Switched, Switched], s') \<and>
     running s' = 0x40C000 \<and> sched_ok s' [0x40D000, 0x40E000] []"
proof -
  obtain k :: "u32 kalloc" where "mem_ready k 2816 {0..<15}" using four_memory by blast
  then have rel: "tasks_rel 2816 (four_threads k) four_tasks" by (rule four_related)
  obtain a where a: "run_all (task_step 2816) [Spawn 0 ''w'' 0x100 0, Unblock 0x40E000, Kill 0x40F000, Tick, Exit, Yield] four_tasks =
     Some ([Returns 0, Returns 0, Returns 0, Returns 0, Switched, Switched], a)" "cur a = 0x40C000" "rdy a = [0x40D000, 0x40E000]" "blk a = []"
    using four_run by blast
  from scheduler_refines_tasks [OF rel a(1)] a(2-4) show ?thesis by auto
qed

end
