(* ===== verification/BmpProofs.thy ===== *)
theory BmpProofs
  imports Bmp
begin

text \<open>
  What the functions of drivers/bmp.c do to the pixels of an image: the walk over the pixels visits the
  positions \<open>pixel_list\<close>, one after the other and without overlap.
\<close>

section \<open>The walk over the pixels\<close>

fun fold_opt :: "('a \<Rightarrow> 's \<Rightarrow> 's option) \<Rightarrow> 'a list \<Rightarrow> 's \<Rightarrow> 's option" where
  "fold_opt f [] s = Some s"
| "fold_opt f (x # xs) s = Option.bind (f x s) (fold_opt f xs)"

lemma fold_opt_append: "fold_opt f (xs @ ys) s = Option.bind (fold_opt f xs s) (fold_opt f ys)"
  by (induction xs arbitrary: s) (auto split: bind_splits)

lemma fold_opt_Some: "fold_opt (\<lambda>x s. Some (f x s)) xs s = Some (fold f xs s)"
  by (induction xs arbitrary: s) simp_all

definition row_stride :: "bmp_file_header \<Rightarrow> nat" where
  "row_stride hdr = 3 * unat (bi_width (bf_info hdr)) + unat (row_pad hdr)"

text \<open>The pixels in the order of the file: the row on the screen, counted from the top of the image
  with the first at 1, the column, and the position in the file.\<close>

definition row_list :: "nat \<Rightarrow> nat \<Rightarrow> nat \<Rightarrow> (nat \<times> nat \<times> nat) list" where
  "row_list i p w = map (\<lambda>j. (i, j, p + 3 * j)) [0..<w]"

fun rows_list :: "nat \<Rightarrow> nat \<Rightarrow> nat \<Rightarrow> nat \<Rightarrow> (nat \<times> nat \<times> nat) list" where
  "rows_list stride w 0 p = []"
| "rows_list stride w (Suc i) p = row_list (Suc i) p w @ rows_list stride w i (p + stride)"

definition pixel_list :: "bmp_file_header \<Rightarrow> (nat \<times> nat \<times> nat) list" where
  "pixel_list hdr =
     rows_list (row_stride hdr) (unat (bi_width (bf_info hdr))) (unat (bi_height (bf_info hdr))) (bf_data hdr)"

abbreviation on_pixel :: "(u32 \<Rightarrow> u32 \<Rightarrow> nat \<Rightarrow> 's \<Rightarrow> 's option) \<Rightarrow> nat \<times> nat \<times> nat \<Rightarrow> 's \<Rightarrow> 's option" where
  "on_pixel body \<equiv> \<lambda>(i, j, p). body (of_nat i) (of_nat j) p"

lemma pixel_row_fold:
  "pixel_row body hdr (of_nat i) (p, s) =
     map_option (Pair (p + 3 * unat (bi_width (bf_info hdr))))
       (fold_opt (on_pixel body) (row_list i p (unat (bi_width (bf_info hdr)))) s)"
proof -
  let ?w = "unat (bi_width (bf_info hdr))"
  have "for_loop_m (of_nat a) (bi_width (bf_info hdr))
      (\<lambda>j (pixel, s). do { s \<leftarrow> body (of_nat i) j pixel s; Some (pixel + 3, s) }) (p + 3 * a, s) =
    map_option (Pair (p + 3 * ?w)) (fold_opt (on_pixel body) (map (\<lambda>j. (i, j, p + 3 * j)) [a..<?w]) s)"
    if "a \<le> ?w" for a
    using that
  proof (induction "?w - a" arbitrary: a s)
    case 0
    then have a: "a = ?w" by simp
    show ?case unfolding a by simp
  next
    case (Suc n)
    then have a: "a < ?w" by simp
    from less_trans [OF this unat_u32_less] have "a < 2 ^ 32" by simp
    then have "unat (of_nat a :: u32) = a" by (rule unat_of_nat_u32)
    note a = a this
    have lt: "(of_nat a :: u32) < bi_width (bf_info hdr)" using a by (simp add: word_less_nat_alt)
    have IH: "for_loop_m (of_nat a + 1) (bi_width (bf_info hdr))
        (\<lambda>j (pixel, s). do { s \<leftarrow> body (of_nat i) j pixel s; Some (pixel + 3, s) }) (p + 3 * a + 3, s) =
      map_option (Pair (p + 3 * ?w)) (fold_opt (on_pixel body) (map (\<lambda>j. (i, j, p + 3 * j)) [Suc a..<?w]) s)" for s
      using Suc(1) [of "Suc a" s] Suc(2) a(1) by (simp add: algebra_simps)
    show ?case
      using a(1) IH by (cases "body (of_nat i) (of_nat a) (p + 3 * a) s")
        (simp_all add: for_loop_m_step [OF lt] upt_conv_Cons)
  qed
  from this [of 0] show ?thesis by (simp add: pixel_row_def row_list_def)
qed

lemma pixel_rows_fold:
  "pixel_rows body hdr i (p, s) =
     fold_opt (on_pixel body) (rows_list (row_stride hdr) (unat (bi_width (bf_info hdr))) i p) s"
proof (induction i arbitrary: p s)
  case (Suc i)
  then show ?case
    unfolding pixel_rows.simps pixel_row_fold rows_list.simps fold_opt_append
    by (cases "fold_opt (on_pixel body) (row_list (Suc i) p (unat (bi_width (bf_info hdr)))) s")
       (simp_all add: row_stride_def add.assoc)
qed simp

lemma all_pixels_fold:
  "bf_data hdr \<noteq> 0 \<Longrightarrow> all_pixels body hdr s = fold_opt (on_pixel body) (pixel_list hdr) s"
  by (simp add: all_pixels_def pixel_list_def pixel_rows_fold)

lemma rows_list_set:
  "set (rows_list stride w h p) = {(i, j, q). 1 \<le> i \<and> i \<le> h \<and> j < w \<and> q = p + (h - i) * stride + 3 * j}"
proof (induction h arbitrary: p)
  case (Suc h)
  show ?case
    unfolding rows_list.simps set_append Suc.IH
    by (auto simp: row_list_def le_Suc_eq Suc_diff_le)
qed auto

lemma rows_list_apart:
  "3 * w \<le> stride \<Longrightarrow> sorted_wrt (\<lambda>x y. snd (snd x) + 3 \<le> snd (snd y)) (rows_list stride w h p)"
proof (induction h arbitrary: p)
  case (Suc h)
  have "sorted_wrt (\<lambda>x y. snd (snd x) + 3 \<le> snd (snd y)) (row_list (Suc h) p w)"
    by (auto simp: row_list_def sorted_wrt_map sorted_wrt_upt intro: sorted_wrt_mono_rel [OF _ sorted_wrt_upt])
  moreover have "snd (snd x) + 3 \<le> p + stride" if "x \<in> set (row_list (Suc h) p w)" for x
    using that Suc.prems by (auto simp: row_list_def)
  moreover have "p + stride \<le> snd (snd y)" if "y \<in> set (rows_list stride w h (p + stride))" for y
    using that by (auto simp: rows_list_set)
  ultimately show ?case
    using Suc by (fastforce simp: sorted_wrt_append)
qed simp

section \<open>Rows in the file\<close>

text \<open>The length of a row in the file format: three bytes for each pixel, rounded up to a multiple of 4.\<close>

definition bmp_row_size :: "nat \<Rightarrow> nat" where
  "bmp_row_size w = (24 * w + 31) div 32 * 4"

lemma unat_row_pad:
  assumes "bi_bpp (bf_info hdr) = 24"
  shows "unat (row_pad hdr) = 4 - 3 * unat (bi_width (bf_info hdr)) mod 4"
proof -
  let ?w = "bi_width (bf_info hdr)"
  have m: "unat (?w * 3 mod 4) = 3 * unat ?w mod 4"
    by (simp add: unat_mod unat_word_ariths mod_mod_cancel mult.commute)
  then have "?w * 3 mod 4 \<le> 4" by (simp add: word_le_nat_alt)
  then show ?thesis using assms m by (simp add: row_pad_def unat_sub)
qed

lemma row_size_padded:
  fixes w :: nat
  shows "3 * w + (4 - 3 * w mod 4) = (24 * w + 31) div 32 * 4 + (if 4 dvd w then 4 else 0)"
proof -
  define q r where "q = w div 4" and "r = w mod 4"
  then have w: "w = 4 * q + r" "r < 4" by simp_all
  then consider "r = 0" | "r = 1" | "r = 2" | "r = 3" by linarith
  then show ?thesis
  proof cases
    case 1
    have "(31 + 96 * q) div 32 = 3 * q" by presburger
    then show ?thesis unfolding w(1) 1 by simp
  next
    case 2
    have "(55 + 96 * q) div 32 = 3 * q + 1" "\<not> 4 dvd Suc (4 * q)" "(3 + 12 * q) mod 4 = 3" by presburger+
    then show ?thesis unfolding w(1) 2 by simp
  next
    case 3
    have "(79 + 96 * q) div 32 = 3 * q + 2" "\<not> 4 dvd 2 + 4 * q" "(6 + 12 * q) mod 4 = 2" by presburger+
    then show ?thesis unfolding w(1) 3 by (simp add: add.commute)
  next
    case 4
    have "(103 + 96 * q) div 32 = 3 * q + 3" "\<not> 4 dvd 3 + 4 * q" "(9 + 12 * q) mod 4 = 1" by presburger+
    then show ?thesis unfolding w(1) 4 by (simp add: add.commute)
  qed
qed

text \<open>The distance of two rows that the walk assumes is the row size of the file format, except that
  it skips four bytes too many when no padding is needed, that is for widths divisible by 4.\<close>

theorem row_stride_row_size:
  assumes "bi_bpp (bf_info hdr) = 24"
  shows "row_stride hdr = bmp_row_size (unat (bi_width (bf_info hdr))) +
    (if 4 dvd unat (bi_width (bf_info hdr)) then 4 else 0)"
  using row_size_padded by (simp add: row_stride_def bmp_row_size_def unat_row_pad [OF assms])

section \<open>Changing colours\<close>

definition recolor :: "(u32 \<Rightarrow> bool) \<Rightarrow> u8 \<Rightarrow> u8 \<Rightarrow> u8 \<Rightarrow> nat \<Rightarrow> bmem \<Rightarrow> bmem option" where
  "recolor P b g r p m = do { col \<leftarrow> pixel_col m p; if P col then wr3 m p b g r else Some m }"

definition rgb :: "u8 \<Rightarrow> u8 \<Rightarrow> u8 \<Rightarrow> u32" where
  "rgb r g b = ucast b OR push_bit 8 (ucast g) OR push_bit 16 (ucast r)"

lemma pixel_col_at: "p + 2 < length m \<Longrightarrow> pixel_col m p = Some (rgb (m ! (p + 2)) (m ! (p + 1)) (m ! p))"
  by (simp add: pixel_col_def rd_def rgb_def)

lemma wr3_at: "p + 2 < length m \<Longrightarrow> wr3 m p b g r = Some (m[p := b, p + 1 := g, p + 2 := r])"
  by (simp add: wr3_def wr_def)

text \<open>What recolouring the pixels at the positions \<open>ps\<close> leaves: the colour of each of them, and the
  bytes that belong to none.\<close>

definition recolored :: "(u32 \<Rightarrow> bool) \<Rightarrow> u32 \<Rightarrow> nat list \<Rightarrow> bmem \<Rightarrow> bmem \<Rightarrow> bool" where
  "recolored P c ps m m' \<longleftrightarrow> length m' = length m \<and>
     (\<forall>p\<in>set ps. pixel_col m' p = map_option (\<lambda>col. if P col then c else col) (pixel_col m p)) \<and>
     (\<forall>q. (\<forall>p\<in>set ps. q < p \<or> p + 3 \<le> q) \<longrightarrow> m' ! q = m ! q)"

lemma pixel_col_cong:
  "length m' = length m \<Longrightarrow> p + 2 < length m \<Longrightarrow> m' ! p = m ! p \<Longrightarrow> m' ! (p + 1) = m ! (p + 1) \<Longrightarrow>
     m' ! (p + 2) = m ! (p + 2) \<Longrightarrow> pixel_col m' p = pixel_col m p"
  by (simp add: pixel_col_at)

lemma recolor_one:
  assumes "p + 2 < length m"
  shows "\<exists>m'. recolor P b g r p m = Some m' \<and> recolored P (rgb r g b) [p] m m'"
  using assms by (auto simp: recolor_def pixel_col_at wr3_at recolored_def)

lemma recolor_all:
  assumes "sorted_wrt (\<lambda>p q. p + 3 \<le> q) ps" and "\<And>p. p \<in> set ps \<Longrightarrow> p + 2 < length m"
  shows "\<exists>m'. fold_opt (recolor P b g r) ps m = Some m' \<and> recolored P (rgb r g b) ps m m'"
  using assms
proof (induction ps arbitrary: m)
  case Nil
  then show ?case by (simp add: recolored_def)
next
  case (Cons p ps)
  obtain m1 where m1: "recolor P b g r p m = Some m1" "recolored P (rgb r g b) [p] m m1"
    using recolor_one [of p m] Cons.prems(2) by fastforce
  have len: "length m1 = length m" using m1(2) by (simp add: recolored_def)
  obtain m2 where m2: "fold_opt (recolor P b g r) ps m1 = Some m2" "recolored P (rgb r g b) ps m1 m2"
    using Cons.IH [of m1] Cons.prems len by fastforce
  have keep: "m1 ! q = m ! q" if "q < p \<or> p + 3 \<le> q" for q
    using m1(2) that by (auto simp: recolored_def)
  have later: "p + 3 \<le> q" if "q \<in> set ps" for q using Cons.prems(1) that by simp
  have "pixel_col m1 q = pixel_col m q" if "q \<in> set ps" for q
    using later [OF that] Cons.prems(2) [of q] that len by (intro pixel_col_cong keep) auto
  moreover have "pixel_col m2 p = pixel_col m1 p"
  proof -
    have same: "m2 ! q = m1 ! q" if "q < p + 3" for q
      using m2(2) later that unfolding recolored_def by (meson order_less_le_trans)
    show ?thesis
      using m2(2) Cons.prems(2) [of p] len same by (intro pixel_col_cong) (simp_all add: recolored_def)
  qed
  ultimately have "recolored P (rgb r g b) (p # ps) m m2"
    using m1(2) m2(2) keep by (auto simp: recolored_def)
  then show ?case using m1(1) m2(1) by auto
qed

text \<open>The image lies in memory.\<close>

definition image_fits :: "bmp_file_header \<Rightarrow> bmem \<Rightarrow> bool" where
  "image_fits hdr m \<longleftrightarrow> bf_data hdr \<noteq> 0 \<and>
     bf_data hdr + unat (bi_height (bf_info hdr)) * row_stride hdr \<le> length m"

abbreviation positions :: "bmp_file_header \<Rightarrow> nat list" where
  "positions hdr \<equiv> map (snd \<circ> snd) (pixel_list hdr)"

lemma position_in_image:
  assumes "image_fits hdr m" and "p \<in> set (positions hdr)"
  shows "p + 2 < length m"
proof -
  let ?w = "unat (bi_width (bf_info hdr))" and ?h = "unat (bi_height (bf_info hdr))" and ?s = "row_stride hdr"
  obtain i j where i: "1 \<le> i" "i \<le> ?h" "j < ?w" "p = bf_data hdr + (?h - i) * ?s + 3 * j"
    using assms(2) by (auto simp: pixel_list_def rows_list_set)
  have "Suc (?h - i) * ?s \<le> ?h * ?s" by (rule mult_le_mono1) (use i in simp)
  then have "(?h - i) * ?s + ?s \<le> ?h * ?s" by (simp add: add.commute)
  moreover have "3 * j + 2 < ?s" using i(3) by (simp add: row_stride_def)
  ultimately show ?thesis using assms(1) i(4) unfolding image_fits_def by linarith
qed

lemma all_pixels_recolor:
  assumes "image_fits hdr m" and "\<And>i j p m. body i j p m = recolor P b g r p m"
  shows "\<exists>m'. all_pixels body hdr m = Some m' \<and> recolored P (rgb r g b) (positions hdr) m m'"
proof -
  have "all_pixels body hdr m = fold_opt (on_pixel body) (pixel_list hdr) m"
    using assms(1) by (intro all_pixels_fold) (simp add: image_fits_def)
  also have "\<dots> = fold_opt (recolor P b g r) (positions hdr) m"
  proof -
    have "fold_opt (on_pixel body) xs m = fold_opt (recolor P b g r) (map (snd \<circ> snd) xs) m" for xs m
    proof (induction xs arbitrary: m)
      case (Cons x xs)
      then show ?case by (cases x; cases "recolor P b g r (snd (snd x)) m") (simp_all add: assms(2))
    qed simp
    then show ?thesis .
  qed
  finally have *: "all_pixels body hdr m = fold_opt (recolor P b g r) (positions hdr) m" .
  have "sorted_wrt (\<lambda>p q. p + 3 \<le> q) (positions hdr)"
    unfolding pixel_list_def sorted_wrt_map o_def by (rule rows_list_apart) (simp add: row_stride_def)
  from recolor_all [OF this position_in_image [OF assms(1)]] show ?thesis unfolding * by blast
qed

lemma byte_masks:
  fixes new :: u32
  shows "(ucast (new AND push_bit 8 0xFF) :: u8) = 0" "(ucast (new AND push_bit 16 0xFF) :: u8) = 0"
    "rgb 0 0 (ucast (new AND 0xFF)) = new AND 0xFF"
proof -
  have m: "(0xFF :: u32) = mask 8" by (simp add: mask_eq_exp_minus_1)
  show "(ucast (new AND push_bit 8 0xFF) :: u8) = 0" "(ucast (new AND push_bit 16 0xFF) :: u8) = 0"
    unfolding m by (rule bit_word_eqI, auto simp: bit_simps)+
  show "rgb 0 0 (ucast (new AND 0xFF)) = new AND 0xFF"
    unfolding m rgb_def by (rule bit_word_eqI) (auto simp: bit_simps)
qed

text \<open>\<open>bmp_change_color\<close> touches exactly the pixels of the old colour, but gives them only the blue part
  of the new one: the other two bytes are masked without being shifted and come out as zero.\<close>

theorem bmp_change_color_blue_only:
  assumes "image_fits hdr m"
  shows "\<exists>m'. bmp_change_color hdr old new m = Some m' \<and> recolored (\<lambda>col. col = old) (new AND 0xFF) (positions hdr) m m'"
proof -
  have "\<exists>m'. bmp_change_color hdr old new m = Some m' \<and>
      recolored (\<lambda>col. col = old) (rgb 0 0 (ucast (new AND 0xFF))) (positions hdr) m m'"
    unfolding bmp_change_color_def
    by (rule all_pixels_recolor [OF assms]) (simp only: recolor_def byte_masks(1,2))
  then show ?thesis by (simp only: byte_masks(3))
qed

text \<open>\<open>bmp_remove_all\<close> makes every pixel of another colour black and changes no other byte.\<close>

theorem bmp_remove_all_blackens:
  assumes "image_fits hdr m"
  shows "\<exists>m'. bmp_remove_all hdr color m = Some m' \<and> recolored (\<lambda>col. col \<noteq> color) 0 (positions hdr) m m'"
  using all_pixels_recolor [OF assms, of _ "\<lambda>col. col \<noteq> color" 0 0 0]
  unfolding bmp_remove_all_def by (simp add: recolor_def rgb_def)

text \<open>An image of one row and two pixels, the first 0xFFFFFF, at position 4.\<close>

definition demo_image :: bmem where
  "demo_image = [0, 0, 0, 0, 0xFF, 0xFF, 0xFF, 1, 2, 3, 0, 0]"

definition demo_hdr :: bmp_file_header where
  "demo_hdr = \<lparr>bf_header = \<lparr>bh_signature = 0x4D42, bh_file_size = 62, bh_reserved = 0, bh_data_offset = 54\<rparr>,
     bf_info = \<lparr>bi_size = 40, bi_width = 2, bi_height = 1, bi_planes = 1, bi_bpp = 24, bi_compression = 0,
       bi_image_size = 8, bi_x_pixels_pm = 0, bi_y_pixels_pm = 0, bi_colors_used = 0, bi_important_colors = 0\<rparr>,
     bf_color_table = 0, bf_data = 4\<rparr>"

lemma demo_image_fits: "image_fits demo_hdr demo_image"
  by (simp add: image_fits_def demo_hdr_def demo_image_def row_stride_def row_pad_def)

lemma demo_positions: "positions demo_hdr = [4, 7]"
  by (simp add: pixel_list_def demo_hdr_def row_list_def upt_conv_Cons)

theorem row_stride_row_size_witness: "row_stride demo_hdr = bmp_row_size 2"
  using row_stride_row_size [of demo_hdr] by (simp add: demo_hdr_def)

theorem bmp_change_color_blue_only_witness:
  "\<exists>m'. bmp_change_color demo_hdr 0xFFFFFF 0x123456 demo_image = Some m' \<and> pixel_col m' 4 = Some 0x56 \<and>
     pixel_col m' 7 = Some 0x030201"
proof -
  have "pixel_col demo_image 4 = Some 0xFFFFFF" "pixel_col demo_image 7 = Some 0x030201"
    by (simp_all add: demo_image_def pixel_col_at rgb_def)
  then show ?thesis
    using bmp_change_color_blue_only [OF demo_image_fits, of "0xFFFFFF" "0x123456"]
    by (auto simp: recolored_def demo_positions)
qed

theorem bmp_remove_all_blackens_witness:
  "\<exists>m'. bmp_remove_all demo_hdr 0xFFFFFF demo_image = Some m' \<and> pixel_col m' 4 = Some 0xFFFFFF \<and>
     pixel_col m' 7 = Some 0"
proof -
  have "pixel_col demo_image 4 = Some 0xFFFFFF" "pixel_col demo_image 7 = Some 0x030201"
    by (simp_all add: demo_image_def pixel_col_at rgb_def)
  then show ?thesis
    using bmp_remove_all_blackens [OF demo_image_fits, of "0xFFFFFF"]
    by (auto simp: recolored_def demo_positions)
qed

section \<open>Drawing\<close>

lemma fold_opt_draw:
  assumes "\<And>i j p. (i, j, p) \<in> set xs \<Longrightarrow> p + 2 < length m"
  shows "fold_opt (on_pixel (\<lambda>i j p v. do { col \<leftarrow> pixel_col m p; Some (vesa_draw (x + j) (y + i) col v) })) xs v =
    Some (v\<lparr>fbm := fold (\<lambda>(i, j, p) f. f(pixel_addr v ((y + of_nat i) * width v + (x + of_nat j)) := the (pixel_col m p)))
      xs (fbm v)\<rparr>)"
  using assms
proof (induction xs arbitrary: v)
  case (Cons a xs)
  obtain i j p where a: "a = (i, j, p)" by (cases a)
  have p: "p + 2 < length m" using Cons.prems a by auto
  let ?v = "vesa_draw (x + of_nat j) (y + of_nat i) (the (pixel_col m p)) v"
  have IH: "fold_opt (on_pixel (\<lambda>i j p v. do { col \<leftarrow> pixel_col m p; Some (vesa_draw (x + j) (y + i) col v) })) xs ?v =
    Some (?v\<lparr>fbm := fold (\<lambda>(i, j, p) f. f(pixel_addr ?v ((y + of_nat i) * width ?v + (x + of_nat j)) :=
      the (pixel_col m p))) xs (fbm ?v)\<rparr>)"
    by (rule Cons.IH) (use Cons.prems in auto)
  have same: "width ?v = width v" "pixel_addr ?v = pixel_addr v"
    by (simp_all add: vesa_draw_def pixel_addr_def fun_eq_iff)
  have upd: "?v\<lparr>fbm := f\<rparr> = v\<lparr>fbm := f\<rparr>"
    "fbm ?v = (fbm v)(pixel_addr v ((y + of_nat i) * width v + (x + of_nat j)) := the (pixel_col m p))" for f
    by (simp_all add: vesa_draw_def)
  have "on_pixel (\<lambda>i j p v. do { col \<leftarrow> pixel_col m p; Some (vesa_draw (x + j) (y + i) col v) }) a v = Some ?v"
    using p by (simp add: a pixel_col_at)
  then show ?case unfolding fold_opt.simps using IH [unfolded same upd] by (simp add: a fun_upd_def)
qed simp

lemma pixel_draw_addr:
  "pixel_addr v ((y + of_nat i) * width v + (x + of_nat j)) = pixel_at v (unat x + j) (unat y + i)"
  by (simp add: pixel_at_def algebra_simps)

lemma pixel_at_inj:
  assumes "pixel_at v x y = pixel_at v x' y'" and "x < unat (width v)" and "x' < unat (width v)"
    and "Suc y * unat (width v) \<le> 2 ^ 30" and "Suc y' * unat (width v) \<le> 2 ^ 30"
  shows "x = x' \<and> y = y'"
proof -
  let ?w = "unat (width v)"
  have "y * ?w + x < 2 ^ 30" "y' * ?w + x' < 2 ^ 30" using assms by simp_all
  then have e: "y * ?w + x = y' * ?w + x'"
    using pixel_addr_inj [of v "y * ?w + x" "y' * ?w + x'"] assms(1) unfolding pixel_at_def by blast
  have "y = (y * ?w + x) div ?w" "x = (y * ?w + x) mod ?w" using assms(2) by simp_all
  moreover have "y' = (y' * ?w + x') div ?w" "x' = (y' * ?w + x') mod ?w" using assms(3) by simp_all
  ultimately show ?thesis using e by metis
qed

text \<open>What the walk over the pixels paints, at the distance of rows that the code assumes.\<close>

lemma draw_bmp_data_walk:
  assumes "image_fits hdr m" and "unat x + unat (bi_width (bf_info hdr)) \<le> unat (width v)"
    and "(unat y + unat (bi_height (bf_info hdr)) + 1) * unat (width v) \<le> 2 ^ 30"
  shows "\<exists>v'. draw_bmp_data m hdr x y v = Some v' \<and>
    (\<forall>i j. 1 \<le> i \<and> i \<le> unat (bi_height (bf_info hdr)) \<and> j < unat (bi_width (bf_info hdr)) \<longrightarrow>
       Some (fbm v' (pixel_at v (unat x + j) (unat y + i))) =
         pixel_col m (bf_data hdr + (unat (bi_height (bf_info hdr)) - i) * row_stride hdr + 3 * j)) \<and>
    (\<forall>a. (\<forall>i j. 1 \<le> i \<and> i \<le> unat (bi_height (bf_info hdr)) \<and> j < unat (bi_width (bf_info hdr)) \<longrightarrow>
       a \<noteq> pixel_at v (unat x + j) (unat y + i)) \<longrightarrow> fbm v' a = fbm v a)"
proof -
  let ?w = "unat (bi_width (bf_info hdr))" and ?h = "unat (bi_height (bf_info hdr))" and ?s = "row_stride hdr"
  let ?a = "\<lambda>(i, j, p :: nat). pixel_at v (unat x + j) (unat y + i)" and ?f = "\<lambda>(i, j, p). pixel_col m p"
  have mem: "(i, j, p) \<in> set (pixel_list hdr) \<longleftrightarrow> 1 \<le> i \<and> i \<le> ?h \<and> j < ?w \<and> p = bf_data hdr + (?h - i) * ?s + 3 * j" for i j p
    by (simp add: pixel_list_def rows_list_set)
  have p: "p + 2 < length m" if "(i, j, p) \<in> set (pixel_list hdr)" for i j p
    using position_in_image [OF assms(1), of p] that by force
  have inj: "inj_on ?a (set (pixel_list hdr))"
  proof (rule inj_onI)
    fix s t
    assume st: "s \<in> set (pixel_list hdr)" "t \<in> set (pixel_list hdr)" "?a s = ?a t"
    obtain i j q i' j' q' where e: "s = (i, j, q)" "t = (i', j', q')" by (cases s; cases t)
    have row: "Suc (unat y + i) * unat (width v) \<le> 2 ^ 30" if "i \<le> ?h" for i
      using mult_le_mono1 [of "Suc (unat y + i)" "unat y + ?h + 1" "unat (width v)"] that assms(3) by linarith
    show "s = t"
      using st pixel_at_inj [of v "unat x + j" "unat y + i" "unat x + j'" "unat y + i'"] row [of i] row [of i'] assms(2)
      unfolding e mem by auto
  qed
  let ?v = "v\<lparr>fbm := fold (\<lambda>k f. case ?f k of None \<Rightarrow> f | Some c \<Rightarrow> f(?a k := c)) (pixel_list hdr) (fbm v)\<rparr>"
  have "draw_bmp_data m hdr x y v = fold_opt (on_pixel (\<lambda>i j p v. do { col \<leftarrow> pixel_col m p;
      Some (vesa_draw (x + j) (y + i) col v) })) (pixel_list hdr) v"
    unfolding draw_bmp_data_def using assms(1) by (intro all_pixels_fold) (simp add: image_fits_def)
  also have "\<dots> = Some (v\<lparr>fbm := fold (\<lambda>(i, j, p) f. f(pixel_at v (unat x + j) (unat y + i) := the (pixel_col m p)))
      (pixel_list hdr) (fbm v)\<rparr>)"
    using fold_opt_draw [of "pixel_list hdr" m x y v, OF p] unfolding pixel_draw_addr .
  also have "\<dots> = Some ?v"
  proof -
    have "fold (\<lambda>(i, j, p) f. f(pixel_at v (unat x + j) (unat y + i) := the (pixel_col m p))) (pixel_list hdr) =
      fold (\<lambda>k f. case ?f k of None \<Rightarrow> f | Some c \<Rightarrow> f(?a k := c)) (pixel_list hdr)"
      using p by (intro ext fold_cong) (auto simp: pixel_col_at split: prod.split)
    then show ?thesis by simp
  qed
  finally have draw: "draw_bmp_data m hdr x y v = Some ?v" .
  have "Some (fbm ?v (pixel_at v (unat x + j) (unat y + i))) = pixel_col m (bf_data hdr + (?h - i) * ?s + 3 * j)"
    if "1 \<le> i \<and> i \<le> ?h \<and> j < ?w" for i j
    using fold_upd_at [OF inj, of "(i, j, bf_data hdr + (?h - i) * ?s + 3 * j)" ?f "fbm v"] that
      p [of i j "bf_data hdr + (?h - i) * ?s + 3 * j"]
    by (simp add: mem pixel_col_at)
  moreover have "fbm ?v a = fbm v a"
    if "\<forall>i j. 1 \<le> i \<and> i \<le> ?h \<and> j < ?w \<longrightarrow> a \<noteq> pixel_at v (unat x + j) (unat y + i)" for a
    using fold_upd_other [of a ?a "pixel_list hdr" ?f "fbm v"] that by (force simp: mem)
  ultimately show ?thesis using draw by blast
qed

text \<open>The image as the file format has it: 24 bits per pixel, blue, green and red byte of a pixel one after the
  other, the rows from the bottom to the top, each of the length \<open>bmp_row_size\<close>.  \<open>image_in_file\<close> excludes the
  widths that are divisible by 4, for which the code goes wrong.\<close>

definition file_pixel :: "bmem \<Rightarrow> bmp_file_header \<Rightarrow> nat \<Rightarrow> nat \<Rightarrow> u32" where
  "file_pixel m hdr row col =
     (let p = bf_data hdr + row * bmp_row_size (unat (bi_width (bf_info hdr))) + 3 * col
      in rgb (m ! (p + 2)) (m ! (p + 1)) (m ! p))"

definition image_in_file :: "bmp_file_header \<Rightarrow> bmem \<Rightarrow> bool" where
  "image_in_file hdr m \<longleftrightarrow> bf_data hdr \<noteq> 0 \<and> bi_bpp (bf_info hdr) = 24 \<and> \<not> 4 dvd unat (bi_width (bf_info hdr)) \<and>
     bf_data hdr + unat (bi_height (bf_info hdr)) * bmp_row_size (unat (bi_width (bf_info hdr))) \<le> length m"

lemma image_in_file_stride:
  assumes "image_in_file hdr m"
  shows "row_stride hdr = bmp_row_size (unat (bi_width (bf_info hdr)))" and "image_fits hdr m"
proof -
  show s: "row_stride hdr = bmp_row_size (unat (bi_width (bf_info hdr)))"
    using assms row_size_padded [of "unat (bi_width (bf_info hdr))"] unat_row_pad [of hdr]
    by (simp add: image_in_file_def row_stride_def bmp_row_size_def)
  show "image_fits hdr m" using assms unfolding image_fits_def s by (simp add: image_in_file_def)
qed

text \<open>C28: \<open>draw_bmp_data\<close> paints an image of 24 bits per pixel, whose width is not divisible by 4, upright on the
  screen, its left edge in column \<open>x\<close> and its first row in row \<open>y + 1\<close>: the pixel in column \<open>j\<close> of row \<open>i\<close>,
  counted from 1 at the top, is the one that the file has in column \<open>j\<close> of its row \<open>height - i\<close>, with rows of
  the length that the file format gives them, and nothing else is painted.\<close>

theorem draw_bmp_data_paints:
  assumes "image_in_file hdr m" and "unat x + unat (bi_width (bf_info hdr)) \<le> unat (width v)"
    and "(unat y + unat (bi_height (bf_info hdr)) + 1) * unat (width v) \<le> 2 ^ 30"
  shows "\<exists>v'. draw_bmp_data m hdr x y v = Some v' \<and>
    (\<forall>i j. 1 \<le> i \<and> i \<le> unat (bi_height (bf_info hdr)) \<and> j < unat (bi_width (bf_info hdr)) \<longrightarrow>
       fbm v' (pixel_at v (unat x + j) (unat y + i)) = file_pixel m hdr (unat (bi_height (bf_info hdr)) - i) j) \<and>
    (\<forall>a. (\<forall>i j. 1 \<le> i \<and> i \<le> unat (bi_height (bf_info hdr)) \<and> j < unat (bi_width (bf_info hdr)) \<longrightarrow>
       a \<noteq> pixel_at v (unat x + j) (unat y + i)) \<longrightarrow> fbm v' a = fbm v a)"
proof -
  let ?w = "unat (bi_width (bf_info hdr))" and ?h = "unat (bi_height (bf_info hdr))"
  let ?p = "\<lambda>i j. bf_data hdr + (?h - i) * bmp_row_size ?w + 3 * j"
  note s = image_in_file_stride [OF assms(1)]
  obtain v' where v': "draw_bmp_data m hdr x y v = Some v'"
      "\<And>i j. 1 \<le> i \<and> i \<le> ?h \<and> j < ?w \<Longrightarrow> Some (fbm v' (pixel_at v (unat x + j) (unat y + i))) = pixel_col m (?p i j)"
      "\<And>a. (\<forall>i j. 1 \<le> i \<and> i \<le> ?h \<and> j < ?w \<longrightarrow> a \<noteq> pixel_at v (unat x + j) (unat y + i)) \<Longrightarrow> fbm v' a = fbm v a"
    using draw_bmp_data_walk [OF s(2) assms(2,3)] unfolding s(1) by blast
  have "fbm v' (pixel_at v (unat x + j) (unat y + i)) = file_pixel m hdr (?h - i) j"
    if ij: "1 \<le> i \<and> i \<le> ?h \<and> j < ?w" for i j
  proof -
    have "(i, j, ?p i j) \<in> set (pixel_list hdr)" using ij by (simp add: pixel_list_def rows_list_set s(1))
    then have "?p i j \<in> set (positions hdr)" by force
    then have "?p i j + 2 < length m" by (rule position_in_image [OF s(2)])
    then show ?thesis using v'(2) [OF ij] by (simp add: pixel_col_at file_pixel_def Let_def)
  qed
  then show ?thesis using v'(1,3) by blast
qed

theorem draw_bmp_data_paints_witness:
  "\<exists>v'. draw_bmp_data demo_image demo_hdr 3 4 demo_vesa = Some v' \<and> fbm v' (pixel_at demo_vesa 3 5) = 0xFFFFFF \<and>
     fbm v' (pixel_at demo_vesa 4 5) = 0x030201"
proof -
  have c: "file_pixel demo_image demo_hdr 0 0 = 0xFFFFFF" "file_pixel demo_image demo_hdr 0 1 = 0x030201"
    by (simp_all add: file_pixel_def demo_hdr_def demo_image_def rgb_def)
  have in_file: "image_in_file demo_hdr demo_image"
    by (simp add: image_in_file_def demo_hdr_def demo_image_def bmp_row_size_def)
  obtain v' where v': "draw_bmp_data demo_image demo_hdr 3 4 demo_vesa = Some v'"
    "\<And>i j. 1 \<le> i \<and> i \<le> (1 :: nat) \<and> j < (2 :: nat) \<Longrightarrow> fbm v' (pixel_at demo_vesa (3 + j) (4 + i)) =
       file_pixel demo_image demo_hdr (1 - i) j"
    using draw_bmp_data_paints [OF in_file, of 3 demo_vesa 4] by (auto simp: demo_hdr_def demo_vesa_def)
  show ?thesis using v'(1) v'(2) [of 1 0] v'(2) [of 1 1] c by simp
qed

section \<open>Reading the header\<close>

definition le16 :: "u16 \<Rightarrow> u8 list" where
  "le16 w = [ucast w, ucast (drop_bit 8 w)]"

definition le32 :: "u32 \<Rightarrow> u8 list" where
  "le32 w = le16 (ucast w) @ le16 (ucast (drop_bit 16 w))"

text \<open>The headers as they stand in a file: 14 and 40 bytes.\<close>

definition header_bytes :: "bmp_header \<Rightarrow> u8 list" where
  "header_bytes h = le16 (bh_signature h) @ le32 (bh_file_size h) @ le32 (bh_reserved h) @ le32 (bh_data_offset h)"

definition info_bytes :: "bmp_info_header \<Rightarrow> u8 list" where
  "info_bytes i = le32 (bi_size i) @ le32 (bi_width i) @ le32 (bi_height i) @ le16 (bi_planes i) @ le16 (bi_bpp i) @
     le32 (bi_compression i) @ le32 (bi_image_size i) @ le32 (bi_x_pixels_pm i) @ le32 (bi_y_pixels_pm i) @
     le32 (bi_colors_used i) @ le32 (bi_important_colors i)"

definition bytes_at :: "bmem \<Rightarrow> nat \<Rightarrow> u8 list \<Rightarrow> bool" where
  "bytes_at m p bs \<longleftrightarrow> (\<forall>i<length bs. rd m (p + i) = Some (bs ! i))"

lemma bytes_at_append: "bytes_at m p (xs @ ys) \<longleftrightarrow> bytes_at m p xs \<and> bytes_at m (p + length xs) ys"
proof -
  have "bytes_at m p (xs @ ys)" if "bytes_at m p xs" "bytes_at m (p + length xs) ys"
    unfolding bytes_at_def
  proof (intro allI impI)
    fix i assume i: "i < length (xs @ ys)"
    show "rd m (p + i) = Some ((xs @ ys) ! i)"
      using that(1) i spec [OF that(2) [unfolded bytes_at_def], of "i - length xs"]
      by (cases "i < length xs") (auto simp: bytes_at_def nth_append)
  qed
  then show ?thesis by (fastforce simp: bytes_at_def nth_append add.assoc)
qed

lemma length_le [simp]: "length (le16 w) = 2" "length (le32 v) = 4"
  by (simp_all add: le16_def le32_def)

lemma rd16_le16: "bytes_at m p (le16 w) \<Longrightarrow> rd16 m p = Some w"
proof -
  assume "bytes_at m p (le16 w)"
  then have "rd m p = Some (ucast w)" "rd m (p + 1) = Some (ucast (drop_bit 8 w))"
    by (auto simp: bytes_at_def le16_def less_Suc_eq_0_disj)
  moreover have "ucast (ucast w :: u8) OR push_bit 8 (ucast (ucast (drop_bit 8 w) :: u8)) = w"
    by (rule bit_word_eqI) (auto simp: bit_simps)
  ultimately show ?thesis by (simp add: rd16_def)
qed

lemma rd32_le32: "bytes_at m p (le32 w) \<Longrightarrow> rd32 m p = Some w"
proof -
  assume "bytes_at m p (le32 w)"
  then have "rd16 m p = Some (ucast w)" "rd16 m (p + 2) = Some (ucast (drop_bit 16 w))"
    by (simp_all add: le32_def bytes_at_append rd16_le16)
  moreover have "ucast (ucast w :: u16) OR push_bit 16 (ucast (ucast (drop_bit 16 w) :: u16)) = w"
    by (rule bit_word_eqI) (auto simp: bit_simps)
  ultimately show ?thesis by (simp add: rd32_def)
qed

text \<open>C37: \<open>read_bmp_header\<close> reads the fields of the 54 header bytes.  An image of less than 56 bytes, or of
  less than 24 bits per pixel, is refused with -1 and a NULL pointer to its pixels.  Otherwise the
  pixels are taken to follow the headers, wherever the header says they are, and the number of bytes
  read is given as 57.\<close>

theorem read_bmp_header_parses:
  assumes "bytes_at m p (header_bytes h @ info_bytes i)"
  shows "\<exists>r buf'. read_bmp_header m p buf = Some (r, buf') \<and>
    bf_header buf' = h\<lparr>bh_reserved := bh_reserved (bf_header buf)\<rparr> \<and>
    (56 \<le> bh_file_size h \<longrightarrow> bf_info buf' = i) \<and>
    (if 56 \<le> bh_file_size h \<and> 24 \<le> bi_bpp i then r = 57 \<and> bf_data buf' = p + 54
     else r = -1 \<and> bf_data buf' = 0)"
proof -
  have h: "rd16 m p = Some (bh_signature h)" "rd32 m (p + 2) = Some (bh_file_size h)" "rd32 m (p + 10) = Some (bh_data_offset h)"
    using assms by (simp_all add: header_bytes_def bytes_at_append rd16_le16 rd32_le32 ac_simps)
  have i: "rd32 m (p + 14) = Some (bi_size i)" "rd32 m (p + 18) = Some (bi_width i)" "rd32 m (p + 22) = Some (bi_height i)"
    "rd16 m (p + 26) = Some (bi_planes i)" "rd16 m (p + 28) = Some (bi_bpp i)" "rd32 m (p + 30) = Some (bi_compression i)"
    "rd32 m (p + 34) = Some (bi_image_size i)" "rd32 m (p + 38) = Some (bi_x_pixels_pm i)"
    "rd32 m (p + 42) = Some (bi_y_pixels_pm i)" "rd32 m (p + 46) = Some (bi_colors_used i)"
    "rd32 m (p + 50) = Some (bi_important_colors i)"
    using assms by (simp_all add: header_bytes_def info_bytes_def bytes_at_append rd16_le16 rd32_le32 ac_simps)
  show ?thesis
    unfolding read_bmp_header_def Let_def
    by (cases h; cases i) (use h i in \<open>simp add: add.assoc not_less del: add_2_eq_Suc add_2_eq_Suc', auto simp: not_le\<close>)
qed

definition demo_header_file :: bmem where
  "demo_header_file = header_bytes (bf_header demo_hdr) @ info_bytes (bf_info demo_hdr) @ [1, 2, 3, 4, 5, 6, 0, 0]"

lemma bytes_at_prefix: "bytes_at (bs @ rest) 0 bs"
  by (simp add: bytes_at_def rd_def nth_append)

theorem read_bmp_header_parses_witness:
  "\<exists>buf'. read_bmp_header demo_header_file 0 demo_hdr = Some (57, buf') \<and> bf_info buf' = bf_info demo_hdr \<and>
     bf_data buf' = 54"
proof -
  have "bytes_at demo_header_file 0 (header_bytes (bf_header demo_hdr) @ info_bytes (bf_info demo_hdr))"
    using bytes_at_prefix [of "header_bytes (bf_header demo_hdr) @ info_bytes (bf_info demo_hdr)"]
    by (simp add: demo_header_file_def)
  from read_bmp_header_parses [OF this, of demo_hdr] show ?thesis by (auto simp: demo_hdr_def)
qed

section \<open>Reading the pixels into a stream\<close>

lemma read_data_loop_puts:
  assumes "std_inv st" and "int (p + k) - int start \<le> limit" and "p + k \<le> length m"
  shows "\<exists>st'. read_data_loop m start limit k p n st = Some (p + k, n + int k, st') \<and> std_inv st' \<and>
     std_contents st' = std_contents st @ take (255 - length (std_contents st)) (take k (drop p m))"
  using assms
proof (induction k arbitrary: p n st)
  case (Suc k)
  have p: "p < length m" "int p - int start < limit" using Suc.prems by simp_all
  obtain r st1 where put: "put_std st (m ! p) = Some (r, st1)" "std_inv st1"
    "std_contents st1 = std_contents st @ take (255 - length (std_contents st)) [m ! p]"
    using std_put_contents [OF Suc.prems(1), of "m ! p"] by blast
  obtain st' where st': "read_data_loop m start limit k (p + 1) (n + 1) st1 = Some (p + 1 + k, n + 1 + int k, st')"
    "std_inv st'" "std_contents st' = std_contents st1 @ take (255 - length (std_contents st1)) (take k (drop (p + 1) m))"
    using Suc.IH [OF put(2), of "p + 1" "n + 1"] Suc.prems by auto
  have "take (Suc k) (drop p m) = [m ! p] @ take k (drop (p + 1) m)"
    using p(1) by (simp flip: Cons_nth_drop_Suc)
  then have "std_contents st' = std_contents st @ take (255 - length (std_contents st)) (take (Suc k) (drop p m))"
    unfolding st'(3) put(3) by (simp only: append_assoc take_append_take)
  then show ?case using put(1) st' p by (simp add: rd_def)
qed simp

text \<open>While at least 256 bytes are left, a call of \<open>read_bmp_data\<close> consumes 256 bytes and says so, but
  the queue holds no more than 255 characters: even an empty one loses the last byte of every block.\<close>

theorem read_bmp_data_loses_byte:
  assumes "start_pos g \<noteq> 0" and "start_pos g \<le> bf_data hdr" and "std_inv st" and "std_contents st = []"
    and "int (bf_data hdr + 256) - int (start_pos g) \<le> sint (img_size g)" and "bf_data hdr + 256 \<le> length m"
  shows "\<exists>st'. read_bmp_data m g hdr st = Some (256, g, hdr\<lparr>bf_data := bf_data hdr + 256\<rparr>, st') \<and>
    std_contents st' = take 255 (drop (bf_data hdr) m)"
  using read_data_loop_puts [OF assms(3,5,6), of 0] assms(1,4) by (auto simp: read_bmp_data_def)

definition demo_pixels :: bmem where
  "demo_pixels = replicate 400 7"

theorem read_bmp_data_loses_byte_witness:
  "\<exists>st'. read_bmp_data demo_pixels \<lparr>start_pos = 4, img_size = 300\<rparr> demo_hdr demo_stream_out =
       Some (256, \<lparr>start_pos = 4, img_size = 300\<rparr>, demo_hdr\<lparr>bf_data := 260\<rparr>, st') \<and>
     std_contents st' = replicate 255 7"
proof -
  have "std_inv demo_stream_out" "std_contents demo_stream_out = []"
    by (simp_all add: demo_stream_out_def std_inv_def std_contents_def ring_def)
  then show ?thesis
    using read_bmp_data_loses_byte [of "\<lparr>start_pos = 4, img_size = 300\<rparr>" demo_hdr demo_stream_out demo_pixels]
    by (auto simp: demo_hdr_def demo_pixels_def)
qed

end
