(* ===== verification/Multiboot.thy ===== *)
theory Multiboot
  imports Kmain BmpProofs
begin

text \<open>
  boot/multiboot.h: the structures that the boot loader and the kernel exchange, and their layout in the byte
  memory: each field at the next multiple of its alignment (four bytes at most on this machine).  \<open>kmain\<close> gets the
  address of a \<open>multiboot_info\<close>, which \<open>init_alloc\<close> and \<open>init_vesa\<close> read; in the model of \<open>kmain\<close> (theory Kmain) what
  they read from it is an argument.
\<close>

section \<open>The structures\<close>

definition MULTIBOOT_HEADER_MAGIC :: u32 where "MULTIBOOT_HEADER_MAGIC = 0x1BADB002"
definition MULTIBOOT_BOOTLOADER_MAGIC :: u32 where "MULTIBOOT_BOOTLOADER_MAGIC = 0x2BADB002"
definition MULTIBOOT_PAGE_ALIGN :: u32 where "MULTIBOOT_PAGE_ALIGN = 0x00000001"
definition MULTIBOOT_MEMORY_INFO :: u32 where "MULTIBOOT_MEMORY_INFO = 0x00000002"
definition MULTIBOOT_VIDEO_MODE :: u32 where "MULTIBOOT_VIDEO_MODE = 0x00000004"
definition MULTIBOOT_AOUT_KLUDGE :: u32 where "MULTIBOOT_AOUT_KLUDGE = 0x00010000"
definition MULTIBOOT_INFO_MEMORY :: u32 where "MULTIBOOT_INFO_MEMORY = 0x00000001"
definition MULTIBOOT_INFO_FRAMEBUFFER_INFO :: u32 where "MULTIBOOT_INFO_FRAMEBUFFER_INFO = 0x00001000"

record multiboot_header =
  mh_magic :: u32
  mh_flags :: u32
  mh_checksum :: u32
  mh_header_addr :: u32
  mh_load_addr :: u32
  mh_load_end_addr :: u32
  mh_bss_end_addr :: u32
  mh_entry_addr :: u32
  mh_mode_type :: u32
  mh_width :: u32
  mh_height :: u32
  mh_depth :: u32

record multiboot_aout_symbol_table =
  aout_tabsize :: u32
  aout_strsize :: u32
  aout_addr :: u32
  aout_reserved :: u32

record multiboot_elf_section_header_table =
  elf_num :: u32
  elf_size :: u32
  elf_addr :: u32
  elf_shndx :: u32

text \<open>The two members of the union \<open>u\<close> share their four words, the two of the last union their eight bytes.\<close>

record multiboot_info =
  mi_flags :: u32
  mi_mem_lower :: u32
  mi_mem_upper :: u32
  mi_boot_device :: u32
  mi_cmdline :: u32
  mi_mods_count :: u32
  mi_mods_addr :: u32
  mi_u0 :: u32
  mi_u1 :: u32
  mi_u2 :: u32
  mi_u3 :: u32
  mi_mmap_length :: u32
  mi_mmap_addr :: u32
  mi_drives_length :: u32
  mi_drives_addr :: u32
  mi_config_table :: u32
  mi_boot_loader_name :: u32
  mi_apm_table :: u32
  mi_vbe_control_info :: u32
  mi_vbe_mode_info :: u32
  mi_vbe_mode :: u16
  mi_vbe_interface_seg :: u16
  mi_vbe_interface_off :: u16
  mi_vbe_interface_len :: u16
  mi_framebuffer_addr :: "64 word"
  mi_framebuffer_pitch :: u32
  mi_framebuffer_width :: u32
  mi_framebuffer_height :: u32
  mi_framebuffer_bpp :: u8
  mi_framebuffer_type :: u8
  mi_color0 :: u32
  mi_color1 :: u32

definition aout_sym :: "multiboot_info \<Rightarrow> multiboot_aout_symbol_table" where
  "aout_sym i = \<lparr>aout_tabsize = mi_u0 i, aout_strsize = mi_u1 i, aout_addr = mi_u2 i, aout_reserved = mi_u3 i\<rparr>"

definition elf_sec :: "multiboot_info \<Rightarrow> multiboot_elf_section_header_table" where
  "elf_sec i = \<lparr>elf_num = mi_u0 i, elf_size = mi_u1 i, elf_addr = mi_u2 i, elf_shndx = mi_u3 i\<rparr>"

definition framebuffer_palette_addr :: "multiboot_info \<Rightarrow> u32" where
  "framebuffer_palette_addr i = mi_color0 i"

definition framebuffer_palette_num_colors :: "multiboot_info \<Rightarrow> u16" where
  "framebuffer_palette_num_colors i = ucast (mi_color1 i)"

text \<open>The byte \<open>k\<close> of the last union: position and size of the red, the green and the blue field.\<close>

definition color_byte :: "nat \<Rightarrow> multiboot_info \<Rightarrow> u8" where
  "color_byte k i = ucast (drop_bit (8 * (k mod 4)) (if k < 4 then mi_color0 i else mi_color1 i))"

definition framebuffer_rgb :: "multiboot_info \<Rightarrow> u8 list" where
  "framebuffer_rgb i = map (\<lambda>k. color_byte k i) [0..<6]"

section \<open>Layout\<close>

text \<open>The offsets of fields of the given sizes, and the size of the struct.\<close>

definition align_up :: "nat \<Rightarrow> nat \<Rightarrow> nat" where
  "align_up a o' = (o' + a - 1) div a * a"

fun offsets :: "nat list \<Rightarrow> nat \<Rightarrow> nat list" where
  "offsets [] o' = [align_up 4 o']"
| "offsets (n # ns) o' = (let p = align_up (min 4 n) o' in p # offsets ns (p + n))"

definition info_sizes :: "nat list" where
  "info_sizes = [4, 4, 4, 4, 4, 4, 4, 4, 4, 4, 4, 4, 4, 4, 4, 4, 4, 4, 4, 4, 2, 2, 2, 2, 8, 4, 4, 4, 1, 1, 4, 4]"

lemma info_offsets:
  "offsets info_sizes 0 = [0, 4, 8, 12, 16, 20, 24, 28, 32, 36, 40, 44, 48, 52, 56, 60, 64, 68, 72, 76,
     80, 82, 84, 86, 88, 96, 100, 104, 108, 109, 112, 116, 120]"
  by (simp add: info_sizes_def align_up_def Let_def)

definition rd64 :: "bmem \<Rightarrow> nat \<Rightarrow> 64 word option" where
  "rd64 m p = do { a \<leftarrow> rd32 m p; b \<leftarrow> rd32 m (p + 4); Some (ucast a OR push_bit 32 (ucast b)) }"

text \<open>The structure at the address \<open>p\<close>, field by field at these offsets.\<close>

definition load_info :: "bmem \<Rightarrow> nat \<Rightarrow> multiboot_info option" where
  "load_info m p = do {
     flags' \<leftarrow> rd32 m p; mem_lower' \<leftarrow> rd32 m (p + 4); mem_upper' \<leftarrow> rd32 m (p + 8);
     boot_device' \<leftarrow> rd32 m (p + 12); cmdline' \<leftarrow> rd32 m (p + 16); mods_count' \<leftarrow> rd32 m (p + 20);
     mods_addr' \<leftarrow> rd32 m (p + 24); u0' \<leftarrow> rd32 m (p + 28); u1' \<leftarrow> rd32 m (p + 32);
     u2' \<leftarrow> rd32 m (p + 36); u3' \<leftarrow> rd32 m (p + 40); mmap_length' \<leftarrow> rd32 m (p + 44);
     mmap_addr' \<leftarrow> rd32 m (p + 48); drives_length' \<leftarrow> rd32 m (p + 52); drives_addr' \<leftarrow> rd32 m (p + 56);
     config_table' \<leftarrow> rd32 m (p + 60); boot_loader_name' \<leftarrow> rd32 m (p + 64); apm_table' \<leftarrow> rd32 m (p + 68);
     vbe_control_info' \<leftarrow> rd32 m (p + 72); vbe_mode_info' \<leftarrow> rd32 m (p + 76); vbe_mode' \<leftarrow> rd16 m (p + 80);
     vbe_interface_seg' \<leftarrow> rd16 m (p + 82); vbe_interface_off' \<leftarrow> rd16 m (p + 84); vbe_interface_len' \<leftarrow> rd16 m (p + 86);
     framebuffer_addr' \<leftarrow> rd64 m (p + 88); framebuffer_pitch' \<leftarrow> rd32 m (p + 96); framebuffer_width' \<leftarrow> rd32 m (p + 100);
     framebuffer_height' \<leftarrow> rd32 m (p + 104); framebuffer_bpp' \<leftarrow> rd m (p + 108); framebuffer_type' \<leftarrow> rd m (p + 109);
     color0' \<leftarrow> rd32 m (p + 112); color1' \<leftarrow> rd32 m (p + 116);
     Some \<lparr>mi_flags = flags', mi_mem_lower = mem_lower', mi_mem_upper = mem_upper',
       mi_boot_device = boot_device', mi_cmdline = cmdline', mi_mods_count = mods_count',
       mi_mods_addr = mods_addr', mi_u0 = u0', mi_u1 = u1',
       mi_u2 = u2', mi_u3 = u3', mi_mmap_length = mmap_length',
       mi_mmap_addr = mmap_addr', mi_drives_length = drives_length', mi_drives_addr = drives_addr',
       mi_config_table = config_table', mi_boot_loader_name = boot_loader_name', mi_apm_table = apm_table',
       mi_vbe_control_info = vbe_control_info', mi_vbe_mode_info = vbe_mode_info', mi_vbe_mode = vbe_mode',
       mi_vbe_interface_seg = vbe_interface_seg', mi_vbe_interface_off = vbe_interface_off', mi_vbe_interface_len = vbe_interface_len',
       mi_framebuffer_addr = framebuffer_addr', mi_framebuffer_pitch = framebuffer_pitch', mi_framebuffer_width = framebuffer_width',
       mi_framebuffer_height = framebuffer_height', mi_framebuffer_bpp = framebuffer_bpp', mi_framebuffer_type = framebuffer_type',
       mi_color0 = color0', mi_color1 = color1'\<rparr> }"

text \<open>The same structure as the boot loader writes it, with two bytes of padding before the last union.\<close>

definition le64 :: "64 word \<Rightarrow> u8 list" where
  "le64 w = le32 (ucast w) @ le32 (ucast (drop_bit 32 w))"

definition le8 :: "u8 \<Rightarrow> u8 list" where "le8 b = [b]"

definition info_struct :: "multiboot_info \<Rightarrow> u8 list \<Rightarrow> u8 list" where
  "info_struct i pad = le32 (mi_flags i) @ le32 (mi_mem_lower i) @ le32 (mi_mem_upper i) @ le32 (mi_boot_device i) @
     le32 (mi_cmdline i) @ le32 (mi_mods_count i) @ le32 (mi_mods_addr i) @ le32 (mi_u0 i) @
     le32 (mi_u1 i) @ le32 (mi_u2 i) @ le32 (mi_u3 i) @ le32 (mi_mmap_length i) @
     le32 (mi_mmap_addr i) @ le32 (mi_drives_length i) @ le32 (mi_drives_addr i) @ le32 (mi_config_table i) @
     le32 (mi_boot_loader_name i) @ le32 (mi_apm_table i) @ le32 (mi_vbe_control_info i) @ le32 (mi_vbe_mode_info i) @
     le16 (mi_vbe_mode i) @ le16 (mi_vbe_interface_seg i) @ le16 (mi_vbe_interface_off i) @ le16 (mi_vbe_interface_len i) @
     le64 (mi_framebuffer_addr i) @ le32 (mi_framebuffer_pitch i) @ le32 (mi_framebuffer_width i) @ le32 (mi_framebuffer_height i) @
     le8 (mi_framebuffer_bpp i) @ le8 (mi_framebuffer_type i) @ pad @ le32 (mi_color0 i) @
     le32 (mi_color1 i)"

lemma length_le64 [simp]: "length (le64 w) = 8" "length (le8 b) = 1"
  by (simp_all add: le64_def le8_def)

lemma rd64_le64: "bytes_at m p (le64 w) \<Longrightarrow> rd64 m p = Some w"
proof -
  assume "bytes_at m p (le64 w)"
  then have "rd32 m p = Some (ucast w)" "rd32 m (p + 4) = Some (ucast (drop_bit 32 w))"
    by (simp_all add: le64_def bytes_at_append rd32_le32)
  moreover have "ucast (ucast w :: u32) OR push_bit 32 (ucast (ucast (drop_bit 32 w) :: u32)) = w"
    by (rule bit_word_eqI) (auto simp: bit_simps)
  ultimately show ?thesis by (simp add: rd64_def)
qed

lemma rd_le8: "bytes_at m p (le8 b) \<Longrightarrow> rd m p = Some b"
  by (simp add: bytes_at_def le8_def)

lemma load_info_struct:
  assumes "bytes_at m p (info_struct i pad)" and "length pad = 2"
  shows "load_info m p = Some i"
proof -
  have b: "bytes_at m p (le32 (mi_flags i)) \<and> bytes_at m (p + 4) (le32 (mi_mem_lower i)) \<and>
      bytes_at m (p + 8) (le32 (mi_mem_upper i)) \<and> bytes_at m (p + 12) (le32 (mi_boot_device i)) \<and>
      bytes_at m (p + 16) (le32 (mi_cmdline i)) \<and> bytes_at m (p + 20) (le32 (mi_mods_count i)) \<and>
      bytes_at m (p + 24) (le32 (mi_mods_addr i)) \<and> bytes_at m (p + 28) (le32 (mi_u0 i)) \<and>
      bytes_at m (p + 32) (le32 (mi_u1 i)) \<and> bytes_at m (p + 36) (le32 (mi_u2 i)) \<and>
      bytes_at m (p + 40) (le32 (mi_u3 i)) \<and> bytes_at m (p + 44) (le32 (mi_mmap_length i)) \<and>
      bytes_at m (p + 48) (le32 (mi_mmap_addr i)) \<and> bytes_at m (p + 52) (le32 (mi_drives_length i)) \<and>
      bytes_at m (p + 56) (le32 (mi_drives_addr i)) \<and> bytes_at m (p + 60) (le32 (mi_config_table i)) \<and>
      bytes_at m (p + 64) (le32 (mi_boot_loader_name i)) \<and> bytes_at m (p + 68) (le32 (mi_apm_table i)) \<and>
      bytes_at m (p + 72) (le32 (mi_vbe_control_info i)) \<and> bytes_at m (p + 76) (le32 (mi_vbe_mode_info i)) \<and>
      bytes_at m (p + 80) (le16 (mi_vbe_mode i)) \<and> bytes_at m (p + 82) (le16 (mi_vbe_interface_seg i)) \<and>
      bytes_at m (p + 84) (le16 (mi_vbe_interface_off i)) \<and> bytes_at m (p + 86) (le16 (mi_vbe_interface_len i)) \<and>
      bytes_at m (p + 88) (le64 (mi_framebuffer_addr i)) \<and> bytes_at m (p + 96) (le32 (mi_framebuffer_pitch i)) \<and>
      bytes_at m (p + 100) (le32 (mi_framebuffer_width i)) \<and> bytes_at m (p + 104) (le32 (mi_framebuffer_height i)) \<and>
      bytes_at m (p + 108) (le8 (mi_framebuffer_bpp i)) \<and> bytes_at m (p + 109) (le8 (mi_framebuffer_type i)) \<and>
      bytes_at m (p + 112) (le32 (mi_color0 i)) \<and> bytes_at m (p + 116) (le32 (mi_color1 i))"
    using assms by (simp add: info_struct_def bytes_at_append add.commute [of _ p])
  have f: "rd32 m p = Some (mi_flags i)" "rd32 m (p + 4) = Some (mi_mem_lower i)"
    "rd32 m (p + 8) = Some (mi_mem_upper i)" "rd32 m (p + 12) = Some (mi_boot_device i)"
    "rd32 m (p + 16) = Some (mi_cmdline i)" "rd32 m (p + 20) = Some (mi_mods_count i)"
    "rd32 m (p + 24) = Some (mi_mods_addr i)" "rd32 m (p + 28) = Some (mi_u0 i)"
    "rd32 m (p + 32) = Some (mi_u1 i)" "rd32 m (p + 36) = Some (mi_u2 i)"
    "rd32 m (p + 40) = Some (mi_u3 i)" "rd32 m (p + 44) = Some (mi_mmap_length i)"
    "rd32 m (p + 48) = Some (mi_mmap_addr i)" "rd32 m (p + 52) = Some (mi_drives_length i)"
    "rd32 m (p + 56) = Some (mi_drives_addr i)" "rd32 m (p + 60) = Some (mi_config_table i)"
    "rd32 m (p + 64) = Some (mi_boot_loader_name i)" "rd32 m (p + 68) = Some (mi_apm_table i)"
    "rd32 m (p + 72) = Some (mi_vbe_control_info i)" "rd32 m (p + 76) = Some (mi_vbe_mode_info i)"
    "rd16 m (p + 80) = Some (mi_vbe_mode i)" "rd16 m (p + 82) = Some (mi_vbe_interface_seg i)"
    "rd16 m (p + 84) = Some (mi_vbe_interface_off i)" "rd16 m (p + 86) = Some (mi_vbe_interface_len i)"
    "rd64 m (p + 88) = Some (mi_framebuffer_addr i)" "rd32 m (p + 96) = Some (mi_framebuffer_pitch i)"
    "rd32 m (p + 100) = Some (mi_framebuffer_width i)" "rd32 m (p + 104) = Some (mi_framebuffer_height i)"
    "rd m (p + 108) = Some (mi_framebuffer_bpp i)" "rd m (p + 109) = Some (mi_framebuffer_type i)"
    "rd32 m (p + 112) = Some (mi_color0 i)" "rd32 m (p + 116) = Some (mi_color1 i)"
    using b by (simp_all add: rd64_le64 rd32_le32 rd16_le16 rd_le8)
  show ?thesis by (simp add: load_info_def f)
qed

section \<open>What the kernel reads, and what the loader reads\<close>

text \<open>The fields that \<open>init_alloc\<close> and \<open>init_vesa\<close> read.\<close>

definition fb_of :: "multiboot_info \<Rightarrow> multiboot_fb" where
  "fb_of i = \<lparr>mb_framebuffer_addr = mi_framebuffer_addr i, mb_framebuffer_width = mi_framebuffer_width i,
     mb_framebuffer_height = mi_framebuffer_height i, mb_framebuffer_pitch = mi_framebuffer_pitch i,
     mb_framebuffer_bpp = mi_framebuffer_bpp i, mb_framebuffer_type = mi_framebuffer_type i,
     mb_red_field_position = color_byte 0 i, mb_green_field_position = color_byte 2 i,
     mb_blue_field_position = color_byte 4 i\<rparr>"

definition load_header :: "bmem \<Rightarrow> nat \<Rightarrow> multiboot_header option" where
  "load_header m p = do {
     magic' \<leftarrow> rd32 m p; flags' \<leftarrow> rd32 m (p + 4); checksum' \<leftarrow> rd32 m (p + 8);
     header_addr' \<leftarrow> rd32 m (p + 12); load_addr' \<leftarrow> rd32 m (p + 16); load_end_addr' \<leftarrow> rd32 m (p + 20);
     bss_end_addr' \<leftarrow> rd32 m (p + 24); entry_addr' \<leftarrow> rd32 m (p + 28);
     mode_type' \<leftarrow> rd32 m (p + 32); width' \<leftarrow> rd32 m (p + 36); height' \<leftarrow> rd32 m (p + 40); depth' \<leftarrow> rd32 m (p + 44);
     Some \<lparr>mh_magic = magic', mh_flags = flags', mh_checksum = checksum', mh_header_addr = header_addr',
       mh_load_addr = load_addr', mh_load_end_addr = load_end_addr', mh_bss_end_addr = bss_end_addr',
       mh_entry_addr = entry_addr', mh_mode_type = mode_type', mh_width = width', mh_height = height', mh_depth = depth'\<rparr> }"

text \<open>The header that boot/boot.asm puts into the section \<open>.multiboot\<close>.\<close>

definition asm_header :: "u8 list" where
  "asm_header = (let fl = 1 OR 2 OR 4; mg = 0x1BADB002 in
     le32 mg @ le32 fl @ le32 (- (mg + fl)) @ le32 0 @ le32 0 @ le32 0 @ le32 0 @ le32 0 @
     le32 0 @ le32 1920 @ le32 1080 @ le32 0)"

text \<open>The boot loader finds in it the magic number, a checksum that makes the three words add up to 0, and the
  requests for aligned modules, for the memory and for a video mode.\<close>

theorem asm_header_accepted:
  assumes "bytes_at m p asm_header"
  shows "\<exists>h. load_header m p = Some h \<and> mh_magic h = MULTIBOOT_HEADER_MAGIC \<and> mh_magic h + mh_flags h + mh_checksum h = 0 \<and>
     mh_flags h = MULTIBOOT_PAGE_ALIGN OR MULTIBOOT_MEMORY_INFO OR MULTIBOOT_VIDEO_MODE \<and>
     mh_flags h AND MULTIBOOT_AOUT_KLUDGE = 0 \<and> mh_width h = 1920 \<and> mh_height h = 1080"
proof -
  have "bytes_at m p (le32 0x1BADB002) \<and> bytes_at m (p + 4) (le32 7) \<and> bytes_at m (p + 8) (le32 (- 0x1BADB009)) \<and>
      bytes_at m (p + 12) (le32 0) \<and> bytes_at m (p + 16) (le32 0) \<and> bytes_at m (p + 20) (le32 0) \<and>
      bytes_at m (p + 24) (le32 0) \<and> bytes_at m (p + 28) (le32 0) \<and> bytes_at m (p + 32) (le32 0) \<and>
      bytes_at m (p + 36) (le32 1920) \<and> bytes_at m (p + 40) (le32 1080) \<and> bytes_at m (p + 44) (le32 0)"
    using assms by (simp add: asm_header_def bytes_at_append Let_def add.commute [of _ p])
  then have "rd32 m p = Some 0x1BADB002" "rd32 m (p + 4) = Some 7" "rd32 m (p + 8) = Some (- 0x1BADB009)"
      "rd32 m (p + 12) = Some 0" "rd32 m (p + 16) = Some 0" "rd32 m (p + 20) = Some 0" "rd32 m (p + 24) = Some 0"
      "rd32 m (p + 28) = Some 0" "rd32 m (p + 32) = Some 0" "rd32 m (p + 36) = Some 1920" "rd32 m (p + 40) = Some 1080"
      "rd32 m (p + 44) = Some 0"
    by (simp_all only: rd32_le32)
  then show ?thesis
    by (simp add: load_header_def MULTIBOOT_HEADER_MAGIC_def MULTIBOOT_PAGE_ALIGN_def MULTIBOOT_MEMORY_INFO_def
        MULTIBOOT_VIDEO_MODE_def MULTIBOOT_AOUT_KLUDGE_def)
qed

end
