(* ===== verification/ShellProofs.thy ===== *)
theory ShellProofs
  imports Kmain
begin

text \<open>
  What becomes of a line of input in kernel/shell.c, and the start of the kernel.
\<close>

section \<open>Finding a command\<close>

fun position :: "'a list \<Rightarrow> 'a \<Rightarrow> nat \<Rightarrow> nat option" where
  "position [] x i = None"
| "position (y # ys) x i = (if x = y then Some i else position ys x (i + 1))"

lemma strip_word:
  assumes "32 \<notin> set s"
  shows "strip_end s = s" and "takeWhile (\<lambda>c. c = 32) s = []"
proof -
  have "dropWhile (\<lambda>c. c = 32) t = t" if "32 \<notin> set t" for t :: "u8 list" using that by (cases t) auto
  then show "strip_end s = s" using assms by (simp add: strip_end_def)
  show "takeWhile (\<lambda>c. c = 32) s = []" using assms by (cases s) auto
qed

lemma trim_word:
  assumes "cstr m p s" and "32 \<notin> set s" and "2 \<le> length s"
  shows "trim m p = Some (p, m)"
proof -
  have "skip_front m p 0 (length s) = Some 0" "skip_back m p (length s) = Some (length s)"
    using skip_front_cstr [of m p 0 s] skip_back_cstr [of s m p] assms strip_word [OF assms(2)]
    by (simp_all add: cstr_nth rd_def)
  moreover have "m[p + length s := 0] = m" using assms(1) by (metis cstr_nth list_update_id)
  ultimately show ?thesis
    using strlen_cstr [OF assms(1)] assms(1,3) by (simp add: trim_def wr_def cstr_nth)
qed

text \<open>The search compares the first word of the line with the names of the commands and gives the
  number of the first that is equal to it, of a word of at least two characters; it changes nothing.\<close>

theorem find_command_matches:
  assumes "cstr m arg w" and "32 \<notin> set w" and "2 \<le> length w" and "list_all2 (cstr m) cs names"
  shows "find_command cs i arg m = Some (position names w i, m)"
  using assms(4)
proof (induction arbitrary: i rule: list_all2_induct)
  case (Cons c cs name names)
  have "strcmp m arg c = Some (first_difference w name)" "first_difference w name = 0 \<longleftrightarrow> w = name"
    using strcmp_loop_cstr [of m arg 0 w c name] first_difference_0 [of w name] assms(1) Cons.hyps(1)
    by (simp_all add: strcmp_def cstr_nth)
  then show ?case using Cons.IH trim_word [OF assms(1-3)] by simp
qed simp

text \<open>The names of the commands one behind the other, and the word "ps" behind them.\<close>

definition name_bytes :: bmem where
  "name_bytes = concat (map (\<lambda>s. bytes s @ [0]) commands)"

definition demo_names :: bmem where
  "demo_names = name_bytes @ [112, 115, 0]"

definition demo_strs :: "nat list" where
  "demo_strs = [0, 5, 14, 19, 22, 28, 35, 40]"

lemma demo_names_at: "list_all2 (cstr demo_names) demo_strs (map bytes commands)" "cstr demo_names 45 [112, 115]"
  by code_simp+

theorem find_command_matches_witness: "find_command demo_strs 0 45 demo_names = Some (Some 3, demo_names)"
proof -
  have "position (map bytes commands) [112, 115] 0 = Some 3" by code_simp
  then show ?thesis using find_command_matches [OF demo_names_at(2) _ _ demo_names_at(1), of 0] by simp
qed

section \<open>An empty line\<close>

lemma read_args_empty:
  assumes "cstr (bm s) (kb e) [10]" and "cstr (bm s) (blank e) [32]" and "blank e + 1 < kb e \<or> kb e + 1 < blank e"
  shows "read_args e s = None"
proof -
  let ?m = "(bm s)[kb e := 0]"
  have k: "kb e + 1 < length (bm s)" using assms(1) by (simp add: rd_def split: if_splits)
  have c: "cstr ?m (kb e) []" using k by (simp add: rd_def)
  have d: "cstr ?m (blank e) [32]"
    by (rule cstr_frame [OF assms(2)]) (use assms(3) in \<open>auto simp: nth_list_update\<close>)
  have "strtok ?m (tok s) (Some (kb e)) (blank e) = Some (None, Some (kb e), ?m)"
    using strtok_step(1) [OF c d, where arg = "Some (kb e)" and old = "tok s"] by simp
  then show ?thesis
    using strlen_cstr [OF assms(1)] k by (simp add: read_args_def wr_def next_token_def)
qed

text \<open>Enter on an empty line: the line holds only the newline, there is no first token, and its length
  is asked for all the same, of a NULL string.\<close>

theorem run_line_empty:
  assumes "line_buffer (lines (m_tty (sm s)) (dline e)) = Some (10 # 0 # b)" and "length b = 1022"
    and "kb e + 1024 \<le> length (bm s)" and "cstr (bm s) (blank e) [32]"
    and "blank e + 1 < kb e \<or> kb e + 1024 \<le> blank e"
  shows "run_line e s = None"
proof -
  let ?m = "take (kb e) (bm s) @ (10 # 0 # b) @ drop (kb e + 1024) (bm s)"
  have len: "length ?m = length (bm s)" using assms(2,3) by simp
  have "cstr ?m (kb e) [10]" using assms(2,3) by (simp add: rd_def nth_append)
  moreover have "cstr ?m (blank e) [32]"
    by (rule cstr_frame [OF assms(4) len])
       (use assms(2,3,5) in \<open>auto simp: nth_append nth_Cons' min_def\<close>)
  ultimately have none: "read_args e s' = None" if "bm s' = ?m" for s'
    using that assms(5) by (intro read_args_empty) auto
  have "line_outbufn (on_screen f (m_tty (sm s))) (dline e) (Some (take 1024 (drop (kb e) (bm s)))) 1024 =
      Some (1024, Some (10 # 0 # b))" for f
    using assms(1-3) by (simp add: line_outbufn_def on_screen_def copy_bytes_def)
  then show ?thesis using none by (simp add: run_line_def Let_def)
qed

definition demo_env :: shell_env where
  "demo_env = \<lparr>kb = 16, blank = 2, command_strs = [], command_functions = [], dline = 0x6000, sh_stdin = 0x7000,
     waiter_fn = 0, aux_addr = 0\<rparr>"

definition demo_shell :: shell where
  "demo_shell = \<lparr>sm = demo_machine\<lparr>m_tty := upd_line 0x6000 (\<lambda>r. r\<lparr>line_buffer := Some (10 # 0 # replicate 1022 0)\<rparr>) demo_line\<rparr>,
     bm = [0, 0, 32] @ replicate 1100 0, tok = None, shell_p = 0x9000, shell_cursor_on = False\<rparr>"

theorem run_line_empty_witness: "run_line demo_env demo_shell = None"
  by (rule run_line_empty [of _ _ "replicate 1022 0"])
     (simp_all add: demo_env_def demo_shell_def upd_line_def rd_def)

section \<open>ps\<close>

fun ps_rows :: "kstate \<Rightarrow> u32 list \<Rightarrow> machine \<Rightarrow> machine option" where
  "ps_rows k [] s = Some s"
| "ps_rows k (p # qs) s = Option.bind (ps_row k p s) (ps_rows k qs)"

lemma ps_rows_Nil: "ps_rows k [] = Some"
  by (rule ext) simp

lemma ps_loop_rows:
  "links heap_ops (nodes k) (map PNode qs @ [AllTail]) \<Longrightarrow> n_next (nodes k AllTail) = None \<Longrightarrow>
     ps_loop k (Some (hd (map PNode qs @ [AllTail]))) s = ps_rows k qs s"
proof (induction qs arbitrary: s)
  case Nil
  then show ?case by (subst ps_loop.simps) (simp add: list_hasNext_def)
next
  case (Cons p qs)
  let ?rest = "map PNode qs @ [AllTail]"
  have nxt: "n_next (nodes k (PNode p)) = Some (hd ?rest)" and links: "links heap_ops (nodes k) ?rest"
    using Cons.prems(1) by (cases qs, auto)+
  have "ps_loop k (Some (hd ?rest)) = ps_rows k qs"
    using Cons.IH [OF links Cons.prems(2)] by (rule ext)
  then show ?case
    using nxt by (subst ps_loop.simps) (simp add: list_hasNext_def list_get_next_def)
qed

text \<open>What a row needs: ASCII names, and a pid that is no negative number.\<close>

definition printable_proc :: "kstate \<Rightarrow> u32 \<Rightarrow> bool" where
  "printable_proc k p \<longleftrightarrow> ascii (bytes (p_name (prc k p))) \<and> ascii (bytes (t_name (thr k (active_thread (prc k p))))) \<and>
     0 \<le> sint (pid (prc k p))"

lemma dec_string_digits:
  assumes "0 \<le> n" and "n < 2 ^ 31"
  shows "\<exists>t. dec_string n = Some t \<and> ascii t"
proof -
  obtain m s where m: "int_to_string static_str n = Some m" "cstr m 0 s" "\<forall>c\<in>set s. is_digit c"
    using int_to_string_digits [OF assms, of static_str] by (auto simp: static_str_def)
  have "0 \<le> sint c" if "c \<in> set s" for c
  proof -
    have "uint c \<le> 57" using m(3) that by (simp add: is_digit_def)
    then have "sint c = uint c" unfolding sint_uint by (intro signed_take_bit_int_eq_self) (simp_all add: order_trans [OF _ uint_ge_0])
    then show ?thesis by simp
  qed
  then show ?thesis using m(1) cstring_at_of_cstr [OF m(2)] by (simp add: dec_string_def ascii_def)
qed

lemma ps_cells_ok:
  "cursor_ok d \<Longrightarrow> \<forall>s\<in>set ss. ascii s \<Longrightarrow> \<exists>d'. ps_cells ss a d = Some d' \<and> cursor_ok d'"
proof (induction ss arbitrary: a d)
  case (Cons s ss)
  let ?x = "fst (ps_get_alignment default_dis d a)"
  have "cursor_ok (vesa_set_cursor ?x (vesa_get_cursor_y d) d)" using cursor_ok_set [OF Cons.prems(1)] .
  then obtain d' where "vesa_print s (vesa_set_cursor ?x (vesa_get_cursor_y d) d) = Some d'" "cursor_ok d'"
    using vd.puts_ok [of _ s] Cons.prems(2) by auto
  then show ?case
    using Cons.IH [of d'] Cons.prems(2) by (simp add: ps_get_alignment_def Let_def display_putats_def)
qed simp

lemma newline_ok:
  assumes "cursor_ok (screen (m_tty s))"
  shows "\<exists>d. say [CHR 0x0A] [] s = Some (set_screen d s) \<and> cursor_ok d"
  using kprintf_lit_vesa [OF assms, of "bytes [CHR 0x0A]" "[]" "[10]"] by (auto simp: say_def bytes_def)

lemma p_state_ascii: "ascii (bytes (p_state_to_string t))"
  by (cases t) (simp_all add: bytes_def)

lemma set_screen_simps [simp]:
  "screen (m_tty (set_screen d s)) = d" "m_k (set_screen d s) = m_k s" "set_screen d' (set_screen d s) = set_screen d' s"
  by (simp_all add: set_screen_def)

lemma ps_row_ok:
  assumes "cursor_ok (screen (m_tty s))" and "printable_proc k p"
  shows "\<exists>d. ps_row k p s = Some (set_screen d s) \<and> cursor_ok d"
proof -
  have "sint (pid (prc k p)) < 2 ^ 31" using sint_lt [of "pid (prc k p)"] by simp
  then obtain i where i: "dec_string (sint (pid (prc k p))) = Some i" "ascii i"
    using assms(2) dec_string_digits unfolding printable_proc_def by blast
  let ?ss = "[bytes (p_name (prc k p)), i, bytes (p_state_to_string (proc_get_state k p)),
      bytes (t_name (thr k (active_thread (prc k p))))]"
  have "\<forall>s\<in>set ?ss. ascii s" using i assms(2) p_state_ascii by (simp add: printable_proc_def)
  then obtain d where "ps_cells ?ss 0 (screen (m_tty s)) = Some d" "cursor_ok d"
    using ps_cells_ok [OF assms(1)] by blast
  then show ?thesis using i newline_ok [of "set_screen d s"] by (auto simp: ps_row_def)
qed

lemma ps_rows_ok:
  "cursor_ok (screen (m_tty s)) \<Longrightarrow> \<forall>p\<in>set qs. printable_proc k p \<Longrightarrow>
     \<exists>d. ps_rows k qs s = Some (set_screen d s) \<and> cursor_ok d"
proof (induction qs arbitrary: s)
  case Nil
  then show ?case by (intro exI [of _ "screen (m_tty s)"]) (simp add: set_screen_def)
next
  case (Cons p qs)
  have "printable_proc k p" using Cons.prems(2) by simp
  then obtain d where d: "ps_row k p s = Some (set_screen d s)" "cursor_ok d"
    using ps_row_ok [OF Cons.prems(1)] by blast
  then show ?case using Cons.IH [of "set_screen d s"] Cons.prems(2) by auto
qed

text \<open>C33: \<open>ps\<close> terminates: behind the header it prints one row for each process of the list of all
  processes, in the order of the list, and changes only the screen.\<close>

theorem ps_prints_processes:
  assumes "dll heap_ops (nodes (m_k s)) all_procs (map PNode (p # procs))"
    and "cursor_ok (screen (m_tty s))" and "\<forall>q\<in>set (p # procs). printable_proc (m_k s) q"
  shows "\<exists>d d'. ps_cells [bytes ''name'', bytes ''pid'', bytes ''state'', bytes (''active thread'' @ [CHR 0x0A])]
       0 (screen (m_tty s)) = Some d \<and>
     ps_rows (m_k s) (p # procs) (set_screen d s) = Some (set_screen d' s) \<and>
     ps s = Some (set_screen d' s) \<and> cursor_ok d'"
proof -
  have d: "links heap_ops (nodes (m_k s)) (AllHead # map PNode (p # procs) @ [AllTail])"
    "n_next (nodes (m_k s) AllTail) = None"
    using assms(1) by (simp_all add: dll_def spine_def all_procs_def)
  let ?ss = "[bytes ''name'', bytes ''pid'', bytes ''state'', bytes (''active thread'' @ [CHR 0x0A])]"
  have "\<forall>s\<in>set ?ss. ascii s" by (simp add: bytes_def)
  then obtain h where h: "ps_cells ?ss 0 (screen (m_tty s)) = Some h" "cursor_ok h"
    using ps_cells_ok [OF assms(2)] by blast
  obtain d' where d': "ps_rows (m_k s) (p # procs) (set_screen h s) = Some (set_screen d' s)" "cursor_ok d'"
    using ps_rows_ok [of "set_screen h s", OF _ assms(3)] h(2) by auto
  have "links heap_ops (nodes (m_k s)) (map PNode (p # procs) @ [AllTail])" using d(1) by simp
  from ps_loop_rows [OF this d(2)] have "ps s = ps_rows (m_k s) (p # procs) (set_screen h s)"
    using dll_peek [OF assms(1)] h(1) by (simp add: ps_def Let_def proc_peek_all_list_def)
  then show ?thesis using h(1) d' by auto
qed

definition demo_ps :: machine where
  "demo_ps = demo_machine\<lparr>m_k := demo_procs\<rparr>"

theorem ps_prints_processes_witness:
  "\<exists>d d'. ps_row demo_procs 0x9000 (set_screen d demo_ps) = Some (set_screen d' demo_ps) \<and>
     ps demo_ps = Some (set_screen d' demo_ps)"
proof -
  have dll: "dll heap_ops (nodes (m_k demo_ps)) all_procs (map PNode [0x9000])"
    by (simp add: dll_def spine_def all_procs_def demo_ps_def demo_procs_def)
  have ok: "cursor_ok (screen (m_tty demo_ps))"
    using demo_line_typing(1) by (simp add: demo_ps_def typing_def kb_ok_def line_ok_def)
  have "\<forall>q\<in>set [0x9000]. printable_proc (m_k demo_ps) q"
    by (simp add: printable_proc_def demo_ps_def demo_procs_def bytes_def demo_state_def demo_process_def demo_thread_def)
  from ps_prints_processes [OF dll ok this] show ?thesis
    by (auto simp: demo_ps_def ps_rows_Nil bind_Some_id)
qed

end
