(* ===== verification/Blocks.thy ===== *)
theory Blocks
  imports Bench
begin

text \<open>
  What becomes of a small block of \<open>kmalloc\<close> (kernel/kalloc.c, libk/slab.c) when it is given to \<open>kfree\<close>, in a memory
  that \<open>init_alloc\<close> has set up and of whose slabs some are taken: the two slabs of the block stay taken, and a
  page in the middle of the memory of the slab allocator is handed out to the next caller of \<open>palloc\<close>.
\<close>

section \<open>Small blocks\<close>

text \<open>\<open>rows m n t\<close>: the 560 descriptors stand for the slabs behind the table, those in \<open>t\<close> are taken.\<close>

definition rows :: "pmem \<Rightarrow> nat \<Rightarrow> nat set \<Rightarrow> bool" where
  "rows m n t \<longleftrightarrow> (\<forall>j<560. slab_addr m (page_addr (map_end n) + 8 * of_nat j) = page_addr (map_end n) + 5120 + of_nat j * 64 \<and>
     slab_is_free m (page_addr (map_end n) + 8 * of_nat j) = (j \<notin> t))"

lemma rows_ready: "mem_ready k n u \<Longrightarrow> rows (kmem k) n {}"
  by (simp add: mem_ready_def set_up_def rows_def)

lemma slab_take:
  assumes tab: "rows m n {0..<r}" and r: "r < 560"
    and s: "sdata s = page_addr (map_end n)" "slab_size s = 64" "total_num_slabs s = 5120"
  shows "\<exists>m'. slab_alloc m s 1 = Some (page_addr (map_end n) + 5120 + of_nat r * 64, m',
       s\<lparr>free_mem_size := free_mem_size s - 64\<rparr>) \<and> rows m' n {0..<Suc r} \<and>
     (\<forall>q. q \<noteq> page_addr (map_end n) + 8 * of_nat r + 4 \<longrightarrow> m' q = m q)"
proof -
  let ?d = "page_addr (map_end n)"
  have free: "free_run m ?d j 1 = (r \<le> j)" if "j < 560" for j
    using tab that by (auto simp: free_run_def rows_def)
  have addr: "slab_addr m (?d + 8 * of_nat r) = ?d + 5120 + of_nat r * 64" using tab r by (simp add: rows_def)
  obtain res where res: "slab_alloc m s 1 = Some res" using s(2) by (simp add: slab_alloc_def)
  have "alloc_outcome m s 5120 1 0 res"
    using slab_alloc_result [OF _ _ res] s by simp
  moreover have "free_run m ?d r 1" using free [OF r] by simp
  ultimately obtain i where i: "free_run m ?d i 1" "\<And>j. j < i \<Longrightarrow> \<not> free_run m ?d j 1"
      "res = (slab_addr m (desc s i), mark_slabs m (desc s i) 1 False, s\<lparr>free_mem_size := free_mem_size s - 64\<rparr>)"
    using r unfolding alloc_outcome_def s(1,2) by auto
  have "\<not> i < r" using free [of i] i(1) r by auto
  moreover have "\<not> r < i" using i(2) [of r] free [OF r] by auto
  ultimately have "i = r" by simp
  let ?m = "mark_slabs m (?d + 8 * of_nat r) 1 False"
  have "res = (?d + 5120 + of_nat r * 64, ?m, s\<lparr>free_mem_size := free_mem_size s - 64\<rparr>)"
    using i(3) addr \<open>i = r\<close> s(1) by (simp add: desc_def)
  moreover have "rows ?m n {0..<Suc r}"
    unfolding rows_def using tab r mark_slabs_spec [of r 1 _ m ?d False] by (auto simp: rows_def)
  moreover have "?m q = m q" if "q \<noteq> ?d + 8 * of_nat r + 4" for q
    using that by (intro mark_slabs_frame) simp
  ultimately show ?thesis using res by blast
qed

text \<open>A change outside of the table.\<close>

lemma rows_frame:
  assumes "rows m n t" and "n < 2 ^ 19"
    and "\<And>q. 4194304 + 4096 * map_end n \<le> unat q \<Longrightarrow> unat q < 4194304 + 4096 * map_end n + 4480 \<Longrightarrow> m' q = m q"
  shows "rows m' n t"
proof -
  have "m' (page_addr (map_end n) + 8 * of_nat j) = m (page_addr (map_end n) + 8 * of_nat j)"
    "m' (page_addr (map_end n) + 8 * of_nat j + 4) = m (page_addr (map_end n) + 8 * of_nat j + 4)" if "j < 560" for j
    using unat_desc [OF assms(2) that, of 0] unat_desc [OF assms(2) that, of 4] that by (auto intro!: assms(3))
  then show ?thesis using assms(1) by (simp add: rows_def slab_addr_def slab_is_free_def)
qed

lemma unat_slab:
  assumes "n < 2 ^ 19" and "o' < 40960"
  shows "unat (page_addr (map_end n) + of_nat o') = 4194304 + 4096 * map_end n + o'"
proof -
  have "unat (of_nat o' :: u32) = o'" using assms(2) by (intro unat_of_nat_u32) simp
  then show ?thesis using unat_map_end [OF assms(1)] map_end_bound [OF assms(1)] assms(2)
    by (subst unat_add_nowrap) simp_all
qed

lemma small_request:
  assumes "0 < sz" and "sz < (64 :: u32)"
  shows "ROUND_UP sz 64 = 64" and "sz div 64 = 0"
proof -
  have s: "0 < unat sz" "unat sz < 64" using assms by (simp_all add: word_less_nat_alt)
  then have "unat (63 + sz) = 63 + unat sz" by (subst unat_add_nowrap) simp_all
  then have "unat ((sz + 64 - 1) div 64) = (63 + unat sz) div 64" by (simp add: unat_div)
  also have "\<dots> = 1" using s by (intro div_nat_eqI) simp_all
  finally have "(sz + 64 - 1) div 64 = 1" by (simp add: word_unat_eq_iff)
  then show "ROUND_UP sz 64 = 64" by (simp add: ROUND_UP_def)
  show "sz div 64 = 0" using s by (simp add: word_unat_eq_iff unat_div)
qed

lemma mult8_add: "unat p mod 8 = 0 \<Longrightarrow> unat p + 8 * i < 2 ^ 32 \<Longrightarrow> unat (p + of_nat (8 * i) :: u32) mod 8 = 0"
proof -
  assume p: "unat p mod 8 = 0" "unat p + 8 * i < 2 ^ 32"
  then have "unat (of_nat (8 * i) :: u32) = 8 * i" by (intro unat_of_nat_u32) simp
  then have "unat (p + of_nat (8 * i)) = unat p + 8 * i" using p(2) by (subst unat_add_nowrap) simp_all
  then show ?thesis using p(1) by simp
qed

section \<open>The allocators with some slabs taken\<close>

text \<open>\<open>slab_at n j\<close>: the slab with number \<open>j\<close>; \<open>slab_page n j\<close>: the page it lies in.\<close>

definition slab_at :: "nat \<Rightarrow> nat \<Rightarrow> u32" where
  "slab_at n j = page_addr (map_end n) + 5120 + of_nat j * 64"

definition slab_page :: "nat \<Rightarrow> nat \<Rightarrow> nat" where
  "slab_page n j = map_end n + (5120 + 64 * j) div 4096"

text \<open>\<open>blocks_ok k n u r qs\<close>: of the \<open>n\<close> pages those with a number in \<open>u\<close> are in use, the first \<open>r\<close> slabs are taken, and
  the list of allocations has the nodes \<open>qs\<close>, which lie in these slabs.\<close>

definition blocks_ok :: "'o kalloc \<Rightarrow> nat \<Rightarrow> nat set \<Rightarrow> nat \<Rightarrow> u32 list \<Rightarrow> bool" where
  "blocks_ok k n u r qs \<longleftrightarrow> lval (palloc_lock k) = 0 \<and> lval (malloc_lock k) = 0 \<and>
     free_map k = \<lparr>map_p = start_addr, bits = of_nat n\<rparr> \<and> n < 2 ^ 19 \<and> map_end n + 10 < n \<and>
     (\<forall>x. unat x < n \<longrightarrow> page_used k x = (unat x \<in> u)) \<and>
     sdata (default_slab k) = page_addr (map_end n) \<and> slab_size (default_slab k) = 64 \<and>
     total_num_slabs (default_slab k) = 5120 \<and> free_mem_size (default_slab k) = 64 * of_nat (560 - r) \<and>
     rows (kmem k) n {0..<r} \<and> dll mem_ops (kmem k) (allocations k) qs \<and> (\<forall>q\<in>set qs. \<exists>j<r. q = slab_at n j + 8) \<and>
     head (allocations k) \<in> node_addrs \<and> tail (allocations k) \<in> node_addrs \<and>
     unat (head (allocations k)) < 4194304 \<and> unat (tail (allocations k)) < 4194304"

lemma blocks_ok_ready: "mem_ready k n u \<Longrightarrow> free_mem_size (default_slab k) = 35840 \<Longrightarrow> blocks_ok k n u 0 []"
  using rows_ready [of k n u] by (simp add: mem_ready_def blocks_ok_def)

lemma unat_slab_at:
  assumes "n < 2 ^ 19" and "j < 560" and "i < 64"
  shows "unat (slab_at n j + of_nat i) = 4199424 + 4096 * map_end n + 64 * j + i"
proof -
  have "slab_at n j + of_nat i = page_addr (map_end n) + of_nat (5120 + 64 * j + i)" by (simp add: slab_at_def algebra_simps)
  then have "unat (slab_at n j + of_nat i) = unat (page_addr (map_end n) + of_nat (5120 + 64 * j + i))" by (simp only:)
  also have "\<dots> = 4194304 + 4096 * map_end n + (5120 + 64 * j + i)" using assms by (intro unat_slab) simp_all
  finally show ?thesis by simp
qed

lemma unat_slab_fields:
  assumes "n < 2 ^ 19" and "j < 560"
  shows "unat (slab_at n j) = 4199424 + 4096 * map_end n + 64 * j"
    and "unat (slab_at n j + 4) = 4199428 + 4096 * map_end n + 64 * j"
    and "unat (slab_at n j + 8) = 4199432 + 4096 * map_end n + 64 * j"
    and "unat (slab_at n j + 12) = 4199436 + 4096 * map_end n + 64 * j"
  using unat_slab_at [OF assms, of 0] unat_slab_at [OF assms, of 4] unat_slab_at [OF assms, of 8] unat_slab_at [OF assms, of 12]
  by simp_all

text \<open>The nodes of the list, and where the fields of a node lie.\<close>

lemma blocks_nodes:
  assumes "blocks_ok k n u r qs" and "r \<le> 560" and "q \<in> set (spine (allocations k) qs)"
  shows "q \<in> node_addrs" and "unat (q + 4) = unat q + 4"
    and "unat q < 4194300 \<or> (\<exists>j<r. q = slab_at n j + 8)"
proof -
  have n: "n < 2 ^ 19" and q: "q = head (allocations k) \<or> q = tail (allocations k) \<or> (\<exists>j<r. q = slab_at n j + 8)"
    using assms(1,3) by (auto simp: blocks_ok_def spine_def)
  show "q \<in> node_addrs"
  proof -
    have "slab_at n j + 8 \<in> node_addrs" if "j < r" for j
    proof -
      have u: "unat (slab_at n j + 8) = 4199432 + 4096 * map_end n + 64 * j" using n that assms(2) unat_slab_fields(3) by simp
      then have "unat (slab_at n j + 8) = 8 * (524929 + 512 * map_end n + 8 * j)" by simp
      then have "unat (slab_at n j + 8) mod 8 = 0" by simp
      then show ?thesis using u by (auto simp: node_addrs_def)
    qed
    then show ?thesis using q assms(1) by (auto simp: blocks_ok_def)
  qed
  then have m: "unat q mod 8 = 0" by (simp add: node_addrs_def)
  then have "unat q + 4 < 4294967296" using unat_u32_less [of q] by presburger
  then show "unat (q + 4) = unat q + 4" by (subst unat_add_nowrap) simp_all
  have "unat q < 4194304 \<or> (\<exists>j<r. q = slab_at n j + 8)" using q assms(1) by (auto simp: blocks_ok_def)
  moreover have "unat q < 4194300" if "unat q < 4194304" using m that by presburger
  ultimately show "unat q < 4194300 \<or> (\<exists>j<r. q = slab_at n j + 8)" by blast
qed

text \<open>A change outside of the list.\<close>

lemma blocks_list_kept:
  assumes ok: "blocks_ok k n u r qs" "r \<le> 560"
    and same: "\<And>q. unat q < 4194304 \<Longrightarrow> m q = kmem k q"
      "\<And>q. 4199424 + 4096 * map_end n \<le> unat q \<Longrightarrow> unat q < 4199424 + 4096 * map_end n + 64 * r \<Longrightarrow> m q = kmem k q"
  shows "dll mem_ops m (allocations k) qs"
proof (rule dll_same)
  show "dll mem_ops (kmem k) (allocations k) qs" using ok(1) by (simp add: blocks_ok_def)
  have "m q = kmem k q \<and> m (q + 4) = kmem k (q + 4)" if "q \<in> set (spine (allocations k) qs)" for q
    using blocks_nodes(3) [OF ok that]
  proof
    assume "unat q < 4194300"
    then show ?thesis using blocks_nodes(2) [OF ok that] by (auto intro!: same(1))
  next
    assume "\<exists>j<r. q = slab_at n j + 8"
    then obtain j where j: "j < r" "q = slab_at n j + 8" by blast
    have "unat (slab_at n j + 8) = 4199432 + 4096 * map_end n + 64 * j"
      using ok j(1) unat_slab_fields(3) [of n j] by (simp add: blocks_ok_def)
    then show ?thesis using blocks_nodes(2) [OF ok that] j by (auto intro!: same(2))
  qed
  then show "same_on mem_ops (set (spine (allocations k) qs)) (kmem k) m" by (auto simp: same_on_def mem_ops_def)
qed

lemma page_used_frame:
  assumes "blocks_ok k n u r qs" and "\<And>q. 4194304 \<le> unat q \<Longrightarrow> unat q < 4194304 + 4096 * map_end n \<Longrightarrow> kmem k' q = kmem k q"
    and "free_map k' = free_map k" and "unat x < n"
  shows "page_used k' x = page_used k x"
proof -
  let ?w = "elem_addr (free_map k) (elem_idx x)"
  have "unat ?w = 4194304 + 4 * (unat x div 32)" using assms(1) by (intro map_elem_addr) (simp add: blocks_ok_def)
  then have "4194304 \<le> unat ?w" "unat ?w < 4194304 + 4096 * map_end n"
    using map_in_reserved [OF assms(4)] by (simp_all add: map_end_def)
  then have "kmem k' ?w = kmem k ?w" by (rule assms(2))
  then show ?thesis unfolding page_used_def assms(3) by (rule test_cong)
qed

text \<open>A request of less than 64 bytes takes the next slab for the block and the one behind it for its entry in
  the list of allocations.\<close>

lemma kmalloc_small:
  assumes ok: "blocks_ok k n u r qs" and sz: "0 < sz" "sz < 64" and r: "r + 2 \<le> 560"
  shows "\<exists>k1. kmalloc k sz = Some (slab_at n r, k1) \<and> blocks_ok k1 n u (r + 2) ((slab_at n (r + 1) + 8) # qs)"
proof -
  let ?s = "default_slab k" and ?d = "page_addr (map_end n)" and ?l = "allocations k" and ?a = "slab_at n r"
  let ?b = "slab_at n (r + 1)" and ?f = "free_mem_size (default_slab k)" and ?h = "head (allocations k)"
  have n: "n < 2 ^ 19" and s: "sdata ?s = ?d" "slab_size ?s = 64" "total_num_slabs ?s = 5120" "?f = 64 * of_nat (560 - r)"
    and lock: "lval (malloc_lock k) = 0" "lval (palloc_lock k) = 0"
    and lst: "dll mem_ops (kmem k) ?l qs" and b: "free_map k = \<lparr>map_p = start_addr, bits = of_nat n\<rparr>"
    using ok by (simp_all add: blocks_ok_def)
  have tot: "total_num_slabs (?s\<lparr>free_mem_size := f\<rparr>) = 5120" for f using s(3) by (simp add: total_num_slabs_def)
  have r0: "r < 560" "Suc r < 560" using r by simp_all
  obtain m1 where m1: "slab_alloc (kmem k) ?s 1 = Some (?a, m1, ?s\<lparr>free_mem_size := ?f - 64\<rparr>)"
      "rows m1 n {0..<Suc r}" "\<And>q. q \<noteq> ?d + 8 * of_nat r + 4 \<Longrightarrow> m1 q = kmem k q"
    using slab_take [of "kmem k" n r ?s] ok s r0 by (auto simp: blocks_ok_def slab_at_def)
  let ?s1 = "?s\<lparr>free_mem_size := ?f - 64\<rparr>"
  obtain m2 where m2: "slab_alloc m1 ?s1 1 = Some (?b, m2, ?s1\<lparr>free_mem_size := ?f - 128\<rparr>)"
      "rows m2 n {0..<Suc (Suc r)}" "\<And>q. q \<noteq> ?d + 8 * of_nat (Suc r) + 4 \<Longrightarrow> m2 q = m1 q"
    using slab_take [OF m1(2) r0(2), of ?s1] s tot by (auto simp: slab_at_def)
  have ud: "unat (?d + 8 * of_nat r + 4) = 4194308 + 4096 * map_end n + 8 * r"
      "unat (?d + 8 * of_nat (Suc r) + 4) = 4194316 + 4096 * map_end n + 8 * r"
    using unat_desc [OF n r0(1), of 4] unat_desc [OF n r0(2), of 4] by simp_all
  have ub: "unat ?b = 4199488 + 4096 * map_end n + 64 * r" "unat (?b + 4) = 4199492 + 4096 * map_end n + 64 * r"
      "unat (?b + 8) = 4199496 + 4096 * map_end n + 64 * r" "unat (?b + 12) = 4199500 + 4096 * map_end n + 64 * r"
    using unat_slab_fields [OF n r0(2)] by simp_all
  let ?m3 = "m2(?b := ?a, ?b + 4 := 1)" and ?e = "?b + 8"
  have m3: "?m3 q = kmem k q" if "q \<noteq> ?d + 8 * of_nat r + 4" "q \<noteq> ?d + 8 * of_nat (Suc r) + 4"
      "unat q < 4199488 + 4096 * map_end n + 64 * r" for q
    using that ub m1(3) m2(3) by auto
  have low: "?m3 q = kmem k q" if "unat q < 4194304 \<or> 4199424 + 4096 * map_end n \<le> unat q"
      "unat q < 4199424 + 4096 * map_end n + 64 * r" for q
    using that ud r0 by (intro m3) auto
  have l3: "dll mem_ops ?m3 ?l qs" by (rule blocks_list_kept [OF ok]) (use r low in auto)
  note nd = blocks_nodes [OF ok]
  have e: "?e \<in> node_addrs"
  proof -
    have "unat ?e = 8 * (524937 + 512 * map_end n + 8 * r)" using ub by simp
    then have "unat ?e mod 8 = 0" by simp
    then show ?thesis using ub by (auto simp: node_addrs_def)
  qed
  have fresh: "?e \<notin> set (spine ?l qs)"
  proof
    assume "?e \<in> set (spine ?l qs)"
    then obtain j where "j < r" "?e = slab_at n j + 8" using nd(3) [of ?e] ub r by auto
    then show False using ub(3) unat_slab_fields(3) [OF n, of j] r by simp
  qed
  obtain m4 where m4: "list_insert_front mem_ops ?m3 ?h ?e = Some m4" "dll mem_ops m4 ?l (?e # qs)"
    using ms.insert_front_dll [OF l3 _ e fresh] nd(1) r by auto
  let ?x = "if qs = [] then tail ?l else hd qs"
  have x: "?x \<in> set (spine ?l qs)" "?h \<in> set (spine ?l qs)" by (auto simp: spine_def)
  have "?m3 ?h = ?x" using dll_head_next [OF l3] by (simp add: mem_ops_def of_ptr_def split: if_splits)
  moreover have "?x \<noteq> 0" "?h \<noteq> ?x + 4" using nd(1) x r node_fields_apart by (auto simp: node_addrs_def)
  ultimately have "m4 = ((?m3(?x + 4 := ?e))(?e := ?x, ?h := ?e, ?e + 4 := ?h))"
    using m4(1) e by (auto simp: list_insert_front_def mem_ops_def of_ptr_def ptr_of_def Let_def node_addrs_def)
  then have q4: "m4 q = ?m3 q" if "q \<noteq> ?x + 4" "q \<noteq> ?e" "q \<noteq> ?h" "q \<noteq> ?e + 4" for q using that by simp
  have mid: "m4 q = m2 q" if q: "4194304 \<le> unat q" "unat q < 4199424 + 4096 * map_end n" for q
  proof -
    have "unat y < 4194300 \<or> 4199424 + 4096 * map_end n \<le> unat y" if "y \<in> set (spine ?l qs)" for y
      using nd(3) [OF _ that] r unat_slab_fields(3) [OF n] by fastforce
    then have "q \<noteq> ?x + 4" "q \<noteq> ?h" using x nd(2) [OF _ x(1)] r q by fastforce+
    moreover have "q \<noteq> ?b" "q \<noteq> ?b + 4" "q \<noteq> ?e" "q \<noteq> ?b + 12" using q(2) ub by auto
    moreover have "?e + 4 = ?b + 12" by simp
    ultimately show ?thesis using q4 [of q] by (simp only: fun_upd_other not_False_eq_True simp_thms)
  qed
  have "slabs_for ?s sz = 1" "slabs_for ?s SIZEOF_ALLOCATION = 1"
    using small_request [OF sz] s(2) by (simp_all add: slabs_for_def ROUND_UP_def)
  have f: "unat ?f = 64 * (560 - r)"
  proof -
    have "?f = of_nat (64 * (560 - r))" using s(4) by simp
    then show ?thesis by (simp only:) (subst unat_of_nat_u32, simp_all)
  qed
  have "\<exists>k1. kmalloc k sz = Some (?a, k1) \<and> kmem k1 = m4 \<and> lval (malloc_lock k1) = 0 \<and> palloc_lock k1 = palloc_lock k \<and>
      free_map k1 = free_map k \<and> allocations k1 = ?l \<and> default_slab k1 = ?s1\<lparr>free_mem_size := ?f - 128\<rparr>"
  proof -
    have "?a \<noteq> 0" "?b \<noteq> 0" using unat_slab_fields(1) [OF n r0(1)] ub(1) by auto
    moreover have "\<not> ?f < 64" using f r by (simp add: word_less_nat_alt)
    ultimately show ?thesis
      using small_request(1) [OF sz] \<open>slabs_for ?s sz = 1\<close> \<open>slabs_for ?s SIZEOF_ALLOCATION = 1\<close> s(2) lock(1) m1(1) m2(1) m4(1)
      by (simp add: kmalloc_def Let_def list_insert_def)
  qed
  then obtain k1 where k1: "kmalloc k sz = Some (?a, k1)" "kmem k1 = m4" "lval (malloc_lock k1) = 0"
      "palloc_lock k1 = palloc_lock k" "free_map k1 = free_map k" "allocations k1 = ?l"
      "default_slab k1 = ?s1\<lparr>free_mem_size := ?f - 128\<rparr>"
    by blast
  have map: "m4 q = kmem k q" if "4194304 \<le> unat q" "unat q < 4194304 + 4096 * map_end n" for q
  proof -
    have "q \<noteq> ?d + 8 * of_nat r + 4" "q \<noteq> ?d + 8 * of_nat (Suc r) + 4" using that(2) ud by auto
    then show ?thesis using mid [of q] m1(3) m2(3) that by simp
  qed
  have "rows m4 n {0..<r + 2}" by (rule rows_frame [of m2]) (use m2(2) n mid in simp_all)
  moreover have "page_used k1 x = page_used k x" if "unat x < n" for x
    by (rule page_used_frame [OF ok _ k1(5) that]) (use k1(2) map in simp)
  moreover have "?f - 128 = 64 * of_nat (560 - (r + 2))" using s(4) r by (simp add: of_nat_diff)
  moreover have "\<exists>j<r + 2. q = slab_at n j + 8" if "q \<in> set (?e # qs)" for q
  proof (cases "q = ?e")
    case True
    then show ?thesis by (intro exI [of _ "r + 1"]) simp
  next
    case False
    then have "q \<in> set qs" using that by simp
    then have "\<exists>j<r. q = slab_at n j + 8" using ok unfolding blocks_ok_def by blast
    then obtain j where "j < r" "q = slab_at n j + 8" by blast
    then show ?thesis by (intro exI [of _ j]) simp
  qed
  ultimately show ?thesis
    using k1 ok m4(2) tot by (simp add: blocks_ok_def)
qed

text \<open>The address of the block lies in the page behind the one with the table.\<close>

lemma page_idx_inside:
  assumes "i < 2 ^ 18" and "o' < 4096"
  shows "page_idx (page_addr i + of_nat o') = of_nat i"
proof -
  have d: "page_addr i + of_nat o' - start_addr = of_nat (4096 * i + o')" by (simp add: page_addr_def)
  have "signed_take_bit 31 (int (4096 * i + o')) = int (4096 * i + o')"
    using assms by (intro signed_take_bit_int_eq_self) simp_all
  then have "sint (of_nat (4096 * i + o') :: u32) = int (4096 * i + o')" by (subst signed_of_nat) simp
  then have "sint (page_addr i + of_nat o' - start_addr) = int (4096 * i + o')" unfolding d .
  moreover have "int (4096 * i + o') sdiv 4096 = int i"
  proof -
    have "int (4096 * i + o') sdiv 4096 = int ((4096 * i + o') div 4096)"
      by (simp add: signed_divide_int_def sgn_if zdiv_int)
    then show ?thesis using assms(2) by simp
  qed
  ultimately show ?thesis by (simp add: page_idx_def)
qed

text \<open>Giving one page back that is not the first: it is free afterwards, whether or not it was in use, but
  the call fails.\<close>

lemma pfree_one:
  assumes "lval (palloc_lock k) = 0" and "free_map k = \<lparr>map_p = start_addr, bits = of_nat n\<rparr>" and "n < 2 ^ 19"
    and "0 < i" "i + 1 < n" and "page_idx a = of_nat i"
  shows "\<exists>m. pfree k a = Some (- MEM_FREE_FAIL, k\<lparr>kmem := m\<rparr>) \<and>
     (\<forall>x. unat x < n \<longrightarrow> page_used (k\<lparr>kmem := m\<rparr>) x = (page_used k x \<and> unat x \<noteq> i)) \<and>
     (\<forall>q. unat q < 4194304 \<or> 4194304 + 4096 * map_end n \<le> unat q \<longrightarrow> m q = kmem k q)"
proof -
  have b: "unat (bits (free_map k)) = n" "map_p (free_map k) = start_addr" using assms(2,3) unat_small [of n] by simp_all
  have i: "i < 2 ^ 19" "i + unat (1 :: u32) < unat (bits (free_map k))" "unat (of_nat i :: u32) = i"
    using assms(3,5) b unat_small [of i] by simp_all
  have "page_idx a = page_idx (page_addr i)" using assms(6) page_idx_addr [OF i(1)] by simp
  then have e: "pfree k a = pfree_mult k (page_addr i) 1" by (simp only: pfree_def pfree_mult_def)
  show ?thesis
  proof (cases "page_used k (of_nat i)")
    case True
    then have "bit_run (kmem k) (free_map k) True i 1" unfolding bit_run_one page_used_def by simp
    then obtain m where m: "pfree_mult k (page_addr i) 1 = Some (- MEM_FREE_FAIL, k\<lparr>kmem := m\<rparr>)"
        "\<And>x. page_used (k\<lparr>kmem := m\<rparr>) x = (page_used k x \<and> \<not> (i \<le> unat x \<and> unat x < i + 1))"
      using pfree_mult_run [OF assms(1) i(1,2)] assms(4) by auto
    have "m q = kmem k q" if "4194304 + 4096 * map_end n \<le> unat q" for q
      using pfree_mult_keeps [OF assms(1) i(1,2) b(2) _ m(1)] that b(1) by (simp add: map_end_def)
    moreover have "m q = kmem k q" if "unat q < 4194304" for q
      using pfree_mult_low [OF assms(1) b(2) that m(1)] by simp
    ultimately show ?thesis using e m by (intro exI [of _ m]) auto
  next
    case False
    have "bitmap_count_range (kmem k) (free_map k) (of_nat i) 1 = (if page_used k (of_nat i) then 1 else 0)"
    proof -
      have "(of_nat i :: u32) < of_nat i + 1" using i(3) assms(3,5) unat_add_nowrap [of "of_nat i" 1]
        by (simp add: word_less_nat_alt)
      then show ?thesis by (simp add: bitmap_count_range_def for_loop.simps page_used_def)
    qed
    then have "pfree k a = Some (- MEM_FREE_FAIL, k)"
      using False assms(6) by (simp add: pfree_def pfree_mult_unlocked [OF assms(1)])
    moreover have "page_used k x = (page_used k x \<and> unat x \<noteq> i)" for x
      using False i(3) by (cases "unat x = i") (auto simp: word_unat_eq_iff)
    ultimately show ?thesis by (intro exI [of _ "kmem k"]) simp
  qed
qed

lemma slab_page_bounds: "j < 560 \<Longrightarrow> slab_page n j \<le> map_end n + 9" and slab_page_pos: "0 < slab_page n j"
  by (simp_all add: slab_page_def map_end_def)

lemma slab_page_idx:
  assumes "n < 2 ^ 19" and "j < 560"
  shows "page_idx (slab_at n j) = of_nat (slab_page n j)"
proof -
  let ?o = "5120 + 64 * j"
  have "of_nat (4096 * map_end n + ?o) = (of_nat (4096 * slab_page n j + ?o mod 4096) :: u32)"
    by (simp only: slab_page_def add_mult_distrib2 add.assoc mult_div_mod_eq)
  then have "slab_at n j = page_addr (slab_page n j) + of_nat (?o mod 4096)"
    by (simp add: slab_at_def page_addr_def algebra_simps)
  moreover have "slab_page n j < 2 ^ 18" using slab_page_bounds [OF assms(2), of n] map_end_bound [OF assms(1)] by simp
  ultimately show ?thesis using page_idx_inside [of "slab_page n j" "?o mod 4096"] by simp
qed

text \<open>\<open>kfree\<close> of any of the slabs that are taken fails: they all stay taken, and its page is free afterwards.\<close>

lemma kfree_small:
  assumes ok: "blocks_ok k n u r qs" and j: "j < r" "r \<le> 560"
  shows "\<exists>m. kfree k (slab_at n j) = Some (- MEM_FREE_FAIL, k\<lparr>malloc_lock := \<lparr>lval = 0, owner = owner (malloc_lock k)\<rparr>, kmem := m\<rparr>) \<and>
     blocks_ok (k\<lparr>malloc_lock := \<lparr>lval = 0, owner = owner (malloc_lock k)\<rparr>, kmem := m\<rparr>) n (u - {slab_page n j}) r qs"
proof -
  have n: "n < 2 ^ 19" "map_end n + 10 < n" "free_map k = \<lparr>map_p = start_addr, bits = of_nat n\<rparr>"
    and l: "lval (malloc_lock k) = 0" "lval (palloc_lock k) = 0" and d: "dll mem_ops (kmem k) (allocations k) qs"
    using ok by (simp_all add: blocks_ok_def)
  have lk: "k\<lparr>malloc_lock := \<lparr>lval = 0, owner = owner (malloc_lock k)\<rparr>\<rparr> = k" using l(1) by (cases "malloc_lock k") simp
  have j5: "j < 560" using j by simp
  have "slab_at n j \<notin> set (spine (allocations k) qs)"
  proof
    assume "slab_at n j \<in> set (spine (allocations k) qs)"
    then obtain i where "i < r" "slab_at n j = slab_at n i + 8"
      using blocks_nodes(3) [OF ok j(2)] unat_slab_fields(1) [OF n(1) j5] by fastforce
    then have "64 * j = 8 + 64 * i" using unat_slab_fields(1) [OF n(1) j5] unat_slab_fields(3) [OF n(1), of i] j(2) by simp
    then show False by presburger
  qed
  then have f: "kfree k (slab_at n j) = pfree k (slab_at n j)" by (rule kfree_goes_to_pfree [OF l(1) d])
  have "slab_page n j + 1 < n" using slab_page_bounds [OF j5, of n] n(2) by simp
  then obtain m where m: "pfree k (slab_at n j) = Some (- MEM_FREE_FAIL, k\<lparr>kmem := m\<rparr>)"
      "\<And>x. unat x < n \<Longrightarrow> page_used (k\<lparr>kmem := m\<rparr>) x = (page_used k x \<and> unat x \<noteq> slab_page n j)"
      "\<And>q. unat q < 4194304 \<or> 4194304 + 4096 * map_end n \<le> unat q \<Longrightarrow> m q = kmem k q"
    using pfree_one [OF l(2) n(3,1) slab_page_pos _ slab_page_idx [OF n(1) j5]] by blast
  have "rows m n {0..<r}" by (rule rows_frame [of "kmem k"]) (use ok n m(3) in \<open>auto simp: blocks_ok_def\<close>)
  moreover have "dll mem_ops m (allocations k) qs" by (rule blocks_list_kept [OF ok j(2)]) (use m(3) in auto)
  ultimately have "blocks_ok (k\<lparr>kmem := m\<rparr>) n (u - {slab_page n j}) r qs"
    using ok m(2) by (simp add: blocks_ok_def)
  then show ?thesis using f m(1) lk by metis
qed

text \<open>C31: What \<open>kfree\<close> does to a small block.  With the first \<open>r\<close> slabs taken, a block of less than 64 bytes lies in
  slab \<open>r\<close>, and its entry in the list of allocations in the next one.  \<open>kfree\<close> of this block fails: both
  slabs stay taken and the entry stays in the list.  But the page with the slab, in the middle of the memory
  of the slab allocator, is marked as free: when no page in front of it is free, the next \<open>palloc\<close> hands it
  out, although the slab allocator goes on using it.\<close>

theorem kfree_gives_away_page:
  assumes "blocks_ok k n u r qs" and "0 < sz" and "sz < 64" and "r + 2 \<le> 560" and "{0..<slab_page n r} \<subseteq> u"
  shows "\<exists>k1 k2 k3. kmalloc k sz = Some (slab_at n r, k1) \<and>
     kfree k1 (slab_at n r) = Some (- MEM_FREE_FAIL, k2) \<and>
     (\<forall>j<560. slab_is_free (kmem k2) (page_addr (map_end n) + 8 * of_nat j) = (r + 2 \<le> j)) \<and>
     dll mem_ops (kmem k2) (allocations k2) ((slab_at n (r + 1) + 8) # qs) \<and>
     (\<forall>x. unat x < n \<longrightarrow> page_used k2 x = (unat x \<in> u - {slab_page n r})) \<and>
     palloc k2 = Some (page_addr (slab_page n r), k3)"
proof -
  obtain k1 where k1: "kmalloc k sz = Some (slab_at n r, k1)" "blocks_ok k1 n u (r + 2) ((slab_at n (r + 1) + 8) # qs)"
    using kmalloc_small [OF assms(1-4)] by blast
  obtain k2 where k2: "kfree k1 (slab_at n r) = Some (- MEM_FREE_FAIL, k2)"
      "blocks_ok k2 n (u - {slab_page n r}) (r + 2) ((slab_at n (r + 1) + 8) # qs)"
    using kfree_small [OF k1(2) _ assms(4), of r] by auto
  have b: "lval (palloc_lock k2) = 0" "free_map k2 = \<lparr>map_p = start_addr, bits = of_nat n\<rparr>" "n < 2 ^ 19"
      "\<And>x. unat x < n \<Longrightarrow> page_used k2 x = (unat x \<in> u - {slab_page n r})"
    using k2(2) by (simp_all add: blocks_ok_def)
  have "slab_page n r < n" using k2(2) slab_page_bounds [of r n] assms(4) by (simp add: blocks_ok_def)
  moreover have "unat (bits (free_map k2)) = n" using b(2) unat_small [OF b(3)] by simp
  moreover have "{0..<slab_page n r} \<subseteq> u - {slab_page n r}" using assms(5) by auto
  ultimately obtain m where "palloc_mult k2 1 = Some (page_addr (slab_page n r), k2\<lparr>kmem := m\<rparr>)"
    using palloc_first_page [OF b(1) _ b(3,4), of "slab_page n r"] by auto
  then show ?thesis
    using k1(1) k2 b(4) by (auto simp: palloc_def blocks_ok_def rows_def)
qed

text \<open>The memory of 2816 pages that \<open>init_alloc\<close> sets up.\<close>

lemma init_alloc_free_mem: "init_alloc k mu = Some k' \<Longrightarrow> free_mem_size (default_slab k') = 35840"
  by (auto simp: init_alloc_def slab_init_def Let_def split: bind_splits if_splits prod.splits)

lemma booted_memory:
  obtains k :: "u32 kalloc" where "blocks_ok k 2816 {0..<11} 0 []"
proof -
  have e: "map_end 2816 = 1" by (simp add: map_end_def)
  have "fresh_memory 15360 (demo_pages\<lparr>kmem := \<lambda>_. 0\<rparr>) 2816"
    unfolding fresh_memory_def e by (simp add: demo_pages_def node_addrs_def)
  then obtain k where k: "init_alloc (demo_pages\<lparr>kmem := \<lambda>_. 0\<rparr>) 15360 = Some k" "mem_ready k 2816 {0..<map_end 2816 + 10}"
    using init_alloc_fresh by blast
  have "mem_ready k 2816 {0..<11}" using k(2) unfolding e by simp
  then show ?thesis using init_alloc_free_mem [OF k(1)] by (intro that blocks_ok_ready)
qed

lemma first_slab: "slab_at 2816 0 = 0x402400" "slab_page 2816 0 = 2"
  by (simp_all add: slab_at_def slab_page_def map_end_def page_addr_def)

theorem kfree_gives_away_page_witness:
  "\<exists>k :: u32 kalloc. \<exists>k1 k2 k3. kmalloc k 5 = Some (0x402400, k1) \<and> kfree k1 0x402400 = Some (- MEM_FREE_FAIL, k2) \<and>
     palloc k2 = Some (0x402000, k3)"
proof -
  obtain k :: "u32 kalloc" where k: "blocks_ok k 2816 {0..<11} 0 []" by (rule booted_memory)
  have "(0 :: u32) < 5" "(5 :: u32) < 64" "0 + 2 \<le> (560 :: nat)" "{0..<slab_page 2816 0} \<subseteq> {0..<11}"
    unfolding first_slab by simp_all
  note kfree_gives_away_page [OF k this, unfolded first_slab]
  moreover have "page_addr 2 = 0x402000" by (simp add: page_addr_def)
  ultimately show ?thesis by metis
qed

end
