(* ===== verification/Command.thy ===== *)
theory Command
  imports ShellProofs Born Blocks
begin

text \<open>
  From the keyboard to a command and back to the prompt: the line that is typed (drivers/line.c) goes through
  the queue to the shell (kernel/shell.c), which cuts it into words (libc/string.c) in a byte memory with the
  line buffer and the strings of the program, takes memory for the word (kernel/kalloc.c), and creates the
  process of the command and waits for it (kernel/proc.c, kernel/thread.c).
\<close>

section \<open>Areas of the byte memory\<close>

text \<open>A string of \<open>n\<close> characters at \<open>p\<close>, with its terminator, outside of \<open>len\<close> bytes at \<open>lo\<close>.\<close>

definition apart :: "nat \<Rightarrow> nat \<Rightarrow> nat \<Rightarrow> nat \<Rightarrow> bool" where
  "apart lo len p n \<longleftrightarrow> p + n < lo \<or> lo + len \<le> p"

definition same_but :: "nat \<Rightarrow> nat \<Rightarrow> bmem \<Rightarrow> bmem \<Rightarrow> bool" where
  "same_but lo len m m' \<longleftrightarrow> length m' = length m \<and> (\<forall>x<length m. x < lo \<or> lo + len \<le> x \<longrightarrow> m' ! x = m ! x)"

lemma cstr_apart: "cstr m p w \<Longrightarrow> same_but lo len m m' \<Longrightarrow> apart lo len p (length w) \<Longrightarrow> cstr m' p w"
  by (rule cstr_frame [of m p w m']) (auto simp: same_but_def apart_def cstr_nth)

lemma same_but_update: "lo \<le> i \<Longrightarrow> i < lo + len \<Longrightarrow> same_but lo len m (m[i := c])"
  by (auto simp: same_but_def)

lemma same_but_trans: "same_but lo len m m' \<Longrightarrow> same_but lo len m' m'' \<Longrightarrow> same_but lo len m m''"
  by (simp add: same_but_def)

text \<open>\<open>strcpy\<close> into an area that does not overlap its source.\<close>

lemma strcpy_apart:
  assumes "cstr m src w" and "dest + length w < length m" and "apart dest (length w + 1) src (length w)"
  shows "\<exists>m'. strcpy m dest src = Some (dest, m') \<and> cstr m' dest w \<and> same_but dest (length w + 1) m m'"
proof -
  let ?n = "length w + 1"
  have src: "src + ?n \<le> length m" using assms(1) by (simp add: cstr_nth)
  obtain m' where m': "copy_up m dest src 0 ?n = Some m'" "moved m dest src ?n m'"
    using copy_up_moves [of src 0 ?n m dest] src assms(2,3) by (auto simp: apart_def)
  have len: "length m' = length m" using m'(2) by (simp add: moved_def)
  have at: "m' ! (dest + i) = m ! (src + i)" if "i \<le> length w" for i
    using m'(2) that assms(2) by (simp add: moved_def)
  have "cstr m' dest w" using assms(1,2) at len by (simp add: cstr_nth)
  moreover have "same_but dest ?n m m'" using m'(2) by (auto simp: same_but_def moved_def)
  ultimately show ?thesis
    using m'(1) strlen_cstr [OF assms(1)] by (simp add: strcpy_def memcpy_def del: copy_up.simps)
qed

section \<open>The arguments of a line with one word\<close>

lemma arg_loop_end: "next_token e None s = Some (None, s') \<Longrightarrow> arg_loop e n args s = Some (args, s')"
  by (cases n) simp_all

lemma strtok_word:
  assumes "cstr m p w" and "cstr m q [32]" and "32 \<notin> set w" and "w \<noteq> []"
  shows "strtok m old (Some p) q = Some (Some p, Some (p + length w), m)"
proof -
  have "takeWhile (\<lambda>c. c = 32) w = []" "dropWhile (\<lambda>c. c = 32) w = w"
    using assms(3) strip_word(2) [of w] takeWhile_dropWhile_id [of "\<lambda>c. c = 32" w] by auto
  moreover have "dropWhile (\<lambda>c. c \<noteq> 32) w = []" using assms(3) by (auto simp: dropWhile_eq_Nil_conv)
  ultimately show ?thesis
    using strtok_step(2) [OF assms(1,2), where arg = "Some p" and old = old] assms(4) by simp
qed

lemma strtok_end:
  assumes "cstr m p []" and "cstr m q [32]"
  shows "strtok m (Some p) None q = Some (None, Some p, m)"
  using strtok_step(1) [OF assms, where arg = None and old = "Some p"] by simp

text \<open>\<open>block_at e m a n\<close>: the block for a string of \<open>n\<close> characters at \<open>a\<close> lies in the memory, beside the line
  and the strings of the program, which \<open>string_places\<close> lists with their lengths.\<close>

definition string_places :: "shell_env \<Rightarrow> (nat \<times> nat) list" where
  "string_places e = (shell_env.blank e, 1) # zip (command_strs e) (map length commands)"

definition block_at :: "shell_env \<Rightarrow> bmem \<Rightarrow> nat \<Rightarrow> nat \<Rightarrow> bool" where
  "block_at e m a n \<longleftrightarrow> a + n < length m \<and> apart a (n + 1) (kb e) 1023 \<and>
     list_all (\<lambda>(p, l). apart a (n + 1) p l) (string_places e)"

definition strings_ok :: "shell_env \<Rightarrow> bmem \<Rightarrow> bool" where
  "strings_ok e m \<longleftrightarrow> kb e + 1024 \<le> length m \<and> cstr m (shell_env.blank e) [32] \<and>
     list_all2 (cstr m) (command_strs e) (map bytes commands) \<and>
     list_all (\<lambda>(p, l). apart (kb e) 1024 p l) (string_places e)"

lemma strings_ok_frame:
  assumes "strings_ok e m" and "same_but lo len m m'" and "list_all (\<lambda>(p, l). apart lo len p l) (string_places e)"
  shows "strings_ok e m'"
proof -
  have l: "list_all2 (cstr m) (command_strs e) (map bytes commands)"
    "list_all (\<lambda>(p, l). apart lo len p l) (zip (command_strs e) (map length commands))"
    using assms(1,3) by (simp_all add: strings_ok_def string_places_def)
  have "list_all2 (cstr m') (command_strs e) (map bytes commands)"
    using l cstr_apart [OF _ assms(2)]
    by (auto simp: list_all2_conv_all_nth list_all_length bytes_def)
  moreover have "cstr m' (shell_env.blank e) [32]"
    using assms(1,3) cstr_apart [OF _ assms(2), of "shell_env.blank e" "[32]"] by (simp add: strings_ok_def string_places_def)
  ultimately show ?thesis using assms(1,2) by (simp add: strings_ok_def same_but_def)
qed

lemma read_args_word:
  assumes ok: "strings_ok e (bm s)" and line: "cstr (bm s) (kb e) (w @ [10])"
    and w: "32 \<notin> set w" "w \<noteq> []" "length w < 1023"
    and mem: "kmalloc (kmm (m_k (sm s))) (of_nat (length w)) = Some (a, k)" "block_at e (bm s) (unat a) (length w)"
  shows "\<exists>m. read_args e s = Some ([unat a], s\<lparr>tok := Some (kb e + length w), sm := set_kmm k (sm s), bm := m\<rparr>) \<and>
     cstr m (unat a) w \<and> strings_ok e m \<and> length m = length (bm s)"
proof -
  let ?m1 = "(bm s)[kb e + length w := 0]"
  have k: "kb e + length w < length (bm s)" using line by (simp add: cstr_nth)
  have s1: "same_but (kb e) 1024 (bm s) ?m1" using w(3) by (intro same_but_update) simp_all
  have ok1: "strings_ok e ?m1" by (rule strings_ok_frame [OF ok s1]) (use ok in \<open>simp add: strings_ok_def\<close>)
  have c1: "cstr ?m1 (kb e) w" using line by (auto simp: cstr_nth nth_list_update nth_append)
  have b1: "cstr ?m1 (shell_env.blank e) [32]" using ok1 by (simp add: strings_ok_def)
  have ap: "apart (unat a) (length w + 1) (kb e) 1023" using mem(2) by (simp add: block_at_def)
  obtain m where m: "strcpy ?m1 (unat a) (kb e) = Some (unat a, m)" "cstr m (unat a) w"
      "same_but (unat a) (length w + 1) ?m1 m"
    using strcpy_apart [OF c1, of "unat a"] mem(2) w(3) by (auto simp: block_at_def apart_def)
  have okm: "strings_ok e m" by (rule strings_ok_frame [OF ok1 m(3)]) (use mem(2) in \<open>simp add: block_at_def\<close>)
  have "cstr ?m1 (kb e + length w) []" using k by (simp add: rd_def)
  then have "cstr m (kb e + length w) []"
    by (rule cstr_apart [OF _ m(3)]) (use ap w(3) in \<open>auto simp: apart_def\<close>)
  then have stop: "strtok m (Some (kb e + length w)) None (shell_env.blank e) = Some (None, Some (kb e + length w), m)"
    using strtok_end okm by (simp add: strings_ok_def)
  let ?s = "s\<lparr>tok := Some (kb e + length w), sm := set_kmm k (sm s), bm := m\<rparr>"
  have "next_token e None ?s = Some (None, ?s)" using stop by (simp add: next_token_def)
  then have loop: "arg_loop e (MAX_NUM_ARGS - 1) [unat a] ?s = Some ([unat a], ?s)" by (rule arg_loop_end)
  have tok1: "strtok ?m1 (tok s) (Some (kb e)) (shell_env.blank e) = Some (Some (kb e), Some (kb e + length w), ?m1)"
    by (rule strtok_word [OF c1 b1 w(1,2)])
  have "strlen (bm s) (kb e) = Some (length w + 1)" using strlen_cstr [OF line] by simp
  then have "read_args e s = Some ([unat a], ?s)"
    using k tok1 strlen_cstr [OF c1] mem(1) m(1) loop
    by (simp add: read_args_def wr_def next_token_def new_arg_def)
  moreover have "length m = length (bm s)" using m(3) by (simp add: same_but_def)
  ultimately show ?thesis using m(2) okm by blast
qed

section \<open>The line\<close>

text \<open>The shell behind the search for the command, with the argument in the block at \<open>a\<close>.\<close>

definition line_read :: "shell_env \<Rightarrow> u32 kalloc \<Rightarrow> bmem \<Rightarrow> nat \<Rightarrow> shell \<Rightarrow> shell" where
  "line_read e k m n s = s\<lparr>tok := Some (kb e + n),
     sm := set_kmm k ((sm s)\<lparr>m_tty := on_screen (dis_hcur default_dis) (m_tty (sm s))\<rparr>), bm := m\<rparr>"

lemma line_buffer_copied:
  assumes "strings_ok e m" and "length b = 1024" and "cstr b 0 v"
  shows "same_but (kb e) 1024 m (take (kb e) m @ b @ drop (kb e + 1024) m)" (is "same_but _ _ _ ?m")
    and "cstr (take (kb e) m @ b @ drop (kb e + 1024) m) (kb e) v"
proof -
  have k: "kb e + 1024 \<le> length m" using assms(1) by (simp add: strings_ok_def)
  then show "same_but (kb e) 1024 m ?m"
    using assms(2) by (auto simp: same_but_def nth_append min_def)
  show "cstr ?m (kb e) v"
    using k assms(2,3) by (auto simp: cstr_nth nth_append min_def)
qed

lemma run_line_word:
  assumes ok: "strings_ok e (bm s)" and b: "line_buffer (lines (m_tty (sm s)) (dline e)) = Some b" "length b = 1024"
    and line: "cstr b 0 (w @ [10])" and w: "32 \<notin> set w" "2 \<le> length w"
    and mem: "kmalloc (kmm (m_k (sm s))) (of_nat (length w)) = Some (a, k)" "block_at e (bm s) (unat a) (length w)"
  shows "\<exists>m. cstr m (unat a) w \<and> strings_ok e m \<and> length m = length (bm s) \<and>
     run_line e s = do {
       (c, s) \<leftarrow> (case position (map bytes commands) w 0 of
          None \<Rightarrow> Some (Returns (), line_read e k m (length w) s)
        | Some i \<Rightarrow> run_command e i (line_read e k m (length w) s));
       (case c of
          Switched \<Rightarrow> Some (Switched, s)
        | Returns _ \<Rightarrow> do { s \<leftarrow> finish_line e [unat a] s; Some (Returns (), s) }) }"
proof -
  let ?t = "on_screen (dis_hcur default_dis) (m_tty (sm s))"
  let ?m = "take (kb e) (bm s) @ b @ drop (kb e + 1024) (bm s)"
  let ?s = "s\<lparr>sm := (sm s)\<lparr>m_tty := ?t\<rparr>, bm := ?m\<rparr>"
  note cp = line_buffer_copied [OF ok b(2) line]
  have ok1: "strings_ok e ?m" by (rule strings_ok_frame [OF ok cp(1)]) (use ok in \<open>simp add: strings_ok_def\<close>)
  have len: "length ?m = length (bm s)" using cp(1) by (simp add: same_but_def)
  have kb: "1024 \<le> length (bm s) - kb e" using ok by (auto simp: strings_ok_def)
  have n: "length w < 1023" using line b(2) by (simp add: cstr_nth)
  have out: "line_outbufn ?t (dline e) (Some (take 1024 (drop (kb e) (bm s)))) 1024 = Some (1024, Some b)"
    using b kb by (simp add: line_outbufn_def on_screen_def copy_bytes_def)
  have "w \<noteq> []" using w(2) by auto
  obtain m where m: "read_args e ?s = Some ([unat a], ?s\<lparr>tok := Some (kb e + length w), sm := set_kmm k (sm ?s), bm := m\<rparr>)"
      "cstr m (unat a) w" "strings_ok e m" "length m = length ?m"
    using read_args_word [of e ?s w a k] ok1 cp(2) w(1) \<open>w \<noteq> []\<close> n mem len by (auto simp: block_at_def)
  have "find_command (command_strs e) 0 (unat a) m = Some (position (map bytes commands) w 0, m)"
    using find_command_matches [OF m(2) w] m(3) by (simp add: strings_ok_def)
  then have "run_line e s = do {
       (c, s) \<leftarrow> (case position (map bytes commands) w 0 of
          None \<Rightarrow> Some (Returns (), line_read e k m (length w) s)
        | Some i \<Rightarrow> run_command e i (line_read e k m (length w) s));
       (case c of
          Switched \<Rightarrow> Some (Switched, s)
        | Returns _ \<Rightarrow> do { s \<leftarrow> finish_line e [unat a] s; Some (Returns (), s) }) }"
    using out m(1) by (cases "position (map bytes commands) w 0") (simp_all add: run_line_def Let_def line_read_def)
  then show ?thesis using m(2-4) len by auto
qed

section \<open>Reading the characters\<close>

definition with_stdin :: "shell_env \<Rightarrow> std_stream \<Rightarrow> shell \<Rightarrow> shell" where
  "with_stdin e st s = s\<lparr>sm := (sm s)\<lparr>m_tty := (m_tty (sm s))\<lparr>streams := (streams (m_tty (sm s)))(sh_stdin e := st)\<rparr>\<rparr>\<rparr>"

lemma with_stdin_simps [simp]:
  "streams (m_tty (sm (with_stdin e st s))) (sh_stdin e) = st"
  "with_stdin e st' (with_stdin e st s) = with_stdin e st' s"
  "m_k (sm (with_stdin e st s)) = m_k (sm s)" "bm (with_stdin e st s) = bm s" "tok (with_stdin e st s) = tok s"
  "lines (m_tty (sm (with_stdin e st s))) = lines (m_tty (sm s))"
  "screen (m_tty (sm (with_stdin e st s))) = screen (m_tty (sm s))"
  by (simp_all add: with_stdin_def)

text \<open>The characters before a newline are dropped from the queue; the line itself is in the line buffer.\<close>

lemma read_stdin_line:
  "std_inv (streams (m_tty (sm s)) (sh_stdin e)) \<Longrightarrow> std_contents (streams (m_tty (sm s)) (sh_stdin e)) = w @ 10 # cs \<Longrightarrow>
     10 \<notin> set w \<Longrightarrow> NOCHAR \<notin> set w \<Longrightarrow>
     \<exists>st. std_inv st \<and> std_contents st = cs \<and> read_stdin e s = do {
       (r, s) \<leftarrow> run_line e (with_stdin e st s);
       (case r of Switched \<Rightarrow> Some (Switched, s) | Returns _ \<Rightarrow> read_stdin e s) }"
proof (induction w arbitrary: s)
  case Nil
  then obtain st where st: "get_std (streams (m_tty (sm s)) (sh_stdin e)) = Some (10, st)" "std_inv st" "std_contents st = cs"
    using std.get_first [OF Nil.prems(1), of 10 cs] by auto
  then have "read_char e s = Some (10, with_stdin e st s)" by (simp add: read_char_def with_stdin_def Let_def)
  then show ?case using st(2,3) by (intro exI [of _ st]) (simp add: read_stdin.simps [of e s])
next
  case (Cons c w)
  then obtain st where st: "get_std (streams (m_tty (sm s)) (sh_stdin e)) = Some (c, st)" "std_inv st" "std_contents st = w @ 10 # cs"
    using std.get_first [OF Cons.prems(1), of c "w @ 10 # cs"] by auto
  let ?s = "with_stdin e st s"
  have "read_char e s = Some (c, ?s)" using st(1) by (simp add: read_char_def with_stdin_def Let_def)
  then have "read_stdin e s = read_stdin e ?s"
    using Cons.prems(3,4) by (auto simp: read_stdin.simps [of e s])
  then show ?case using Cons.IH [of ?s] st(2,3) Cons.prems(3,4) by simp
qed

section \<open>Back to the prompt\<close>

text \<open>The shell waits for a line: nothing is typed, nothing is left to read, and the strings of the program
  are where they were.\<close>

definition prompt :: "shell_env \<Rightarrow> shell \<Rightarrow> bool" where
  "prompt e s \<longleftrightarrow> strings_ok e (bm s) \<and> typing default_dis cursor_ok (m_tty (sm s)) (dline e) \<and>
     sh_stdin e = l_out (lines (m_tty (sm s)) (dline e)) \<and>
     line_buffer (lines (m_tty (sm s)) (dline e)) = Some (replicate 1024 0) \<and>
     buffer_i (lines (m_tty (sm s)) (dline e)) = 0 \<and> out_chars (m_tty (sm s)) (dline e) = []"

lemma memset_first: "dest < length m \<Longrightarrow> 0 < n \<Longrightarrow> memset m dest c n = Some (dest, m[dest := word_of_int c])"
  using memset_memcmp_first_byte [of dest m dest dest n c] by blast

lemma say_prompt:
  assumes "cursor_ok (screen (m_tty s))"
  shows "\<exists>d. say ''> '' [] s = Some (set_screen d s) \<and> cursor_ok d"
  using kprintf_lit_vesa [OF assms, of "bytes ''> ''" "[]" "[62, 32]"] by (auto simp: say_def bytes_def)

text \<open>Emptying the queue and the line.\<close>

definition line_reset :: "shell_env \<Rightarrow> std_stream \<Rightarrow> vesa tty \<Rightarrow> vesa tty" where
  "line_reset e st t = upd_line (dline e) (\<lambda>r. r\<lparr>line_buffer := Some (replicate 1024 0), buffer_i := 0\<rparr>)
     (t\<lparr>streams := (streams t)(sh_stdin e := st)\<rparr>)"

lemma line_flush_zero:
  assumes "line_buffer (lines t ld) = Some b" and "length b = 1024"
  shows "line_flush t ld = Some (SUCC, upd_line ld (\<lambda>r. r\<lparr>line_buffer := Some (replicate 1024 0), buffer_i := 0\<rparr>) t)"
  using assms fill_array [of 1024 b 0 0] by (simp add: line_flush_def)

lemma line_reset_typing:
  assumes "typing default_dis cursor_ok t (dline e)" and "std_inv st" and "sh_stdin e = l_out (lines t (dline e))"
    and "cursor_ok d"
  shows "typing default_dis cursor_ok ((line_reset e st t)\<lparr>screen := d\<rparr>) (dline e)"
  using assms by (auto simp: typing_def kb_ok_def line_ok_def dis_of_def line_reset_def upd_line_def)

lemma finish_line_prompt:
  assumes ok: "strings_ok e (bm s)" and ty: "typing default_dis cursor_ok (m_tty (sm s)) (dline e)"
    and inp: "sh_stdin e = l_out (lines (m_tty (sm s)) (dline e))"
    and b: "line_buffer (lines (m_tty (sm s)) (dline e)) = Some b" "length b = 1024"
    and arg: "cstr (bm s) (unat a) w" "w \<noteq> []" "block_at e (bm s) (unat a) (length w)"
    and free: "kfree (kmm (m_k (sm s))) a = Some (r, k)"
  shows "\<exists>s'. finish_line e [unat a] s = Some s' \<and> prompt e s' \<and> m_k (sm s') = (m_k (sm s))\<lparr>kmm := k\<rparr>"
proof -
  let ?t = "m_tty (sm s)" and ?st = "streams (m_tty (sm s)) (sh_stdin e)"
  have inv: "std_inv ?st" "cursor_ok (screen ?t)" using ty inp by (auto simp: typing_def kb_ok_def line_ok_def)
  let ?fresh = "?st\<lparr>stream := replicate 256 0, s_in := 0, s_out := 0\<rparr>"
  have st: "flush_std ?st = Some ?fresh" using inv(1) by (intro flush_std_zero) (simp_all add: std_inv_def)
  have st0: "std_inv ?fresh" "std_contents ?fresh = []"
    using inv(1) by (simp_all add: std_inv_def std_contents_def ring_def)
  let ?u = "line_reset e ?fresh ?t"
  have fl: "line_flush (?t\<lparr>streams := (streams ?t)(sh_stdin e := ?fresh)\<rparr>) (dline e) = Some (SUCC, ?u)"
    using b line_flush_zero [of "?t\<lparr>streams := (streams ?t)(sh_stdin e := ?fresh)\<rparr>"] by (simp add: line_reset_def)
  let ?m1 = "(bm s)[unat a := 0]" and ?m2 = "(bm s)[unat a := 0, kb e := 0]"
  let ?s1 = "s\<lparr>sm := set_kmm k ((sm s)\<lparr>m_tty := ?u\<rparr>), bm := ?m1\<rparr>"
  have la: "unat a < length (bm s)" "kb e < length ?m1" using arg(3) ok by (auto simp: block_at_def strings_ok_def)
  have fr: "free_args [unat a] (s\<lparr>sm := (sm s)\<lparr>m_tty := ?u\<rparr>\<rparr>) = Some ?s1"
    using strlen_cstr [OF arg(1)] arg(2) la(1) memset_first [of "unat a" "bm s" "length w" 0] free by simp
  have "cursor_ok (screen (m_tty (sm ?s1)))" using inv(2) by (simp add: line_reset_def upd_line_def set_kmm_def)
  then obtain d where d: "say ''> '' [] (sm ?s1) = Some (set_screen d (sm ?s1))" "cursor_ok d"
    using say_prompt by blast
  let ?s' = "?s1\<lparr>bm := ?m2, sm := set_screen d (sm ?s1)\<rparr>"
  have fin: "finish_line e [unat a] s = Some ?s'"
    unfolding finish_line_def Let_def using st fl fr d(1) memset_first [OF la(2), of 1024 0] by (simp del: free_args.simps)
  have m1: "same_but (unat a) (length w + 1) (bm s) ?m1" by (intro same_but_update) simp_all
  have ok1: "strings_ok e ?m1"
    by (rule strings_ok_frame [OF ok m1]) (use arg(3) in \<open>simp add: block_at_def\<close>)
  have m2: "same_but (kb e) 1024 ?m1 ?m2" by (intro same_but_update) simp_all
  have "strings_ok e ?m2"
    by (rule strings_ok_frame [OF ok1 m2]) (use ok in \<open>simp add: strings_ok_def\<close>)
  moreover have "m_tty (sm ?s') = ?u\<lparr>screen := d\<rparr>" by (simp add: set_screen_def set_kmm_def)
  moreover have "typing default_dis cursor_ok (?u\<lparr>screen := d\<rparr>) (dline e)"
    by (rule line_reset_typing [OF ty st0(1) inp d(2)])
  ultimately have "prompt e ?s'"
    using inp st0(2) by (simp add: prompt_def out_chars_def line_reset_def upd_line_def)
  then show ?thesis using fin by (auto simp: set_kmm_def set_screen_def)
qed

section \<open>Typing a line\<close>

definition with_tty :: "vesa tty \<Rightarrow> shell \<Rightarrow> shell" where
  "with_tty t s = s\<lparr>sm := (sm s)\<lparr>m_tty := t\<rparr>\<rparr>"

lemma with_tty_simps [simp]:
  "m_tty (sm (with_tty t s)) = t" "m_k (sm (with_tty t s)) = m_k (sm s)" "bm (with_tty t s) = bm s"
  by (simp_all add: with_tty_def)

lemma typed_text:
  assumes "map (key_char cap) ks = w @ [10]" and "\<forall>k\<in>set ks. plain k"
  shows "NOCHAR \<notin> set w" and "0 \<notin> set (w @ [10])"
proof -
  have "0 < sint c" if "c \<in> set (w @ [10])" for c
    using that assms(2) key_char_ascii unfolding assms(1) [symmetric] by (auto simp: plain_def)
  then have "\<forall>c\<in>set (w @ [10]). 0 < sint c" by blast
  then show "NOCHAR \<notin> set w" "0 \<notin> set (w @ [10])" by (auto dest!: bspec)
qed

lemma typed_line:
  assumes pr: "prompt e s" and keys: "\<forall>k\<in>set ks. plain k"
    and w: "map (key_char (caps (m_tty (sm s)))) ks = w @ [10]" "length w < 255"
  shows "\<exists>t b. keys (m_tty (sm s)) ks = Some t \<and> typing default_dis cursor_ok t (dline e) \<and>
     sh_stdin e = l_out (lines t (dline e)) \<and> line_buffer (lines t (dline e)) = Some b \<and> length b = 1024 \<and>
     cstr b 0 (w @ [10]) \<and> std_contents (streams t (sh_stdin e)) = w @ [10]"
proof -
  let ?u = "m_tty (sm s)" and ?ld = "dline e"
  have p: "typing default_dis cursor_ok ?u ?ld" "line_buffer (lines ?u ?ld) = Some (replicate 1024 0)"
    "buffer_i (lines ?u ?ld) = 0" "out_chars ?u ?ld = []" "sh_stdin e = l_out (lines ?u ?ld)"
    using pr by (simp_all add: prompt_def)
  have n: "length ks = length w + 1" using arg_cong [OF w(1), of length] by simp
  obtain t where t: "keys ?u ks = Some t" "typing default_dis cursor_ok t ?ld"
      "typed ?u ?ld (replicate 1024 0) (w @ [10]) t"
    using vl.typing_keys [OF p(1,2) _ keys] p(3) n w by auto
  let ?b = "(w @ [10]) @ drop (length w + 1) (replicate 1024 0)"
  have b: "line_buffer (lines t ?ld) = Some ?b" "l_out (lines t ?ld) = l_out (lines ?u ?ld)"
    "out_chars t ?ld = w @ [10]"
    using t(3) p(3,4) w(2) by (simp_all add: typed_def Let_def)
  have "cstr ?b 0 (w @ [10])"
    using typed_text(2) [OF w(1) keys] w(2) by (simp add: cstr_nth nth_append)
  then show ?thesis
    using t(1,2) b p(5) w(2) by (intro exI [of _ t] exI [of _ ?b]) (simp add: out_chars_def)
qed

lemma typing_screen:
  assumes "typing default_dis cursor_ok t ld" and "cursor_ok d"
  shows "typing default_dis cursor_ok (t\<lparr>screen := d\<rparr>) ld"
  using assms by (auto simp: typing_def kb_ok_def line_ok_def dis_of_def)

lemma typing_streams:
  assumes "typing default_dis cursor_ok t ld" and "std_inv st"
  shows "typing default_dis cursor_ok (t\<lparr>streams := (streams t)(l_out (lines t ld) := st)\<rparr>) ld"
  using assms by (auto simp: typing_def kb_ok_def line_ok_def dis_of_def)

lemma typing_cursor: "typing default_dis cursor_ok t ld \<Longrightarrow> cursor_ok (screen t) \<and> std_inv (streams t (l_out (lines t ld)))"
  by (simp add: typing_def kb_ok_def line_ok_def)

section \<open>A line that is no command\<close>

text \<open>What happens to a typed line, up to the command: \<open>s1\<close> is the shell behind the search.\<close>

lemma line_to_command:
  assumes pr: "prompt e s" and keys: "\<forall>k\<in>set ks. plain k"
    and w: "map (key_char (caps (m_tty (sm s)))) ks = w @ [10]" "length w < 255" "2 \<le> length w" "10 \<notin> set w" "32 \<notin> set w"
    and mem: "kmalloc (kmm (m_k (sm s))) (of_nat (length w)) = Some (a, k)" "block_at e (bm s) (unat a) (length w)"
  shows "\<exists>t s1. keys (m_tty (sm s)) ks = Some t \<and>
     read_stdin e (with_tty t s) = do {
       (c, s) \<leftarrow> (case position (map bytes commands) w 0 of
          None \<Rightarrow> Some (Returns (), s1) | Some i \<Rightarrow> run_command e i s1);
       (case c of
          Switched \<Rightarrow> Some (Switched, s)
        | Returns _ \<Rightarrow> Option.bind (finish_line e [unat a] s) (read_stdin e)) } \<and>
     m_k (sm s1) = (m_k (sm s))\<lparr>kmm := k\<rparr> \<and> typing default_dis cursor_ok (m_tty (sm s1)) (dline e) \<and>
     sh_stdin e = l_out (lines (m_tty (sm s1)) (dline e)) \<and>
     (\<exists>b. line_buffer (lines (m_tty (sm s1)) (dline e)) = Some b \<and> length b = 1024) \<and>
     strings_ok e (bm s1) \<and> cstr (bm s1) (unat a) w \<and> block_at e (bm s1) (unat a) (length w)"
proof -
  obtain t b where t: "keys (m_tty (sm s)) ks = Some t" "typing default_dis cursor_ok t (dline e)"
     "sh_stdin e = l_out (lines t (dline e))" "line_buffer (lines t (dline e)) = Some b" "length b = 1024"
     "cstr b 0 (w @ [10])" "std_contents (streams t (sh_stdin e)) = w @ [10]"
    using typed_line [OF pr keys w(1,2)] by blast
  have inv: "std_inv (streams t (sh_stdin e))" "cursor_ok (screen t)" using typing_cursor [OF t(2)] t(3) by simp_all
  obtain st where st: "std_inv st" "std_contents st = []" "read_stdin e (with_tty t s) = do {
       (r, s) \<leftarrow> run_line e (with_stdin e st (with_tty t s));
       (case r of Switched \<Rightarrow> Some (Switched, s) | Returns _ \<Rightarrow> read_stdin e s) }"
    using read_stdin_line [of "with_tty t s" e w "[]"] inv(1) t(7) w(4) typed_text(1) [OF w(1) keys] by auto
  let ?s = "with_stdin e st (with_tty t s)"
  have ok: "strings_ok e (bm ?s)" using pr by (simp add: prompt_def)
  obtain m where m: "cstr m (unat a) w" "strings_ok e m" "length m = length (bm s)"
      "run_line e ?s = do {
       (c, s) \<leftarrow> (case position (map bytes commands) w 0 of
          None \<Rightarrow> Some (Returns (), line_read e k m (length w) ?s)
        | Some i \<Rightarrow> run_command e i (line_read e k m (length w) ?s));
       (case c of
          Switched \<Rightarrow> Some (Switched, s)
        | Returns _ \<Rightarrow> do { s \<leftarrow> finish_line e [unat a] s; Some (Returns (), s) }) }"
    using run_line_word [of e ?s b w a k, OF ok _ t(5,6) w(5,3)] t(4) mem by auto
  let ?r = "line_read e k m (length w) ?s"
  have tty: "m_tty (sm ?r) = (t\<lparr>streams := (streams t)(sh_stdin e := st)\<rparr>)\<lparr>screen := vesa_hide_cursor (screen t)\<rparr>"
    by (simp add: line_read_def set_kmm_def on_screen_def with_stdin_def with_tty_def)
  have "typing default_dis cursor_ok (m_tty (sm ?r)) (dline e)"
    unfolding tty using typing_screen [OF typing_streams [OF t(2) st(1)]] t(3) inv(2) by simp
  moreover have "sh_stdin e = l_out (lines (m_tty (sm ?r)) (dline e))"
    "line_buffer (lines (m_tty (sm ?r)) (dline e)) = Some b"
    unfolding tty using t(3,4) by simp_all
  moreover have "m_k (sm ?r) = (m_k (sm s))\<lparr>kmm := k\<rparr>" "bm ?r = m"
    by (simp_all add: line_read_def set_kmm_def)
  moreover have "block_at e m (unat a) (length w)" using mem(2) m(3) by (simp add: block_at_def)
  moreover have "read_stdin e (with_tty t s) = do {
       (c, s) \<leftarrow> (case position (map bytes commands) w 0 of
          None \<Rightarrow> Some (Returns (), ?r) | Some i \<Rightarrow> run_command e i ?r);
       (case c of
          Switched \<Rightarrow> Some (Switched, s)
        | Returns _ \<Rightarrow> Option.bind (finish_line e [unat a] s) (read_stdin e)) }"
    unfolding st(3) m(4) by (auto simp: bind_assoc split: option.splits ctl.splits intro!: Option.bind_cong)
  ultimately show ?thesis using t(1,5) m(1,2) by (intro exI [of _ t] exI [of _ ?r]) auto
qed

lemma read_stdin_empty:
  assumes "prompt e s"
  shows "read_stdin e s = Some (Returns (), s)"
proof -
  let ?st = "streams (m_tty (sm s)) (sh_stdin e)"
  have "std_inv ?st" "std_contents ?st = []"
    using assms typing_cursor by (auto simp: prompt_def out_chars_def)
  then have "get_std ?st = Some (NOCHAR, ?st)" using std_contents_empty by (simp add: get_std_def)
  then show ?thesis by (simp add: read_stdin.simps [of e s] read_char_def Let_def)
qed

text \<open>C32: A line that is no command.  At the prompt, with the first \<open>r\<close> slabs of the memory manager taken, a word of 2 to
  63 characters is typed that names no command, and Enter.  The shell reads the line, copies the word
  into slab \<open>r\<close>, finds no command and is at the prompt again; in the kernel only the memory manager has
  changed.  It has got nothing back, although the shell has called \<open>kfree\<close>: slab \<open>r\<close> and the one behind it stay
  taken, the entry of the block stays in the list of allocations, and the page of the slab allocator with
  the word is marked as free.\<close>

theorem unknown_command_ignored:
  assumes "prompt e s" and "\<forall>k\<in>set ks. plain k" and "map (key_char (caps (m_tty (sm s)))) ks = w @ [10]"
    and "2 \<le> length w" and "length w < 64" and "10 \<notin> set w" and "32 \<notin> set w" and "w \<notin> set (map bytes commands)"
    and "blocks_ok (kmm (m_k (sm s))) n u r qs" and "r + 2 \<le> 560" and "block_at e (bm s) (unat (slab_at n r)) (length w)"
  shows "\<exists>t s' k'. keys (m_tty (sm s)) ks = Some t \<and> read_stdin e (with_tty t s) = Some (Returns (), s') \<and>
     prompt e s' \<and> m_k (sm s') = (m_k (sm s))\<lparr>kmm := k'\<rparr> \<and>
     blocks_ok k' n (u - {slab_page n r}) (r + 2) ((slab_at n (r + 1) + 8) # qs)"
proof -
  have "position names w i = None" if "w \<notin> set names" for names i
    using that by (induction names arbitrary: i) auto
  then have none: "position (map bytes commands) w 0 = None" using assms(8) by blast
  have len: "unat (of_nat (length w) :: u32) = length w" using assms(5) by (intro unat_of_nat_u32) simp
  have sz: "0 < (of_nat (length w) :: u32)" "of_nat (length w) < (64 :: u32)"
    unfolding word_less_nat_alt len using assms(4,5) by auto
  obtain k where k: "kmalloc (kmm (m_k (sm s))) (of_nat (length w)) = Some (slab_at n r, k)"
      "blocks_ok k n u (r + 2) ((slab_at n (r + 1) + 8) # qs)"
    using kmalloc_small [OF assms(9) sz assms(10)] by blast
  obtain k' where k': "kfree k (slab_at n r) = Some (- MEM_FREE_FAIL, k')"
      "blocks_ok k' n (u - {slab_page n r}) (r + 2) ((slab_at n (r + 1) + 8) # qs)"
    using kfree_small [OF k(2) _ assms(10), of r] by auto
  have "length w < 255" using assms(5) by simp
  then obtain t s1 b where t: "keys (m_tty (sm s)) ks = Some t"
     "read_stdin e (with_tty t s) = Option.bind (finish_line e [unat (slab_at n r)] s1) (read_stdin e)"
     "m_k (sm s1) = (m_k (sm s))\<lparr>kmm := k\<rparr>" "typing default_dis cursor_ok (m_tty (sm s1)) (dline e)"
     "sh_stdin e = l_out (lines (m_tty (sm s1)) (dline e))"
     "line_buffer (lines (m_tty (sm s1)) (dline e)) = Some b" "length b = 1024"
     "strings_ok e (bm s1)" "cstr (bm s1) (unat (slab_at n r)) w" "block_at e (bm s1) (unat (slab_at n r)) (length w)"
    using line_to_command [OF assms(1-3) _ assms(4,6,7) k(1) assms(11)] unfolding none by auto
  have "w \<noteq> []" using assms(4) by auto
  then obtain s2 where "finish_line e [unat (slab_at n r)] s1 = Some s2" "prompt e s2" "m_k (sm s2) = (m_k (sm s))\<lparr>kmm := k'\<rparr>"
    using finish_line_prompt [OF t(8,4-7,9) _ t(10), of "- MEM_FREE_FAIL" k'] k'(1) t(3) by auto
  then show ?thesis using t(1,2) read_stdin_empty k'(2) by auto
qed

section \<open>A command\<close>

lemma kmm_solo [simp]:
  "solo_ok (s\<lparr>kmm := k\<rparr>) t bs = solo_ok s t bs" "idling (s\<lparr>kmm := k\<rparr>) bs = idling s bs"
  "Born.blank (s\<lparr>kmm := k\<rparr>) p us = Born.blank s p us"
  by (simp_all add: solo_ok_def listed_ok_def idling_def blank_def placed_def)

lemma command_words:
  assumes "i < NUM_COMMANDS"
  defines "w \<equiv> bytes (commands ! i)"
  shows "position (map bytes commands) w 0 = Some i" and "2 \<le> length w" and "length w < 255" and "10 \<notin> set w"
    and "32 \<notin> set w"
proof -
  have "i \<in> set [0..<8]" using assms(1) by simp
  then have "position (map bytes commands) w 0 = Some i \<and> 2 \<le> length w \<and> length w < 255 \<and> 10 \<notin> set w \<and> 32 \<notin> set w"
    unfolding w_def by (simp add: upt_rec commands_def bytes_def) (elim disjE; simp)
  then show "position (map bytes commands) w 0 = Some i" and "2 \<le> length w" and "length w < 255" and "10 \<notin> set w"
    and "32 \<notin> set w" by blast+
qed

text \<open>C3: From the keys to the command and back to the prompt.  At the prompt, with the shell running alone, the
  name of a command is typed, and Enter.  The shell reads the line, takes memory for the word, finds the
  command and starts its process: the processor goes to a thread that begins with the function of that
  command, and the shell is blocked.  When this thread ends within its time slice, the idle thread gives its
  memory back and the shell runs alone again; whatever the command has put on the screen, and as soon as the
  word's memory has been freed, the shell is at the prompt, ready for the next line.\<close>

theorem typed_command_runs:
  assumes "prompt e s" and "\<forall>k\<in>set ks. plain k" and "i < NUM_COMMANDS"
    and "map (key_char (caps (m_tty (sm s)))) ks = bytes (commands ! i) @ [10]"
    and "kmalloc (kmm (m_k (sm s))) (of_nat (length (commands ! i))) = Some (a, ka)"
    and "block_at e (bm s) (unat a) (length (commands ! i))"
    and "length (command_functions e) = NUM_COMMANDS"
    and "solo_ok (m_k (sm s)) sh bs" and "idling (m_k (sm s)) bs" and "Born.blank (m_k (sm s)) p (sh # bs)"
    and "can_create ((m_k (sm s))\<lparr>kmm := ka\<rparr>) p k c k'" and "c \<notin> set (sh # bs)"
    and "dll heap_ops (nodes (m_k (sm s))) all_procs (map PNode procs)" and "p \<notin> set procs"
    and "unat (thread_ticks (m_k (sm s))) mod 8 + n < 8"
  shows "\<exists>t s1 k2 k3 k4. keys (m_tty (sm s)) ks = Some t \<and> read_stdin e (with_tty t s) = Some (Switched, s1) \<and>
     running (m_k (sm s1)) = c \<and> f_function (t_frame (thr (m_k (sm s1)) c)) = command_functions e ! i \<and>
     t_state (thr (m_k (sm s1)) sh) = THREAD_BLOCKED \<and>
     k_ticks n (m_k (sm s1)) = Some k2 \<and> thread_exit k2 False = Some (None, Switched, k3) \<and>
     idle_round k3 = Some (Switched, k4) \<and> solo_ok k4 sh (idle_t (m_k (sm s)) # remove1 (idle_t (m_k (sm s))) bs) \<and>
     (\<forall>x. page_used (kmm k4) x = page_used ka x) \<and>
     (\<forall>d r kf. cursor_ok d \<and> kfree (kmm k4) a = Some (r, kf) \<longrightarrow>
        (\<exists>s2. finish_line e [unat a] (s1\<lparr>sm := set_screen d ((sm s1)\<lparr>m_k := k4\<rparr>)\<rparr>) = Some s2 \<and> prompt e s2 \<and>
          m_k (sm s2) = k4\<lparr>kmm := kf\<rparr>))"
proof -
  let ?w = "bytes (commands ! i)" and ?k = "(m_k (sm s))\<lparr>kmm := ka\<rparr>"
  note w = command_words [OF assms(3)]
  have len: "length ?w = length (commands ! i)" by (simp add: bytes_def)
  obtain t s1 b where t: "keys (m_tty (sm s)) ks = Some t"
     "read_stdin e (with_tty t s) = do {
       (c, s) \<leftarrow> run_command e i s1;
       (case c of
          Switched \<Rightarrow> Some (Switched, s)
        | Returns _ \<Rightarrow> Option.bind (finish_line e [unat a] s) (read_stdin e)) }"
     "m_k (sm s1) = ?k" "typing default_dis cursor_ok (m_tty (sm s1)) (dline e)"
     "sh_stdin e = l_out (lines (m_tty (sm s1)) (dline e))"
     "line_buffer (lines (m_tty (sm s1)) (dline e)) = Some b" "length b = 1024"
     "strings_ok e (bm s1)" "cstr (bm s1) (unat a) ?w" "block_at e (bm s1) (unat a) (length ?w)"
    using line_to_command [OF assms(1,2,4) w(3,2,4,5), of a ka] assms(5,6) unfolding w(1) len by auto
  let ?f = "command_functions e ! i"
  obtain k0 k1 k2 k3 k4 where k: "proc_create ?k ''ps'' ?f (aux_addr e) = Some (p, k0)"
     "proc_wait k0 p = Some (Switched, k1)" "running k1 = c" "t_state (thr k1 sh) = THREAD_BLOCKED"
     "f_function (t_frame (thr k1 c)) = ?f" "k_ticks n k1 = Some k2"
     "thread_exit k2 False = Some (None, Switched, k3)" "idle_round k3 = Some (Switched, k4)"
     "solo_ok k4 sh (idle_t ?k # remove1 (idle_t ?k) bs)" "\<forall>x. page_used (kmm k4) x = page_used (kmm ?k) x"
    using command_life [of ?k sh bs p k c k' "''ps''" procs n ?f "aux_addr e"] assms(8-15) by auto
  have "p \<noteq> 0" using assms(11) by (simp add: can_create_def)
  moreover have "unat (of_nat i :: u32) = i" using assms(3) by (intro unat_of_nat_u32) simp
  ultimately have "run_command e i s1 = Some (Switched, s1\<lparr>sm := resume ((sm s1)\<lparr>m_k := k1\<rparr>)\<rparr>)"
    using assms(3,7) t(3) k(1,2) by (simp add: run_command_def arr_get_def after_call_def)
  then have rd: "read_stdin e (with_tty t s) = Some (Switched, s1\<lparr>sm := resume ((sm s1)\<lparr>m_k := k1\<rparr>)\<rparr>)" using t(2) by simp
  let ?s1 = "s1\<lparr>sm := resume ((sm s1)\<lparr>m_k := k1\<rparr>)\<rparr>"
  have "?w \<noteq> []" using w(2) by auto
  have fin: "\<exists>s2. finish_line e [unat a] (?s1\<lparr>sm := set_screen d ((sm ?s1)\<lparr>m_k := k4\<rparr>)\<rparr>) = Some s2 \<and> prompt e s2 \<and>
          m_k (sm s2) = k4\<lparr>kmm := kf\<rparr>" if "cursor_ok d" "kfree (kmm k4) a = Some (r, kf)" for d r kf
    using finish_line_prompt [of e "?s1\<lparr>sm := set_screen d ((sm ?s1)\<lparr>m_k := k4\<rparr>)\<rparr>" b a ?w r kf]
      t(4-10) typing_screen [OF t(4) that(1)] that(2) \<open>?w \<noteq> []\<close>
    by (simp add: set_screen_def)
  show ?thesis
    using t(1) rd k(3-10) fin by (intro exI [of _ t] exI [of _ ?s1] exI [of _ k2] exI [of _ k3] exI [of _ k4]) simp
qed

section \<open>A machine\<close>

text \<open>A memory with the first page in use, no slabs, and the list of allocations empty.\<close>

definition used_mem :: "u32 \<Rightarrow> pmem" where
  "used_mem v = (\<lambda>_. 0)(start_addr := v)"

definition few_pages :: "u32 \<Rightarrow> u32 kalloc" where
  "few_pages v = demo_pages\<lparr>kmem := used_mem v\<rparr>"

lemma few_simps [simp]: "lval (palloc_lock (few_pages v)) = 0" "kmem (few_pages v) = used_mem v"
  "free_map (few_pages v) = \<lparr>map_p = start_addr, bits = 20\<rparr>" "few_pages v\<lparr>kmem := used_mem w\<rparr> = few_pages w"
  "malloc_lock (few_pages v) = \<lparr>lval = 0, owner = None\<rparr>" "allocations (few_pages v) = \<lparr>head = 8192, tail = 8200\<rparr>"
  "default_slab (few_pages v) = \<lparr>smem = 0, mem_size = 0, free_mem_size = 0, slab_size = 64, sdata = 0\<rparr>"
  "few_pages v\<lparr>malloc_lock := \<lparr>lval = 0, owner = None\<rparr>\<rparr> = few_pages v"
  by (simp_all add: few_pages_def demo_pages_def)


abbreviation few_map :: bitmap where "few_map \<equiv> \<lparr>map_p = start_addr, bits = 20\<rparr>"

lemma few_test: "i < 32 \<Longrightarrow> bitmap_test (used_mem v) few_map i = (v AND bit_mask i \<noteq> 0)"
proof -
  assume "i < 32"
  then have "i div 32 = 0" by (simp add: word_unat_eq_iff unat_div word_less_nat_alt)
  then show ?thesis by (simp add: bitmap_test_def elem_addr_def elem_idx_def used_mem_def)
qed

lemma few_find:
  "bitmap_find_range (used_mem 1) few_map 0 20 1 False = 1"
  "bitmap_find_range (used_mem 3) few_map 0 20 1 False = 2"
  "bitmap_find_range (used_mem 7) few_map 0 20 1 False = 3"
  by (simp add: bitmap_find_range_def find_range_loop.simps few_test bit_mask_def)+

lemma few_set:
  "snd (bitmap_set_range (used_mem 1) few_map 1 1 True) = used_mem 3"
  "snd (bitmap_set_range (used_mem 3) few_map 2 1 True) = used_mem 7"
  "snd (bitmap_set_range (used_mem 7) few_map 3 1 True) = used_mem 15"
  by (simp_all add: bitmap_set_range_def for_loop.simps bitmap_set_val_def bitmap_set_def elem_addr_def elem_idx_def bit_mask_def used_mem_def Let_def)

lemma few_palloc:
  "palloc_mult (few_pages 1) 1 = Some (0x401000, few_pages 3)"
  "palloc_mult (few_pages 3) 1 = Some (0x402000, few_pages 7)"
  "palloc_mult (few_pages 7) 1 = Some (0x403000, few_pages 15)"
  by (simp_all add: palloc_mult_unlocked Let_def few_find few_set)

lemma few_kmalloc: "kmalloc (few_pages 1) 2 = Some (0x401000, few_pages 3)"
  using few_palloc(1)
  by (simp add: kmalloc_def Let_def spin_lock_acquire_def spin_free spin_lock_release_def fetch_and_add_def palloc_def ROUND_UP_def)

text \<open>The shell with the names of the commands and the space in front of the line, and 4 MB behind it.\<close>

definition cmd_env :: shell_env where
  "cmd_env = \<lparr>kb = 47, blank = 45, command_strs = demo_strs, command_functions = map of_nat [0x100..<0x108],
     dline = 0x6000, sh_stdin = 0x7000, waiter_fn = 0, aux_addr = 0\<rparr>"

definition cmd_kernel :: kstate where
  "cmd_kernel = Born.demo_shell\<lparr>kmm := few_pages 1\<rparr>"

definition cmd_shell :: shell where
  "cmd_shell = \<lparr>sm = demo_machine\<lparr>m_k := cmd_kernel\<rparr>, bm = name_bytes @ [32, 0] @ replicate 4300000 0, tok = None,
     shell_p = 0x9000, shell_cursor_on = False\<rparr>"

lemma cmd_strings: "strings_ok cmd_env (bm cmd_shell)"
proof -
  let ?b = "name_bytes @ [32, 0]" and ?r = "replicate 4300000 0 :: bmem"
  have ext: "cstr (m @ r) p w" if "cstr m p w" for m r p w
    using that by (auto simp: cstr_nth nth_append)
  have names: "list_all2 (cstr ?b) demo_strs (map bytes commands)" "cstr ?b 45 [32]" "length ?b = 47" by code_simp+
  have "list_all2 (cstr (?b @ ?r)) demo_strs (map bytes commands)"
    by (rule list_all2_mono [OF names(1)]) (rule ext)
  moreover have "cstr (?b @ ?r) 45 [32]" by (rule ext [OF names(2)])
  moreover have "list_all (\<lambda>(p, l). apart 47 1024 p l) (string_places cmd_env)" by code_simp
  moreover have "1071 \<le> length (?b @ ?r)" using names(3) by simp
  moreover have "bm cmd_shell = ?b @ ?r" by (simp add: cmd_shell_def)
  moreover have "kb cmd_env = 47" "shell_env.blank cmd_env = 45" "command_strs cmd_env = demo_strs"
    by (simp_all add: cmd_env_def)
  ultimately show ?thesis unfolding strings_ok_def by (simp del: replicate.simps cstr.simps)
qed

lemma cmd_prompt: "prompt cmd_env cmd_shell"
proof -
  have "l_out (lines demo_line 0x6000) = 0x7000"
    by (simp add: demo_line_def line_init_def terminal_init_def Let_def upd_line_def upd_ts_def upd_term_def)
  then show ?thesis
    unfolding prompt_def using cmd_strings demo_line_typing by (simp add: cmd_env_def cmd_shell_def)
qed

lemma cmd_block: "block_at cmd_env (bm cmd_shell) 0x401000 2" "block_at cmd_env (bm cmd_shell) 0x402400 2"
proof -
  have "list_all (\<lambda>(p, l). apart 0x401000 3 p l) (string_places cmd_env)"
      "list_all (\<lambda>(p, l). apart 0x402400 3 p l) (string_places cmd_env)"
    by (simp_all add: string_places_def cmd_env_def demo_strs_def commands_def apart_def)
  moreover have "length name_bytes = 45" by code_simp
  ultimately show "block_at cmd_env (bm cmd_shell) 0x401000 2" "block_at cmd_env (bm cmd_shell) 0x402400 2"
    by (simp_all add: block_at_def cmd_shell_def cmd_env_def apart_def)
qed

text \<open>The same shell with a memory that \<open>init_alloc\<close> has set up.\<close>

definition booted_shell :: "u32 kalloc \<Rightarrow> shell" where
  "booted_shell k = cmd_shell\<lparr>sm := set_kmm k (sm cmd_shell)\<rparr>"

lemma booted_simps: "m_tty (sm (booted_shell k)) = m_tty (sm cmd_shell)" "bm (booted_shell k) = bm cmd_shell"
  "kmm (m_k (sm (booted_shell k))) = k"
  by (simp_all add: booted_shell_def set_kmm_def)

lemma booted_prompt: "prompt cmd_env (booted_shell k)"
  using cmd_prompt by (simp add: prompt_def booted_simps)

lemma cmd_keys: "map (key_char (caps (m_tty (sm cmd_shell)))) [25, 31, 28] = bytes (commands ! 3) @ [10]"
    "map (key_char (caps (m_tty (sm cmd_shell)))) [35, 23, 28] = [104, 105] @ [10]"
    "\<forall>k\<in>set [25, 31, 28]. plain k" "\<forall>k\<in>set [35, 23, 28]. plain k"
  using demo_line_typing(2)
  by (simp_all add: cmd_shell_def key_char_def kc_ascii_def plain_def bytes_def commands_def)

theorem unknown_command_ignored_witness:
  "\<exists>k t s' k'. kmalloc k 2 = Some (0x402400, k') \<and>
     keys (m_tty (sm (booted_shell k))) [35, 23, 28] = Some t \<and>
     read_stdin cmd_env (with_tty t (booted_shell k)) = Some (Returns (), s') \<and> prompt cmd_env s' \<and>
     \<not> page_used (kmm (m_k (sm s'))) 2"
proof -
  obtain k :: "u32 kalloc" where k: "blocks_ok k 2816 {0..<11} 0 []" by (rule booted_memory)
  note pk = booted_prompt [of k] cmd_keys(4) cmd_keys(2) [folded booted_simps(1) [of k]]
  have b: "block_at cmd_env (bm (booted_shell k)) (unat (slab_at 2816 0)) (length [104, 105 :: u8])"
  proof -
    have "unat (slab_at 2816 0) = 0x402400" "length [104, 105 :: u8] = 2" unfolding first_slab by simp_all
    then show ?thesis using cmd_block(2) by (simp only: booted_simps)
  qed
  have kb: "blocks_ok (kmm (m_k (sm (booted_shell k)))) 2816 {0..<11} 0 []" using k by (simp only: booted_simps)
  have n: "[104, 105] \<notin> set (map bytes commands)" by code_simp
  have w: "2 \<le> length [104, 105 :: u8]" "length [104, 105 :: u8] < 64" "10 \<notin> set [104, 105 :: u8]" "32 \<notin> set [104, 105 :: u8]"
      "0 + 2 \<le> (560 :: nat)"
    by simp_all
  obtain k' where k': "kmalloc k 2 = Some (0x402400, k')"
    using kmalloc_small [OF k, of 2] first_slab by auto
  obtain t s' q where "keys (m_tty (sm (booted_shell k))) [35, 23, 28] = Some t"
      "read_stdin cmd_env (with_tty t (booted_shell k)) = Some (Returns (), s')" "prompt cmd_env s'"
      "m_k (sm s') = (m_k (sm (booted_shell k)))\<lparr>kmm := q\<rparr>"
      "blocks_ok q 2816 ({0..<11} - {slab_page 2816 0}) (0 + 2) ((slab_at 2816 (0 + 1) + 8) # [])"
    using unknown_command_ignored [OF pk(1-3) w(1-4) n kb w(5) b] by blast
  moreover from this have "\<not> page_used (kmm (m_k (sm s'))) 2" unfolding first_slab by (simp add: blocks_ok_def)
  ultimately show ?thesis using k' by blast
qed

theorem typed_command_runs_witness:
  "\<exists>t s1. keys (m_tty (sm cmd_shell)) [25, 31, 28] = Some t \<and>
     read_stdin cmd_env (with_tty t cmd_shell) = Some (Switched, s1) \<and> running (m_k (sm s1)) = 0x403000 \<and>
     f_function (t_frame (thr (m_k (sm s1)) 0x403000)) = 0x103"
proof -
  have m: "m_k (sm cmd_shell) = cmd_kernel" "kmm cmd_kernel = few_pages 1" by (simp_all add: cmd_shell_def cmd_kernel_def)
  have n: "length (commands ! 3) = 2" by (simp add: commands_def)
  have k: "kmalloc (kmm (m_k (sm cmd_shell))) (of_nat (length (commands ! 3))) = Some (0x401000, few_pages 3)"
    unfolding m n using few_kmalloc by simp
  have b: "block_at cmd_env (bm cmd_shell) (unat (0x401000 :: u32)) (length (commands ! 3))"
    unfolding n using cmd_block(1) by simp
  have f: "length (command_functions cmd_env) = NUM_COMMANDS" "command_functions cmd_env ! 3 = 0x103"
    by (simp_all add: cmd_env_def)
  have s: "solo_ok cmd_kernel 0x1000 [0x4000]" "idling cmd_kernel [0x4000]"
    "Born.blank cmd_kernel 0x402000 [0x1000, 0x4000]" "dll heap_ops (nodes cmd_kernel) all_procs (map PNode [0x9000])"
    using demo_shell_ok(1,2,4) by (simp_all add: cmd_kernel_def)
      (simp add: Born.blank_def Born.demo_shell_def demo_state_def demo_process_def demo_stream_def)
  have c: "can_create (cmd_kernel\<lparr>kmm := few_pages 3\<rparr>) 0x402000 (few_pages 7) 0x403000 (few_pages 15)"
    using few_palloc by (simp add: can_create_def palloc_def inner_def cmd_kernel_def Born.demo_shell_def demo_state_def demo_thread_def)
  have "unat (thread_ticks cmd_kernel) mod 8 + 7 < 8"
    by (simp add: cmd_kernel_def Born.demo_shell_def demo_state_def)
  from typed_command_runs [OF cmd_prompt cmd_keys(3) _ cmd_keys(1) k b f(1), unfolded m, OF _ s(1-3) c _ s(4) _ this]
  show ?thesis unfolding f(2) m by fastforce
qed

end
