(* ===== verification/Vga.thy ===== *)
theory Vga
  imports Ports
begin

text \<open>
  drivers/vga.c, the text mode driver that the framebuffer driver has replaced.  The screen is an
  array of 16-bit cells, a character and its colours, and the position of the cursor is kept by the
  display controller behind the ports 0x3D4 and 0x3D5 as well as in two static variables.
\<close>

record vga =
  vga_x :: u16
  vga_y :: u16
  vga_color :: u16
  videomem :: "nat \<Rightarrow> u16"
  vga_ports :: ports

abbreviation MAX_COLS :: u16 where "MAX_COLS \<equiv> 80"
abbreviation MAX_ROWS :: u16 where "MAX_ROWS \<equiv> 25"

definition vga_outb :: "u16 \<Rightarrow> u8 \<Rightarrow> vga \<Rightarrow> vga" where
  "vga_outb port val v = v\<lparr>vga_ports := outb port val (vga_ports v)\<rparr>"

definition vga_inb :: "u16 \<Rightarrow> vga \<Rightarrow> u8 \<times> vga" where
  "vga_inb port v = (let (x, p) = inb port (vga_ports v) in (x, v\<lparr>vga_ports := p\<rparr>))"

section \<open>The cursor\<close>

definition vga_set_cursor :: "u16 \<Rightarrow> u16 \<Rightarrow> vga \<Rightarrow> vga" where
  "vga_set_cursor x y v =
     (if y \<le> MAX_ROWS \<and> x \<le> MAX_COLS
      then let location = y * 80 + x;
               v = vga_outb 0x3D4 14 v;
               v = vga_outb 0x3D5 (ucast (drop_bit 8 location)) v;
               v = vga_outb 0x3D4 15 v;
               v = vga_outb 0x3D5 (ucast location) v
           in v\<lparr>vga_x := x, vga_y := y\<rparr>
      else v)"

definition vga_show_cursor :: "vga \<Rightarrow> vga" where "vga_show_cursor v = v"
definition vga_hide_cursor :: "vga \<Rightarrow> vga" where "vga_hide_cursor v = v"

definition get_offset :: "vga \<Rightarrow> u16 \<times> vga" where
  "get_offset v =
     (let v = vga_outb 0x3D4 0x0F v;
          (lo, v) = vga_inb 0x3D5 v;
          v = vga_outb 0x3D4 0x0E v;
          (hi, v) = vga_inb 0x3D5 v
      in (ucast lo OR push_bit 8 (ucast hi), v))"

section \<open>Printing\<close>

text \<open>\<open>(color << 8) | c\<close>: \<open>char\<close> is signed, so from 128 on the colour byte becomes 0xFF.\<close>

definition cell_of :: "u16 \<Rightarrow> u8 \<Rightarrow> u16" where
  "cell_of color c = ucast (push_bit 8 (ucast color :: u32) OR scast c)"

definition put_cell :: "u8 \<Rightarrow> vga \<Rightarrow> vga" where
  "put_cell c v = (let (offset, v) = get_offset v
     in v\<lparr>videomem := (videomem v)(unat offset := cell_of (vga_color v) c)\<rparr>)"

definition vga_scroll :: "vga \<Rightarrow> vga" where
  "vga_scroll v =
     (if vga_y v \<ge> MAX_ROWS
      then let m = fold (\<lambda>i m. m(i := m (i + 80))) [0..<24 * 80] (videomem v);
               m = fold (\<lambda>i m. m(i := cell_of (vga_color v) 32)) [24 * 80..<25 * 80] m
           in vga_set_cursor 0 24 (v\<lparr>videomem := m\<rparr>)
      else v)"

text \<open>The loop for a tab, with at most \<open>k\<close> rounds left.\<close>

fun tab_loop :: "nat \<Rightarrow> vga \<Rightarrow> vga" where
  "tab_loop 0 v = v"
| "tab_loop (Suc k) v =
     (if vga_x v < MAX_COLS
      then let v = put_cell 32 v;
               v = v\<lparr>vga_x := vga_x v + 1\<rparr>
           in tab_loop k (vga_set_cursor (vga_x v) (vga_y v) v)
      else v)"

definition vga_print_char :: "u8 \<Rightarrow> vga \<Rightarrow> vga" where
  "vga_print_char c v =
     (if c = 10
      then let v = v\<lparr>vga_y := vga_y v + 1, vga_x := 0\<rparr>
           in vga_scroll (vga_set_cursor (vga_x v) (vga_y v) v)
      else if c = 9 then tab_loop 5 v
      else let v = put_cell c v;
               v = v\<lparr>vga_x := vga_x v + 1\<rparr>
           in vga_scroll (vga_set_cursor (vga_x v) (vga_y v) v))"

definition vga_print_backspace :: "vga \<Rightarrow> vga" where
  "vga_print_backspace v =
     (let v = v\<lparr>vga_x := vga_x v - 1\<rparr>
      in vga_scroll (put_cell 32 (vga_set_cursor (vga_x v) (vga_y v) v)))"

definition print_at :: "u8 \<Rightarrow> u16 \<Rightarrow> u16 \<Rightarrow> vga \<Rightarrow> vga" where
  "print_at c x y v = (if x \<le> MAX_COLS \<and> y < MAX_ROWS then vga_print_char c (vga_set_cursor x y v) else v)"

fun vga_print :: "u8 list \<Rightarrow> vga \<Rightarrow> vga" where
  "vga_print [] v = v"
| "vga_print (c # s) v = vga_print s (vga_print_char c v)"

definition vga_println :: "u8 list \<Rightarrow> vga \<Rightarrow> vga" where
  "vga_println s v = vga_print_char 10 (vga_print s v)"

definition vga_print_align :: "u8 list \<Rightarrow> u16 \<Rightarrow> vga \<Rightarrow> vga" where
  "vga_print_align s alignment v = vga_print s (vga_set_cursor (alignment mod 8 * 10) (vga_y v) v)"

definition vga_clear_screen :: "vga \<Rightarrow> vga" where
  "vga_clear_screen v =
     vga_set_cursor 0 0
       (v\<lparr>videomem := fold (\<lambda>i m. m(i := cell_of (vga_color v) 32)) [0..<25 * 80] (videomem v)\<rparr>)"

text \<open>The bytes that \<open>vga_copy_screen\<close> copies: \<open>MAX_COLS * MAX_ROWS\<close> of them, half the screen.\<close>

definition vga_copy_screen :: "vga \<Rightarrow> u8 list" where
  "vga_copy_screen v =
     concat (map (\<lambda>i. [ucast (videomem v i), ucast (drop_bit 8 (videomem v i))]) [0..<25 * 80 div 2])"

section \<open>Colours\<close>

definition vga_set_fg_color :: "u16 \<Rightarrow> vga \<Rightarrow> vga" where
  "vga_set_fg_color c v = v\<lparr>vga_color := (vga_color v AND 0xff00) OR c\<rparr>"

definition vga_set_bg_color :: "u16 \<Rightarrow> vga \<Rightarrow> vga" where
  "vga_set_bg_color c v = v\<lparr>vga_color := (vga_color v AND 0x00ff) OR c\<rparr>"

definition vga_set_color :: "u16 \<Rightarrow> u16 \<Rightarrow> vga \<Rightarrow> vga" where
  "vga_set_color fg bg v = v\<lparr>vga_color := fg OR push_bit 4 bg\<rparr>"

definition vga_get_color :: "vga \<Rightarrow> u16" where
  "vga_get_color v = vga_color v"

section \<open>Correctness\<close>

text \<open>The display controller: the index last written to 0x3D4 selects a register, and a write to
  0x3D5 sets it.  \<open>crtc\<close> says that it gives a register back when it is read.\<close>

fun crtc_index :: "port_access list \<Rightarrow> u8" where
  "crtc_index [] = 0"
| "crtc_index (Outb q v # l) = (if q = 0x3D4 then v else crtc_index l)"
| "crtc_index (_ # l) = crtc_index l"

fun crtc_reg :: "u8 \<Rightarrow> port_access list \<Rightarrow> u8" where
  "crtc_reg r [] = 0"
| "crtc_reg r (Outb q v # l) = (if q = 0x3D5 \<and> crtc_index l = r then v else crtc_reg r l)"
| "crtc_reg r (_ # l) = crtc_reg r l"

definition crtc :: "ports \<Rightarrow> bool" where
  "crtc p \<longleftrightarrow> (\<forall>l. dev p l 0x3D5 = ucast (crtc_reg (crtc_index (rev l)) (rev l)))"

definition reg_at :: "vga \<Rightarrow> u8 \<Rightarrow> u8" where
  "reg_at v r = crtc_reg r (rev (port_log (vga_ports v)))"

lemma crtc_outb: "crtc (vga_ports (vga_outb q x v)) = crtc (vga_ports v)"
  by (simp add: crtc_def vga_outb_def outb_def)

text \<open>The position in the controller is that of the static variables.\<close>

definition cursor_synced :: "vga \<Rightarrow> bool" where
  "cursor_synced v \<longleftrightarrow> crtc (vga_ports v) \<and>
     reg_at v 15 = ucast (vga_y v * 80 + vga_x v) \<and> reg_at v 14 = ucast (drop_bit 8 (vga_y v * 80 + vga_x v))"

lemma set_cursor_synced:
  assumes "crtc (vga_ports v)" and "y \<le> MAX_ROWS" and "x \<le> MAX_COLS"
  shows "cursor_synced (vga_set_cursor x y v) \<and> vga_x (vga_set_cursor x y v) = x \<and> vga_y (vga_set_cursor x y v) = y \<and>
     videomem (vga_set_cursor x y v) = videomem v \<and> vga_color (vga_set_cursor x y v) = vga_color v"
  using assms by (simp add: vga_set_cursor_def Let_def cursor_synced_def reg_at_def vga_outb_def outb_def crtc_def)

lemma word_from_bytes: "ucast (ucast w :: u8) OR push_bit 8 (ucast (ucast (drop_bit 8 w) :: u8)) = (w :: u16)"
  by (rule bit_word_eqI) (auto simp: bit_simps)

lemma byte_via_word: "(ucast (ucast (x :: u8) :: u16) :: u8) = x"
  by (rule bit_word_eqI) (auto simp: bit_simps)

lemma get_offset_synced:
  assumes "cursor_synced v"
  shows "\<exists>v'. get_offset v = (vga_y v * 80 + vga_x v, v') \<and> cursor_synced v' \<and> vga_x v' = vga_x v \<and> vga_y v' = vga_y v \<and>
     videomem v' = videomem v \<and> vga_color v' = vga_color v"
  using assms
  by (simp add: get_offset_def Let_def cursor_synced_def reg_at_def vga_outb_def outb_def vga_inb_def inb_def crtc_def
      split_def byte_via_word word_from_bytes)

text \<open>Where the controller gives back what was written to it and the cursor is on the screen, away
  from the last cell, a printable character goes to the cell at the cursor, in the current colours,
  and to no other; the cursor moves one on, at the end of a row only as far as column 80.\<close>

theorem vga_print_char_at_cursor:
  assumes "cursor_synced v" and "vga_x v < MAX_COLS" and "vga_y v < MAX_ROWS" and "c \<noteq> 10" and "c \<noteq> 9"
  shows "videomem (vga_print_char c v) = (videomem v)(80 * unat (vga_y v) + unat (vga_x v) := cell_of (vga_color v) c) \<and>
     cursor_synced (vga_print_char c v) \<and> vga_x (vga_print_char c v) = vga_x v + 1 \<and> vga_y (vga_print_char c v) = vga_y v"
proof -
  obtain v1 where v1: "get_offset v = (vga_y v * 80 + vga_x v, v1)" "cursor_synced v1" "vga_x v1 = vga_x v"
    "vga_y v1 = vga_y v" "videomem v1 = videomem v" "vga_color v1 = vga_color v"
    using get_offset_synced [OF assms(1)] by blast
  have "unat (vga_y v) < 25" "unat (vga_x v) < 80" using assms(2,3) by (simp_all add: word_less_nat_alt)
  then have off: "unat (vga_y v * 80 + vga_x v) = 80 * unat (vga_y v) + unat (vga_x v)"
    by (simp add: unat_word_ariths)
  let ?m = "(videomem v)(80 * unat (vga_y v) + unat (vga_x v) := cell_of (vga_color v) c)"
  let ?v = "v1\<lparr>videomem := ?m, vga_x := vga_x v + 1\<rparr>"
  have "crtc (vga_ports ?v)" using v1(2) by (simp add: cursor_synced_def)
  moreover have "vga_x v + 1 \<le> MAX_COLS" using assms(2) by (rule inc_le)
  moreover have "vga_y v \<le> MAX_ROWS" using assms(3) by simp
  ultimately have "cursor_synced (vga_set_cursor (vga_x v + 1) (vga_y v) ?v)"
    "vga_x (vga_set_cursor (vga_x v + 1) (vga_y v) ?v) = vga_x v + 1" "vga_y (vga_set_cursor (vga_x v + 1) (vga_y v) ?v) = vga_y v"
    "videomem (vga_set_cursor (vga_x v + 1) (vga_y v) ?v) = ?m"
    using set_cursor_synced [of ?v "vga_y v" "vga_x v + 1"] by simp_all
  moreover have "vga_print_char c v = vga_scroll (vga_set_cursor (vga_x v + 1) (vga_y v) ?v)"
    using assms(4,5) v1 off by (simp add: vga_print_char_def put_cell_def Let_def)
  ultimately show ?thesis using assms(3) by (simp add: vga_scroll_def not_le [symmetric] del: not_le)
qed

definition demo_vga :: vga where
  "demo_vga = \<lparr>vga_x = 3, vga_y = 0, vga_color = 15, videomem = (\<lambda>i. 0),
     vga_ports = \<lparr>port_log = [Outb 0x3D4 15, Outb 0x3D5 3],
       dev = (\<lambda>l p. ucast (crtc_reg (crtc_index (rev l)) (rev l)))\<rparr>\<rparr>"

theorem vga_print_char_at_cursor_witness:
  "videomem (vga_print_char 65 demo_vga) = (\<lambda>i. 0)(3 := 0x0F41)"
proof -
  have "cursor_synced demo_vga" by (simp add: cursor_synced_def demo_vga_def crtc_def reg_at_def)
  moreover have "cell_of 15 65 = 0x0F41" by (simp add: cell_of_def)
  ultimately show ?thesis using vga_print_char_at_cursor [of demo_vga 65] by (simp add: demo_vga_def)
qed

lemma take_bit_small: "unat w < 2 ^ n \<Longrightarrow> take_bit n (w :: 'a::len word) = w"
  by (simp add: word_unat_eq_iff unsigned_take_bit_eq take_bit_nat_eq_self)

text \<open>\<open>vga_set_bg_color\<close> leaves the background as it was and adds the bits of the colour to the
  foreground: the colour is not shifted to the background's bits.\<close>

theorem vga_set_bg_color_sets_foreground:
  assumes "vga_color v < 256" and "c < 16"
  shows "vga_get_color (vga_set_bg_color c v) = vga_color v OR c \<and>
     vga_get_color (vga_set_bg_color c v) AND 0xF0 = vga_color v AND 0xF0"
proof -
  have m: "(0xff :: u16) = mask 8" "(0xF0 :: u16) = push_bit 4 (mask 4)" by (simp_all add: mask_eq_exp_minus_1)
  have "take_bit 8 (vga_color v) = vga_color v"
    using assms(1) by (intro take_bit_small) (simp add: word_less_nat_alt)
  then have a: "vga_color v AND 0xff = vga_color v" by (simp add: m take_bit_eq_mask)
  have "take_bit 4 c = c"
    using assms(2) by (intro take_bit_small) (simp add: word_less_nat_alt)
  then have low: "bit c n \<Longrightarrow> n < 4" for n by (metis bit_take_bit_iff)
  have "(vga_color v OR c) AND 0xF0 = vga_color v AND 0xF0"
    unfolding m by (intro bit_word_eqI) (auto simp: bit_simps dest: low)
  then show ?thesis using a by (simp add: vga_get_color_def vga_set_bg_color_def)
qed

theorem vga_set_bg_color_sets_foreground_witness:
  "vga_get_color (vga_set_bg_color 1 (demo_vga\<lparr>vga_color := 6\<rparr>)) = 7"
  using vga_set_bg_color_sets_foreground [of "demo_vga\<lparr>vga_color := 6\<rparr>" 1] by simp

end
