(* ===== verification/Spec2Isabelle.thy ===== *)
theory Spec2Isabelle
  imports Multitask Multiboot Command Semaphores TtyProofs Vga
begin

text \<open>
  Longhorn: a 32-bit kernel for the PC, with one address space and no paging.  This library models the C
  code of the repository as functions of Isabelle/HOL and proves what its parts guarantee, and in
  places that they do not do what they mean to.

  \<^bold>\<open>The program.\<close>  \<open>kmain\<close> (kernel/kernel.c) brings up the interrupt table, the memory manager, the first
  process with its idle thread, the display and the shell, and then yields the processor for good.
  From then on everything happens in interrupts and threads: the timer (drivers/timer.c, kernel/isr.c)
  drives the round robin scheduler (kernel/thread.c) of the threads of processes (kernel/proc.c); the
  keyboard handler passes scan codes through a terminal (drivers/terminal.c) to a line discipline
  (drivers/line.c), which echoes them on the framebuffer (drivers/vesa.c behind drivers/display.c) and
  puts them into the queue (libk/stream.c) from which the shell (kernel/shell.c) reads lines, cuts them
  into words (libc/string.c) and starts a process for a command.  Memory comes as pages from a bitmap
  (libk/bitmap.c, kernel/kalloc.c) and as small blocks from a slab allocator (libk/slab.c).  Lists
  (libk/list.c), spin locks and semaphores (libk/synch.c, libk/atomic.c) and formatted output
  (libc/stdio.c) serve all of them.

  \<^bold>\<open>Conventions.\<close>  C integers keep their width: \<open>uint32_t\<close>, \<open>size_t\<close> and pointers are words of 32 bits,
  bytes words of 8, with wrap-around; a plain \<open>int\<close> is an integer where it cannot overflow.  Static and
  heap data are records that operations take and return.  An operation that may fail to return a value,
  because it dereferences NULL, divides by zero, leaves an array, or never ends, gives an option: None is
  that failure, while error codes are ordinary results.  Loops without a bound are partial functions
  whose None is divergence, so that \<open>= Some\<close> always says that the code returns.  Loops with a bound carry
  it as fuel: 1024 rounds for the loops over the line buffer, 50000 polls of the serial port, 26 arguments
  of a command; these are the bounds of the code's own loop conditions, so that they cut nothing off.  A
  context switch is the value \<open>Switched\<close>: the rest of the caller runs when its thread is resumed.  Of this rest
  the models follow what the machine sees: \<open>finish_schedule\<close>, and in Isr (\<open>resume\<close>) the acknowledgement to the
  interrupt controllers, which a new thread sends in \<open>first_switch_entry\<close> (kernel/t\_switch.asm) and an interrupted one when
  it comes back to \<open>irq_handler\<close>; for this the machine keeps for each thread the interrupt in which it lost
  the processor (\<open>m_irq\<close>), and the thread the return address on its stack.

  \<^bold>\<open>Theories and sources.\<close>

  \<^item> Prelude: error codes (include/libk/kerrors.h), counting loops, words as indices, arrays, and the
    contract of a refinement (locale \<open>simulation\<close>).
  \<^item> Lists: libk/list.c over an abstract store of nodes (locale \<open>node_store\<close>), instantiated by the nodes of
    the scheduler here and by raw memory in Kalloc.
  \<^item> Bitmap: libk/bitmap.c.  Slab: libk/slab.c.  Kalloc: kernel/kalloc.c, with the bitmap, the slab table
    and the allocation list in one physical memory.  Pages: the abstract pool of pages that the page
    allocator refines.  Blocks: small blocks from \<open>kmalloc\<close> to \<open>kfree\<close>, in a memory with some slabs taken.
  \<^item> Spinlock: libk/atomic.c and the locks of libk/synch.c, sequentially and as a step relation of any
    number of threads.  Semaphores: the semaphores of libk/synch.c.
  \<^item> Streams: libk/stream.c, both queues (locale \<open>bounded_fifo\<close>), and the list they refine.
  \<^item> Tasks: kernel/thread.c and what it uses of kernel/proc.c.  Sched and Creation: its correctness.
    Procs: the rest of kernel/proc.c.  Solo: the scheduler with a single ready thread, which it leaves in
    the ready list.  Born: \<open>proc_create\<close>, and a command from its creation to its end.  Boot: from
    \<open>init_processes\<close> to the shell that runs alone.  Starve: two runnable threads, of which the scheduler loses one.
    Multitask: three runnable threads and more, where scheduler, thread tables and page allocator together
    refine a list of tasks (an interpretation of \<open>simulation\<close>, as in Pages).
  \<^item> CString, CStringProofs: libc/string.c and libc/mem*.c on a memory of bytes.  Tokens: \<open>strtok\<close> against
    the reference function \<open>words\<close>.
  \<^item> Ports: kernel/port\_io.c and drivers/serial.c, the devices as a log and a response function.
  \<^item> Font, Vesa, VesaProofs: drivers/vga\_font.h and drivers/vesa.c.  Display: drivers/display.c (locale
    \<open>char_display\<close>, interpreted by the framebuffer and by the serial port).  Vga: drivers/vga.c.
  \<^item> Stdio, StdioProofs: libc/stdio.c, and the text that a format stands for (\<open>formatted\<close>).  Messages: its
    calls with literal formats.
  \<^item> Tty, TtyProofs: drivers/terminal.c, line.c and keyboard.c (locale \<open>line_display\<close>).
  \<^item> Bmp, BmpProofs: drivers/bmp.c.
  \<^item> Isr, IsrProofs, Preempt: kernel/isr.c and drivers/timer.c, the machine as a whole, and how timer and
    keyboard act on it.
  \<^item> Shell, Kmain, ShellProofs: kernel/shell.c and kernel/kernel.c.  Command: a typed line from the keys to
    the process of its command and back to the prompt.  Multiboot: boot/multiboot.h, the
    structures and their layout in memory.
  \<^item> Testing: testing/ and what the build with TESTS changes in \<open>kmain\<close>, the serial port and the interrupt
    table.  Kill and Bench: what the tests do with processes and with memory.  Report: their output
    (locale \<open>text_device\<close>, interpreted by the serial port).  TestingProofs and Suite: the tests pass, from
    the entry of \<open>kmain\<close> on.

  \<^bold>\<open>What is proved.\<close> For memory: the page allocator is first fit and terminates, and, with its bitmap in the
  memory that it manages, refines a pool of pages in which clients find what they stored; slabs that
  \<open>slab_free\<close> gets come back, while a block that \<open>kfree\<close> gets does not and its page is given away; after
  \<open>init_alloc\<close> both allocators are in a state in which they work.  For threads: mutual exclusion and
  progress of spin locks; every eighth tick hands the processor to the next thread, and each interrupt is
  acknowledged once when the threads were switched by the timer; notifying wakes all waiters; a new thread
  is ready with its stack set up; the boot sequence ends with the shell running alone, the idle thread
  blocked, and a command that it starts gives back the processor and its memory, if it ends within a time
  slice; a process that is killed before it runs leaves no trace in the lists and in the memory.  The four
  tests that the repository brings along pass.  Two states of the lists occur: with several threads ready
  the running one is in no list (\<open>sched_ok\<close>), with one it is the ready list (\<open>listed_ok\<close>, \<open>solo_ok\<close>).  In
  the first state, with two threads ready at every switch, the scheduler does what it should under any
  sequence of ticks, yields, wake-ups, new threads, kills and exits; from a state with one ready thread
  beside the running one it goes, within five slices, into a state in which one of the two never runs again.
  For input and output: queues refine lists, formatted output is the text that the format stands for, with
  numerals defined by their digits, glyphs and images are painted pixel by pixel, the cursor stays on the
  screen, keys are echoed, stored and read in order.  For the shell: tokens are the words of the line, the
  command found is the first of that name, \<open>ps\<close> ends; the name of a command, typed at the prompt, starts its
  process, and at its end, as after a word that is no command, the shell is at the prompt again, two slabs
  poorer.  This theory joins them: the machine runs on under any sequence of interrupts, and what is typed
  is read.  Theorems of the kind "error" show the deviations of the code from its comments at the statement
  that causes them.

  \<^bold>\<open>Parameters.\<close>  The addresses of the assembly entry points and of static data, the answers of devices to
  port reads, the contents of the boot record, and in \<open>line_init\<close> the contents of a new block are arguments of the
  definitions.

  \<^bold>\<open>Not modelled.\<close>  The assembly (boot/boot.asm, kernel/isr\_asm.asm, kernel/t\_switch.asm) beyond the two effects
  of a switch named above: stack pointers, registers, segments, interrupt stubs.  The structures of boot/multiboot.h for memory maps, modules, power management
  and palettes, which nothing uses.  The branch of \<open>print_test\<close> for a build without TESTS, where nobody calls it.
  \<open>print_bmp_header\<close>, \<open>peek_std\<close> and \<open>vesa_print_align\<close>, which are declared but have no body.  Interrupts within an operation on the
  scheduler's lists, which disable them, and within the terminal's: an interrupt is one step.  \<open>thread_create\<close> enables interrupts, so that
  they can occur while \<open>kmain\<close> still initialises or runs the tests; the theorems about the boot sequence and about the
  tests are about runs in which none is taken there.
\<close>

section \<open>The machine under interrupts\<close>

text \<open>Interrupts one after the other, each taken by the thread that runs then, and how they end.\<close>

fun interrupts_run :: "u32 list \<Rightarrow> machine \<Rightarrow> (unit ctl list \<times> machine) option" where
  "interrupts_run [] s = Some ([], s)"
| "interrupts_run (n # ns) s = do {
     (c, s) \<leftarrow> irq_handler n s;
     (cs, s) \<leftarrow> interrupts_run ns s;
     Some (c # cs, s) }"

definition timer_only_at_32 :: "machine \<Rightarrow> bool" where
  "timer_only_at_32 s \<longleftrightarrow> (\<forall>i<256. i \<noteq> 32 \<longrightarrow> interrupt_handlers s ! i \<noteq> Some TIMER_INTERRUPT_HANDLER)"

lemma timer_irq_step:
  assumes t: "ticking s rs bs" "2 \<le> length rs" and ok: "machine_ok ld s"
  defines "e \<equiv> unat (thread_ticks (m_k s)) mod 8"
  shows "\<exists>c s' rs'. irq_handler 32 s = Some (c, s') \<and> machine_ok ld s' \<and> ticking s' rs' bs \<and>
     interrupt_handlers s' = interrupt_handlers s \<and>
     running (m_k s') # rs' = rotate ((e + 1) div 8) (running (m_k s) # rs) \<and>
     unat (thread_ticks (m_k s')) mod 8 = (e + 1) mod 8 \<and> (c = Switched) = (e + 1 = 8) \<and>
     sent_to 0x20 (port_log (m_ports s')) = sent_to 0x20 (port_log (m_ports s)) @ [0x20]"
proof -
  have e: "e < 8" "(unat (thread_ticks (m_k s)) + 1) mod 8 = (e + 1) mod 8" by (simp_all add: e_def mod_Suc)
  obtain t us where rs: "rs = t # us" "us \<noteq> []" using t(2) by (cases rs; cases "tl rs") auto
  have s: "sched_ok (m_k s) rs bs" using t(1) by (simp add: ticking_def)
  show ?thesis
  proof (cases "e + 1 = 8")
    case True
    then obtain k i where k: "irq_handler 32 s = Some (Switched, m_outb 0x20 0x20 (s\<lparr>m_k := k, m_irq := i\<rparr>))"
        "ticking (m_outb 0x20 0x20 (s\<lparr>m_k := k, m_irq := i\<rparr>)) (us @ [running (m_k s)]) bs" "running k = t"
        "thread_ticks k = thread_ticks (m_k s) + 1"
      using irq_timer_switches [of s t us bs] t(1) rs e(2) by auto
    then show ?thesis
      using ok True rs unat_tick [of "thread_ticks (m_k s)"] e(2)
      by (intro exI [of _ Switched] exI [of _ "m_outb 0x20 0x20 (s\<lparr>m_k := k, m_irq := i\<rparr>)"]
            exI [of _ "us @ [running (m_k s)]"])
         (simp add: machine_ok_def)
  next
    case False
    then have "(unat (thread_ticks (m_k s)) + 1) mod 8 \<noteq> 0" using e by simp
    from timer_tick_returns [OF s this] obtain k where k: "timer_interrupt_handler (m_k s) = Some (Returns (), k)"
        "sched_ok k rs bs" "running k = running (m_k s)" "thread_ticks k = thread_ticks (m_k s) + 1"
        "\<And>u. t_frame (thr k u) = t_frame (thr (m_k s) u)"
      by auto
    have "(e + 1) div 8 = 0" using False e(1) by simp
    then show ?thesis
      using irq_timer [OF t(1)] t(1) ok False k unat_tick [of "thread_ticks (m_k s)"] e(2)
      by (intro exI [of _ "Returns ()"] exI [of _ "m_outb 0x20 0x20 (s\<lparr>m_k := k\<rparr>)"] exI [of _ rs])
         (simp add: ticking_def machine_ok_def preempted_def)
  qed
qed

lemma mod_add_div_split:
  fixes a c m :: nat
  shows "0 < m \<Longrightarrow> (a mod m + c) div m + a div m = (a + c) div m"
  using div_mult_self1 [of m "a mod m + c" "a div m"] by (simp add: add.commute add.left_commute)

lemma any_irq_step:
  assumes t: "ticking s rs bs" "2 \<le> length rs" and ok: "machine_ok ld s" and only: "timer_only_at_32 s" and n: "n < 256"
  defines "e \<equiv> unat (thread_ticks (m_k s)) mod 8 + (if n = 32 then 1 else 0)"
  shows "\<exists>c s' rs'. irq_handler n s = Some (c, s') \<and> machine_ok ld s' \<and> ticking s' rs' bs \<and>
     interrupt_handlers s' = interrupt_handlers s \<and>
     running (m_k s') # rs' = rotate (e div 8) (running (m_k s) # rs) \<and>
     unat (thread_ticks (m_k s')) mod 8 = e mod 8 \<and> (c = Switched) = (e = 8) \<and>
     sent_to 0x20 (port_log (m_ports s')) = sent_to 0x20 (port_log (m_ports s)) @ [0x20]"
proof (cases "n = 32")
  case True
  then show ?thesis using timer_irq_step [OF t ok] by (simp add: e_def)
next
  case False
  then have "unat n \<noteq> unat (32 :: u32)" by (simp only: word_unat_eq_iff not_False_eq_True)
  then have "interrupt_handlers s ! unat n \<noteq> Some TIMER_INTERRUPT_HANDLER"
    using only n by (simp add: timer_only_at_32_def word_less_nat_alt)
  then obtain s' where "irq_handler n s = Some (Returns (), s')" "machine_ok ld s'" "m_k s' = m_k s"
      "interrupt_handlers s' = interrupt_handlers s"
      "sent_to 0x20 (port_log (m_ports s')) = sent_to 0x20 (port_log (m_ports s)) @ [0x20]" "m_irq s' = m_irq s"
    using irq_handler_ok [OF ok n] by blast
  moreover have "e < 8" using False by (simp add: e_def)
  ultimately show ?thesis
    using t(1) False by (intro exI [of _ "Returns ()"] exI [of _ s'] exI [of _ rs])
       (simp add: ticking_def preempted_def e_def)
qed

text \<open>C1: The machine runs on under any interrupts in any order, timer, keyboard, serial port and unused ones,
  with any scan codes from the keyboard, as long as at least two threads are ready and the ready ones are
  new or were interrupted by the timer: no handler fails, the tables, the line buffer, the output
  queue and the cursor stay within their bounds, and every eighth timer interrupt, counted from the
  start of the current slice, hands the processor to the next thread of the ready list, so that no
  thread is lost or overtaken.  The first controller gets exactly one acknowledgement for each interrupt,
  also for those that switch, where the thread that goes on sends it.\<close>

theorem machine_runs:
  assumes "ticking s rs bs" and "2 \<le> length rs" and "machine_ok ld s" and "timer_only_at_32 s"
    and "\<forall>n\<in>set ns. n < 256"
  defines "switches \<equiv> (unat (thread_ticks (m_k s)) mod 8 + length (filter (\<lambda>n. n = 32) ns)) div 8"
  shows "\<exists>cs s' rs'. interrupts_run ns s = Some (cs, s') \<and> machine_ok ld s' \<and> ticking s' rs' bs \<and>
     running (m_k s') # rs' = rotate switches (running (m_k s) # rs) \<and>
     length (filter (\<lambda>c. c = Switched) cs) = switches \<and>
     sent_to 0x20 (port_log (m_ports s')) = sent_to 0x20 (port_log (m_ports s)) @ replicate (length ns) 0x20"
  using assms(1-5) unfolding switches_def
proof (induction ns arbitrary: s rs)
  case Nil
  then show ?case by (auto simp: machine_ok_def)
next
  case (Cons n ns)
  let ?e = "unat (thread_ticks (m_k s)) mod 8" and ?d = "if n = 32 then 1 else 0 :: nat"
  have "n < 256" using Cons.prems(5) by simp
  then obtain c s1 rs1 where s1: "irq_handler n s = Some (c, s1)" "machine_ok ld s1" "ticking s1 rs1 bs"
     "interrupt_handlers s1 = interrupt_handlers s"
     "running (m_k s1) # rs1 = rotate ((?e + ?d) div 8) (running (m_k s) # rs)"
     "unat (thread_ticks (m_k s1)) mod 8 = (?e + ?d) mod 8" "(c = Switched) = (?e + ?d = 8)"
     "sent_to 0x20 (port_log (m_ports s1)) = sent_to 0x20 (port_log (m_ports s)) @ [0x20]"
    using any_irq_step [OF Cons.prems(1-4)] by blast
  let ?c = "length (filter (\<lambda>n. n = 32) ns)"
  have len: "2 \<le> length rs1" using arg_cong [OF s1(5), of length] Cons.prems(2) by simp
  have "timer_only_at_32 s1" using Cons.prems(4) s1(4) by (simp add: timer_only_at_32_def)
  from Cons.IH [OF s1(3) len s1(2) this] obtain cs s' rs' where
     s': "interrupts_run ns s1 = Some (cs, s')" "machine_ok ld s'" "ticking s' rs' bs"
     "running (m_k s') # rs' = rotate (((?e + ?d) mod 8 + ?c) div 8) (running (m_k s1) # rs1)"
     "length (filter (\<lambda>c. c = Switched) cs) = ((?e + ?d) mod 8 + ?c) div 8"
     "sent_to 0x20 (port_log (m_ports s')) = sent_to 0x20 (port_log (m_ports s1)) @ replicate (length ns) 0x20"
    using Cons.prems(5) unfolding s1(6) by auto
  have "?e \<le> 7" using mod_less_divisor [of 8 "unat (thread_ticks (m_k s))"] by linarith
  then have le: "?e + ?d \<le> 8" by simp
  then have sum: "((?e + ?d) mod 8 + ?c) div 8 + (?e + ?d) div 8 = (?e + (?d + ?c)) div 8"
    using mod_add_div_split [of 8 "?e + ?d" ?c] by (simp only: add.assoc)
  have cnt: "length (filter (\<lambda>n. n = 32) (n # ns)) = ?d + ?c" by simp
  show ?case
    unfolding cnt
  proof (intro exI conjI)
    show "interrupts_run (n # ns) s = Some (c # cs, s')" using s1(1) s'(1) by simp
    show "machine_ok ld s'" "ticking s' rs' bs" by fact+
    show "running (m_k s') # rs' = rotate ((?e + (?d + ?c)) div 8) (running (m_k s) # rs)"
      using s'(4) unfolding s1(5) rotate_rotate sum .
    show "length (filter (\<lambda>c. c = Switched) (c # cs)) = (?e + (?d + ?c)) div 8"
      using s'(5) s1(7) le sum by (cases "?e + ?d = 8") auto
    show "sent_to 0x20 (port_log (m_ports s')) = sent_to 0x20 (port_log (m_ports s)) @ replicate (length (n # ns)) 0x20"
      using s'(6) s1(8) by simp
  qed
qed

definition demo_running :: machine where
  "demo_running = register_interrupt_handler IRQ01 KEYBOARD_HANDLER demo_ticking"

theorem machine_runs_witness:
  "\<exists>cs s'. interrupts_run ([33, 32, 44] @ replicate 8 32) demo_running = Some (cs, s') \<and>
     running (m_k s') = 0x2000 \<and> length (filter (\<lambda>c. c = Switched) cs) = 1 \<and> machine_ok 0x6000 s' \<and>
     sent_to 0x20 (port_log (m_ports s')) = replicate 11 0x20"
proof -
  have t: "ticking demo_running [0x2000, 0x3000] [0x4000]"
    using demo_sched by (simp add: ticking_def demo_running_def demo_ticking_def preempted_def demo_frames)
  have ok: "machine_ok 0x6000 demo_running"
    using demo_line_typing(1) by (simp add: machine_ok_def typing_def demo_running_def demo_ticking_def)
  have "interrupt_handlers demo_machine ! i = None" if "i < 256" for i using that by (simp add: demo_machine_def)
  then have only: "timer_only_at_32 demo_running"
    by (simp add: timer_only_at_32_def demo_running_def demo_ticking_def nth_list_update)
  have start: "running (m_k demo_running) = 0x1000" "unat (thread_ticks (m_k demo_running)) mod 8 = 0"
    by (simp_all add: demo_running_def demo_ticking_def demo_state_def)
  have cnt: "length (filter (\<lambda>n. n = 32) ([33, 32, 44] @ replicate 8 32 :: u32 list)) = 9" by simp
  have log: "sent_to 0x20 (port_log (m_ports demo_running)) = []" "length ([33, 32, 44] @ replicate 8 32 :: u32 list) = 11"
    by (simp_all add: demo_running_def demo_ticking_def)
  have two: "2 \<le> length [0x2000, 0x3000 :: u32]" by simp
  have ns: "\<forall>n\<in>set ([33, 32, 44] @ replicate 8 32 :: u32 list). n < 256" by simp
  obtain cs s' rs' where r: "interrupts_run ([33, 32, 44] @ replicate 8 32) demo_running = Some (cs, s')"
      "machine_ok 0x6000 s'" "running (m_k s') # rs' = rotate ((0 + 9) div 8) [0x1000, 0x2000, 0x3000]"
      "length (filter (\<lambda>c. c = Switched) cs) = (0 + 9) div 8" "sent_to 0x20 (port_log (m_ports s')) = [] @ replicate 11 0x20"
    using machine_runs [OF t two ok only ns] unfolding cnt start log by (elim exE conjE) (rule that)
  have "running (m_k s') = 0x2000" "length (filter (\<lambda>c. c = Switched) cs) = 1" using r(3,4) by simp_all
  then show ?thesis using r(1,2,5) unfolding append_Nil by blast
qed

section \<open>From the keyboard to the reader\<close>

text \<open>C16: What is typed is what the process reads: the characters of plain keys on an empty line, at most
  255 of them, come out of the process's queue in the order of the keys, each once.\<close>

theorem typed_is_read:
  assumes "typing default_dis cursor_ok s ld" and "line_buffer (lines s ld) = Some b" and "1024 \<le> length b"
    and "\<forall>k\<in>set ks. plain k" and "unat (buffer_i (lines s ld)) + length ks \<le> 1023"
    and "out_chars s ld = []" and "length ks \<le> 255"
  shows "\<exists>s' st. keys s ks = Some s' \<and>
     drain get_std (length ks) (streams s' (l_out (lines s' ld))) = Some (map (key_char (caps s)) ks, st) \<and>
     std_contents st = []"
proof -
  obtain s' where s': "keys s ks = Some s'" "typing default_dis cursor_ok s' ld" "typed s ld b (map (key_char (caps s)) ks) s'"
    using vl.typing_keys [OF assms(1-5)] by blast
  let ?st = "streams s' (l_out (lines s' ld))"
  have "std_inv ?st" using s'(2) by (simp add: typing_def kb_ok_def line_ok_def)
  moreover have "std_contents ?st = map (key_char (caps s)) ks"
    using s'(3) assms(6,7) by (auto simp: typed_def Let_def out_chars_def)
  ultimately show ?thesis using std.drain_prefix [of ?st "length ks"] s'(1) by auto
qed

theorem typed_is_read_witness:
  "\<exists>s' st. keys demo_line [35, 23] = Some s' \<and>
     drain get_std 2 (streams s' (l_out (lines s' 0x6000))) = Some ([104, 105], st) \<and> std_contents st = []"
proof -
  have "\<forall>k\<in>set [35, 23]. plain k" by (simp add: plain_def)
  moreover have "map (key_char (caps demo_line)) [35, 23] = [104, 105]"
    using demo_line_typing(2) by (simp add: key_char_def kc_ascii_def)
  moreover have "length [35, 23 :: u8] = 2" by simp
  moreover have "unat (buffer_i (lines demo_line 0x6000)) + length [35, 23 :: u8] \<le> 1023" "length [35, 23 :: u8] \<le> 255"
    by (simp_all add: demo_line_typing(3))
  ultimately show ?thesis
    using typed_is_read [OF demo_line_typing(1,4), of "[35, 23]", OF _ _ _ demo_line_typing(5)]
    by (simp add: numeral_2_eq_2 del: drain.simps keys.simps)
qed

end
